(* ===== verification/Prelude.thy ===== *)
theory Prelude
  imports Main "HOL-Library.Char_ord" "HOL-Library.List_Lexorder" "HOL-Library.Product_Lexorder"
begin

text \<open>
  Shared vocabulary of the development: raised exceptions as values, operations on a
  database state, SQLite tables as lists of rows, Python string helpers, and runs of a
  component's operations.

  Conventions used by every theory:
  \<^item> a table is the list of its rows in rowid (insertion) order;
  \<^item> text is a list of code points below 256;
  \<^item> an instant is the number of microseconds of an aware UTC datetime; the code stores
    the ISO-8601 text of such datetimes and lets SQLite compare the texts;
  \<^item> a random identifier (uuid4, token_urlsafe) is an argument of the operation that
    draws it, and what the code relies on (it is fresh) is a hypothesis;
  \<^item> an isinstance check is discharged by the type of the argument, unless the argument
    may really be absent, in which case it is an option.
\<close>

named_theorems table_simps \<open>rewriting of lookups through table updates\<close>
named_theorems op_defs \<open>definitions of the database operations\<close>

section \<open>Exceptions and results\<close>

datatype exc_class =
    ValueError | TypeError | RuntimeError | IntegrityError
  | TaskGraphError
  | AuthorityStateError | AuthorityTransitionPolicyError | AgentAuthorityError
  | EffectiveCapabilityError | CapabilityGrantStoreError | TrustAuthorityError
  | ExecutionAttemptError | ExecutionRecoveryError | RecoveryEvidenceError
  | ExecutionRecoveryCoordinatorError | RecoveryTrustError
  | CaseValidationError | CaseRoundError | OverflowError | RecursionError | KeyError
  | AgentIdentityError | AgentIdentitySignatureError | SignedActionIntentError
  | CapabilityGrantError | CapabilitySignatureError | ExecutionGateError | OutcomeContractError
  | ExecutionRetryAuthorizationError | OutcomeVerifierRegistryError | OutcomeVerificationError
  | ExperimentDossierError | LabExecutionReceiptError | IndependentRunnerAttestationError
  | AttestationReplayRegistryError | ReplayAnchorUnavailable | ReplayRecoveryError
  | ReplayCheckpointError | AttestationError | AttestationRegistryError
  | OtherError

datatype exc = Exc (exc_cls: exc_class) (exc_msg: string)

type_synonym 'a result = "exc + 'a"
type_synonym instant = int

abbreviation raise :: "exc_class \<Rightarrow> string \<Rightarrow> 'a result" where
  "raise c m \<equiv> Inl (Exc c m)"

fun bindR :: "'a result \<Rightarrow> ('a \<Rightarrow> 'b result) \<Rightarrow> 'b result" where
  "bindR (Inl e) f = Inl e"
| "bindR (Inr x) f = f x"

lemma bindR_Inr_iff: "bindR m f = Inr y \<longleftrightarrow> (\<exists>x. m = Inr x \<and> f x = Inr y)"
  by (cases m) auto

lemma bindR_assoc [simp]: "bindR (bindR m f) g = bindR m (\<lambda>x. bindR (f x) g)"
  by (cases m) auto

text \<open>
  A handler that commits several times before it may raise is a state transformer whose
  state survives the exception: what was committed stays committed.
\<close>

type_synonym ('s, 'a) op = "'s \<Rightarrow> 'a result \<times> 's"

definition retS :: "'a \<Rightarrow> ('s, 'a) op" where
  "retS x = (\<lambda>s. (Inr x, s))"

definition failS :: "exc_class \<Rightarrow> string \<Rightarrow> ('s, 'a) op" where
  "failS c m = (\<lambda>s. (Inl (Exc c m), s))"

definition bindS :: "('s, 'a) op \<Rightarrow> ('a \<Rightarrow> ('s, 'b) op) \<Rightarrow> ('s, 'b) op" where
  "bindS m f = (\<lambda>s. case m s of (Inl e, s') \<Rightarrow> (Inl e, s') | (Inr x, s') \<Rightarrow> f x s')"

definition readS :: "('s \<Rightarrow> 'a result) \<Rightarrow> ('s, 'a) op" where
  "readS f = (\<lambda>s. (f s, s))"

text \<open>An operation that either raises and changes nothing, or returns and commits.\<close>

definition commitS :: "('s \<Rightarrow> ('a \<times> 's) result) \<Rightarrow> ('s, 'a) op" where
  "commitS f = (\<lambda>s. case f s of Inl e \<Rightarrow> (Inl e, s) | Inr (x, s') \<Rightarrow> (Inr x, s'))"

text \<open>The classes that derive from ValueError: those of the classes above.\<close>

definition value_error :: "exc_class \<Rightarrow> bool" where
  "value_error c \<longleftrightarrow> c \<notin> {TypeError, RuntimeError, IntegrityError, OverflowError, RecursionError, KeyError, OtherError}"

text \<open>The classes \<^verbatim>\<open>except (..., TypeError, ValueError)\<close> catches.\<close>

definition type_or_value :: "exc_class \<Rightarrow> bool" where
  "type_or_value c \<longleftrightarrow> c = TypeError \<or> value_error c"

text \<open>try/except around a computation: the classes \<open>p\<close> become another exception.\<close>

definition rescue :: "(exc_class \<Rightarrow> bool) \<Rightarrow> (exc \<Rightarrow> exc) \<Rightarrow> 'a result \<Rightarrow> 'a result" where
  "rescue p f r = (case r of Inl e \<Rightarrow> (if p (exc_cls e) then Inl (f e) else Inl e) | Inr x \<Rightarrow> Inr x)"

lemma rescue_Inr_iff [simp]: "rescue p f r = Inr x \<longleftrightarrow> r = Inr x"
  by (cases r) (auto simp: rescue_def)

lemma rescue_Inr [simp]: "rescue p f (Inr x) = Inr x"
  by (simp add: rescue_def)

text \<open>A check that raises.\<close>

definition ensure :: "bool \<Rightarrow> exc_class \<Rightarrow> string \<Rightarrow> unit result" where
  "ensure b c m = (if b then Inr () else raise c m)"

lemma ensure_simps [simp]: "ensure True c m = Inr ()" "ensure False c m = raise c m"
  by (simp_all add: ensure_def)

lemma ensure_Inr_iff [simp]: "ensure b c m = Inr u \<longleftrightarrow> b"
  by (simp add: ensure_def)

text \<open>try/except around one operation: a caught class becomes another exception.\<close>

definition catchS :: "exc_class \<Rightarrow> exc_class \<Rightarrow> string \<Rightarrow> ('s, 'a) op \<Rightarrow> ('s, 'a) op" where
  "catchS c c' m p = (\<lambda>s. case p s of
      (Inl e, s') \<Rightarrow> (if exc_cls e = c then (Inl (Exc c' m), s') else (Inl e, s'))
    | (Inr x, s') \<Rightarrow> (Inr x, s'))"

text \<open>try/except with a handler of its own.\<close>

definition tryS :: "('s, 'a) op \<Rightarrow> (exc \<Rightarrow> ('s, 'a) op) \<Rightarrow> ('s, 'a) op" where
  "tryS m h = (\<lambda>s. case m s of (Inl e, s') \<Rightarrow> h e s' | (Inr x, s') \<Rightarrow> (Inr x, s'))"

definition raiseS :: "exc \<Rightarrow> ('s, 'a) op" where
  "raiseS e = (\<lambda>s. (Inl e, s))"

text \<open>A computation that touches no state.\<close>

definition liftS :: "'a result \<Rightarrow> ('s, 'a) op" where
  "liftS r = (\<lambda>s. (r, s))"

lemma raiseS_apply [simp]: "raiseS e s = (Inl e, s)"
  by (simp add: raiseS_def)

lemma liftS_apply [simp]: "liftS r s = (r, s)"
  by (simp add: liftS_def)

lemma tryS_Inl [simp]: "m s = (Inl e, s') \<Longrightarrow> tryS m h s = h e s'"
  by (simp add: tryS_def)

lemma tryS_Inr [simp]: "m s = (Inr x, s') \<Longrightarrow> tryS m h s = (Inr x, s')"
  by (simp add: tryS_def)

lemma bindS_Inr_iff: "bindS m f s = (Inr y, s') \<longleftrightarrow> (\<exists>x s1. m s = (Inr x, s1) \<and> f x s1 = (Inr y, s'))"
  by (auto simp: bindS_def split: prod.splits sum.splits)

lemma commitS_Inr_iff: "commitS f s = (Inr x, s') \<longleftrightarrow> f s = Inr (x, s')"
  by (auto simp: commitS_def split: sum.splits)

lemma tryS_Inr_iff:
  "(\<And>e s1. \<exists>e'. fst (h e s1) = Inl e') \<Longrightarrow> tryS m h s = (Inr x, s') \<longleftrightarrow> m s = (Inr x, s')"
  by (auto simp: tryS_def split: prod.splits sum.splits) (metis fst_conv sum.distinct(1))

lemma bindS_raises: "(\<And>x s1. \<exists>e'. fst (f x s1) = Inl e') \<Longrightarrow> \<exists>e'. fst (bindS m f s) = Inl e'"
  by (auto simp: bindS_def split: prod.splits sum.splits)

lemma retS_apply [simp]: "retS x s = (Inr x, s)"
  by (simp add: retS_def)

lemma failS_apply [simp]: "failS c m s = (Inl (Exc c m), s)"
  by (simp add: failS_def)

lemma readS_apply [simp]: "readS f s = (f s, s)"
  by (simp add: readS_def)

lemma bindS_Inl [simp]: "m s = (Inl e, s') \<Longrightarrow> bindS m f s = (Inl e, s')"
  by (simp add: bindS_def)

lemma bindS_Inr [simp]: "m s = (Inr x, s') \<Longrightarrow> bindS m f s = f x s'"
  by (simp add: bindS_def)

text \<open>A for loop over the items of a list, each iteration an operation.\<close>

fun forS :: "('x \<Rightarrow> ('s, unit) op) \<Rightarrow> 'x list \<Rightarrow> ('s, unit) op" where
  "forS f [] = retS ()"
| "forS f (x # xs) = bindS (f x) (\<lambda>_. forS f xs)"

text \<open>
  A property of the state that every sub-operation keeps is kept by the composed
  handler, whether it returns or raises. This is the rule by which invariants pass
  through handlers with partial commits.
\<close>

definition preserves :: "('s \<Rightarrow> bool) \<Rightarrow> ('s, 'a) op \<Rightarrow> bool" where
  "preserves P m \<longleftrightarrow> (\<forall>s. P s \<longrightarrow> P (snd (m s)))"

named_theorems preserves_intros \<open>rules for invariants of composed handlers\<close>

lemma preservesI: "(\<And>s. P s \<Longrightarrow> P (snd (m s))) \<Longrightarrow> preserves P m"
  by (simp add: preserves_def)

lemma preservesD: "preserves P m \<Longrightarrow> P s \<Longrightarrow> P (snd (m s))"
  by (simp add: preserves_def)

lemma preserves_retS [preserves_intros]: "preserves P (retS x)"
  by (simp add: preserves_def)

lemma preserves_failS [preserves_intros]: "preserves P (failS c m)"
  by (simp add: preserves_def)

lemma preserves_readS [preserves_intros]: "preserves P (readS f)"
  by (simp add: preserves_def)

lemma preserves_bindS [preserves_intros]:
  "preserves P m \<Longrightarrow> (\<And>x. preserves P (f x)) \<Longrightarrow> preserves P (bindS m f)"
  by (fastforce simp: preserves_def bindS_def split: prod.splits sum.splits)

lemma preserves_commitS [preserves_intros]:
  "(\<And>s x s'. P s \<Longrightarrow> f s = Inr (x, s') \<Longrightarrow> P s') \<Longrightarrow> preserves P (commitS f)"
  by (auto simp: preserves_def commitS_def split: sum.splits)

lemma preserves_catchS [preserves_intros]:
  "preserves P p \<Longrightarrow> preserves P (catchS c c' m p)"
  by (fastforce simp: preserves_def catchS_def split: prod.splits sum.splits)

lemma preserves_tryS [preserves_intros]:
  "preserves P m \<Longrightarrow> (\<And>e. preserves P (h e)) \<Longrightarrow> preserves P (tryS m h)"
  by (fastforce simp: preserves_def tryS_def split: prod.splits sum.splits)

lemma preserves_raiseS [preserves_intros]: "preserves P (raiseS e)"
  by (simp add: preserves_def)

lemma preserves_liftS [preserves_intros]: "preserves P (liftS r)"
  by (simp add: preserves_def)

lemma preserves_conj: "preserves P m \<Longrightarrow> preserves Q m \<Longrightarrow> preserves (\<lambda>s. P s \<and> Q s) m"
  by (simp add: preserves_def)

lemma preserves_if [preserves_intros]:
  "(b \<Longrightarrow> preserves P m) \<Longrightarrow> (\<not> b \<Longrightarrow> preserves P m') \<Longrightarrow> preserves P (if b then m else m')"
  by simp

lemma preserves_case_option [preserves_intros]:
  "(x = None \<Longrightarrow> preserves P m) \<Longrightarrow> (\<And>y. x = Some y \<Longrightarrow> preserves P (f y)) \<Longrightarrow>
   preserves P (case x of None \<Rightarrow> m | Some y \<Rightarrow> f y)"
  by (cases x) simp_all

lemma preserves_forS [preserves_intros]:
  "(\<And>x. x \<in> set xs \<Longrightarrow> preserves P (f x)) \<Longrightarrow> preserves P (forS f xs)"
  by (induction xs) (auto intro!: preserves_intros)

section \<open>Tables\<close>

text \<open>UPDATE ... SET f WHERE p, and its row count.\<close>

definition update_where :: "('r \<Rightarrow> bool) \<Rightarrow> ('r \<Rightarrow> 'r) \<Rightarrow> 'r list \<Rightarrow> 'r list" where
  "update_where p f tab = map (\<lambda>r. if p r then f r else r) tab"

definition count_where :: "('r \<Rightarrow> bool) \<Rightarrow> 'r list \<Rightarrow> nat" where
  "count_where p tab = length (filter p tab)"

text \<open>SELECT ... WHERE key = ? on a table whose key column is its primary key.\<close>

definition lookup_row :: "('r \<Rightarrow> 'k) \<Rightarrow> 'r list \<Rightarrow> 'k \<Rightarrow> 'r option" where
  "lookup_row key tab k = find (\<lambda>r. key r = k) tab"

text \<open>PRIMARY KEY or UNIQUE constraint on a column.\<close>

definition key_unique :: "('r \<Rightarrow> 'k) \<Rightarrow> 'r list \<Rightarrow> bool" where
  "key_unique key tab \<longleftrightarrow> distinct (map key tab)"

lemma update_where_Nil [simp]: "update_where p f [] = []"
  by (simp add: update_where_def)

lemma update_where_Cons [simp]:
  "update_where p f (r # tab) = (if p r then f r else r) # update_where p f tab"
  by (simp add: update_where_def)

lemma length_update_where [simp]: "length (update_where p f tab) = length tab"
  by (simp add: update_where_def)

lemma map_update_where [simp]:
  "(\<And>r. p r \<Longrightarrow> g (f r) = g r) \<Longrightarrow> map g (update_where p f tab) = map g tab"
  by (auto simp: update_where_def)

lemma set_update_whereE:
  assumes "r \<in> set (update_where p f tab)"
  obtains r0 where "r0 \<in> set tab" "r = (if p r0 then f r0 else r0)"
  using assms by (auto simp: update_where_def)

lemma key_unique_update_where [simp]:
  "(\<And>r. p r \<Longrightarrow> key (f r) = key r) \<Longrightarrow> key_unique key (update_where p f tab) = key_unique key tab"
  by (simp add: key_unique_def)

lemma key_unique_filter: "key_unique key tab \<Longrightarrow> key_unique key (filter p tab)"
  by (simp add: key_unique_def distinct_map_filter)

lemma key_unique_Nil [simp]: "key_unique key []"
  by (simp add: key_unique_def)

lemma key_unique_snoc [simp]:
  "key_unique key (tab @ [r]) \<longleftrightarrow> key_unique key tab \<and> lookup_row key tab (key r) = None"
  by (auto simp: key_unique_def lookup_row_def find_None_iff) (metis imageI)

lemma lookup_row_Nil [simp]: "lookup_row key [] k = None"
  by (simp add: lookup_row_def)

lemma lookup_row_Cons [simp]:
  "lookup_row key (r # tab) k = (if key r = k then Some r else lookup_row key tab k)"
  by (simp add: lookup_row_def)

lemma lookup_row_SomeD: "lookup_row key tab k = Some r \<Longrightarrow> r \<in> set tab \<and> key r = k"
  by (auto simp: lookup_row_def find_Some_iff)

lemma lookup_row_None_iff: "lookup_row key tab k = None \<longleftrightarrow> (\<forall>r \<in> set tab. key r \<noteq> k)"
  by (auto simp: lookup_row_def find_None_iff)

lemma lookup_row_mem:
  "key_unique key tab \<Longrightarrow> r \<in> set tab \<Longrightarrow> lookup_row key tab (key r) = Some r"
  by (induction tab) (auto simp: key_unique_def)

lemma key_unique_eq:
  "key_unique key tab \<Longrightarrow> r \<in> set tab \<Longrightarrow> q \<in> set tab \<Longrightarrow> key r = key q \<Longrightarrow> r = q"
  using lookup_row_mem by (metis option.inject)

lemma lookup_row_iff:
  "key_unique key tab \<Longrightarrow> lookup_row key tab k = Some r \<longleftrightarrow> r \<in> set tab \<and> key r = k"
  using lookup_row_mem lookup_row_SomeD by metis

lemma lookup_row_snoc [table_simps]:
  "lookup_row key (tab @ [r]) k =
     (case lookup_row key tab k of Some x \<Rightarrow> Some x | None \<Rightarrow> if key r = k then Some r else None)"
  by (induction tab) auto

lemma lookup_row_update_where [table_simps]:
  "(\<And>r. p r \<Longrightarrow> key (f r) = key r) \<Longrightarrow>
   lookup_row key (update_where p f tab) k =
     map_option (\<lambda>r. if p r then f r else r) (lookup_row key tab k)"
  by (induction tab) auto

lemma count_where_zero_iff: "count_where p tab = 0 \<longleftrightarrow> (\<forall>r \<in> set tab. \<not> p r)"
  by (auto simp: count_where_def filter_empty_conv)

lemma count_where_key:
  assumes "key_unique key tab"
  shows "count_where (\<lambda>r. key r = k \<and> q r) tab =
    (case lookup_row key tab k of Some r \<Rightarrow> if q r then 1 else 0 | None \<Rightarrow> 0)"
  using assms
proof (induction tab)
  case Nil
  then show ?case by (simp add: count_where_def)
next
  case (Cons r tab)
  then have IH: "count_where (\<lambda>r. key r = k \<and> q r) tab =
      (case lookup_row key tab k of Some r \<Rightarrow> if q r then 1 else 0 | None \<Rightarrow> 0)"
    by (simp add: key_unique_def)
  from Cons.prems have "key r = k \<Longrightarrow> lookup_row key tab k = None"
    by (auto simp: key_unique_def lookup_row_None_iff) (metis imageI)
  with IH show ?case by (auto simp: count_where_def)
qed

lemma count_where_ids_le:
  assumes "key_unique key tab"
  shows "count_where (\<lambda>r. key r \<in> set ids) tab \<le> length ids"
proof -
  have "distinct (map key (filter (\<lambda>r. key r \<in> set ids) tab))"
    using key_unique_filter [OF assms] by (simp add: key_unique_def)
  then have "count_where (\<lambda>r. key r \<in> set ids) tab = card (set (map key (filter (\<lambda>r. key r \<in> set ids) tab)))"
    by (metis distinct_card length_map count_where_def)
  also have "\<dots> \<le> card (set ids)" by (rule card_mono) auto
  finally show ?thesis using card_length [of ids] by simp
qed

lemma update_where_noop:
  "(\<And>r. r \<in> set tab \<Longrightarrow> \<not> p r) \<Longrightarrow> update_where p f tab = tab"
  by (auto simp: update_where_def intro: map_idI)

lemma update_where_related:
  assumes "\<And>r. r \<in> set tab \<Longrightarrow> Q r (if p r then f r else r)"
  shows "\<forall>r \<in> set tab. \<exists>r' \<in> set (update_where p f tab). Q r r'"
  using assms unfolding update_where_def set_map by blast

lemma related_refl: "(\<And>r. Q r r) \<Longrightarrow> \<forall>r \<in> A. \<exists>r' \<in> A. Q r r'"
  by blast

text \<open>A growing step over a finite universe reaches its fixed point within the universe's size.\<close>

lemma iteration_reaches_fixpoint:
  fixes F :: "'a set \<Rightarrow> 'a set"
  assumes "finite U" and grows: "\<And>A. A \<subseteq> U \<Longrightarrow> A \<subseteq> F A \<and> F A \<subseteq> U" and "S \<subseteq> U" and "card U \<le> n"
  shows "F ((F ^^ n) S) = (F ^^ n) S"
proof -
  have sub: "(F ^^ k) S \<subseteq> U" for k
    using assms(3) grows by (induction k) auto
  have or: "F ((F ^^ k) S) = (F ^^ k) S \<or> k < card (F ((F ^^ k) S))" for k
  proof (induction k)
    case 0
    show ?case
    proof (cases "F S = S")
      case False
      with grows [OF assms(3)] have "F S \<noteq> {}" "finite (F S)" using assms(1) by (auto intro: finite_subset)
      then show ?thesis by (simp add: card_gt_0_iff)
    qed simp
  next
    case (Suc k)
    let ?A = "(F ^^ Suc k) S"
    show ?case
    proof (cases "F ?A = ?A")
      case False
      from Suc have "k < card ?A"
      proof
        assume "F ((F ^^ k) S) = (F ^^ k) S"
        then have "?A = (F ^^ k) S" by simp
        with \<open>F ((F ^^ k) S) = (F ^^ k) S\<close> False show ?thesis by simp
      qed simp
      moreover from grows [OF sub [of "Suc k"]] False have "?A \<subset> F ?A" "F ?A \<subseteq> U" by auto
      then have "card ?A < card (F ?A)" using assms(1) by (meson finite_subset psubset_card_mono)
      ultimately show ?thesis by simp
    qed simp
  qed
  have "card (F ((F ^^ n) S)) \<le> card U"
    using grows [OF sub] assms(1) by (intro card_mono) simp_all
  then have "\<not> n < card (F ((F ^^ n) S))" using assms(4) by linarith
  with or [of n] show ?thesis by blast
qed

lemma sort_key_Nil_iff [simp]: "sort_key k xs = [] \<longleftrightarrow> xs = []"
  by (metis length_0_conv length_sort)

text \<open>Sorting by two keys that order the elements alike.\<close>

lemma insort_key_order_cong:
  "(\<And>y. y \<in> set xs \<Longrightarrow> f x \<le> f y \<longleftrightarrow> g x \<le> g y) \<Longrightarrow> insort_key f x xs = insort_key g x xs"
  by (induction xs) auto

lemma sort_key_order_cong:
  "(\<And>x y. x \<in> set xs \<Longrightarrow> y \<in> set xs \<Longrightarrow> f x \<le> f y \<longleftrightarrow> g x \<le> g y) \<Longrightarrow> sort_key f xs = sort_key g xs"
proof (induction xs)
  case (Cons x xs)
  then have "sort_key f xs = sort_key g xs" by simp
  with Cons.prems show ?case by (auto intro: insort_key_order_cong)
qed simp

section \<open>Python strings\<close>

text \<open>The characters str.strip() removes, among code points below 256.\<close>

definition is_space :: "char \<Rightarrow> bool" where
  "is_space c \<longleftrightarrow> (let n = (of_char c :: nat) in
     (9 \<le> n \<and> n \<le> 13) \<or> (28 \<le> n \<and> n \<le> 32) \<or> n = 133 \<or> n = 160)"

definition strip :: "string \<Rightarrow> string" where
  "strip s = rev (dropWhile is_space (rev (dropWhile is_space s)))"

definition blank :: "string \<Rightarrow> bool" where
  "blank s \<longleftrightarrow> list_all is_space s"

lemma dropWhile_Nil_iff: "dropWhile p xs = [] \<longleftrightarrow> list_all p xs"
  by (induction xs) auto

lemma strip_Nil_iff: "strip s = [] \<longleftrightarrow> blank s"
proof -
  have "set s \<subseteq> {c. is_space c} \<longleftrightarrow> set (dropWhile is_space s) \<subseteq> {c. is_space c}"
    using takeWhile_dropWhile_id [of is_space s] set_takeWhileD [of _ is_space s]
    by (metis Un_subset_iff mem_Collect_eq set_append subsetI)
  then show ?thesis
    by (auto simp: strip_def blank_def list_all_iff subset_iff)
qed

lemma blank_Nil [simp]: "blank []"
  by (simp add: blank_def)

text \<open>Decimal rendering of an integer, as str(int) and f-strings produce it.\<close>

fun nat_str :: "nat \<Rightarrow> string" where
  "nat_str n = (if n < 10 then [char_of (48 + n)]
                else nat_str (n div 10) @ [char_of (48 + n mod 10)])"

declare nat_str.simps [simp del]

definition int_str :: "int \<Rightarrow> string" where
  "int_str i = (if i < 0 then CHR ''-'' # nat_str (nat (- i)) else nat_str (nat i))"

definition char_code :: "char \<Rightarrow> nat" where
  "char_code c = of_char c"

definition is_ascii_digit :: "char \<Rightarrow> bool" where
  "is_ascii_digit c \<longleftrightarrow> 48 \<le> char_code c \<and> char_code c \<le> 57"

text \<open>\<^verbatim>\<open>int(text)\<close>: surrounding whitespace, a sign, digits with single underscores between.\<close>

fun digit_groups :: "bool \<Rightarrow> string \<Rightarrow> int \<Rightarrow> int option" where
  "digit_groups after [] n = (if after then Some n else None)"
| "digit_groups after (c # cs) n =
    (if is_ascii_digit c then digit_groups True cs (10 * n + int (char_code c - 48))
     else if c = CHR ''_'' \<and> after then digit_groups False cs n
     else None)"

definition py_int :: "string \<Rightarrow> int option" where
  "py_int s = (case strip s of
      [] \<Rightarrow> None
    | c # cs \<Rightarrow> if c = CHR ''-'' then map_option uminus (digit_groups False cs 0)
                else if c = CHR ''+'' then digit_groups False cs 0
                else digit_groups False (c # cs) 0)"

section \<open>Runs\<close>

text \<open>
  A run of a component is a list of its operations applied one after another, under a
  side condition on each (identifiers drawn are fresh).
\<close>

fun run_ok :: "('o \<Rightarrow> 's \<Rightarrow> bool) \<Rightarrow> ('o \<Rightarrow> 's \<Rightarrow> 's) \<Rightarrow> 'o list \<Rightarrow> 's \<Rightarrow> bool" where
  "run_ok ok step [] s = True"
| "run_ok ok step (x # xs) s = (ok x s \<and> run_ok ok step xs (step x s))"

lemma run_ok_append:
  "run_ok ok step (xs @ ys) s \<longleftrightarrow> run_ok ok step xs s \<and> run_ok ok step ys (fold step xs s)"
  by (induction xs arbitrary: s) auto

lemma run_ok_True [simp]: "run_ok (\<lambda>_ _. True) step xs s"
  by (induction xs arbitrary: s) auto

lemma run_invariant:
  assumes "\<And>x s. P s \<Longrightarrow> ok x s \<Longrightarrow> P (step x s)"
  shows "P s \<Longrightarrow> run_ok ok step xs s \<Longrightarrow> P (fold step xs s)"
  using assms by (induction xs arbitrary: s) auto

end
