(* ===== verification/Lifecycle.thy ===== *)
theory Lifecycle
  imports Prelude
begin

text \<open>
  The contract every table with a status column shares (execution attempts, recovery
  reviews, retry operations, capability grants, attestors, disclosure rounds): an
  operation keeps the table's invariant, never removes a row's status, and moves it along
  one edge of the component's transition relation at most. What follows from it for whole
  runs is proved once here and used by each component through its interpretation.
\<close>

definition terminal_in :: "('st \<Rightarrow> 'st \<Rightarrow> bool) \<Rightarrow> 'st \<Rightarrow> bool" where
  "terminal_in allowed a \<longleftrightarrow> (\<forall>b. \<not> allowed a b)"

locale lifecycle =
  fixes status :: "'db \<Rightarrow> 'k \<Rightarrow> 'st option"
    and allowed :: "'st \<Rightarrow> 'st \<Rightarrow> bool"
    and ok :: "'op \<Rightarrow> 'db \<Rightarrow> bool"
    and step :: "'op \<Rightarrow> 'db \<Rightarrow> 'db"
    and inv :: "'db \<Rightarrow> bool"
  assumes step_inv: "inv db \<Longrightarrow> ok x db \<Longrightarrow> inv (step x db)"
    and step_moves: "inv db \<Longrightarrow> ok x db \<Longrightarrow> status db k = Some a \<Longrightarrow>
      \<exists>b. status (step x db) k = Some b \<and> (b = a \<or> allowed a b)"
begin

lemma run_inv: "inv db \<Longrightarrow> run_ok ok step xs db \<Longrightarrow> inv (fold step xs db)"
  by (rule run_invariant [of inv]) (auto intro: step_inv)

lemma run_status:
  assumes "inv db" and "run_ok ok step xs db" and "status db k = Some a"
  shows "\<exists>b. status (fold step xs db) k = Some b \<and> allowed\<^sup>*\<^sup>* a b"
  using assms
proof (induction xs arbitrary: db a)
  case Nil
  then show ?case by simp
next
  case (Cons x xs)
  from Cons.prems have ok: "ok x db" and rest: "run_ok ok step xs (step x db)" by auto
  from step_moves [OF Cons.prems(1) ok Cons.prems(3)] obtain b
    where b: "status (step x db) k = Some b" and ab: "b = a \<or> allowed a b" by blast
  from Cons.IH [OF step_inv [OF Cons.prems(1) ok] rest b] obtain c
    where "status (fold step xs (step x db)) k = Some c" and "allowed\<^sup>*\<^sup>* b c" by blast
  with ab show ?case by (auto intro: converse_rtranclp_into_rtranclp)
qed

lemma terminal_absorbing:
  assumes "inv db" and "run_ok ok step xs db" and "status db k = Some a"
    and "terminal_in allowed a"
  shows "status (fold step xs db) k = Some a"
  using run_status [OF assms(1-3)] assms(4)
  by (auto simp: terminal_in_def elim: converse_rtranclpE)

lemma unreachable_stays_unreachable:
  assumes "inv db" and "run_ok ok step xs db" and "status db k = Some a"
    and "\<not> allowed\<^sup>*\<^sup>* a c"
  shows "status (fold step xs db) k \<noteq> Some c"
  using run_status [OF assms(1-3)] assms(4) by auto

end

section \<open>Interleaved processes\<close>

text \<open>
  Several processes share one database. An operation of the code that first reads and
  later writes under a condition (a unique index, UPDATE ... WHERE state=?) is a read,
  which takes the process's snapshot, and a write computed from that snapshot against the
  database of the moment; anything may happen in between. An operation that runs inside
  one transaction ignores the snapshot.
\<close>

record 'db system =
  sys_db :: 'db
  sys_snap :: "nat \<Rightarrow> 'db"

datatype 'w event = Read nat | Write nat 'w

fun sys_step :: "('w \<Rightarrow> 'db \<Rightarrow> 'db \<Rightarrow> 'db) \<Rightarrow> 'w event \<Rightarrow> 'db system \<Rightarrow> 'db system" where
  "sys_step wr (Read p) s = s\<lparr>sys_snap := (sys_snap s)(p := sys_db s)\<rparr>"
| "sys_step wr (Write p w) s = s\<lparr>sys_db := wr w (sys_snap s p) (sys_db s)\<rparr>"

definition sys_init :: "'db \<Rightarrow> 'db system" where
  "sys_init db = \<lparr>sys_db = db, sys_snap = (\<lambda>_. db)\<rparr>"

definition sys_inv :: "('db \<Rightarrow> bool) \<Rightarrow> ('db \<Rightarrow> 'db \<Rightarrow> bool) \<Rightarrow> 'db system \<Rightarrow> bool" where
  "sys_inv I E s \<longleftrightarrow> I (sys_db s) \<and> (\<forall>p. E (sys_snap s p) (sys_db s))"

lemma sys_db_init [simp]: "sys_db (sys_init db) = db"
  by (simp add: sys_init_def)

text \<open>
  The contract of a table written from stale snapshots: \<open>evolve\<close> relates a database to
  every later one, and a write from any earlier snapshot keeps the invariant, evolves the
  database and moves each status along one edge at most.
\<close>

locale snapshot_writes =
  fixes wr :: "'w \<Rightarrow> 'db \<Rightarrow> 'db \<Rightarrow> 'db"
    and inv :: "'db \<Rightarrow> bool"
    and evolve :: "'db \<Rightarrow> 'db \<Rightarrow> bool"
    and status :: "'db \<Rightarrow> 'k \<Rightarrow> 'st option"
    and allowed :: "'st \<Rightarrow> 'st \<Rightarrow> bool"
  assumes evolve_refl: "evolve db db"
    and evolve_trans: "evolve x y \<Longrightarrow> evolve y z \<Longrightarrow> evolve x z"
    and write_inv: "inv db \<Longrightarrow> evolve snap db \<Longrightarrow> inv (wr w snap db)"
    and write_evolve: "inv db \<Longrightarrow> evolve snap db \<Longrightarrow> evolve db (wr w snap db)"
    and write_moves: "inv db \<Longrightarrow> evolve snap db \<Longrightarrow> status db k = Some a \<Longrightarrow>
      \<exists>b. status (wr w snap db) k = Some b \<and> (b = a \<or> allowed a b)"
begin

lemma sys_init_inv: "inv db \<Longrightarrow> sys_inv inv evolve (sys_init db)"
  by (simp add: sys_inv_def sys_init_def evolve_refl)

lemma sys_step_inv: "sys_inv inv evolve s \<Longrightarrow> sys_inv inv evolve (sys_step wr e s)"
proof (cases e)
  case (Write p w)
  assume s: "sys_inv inv evolve s"
  then have "inv (sys_db s)" and "evolve (sys_snap s p) (sys_db s)" by (auto simp: sys_inv_def)
  with write_inv write_evolve s show ?thesis
    by (auto simp: Write sys_inv_def intro: evolve_trans)
qed (auto simp: sys_inv_def evolve_refl)

lemma sys_step_moves:
  assumes "sys_inv inv evolve s" and "status (sys_db s) k = Some a"
  shows "\<exists>b. status (sys_db (sys_step wr e s)) k = Some b \<and> (b = a \<or> allowed a b)"
  using assms write_moves by (cases e) (auto simp: sys_inv_def)

end

sublocale snapshot_writes \<subseteq> lifecycle "\<lambda>s. status (sys_db s)" allowed "\<lambda>_ _. True"
    "sys_step wr" "sys_inv inv evolve"
  by unfold_locales (use sys_step_inv sys_step_moves in blast)+

context snapshot_writes
begin

lemma reachable_inv: "inv db \<Longrightarrow> inv (sys_db (fold (sys_step wr) es (sys_init db)))"
  using run_inv [OF sys_init_inv, of db es] by (simp add: sys_inv_def)

lemma reachable_terminal:
  assumes "inv db" and "status (sys_db (fold (sys_step wr) es (sys_init db))) k = Some a"
    and "terminal_in allowed a"
  shows "status (sys_db (fold (sys_step wr) (es @ es') (sys_init db))) k = Some a"
  using terminal_absorbing [of "fold (sys_step wr) es (sys_init db)" es' k a]
    run_inv [OF sys_init_inv [OF assms(1)], of es] assms by simp

end

end
