(* ===== verification/Attempts.thy ===== *)
theory Attempts
  imports Lifecycle
begin

text \<open>
  Execution attempts (\<^verbatim>\<open>src/shared/execution_attempt.py\<close>): the persisted state machine of
  one authorised execution, keyed by an idempotency key. \<^verbatim>\<open>create\<close> and \<^verbatim>\<open>transition\<close> read
  a row and later write conditionally (unique index, UPDATE ... WHERE state=?), so each is
  modelled over two database states, the one it read and the one it writes; the sequential
  operation is the case where both are the same. NULL columns are options; the empty
  strings that the dataclass of a fresh attempt carries are the same None.
\<close>

section \<open>States and rows\<close>

datatype attempt_state =
  AUTHORIZED | LEASED | RUNNING | SUCCEEDED | RECOVERED | FAILED | TIMED_OUT | ABORTED

fun attempt_state_value :: "attempt_state \<Rightarrow> string" where
  "attempt_state_value AUTHORIZED = ''AUTHORIZED''"
| "attempt_state_value LEASED = ''LEASED''"
| "attempt_state_value RUNNING = ''RUNNING''"
| "attempt_state_value SUCCEEDED = ''SUCCEEDED''"
| "attempt_state_value RECOVERED = ''RECOVERED''"
| "attempt_state_value FAILED = ''FAILED''"
| "attempt_state_value TIMED_OUT = ''TIMED_OUT''"
| "attempt_state_value ABORTED = ''ABORTED''"

definition all_attempt_states :: "attempt_state list" where
  "all_attempt_states =
     [AUTHORIZED, LEASED, RUNNING, SUCCEEDED, RECOVERED, FAILED, TIMED_OUT, ABORTED]"

definition parse_attempt_state :: "string \<Rightarrow> attempt_state option" where
  "parse_attempt_state s = find (\<lambda>a. attempt_state_value a = s) all_attempt_states"

definition attempt_terminal :: "attempt_state \<Rightarrow> bool" where
  "attempt_terminal a \<longleftrightarrow> a \<in> {SUCCEEDED, RECOVERED, FAILED, TIMED_OUT, ABORTED}"

fun attempt_allowed :: "attempt_state \<Rightarrow> attempt_state \<Rightarrow> bool" where
  "attempt_allowed AUTHORIZED b = (b \<in> {LEASED, ABORTED})"
| "attempt_allowed LEASED b = (b \<in> {RUNNING, TIMED_OUT, ABORTED})"
| "attempt_allowed RUNNING b = (b \<in> {SUCCEEDED, RECOVERED, FAILED, TIMED_OUT, ABORTED})"
| "attempt_allowed SUCCEEDED b = False"
| "attempt_allowed RECOVERED b = False"
| "attempt_allowed FAILED b = False"
| "attempt_allowed TIMED_OUT b = False"
| "attempt_allowed ABORTED b = False"

record attempt =
  at_attempt_id :: string
  at_task_id :: string
  at_grant_id :: string
  at_intent_hash :: string
  at_idempotency_key :: string
  at_attempt_number :: int
  at_state :: attempt_state
  at_created_at :: instant
  at_lease_expires_at :: "instant option"
  at_started_at :: "instant option"
  at_finished_at :: "instant option"
  at_executor_id :: "string option"
  at_executor_version :: "string option"
  at_executor_identity_epoch :: int
  at_receipt_id :: "string option"
  at_error :: "string option"

type_synonym attempts = "attempt list"

section \<open>Operations\<close>

text \<open>SELECT ... WHERE attempt_id=?; absent rows raise.\<close>

definition attempt_get :: "attempts \<Rightarrow> string \<Rightarrow> attempt result" where
  "attempt_get db i = (case lookup_row at_attempt_id db i of
      None \<Rightarrow> raise ExecutionAttemptError ''attempt_not_found''
    | Some r \<Rightarrow> Inr r)"

text \<open>ORDER BY attempt_number DESC LIMIT 1.\<close>

definition find_by_idempotency_key :: "attempts \<Rightarrow> string \<Rightarrow> attempt option" where
  "find_by_idempotency_key db k =
     (case sort_key (\<lambda>r. - at_attempt_number r) (filter (\<lambda>r. at_idempotency_key r = k) db) of
        [] \<Rightarrow> None | r # _ \<Rightarrow> Some r)"

definition find_by_grant_id :: "attempts \<Rightarrow> string \<Rightarrow> attempt option" where
  "find_by_grant_id db g = find (\<lambda>r. at_grant_id r = g) db"

definition new_attempt ::
  "string \<Rightarrow> string \<Rightarrow> string \<Rightarrow> string \<Rightarrow> string \<Rightarrow> int \<Rightarrow> instant \<Rightarrow> attempt" where
  "new_attempt i t g h k n now = \<lparr>at_attempt_id = i, at_task_id = t, at_grant_id = g, at_intent_hash = h,
     at_idempotency_key = k, at_attempt_number = n, at_state = AUTHORIZED, at_created_at = now,
     at_lease_expires_at = None, at_started_at = None, at_finished_at = None, at_executor_id = None,
     at_executor_version = None, at_executor_identity_epoch = 0, at_receipt_id = None, at_error = None\<rparr>"

text \<open>
  \<open>snap\<close> is the database when \<^verbatim>\<open>find_by_idempotency_key\<close> ran, \<open>db\<close> when the INSERT
  runs. The INSERT fails on the primary key or on the unique index over
  (idempotency_key, attempt_number).
\<close>

definition attempt_create_at :: "attempts \<Rightarrow> attempts \<Rightarrow> string \<Rightarrow> string \<Rightarrow> string \<Rightarrow> string \<Rightarrow>
    string \<Rightarrow> instant \<Rightarrow> bool \<Rightarrow> (attempt \<times> attempts) result" where
  "attempt_create_at snap db hex t g h k now retry =
    (if t = [] then raise ExecutionAttemptError ''task_id_required''
     else if g = [] then raise ExecutionAttemptError ''grant_id_required''
     else if h = [] then raise ExecutionAttemptError ''intent_hash_required''
     else if k = [] then raise ExecutionAttemptError ''idempotency_key_required''
     else
       bindR (case find_by_idempotency_key snap k of
           None \<Rightarrow> Inr 1
         | Some previous \<Rightarrow>
             if \<not> attempt_terminal (at_state previous)
             then raise ExecutionAttemptError ''idempotency_key_active''
             else if \<not> retry then raise ExecutionAttemptError ''idempotency_key_reused''
             else Inr (at_attempt_number previous + 1))
         (\<lambda>n. let r = new_attempt (''attempt_'' @ hex) t g h k n now in
            if lookup_row at_attempt_id db (at_attempt_id r) \<noteq> None
            then raise IntegrityError ''UNIQUE constraint failed: execution_attempts.attempt_id''
            else if (\<exists>x \<in> set db. at_idempotency_key x = k \<and> at_attempt_number x = n)
            then raise ExecutionAttemptError ''idempotency_key_reused''
            else Inr (r, db @ [r])))"

definition attempt_create :: "attempts \<Rightarrow> string \<Rightarrow> string \<Rightarrow> string \<Rightarrow> string \<Rightarrow> string \<Rightarrow>
    instant \<Rightarrow> bool \<Rightarrow> (attempt \<times> attempts) result" where
  "attempt_create db = attempt_create_at db db"

text \<open>COALESCE(NULLIF(?,''), column).\<close>

definition coalesce_text :: "string \<Rightarrow> string option \<Rightarrow> string option" where
  "coalesce_text new old = (if new = [] then old else Some new)"

text \<open>The optional arguments of \<^verbatim>\<open>transition\<close>.\<close>

record transition_args =
  targ_error :: string
  targ_executor_id :: string
  targ_executor_version :: string
  targ_executor_identity_epoch :: int
  targ_receipt_id :: string

definition no_args :: transition_args where
  "no_args = \<lparr>targ_error = [], targ_executor_id = [], targ_executor_version = [],
     targ_executor_identity_epoch = 0, targ_receipt_id = []\<rparr>"

definition lease_duration :: int where
  "lease_duration = 5 * 60 * 1000000"

text \<open>The row the UPDATE writes, computed from the row that was read.\<close>

definition transition_row ::
  "attempt \<Rightarrow> attempt_state \<Rightarrow> instant \<Rightarrow> transition_args \<Rightarrow> attempt \<Rightarrow> attempt" where
  "transition_row current new now a r =
     r\<lparr>at_state := new,
       at_lease_expires_at := (if new = LEASED then Some (now + lease_duration)
                            else at_lease_expires_at current),
       at_started_at := (if new = RUNNING \<and> at_started_at current = None then Some now
                      else at_started_at current),
       at_finished_at := (if attempt_terminal new then Some now else at_finished_at current),
       at_executor_id := coalesce_text (targ_executor_id a) (at_executor_id r),
       at_executor_version := coalesce_text (targ_executor_version a) (at_executor_version r),
       at_executor_identity_epoch := (if targ_executor_identity_epoch a > 0
                                   then targ_executor_identity_epoch a
                                   else at_executor_identity_epoch r),
       at_receipt_id := coalesce_text (targ_receipt_id a) (at_receipt_id r),
       at_error := (if targ_error a \<noteq> [] then Some (targ_error a) else at_error r)\<rparr>"

definition attempt_transition_at :: "attempts \<Rightarrow> attempts \<Rightarrow> string \<Rightarrow> string \<Rightarrow> instant \<Rightarrow>
    transition_args \<Rightarrow> (attempt \<times> attempts) result" where
  "attempt_transition_at snap db i new_text now a =
    (case parse_attempt_state new_text of
       None \<Rightarrow> raise ExecutionAttemptError ''invalid_attempt_state''
     | Some new \<Rightarrow> bindR (attempt_get snap i) (\<lambda>current.
         if \<not> attempt_allowed (at_state current) new
         then raise ExecutionAttemptError (''invalid_transition:''
                @ attempt_state_value (at_state current) @ ''->'' @ attempt_state_value new)
         else
           let hit = (\<lambda>r. at_attempt_id r = i \<and> at_state r = at_state current) in
           if count_where hit db \<noteq> 1
           then raise ExecutionAttemptError ''attempt_state_conflict''
           else let db' = update_where hit (transition_row current new now a) db in
             bindR (attempt_get db' i) (\<lambda>r. Inr (r, db'))))"

definition attempt_transition :: "attempts \<Rightarrow> string \<Rightarrow> string \<Rightarrow> instant \<Rightarrow>
    transition_args \<Rightarrow> (attempt \<times> attempts) result" where
  "attempt_transition db = attempt_transition_at db db"

text \<open>
  The text comparison \<^verbatim>\<open>lease_expires_at <= ?\<close> is the comparison of the instants. COALESCE
  makes a missing receipt the empty text.
\<close>

definition stale_running :: "instant \<Rightarrow> attempt \<Rightarrow> bool" where
  "stale_running now r \<longleftrightarrow> at_state r = RUNNING \<and>
     (case at_lease_expires_at r of None \<Rightarrow> False | Some e \<Rightarrow> e \<le> now) \<and>
     (at_receipt_id r = None \<or> at_receipt_id r = Some [])"

definition find_stale_running :: "attempts \<Rightarrow> instant \<Rightarrow> int option \<Rightarrow> attempt list result" where
  "find_stale_running db now limit =
    (case limit of
       None \<Rightarrow> raise ExecutionAttemptError ''limit_must_be_positive''
     | Some l \<Rightarrow>
        if l < 1 then raise ExecutionAttemptError ''limit_must_be_positive''
        else Inr (take (nat l)
          (sort_key (\<lambda>r. (the (at_lease_expires_at r), at_attempt_id r)) (filter (stale_running now) db))))"

definition lease_expired :: "instant \<Rightarrow> attempt \<Rightarrow> bool" where
  "lease_expired now r \<longleftrightarrow> at_state r = LEASED \<and>
     (case at_lease_expires_at r of None \<Rightarrow> False | Some e \<Rightarrow> e \<le> now)"

text \<open>The loop over the selected ids; a conflict on one of them is swallowed.\<close>

fun expire_ids :: "instant \<Rightarrow> string list \<Rightarrow> attempts \<Rightarrow> attempt list \<times> attempts" where
  "expire_ids now [] db = ([], db)"
| "expire_ids now (i # ids) db =
    (case attempt_transition db i ''TIMED_OUT'' now no_args of
       Inl _ \<Rightarrow> expire_ids now ids db
     | Inr (r, db') \<Rightarrow> (let (rs, db'') = expire_ids now ids db' in (r # rs, db'')))"

definition expire_leases :: "attempts \<Rightarrow> instant \<Rightarrow> attempt list \<times> attempts" where
  "expire_leases db now = expire_ids now (map at_attempt_id (filter (lease_expired now) db)) db"

section \<open>The transition relation\<close>

fun attempt_rank :: "attempt_state \<Rightarrow> nat" where
  "attempt_rank AUTHORIZED = 0"
| "attempt_rank LEASED = 1"
| "attempt_rank RUNNING = 2"
| "attempt_rank s = 3"

lemma attempt_allowed_rank: "attempt_allowed a b \<Longrightarrow> attempt_rank a < attempt_rank b"
  by (cases a; cases b) auto

lemma attempt_allowed_trancl_rank: "attempt_allowed\<^sup>+\<^sup>+ a b \<Longrightarrow> attempt_rank a < attempt_rank b"
  by (induction rule: tranclp.induct) (auto dest: attempt_allowed_rank intro: less_trans)

lemma attempt_terminal_iff: "attempt_terminal a \<longleftrightarrow> terminal_in attempt_allowed a"
  by (cases a) (auto simp: attempt_terminal_def terminal_in_def)

lemma attempt_terminal_stuck: "attempt_allowed a b \<Longrightarrow> \<not> attempt_terminal a"
  by (auto simp: attempt_terminal_iff terminal_in_def)

lemma attempt_terminal_stuck_trancl: "attempt_allowed\<^sup>+\<^sup>+ a b \<Longrightarrow> \<not> attempt_terminal a"
  by (erule tranclp.cases) (auto dest!: tranclpD attempt_terminal_stuck)

lemma parse_attempt_state_value [simp]: "parse_attempt_state (attempt_state_value a) = Some a"
  by (cases a) (simp_all add: parse_attempt_state_def all_attempt_states_def)

section \<open>The table invariant\<close>

definition attempt_row_wf :: "attempt \<Rightarrow> bool" where
  "attempt_row_wf r \<longleftrightarrow> 1 \<le> at_attempt_number r \<and>
     (attempt_terminal (at_state r) \<longleftrightarrow> at_finished_at r \<noteq> None) \<and>
     (at_state r = AUTHORIZED \<longrightarrow> at_lease_expires_at r = None \<and> at_started_at r = None) \<and>
     (at_state r = LEASED \<longrightarrow> at_lease_expires_at r \<noteq> None \<and> at_started_at r = None) \<and>
     (at_state r = RUNNING \<longrightarrow> at_lease_expires_at r \<noteq> None \<and> at_started_at r \<noteq> None)"

abbreviation attempt_slot :: "attempt \<Rightarrow> string \<times> int" where
  "attempt_slot r \<equiv> (at_idempotency_key r, at_attempt_number r)"

definition attempts_inv :: "attempts \<Rightarrow> bool" where
  "attempts_inv db \<longleftrightarrow> key_unique at_attempt_id db \<and> key_unique attempt_slot db \<and>
     (\<forall>r \<in> set db. attempt_row_wf r) \<and>
     (\<forall>r \<in> set db. 1 < at_attempt_number r \<longrightarrow>
        (\<exists>q \<in> set db. attempt_slot q = (at_idempotency_key r, at_attempt_number r - 1))) \<and>
     (\<forall>r \<in> set db. \<forall>q \<in> set db. at_idempotency_key q = at_idempotency_key r \<and>
        at_attempt_number q < at_attempt_number r \<longrightarrow> attempt_terminal (at_state q))"

text \<open>How a row may change between two moments: not at all, or forward along the relation.\<close>

definition attempt_evolves :: "attempt \<Rightarrow> attempt \<Rightarrow> bool" where
  "attempt_evolves r r' \<longleftrightarrow> r' = r \<or>
     (at_attempt_id r' = at_attempt_id r \<and> attempt_slot r' = attempt_slot r \<and>
      at_task_id r' = at_task_id r \<and> at_grant_id r' = at_grant_id r \<and>
      at_intent_hash r' = at_intent_hash r \<and>
      attempt_allowed\<^sup>+\<^sup>+ (at_state r) (at_state r'))"

definition attempts_evolve :: "attempts \<Rightarrow> attempts \<Rightarrow> bool" where
  "attempts_evolve db db' \<longleftrightarrow> (\<forall>r \<in> set db. \<exists>r' \<in> set db'. attempt_evolves r r')"

lemma attempts_inv_Nil [simp]: "attempts_inv []"
  by (simp add: attempts_inv_def)

lemma attempt_evolves_refl [simp]: "attempt_evolves r r"
  by (simp add: attempt_evolves_def)

lemma attempts_evolve_refl [simp]: "attempts_evolve db db"
  unfolding attempts_evolve_def using attempt_evolves_refl by blast

lemma attempts_evolve_Nil [simp]: "attempts_evolve [] db"
  by (simp add: attempts_evolve_def)

lemma attempt_evolves_trans:
  "attempt_evolves a b \<Longrightarrow> attempt_evolves b c \<Longrightarrow> attempt_evolves a c"
  by (auto simp: attempt_evolves_def dest: tranclp_trans)

lemma attempts_evolve_trans:
  "attempts_evolve a b \<Longrightarrow> attempts_evolve b c \<Longrightarrow> attempts_evolve a c"
  unfolding attempts_evolve_def by (meson attempt_evolves_trans)

lemma attempt_evolves_slot: "attempt_evolves r r' \<Longrightarrow> attempt_slot r' = attempt_slot r"
  by (auto simp: attempt_evolves_def)

lemma attempt_evolves_terminal:
  "attempt_evolves r r' \<Longrightarrow> attempt_terminal (at_state r) \<Longrightarrow> r' = r"
  by (auto simp: attempt_evolves_def dest: attempt_terminal_stuck_trancl)

lemma attempt_evolves_same_state:
  "attempt_evolves r r' \<Longrightarrow> at_state r' = at_state r \<Longrightarrow> r' = r"
  by (auto simp: attempt_evolves_def dest: attempt_allowed_trancl_rank)

lemma attempts_inv_slot_eq:
  assumes "attempts_inv db" "r \<in> set db" "q \<in> set db" "attempt_slot q = attempt_slot r"
  shows "q = r"
proof -
  from assms(1) have u: "key_unique attempt_slot db" by (simp add: attempts_inv_def)
  from lookup_row_mem [OF u assms(3)] lookup_row_mem [OF u assms(2)] show ?thesis
    unfolding assms(4) by simp
qed

text \<open>The attempt numbers of a key are contiguous from 1.\<close>

lemma attempts_inv_below:
  assumes inv: "attempts_inv db" and r: "r \<in> set db"
  shows "1 \<le> n \<Longrightarrow> n \<le> at_attempt_number r \<Longrightarrow>
    \<exists>q \<in> set db. attempt_slot q = (at_idempotency_key r, n)"
proof (induction "nat (at_attempt_number r - n)" arbitrary: n)
  case 0
  then show ?case using r by (intro bexI [of _ r]) auto
next
  case (Suc d)
  then have "\<exists>q \<in> set db. attempt_slot q = (at_idempotency_key r, n + 1)"
    by (intro Suc.hyps(1)) linarith+
  then obtain q where q: "q \<in> set db" "attempt_slot q = (at_idempotency_key r, n + 1)" by blast
  then have kn: "at_idempotency_key q = at_idempotency_key r" "at_attempt_number q = n + 1"
    by simp_all
  from inv have "\<forall>r \<in> set db. 1 < at_attempt_number r \<longrightarrow>
      (\<exists>q \<in> set db. attempt_slot q = (at_idempotency_key r, at_attempt_number r - 1))"
    by (simp add: attempts_inv_def)
  with q(1) kn Suc.prems show ?case by fastforce
qed

lemma find_by_idempotency_key_None:
  "find_by_idempotency_key db k = None \<longleftrightarrow> (\<forall>r \<in> set db. at_idempotency_key r \<noteq> k)"
proof -
  have "sort_key f ys = [] \<longleftrightarrow> ys = []" for f :: "attempt \<Rightarrow> int" and ys
    by (metis length_0_conv length_sort)
  then have "find_by_idempotency_key db k = None \<longleftrightarrow> filter (\<lambda>r. at_idempotency_key r = k) db = []"
    by (auto simp: find_by_idempotency_key_def split: list.splits)
  then show ?thesis by (simp add: filter_empty_conv)
qed

lemma find_by_idempotency_key_Some:
  assumes "find_by_idempotency_key db k = Some r"
  shows "r \<in> set db" and "at_idempotency_key r = k"
    and "\<forall>q \<in> set db. at_idempotency_key q = k \<longrightarrow> at_attempt_number q \<le> at_attempt_number r"
proof -
  let ?f = "\<lambda>r. - at_attempt_number r" and ?ys = "filter (\<lambda>r. at_idempotency_key r = k) db"
  from assms obtain rs where rs: "sort_key ?f ?ys = r # rs"
    by (auto simp: find_by_idempotency_key_def split: list.splits)
  then have set: "set ?ys = insert r (set rs)" by (metis set_sort list.simps(15))
  then have "r \<in> set ?ys" by blast
  then show "r \<in> set db" "at_idempotency_key r = k" by auto
  from rs have "sorted (map ?f (r # rs))" by (metis sorted_sort_key)
  with set show "\<forall>q \<in> set db. at_idempotency_key q = k \<longrightarrow> at_attempt_number q \<le> at_attempt_number r"
    by (auto simp: set_eq_iff)
qed

section \<open>Every operation keeps the invariant, from any earlier snapshot\<close>

lemma attempt_create_at_Inr:
  assumes "attempt_create_at snap db hex t g h k now retry = Inr (r, db')"
  obtains n where "r = new_attempt (''attempt_'' @ hex) t g h k n now" and "db' = db @ [r]"
    and "lookup_row at_attempt_id db (at_attempt_id r) = None"
    and "\<forall>x \<in> set db. attempt_slot x \<noteq> (k, n)"
    and "t \<noteq> []" "g \<noteq> []" "h \<noteq> []" "k \<noteq> []"
    and "(find_by_idempotency_key snap k = None \<and> n = 1) \<or>
      (\<exists>p. find_by_idempotency_key snap k = Some p \<and> attempt_terminal (at_state p) \<and> retry \<and>
           n = at_attempt_number p + 1)"
  using assms
  by (fastforce simp: attempt_create_at_def bindR_Inr_iff Let_def
      split: if_splits option.splits)

lemma attempt_create_at_inv:
  assumes inv: "attempts_inv db" and ev: "attempts_evolve snap db"
    and step: "attempt_create_at snap db hex t g h k now retry = Inr (r, db')"
  shows "attempts_inv db'" and "attempts_evolve db db'"
proof -
  from step obtain n where r: "r = new_attempt (''attempt_'' @ hex) t g h k n now"
    and db': "db' = db @ [r]"
    and new_id: "lookup_row at_attempt_id db (at_attempt_id r) = None"
    and free: "\<forall>x \<in> set db. attempt_slot x \<noteq> (k, n)"
    and prev: "(find_by_idempotency_key snap k = None \<and> n = 1) \<or>
      (\<exists>p. find_by_idempotency_key snap k = Some p \<and> attempt_terminal (at_state p) \<and> retry \<and>
           n = at_attempt_number p + 1)"
    by (rule attempt_create_at_Inr) blast
  have slot_r: "attempt_slot r = (k, n)" and rwf: "1 \<le> n \<Longrightarrow> attempt_row_wf r"
    by (auto simp: r new_attempt_def attempt_row_wf_def attempt_terminal_def)
  have num: "1 \<le> at_attempt_number x" if "x \<in> set db" for x
    using inv that by (auto simp: attempts_inv_def attempt_row_wf_def)
  have facts: "1 \<le> n \<and> (1 < n \<longrightarrow> (\<exists>q \<in> set db. attempt_slot q = (k, n - 1) \<and> attempt_terminal (at_state q)))"
    using prev
  proof
    assume "find_by_idempotency_key snap k = None \<and> n = 1"
    then show ?thesis by simp
  next
    assume "\<exists>p. find_by_idempotency_key snap k = Some p \<and> attempt_terminal (at_state p) \<and> retry \<and>
           n = at_attempt_number p + 1"
    then obtain p where p: "find_by_idempotency_key snap k = Some p" "attempt_terminal (at_state p)"
      and n: "n = at_attempt_number p + 1" by blast
    from find_by_idempotency_key_Some(1,2) [OF p(1)] ev obtain q
      where "q \<in> set db" "attempt_evolves p q" and key: "at_idempotency_key p = k"
      by (auto simp: attempts_evolve_def)
    with p(2) have "q = p" by (blast dest: attempt_evolves_terminal)
    with \<open>q \<in> set db\<close> key p(2) n num [of q] show ?thesis by auto
  qed
  have below: "at_attempt_number x < n" if "x \<in> set db" "at_idempotency_key x = k" for x
  proof (rule ccontr)
    assume "\<not> at_attempt_number x < n"
    with attempts_inv_below [OF inv that(1), of n] facts that(2) free show False by auto
  qed
  have old_terminal: "attempt_terminal (at_state x)" if x: "x \<in> set db" "at_idempotency_key x = k" for x
  proof -
    from below [OF x] num [OF x(1)] have "1 < n" by linarith
    with facts obtain q where q: "q \<in> set db" "attempt_slot q = (k, n - 1)" "attempt_terminal (at_state q)"
      by blast
    show ?thesis
    proof (cases "at_attempt_number x = n - 1")
      case True
      with q x attempts_inv_slot_eq [OF inv q(1) x(1)] show ?thesis by auto
    next
      case False
      with below [OF x] have "at_attempt_number x < at_attempt_number q" using q by auto
      with inv q x show ?thesis by (auto simp: attempts_inv_def)
    qed
  qed
  have uslot: "key_unique attempt_slot db'"
    using inv free slot_r by (auto simp: db' attempts_inv_def lookup_row_None_iff)
  have contig: "\<forall>x \<in> set db'. 1 < at_attempt_number x \<longrightarrow>
      (\<exists>q \<in> set db'. attempt_slot q = (at_idempotency_key x, at_attempt_number x - 1))"
    using inv facts slot_r by (auto simp: db' attempts_inv_def)
  have terms: "\<forall>x \<in> set db'. \<forall>q \<in> set db'. at_idempotency_key q = at_idempotency_key x \<and>
      at_attempt_number q < at_attempt_number x \<longrightarrow> attempt_terminal (at_state q)"
    using inv slot_r old_terminal below by (fastforce simp: db' attempts_inv_def)
  show "attempts_inv db'"
    unfolding attempts_inv_def
    using inv new_id uslot contig terms rwf facts by (auto simp: db' attempts_inv_def)
  show "attempts_evolve db db'"
    by (auto simp: db' attempts_evolve_def intro: attempt_evolves_refl)
qed

lemma transition_row_evolves:
  "attempt_allowed (at_state r) new \<Longrightarrow> attempt_evolves r (transition_row c new now a r)"
  by (auto simp: attempt_evolves_def transition_row_def)

lemma transition_row_wf:
  assumes "attempt_row_wf r" and "attempt_allowed (at_state r) new"
  shows "attempt_row_wf (transition_row r new now a r)"
  using assms
  by (cases "at_state r"; cases new) (auto simp: attempt_row_wf_def transition_row_def attempt_terminal_def)

lemma attempt_transition_at_Inr:
  assumes "attempt_transition_at snap db i new_text now a = Inr (r, db')"
  obtains new current r0 where "parse_attempt_state new_text = Some new"
    and "lookup_row at_attempt_id snap i = Some current"
    and "attempt_allowed (at_state current) new"
    and "r0 \<in> set db" "at_attempt_id r0 = i" "at_state r0 = at_state current"
    and "db' = update_where (\<lambda>x. at_attempt_id x = i \<and> at_state x = at_state current)
               (transition_row current new now a) db"
    and "lookup_row at_attempt_id db' i = Some r"
proof -
  from assms obtain new where new: "parse_attempt_state new_text = Some new"
    by (auto simp: attempt_transition_at_def split: option.splits)
  with assms obtain current where cur: "lookup_row at_attempt_id snap i = Some current"
    by (auto simp: attempt_transition_at_def attempt_get_def split: option.splits)
  note eq = assms [unfolded attempt_transition_at_def, simplified new option.case attempt_get_def cur bindR.simps Let_def]
  from eq have al: "attempt_allowed (at_state current) new"
    by (cases "attempt_allowed (at_state current) new") simp_all
  from eq al have cnt: "count_where (\<lambda>x. at_attempt_id x = i \<and> at_state x = at_state current) db = 1"
    by (simp split: if_splits)
  let ?db = "update_where (\<lambda>x. at_attempt_id x = i \<and> at_state x = at_state current)
               (transition_row current new now a) db"
  from eq al cnt have "lookup_row at_attempt_id ?db i = Some r" "db' = ?db"
    by (simp_all split: option.splits)
  note 1 = new cur al cnt this(2,1)
  have "\<not> (\<forall>x \<in> set db. \<not> (at_attempt_id x = i \<and> at_state x = at_state current))"
    using cnt by (simp only: count_where_zero_iff [symmetric])
  then obtain r0 where "r0 \<in> set db" "at_attempt_id r0 = i" "at_state r0 = at_state current" by blast
  with 1(1-3,5) that \<open>lookup_row at_attempt_id ?db i = Some r\<close> show ?thesis by simp
qed

lemma transition_row_key [simp]: "at_attempt_id (transition_row c new now a r) = at_attempt_id r"
  "attempt_slot (transition_row c new now a r) = attempt_slot r"
  "at_state (transition_row c new now a r) = new"
  "at_grant_id (transition_row c new now a r) = at_grant_id r"
  by (simp_all add: transition_row_def)

text \<open>
  The conditional UPDATE is a compare-and-set: whatever happened since the snapshot, the
  row it changes is the snapshot's row unchanged.
\<close>

lemma attempt_transition_at_row:
  assumes inv: "attempts_inv db" and ev: "attempts_evolve snap db"
    and step: "attempt_transition_at snap db i new_text now a = Inr (r, db')"
  obtains new current where "parse_attempt_state new_text = Some new"
    and "lookup_row at_attempt_id db i = Some current"
    and "attempt_allowed (at_state current) new"
    and "db' = update_where (\<lambda>x. at_attempt_id x = i) (transition_row current new now a) db"
    and "r = transition_row current new now a current"
proof -
  from step obtain new current r0 where 1: "parse_attempt_state new_text = Some new"
    "lookup_row at_attempt_id snap i = Some current"
    "attempt_allowed (at_state current) new"
    "r0 \<in> set db" "at_attempt_id r0 = i" "at_state r0 = at_state current"
    "db' = update_where (\<lambda>x. at_attempt_id x = i \<and> at_state x = at_state current)
               (transition_row current new now a) db"
    "lookup_row at_attempt_id db' i = Some r"
    by (rule attempt_transition_at_Inr) blast
  have uid: "key_unique at_attempt_id db" using inv by (simp add: attempts_inv_def)
  from 1(2) ev obtain r1 where r1: "r1 \<in> set db" "attempt_evolves current r1"
    by (auto simp: attempts_evolve_def dest: lookup_row_SomeD)
  then have "at_attempt_id r1 = i" using 1(2) by (auto simp: attempt_evolves_def dest: lookup_row_SomeD)
  with uid 1(4,5) r1(1) have "r1 = r0" by (metis lookup_row_mem option.inject)
  with r1(2) 1(6) have "r0 = current" by (blast dest: attempt_evolves_same_state)
  with 1(4,5) uid have cur: "lookup_row at_attempt_id db i = Some current"
    by (metis lookup_row_mem)
  have only: "at_state x = at_state current" if "x \<in> set db" "at_attempt_id x = i" for x
    using lookup_row_mem [OF uid that(1)] cur that(2) by simp
  have "db' = update_where (\<lambda>x. at_attempt_id x = i) (transition_row current new now a) db"
    unfolding 1(7) update_where_def using only by auto
  moreover from this cur 1(8) have "r = transition_row current new now a current"
    by (auto simp: table_simps dest: lookup_row_SomeD)
  ultimately show ?thesis using that 1(1,3) cur by blast
qed

lemma attempts_inv_pointwise:
  assumes inv: "attempts_inv db"
    and f: "\<And>x. x \<in> set db \<Longrightarrow> attempt_evolves x (f x) \<and> attempt_row_wf (f x)"
  shows "attempts_inv (map f db)" and "attempts_evolve db (map f db)"
proof -
  have slot: "attempt_slot (f x) = attempt_slot x" and ident: "at_attempt_id (f x) = at_attempt_id x"
    if "x \<in> set db" for x
    using f [OF that] by (auto simp: attempt_evolves_def)
  then have maps: "map attempt_slot (map f db) = map attempt_slot db"
    "map at_attempt_id (map f db) = map at_attempt_id db" by auto
  have terms: "attempt_terminal (at_state (f x))" if "x \<in> set db" "attempt_terminal (at_state x)" for x
    using f [OF that(1)] that(2) attempt_evolves_terminal by metis
  have contig: "\<exists>q \<in> set db. attempt_slot (f q) = (at_idempotency_key (f x), at_attempt_number (f x) - 1)"
    if x: "x \<in> set db" and gt: "1 < at_attempt_number (f x)" for x
  proof -
    from inv x gt slot [OF x] obtain q where "q \<in> set db"
      "attempt_slot q = (at_idempotency_key x, at_attempt_number x - 1)"
      by (auto simp: attempts_inv_def)
    with slot [of q] slot [OF x] show ?thesis by (intro bexI [of _ q]) auto
  qed
  have older: "attempt_terminal (at_state (f q))"
    if "x \<in> set db" "q \<in> set db" "at_idempotency_key (f q) = at_idempotency_key (f x)"
      "at_attempt_number (f q) < at_attempt_number (f x)" for x q
    using inv that slot [OF that(1)] slot [OF that(2)] terms [OF that(2)] by (auto simp: attempts_inv_def)
  show "attempts_inv (map f db)"
    unfolding attempts_inv_def key_unique_def maps
    using inv f contig older by (auto simp: attempts_inv_def key_unique_def)
  show "attempts_evolve db (map f db)"
    using f by (auto simp: attempts_evolve_def)
qed

lemma attempt_transition_at_inv:
  assumes inv: "attempts_inv db" and ev: "attempts_evolve snap db"
    and step: "attempt_transition_at snap db i new_text now a = Inr (r, db')"
  shows "attempts_inv db'" and "attempts_evolve db db'"
proof -
  from inv ev step obtain new current where cur: "lookup_row at_attempt_id db i = Some current"
    and al: "attempt_allowed (at_state current) new"
    and db': "db' = update_where (\<lambda>x. at_attempt_id x = i) (transition_row current new now a) db"
    by (rule attempt_transition_at_row)
  have uid: "key_unique at_attempt_id db" using inv by (simp add: attempts_inv_def)
  have wf: "attempt_row_wf x" if "x \<in> set db" for x using inv that by (simp add: attempts_inv_def)
  have only: "x = current" if "x \<in> set db" "at_attempt_id x = i" for x
    using lookup_row_mem [OF uid that(1)] cur that(2) by simp
  have f: "attempt_evolves x (if at_attempt_id x = i then transition_row current new now a x else x) \<and>
      attempt_row_wf (if at_attempt_id x = i then transition_row current new now a x else x)"
    if "x \<in> set db" for x
    using only [OF that] wf [OF that] al by (auto intro: transition_row_evolves transition_row_wf)
  show "attempts_inv db'" "attempts_evolve db db'"
    unfolding db' update_where_def using attempts_inv_pointwise [OF inv f] by auto
qed

end
