(* ===== verification/AttemptRuns.thy ===== *)
theory AttemptRuns
  imports Attempts
begin

text \<open>
  Runs of the attempt table: interleaved processes whose snapshots may be stale, the
  interpretation of the lifecycle contract on them, and the two maintenance queries of
  \<^verbatim>\<open>src/shared/execution_attempt.py\<close>, lease expiry and stale detection, with the
  properties of the component.
\<close>

section \<open>Runs of interleaved processes\<close>

datatype attempt_write =
    WCreate string string string string string instant bool
  | WTransition string string instant transition_args

fun attempt_write_result :: "attempt_write \<Rightarrow> attempts \<Rightarrow> attempts \<Rightarrow> (attempt \<times> attempts) result" where
  "attempt_write_result (WCreate hex t g h k now retry) snap db =
     attempt_create_at snap db hex t g h k now retry"
| "attempt_write_result (WTransition i new now a) snap db =
     attempt_transition_at snap db i new now a"

definition attempt_write_db :: "attempt_write \<Rightarrow> attempts \<Rightarrow> attempts \<Rightarrow> attempts" where
  "attempt_write_db w snap db =
     (case attempt_write_result w snap db of Inl _ \<Rightarrow> db | Inr (_, db') \<Rightarrow> db')"

definition attempt_status :: "attempts \<Rightarrow> string \<Rightarrow> attempt_state option" where
  "attempt_status db i = map_option at_state (lookup_row at_attempt_id db i)"

lemma attempt_write_db_inv:
  assumes "attempts_inv db" and "attempts_evolve snap db"
  shows "attempts_inv (attempt_write_db w snap db)" and "attempts_evolve db (attempt_write_db w snap db)"
proof -
  have "attempts_inv (attempt_write_db w snap db) \<and> attempts_evolve db (attempt_write_db w snap db)"
  proof (cases "attempt_write_result w snap db")
    case (Inl e)
    with assms(1) show ?thesis by (simp add: attempt_write_db_def)
  next
    case (Inr y)
    then obtain r db' where y: "attempt_write_result w snap db = Inr (r, db')" by (cases y) auto
    then have "attempt_write_db w snap db = db'" by (simp add: attempt_write_db_def)
    with y attempt_create_at_inv [OF assms] attempt_transition_at_inv [OF assms] show ?thesis
      by (cases w) auto
  qed
  then show "attempts_inv (attempt_write_db w snap db)"
    "attempts_evolve db (attempt_write_db w snap db)" by auto
qed

lemma attempt_write_db_moves:
  assumes inv: "attempts_inv db" and ev: "attempts_evolve snap db" and st: "attempt_status db i = Some a"
  shows "\<exists>b. attempt_status (attempt_write_db w snap db) i = Some b \<and> (b = a \<or> attempt_allowed a b)"
proof (cases "attempt_write_result w snap db")
  case (Inl e)
  with st show ?thesis by (simp add: attempt_write_db_def)
next
  case (Inr y)
  then obtain r db' where y: "attempt_write_result w snap db = Inr (r, db')" by (cases y) auto
  then have db': "attempt_write_db w snap db = db'" by (simp add: attempt_write_db_def)
  show ?thesis
  proof (cases w)
    case (WCreate hex t g h k now retry)
    with y have "db' = db @ [r]" by (auto elim: attempt_create_at_Inr)
    with st show ?thesis by (auto simp: db' attempt_status_def table_simps split: option.splits)
  next
    case (WTransition j new now a')
    with y have step: "attempt_transition_at snap db j new now a' = Inr (r, db')" by simp
    from inv ev step obtain nw current where cur: "lookup_row at_attempt_id db j = Some current"
      and al: "attempt_allowed (at_state current) nw"
      and upd: "db' = update_where (\<lambda>x. at_attempt_id x = j) (transition_row current nw now a') db"
      by (rule attempt_transition_at_row)
    from st obtain z where z: "lookup_row at_attempt_id db i = Some z" "a = at_state z"
      by (auto simp: attempt_status_def)
    then have "at_attempt_id z = i" by (blast dest: lookup_row_SomeD)
    with z cur al show ?thesis
      by (cases "i = j") (auto simp: db' upd attempt_status_def table_simps)
  qed
qed

interpretation attempt_system: snapshot_writes attempt_write_db attempts_inv attempts_evolve
    attempt_status attempt_allowed
  by unfold_locales
    (use attempts_evolve_trans attempt_write_db_inv attempt_write_db_moves in \<open>simp | blast\<close>)+

abbreviation attempt_run :: "attempt_write event list \<Rightarrow> attempts" where
  "attempt_run es \<equiv> sys_db (fold (sys_step attempt_write_db) es (sys_init []))"

lemma attempt_run_inv: "attempts_inv (attempt_run es)"
  by (rule attempt_system.reachable_inv) simp

lemma attempts_inv_one_active:
  assumes inv: "attempts_inv db" and mem: "r \<in> set db" "q \<in> set db"
    and key: "at_idempotency_key q = at_idempotency_key r"
    and act: "\<not> attempt_terminal (at_state r)" "\<not> attempt_terminal (at_state q)"
  shows "q = r"
proof (rule attempts_inv_slot_eq [OF inv mem])
  from inv mem key act have "\<not> at_attempt_number q < at_attempt_number r"
    "\<not> at_attempt_number r < at_attempt_number q"
    by (auto simp: attempts_inv_def)
  with key show "attempt_slot q = attempt_slot r" by simp
qed

section \<open>Expiry and stale detection\<close>

lemma parse_TIMED_OUT [simp]: "parse_attempt_state ''TIMED_OUT'' = Some TIMED_OUT"
  using parse_attempt_state_value [of TIMED_OUT] by simp

text \<open>The row a lapsed lease ends in.\<close>

definition expired_row :: "instant \<Rightarrow> attempt \<Rightarrow> attempt" where
  "expired_row now r = r\<lparr>at_state := TIMED_OUT, at_finished_at := Some now\<rparr>"

lemma transition_TIMED_OUT:
  assumes inv: "attempts_inv db" and r: "lookup_row at_attempt_id db i = Some r" and "at_state r = LEASED"
  shows "attempt_transition db i ''TIMED_OUT'' now no_args =
    Inr (expired_row now r, update_where (\<lambda>x. at_attempt_id x = i) (expired_row now) db)"
proof -
  have uid: "key_unique at_attempt_id db" using inv by (simp add: attempts_inv_def)
  have hit: "count_where (\<lambda>x. at_attempt_id x = i \<and> at_state x = LEASED) db = 1"
    using count_where_key [OF uid, of i "\<lambda>x. at_state x = LEASED"] r assms(3) by simp
  have row: "transition_row r TIMED_OUT now no_args x = expired_row now x"
    if "x \<in> set db" "at_attempt_id x = i" for x
  proof -
    from lookup_row_mem [OF uid that(1)] r that(2) have "x = r" by simp
    then show ?thesis
      by (simp add: transition_row_def expired_row_def no_args_def coalesce_text_def attempt_terminal_def)
  qed
  have upd: "update_where (\<lambda>x. at_attempt_id x = i \<and> at_state x = LEASED)
      (transition_row r TIMED_OUT now no_args) db = update_where (\<lambda>x. at_attempt_id x = i) (expired_row now) db"
    unfolding update_where_def
  proof (rule map_cong [OF refl])
    fix x assume x: "x \<in> set db"
    have "at_attempt_id x = i \<Longrightarrow> x = r" using lookup_row_mem [OF uid x] r by simp
    with row [OF x] assms(3) show "(if at_attempt_id x = i \<and> at_state x = LEASED
        then transition_row r TIMED_OUT now no_args x else x) =
        (if at_attempt_id x = i then expired_row now x else x)" by auto
  qed
  have "at_attempt_id r = i" using r by (blast dest: lookup_row_SomeD)
  moreover have "lookup_row at_attempt_id (update_where (\<lambda>x. at_attempt_id x = i) (expired_row now) db) i
      = Some (expired_row now r)"
    using r \<open>at_attempt_id r = i\<close> by (simp add: table_simps expired_row_def)
  ultimately show ?thesis
    by (simp add: attempt_transition_def attempt_transition_at_def attempt_get_def r assms(3) Let_def hit upd)
qed

lemma expired_row_evolves: "at_state r = LEASED \<Longrightarrow> attempt_evolves r (expired_row now r)"
  by (auto simp: attempt_evolves_def expired_row_def)

lemma expired_row_wf: "at_state r = LEASED \<Longrightarrow> attempt_row_wf r \<Longrightarrow> attempt_row_wf (expired_row now r)"
  by (auto simp: attempt_row_wf_def expired_row_def attempt_terminal_def)

lemma attempts_inv_expire:
  assumes inv: "attempts_inv db" and p: "\<And>x. x \<in> set db \<Longrightarrow> p x \<Longrightarrow> at_state x = LEASED"
  shows "attempts_inv (update_where p (expired_row now) db)"
  unfolding update_where_def
proof (rule attempts_inv_pointwise(1) [OF inv])
  fix x assume x: "x \<in> set db"
  then have wf: "attempt_row_wf x" using inv by (simp add: attempts_inv_def)
  with p [OF x] show "attempt_evolves x (if p x then expired_row now x else x) \<and>
      attempt_row_wf (if p x then expired_row now x else x)"
    by (auto intro: expired_row_evolves expired_row_wf)
qed

lemma expire_ids_eq:
  assumes "attempts_inv db" and "distinct ids"
    and "\<And>i. i \<in> set ids \<Longrightarrow> \<exists>r. lookup_row at_attempt_id db i = Some r \<and> at_state r = LEASED"
  shows "snd (expire_ids now ids db) = update_where (\<lambda>x. at_attempt_id x \<in> set ids) (expired_row now) db"
  using assms
proof (induction ids arbitrary: db)
  case Nil
  then show ?case by (simp add: update_where_noop)
next
  case (Cons i ids)
  from Cons.prems(3) [of i] obtain r where r: "lookup_row at_attempt_id db i = Some r" "at_state r = LEASED"
    by auto
  let ?db = "update_where (\<lambda>x. at_attempt_id x = i) (expired_row now) db"
  have uid: "key_unique at_attempt_id db" using Cons.prems(1) by (simp add: attempts_inv_def)
  have inv: "attempts_inv ?db"
  proof (rule attempts_inv_expire [OF Cons.prems(1)])
    fix x assume "x \<in> set db" "at_attempt_id x = i"
    with lookup_row_mem [OF uid, of x] r show "at_state x = LEASED" by simp
  qed
  have still: "\<exists>r. lookup_row at_attempt_id ?db j = Some r \<and> at_state r = LEASED" if j: "j \<in> set ids" for j
  proof -
    from Cons.prems(3) [of j] j obtain q where q: "lookup_row at_attempt_id db j = Some q" "at_state q = LEASED"
      by auto
    from Cons.prems(2) j have "j \<noteq> i" by auto
    note q = q this
    then have "at_attempt_id q \<noteq> i" using lookup_row_SomeD by metis
    with q show ?thesis by (simp add: table_simps expired_row_def)
  qed
  have "snd (expire_ids now ids ?db) =
      update_where (\<lambda>x. at_attempt_id x \<in> set ids) (expired_row now) ?db"
    using Cons.IH [OF inv _ still] Cons.prems(2) by simp
  also have "\<dots> = update_where (\<lambda>x. at_attempt_id x \<in> set (i # ids)) (expired_row now) db"
    using Cons.prems(2) by (auto simp: update_where_def expired_row_def)
  finally show ?case
    using transition_TIMED_OUT [OF Cons.prems(1) r, of now] by (simp add: split_beta Let_def)
qed

lemma expire_leases_db:
  assumes "attempts_inv db"
  shows "snd (expire_leases db now) = update_where (lease_expired now) (expired_row now) db"
proof -
  have uid: "key_unique at_attempt_id db" using assms by (simp add: attempts_inv_def)
  let ?ids = "map at_attempt_id (filter (lease_expired now) db)"
  have "distinct ?ids" using uid by (simp add: key_unique_def distinct_map_filter)
  moreover have "\<exists>r. lookup_row at_attempt_id db i = Some r \<and> at_state r = LEASED" if "i \<in> set ?ids" for i
    using that lookup_row_mem [OF uid] by (auto simp: lease_expired_def)
  moreover have "at_attempt_id x \<in> set ?ids \<longleftrightarrow> lease_expired now x" if "x \<in> set db" for x
  proof -
    have "lease_expired now x" if y: "y \<in> set db" "lease_expired now y" "at_attempt_id x = at_attempt_id y" for y
    proof -
      from lookup_row_mem [OF uid y(1)] lookup_row_mem [OF uid \<open>x \<in> set db\<close>] y(3) have "y = x" by simp
      with y(2) show ?thesis by simp
    qed
    then have "at_attempt_id x \<in> set ?ids \<Longrightarrow> lease_expired now x" by (simp add: image_iff) blast
    moreover have "lease_expired now x \<Longrightarrow> at_attempt_id x \<in> set ?ids" using \<open>x \<in> set db\<close> by simp
    ultimately show ?thesis by blast
  qed
  then have "update_where (\<lambda>x. at_attempt_id x \<in> set ?ids) (expired_row now) db
      = update_where (lease_expired now) (expired_row now) db"
    unfolding update_where_def by (intro map_cong) auto
  ultimately show ?thesis
    using expire_ids_eq [OF assms, of ?ids now] by (simp add: expire_leases_def)
qed

section \<open>Properties\<close>

text \<open>
  C1: at most one attempt of an idempotency key is in flight. Whatever processes create
  and transition attempts from possibly stale snapshots, in every reachable database two
  attempts with the same key that are both not terminal are the same row.
\<close>

theorem one_active_attempt_per_key:
  assumes "r \<in> set (attempt_run es)"
    and "q \<in> set (attempt_run es)"
    and "at_idempotency_key q = at_idempotency_key r"
    and "\<not> attempt_terminal (at_state r)" and "\<not> attempt_terminal (at_state q)"
  shows "q = r"
  using attempts_inv_one_active [OF attempt_run_inv assms] .

definition demo_events :: "attempt_write event list" where
  "demo_events =
     [Read 0, Write 0 (WCreate ''a'' ''t'' ''g'' ''h'' ''k'' 1 False),
      Write 1 (WCreate ''b'' ''t'' ''g2'' ''h'' ''k'' 2 True),
      Read 1, Write 1 (WTransition ''attempt_a'' ''ABORTED'' 3 no_args),
      Read 2, Write 2 (WCreate ''c'' ''t'' ''g2'' ''h'' ''k'' 4 True)]"

definition demo_attempt :: attempt where
  "demo_attempt = new_attempt ''attempt_c'' ''t'' ''g2'' ''h'' ''k'' 2 4"

lemma demo_run: "attempt_run demo_events =
   [(new_attempt ''attempt_a'' ''t'' ''g'' ''h'' ''k'' 1 1)
      \<lparr>at_state := ABORTED, at_finished_at := Some 3\<rparr>, demo_attempt]"
  by code_simp

theorem one_active_attempt_per_key_witness:
  "\<exists>r \<in> set (attempt_run demo_events). demo_attempt = r"
proof -
  have mem: "demo_attempt \<in> set (attempt_run demo_events)"
    by (simp add: demo_run)
  have act: "\<not> attempt_terminal (at_state demo_attempt)"
    by (simp add: demo_attempt_def new_attempt_def attempt_terminal_def)
  show ?thesis using one_active_attempt_per_key [OF mem mem refl act act] mem by blast
qed

text \<open>
  C17: a terminal attempt is final. Once an attempt has succeeded, been recovered, failed,
  timed out or been aborted, no later sequence of reads and (possibly stale) writes changes
  its state.
\<close>

theorem terminal_attempt_is_final:
  assumes "attempt_status (attempt_run es) i = Some a"
    and "attempt_terminal a"
  shows "attempt_status (attempt_run (es @ es')) i = Some a"
  using attempt_system.reachable_terminal [OF attempts_inv_Nil] assms by (simp add: attempt_terminal_iff)

theorem terminal_attempt_is_final_witness:
  "attempt_status (attempt_run (demo_events @ [Read 3, Write 3 (WTransition ''attempt_a'' ''RUNNING'' 9 no_args)])) ''attempt_a'' = Some ABORTED"
  by (rule terminal_attempt_is_final)
    (simp_all add: demo_run attempt_status_def new_attempt_def attempt_terminal_def)

lemma transition_eq:
  assumes inv: "attempts_inv db"
  shows "attempt_transition db i text now a =
    (case parse_attempt_state text of
       None \<Rightarrow> raise ExecutionAttemptError ''invalid_attempt_state''
     | Some new \<Rightarrow>
        (case lookup_row at_attempt_id db i of
           None \<Rightarrow> raise ExecutionAttemptError ''attempt_not_found''
         | Some r \<Rightarrow>
             if attempt_allowed (at_state r) new
             then Inr (transition_row r new now a r,
                       update_where (\<lambda>x. at_attempt_id x = i) (transition_row r new now a) db)
             else raise ExecutionAttemptError (''invalid_transition:''
                @ attempt_state_value (at_state r) @ ''->'' @ attempt_state_value new)))"
proof (cases "parse_attempt_state text")
  case None
  then show ?thesis by (simp add: attempt_transition_def attempt_transition_at_def)
next
  case (Some new)
  show ?thesis
  proof (cases "lookup_row at_attempt_id db i")
    case None
    with Some show ?thesis
      by (simp add: attempt_transition_def attempt_transition_at_def attempt_get_def)
  next
    case r: (Some r)
    have uid: "key_unique at_attempt_id db" using inv by (simp add: attempts_inv_def)
    have hit: "count_where (\<lambda>x. at_attempt_id x = i \<and> at_state x = at_state r) db = 1"
      using count_where_key [OF uid, of i "\<lambda>x. at_state x = at_state r"] r by simp
    have only: "x = r" if "x \<in> set db" "at_attempt_id x = i" for x
      using lookup_row_mem [OF uid that(1)] r that(2) by simp
    then have upd: "update_where (\<lambda>x. at_attempt_id x = i \<and> at_state x = at_state r) f db
        = update_where (\<lambda>x. at_attempt_id x = i) f db" for f
      unfolding update_where_def by auto
    have "at_attempt_id r = i" using r by (blast dest: lookup_row_SomeD)
    with Some r hit upd show ?thesis
      by (auto simp: attempt_transition_def attempt_transition_at_def attempt_get_def Let_def table_simps)
  qed
qed

text \<open>
  C23: the complete behaviour of \<^verbatim>\<open>transition\<close> on a consistent table. It raises exactly
  for an unknown state name, an absent attempt or an edge outside the relation, with the
  database untouched; otherwise it rewrites exactly the addressed row and returns it. The
  conflict error is reserved for stale snapshots.
\<close>

theorem transition_behaviour:
  assumes inv: "attempts_inv db"
  shows "attempt_transition db i text now a =
    (case parse_attempt_state text of
       None \<Rightarrow> raise ExecutionAttemptError ''invalid_attempt_state''
     | Some new \<Rightarrow>
        (case lookup_row at_attempt_id db i of
           None \<Rightarrow> raise ExecutionAttemptError ''attempt_not_found''
         | Some r \<Rightarrow>
             if attempt_allowed (at_state r) new
             then Inr (transition_row r new now a r,
                       update_where (\<lambda>x. at_attempt_id x = i) (transition_row r new now a) db)
             else raise ExecutionAttemptError (''invalid_transition:''
                @ attempt_state_value (at_state r) @ ''->'' @ attempt_state_value new)))"
  by (rule transition_eq [OF inv])

theorem transition_behaviour_witness:
  "attempt_transition (attempt_run demo_events)
     ''attempt_c'' ''RUNNING'' 7 no_args =
     raise ExecutionAttemptError ''invalid_transition:AUTHORIZED->RUNNING''"
  unfolding transition_behaviour [OF attempt_run_inv] unfolding demo_run by code_simp

text \<open>
  C35: \<^verbatim>\<open>expire_leases\<close> times out exactly the LEASED attempts whose lease has lapsed, stamps
  them finished, and touches no other row.
\<close>

theorem expire_leases_exact:
  assumes "attempts_inv db"
  shows "snd (expire_leases db now) =
    map (\<lambda>r. if at_state r = LEASED \<and> (\<exists>e. at_lease_expires_at r = Some e \<and> e \<le> now)
             then r\<lparr>at_state := TIMED_OUT, at_finished_at := Some now\<rparr> else r) db"
  using expire_leases_db [OF assms, of now]
  by (auto simp: update_where_def lease_expired_def expired_row_def split: option.splits)

definition leased_row :: attempt where
  "leased_row = (new_attempt ''attempt_c'' ''t'' ''g2'' ''h'' ''k'' 1 4)
     \<lparr>at_state := LEASED, at_lease_expires_at := Some 304\<rparr>"

theorem expire_leases_exact_witness:
  "snd (expire_leases [leased_row] 400) = [leased_row\<lparr>at_state := TIMED_OUT, at_finished_at := Some 400\<rparr>]"
proof -
  have inv: "attempts_inv [leased_row]"
    by (simp add: attempts_inv_def attempt_row_wf_def leased_row_def new_attempt_def key_unique_def
        attempt_terminal_def)
  show ?thesis unfolding expire_leases_exact [OF inv] by (simp add: leased_row_def)
qed

text \<open>
  stale detection is sound, complete up to its limit and ordered. For a positive limit
  it returns a sublist of the RUNNING attempts whose lease has lapsed and that carry no
  receipt, oldest lease first, cut at the limit only, and every stale attempt it leaves out
  is no older than the ones it returns.
\<close>

theorem find_stale_running_spec:
  assumes "1 \<le> l"
  obtains rs where "find_stale_running db now (Some l) = Inr rs"
    and "\<forall>r \<in> set rs. r \<in> set db \<and> stale_running now r"
    and "length rs = min (nat l) (length (filter (stale_running now) db))"
    and "sorted (map (\<lambda>r. (the (at_lease_expires_at r), at_attempt_id r)) rs)"
    and "\<forall>r \<in> set rs. \<forall>q \<in> set db. stale_running now q \<longrightarrow> q \<in> set rs \<or>
           the (at_lease_expires_at r) \<le> the (at_lease_expires_at q)"
proof -
  let ?key = "\<lambda>r. (the (at_lease_expires_at r), at_attempt_id r)"
  let ?all = "sort_key ?key (filter (stale_running now) db)"
  let ?rs = "take (nat l) ?all"
  have all: "set ?all = {r \<in> set db. stale_running now r}" by auto
  have "sorted (map ?key ?all)" by simp
  then have sorted: "sorted (map ?key ?rs)" by (simp only: take_map [symmetric] sorted_wrt_take)
  have order: "the (at_lease_expires_at r) \<le> the (at_lease_expires_at q)"
    if "r \<in> set ?rs" "q \<in> set ?all" "q \<notin> set ?rs" for r q
  proof -
    from that(2,3) have "q \<in> set (drop (nat l) ?all)"
      using in_set_takeD [of q "nat l" ?all] set_append [of ?rs "drop (nat l) ?all"]
      unfolding append_take_drop_id by blast
    moreover have "sorted (map ?key ?rs @ map ?key (drop (nat l) ?all))"
      unfolding map_append [symmetric] append_take_drop_id by simp
    ultimately have "?key r \<le> ?key q"
      using that(1) by (auto simp: sorted_append simp del: less_eq_prod_simp)
    then show ?thesis by (auto simp: less_eq_prod_def)
  qed
  show thesis
  proof (rule that)
    show "find_stale_running db now (Some l) = Inr ?rs"
      using assms by (simp add: find_stale_running_def)
    show "\<forall>r \<in> set ?rs. r \<in> set db \<and> stale_running now r"
      using all by (auto dest: in_set_takeD)
    show "length ?rs = min (nat l) (length (filter (stale_running now) db))" by (simp add: min.commute)
    show "sorted (map ?key ?rs)" by (rule sorted)
    show "\<forall>r \<in> set ?rs. \<forall>q \<in> set db. stale_running now q \<longrightarrow> q \<in> set ?rs \<or>
           the (at_lease_expires_at r) \<le> the (at_lease_expires_at q)"
      using order all by blast
  qed
qed

theorem find_stale_running_spec_witness:
  "\<exists>rs. find_stale_running [leased_row\<lparr>at_state := RUNNING\<rparr>, leased_row] 400 (Some 5) = Inr rs \<and>
     (\<forall>r \<in> set rs. at_state r = RUNNING)"
  by (rule find_stale_running_spec [of 5 "[leased_row\<lparr>at_state := RUNNING\<rparr>, leased_row]" 400])
    (auto simp: stale_running_def)

end
