(* ===== verification/Recovery.thy ===== *)
theory Recovery
  imports AttemptRuns
begin

text \<open>
  Recovery reviews and retry operations (\<^verbatim>\<open>src/shared/execution_recovery.py\<close>). A review
  records what an independent verifier found out about an ambiguous RUNNING attempt; a
  retry operation is the durable claim under which at most one worker turns a SAFE_TO_RETRY
  review into a new attempt. As in \<^verbatim>\<open>Attempts\<close>, operations that read before a conditional
  write are modelled over the snapshot they read and the database they write; \<^verbatim>\<open>claim_retry\<close>
  runs inside BEGIN IMMEDIATE and needs no snapshot.
\<close>

section \<open>Reviews and retry operations\<close>

datatype recovery_decision = UNKNOWN | SIDE_EFFECT_CONFIRMED | SAFE_TO_RETRY | QUARANTINED

fun recovery_decision_value :: "recovery_decision \<Rightarrow> string" where
  "recovery_decision_value UNKNOWN = ''UNKNOWN''"
| "recovery_decision_value SIDE_EFFECT_CONFIRMED = ''SIDE_EFFECT_CONFIRMED''"
| "recovery_decision_value SAFE_TO_RETRY = ''SAFE_TO_RETRY''"
| "recovery_decision_value QUARANTINED = ''QUARANTINED''"

definition parse_recovery_decision :: "string \<Rightarrow> recovery_decision option" where
  "parse_recovery_decision s = find (\<lambda>d. recovery_decision_value d = s)
     [UNKNOWN, SIDE_EFFECT_CONFIRMED, SAFE_TO_RETRY, QUARANTINED]"

record recovery_review =
  rv_recovery_id :: string
  rv_attempt_id :: string
  rv_task_id :: string
  rv_idempotency_key :: string
  rv_decision :: recovery_decision
  rv_verifier_id :: "string option"
  rv_outcome_id :: "string option"
  rv_reason :: "string option"
  rv_reviewed_at :: instant

text \<open>
  A stored timestamp is the ISO text of an instant or, in a column the code reads back
  with \<^verbatim>\<open>datetime.fromisoformat\<close>, a text that does not parse.
\<close>

datatype time_text = Iso instant | Garbled string

record retry_operation =
  op_recovery_id :: string
  op_attempt_id :: string
  op_operation_key :: string
  op_state :: string
  op_retry_grant_id :: string
  op_retry_attempt_id :: "string option"
  op_created_at :: instant
  op_updated_at :: instant
  op_claim_token :: "string option"
  op_lease_expires_at :: "time_text option"

record recovery_db =
  rec_reviews :: "recovery_review list"
  rec_operations :: "retry_operation list"

definition empty_recovery_db :: recovery_db where
  "empty_recovery_db = \<lparr>rec_reviews = [], rec_operations = []\<rparr>"

section \<open>Reviews\<close>

definition recovery_get :: "recovery_db \<Rightarrow> string \<Rightarrow> recovery_review result" where
  "recovery_get db i = (case lookup_row rv_recovery_id (rec_reviews db) i of
      None \<Rightarrow> raise ExecutionRecoveryError ''recovery_not_found''
    | Some r \<Rightarrow> Inr r)"

definition recovery_get_by_attempt :: "recovery_db \<Rightarrow> string \<Rightarrow> recovery_review option" where
  "recovery_get_by_attempt db a = lookup_row rv_attempt_id (rec_reviews db) a"

definition new_review :: "string \<Rightarrow> attempt \<Rightarrow> instant \<Rightarrow> recovery_review" where
  "new_review i a now = \<lparr>rv_recovery_id = i, rv_attempt_id = at_attempt_id a,
     rv_task_id = at_task_id a, rv_idempotency_key = at_idempotency_key a,
     rv_decision = UNKNOWN, rv_verifier_id = None, rv_outcome_id = None, rv_reason = None,
     rv_reviewed_at = now\<rparr>"

text \<open>
  The argument is the attempt object the caller holds, which may be out of date. A lost
  race on the unique indexes falls back to the row that won.
\<close>

definition recovery_open_at :: "recovery_db \<Rightarrow> recovery_db \<Rightarrow> attempt \<Rightarrow> string \<Rightarrow> instant \<Rightarrow>
    (recovery_review \<times> recovery_db) result" where
  "recovery_open_at snap db a hex now =
    (if at_state a \<noteq> RUNNING
     then raise ExecutionRecoveryError ''recovery_requires_running_attempt''
     else if \<not> (at_receipt_id a = None \<or> at_receipt_id a = Some [])
     then raise ExecutionRecoveryError ''recovery_receipt_already_recorded''
     else case recovery_get_by_attempt snap (at_attempt_id a) of
       Some existing \<Rightarrow> Inr (existing, db)
     | None \<Rightarrow>
        (let review = new_review (''recovery_'' @ hex) a now in
         if lookup_row rv_recovery_id (rec_reviews db) (rv_recovery_id review) \<noteq> None \<or>
            recovery_get_by_attempt db (at_attempt_id a) \<noteq> None
         then (case recovery_get_by_attempt db (at_attempt_id a) of
                 Some existing \<Rightarrow> Inr (existing, db)
               | None \<Rightarrow> raise ExecutionRecoveryError ''recovery_review_conflict'')
         else Inr (review, db\<lparr>rec_reviews := rec_reviews db @ [review]\<rparr>)))"

text \<open>
  The arguments of \<^verbatim>\<open>resolve\<close> are texts (the defaults are empty) or None: \<^verbatim>\<open>str(x)\<close> is what the
  guards look at, \<^verbatim>\<open>str(x or "")\<close> is what is stored.
\<close>

definition str_arg :: "string option \<Rightarrow> string" where
  "str_arg x = (case x of None \<Rightarrow> ''None'' | Some t \<Rightarrow> t)"

definition arg_or_empty :: "string option \<Rightarrow> string" where
  "arg_or_empty x = (case x of None \<Rightarrow> [] | Some t \<Rightarrow> t)"

definition recovery_resolve_at :: "recovery_db \<Rightarrow> recovery_db \<Rightarrow> string \<Rightarrow> string \<Rightarrow> string option \<Rightarrow>
    string option \<Rightarrow> string option \<Rightarrow> instant \<Rightarrow> (recovery_review \<times> recovery_db) result" where
  "recovery_resolve_at snap db i decision_text verifier outcome why now =
    (case parse_recovery_decision decision_text of
       None \<Rightarrow> raise ExecutionRecoveryError ''invalid_recovery_decision''
     | Some d \<Rightarrow>
        if d = SAFE_TO_RETRY \<and> blank (str_arg verifier)
        then raise ExecutionRecoveryError ''retry_verifier_required''
        else if d = SIDE_EFFECT_CONFIRMED \<and> blank (str_arg verifier)
        then raise ExecutionRecoveryError ''outcome_verifier_required''
        else if d \<in> {SIDE_EFFECT_CONFIRMED, SAFE_TO_RETRY} \<and> blank (str_arg outcome)
        then raise ExecutionRecoveryError ''outcome_id_required''
        else bindR (recovery_get snap i) (\<lambda>current.
          if rv_decision current \<noteq> UNKNOWN
          then raise ExecutionRecoveryError ''recovery_already_resolved''
          else
            let hit = (\<lambda>r. rv_recovery_id r = i \<and> rv_decision r = UNKNOWN);
                db' = db\<lparr>rec_reviews := update_where hit
                  (\<lambda>r. r\<lparr>rv_decision := d, rv_verifier_id := Some (arg_or_empty verifier),
                         rv_outcome_id := Some (arg_or_empty outcome), rv_reason := Some (arg_or_empty why),
                         rv_reviewed_at := now\<rparr>) (rec_reviews db)\<rparr>
            in if count_where hit (rec_reviews db) \<noteq> 1
               then raise ExecutionRecoveryError ''recovery_state_conflict''
               else bindR (recovery_get db' i) (\<lambda>r. Inr (r, db'))))"

text \<open>The verifier's answer: a dict whose fields may be missing, or not a dict at all.\<close>

record verification =
  vr_status :: "string option"
  vr_verifier :: "string option"
  vr_outcome_id :: "string option"

definition text_or_empty :: "string option \<Rightarrow> string" where
  "text_or_empty x = strip (case x of None \<Rightarrow> [] | Some t \<Rightarrow> t)"

definition recovery_resolve_verified_at :: "recovery_db \<Rightarrow> recovery_db \<Rightarrow> string \<Rightarrow>
    verification option \<Rightarrow> instant \<Rightarrow> (recovery_review \<times> recovery_db) result" where
  "recovery_resolve_verified_at snap db i v now =
    (case v of
       None \<Rightarrow> raise ExecutionRecoveryError ''verification_required''
     | Some ver \<Rightarrow>
        (case Option.bind (vr_status ver) parse_recovery_decision of
           None \<Rightarrow> raise ExecutionRecoveryError ''invalid_recovery_verification_status''
         | Some d \<Rightarrow>
            if d \<notin> {SIDE_EFFECT_CONFIRMED, SAFE_TO_RETRY, QUARANTINED}
            then raise ExecutionRecoveryError ''invalid_recovery_verification_status''
            else if text_or_empty (vr_verifier ver) = []
            then raise ExecutionRecoveryError ''recovery_verifier_required''
            else if text_or_empty (vr_outcome_id ver) = []
            then raise ExecutionRecoveryError ''recovery_outcome_id_required''
            else recovery_resolve_at snap db i (recovery_decision_value d)
                   (Some (text_or_empty (vr_verifier ver))) (Some (text_or_empty (vr_outcome_id ver)))
                   (Some ''independent_outcome_verification'') now))"

definition recovery_can_retry :: "recovery_db \<Rightarrow> string \<Rightarrow> bool result" where
  "recovery_can_retry db i = bindR (recovery_get db i) (\<lambda>r. Inr (rv_decision r = SAFE_TO_RETRY))"

section \<open>Retry operations\<close>

definition claim_lease :: int where
  "claim_lease = 60 * 1000000"

definition get_retry_operation :: "recovery_db \<Rightarrow> string \<Rightarrow> retry_operation option" where
  "get_retry_operation db i = lookup_row op_recovery_id (rec_operations db) i"

definition new_operation :: "recovery_review \<Rightarrow> string \<Rightarrow> instant \<Rightarrow> retry_operation" where
  "new_operation review token now = \<lparr>op_recovery_id = rv_recovery_id review,
     op_attempt_id = rv_attempt_id review,
     op_operation_key = ''retry_'' @ rv_recovery_id review, op_state = ''CLAIMED'',
     op_retry_grant_id = ''retry-grant_'' @ rv_recovery_id review, op_retry_attempt_id = None,
     op_created_at = now, op_updated_at = now, op_claim_token = Some token,
     op_lease_expires_at = Some (Iso (now + claim_lease))\<rparr>"

text \<open>A claim is stale when its lease is missing, empty, unreadable or over.\<close>

definition claim_stale :: "instant \<Rightarrow> time_text option \<Rightarrow> bool" where
  "claim_stale now expires = (case expires of
      None \<Rightarrow> True
    | Some (Iso e) \<Rightarrow> e \<le> now
    | Some (Garbled _) \<Rightarrow> True)"

text \<open>SQL equality: a NULL column equals nothing, not even NULL.\<close>

definition sql_eq :: "'a option \<Rightarrow> 'a option \<Rightarrow> bool" where
  "sql_eq x y \<longleftrightarrow> (case (x, y) of (Some a, Some b) \<Rightarrow> a = b | _ \<Rightarrow> False)"

text \<open>The result is the operation row after the commit and whether this call acquired it.\<close>

definition claim_retry :: "recovery_db \<Rightarrow> recovery_review \<Rightarrow> string \<Rightarrow> instant \<Rightarrow>
    ((retry_operation \<times> bool) \<times> recovery_db) result" where
  "claim_retry db review hex now =
    (if rv_decision review \<noteq> SAFE_TO_RETRY
     then raise ExecutionRecoveryError ''retry_not_safe''
     else
       let token = ''claim_'' @ hex; i = rv_recovery_id review in
       bindR (case get_retry_operation db i of
           None \<Rightarrow>
             if (\<exists>x \<in> set (rec_operations db). op_attempt_id x = rv_attempt_id review \<or>
                   op_operation_key x = ''retry_'' @ i)
             then raise IntegrityError ''UNIQUE constraint failed''
             else Inr (db\<lparr>rec_operations := rec_operations db @ [new_operation review token now]\<rparr>, True)
         | Some row \<Rightarrow>
             if op_state row = ''CLAIMED'' \<and> claim_stale now (op_lease_expires_at row)
             then
               let hit = (\<lambda>x. op_recovery_id x = i \<and> op_state x = ''CLAIMED'' \<and>
                     sql_eq (op_lease_expires_at x) (op_lease_expires_at row))
               in Inr (db\<lparr>rec_operations := update_where hit
                         (\<lambda>x. x\<lparr>op_claim_token := Some token,
                                op_lease_expires_at := Some (Iso (now + claim_lease)),
                                op_updated_at := now\<rparr>) (rec_operations db)\<rparr>,
                       count_where hit (rec_operations db) = 1)
             else Inr (db, False))
         (\<lambda>(db', acquired). case get_retry_operation db' i of
            None \<Rightarrow> raise ExecutionRecoveryError ''retry_claim_conflict''
          | Some row \<Rightarrow> Inr ((row, acquired), db')))"

definition retry_allowed :: "string \<Rightarrow> string \<Rightarrow> bool" where
  "retry_allowed s s' \<longleftrightarrow> (s = ''CLAIMED'' \<and> s' = ''AUTHORIZED'') \<or> (s = ''AUTHORIZED'' \<and> s' = ''CREATED'')"

definition update_retry_operation_at :: "recovery_db \<Rightarrow> recovery_db \<Rightarrow> string \<Rightarrow> string \<Rightarrow>
    string option \<Rightarrow> instant \<Rightarrow> string option \<Rightarrow> (retry_operation option \<times> recovery_db) result" where
  "update_retry_operation_at snap db i s retry_attempt now token =
    (case get_retry_operation snap i of
       None \<Rightarrow> raise ExecutionRecoveryError ''retry_operation_not_found''
     | Some current \<Rightarrow>
        if s = op_state current
        then (if s = ''CREATED'' \<and> retry_attempt \<noteq> None \<and> retry_attempt \<noteq> Some [] \<and>
                 op_retry_attempt_id current \<notin> {None, retry_attempt}
              then raise ExecutionRecoveryError ''retry_operation_state_conflict''
              else Inr (Some current, db))
        else if \<not> retry_allowed (op_state current) s
        then raise ExecutionRecoveryError ''retry_operation_invalid_transition''
        else if s = ''CREATED'' \<and> (case retry_attempt of None \<Rightarrow> True | Some t \<Rightarrow> blank t)
        then raise ExecutionRecoveryError ''retry_attempt_id_required''
        else if op_state current = ''CLAIMED'' \<and>
          ((case token of None \<Rightarrow> True | Some t \<Rightarrow> blank t) \<or> token \<noteq> op_claim_token current)
        then raise ExecutionRecoveryError ''retry_claim_token_conflict''
        else if op_state current = ''CLAIMED'' \<and> op_lease_expires_at current \<noteq> None \<and>
          op_lease_expires_at current \<noteq> Some (Garbled []) \<and>
          claim_stale now (op_lease_expires_at current)
        then raise ExecutionRecoveryError ''retry_claim_expired''
        else
          let hit = (\<lambda>x. op_recovery_id x = i \<and> op_state x = op_state current);
              db' = db\<lparr>rec_operations := update_where hit
                (\<lambda>x. x\<lparr>op_state := s,
                       op_retry_attempt_id := (if retry_attempt = None then op_retry_attempt_id x
                                               else retry_attempt),
                       op_updated_at := now, op_claim_token := None,
                       op_lease_expires_at := None\<rparr>) (rec_operations db)\<rparr>
          in if count_where hit (rec_operations db) \<noteq> 1
             then raise ExecutionRecoveryError ''retry_operation_state_conflict''
             else Inr (get_retry_operation db' i, db'))"

section \<open>The invariant and its evolution\<close>

definition present :: "string option \<Rightarrow> bool" where
  "present x \<longleftrightarrow> (case x of None \<Rightarrow> False | Some t \<Rightarrow> \<not> blank t)"

definition review_wf :: "recovery_review \<Rightarrow> bool" where
  "review_wf r \<longleftrightarrow> (rv_decision r \<in> {SIDE_EFFECT_CONFIRMED, SAFE_TO_RETRY} \<longrightarrow>
     present (rv_verifier_id r) \<and> present (rv_outcome_id r))"

definition operation_wf :: "retry_operation \<Rightarrow> bool" where
  "operation_wf x \<longleftrightarrow> op_state x \<in> {''CLAIMED'', ''AUTHORIZED'', ''CREATED''} \<and>
     op_operation_key x = ''retry_'' @ op_recovery_id x \<and>
     op_retry_grant_id x = ''retry-grant_'' @ op_recovery_id x \<and>
     (op_state x = ''CLAIMED'' \<longrightarrow> op_claim_token x \<noteq> None \<and> (\<exists>e. op_lease_expires_at x = Some (Iso e))) \<and>
     (op_state x = ''CREATED'' \<longrightarrow> present (op_retry_attempt_id x))"

definition recovery_inv :: "recovery_db \<Rightarrow> bool" where
  "recovery_inv db \<longleftrightarrow> key_unique rv_recovery_id (rec_reviews db) \<and>
     key_unique rv_attempt_id (rec_reviews db) \<and>
     key_unique op_recovery_id (rec_operations db) \<and>
     key_unique op_attempt_id (rec_operations db) \<and>
     (\<forall>x \<in> set (rec_operations db). operation_wf x)"

text \<open>Every verdict names its verifier and its outcome.\<close>

definition verdicts_named :: "recovery_db \<Rightarrow> bool" where
  "verdicts_named db \<longleftrightarrow> (\<forall>r \<in> set (rec_reviews db). review_wf r)"

definition review_evolves :: "recovery_review \<Rightarrow> recovery_review \<Rightarrow> bool" where
  "review_evolves r r' \<longleftrightarrow> r' = r \<or> (rv_decision r = UNKNOWN \<and>
     rv_recovery_id r' = rv_recovery_id r \<and> rv_attempt_id r' = rv_attempt_id r \<and>
     rv_task_id r' = rv_task_id r \<and> rv_idempotency_key r' = rv_idempotency_key r)"

definition operation_evolves :: "retry_operation \<Rightarrow> retry_operation \<Rightarrow> bool" where
  "operation_evolves x x' \<longleftrightarrow> op_recovery_id x' = op_recovery_id x \<and>
     op_attempt_id x' = op_attempt_id x \<and> retry_allowed\<^sup>*\<^sup>* (op_state x) (op_state x')"

definition recovery_evolve :: "recovery_db \<Rightarrow> recovery_db \<Rightarrow> bool" where
  "recovery_evolve db db' \<longleftrightarrow>
     (\<forall>r \<in> set (rec_reviews db). \<exists>r' \<in> set (rec_reviews db'). review_evolves r r') \<and>
     (\<forall>x \<in> set (rec_operations db). \<exists>x' \<in> set (rec_operations db'). operation_evolves x x')"

lemma recovery_inv_empty [simp]: "recovery_inv empty_recovery_db"
  by (simp add: recovery_inv_def empty_recovery_db_def)

lemma review_evolves_refl [simp]: "review_evolves r r"
  by (simp add: review_evolves_def)

lemma operation_evolves_refl [simp]: "operation_evolves x x"
  by (simp add: operation_evolves_def)

lemma recovery_evolve_refl: "recovery_evolve db db"
  unfolding recovery_evolve_def using review_evolves_refl operation_evolves_refl by blast

lemma review_evolves_trans: "review_evolves a b \<Longrightarrow> review_evolves b c \<Longrightarrow> review_evolves a c"
  by (auto simp: review_evolves_def)

lemma operation_evolves_trans:
  "operation_evolves a b \<Longrightarrow> operation_evolves b c \<Longrightarrow> operation_evolves a c"
  by (auto simp: operation_evolves_def)

lemma recovery_evolve_trans:
  "recovery_evolve a b \<Longrightarrow> recovery_evolve b c \<Longrightarrow> recovery_evolve a c"
  unfolding recovery_evolve_def by (meson review_evolves_trans operation_evolves_trans)

lemma present_text_or_empty [simp]: "present (Some t) \<longleftrightarrow> \<not> blank t"
  by (simp add: present_def)

lemma recovery_inv_reviews_append:
  assumes "recovery_inv db" and "lookup_row rv_recovery_id (rec_reviews db) (rv_recovery_id r) = None"
    and "lookup_row rv_attempt_id (rec_reviews db) (rv_attempt_id r) = None"
  shows "recovery_inv (db\<lparr>rec_reviews := rec_reviews db @ [r]\<rparr>)"
    and "recovery_evolve db (db\<lparr>rec_reviews := rec_reviews db @ [r]\<rparr>)"
  using assms recovery_evolve_refl [of db] by (auto simp: recovery_inv_def recovery_evolve_def)

lemma recovery_inv_operations_append:
  assumes "recovery_inv db" and "\<forall>x \<in> set (rec_operations db).
      op_recovery_id x \<noteq> op_recovery_id y \<and> op_attempt_id x \<noteq> op_attempt_id y" and "operation_wf y"
  shows "recovery_inv (db\<lparr>rec_operations := rec_operations db @ [y]\<rparr>)"
    and "recovery_evolve db (db\<lparr>rec_operations := rec_operations db @ [y]\<rparr>)"
  using assms recovery_evolve_refl [of db]
  by (auto simp: recovery_inv_def recovery_evolve_def lookup_row_None_iff)

lemma recovery_inv_reviews_update:
  assumes "recovery_inv db"
    and f: "\<And>r. r \<in> set (rec_reviews db) \<Longrightarrow> p r \<Longrightarrow> rv_decision r = UNKNOWN"
    and k: "\<And>r. rv_recovery_id (f r) = rv_recovery_id r \<and> rv_attempt_id (f r) = rv_attempt_id r \<and>
      rv_task_id (f r) = rv_task_id r \<and> rv_idempotency_key (f r) = rv_idempotency_key r"
  shows "recovery_inv (db\<lparr>rec_reviews := update_where p f (rec_reviews db)\<rparr>)"
    and "recovery_evolve db (db\<lparr>rec_reviews := update_where p f (rec_reviews db)\<rparr>)"
proof -
  show "recovery_inv (db\<lparr>rec_reviews := update_where p f (rec_reviews db)\<rparr>)"
    using assms by (auto simp: recovery_inv_def k elim!: set_update_whereE)
  have "review_evolves r (if p r then f r else r)" if "r \<in> set (rec_reviews db)" for r
    using f [OF that] k [of r] by (auto simp: review_evolves_def)
  then show "recovery_evolve db (db\<lparr>rec_reviews := update_where p f (rec_reviews db)\<rparr>)"
    unfolding recovery_evolve_def by (simp add: update_where_related related_refl)
qed

lemma recovery_inv_operations_update:
  assumes "recovery_inv db"
    and f: "\<And>x. x \<in> set (rec_operations db) \<Longrightarrow> p x \<Longrightarrow>
      operation_wf (f x) \<and> (op_state (f x) = op_state x \<or> retry_allowed (op_state x) (op_state (f x)))"
    and k: "\<And>x. op_recovery_id (f x) = op_recovery_id x \<and> op_attempt_id (f x) = op_attempt_id x"
  shows "recovery_inv (db\<lparr>rec_operations := update_where p f (rec_operations db)\<rparr>)"
    and "recovery_evolve db (db\<lparr>rec_operations := update_where p f (rec_operations db)\<rparr>)"
proof -
  show "recovery_inv (db\<lparr>rec_operations := update_where p f (rec_operations db)\<rparr>)"
    using assms by (auto simp: recovery_inv_def k elim!: set_update_whereE)
  have "operation_evolves x (if p x then f x else x)" if "x \<in> set (rec_operations db)" for x
    using f [OF that] k [of x] by (auto simp: operation_evolves_def)
  then show "recovery_evolve db (db\<lparr>rec_operations := update_where p f (rec_operations db)\<rparr>)"
    unfolding recovery_evolve_def by (simp add: update_where_related related_refl)
qed

section \<open>What each operation does when it returns\<close>

lemma recovery_open_at_Inr:
  assumes "recovery_open_at snap db a hex now = Inr (r, db')"
  shows "at_state a = RUNNING" and "db' = db \<or>
    (db' = db\<lparr>rec_reviews := rec_reviews db @ [r]\<rparr> \<and> rv_decision r = UNKNOWN \<and>
     lookup_row rv_recovery_id (rec_reviews db) (rv_recovery_id r) = None \<and>
     lookup_row rv_attempt_id (rec_reviews db) (rv_attempt_id r) = None)"
  using assms
  by (auto simp: recovery_open_at_def recovery_get_by_attempt_def Let_def new_review_def
      split: if_splits option.splits)

definition resolved_review :: "recovery_decision \<Rightarrow> string \<Rightarrow> string \<Rightarrow> string \<Rightarrow> instant \<Rightarrow>
    recovery_review \<Rightarrow> recovery_review" where
  "resolved_review d verifier outcome why now r = r\<lparr>rv_decision := d,
     rv_verifier_id := Some verifier, rv_outcome_id := Some outcome, rv_reason := Some why,
     rv_reviewed_at := now\<rparr>"

lemma recovery_resolve_at_Inr:
  assumes "recovery_resolve_at snap db i decision_text verifier outcome why now = Inr (r, db')"
  obtains d where "parse_recovery_decision decision_text = Some d"
    and "d \<in> {SIDE_EFFECT_CONFIRMED, SAFE_TO_RETRY} \<longrightarrow> \<not> blank (str_arg verifier) \<and> \<not> blank (str_arg outcome)"
    and "db' = db\<lparr>rec_reviews := update_where (\<lambda>r. rv_recovery_id r = i \<and> rv_decision r = UNKNOWN)
       (resolved_review d (arg_or_empty verifier) (arg_or_empty outcome) (arg_or_empty why) now) (rec_reviews db)\<rparr>"
    and "count_where (\<lambda>r. rv_recovery_id r = i \<and> rv_decision r = UNKNOWN) (rec_reviews db) = 1"
    and "lookup_row rv_recovery_id (rec_reviews db') i = Some r"
proof -
  from assms obtain d where d: "parse_recovery_decision decision_text = Some d"
    by (auto simp: recovery_resolve_at_def split: option.splits)
  note eq = assms [unfolded recovery_resolve_at_def, simplified d option.case Let_def]
  from eq have g: "d \<in> {SIDE_EFFECT_CONFIRMED, SAFE_TO_RETRY} \<longrightarrow> \<not> blank (str_arg verifier) \<and> \<not> blank (str_arg outcome)"
    by (auto split: if_splits)
  from eq obtain current where cur: "recovery_get snap i = Inr current" "rv_decision current = UNKNOWN"
    by (auto simp: bindR_Inr_iff split: if_splits)
  let ?db = "db\<lparr>rec_reviews := update_where (\<lambda>r. rv_recovery_id r = i \<and> rv_decision r = UNKNOWN)
       (resolved_review d (arg_or_empty verifier) (arg_or_empty outcome) (arg_or_empty why) now) (rec_reviews db)\<rparr>"
  have "count_where (\<lambda>r. rv_recovery_id r = i \<and> rv_decision r = UNKNOWN) (rec_reviews db) = 1 \<and>
      db' = ?db \<and> recovery_get ?db i = Inr r"
    using eq cur unfolding resolved_review_def by (auto simp: bindR_Inr_iff split: if_splits)
  with d g that show ?thesis by (auto simp: recovery_get_def split: option.splits)
qed

lemma text_or_empty_not_blank: "text_or_empty x \<noteq> [] \<Longrightarrow> \<not> blank (text_or_empty x)"
proof -
  have "strip (strip t) = [] \<Longrightarrow> strip t = []" for t
  proof -
    assume "strip (strip t) = []"
    then have all: "\<forall>c \<in> set (strip t). is_space c" by (simp add: strip_Nil_iff blank_def list_all_iff)
    let ?m = "dropWhile is_space t"
    show "strip t = []"
    proof (rule ccontr)
      assume ne: "strip t \<noteq> []"
      then have "dropWhile is_space (rev ?m) \<noteq> []" by (simp add: strip_def)
      then have "\<not> is_space (hd (dropWhile is_space (rev ?m)))" by (rule hd_dropWhile)
      moreover have "hd (dropWhile is_space (rev ?m)) \<in> set (strip t)"
        using ne by (simp add: strip_def)
      ultimately show False using all by blast
    qed
  qed
  then show "text_or_empty x \<noteq> [] \<Longrightarrow> \<not> blank (text_or_empty x)"
    by (auto simp: text_or_empty_def strip_Nil_iff [symmetric])
qed

lemma recovery_resolve_verified_at_Inr:
  assumes "recovery_resolve_verified_at snap db i v now = Inr (r, db')"
  obtains d verifier outcome where "d \<noteq> UNKNOWN" "\<not> blank verifier" "\<not> blank outcome"
    and "recovery_resolve_at snap db i (recovery_decision_value d) (Some verifier) (Some outcome)
           (Some ''independent_outcome_verification'') now = Inr (r, db')"
proof -
  from assms obtain ver where ver: "v = Some ver"
    by (auto simp: recovery_resolve_verified_at_def split: option.splits)
  with assms obtain d where d: "Option.bind (vr_status ver) parse_recovery_decision = Some d"
    by (auto simp: recovery_resolve_verified_at_def split: option.splits)
  note eq = assms [unfolded recovery_resolve_verified_at_def, simplified ver d option.case]
  from eq have "d \<noteq> UNKNOWN" "text_or_empty (vr_verifier ver) \<noteq> []" "text_or_empty (vr_outcome_id ver) \<noteq> []"
    "recovery_resolve_at snap db i (recovery_decision_value d) (Some (text_or_empty (vr_verifier ver))) (Some (text_or_empty (vr_outcome_id ver)))
      (Some ''independent_outcome_verification'') now = Inr (r, db')"
    by (auto split: if_splits)
  with that [of d "text_or_empty (vr_verifier ver)" "text_or_empty (vr_outcome_id ver)"]
  show ?thesis by (blast dest: text_or_empty_not_blank)
qed

lemma open_named:
  assumes "recovery_open_at snap db a hex now = Inr (r, db')" and "verdicts_named db"
  shows "verdicts_named db'"
  using recovery_open_at_Inr(2) [OF assms(1)] assms(2) by (auto simp: verdicts_named_def review_wf_def)

lemma resolve_verified_named:
  assumes "recovery_resolve_verified_at snap db i v now = Inr (r, db')" and "verdicts_named db"
  shows "verdicts_named db'"
proof -
  obtain d verifier outcome where n: "\<not> blank verifier" "\<not> blank outcome"
    and res: "recovery_resolve_at snap db i (recovery_decision_value d) (Some verifier) (Some outcome)
      (Some ''independent_outcome_verification'') now = Inr (r, db')"
    by (rule recovery_resolve_verified_at_Inr [OF assms(1)])
  from res obtain d' where "db' = db\<lparr>rec_reviews := update_where (\<lambda>r. rv_recovery_id r = i \<and> rv_decision r = UNKNOWN)
       (resolved_review d' (arg_or_empty (Some verifier)) (arg_or_empty (Some outcome))
         (arg_or_empty (Some ''independent_outcome_verification'')) now) (rec_reviews db)\<rparr>"
    by (rule recovery_resolve_at_Inr)
  with assms(2) n show ?thesis
    by (auto simp: verdicts_named_def review_wf_def resolved_review_def arg_or_empty_def elim!: set_update_whereE)
qed

end
