(* ===== verification/RecoveryRuns.thy ===== *)
theory RecoveryRuns
  imports Recovery
begin

text \<open>
  Runs of the recovery tables under interleaved processes, the lifecycle contract
  interpreted once for reviews and once for retry operations, and the properties of
  \<^verbatim>\<open>src/shared/execution_recovery.py\<close>.
\<close>

section \<open>Claims and updates\<close>

definition claimed_row :: "string \<Rightarrow> instant \<Rightarrow> retry_operation \<Rightarrow> retry_operation" where
  "claimed_row token now x = x\<lparr>op_claim_token := Some token,
     op_lease_expires_at := Some (Iso (now + claim_lease)), op_updated_at := now\<rparr>"

lemma claimed_row_simps [simp]:
  "op_recovery_id (claimed_row t n x) = op_recovery_id x"
  "op_attempt_id (claimed_row t n x) = op_attempt_id x"
  "op_state (claimed_row t n x) = op_state x"
  by (simp_all add: claimed_row_def)

lemma claimed_row_wf: "operation_wf x \<Longrightarrow> operation_wf (claimed_row t n x)"
  by (simp add: operation_wf_def claimed_row_def)

lemma claim_retry_Inr:
  assumes "claim_retry db review hex now = Inr ((row, acquired), db')"
  shows "rv_decision review = SAFE_TO_RETRY"
    and "get_retry_operation db' (rv_recovery_id review) = Some row"
    and "(get_retry_operation db (rv_recovery_id review) = None \<and> acquired \<and>
          (\<forall>x \<in> set (rec_operations db). op_attempt_id x \<noteq> rv_attempt_id review) \<and>
          db' = db\<lparr>rec_operations := rec_operations db @
                     [new_operation review (''claim_'' @ hex) now]\<rparr>) \<or>
         (\<exists>old. get_retry_operation db (rv_recovery_id review) = Some old \<and>
            op_state old = ''CLAIMED'' \<and> claim_stale now (op_lease_expires_at old) \<and>
            (let hit = (\<lambda>x. op_recovery_id x = rv_recovery_id review \<and> op_state x = ''CLAIMED'' \<and>
                sql_eq (op_lease_expires_at x) (op_lease_expires_at old)) in
             db' = db\<lparr>rec_operations := update_where hit (claimed_row (''claim_'' @ hex) now) (rec_operations db)\<rparr> \<and>
             acquired = (count_where hit (rec_operations db) = 1))) \<or>
         (db' = db \<and> \<not> acquired)"
  using assms unfolding claim_retry_def claimed_row_def
  by (auto simp: bindR_Inr_iff Let_def split: if_splits option.splits)

lemma claim_retry_inv:
  assumes inv: "recovery_inv db" and step: "claim_retry db review hex now = Inr ((row, acquired), db')"
  shows "recovery_inv db'" and "recovery_evolve db db'"
proof -
  have "recovery_inv db' \<and> recovery_evolve db db'"
    using claim_retry_Inr(3) [OF step]
  proof (elim disjE exE conjE)
    assume new: "get_retry_operation db (rv_recovery_id review) = None"
      "\<forall>x \<in> set (rec_operations db). op_attempt_id x \<noteq> rv_attempt_id review"
      and db': "db' = db\<lparr>rec_operations := rec_operations db @ [new_operation review (''claim_'' @ hex) now]\<rparr>"
    have "operation_wf (new_operation review (''claim_'' @ hex) now)"
      by (simp add: operation_wf_def new_operation_def)
    with recovery_inv_operations_append [OF inv, of "new_operation review (''claim_'' @ hex) now"] new
    show ?thesis
      by (simp add: db' get_retry_operation_def lookup_row_None_iff new_operation_def)
  next
    fix old
    assume old: "let hit = (\<lambda>x. op_recovery_id x = rv_recovery_id review \<and> op_state x = ''CLAIMED'' \<and>
                sql_eq (op_lease_expires_at x) (op_lease_expires_at old)) in
             db' = db\<lparr>rec_operations := update_where hit (claimed_row (''claim_'' @ hex) now) (rec_operations db)\<rparr> \<and>
             acquired = (count_where hit (rec_operations db) = 1)"
    have "operation_wf x" if "x \<in> set (rec_operations db)" for x
      using inv that by (simp add: recovery_inv_def)
    with old recovery_inv_operations_update [OF inv] show ?thesis
      by (simp add: Let_def claimed_row_wf)
  next
    assume "db' = db"
    with inv show ?thesis by (simp add: recovery_evolve_refl)
  qed
  then show "recovery_inv db'" "recovery_evolve db db'" by auto
qed

definition updated_operation :: "string \<Rightarrow> string option \<Rightarrow> instant \<Rightarrow> retry_operation \<Rightarrow> retry_operation" where
  "updated_operation s retry_attempt now x = x\<lparr>op_state := s,
     op_retry_attempt_id := (if retry_attempt = None then op_retry_attempt_id x else retry_attempt),
     op_updated_at := now, op_claim_token := None, op_lease_expires_at := None\<rparr>"

lemma updated_operation_simps [simp]:
  "op_recovery_id (updated_operation s ra n x) = op_recovery_id x"
  "op_attempt_id (updated_operation s ra n x) = op_attempt_id x"
  "op_state (updated_operation s ra n x) = s"
  by (simp_all add: updated_operation_def)

lemma update_retry_operation_at_Inr:
  assumes "update_retry_operation_at snap db i s ra now token = Inr (res, db')"
  obtains (same) "db' = db"
  | (moved) current where "get_retry_operation snap i = Some current"
      and "retry_allowed (op_state current) s"
      and "s = ''CREATED'' \<Longrightarrow> present ra"
      and "op_state current = ''CLAIMED'' \<Longrightarrow> present token \<and> token = op_claim_token current"
      and "op_state current = ''CLAIMED'' \<Longrightarrow> op_lease_expires_at current \<noteq> None \<Longrightarrow>
             op_lease_expires_at current \<noteq> Some (Garbled []) \<Longrightarrow> \<not> claim_stale now (op_lease_expires_at current)"
      and "db' = db\<lparr>rec_operations := update_where
             (\<lambda>x. op_recovery_id x = i \<and> op_state x = op_state current)
             (updated_operation s ra now) (rec_operations db)\<rparr>"
      and "res = get_retry_operation db' i"
proof -
  from assms obtain current where cur: "get_retry_operation snap i = Some current"
    by (auto simp: update_retry_operation_at_def split: option.splits)
  note eq = assms [unfolded update_retry_operation_at_def, simplified cur option.case Let_def]
  show ?thesis
  proof (cases "s = op_state current")
    case True
    with eq have "db' = db" by (auto split: if_splits)
    then show ?thesis by (rule same)
  next
    case False
    with eq cur show ?thesis
      by (intro moved [of current])
        (auto simp: present_def updated_operation_def [abs_def] split: if_splits option.splits)
  qed
qed

lemma update_retry_operation_at_inv:
  assumes inv: "recovery_inv db"
    and step: "update_retry_operation_at snap db i s ra now token = Inr (res, db')"
  shows "recovery_inv db'" and "recovery_evolve db db'"
proof -
  have "recovery_inv db' \<and> recovery_evolve db db'"
    using step
  proof (cases rule: update_retry_operation_at_Inr)
    case same
    with inv show ?thesis by (simp add: recovery_evolve_refl)
  next
    case (moved current)
    have wf: "operation_wf (updated_operation s ra now x)"
      if "x \<in> set (rec_operations db)" "op_state x = op_state current" for x
    proof -
      have "operation_wf x" using inv that(1) by (simp add: recovery_inv_def)
      with moved(2,3) that(2) show ?thesis
        by (auto simp: operation_wf_def updated_operation_def retry_allowed_def present_def split: option.splits)
    qed
    show ?thesis
      unfolding moved(6)
      by (intro conjI recovery_inv_operations_update [OF inv]) (use wf moved(2) in auto)
  qed
  then show "recovery_inv db'" "recovery_evolve db db'" by auto
qed

lemma recovery_open_at_inv:
  assumes inv: "recovery_inv db" and step: "recovery_open_at snap db a hex now = Inr (r, db')"
  shows "recovery_inv db'" and "recovery_evolve db db'"
  using recovery_open_at_Inr(2) [OF step] inv recovery_inv_reviews_append [OF inv, of r]
  by (auto simp: recovery_evolve_refl)

lemma recovery_resolve_at_inv:
  assumes inv: "recovery_inv db"
    and step: "recovery_resolve_at snap db i t verifier outcome why now = Inr (r, db')"
  shows "recovery_inv db'" and "recovery_evolve db db'"
proof -
  from step obtain d where db': "db' = db\<lparr>rec_reviews := update_where (\<lambda>r. rv_recovery_id r = i \<and> rv_decision r = UNKNOWN)
       (resolved_review d (arg_or_empty verifier) (arg_or_empty outcome) (arg_or_empty why) now) (rec_reviews db)\<rparr>"
    by (rule recovery_resolve_at_Inr)
  from recovery_inv_reviews_update [OF inv, of "\<lambda>r. rv_recovery_id r = i \<and> rv_decision r = UNKNOWN"
      "resolved_review d (arg_or_empty verifier) (arg_or_empty outcome) (arg_or_empty why) now"]
  show "recovery_inv db'" "recovery_evolve db db'"
    by (simp_all add: db' resolved_review_def)
qed

lemma recovery_resolve_verified_at_inv:
  assumes "recovery_inv db" and "recovery_resolve_verified_at snap db i v now = Inr (r, db')"
  shows "recovery_inv db'" and "recovery_evolve db db'"
  using recovery_resolve_at_inv [OF assms(1)] recovery_resolve_verified_at_Inr [OF assms(2)] by metis+

section \<open>Interleaved processes\<close>

datatype recovery_write =
    WOpen attempt string instant
  | WResolve string string "string option" "string option" "string option" instant
  | WResolveVerified string "verification option" instant
  | WClaim recovery_review string instant
  | WUpdate string string "string option" instant "string option"

definition db_of :: "('a \<times> 's) result \<Rightarrow> 's \<Rightarrow> 's" where
  "db_of res db = (case res of Inl _ \<Rightarrow> db | Inr (_, db') \<Rightarrow> db')"

fun recovery_write_db :: "recovery_write \<Rightarrow> recovery_db \<Rightarrow> recovery_db \<Rightarrow> recovery_db" where
  "recovery_write_db (WOpen a hex now) snap db = db_of (recovery_open_at snap db a hex now) db"
| "recovery_write_db (WResolve i d v out why now) snap db =
     db_of (recovery_resolve_at snap db i d v out why now) db"
| "recovery_write_db (WResolveVerified i v now) snap db =
     db_of (recovery_resolve_verified_at snap db i v now) db"
| "recovery_write_db (WClaim review hex now) snap db = db_of (claim_retry db review hex now) db"
| "recovery_write_db (WUpdate i s ra now token) snap db =
     db_of (update_retry_operation_at snap db i s ra now token) db"

lemma db_of_keeps:
  assumes "\<And>x db'. res = Inr (x, db') \<Longrightarrow> I db' \<and> E db db'" and "I db" and "E db db"
  shows "I (db_of res db) \<and> E db (db_of res db)"
  using assms by (auto simp: db_of_def split: sum.splits prod.splits)

lemma recovery_write_db_keeps:
  assumes inv: "recovery_inv db"
  shows "recovery_inv (recovery_write_db w snap db) \<and> recovery_evolve db (recovery_write_db w snap db)"
proof (cases w)
  case (WOpen a hex now)
  show ?thesis unfolding WOpen recovery_write_db.simps
    by (rule db_of_keeps) (use recovery_open_at_inv [OF inv] inv recovery_evolve_refl in auto)
next
  case (WResolve i d v out why now)
  show ?thesis unfolding WResolve recovery_write_db.simps
    by (rule db_of_keeps) (use recovery_resolve_at_inv [OF inv] inv recovery_evolve_refl in auto)
next
  case (WResolveVerified i v now)
  show ?thesis unfolding WResolveVerified recovery_write_db.simps
    by (rule db_of_keeps) (use recovery_resolve_verified_at_inv [OF inv] inv recovery_evolve_refl in auto)
next
  case (WClaim review hex now)
  show ?thesis unfolding WClaim recovery_write_db.simps
    by (rule db_of_keeps) (use claim_retry_inv [OF inv] inv recovery_evolve_refl in \<open>auto\<close>)
next
  case (WUpdate i s ra now token)
  show ?thesis unfolding WUpdate recovery_write_db.simps
    by (rule db_of_keeps) (use update_retry_operation_at_inv [OF inv] inv recovery_evolve_refl in auto)
qed

definition review_status :: "recovery_db \<Rightarrow> string \<Rightarrow> recovery_decision option" where
  "review_status db i = map_option rv_decision (lookup_row rv_recovery_id (rec_reviews db) i)"

definition operation_status :: "recovery_db \<Rightarrow> string \<Rightarrow> string option" where
  "operation_status db i = map_option op_state (get_retry_operation db i)"

definition decision_allowed :: "recovery_decision \<Rightarrow> recovery_decision \<Rightarrow> bool" where
  "decision_allowed d d' \<longleftrightarrow> d = UNKNOWN \<and> d' \<noteq> UNKNOWN"

lemma evolve_review_status:
  assumes "recovery_inv db'" and "recovery_evolve db db'" and "review_status db i = Some d"
  shows "\<exists>d'. review_status db' i = Some d' \<and> (d' = d \<or> decision_allowed d d')"
proof -
  from assms(3) obtain r where r: "lookup_row rv_recovery_id (rec_reviews db) i = Some r" "d = rv_decision r"
    by (auto simp: review_status_def)
  then have i: "rv_recovery_id r = i" and "r \<in> set (rec_reviews db)" by (auto dest: lookup_row_SomeD)
  with assms(2) obtain r' where r': "r' \<in> set (rec_reviews db')" "review_evolves r r'"
    unfolding recovery_evolve_def by blast
  with i have "rv_recovery_id r' = i" by (auto simp: review_evolves_def)
  with r'(1) assms(1) have "lookup_row rv_recovery_id (rec_reviews db') i = Some r'"
    by (auto simp: recovery_inv_def lookup_row_iff)
  with r'(2) r(2) show ?thesis
    by (auto simp: review_status_def review_evolves_def decision_allowed_def)
qed

lemma evolve_operation_row:
  assumes "recovery_inv db'" and "recovery_evolve db db'" and "get_retry_operation db i = Some x"
  obtains x' where "get_retry_operation db' i = Some x'" and "operation_evolves x x'"
proof -
  have i: "op_recovery_id x = i" and "x \<in> set (rec_operations db)"
    using assms(3) by (auto simp: get_retry_operation_def dest: lookup_row_SomeD)
  with assms(2) obtain x' where x': "x' \<in> set (rec_operations db')" "operation_evolves x x'"
    unfolding recovery_evolve_def by blast
  with i have "op_recovery_id x' = i" by (simp add: operation_evolves_def)
  with x'(1) assms(1) have "get_retry_operation db' i = Some x'"
    by (auto simp: recovery_inv_def get_retry_operation_def lookup_row_iff)
  with x'(2) that show ?thesis by blast
qed

text \<open>One write moves a retry operation one edge at most.\<close>

lemma operations_update_status:
  assumes k: "\<And>x. op_recovery_id (f x) = op_recovery_id x"
    and f: "\<And>x. x \<in> set (rec_operations db) \<Longrightarrow> p x \<Longrightarrow>
      op_state (f x) = op_state x \<or> retry_allowed (op_state x) (op_state (f x))"
    and st: "operation_status db i = Some a"
  shows "\<exists>b. operation_status (db\<lparr>rec_operations := update_where p f (rec_operations db)\<rparr>) i = Some b \<and>
    (b = a \<or> retry_allowed a b)"
proof -
  from st obtain x where x: "lookup_row op_recovery_id (rec_operations db) i = Some x" "a = op_state x"
    by (auto simp: operation_status_def get_retry_operation_def)
  then have "x \<in> set (rec_operations db)" by (blast dest: lookup_row_SomeD)
  with f [OF this] x show ?thesis
    by (auto simp: operation_status_def get_retry_operation_def table_simps k)
qed

lemma recovery_write_operation_moves:
  assumes inv: "recovery_inv db" and st: "operation_status db i = Some a"
  shows "\<exists>b. operation_status (recovery_write_db w snap db) i = Some b \<and> (b = a \<or> retry_allowed a b)"
proof -
  have same: ?thesis if "rec_operations (recovery_write_db w snap db) = rec_operations db"
  proof -
    from that have "operation_status (recovery_write_db w snap db) i = operation_status db i"
      by (simp add: operation_status_def get_retry_operation_def)
    with st show ?thesis by simp
  qed
  show ?thesis
  proof (cases w)
    case (WOpen at hex now)
    then show ?thesis
      by (intro same) (auto simp: db_of_def dest: recovery_open_at_Inr(2) split: sum.splits prod.splits)
  next
    case (WResolve j d v out why now)
    then show ?thesis
      by (intro same) (auto simp: db_of_def elim: recovery_resolve_at_Inr split: sum.splits prod.splits)
  next
    case (WResolveVerified j v now)
    then show ?thesis
      by (intro same) (auto simp: db_of_def elim!: recovery_resolve_verified_at_Inr recovery_resolve_at_Inr
          split: sum.splits prod.splits)
  next
    case (WClaim review hex now)
    show ?thesis
    proof (cases "claim_retry db review hex now")
      case (Inl e)
      then show ?thesis by (intro same) (simp add: WClaim db_of_def)
    next
      case (Inr y)
      then obtain row acq db' where y: "claim_retry db review hex now = Inr ((row, acq), db')"
        by (metis surj_pair)
      have upd: "\<exists>b. operation_status (db\<lparr>rec_operations := update_where p (claimed_row t now) (rec_operations db)\<rparr>) i = Some b \<and>
          (b = a \<or> retry_allowed a b)" for p t
        by (rule operations_update_status [OF _ _ st]) simp_all
      from claim_retry_Inr(3) [OF y] st upd show ?thesis
        by (auto simp: WClaim y db_of_def Let_def operation_status_def get_retry_operation_def table_simps
            split: option.splits)
    qed
  next
    case (WUpdate j s ra now token)
    show ?thesis
    proof (cases "update_retry_operation_at snap db j s ra now token")
      case (Inl e)
      then show ?thesis by (intro same) (simp add: WUpdate db_of_def)
    next
      case (Inr y)
      then obtain res db' where y: "update_retry_operation_at snap db j s ra now token = Inr (res, db')"
        by (metis surj_pair)
      then show ?thesis
      proof (cases rule: update_retry_operation_at_Inr)
        case same
        with y st show ?thesis by (simp add: WUpdate db_of_def)
      next
        case (moved current)
        have "\<exists>b. operation_status db' i = Some b \<and> (b = a \<or> retry_allowed a b)"
          unfolding moved(6) by (rule operations_update_status [OF _ _ st]) (use moved(2) in auto)
        with y show ?thesis by (simp add: WUpdate db_of_def)
      qed
    qed
  qed
qed

interpretation reviews: snapshot_writes recovery_write_db recovery_inv recovery_evolve
    review_status decision_allowed
  using recovery_write_db_keeps evolve_review_status recovery_evolve_refl recovery_evolve_trans
  by unfold_locales blast+

interpretation operations: snapshot_writes recovery_write_db recovery_inv recovery_evolve
    operation_status retry_allowed
  using recovery_write_db_keeps recovery_write_operation_moves recovery_evolve_refl recovery_evolve_trans
  by unfold_locales blast+

abbreviation recovery_run :: "recovery_write event list \<Rightarrow> recovery_db" where
  "recovery_run es \<equiv> sys_db (fold (sys_step recovery_write_db) es (sys_init empty_recovery_db))"

lemma recovery_run_inv: "recovery_inv (recovery_run es)"
  by (rule reviews.reachable_inv) simp

section \<open>Properties\<close>

text \<open>
  C12: a recovery decision is final. In any interleaving of processes working from stale
  snapshots, once a review has left UNKNOWN its decision never changes.
\<close>

theorem recovery_decision_is_final:
  assumes "review_status (recovery_run es) i = Some d" and "d \<noteq> UNKNOWN"
  shows "review_status (recovery_run (es @ es')) i = Some d"
  using reviews.reachable_terminal [OF recovery_inv_empty assms(1)] assms(2)
  by (simp add: terminal_in_def decision_allowed_def)

definition running_attempt :: attempt where
  "running_attempt = (new_attempt ''attempt_a'' ''t'' ''g'' ''h'' ''k'' 1 1)
     \<lparr>at_state := RUNNING, at_lease_expires_at := Some 301, at_started_at := Some 2\<rparr>"

definition review_events :: "recovery_write event list" where
  "review_events =
     [Read 0, Write 0 (WOpen running_attempt ''r'' 1000), Read 0, Read 1,
      Write 0 (WResolveVerified ''recovery_r''
        (Some \<lparr>vr_status = Some ''SAFE_TO_RETRY'', vr_verifier = Some ''v'', vr_outcome_id = Some ''o''\<rparr>) 1001)]"

theorem recovery_decision_is_final_witness:
  "review_status (recovery_run (review_events @
     [Write 1 (WResolve ''recovery_r'' ''QUARANTINED'' (Some []) (Some []) (Some []) 1002)])) ''recovery_r'' = Some SAFE_TO_RETRY"
  by (rule recovery_decision_is_final) code_simp+

text \<open>A call of \<^verbatim>\<open>resolve\<close> for \<open>i\<close> that was handed None for the verifier, or for the outcome.\<close>

definition verifier_omitted :: "recovery_write event list \<Rightarrow> string \<Rightarrow> bool" where
  "verifier_omitted es i \<longleftrightarrow> (\<exists>p d out why now. Write p (WResolve i d None out why now) \<in> set es)"

definition outcome_omitted :: "recovery_write event list \<Rightarrow> string \<Rightarrow> bool" where
  "outcome_omitted es i \<longleftrightarrow> (\<exists>p d v why now. Write p (WResolve i d v None why now) \<in> set es)"

definition verdict_traced :: "recovery_write event list \<Rightarrow> recovery_review \<Rightarrow> bool" where
  "verdict_traced es r \<longleftrightarrow> (rv_decision r \<in> {SAFE_TO_RETRY, SIDE_EFFECT_CONFIRMED} \<longrightarrow>
     (present (rv_verifier_id r) \<or> rv_verifier_id r = Some [] \<and> verifier_omitted es (rv_recovery_id r)) \<and>
     (present (rv_outcome_id r) \<or> rv_outcome_id r = Some [] \<and> outcome_omitted es (rv_recovery_id r)))"

lemma verdict_traced_snoc: "verdict_traced es r \<Longrightarrow> verdict_traced (es @ [e]) r"
  by (auto simp: verdict_traced_def verifier_omitted_def outcome_omitted_def) blast+

lemma resolve_traced:
  assumes "recovery_resolve_at snap db i d v out why now = Inr (x, db')" and "\<forall>r \<in> set (rec_reviews db). verdict_traced es r"
    and "v = None \<longrightarrow> verifier_omitted es i" and "out = None \<longrightarrow> outcome_omitted es i"
  shows "\<forall>r \<in> set (rec_reviews db'). verdict_traced es r"
proof -
  from assms(1) obtain d' where named: "d' \<in> {SIDE_EFFECT_CONFIRMED, SAFE_TO_RETRY} \<longrightarrow> \<not> blank (str_arg v) \<and> \<not> blank (str_arg out)"
    and db': "db' = db\<lparr>rec_reviews := update_where (\<lambda>r. rv_recovery_id r = i \<and> rv_decision r = UNKNOWN)
       (resolved_review d' (arg_or_empty v) (arg_or_empty out) (arg_or_empty why) now) (rec_reviews db)\<rparr>"
    by (rule recovery_resolve_at_Inr)
  have "verdict_traced es (resolved_review d' (arg_or_empty v) (arg_or_empty out) (arg_or_empty why) now r)"
    if "rv_recovery_id r = i" for r
    using named assms(3,4) that
    by (cases v; cases out) (auto simp: verdict_traced_def resolved_review_def str_arg_def arg_or_empty_def)
  with assms(2) show ?thesis by (auto simp: db' elim!: set_update_whereE)
qed

lemma verdicts_traced: "\<forall>r \<in> set (rec_reviews (recovery_run es)). verdict_traced es r"
proof (induction es rule: rev_induct)
  case Nil
  then show ?case by (simp add: empty_recovery_db_def)
next
  case (snoc e es)
  let ?s = "fold (sys_step recovery_write_db) es (sys_init empty_recovery_db)"
  from snoc have old: "\<forall>r \<in> set (rec_reviews (sys_db ?s)). verdict_traced (es @ [e]) r" by (blast intro: verdict_traced_snoc)
  show ?case
  proof (cases e)
    case (Read p)
    with old show ?thesis by simp
  next
    case (Write p w)
    let ?db = "sys_db ?s" and ?snap = "sys_snap ?s p"
    have "\<forall>r \<in> set (rec_reviews (recovery_write_db w ?snap ?db)). verdict_traced (es @ [e]) r"
    proof (cases w)
      case (WOpen a hex now)
      show ?thesis
      proof (cases "recovery_open_at ?snap ?db a hex now")
        case (Inr y)
        obtain r db' where y: "y = (r, db')" by (cases y)
        with Inr old recovery_open_at_Inr(2) [of ?snap ?db a hex now r db'] show ?thesis
          by (auto simp: WOpen db_of_def verdict_traced_def)
      qed (use old in \<open>simp add: WOpen db_of_def\<close>)
    next
      case (WResolve i d v out why now)
      have "v = None \<longrightarrow> verifier_omitted (es @ [e]) i" "out = None \<longrightarrow> outcome_omitted (es @ [e]) i"
        unfolding verifier_omitted_def outcome_omitted_def Write WResolve by (metis in_set_conv_decomp)+
      with resolve_traced [OF _ old] old show ?thesis
        by (auto simp: WResolve db_of_def split: sum.split prod.split)
    next
      case (WResolveVerified i v now)
      show ?thesis
      proof (cases "recovery_resolve_verified_at ?snap ?db i v now")
        case (Inr y)
        obtain r db' where y: "y = (r, db')" by (cases y)
        from recovery_resolve_verified_at_Inr [OF Inr [unfolded y]] obtain d vf oc where
          "recovery_resolve_at ?snap ?db i (recovery_decision_value d) (Some vf) (Some oc)
             (Some ''independent_outcome_verification'') now = Inr (r, db')" by blast
        from resolve_traced [OF this old] Inr y show ?thesis by (simp add: WResolveVerified db_of_def)
      qed (use old in \<open>simp add: WResolveVerified db_of_def\<close>)
    next
      case (WClaim review hex now)
      have "rec_reviews (recovery_write_db w ?snap ?db) = rec_reviews ?db"
        by (cases "claim_retry ?db review hex now") (auto simp: WClaim db_of_def Let_def dest!: claim_retry_Inr(3))
      with old show ?thesis by simp
    next
      case (WUpdate i s ra now token)
      have "rec_reviews (recovery_write_db w ?snap ?db) = rec_reviews ?db"
        by (cases "update_retry_operation_at ?snap ?db i s ra now token")
          (auto simp: WUpdate db_of_def elim!: update_retry_operation_at_Inr)
      with old show ?thesis by simp
    qed
    then show ?thesis by (simp add: Write)
  qed
qed

text \<open>
  C23: a verdict names its verifier, or was given none. In every reachable database a review
  decided SAFE_TO_RETRY or SIDE_EFFECT_CONFIRMED names a verifier that is not blank, unless a
  caller of \<^verbatim>\<open>resolve\<close> passed None for it, which the guard \<^verbatim>\<open>str(verifier_id).strip()\<close> takes for
  the text None and which is then stored as empty; the same holds of the outcome. So every
  verdict reached through \<^verbatim>\<open>resolve_verified\<close>, or by calls that pass texts, is named.
\<close>

theorem verdict_needs_verifier:
  assumes "r \<in> set (rec_reviews (recovery_run es))"
    and "rv_decision r \<in> {SAFE_TO_RETRY, SIDE_EFFECT_CONFIRMED}"
  shows "(present (rv_verifier_id r) \<or> rv_verifier_id r = Some [] \<and> verifier_omitted es (rv_recovery_id r)) \<and>
    (present (rv_outcome_id r) \<or> rv_outcome_id r = Some [] \<and> outcome_omitted es (rv_recovery_id r))"
  using bspec [OF verdicts_traced assms(1)] assms(2) unfolding verdict_traced_def by blast

definition safe_review :: recovery_review where
  "safe_review = resolved_review SAFE_TO_RETRY ''v'' ''o'' ''independent_outcome_verification'' 1001
     (new_review ''recovery_r'' running_attempt 1000)"

lemma review_events_run: "recovery_run review_events = \<lparr>rec_reviews = [safe_review], rec_operations = []\<rparr>"
  by code_simp

theorem verdict_needs_verifier_witness:
  "present (rv_verifier_id safe_review) \<and> present (rv_outcome_id safe_review)"
proof -
  have "safe_review \<in> set (rec_reviews (recovery_run review_events))" by (simp add: review_events_run)
  moreover have "rv_decision safe_review \<in> {SAFE_TO_RETRY, SIDE_EFFECT_CONFIRMED}"
    by (simp add: safe_review_def resolved_review_def)
  ultimately show ?thesis
    using verdict_needs_verifier [of safe_review review_events]
    by (simp add: verifier_omitted_def outcome_omitted_def review_events_def)
qed

text \<open>The case the theorem leaves open does occur: None passes both guards and is stored as empty.\<close>

theorem verdict_without_verifier:
  "map rv_verifier_id (rec_reviews (recovery_run [Read 0, Write 0 (WOpen running_attempt ''r'' 1000), Read 0,
     Write 0 (WResolve ''recovery_r'' ''SAFE_TO_RETRY'' None None (Some []) 1001)])) = [Some []]"
  by code_simp

text \<open>The claim on \<open>i\<close> runs until \<open>t\<close>, or the operation has moved past CLAIMED.\<close>

definition claim_held :: "string \<Rightarrow> instant \<Rightarrow> recovery_db \<Rightarrow> bool" where
  "claim_held i t db \<longleftrightarrow> (\<exists>row. get_retry_operation db i = Some row \<and>
     (op_state row = ''CLAIMED'' \<longrightarrow> op_lease_expires_at row = Some (Iso t)))"

lemma claim_held_same: "rec_operations db' = rec_operations db \<Longrightarrow> claim_held i t db' = claim_held i t db"
  by (simp add: claim_held_def get_retry_operation_def)

lemma claim_held_refuses:
  assumes "claim_held i t db" and "rv_decision review = SAFE_TO_RETRY" and "rv_recovery_id review = i" and "now < t"
  shows "\<exists>row. claim_retry db review hex now = Inr ((row, False), db)"
  using assms by (auto simp: claim_held_def claim_retry_def Let_def claim_stale_def)

lemma claim_held_write:
  assumes inv: "recovery_inv db" and held: "claim_held i t db"
    and early: "\<And>review hex now. w = WClaim review hex now \<Longrightarrow> rv_recovery_id review = i \<Longrightarrow> now < t"
  shows "claim_held i t (recovery_write_db w snap db)"
proof (cases w)
  case (WClaim review hex now)
  show ?thesis
  proof (cases "claim_retry db review hex now")
    case (Inr y)
    obtain row acquired db' where y: "y = ((row, acquired), db')" by (cases y) auto
    show ?thesis
    proof (cases "rv_recovery_id review = i")
      case True
      from claim_held_refuses [OF held claim_retry_Inr(1) [OF Inr [unfolded y]] True early [OF WClaim True], of hex]
      have "db' = db" using Inr y by auto
      with held Inr y show ?thesis by (simp add: WClaim db_of_def)
    next
      case False
      then have other: "lookup_row op_recovery_id (rec_operations db) i = Some x \<Longrightarrow> op_recovery_id x \<noteq> rv_recovery_id review" for x
        by (auto dest: lookup_row_SomeD)
      have "get_retry_operation db' i = get_retry_operation db i"
        using claim_retry_Inr(3) [OF Inr [unfolded y]] False
        by (cases "lookup_row op_recovery_id (rec_operations db) i")
          (auto simp: get_retry_operation_def table_simps Let_def new_operation_def dest: other split: option.splits)
      with held Inr y show ?thesis by (simp add: claim_held_def WClaim db_of_def)
    qed
  qed (use held in \<open>simp add: WClaim db_of_def\<close>)
next
  case (WUpdate j s ra now token)
  show ?thesis
  proof (cases "update_retry_operation_at snap db j s ra now token")
    case (Inr y)
    obtain res db' where y: "y = (res, db')" by (cases y)
    have "claim_held i t db'"
      using Inr [unfolded y]
    proof (cases rule: update_retry_operation_at_Inr)
      case same
      with held show ?thesis by simp
    next
      case (moved current)
      from held obtain row where row: "get_retry_operation db i = Some row"
        "op_state row = ''CLAIMED'' \<longrightarrow> op_lease_expires_at row = Some (Iso t)" by (auto simp: claim_held_def)
      have "s \<noteq> ''CLAIMED''" using moved(2) by (auto simp: retry_allowed_def)
      with row show ?thesis
        by (auto simp: claim_held_def moved(6) get_retry_operation_def table_simps split: option.splits)
    qed
    with Inr y show ?thesis by (simp add: WUpdate db_of_def)
  qed (use held in \<open>simp add: WUpdate db_of_def\<close>)
next
  case (WOpen a hex now)
  have "rec_operations (recovery_write_db w snap db) = rec_operations db"
  proof (cases "recovery_open_at snap db a hex now")
    case (Inr y)
    obtain r db' where y: "y = (r, db')" by (cases y)
    from recovery_open_at_Inr(2) [OF Inr [unfolded y]] have "rec_operations db' = rec_operations db"
      by (elim disjE conjE) simp_all
    with Inr y show ?thesis by (simp add: WOpen db_of_def)
  qed (simp add: WOpen db_of_def)
  with held show ?thesis using claim_held_same by blast
next
  case (WResolve j d v out why now)
  have "rec_operations (recovery_write_db w snap db) = rec_operations db"
    by (cases "recovery_resolve_at snap db j d v out why now") (auto simp: WResolve db_of_def elim!: recovery_resolve_at_Inr)
  with held show ?thesis using claim_held_same by blast
next
  case (WResolveVerified j v now)
  have "rec_operations (recovery_write_db w snap db) = rec_operations db"
    by (cases "recovery_resolve_verified_at snap db j v now")
      (auto simp: WResolveVerified db_of_def elim!: recovery_resolve_verified_at_Inr recovery_resolve_at_Inr)
  with held show ?thesis using claim_held_same by blast
qed

lemma claim_held_run:
  assumes "claim_held i t (recovery_run es)"
    and "\<And>p review hex now. Write p (WClaim review hex now) \<in> set es' \<Longrightarrow> rv_recovery_id review = i \<Longrightarrow> now < t"
  shows "claim_held i t (recovery_run (es @ es'))"
  using assms(2)
proof (induction es' rule: rev_induct)
  case Nil
  with assms(1) show ?case by simp
next
  case (snoc e es')
  have IH: "claim_held i t (recovery_run (es @ es'))" by (rule snoc.IH) (use snoc.prems in auto)
  show ?case
  proof (cases e)
    case (Read p)
    with IH show ?thesis by simp
  next
    case (Write p w)
    have "claim_held i t (recovery_write_db w snap (recovery_run (es @ es')))" for snap
      by (rule claim_held_write [OF recovery_run_inv IH]) (use snoc.prems Write in auto)
    with Write show ?thesis by simp
  qed
qed

text \<open>The lease an acquiring call leaves behind.\<close>

lemma claim_acquired:
  assumes inv: "recovery_inv db" and first: "claim_retry db review hex t = Inr ((row, True), db')"
  shows "claim_held (rv_recovery_id review) (t + claim_lease) db'"
proof -
  let ?i = "rv_recovery_id review"
  have row: "get_retry_operation db' ?i = Some row" by (rule claim_retry_Inr(2) [OF first])
  have lease: "op_lease_expires_at row = Some (Iso (t + claim_lease))"
    using claim_retry_Inr(3) [OF first]
  proof (elim disjE exE conjE)
    assume "get_retry_operation db ?i = None"
      "db' = db\<lparr>rec_operations := rec_operations db @ [new_operation review (''claim_'' @ hex) t]\<rparr>"
    with row show ?thesis
      by (auto simp: get_retry_operation_def table_simps new_operation_def)
  next
    fix old
    assume old: "get_retry_operation db ?i = Some old" "op_state old = ''CLAIMED''"
      and upd: "let hit = (\<lambda>x. op_recovery_id x = ?i \<and> op_state x = ''CLAIMED'' \<and>
                sql_eq (op_lease_expires_at x) (op_lease_expires_at old)) in
             db' = db\<lparr>rec_operations := update_where hit (claimed_row (''claim_'' @ hex) t) (rec_operations db)\<rparr> \<and>
             True = (count_where hit (rec_operations db) = 1)"
    from old(1) have "op_recovery_id old = ?i" and mem: "old \<in> set (rec_operations db)"
      by (auto simp: get_retry_operation_def dest: lookup_row_SomeD)
    moreover obtain e where "op_lease_expires_at old = Some (Iso e)"
      using inv old(2) mem by (auto simp: recovery_inv_def operation_wf_def)
    ultimately show ?thesis
      using upd old row by (auto simp: Let_def get_retry_operation_def table_simps sql_eq_def claimed_row_def)
  qed auto
  with row show ?thesis by (simp add: claim_held_def)
qed

text \<open>
  C19: a retry claim is exclusive for its lease. After a call of \<^verbatim>\<open>claim_retry\<close> has acquired
  the claim at time \<open>t\<close>, whatever the holder and any other processes do to the tables
  (claims of other recoveries, updates and verdicts from stale snapshots, refused claims of
  this one), every call for the same recovery whose clock reads less than \<open>t\<close> + 60 s returns
  without acquiring it and leaves the tables as they are. The calls in between are held to
  the same clock.
\<close>

theorem claim_is_exclusive:
  assumes first: "claim_retry (recovery_run es) review hex t = Inr ((row, True), db')"
    and between: "\<And>p rv h now. Write p (WClaim rv h now) \<in> set es' \<Longrightarrow> rv_recovery_id rv = rv_recovery_id review \<Longrightarrow> now < t + 60 * 1000000"
    and second: "rv_decision review' = SAFE_TO_RETRY" "rv_recovery_id review' = rv_recovery_id review"
    and early: "t' < t + 60 * 1000000"
  shows "\<exists>row'. claim_retry (recovery_run (es @ Write p (WClaim review hex t) # es')) review' hex' t' =
    Inr ((row', False), recovery_run (es @ Write p (WClaim review hex t) # es'))"
proof -
  have "recovery_run (es @ [Write p (WClaim review hex t)]) = db'" using first by (simp add: db_of_def)
  with claim_acquired [OF recovery_run_inv first]
  have "claim_held (rv_recovery_id review) (t + 60 * 1000000) (recovery_run (es @ [Write p (WClaim review hex t)]))"
    by (simp add: claim_lease_def)
  from claim_held_run [OF this, of es'] between have "claim_held (rv_recovery_id review) (t + 60 * 1000000)
      (recovery_run ((es @ [Write p (WClaim review hex t)]) @ es'))" by blast
  from claim_held_refuses [OF this second early] show ?thesis by simp
qed

theorem claim_is_exclusive_witness:
  "\<exists>row'. claim_retry (recovery_run (review_events @ Write 0 (WClaim safe_review ''x'' 2000) #
       [Write 1 (WClaim safe_review ''z'' 2500), Read 2, Write 2 (WUpdate ''recovery_r'' ''AUTHORIZED'' None 2600 (Some ''claim_x''))]))
     safe_review ''y'' 3000 = Inr ((row', False), recovery_run (review_events @ Write 0 (WClaim safe_review ''x'' 2000) #
       [Write 1 (WClaim safe_review ''z'' 2500), Read 2, Write 2 (WUpdate ''recovery_r'' ''AUTHORIZED'' None 2600 (Some ''claim_x''))]))"
proof (rule claim_is_exclusive)
  show "claim_retry (recovery_run review_events) safe_review ''x'' 2000 =
      Inr ((new_operation safe_review ''claim_x'' 2000, True), \<lparr>rec_reviews = [safe_review], rec_operations = [new_operation safe_review ''claim_x'' 2000]\<rparr>)"
    unfolding review_events_run by code_simp
  show "rv_decision safe_review = SAFE_TO_RETRY" by code_simp
qed auto

text \<open>
  C29: only the current holder of an unexpired claim can authorise the retry. When
  \<^verbatim>\<open>update_retry_operation\<close> moves a CLAIMED operation on, the token it was given is the
  stored one and the stored lease is not over.
\<close>

theorem update_needs_current_claim:
  assumes inv: "recovery_inv db"
    and row: "get_retry_operation db i = Some row" "op_state row = ''CLAIMED''"
    and step: "update_retry_operation_at db db i s ra now token = Inr (res, db')" "db' \<noteq> db"
  shows "s = ''AUTHORIZED'' \<and> present token \<and> op_claim_token row = token \<and>
    (\<exists>e. op_lease_expires_at row = Some (Iso e) \<and> now < e)"
proof -
  from row(1) have "row \<in> set (rec_operations db)"
    by (auto simp: get_retry_operation_def dest: lookup_row_SomeD)
  with inv row(2) obtain e where e: "op_lease_expires_at row = Some (Iso e)"
    by (auto simp: recovery_inv_def operation_wf_def)
  have "s = ''AUTHORIZED'' \<and> present token \<and> op_claim_token row = token \<and> now < e"
    using step(1)
  proof (cases rule: update_retry_operation_at_Inr)
    case same
    with step(2) show ?thesis by simp
  next
    case (moved current)
    with row e show ?thesis by (auto simp: retry_allowed_def claim_stale_def)
  qed
  with e show ?thesis by simp
qed

definition claimed_db :: recovery_db where
  "claimed_db = \<lparr>rec_reviews = [safe_review],
     rec_operations = [new_operation safe_review ''claim_x'' 2000]\<rparr>"

lemma claimed_db_run: "recovery_run (review_events @ [Write 0 (WClaim safe_review ''x'' 2000)]) = claimed_db"
  by code_simp

lemma claimed_db_inv: "recovery_inv claimed_db"
  using recovery_run_inv claimed_db_run by metis

theorem update_needs_current_claim_witness:
  "''AUTHORIZED'' = ''AUTHORIZED'' \<and> present (Some ''claim_x'') \<and>
     op_claim_token (new_operation safe_review ''claim_x'' 2000) = Some ''claim_x'' \<and>
     (\<exists>e. op_lease_expires_at (new_operation safe_review ''claim_x'' 2000) = Some (Iso e) \<and> 2500 < e)"
proof (rule update_needs_current_claim [OF claimed_db_inv])
  show "get_retry_operation claimed_db ''recovery_r'' = Some (new_operation safe_review ''claim_x'' 2000)"
    by code_simp
  show "op_state (new_operation safe_review ''claim_x'' 2000) = ''CLAIMED''" by code_simp
  let ?new = "updated_operation ''AUTHORIZED'' None 2500 (new_operation safe_review ''claim_x'' 2000)"
  show "update_retry_operation_at claimed_db claimed_db ''recovery_r'' ''AUTHORIZED'' None 2500
      (Some ''claim_x'') = Inr (Some ?new, claimed_db\<lparr>rec_operations := [?new]\<rparr>)"
    by code_simp
  show "claimed_db\<lparr>rec_operations := [?new]\<rparr> \<noteq> claimed_db" by code_simp
qed

text \<open>
  retry operations only move forward, CLAIMED to AUTHORIZED to CREATED, and there is at
  most one per attempt, under any interleaving.
\<close>

theorem retry_operation_forward:
  assumes "operation_status (recovery_run es) i = Some a"
  shows "\<exists>b. operation_status (recovery_run (es @ es')) i = Some b \<and> retry_allowed\<^sup>*\<^sup>* a b \<and>
    distinct (map op_attempt_id (rec_operations (recovery_run (es @ es'))))"
  using operations.run_status [OF operations.run_inv [OF operations.sys_init_inv [OF recovery_inv_empty]], of es es' i a]
    recovery_run_inv [of "es @ es'"] assms
  by (auto simp: recovery_inv_def key_unique_def)

theorem retry_operation_forward_witness:
  "\<exists>b. operation_status (recovery_run ((review_events @ [Write 0 (WClaim safe_review ''x'' 2000)]) @
     [Read 4, Write 4 (WUpdate ''recovery_r'' ''CREATED'' (Some ''attempt_b'') 2100 None)])) ''recovery_r'' = Some b \<and>
     retry_allowed\<^sup>*\<^sup>* ''CLAIMED'' b"
  using retry_operation_forward [of "review_events @ [Write 0 (WClaim safe_review ''x'' 2000)]" "''recovery_r''"
      "''CLAIMED''" "[Read 4, Write 4 (WUpdate ''recovery_r'' ''CREATED'' (Some ''attempt_b'') 2100 None)]"]
  unfolding claimed_db_run
  by (auto simp: operation_status_def get_retry_operation_def claimed_db_def new_operation_def
      safe_review_def resolved_review_def new_review_def)

section \<open>Two gaps of the claim protocol\<close>

text \<open>
  The conditional UPDATE of \<^verbatim>\<open>update_retry_operation\<close> compares the state but not the claim
  token it checked: a holder whose lease ends between its check and its write still
  authorises the retry although another process has taken the claim over.
\<close>

definition fencing_events :: "recovery_write event list" where
  "fencing_events = review_events @
     [Write 0 (WClaim safe_review ''x'' 2000), Read 0,
      Write 1 (WClaim safe_review ''y'' 60002000),
      Write 0 (WUpdate ''recovery_r'' ''AUTHORIZED'' None 60001999 (Some ''claim_x''))]"

theorem superseded_claim_still_authorises:
  "map op_claim_token (rec_operations (recovery_run (take 7 fencing_events))) = [Some ''claim_x'']"
  "map op_claim_token (rec_operations (recovery_run (take 8 fencing_events))) = [Some ''claim_y'']"
  "operation_status (recovery_run fencing_events) ''recovery_r'' = Some ''AUTHORIZED''"
  by code_simp+

text \<open>
  A CLAIMED row without a lease (as the column migration of the constructor leaves older
  rows) can never be claimed again: it counts as stale, but the take-over UPDATE compares
  the lease with NULL, which matches no row.
\<close>

theorem null_lease_claim_is_stuck:
  assumes "get_retry_operation db (rv_recovery_id review) = Some row"
    and "op_state row = ''CLAIMED''" and "op_lease_expires_at row = None"
    and "rv_decision review = SAFE_TO_RETRY"
  shows "claim_retry db review hex now = Inr ((row, False), db)"
  using assms
proof -
  have "\<not> sql_eq x None" for x :: "time_text option" by (cases x) (simp_all add: sql_eq_def)
  with assms show ?thesis
    by (simp add: claim_retry_def Let_def claim_stale_def count_where_def update_where_noop)
qed

end
