(* ===== verification/Json.thy ===== *)
theory Json
  imports Prelude
begin

text \<open>
  The part of Python's \<^verbatim>\<open>json\<close> module the code relies on: JSON values without floats, the
  compact canonical form \<^verbatim>\<open>json.dumps(v, sort_keys=True, separators=(",", ":"))\<close> with either
  value of \<^verbatim>\<open>ensure_ascii\<close>, and the fact every hash commitment of the code rests on: the
  canonical form determines the value. A dict is the list of its items; it is well formed
  when the items are in key order without duplicates, which is the representative a dict
  has up to the order of insertion.
\<close>

datatype json =
    JNull | JBool bool | JInt int | JStr string
  | JArr "json list" | JObj "(string \<times> json) list"

section \<open>Canonical text\<close>

definition hex_digit :: "nat \<Rightarrow> char" where
  "hex_digit d = (if d < 10 then char_of (48 + d) else char_of (87 + d))"

text \<open>The \<^verbatim>\<open>u00XX\<close> escape of a code point below 256, lower-case digits.\<close>

definition u_escape :: "nat \<Rightarrow> string" where
  "u_escape n = [CHR 0x5C, CHR ''u'', CHR ''0'', CHR ''0'', hex_digit (n div 16), hex_digit (n mod 16)]"

definition short_escapes :: "(char \<times> char) list" where
  "short_escapes = [(CHR 0x22, CHR 0x22), (CHR 0x5C, CHR 0x5C), (CHR 0x0A, CHR ''n''),
     (CHR 0x0D, CHR ''r''), (CHR 0x09, CHR ''t''), (CHR 0x0C, CHR ''f''), (CHR 0x08, CHR ''b'')]"

text \<open>With \<^verbatim>\<open>ensure_ascii\<close> everything outside the printable ASCII range is escaped, without
  it only control characters are.\<close>

definition json_escape :: "bool \<Rightarrow> char \<Rightarrow> string" where
  "json_escape ascii c = (case map_of short_escapes c of
      Some d \<Rightarrow> [CHR 0x5C, d]
    | None \<Rightarrow> (let n = of_char c :: nat in
        if n < 32 \<or> (ascii \<and> 126 < n) then u_escape n else [c]))"

definition json_string :: "bool \<Rightarrow> string \<Rightarrow> string" where
  "json_string ascii s = CHR 0x22 # concat (map (json_escape ascii) s) @ [CHR 0x22]"

fun join_comma :: "string list \<Rightarrow> string" where
  "join_comma [] = []"
| "join_comma [x] = x"
| "join_comma (x # y # xs) = x @ CHR '','' # join_comma (y # xs)"

definition json_item :: "bool \<Rightarrow> string \<times> string \<Rightarrow> string" where
  "json_item ascii kv = json_string ascii (fst kv) @ CHR '':'' # snd kv"

primrec dumps :: "bool \<Rightarrow> json \<Rightarrow> string" where
  "dumps ascii JNull = ''null''"
| "dumps ascii (JBool b) = (if b then ''true'' else ''false'')"
| "dumps ascii (JInt i) = int_str i"
| "dumps ascii (JStr s) = json_string ascii s"
| "dumps ascii (JArr xs) = CHR ''['' # join_comma (map (dumps ascii) xs) @ '']''"
| "dumps ascii (JObj kvs) = CHR ''{'' # join_comma (map (json_item ascii)
     (sort_key fst (map (map_prod id (dumps ascii)) kvs))) @ ''}''"

primrec json_wf :: "json \<Rightarrow> bool" where
  "json_wf JNull = True"
| "json_wf (JBool b) = True"
| "json_wf (JInt i) = True"
| "json_wf (JStr s) = True"
| "json_wf (JArr xs) = list_all id (map json_wf xs)"
| "json_wf (JObj kvs) = (sorted_wrt (<) (map fst (map (map_prod id json_wf) kvs)) \<and>
     list_all snd (map (map_prod id json_wf) kvs))"

text \<open>\<^verbatim>\<open>d.get(k)\<close> on a dict.\<close>

definition json_get :: "(string \<times> json) list \<Rightarrow> string \<Rightarrow> json" where
  "json_get kvs k = (case map_of kvs k of None \<Rightarrow> JNull | Some v \<Rightarrow> v)"

lemma json_get_Cons: "json_get ((k, v) # kvs) k' = (if k = k' then v else json_get kvs k')"
  by (simp add: json_get_def)

text \<open>Python's truth of a value.\<close>

fun truthy :: "json \<Rightarrow> bool" where
  "truthy JNull = False"
| "truthy (JBool b) = b"
| "truthy (JInt i) = (i \<noteq> 0)"
| "truthy (JStr s) = (s \<noteq> [])"
| "truthy (JArr xs) = (xs \<noteq> [])"
| "truthy (JObj kvs) = (kvs \<noteq> [])"

text \<open>
  \<^verbatim>\<open>str(v)\<close>; the rendering of a list or dict by \<^verbatim>\<open>repr\<close> is the parameter \<open>show\<close>.
\<close>

fun py_str :: "(json \<Rightarrow> string) \<Rightarrow> json \<Rightarrow> string" where
  "py_str show JNull = ''None''"
| "py_str show (JBool b) = (if b then ''True'' else ''False'')"
| "py_str show (JInt i) = int_str i"
| "py_str show (JStr s) = s"
| "py_str show (JArr xs) = show (JArr xs)"
| "py_str show (JObj kvs) = show (JObj kvs)"

section \<open>Numbers and strings are unambiguous\<close>

definition digit_val :: "char \<Rightarrow> nat" where
  "digit_val c = of_char c - 48"

definition nat_val :: "string \<Rightarrow> nat" where
  "nat_val s = foldl (\<lambda>n c. 10 * n + digit_val c) 0 s"

definition is_digit :: "char \<Rightarrow> bool" where
  "is_digit c \<longleftrightarrow> (let n = (of_char c :: nat) in 48 \<le> n \<and> n \<le> 57)"

lemma digit_char [simp]: "d < 10 \<Longrightarrow> digit_val (char_of (48 + d)) = d"
  by (simp add: digit_val_def)

lemma nat_val_snoc: "nat_val (s @ [c]) = 10 * nat_val s + digit_val c"
  by (simp add: nat_val_def)

lemma nat_val_nat_str [simp]: "nat_val (nat_str n) = n"
proof (induction n rule: nat_str.induct)
  case (1 n)
  show ?case
  proof (cases "n < 10")
    case True
    then show ?thesis by (subst nat_str.simps) (simp add: nat_val_def)
  next
    case False
    with 1 show ?thesis
      by (subst nat_str.simps) (simp add: nat_val_snoc)
  qed
qed

lemma nat_str_digits: "list_all is_digit (nat_str n)"
proof (induction n rule: nat_str.induct)
  case (1 n)
  have d: "is_digit (char_of (48 + d))" if "d < 10" for d :: nat
    using that by (simp add: is_digit_def)
  show ?case
  proof (cases "n < 10")
    case True
    then show ?thesis by (subst nat_str.simps) (simp add: d)
  next
    case False
    with 1 show ?thesis by (subst nat_str.simps) (simp add: d)
  qed
qed

lemma nat_str_not_Nil [simp]: "nat_str n \<noteq> []"
  by (subst nat_str.simps) simp

lemma nat_str_hd_digit: "is_digit (hd (nat_str n))"
  using nat_str_digits [of n] by (cases "nat_str n") auto

lemma int_str_inj: "int_str i = int_str j \<Longrightarrow> i = j"
proof -
  assume eq: "int_str i = int_str j"
  have minus: "\<not> is_digit CHR ''-''" by (simp add: is_digit_def)
  have inj: "nat_str m = nat_str n \<Longrightarrow> m = n" for m n by (metis nat_val_nat_str)
  have ne: "nat_str m \<noteq> CHR ''-'' # xs" for m xs
    using nat_str_hd_digit [of m] minus by auto
  have ne': "CHR ''-'' # xs \<noteq> nat_str m" for m xs using ne by metis
  show ?thesis
    using eq ne ne' by (auto simp: int_str_def split: if_splits dest!: inj)
qed

definition number_char :: "char \<Rightarrow> bool" where
  "number_char c \<longleftrightarrow> is_digit c \<or> c = CHR ''-''"

lemma int_str_number: "list_all number_char (int_str i)"
  using nat_str_digits by (auto simp: int_str_def number_char_def list_all_iff)

lemma int_str_not_Nil [simp]: "int_str i \<noteq> []"
  by (simp add: int_str_def)

text \<open>What may follow a value inside a larger canonical text.\<close>

definition delimited :: "string \<Rightarrow> bool" where
  "delimited r \<longleftrightarrow> r = [] \<or> hd r \<in> {CHR '','', CHR '']'', CHR ''}''}"

lemma delimited_simps [simp]:
  "delimited []" "delimited (CHR '','' # r)" "delimited (CHR '']'' # r)" "delimited (CHR ''}'' # r)"
  by (simp_all add: delimited_def)

lemma number_unambiguous:
  assumes "int_str i @ r = int_str j @ r'" and "delimited r" and "delimited r'"
  shows "i = j \<and> r = r'"
proof -
  have stop: "takeWhile number_char r = []" if "delimited r" for r
    using that by (cases r) (auto simp: delimited_def number_char_def is_digit_def)
  have "takeWhile number_char (int_str i @ r) = int_str i" if "delimited r" for i r
    using int_str_number [of i] stop [OF that] by (simp add: list_all_iff takeWhile_append)
  with assms have "int_str i = int_str j" by metis
  with assms(1) show ?thesis by (auto dest: int_str_inj)
qed

definition unhex :: "char \<Rightarrow> nat" where
  "unhex c = (let n = of_char c in if n < 58 then n - 48 else n - 87)"

lemma unhex_hex [simp]: "d < 16 \<Longrightarrow> unhex (hex_digit d) = d"
  by (simp add: unhex_def hex_digit_def)

text \<open>Reading one escaped character back.\<close>

definition unescape :: "string \<Rightarrow> char \<times> string" where
  "unescape s = (if hd s \<noteq> CHR 0x5C then (hd s, tl s)
     else if hd (tl s) = CHR ''u'' then (char_of (16 * unhex (s ! 4) + unhex (s ! 5)), drop 6 s)
     else (the (map_of (map prod.swap short_escapes) (hd (tl s))), drop 2 s))"

lemma short_escapes_dest:
  "map_of short_escapes c = Some d \<Longrightarrow>
     d \<noteq> CHR ''u'' \<and> map_of (map prod.swap short_escapes) d = Some c"
  by (auto simp: short_escapes_def split: if_splits)

lemma short_escapes_special: "map_of short_escapes c = None \<Longrightarrow> c \<noteq> CHR 0x5C \<and> c \<noteq> CHR 0x22"
  by (auto simp: short_escapes_def)

lemma unescape_escape: "unescape (json_escape ascii c @ x) = (c, x)"
proof (cases "map_of short_escapes c")
  case None
  let ?n = "of_char c :: nat"
  have "?n div 16 < 16" using nat_of_char_less_256 [of c] by linarith
  then show ?thesis
    using None short_escapes_special [OF None]
    by (simp add: json_escape_def unescape_def u_escape_def Let_def)
next
  case (Some d)
  with short_escapes_dest [OF Some] show ?thesis
    by (simp add: json_escape_def unescape_def)
qed

lemma json_escape_hd: "json_escape ascii c \<noteq> [] \<and> hd (json_escape ascii c) \<noteq> CHR 0x22"
  using short_escapes_special [of c]
  by (auto simp: json_escape_def u_escape_def Let_def split: option.splits)

lemma string_unambiguous:
  assumes "concat (map (json_escape ascii) s) @ CHR 0x22 # r = concat (map (json_escape ascii) s') @ CHR 0x22 # r'"
  shows "s = s' \<and> r = r'"
  using assms
proof (induction s arbitrary: s')
  case Nil
  then show ?case
    using json_escape_hd [of ascii "hd s'"] by (cases s') (auto simp: hd_append dest: arg_cong [of _ _ hd])
next
  case (Cons c s)
  show ?case
  proof (cases s')
    case Nil
    with Cons.prems have "hd (json_escape ascii c @ concat (map (json_escape ascii) s) @ CHR 0x22 # r) = CHR 0x22"
      by simp
    with json_escape_hd [of ascii c] show ?thesis by simp
  next
    case (Cons c' t)
    with Cons.prems have "unescape (json_escape ascii c @ concat (map (json_escape ascii) s) @ CHR 0x22 # r)
        = unescape (json_escape ascii c' @ concat (map (json_escape ascii) t) @ CHR 0x22 # r')" by simp
    then have "c = c'" "concat (map (json_escape ascii) s) @ CHR 0x22 # r
        = concat (map (json_escape ascii) t) @ CHR 0x22 # r'"
      by (simp_all add: unescape_escape)
    with Cons.IH [of t] Cons show ?thesis by simp
  qed
qed

lemma json_string_unambiguous:
  "json_string ascii s @ r = json_string ascii s' @ r' \<Longrightarrow> s = s' \<and> r = r'"
  using string_unambiguous [of ascii s r s' r'] by (simp add: json_string_def)

section \<open>Values are unambiguous\<close>

lemma dumps_hd: "dumps ascii j \<noteq> [] \<and> hd (dumps ascii j) \<notin> {CHR '','', CHR '']'', CHR ''}'', CHR '':''}"
proof (cases j)
  case (JInt i)
  then have "hd (int_str i) \<in> set (int_str i)" by (simp add: int_str_def)
  with int_str_number [of i] have "number_char (hd (int_str i))" by (simp add: list_all_iff)
  then show ?thesis using JInt by (auto simp: number_char_def is_digit_def)
qed (auto simp: json_string_def)

text \<open>A comma-separated list followed by its closing bracket, read element by element.\<close>

lemma join_comma_Cons: "join_comma (x # xs) = x @ (if xs = [] then [] else CHR '','' # join_comma xs)"
  by (cases xs) auto

lemma join_unambiguous:
  assumes step: "\<And>x y r r'. x \<in> set xs \<Longrightarrow> y \<in> set ys \<Longrightarrow> delimited r \<Longrightarrow> delimited r' \<Longrightarrow>
      f x @ r = f y @ r' \<Longrightarrow> x = y \<and> r = r'"
    and hd: "\<And>x. x \<in> set xs \<union> set ys \<Longrightarrow> f x \<noteq> [] \<and> hd (f x) \<noteq> c"
    and c: "c \<in> {CHR '']'', CHR ''}''}"
    and eq: "join_comma (map f xs) @ c # r = join_comma (map f ys) @ c # r'"
  shows "xs = ys \<and> r = r'"
  using step hd eq
proof (induction xs arbitrary: ys)
  case Nil
  then show ?case
  proof (cases ys)
    case (Cons y ys')
    with Nil.prems(3) have "hd (f y @ (if map f ys' = [] then [] else CHR '','' # join_comma (map f ys')) @ c # r') = hd (c # r)"
      by (simp add: join_comma_Cons)
    with Nil.prems(2) [of y] Cons show ?thesis by simp
  qed simp
next
  case (Cons x xs)
  show ?case
  proof (cases ys)
    case Nil
    with Cons.prems(3) have "hd (f x @ (if map f xs = [] then [] else CHR '','' # join_comma (map f xs)) @ c # r) = c"
      by (simp add: join_comma_Cons)
    with Cons.prems(2) [of x] show ?thesis by simp
  next
    case (Cons y ys')
    let ?R = "(if xs = [] then c # r else CHR '','' # join_comma (map f xs) @ c # r)"
    let ?R' = "(if ys' = [] then c # r' else CHR '','' # join_comma (map f ys') @ c # r')"
    have e: "f x @ ?R = f y @ ?R'"
      using Cons.prems(3) Cons by (auto simp: join_comma_Cons)
    have "delimited ?R" "delimited ?R'" using c by (auto simp: delimited_def)
    with Cons.prems(1) [of x y, OF _ _ _ _ e] Cons have xy: "x = y" and R: "?R = ?R'" by simp_all
    have "xs = ys' \<and> r = r'"
    proof (cases "xs = []")
      case True
      with R c show ?thesis by (cases "ys' = []") auto
    next
      case False
      with R c have "ys' \<noteq> []" by (cases "ys' = []") auto
      with False R have "join_comma (map f xs) @ c # r = join_comma (map f ys') @ c # r'" by simp
      then show ?thesis
        by (rule Cons.IH [rotated 2]) (use Cons.prems(1,2) Cons in auto)
    qed
    with xy Cons show ?thesis by simp
  qed
qed

lemma json_wf_obj_sort:
  assumes "json_wf (JObj kvs)"
  shows "sort_key fst (map (map_prod id (dumps ascii)) kvs) = map (map_prod id (dumps ascii)) kvs"
proof (rule sort_key_id_if_sorted)
  have "map fst (map (map_prod id (dumps ascii)) kvs) = map fst kvs"
    and "map fst (map (map_prod id json_wf) kvs) = map fst kvs" by (induction kvs) auto
  with assms show "sorted (map fst (map (map_prod id (dumps ascii)) kvs))"
    by (simp add: strict_sorted_iff)
qed

lemma dumps_obj:
  "json_wf (JObj kvs) \<Longrightarrow> dumps ascii (JObj kvs) =
     CHR ''{'' # join_comma (map (\<lambda>kv. json_item ascii (fst kv, dumps ascii (snd kv))) kvs) @ ''}''"
  by (simp add: json_wf_obj_sort del: json_wf.simps)
    (rule arg_cong [of _ _ join_comma], auto simp: map_prod_def split_beta)

fun json_kind :: "json \<Rightarrow> nat" where
  "json_kind JNull = 0"
| "json_kind (JBool b) = 1"
| "json_kind (JInt i) = 2"
| "json_kind (JStr t) = 3"
| "json_kind (JArr xs) = 4"
| "json_kind (JObj kvs) = 5"

definition head_kind :: "char \<Rightarrow> nat" where
  "head_kind c = (if c = CHR ''n'' then 0 else if c = CHR ''t'' \<or> c = CHR ''f'' then 1
     else if c = CHR 0x22 then 3 else if c = CHR ''['' then 4 else if c = CHR ''{'' then 5 else 2)"

lemma head_kind_dumps: "head_kind (hd (dumps ascii j)) = json_kind j"
proof (cases j)
  case (JInt i)
  have "number_char (hd (int_str i))"
    using int_str_number [of i] int_str_not_Nil [of i] by (simp add: list_all_iff)
  then show ?thesis using JInt by (auto simp: number_char_def is_digit_def head_kind_def)
qed (auto simp: json_string_def head_kind_def)

lemma same_kind:
  assumes "dumps ascii j @ r = dumps ascii j' @ r'"
  shows "json_kind j = json_kind j'"
proof -
  from assms have "hd (dumps ascii j) = hd (dumps ascii j')"
    using dumps_hd [of ascii j] dumps_hd [of ascii j'] by (metis hd_append)
  then show ?thesis by (metis head_kind_dumps)
qed

lemma item_unambiguous:
  assumes "json_item ascii (k, v) @ r = json_item ascii (k', v') @ r'"
  shows "k = k' \<and> v @ r = v' @ r'"
  using json_string_unambiguous [of ascii k "CHR '':'' # v @ r" k' "CHR '':'' # v' @ r'"] assms
  by (simp add: json_item_def)

lemma dumps_unambiguous:
  assumes "dumps ascii j @ r = dumps ascii j' @ r'" and "delimited r" and "delimited r'"
    and "json_wf j" and "json_wf j'"
  shows "j = j' \<and> r = r'"
  using assms
proof (induction j arbitrary: j' r r')
  case JNull
  with same_kind [OF JNull.prems(1)] show ?case by (cases j') auto
next
  case (JBool b)
  with same_kind [OF JBool.prems(1)] show ?case by (cases j') (auto split: if_splits)
next
  case (JInt i)
  with same_kind [OF JInt.prems(1)] obtain i' where j': "j' = JInt i'" by (cases j') auto
  with number_unambiguous [of i r i' r'] JInt.prems show ?case by simp
next
  case (JStr t)
  with same_kind [OF JStr.prems(1)] obtain t' where j': "j' = JStr t'" by (cases j') auto
  with json_string_unambiguous [of ascii t r t' r'] JStr.prems show ?case by simp
next
  case (JArr xs)
  with same_kind [OF JArr.prems(1)] obtain ys where j': "j' = JArr ys" by (cases j') auto
  have "xs = ys \<and> r = r'"
  proof (rule join_unambiguous [where f = "dumps ascii" and c = "CHR '']''"])
    show "join_comma (map (dumps ascii) xs) @ CHR '']'' # r = join_comma (map (dumps ascii) ys) @ CHR '']'' # r'"
      using JArr.prems(1) by (simp add: j')
    show "x = y \<and> q = q'" if "x \<in> set xs" "y \<in> set ys" "delimited q" "delimited q'"
      "dumps ascii x @ q = dumps ascii y @ q'" for x y q q'
      using JArr.IH [OF that(1,5,3,4)] JArr.prems(4,5) that(1,2) by (simp add: j' list_all_iff)
  qed (use dumps_hd in auto)
  then show ?case by (simp add: j')
next
  case (JObj kvs)
  with same_kind [OF JObj.prems(1)] obtain kvs' where j': "j' = JObj kvs'" by (cases j') auto
  let ?f = "\<lambda>kv. json_item ascii (fst kv, dumps ascii (snd kv))"
  have wf: "json_wf (snd kv)" if "kv \<in> set kvs \<union> set kvs'" for kv
    using JObj.prems(4,5) that by (cases kv) (auto simp: j' list_all_iff)
  have "kvs = kvs' \<and> r = r'"
  proof (rule join_unambiguous [where f = ?f and c = "CHR ''}''"])
    show "join_comma (map ?f kvs) @ CHR ''}'' # r = join_comma (map ?f kvs') @ CHR ''}'' # r'"
    proof -
      have "dumps ascii (JObj kvs) @ r = dumps ascii (JObj kvs') @ r'" using JObj.prems(1) j' by simp
      then show ?thesis
        unfolding dumps_obj [OF JObj.prems(4)] dumps_obj [OF JObj.prems(5) [unfolded j']] by simp
    qed
    show "x = y \<and> q = q'" if "x \<in> set kvs" "y \<in> set kvs'" "delimited q" "delimited q'"
      "?f x @ q = ?f y @ q'" for x y q q'
    proof -
      from item_unambiguous [OF that(5)] have "fst x = fst y"
        and e: "dumps ascii (snd x) @ q = dumps ascii (snd y) @ q'" by auto
      moreover have "snd x \<in> Basic_BNFs.snds x" by (cases x) simp
      ultimately show ?thesis
        using JObj.IH [OF that(1) _ e that(3,4)] wf [of x] wf [of y] that(1,2)
        by (auto simp: prod_eq_iff)
    qed
  qed (auto simp: json_item_def json_string_def)
  then show ?case by (simp add: j')
qed

corollary dumps_inj: "json_wf j \<Longrightarrow> json_wf j' \<Longrightarrow> dumps ascii j = dumps ascii j' \<Longrightarrow> j = j'"
  using dumps_unambiguous [of ascii j "[]" j' "[]"] by simp

end
