(* ===== verification/HashChain.thy ===== *)
theory HashChain
  imports Json
begin

text \<open>
  The hash chain shared by the recovery evidence, the attestor history and their portable
  artifacts: each link commits its own content and the hash of the link before it, the
  first link commits a fixed genesis value. The digest is a parameter (SHA-256 over the
  UTF-8 text, in hexadecimal); collision freedom is never assumed globally, only on the
  texts that occur in the chains a statement is about.
\<close>

text \<open>The value the first event of every chain links to: 64 zeros.\<close>

definition genesis_hash :: string where
  "genesis_hash = replicate 64 CHR ''0''"

record 'e link =
  lk_event :: 'e
  lk_prev :: string
  lk_hash :: string

fun chain_valid :: "('e \<Rightarrow> string \<Rightarrow> string) \<Rightarrow> string \<Rightarrow> 'e link list \<Rightarrow> bool" where
  "chain_valid h p [] = True"
| "chain_valid h p (l # ls) = (lk_prev l = p \<and> lk_hash l = h (lk_event l) p \<and> chain_valid h (lk_hash l) ls)"

definition chain_head :: "string \<Rightarrow> 'e link list \<Rightarrow> string" where
  "chain_head p ls = (if ls = [] then p else lk_hash (last ls))"

definition link_bodies :: "('e \<Rightarrow> string \<Rightarrow> string) \<Rightarrow> 'e link list \<Rightarrow> string set" where
  "link_bodies body ls = (\<lambda>l. body (lk_event l) (lk_prev l)) ` set ls"

lemma chain_head_Nil [simp]: "chain_head p [] = p"
  by (simp add: chain_head_def)

lemma chain_head_snoc [simp]: "chain_head p (ls @ [l]) = lk_hash l"
  by (simp add: chain_head_def)

lemma chain_head_Cons [simp]: "chain_head p (l # ls) = chain_head (lk_hash l) ls"
  by (simp add: chain_head_def)

lemma chain_valid_snoc [simp]:
  "chain_valid h p (ls @ [l]) \<longleftrightarrow> chain_valid h p ls \<and> lk_prev l = chain_head p ls \<and>
     lk_hash l = h (lk_event l) (chain_head p ls)"
  by (induction ls arbitrary: p) auto

lemma link_bodies_simps [simp]:
  "link_bodies body [] = {}"
  "link_bodies body (ls @ [l]) = insert (body (lk_event l) (lk_prev l)) (link_bodies body ls)"
  by (simp_all add: link_bodies_def)

text \<open>
  The digest does not collide on the texts \<open>A\<close>, and none of them hashes to the genesis
  value. For SHA-256 this is what collision and preimage resistance provide for any texts
  an adversary can produce.
\<close>

definition digest_good_on :: "(string \<Rightarrow> string) \<Rightarrow> string \<Rightarrow> string set \<Rightarrow> bool" where
  "digest_good_on digest genesis A \<longleftrightarrow> inj_on digest A \<and> genesis \<notin> digest ` A"

lemma digest_good_on_mono: "digest_good_on d g B \<Longrightarrow> A \<subseteq> B \<Longrightarrow> digest_good_on d g A"
  by (auto simp: digest_good_on_def intro: inj_on_subset)

locale hash_chain =
  fixes body :: "'e \<Rightarrow> string \<Rightarrow> string"
    and wf :: "'e \<Rightarrow> bool"
  assumes body_inj: "wf e \<Longrightarrow> wf e' \<Longrightarrow> body e p = body e' p' \<Longrightarrow> e = e' \<and> p = p'"
begin

text \<open>The head commits the whole chain.\<close>

lemma head_determines_chain:
  assumes "chain_valid (\<lambda>e p. digest (body e p)) g ls" and "chain_valid (\<lambda>e p. digest (body e p)) g ls'"
    and "\<forall>l \<in> set ls \<union> set ls'. wf (lk_event l)"
    and "digest_good_on digest g (link_bodies body ls \<union> link_bodies body ls')"
    and "chain_head g ls = chain_head g ls'"
  shows "ls = ls'"
  using assms
proof (induction ls arbitrary: ls' rule: rev_induct)
  case Nil
  then show ?case
    by (cases ls' rule: rev_cases) (auto simp: digest_good_on_def)
next
  case (snoc l ls)
  show ?case
  proof (cases ls' rule: rev_cases)
    case Nil
    with snoc.prems show ?thesis by (auto simp: digest_good_on_def)
  next
    case (snoc ms m)
    have h: "digest (body (lk_event l) (lk_prev l)) = digest (body (lk_event m) (lk_prev m))"
      using \<open>chain_head g (ls @ [l]) = chain_head g ls'\<close> snoc.prems(1,2) snoc by simp
    have "inj_on digest (link_bodies body (ls @ [l]) \<union> link_bodies body (ms @ [m]))"
      using snoc.prems(4) unfolding \<open>ls' = ms @ [m]\<close> digest_good_on_def by blast
    then have "body (lk_event l) (lk_prev l) = body (lk_event m) (lk_prev m)"
      using h by (rule inj_onD) simp_all
    with body_inj snoc.prems(3) snoc have ev: "lk_event l = lk_event m" "lk_prev l = lk_prev m" by auto
    have "ls = ms"
    proof (rule snoc.IH)
      show "chain_head g ls = chain_head g ms" using ev(2) snoc.prems(1,2) snoc by simp
      show "digest_good_on digest g (link_bodies body ls \<union> link_bodies body ms)"
        by (rule digest_good_on_mono [OF snoc.prems(4)]) (auto simp: snoc)
    qed (use snoc.prems snoc in auto)
    with ev h snoc.prems(1,2) snoc show ?thesis by (auto simp: link.equality)
  qed
qed

end

end
