(* ===== verification/RecoveryEvidence.thy ===== *)
theory RecoveryEvidence
  imports HashChain Lifecycle "HOL-Library.Sublist"
begin

text \<open>
  The append-only recovery evidence chain (\<^verbatim>\<open>src/shared/recovery_evidence.py\<close>): events per
  recovery, each committing the hash of the one before, the verifier over the table and
  the verifier over a portable JSON artifact. Payload columns hold the canonical text of a
  dict and are read back with \<^verbatim>\<open>json.loads\<close>; the model stores the dict itself, with its
  items in key order. An append reads the previous hash and inserts its row without a
  transaction, so it takes the table it read and the table it writes separately; an export
  takes the tables of its two reads. Interleaved appends are runs of such steps.
\<close>

definition schema_version :: string where
  "schema_version = ''recovery-evidence-v1''"

record evidence_row =
  er_event_id :: int
  er_recovery_id :: string
  er_attempt_id :: string
  er_event_type :: string
  er_payload :: json
  er_occurred_at :: string
  er_prev_hash :: string
  er_event_hash :: string

text \<open>The table and its AUTOINCREMENT counter.\<close>

record evidence_db =
  ev_rows :: "evidence_row list"
  ev_seq :: int

definition empty_evidence :: evidence_db where
  "empty_evidence = \<lparr>ev_rows = [], ev_seq = 0\<rparr>"

section \<open>Hashing\<close>

text \<open>The canonical text of the committed dict, its seven keys in sorted order.\<close>

definition event_body :: "string \<Rightarrow> string \<Rightarrow> string \<Rightarrow> json \<Rightarrow> string \<Rightarrow> string \<Rightarrow> string" where
  "event_body recovery attempt etype payload occurred prev = dumps False (JObj
     [(''attempt_id'', JStr attempt), (''event_type'', JStr etype),
      (''occurred_at'', JStr occurred), (''payload'', payload), (''prev_hash'', JStr prev),
      (''recovery_id'', JStr recovery), (''schema_version'', JStr schema_version)])"

definition hash_event :: "(string \<Rightarrow> string) \<Rightarrow> string \<Rightarrow> string \<Rightarrow> string \<Rightarrow> json \<Rightarrow> string \<Rightarrow> string \<Rightarrow> string" where
  "hash_event sha recovery attempt etype payload occurred prev =
     sha (event_body recovery attempt etype payload occurred prev)"

section \<open>The table\<close>

definition evidence_events :: "evidence_db \<Rightarrow> string \<Rightarrow> evidence_row list" where
  "evidence_events db rid = sort_key er_event_id (filter (\<lambda>r. er_recovery_id r = rid) (ev_rows db))"

definition get_event :: "evidence_db \<Rightarrow> string \<Rightarrow> evidence_row result" where
  "get_event db h = (case lookup_row er_event_hash (ev_rows db) h of
      None \<Rightarrow> raise RecoveryEvidenceError ''evidence_event_not_found''
    | Some r \<Rightarrow> Inr r)"

text \<open>ORDER BY event_id DESC LIMIT 1, or the genesis hash.\<close>

definition previous_hash :: "evidence_db \<Rightarrow> string \<Rightarrow> string" where
  "previous_hash db rid = (case rev (evidence_events db rid) of
      [] \<Rightarrow> genesis_hash | r # _ \<Rightarrow> er_event_hash r)"

text \<open>
  \<^verbatim>\<open>append\<close> reads the previous hash and inserts later, with no transaction around the two and
  no constraint that ties them. \<open>evidence_draft\<close> is everything up to the INSERT, against
  the database of that moment; \<open>evidence_insert\<close> the INSERT, the commit and the read back (no
  statement of the code ever deletes a row), against the database of its own moment.
  \<open>payload\<close> is None for the default, which is an empty dict; \<open>now\<close> is the ISO text. The
  event id of a draft is a placeholder, AUTOINCREMENT assigns it.
\<close>

definition evidence_draft :: "(string \<Rightarrow> string) \<Rightarrow> evidence_db \<Rightarrow> string \<Rightarrow> string \<Rightarrow> string \<Rightarrow>
    json option \<Rightarrow> string \<Rightarrow> evidence_row result" where
  "evidence_draft sha snap rid aid etype payload now =
    (if blank rid then raise RecoveryEvidenceError ''recovery_id_required''
     else if blank aid then raise RecoveryEvidenceError ''attempt_id_required''
     else if blank etype then raise RecoveryEvidenceError ''event_type_required''
     else
       (case (case payload of None \<Rightarrow> JObj [] | Some p \<Rightarrow> p) of
          JObj kvs \<Rightarrow>
           (let prev = previous_hash snap rid
            in Inr \<lparr>er_event_id = 0, er_recovery_id = rid, er_attempt_id = aid,
                    er_event_type = etype, er_payload = JObj kvs, er_occurred_at = now,
                    er_prev_hash = prev, er_event_hash = hash_event sha rid aid etype (JObj kvs) now prev\<rparr>)
        | _ \<Rightarrow> raise RecoveryEvidenceError ''payload_must_be_dict''))"

definition evidence_insert :: "evidence_db \<Rightarrow> evidence_row \<Rightarrow> (evidence_row \<times> evidence_db) result" where
  "evidence_insert db draft =
    (let row = draft\<lparr>er_event_id := ev_seq db + 1\<rparr>;
         db' = \<lparr>ev_rows = ev_rows db @ [row], ev_seq = ev_seq db + 1\<rparr>
     in if lookup_row er_event_hash (ev_rows db) (er_event_hash row) \<noteq> None
        then raise RecoveryEvidenceError ''evidence_append_conflict''
        else bindR (get_event db' (er_event_hash row)) (\<lambda>r. Inr (r, db')))"

definition evidence_append_at :: "(string \<Rightarrow> string) \<Rightarrow> evidence_db \<Rightarrow> evidence_db \<Rightarrow> string \<Rightarrow> string \<Rightarrow>
    string \<Rightarrow> json option \<Rightarrow> string \<Rightarrow> (evidence_row \<times> evidence_db) result" where
  "evidence_append_at sha snap db rid aid etype payload now =
     bindR (evidence_draft sha snap rid aid etype payload now) (evidence_insert db)"

text \<open>An append that nothing interrupts.\<close>

definition evidence_append :: "(string \<Rightarrow> string) \<Rightarrow> evidence_db \<Rightarrow> string \<Rightarrow> string \<Rightarrow> string \<Rightarrow>
    json option \<Rightarrow> string \<Rightarrow> (evidence_row \<times> evidence_db) result" where
  "evidence_append sha db = evidence_append_at sha db db"

section \<open>Verification\<close>

text \<open>
  The result dict: valid with the number of events and the head hash, or invalid with the
  error and, for some errors, the number of events and the offending event's hash field.
\<close>

datatype chain_result = Valid nat string | Invalid string "nat option" "json option"

fun verify_rows :: "(string \<Rightarrow> string) \<Rightarrow> nat \<Rightarrow> string \<Rightarrow> evidence_row list \<Rightarrow> chain_result" where
  "verify_rows sha n expected_prev [] = Valid n expected_prev"
| "verify_rows sha n expected_prev (e # es) =
    (if er_prev_hash e \<noteq> expected_prev
     then Invalid ''broken_prev_hash'' (Some n) (Some (JStr (er_event_hash e)))
     else if er_event_hash e \<noteq> hash_event sha (er_recovery_id e) (er_attempt_id e)
               (er_event_type e) (er_payload e) (er_occurred_at e) (er_prev_hash e)
     then Invalid ''event_hash_mismatch'' (Some n) (Some (JStr (er_event_hash e)))
     else verify_rows sha n (er_event_hash e) es)"

definition evidence_verify :: "(string \<Rightarrow> string) \<Rightarrow> evidence_db \<Rightarrow> string \<Rightarrow> chain_result" where
  "evidence_verify sha db rid =
     (let es = evidence_events db rid in verify_rows sha (length es) genesis_hash es)"

definition row_to_dict :: "evidence_row \<Rightarrow> json" where
  "row_to_dict r = JObj
     [(''event_id'', JInt (er_event_id r)), (''recovery_id'', JStr (er_recovery_id r)),
      (''attempt_id'', JStr (er_attempt_id r)), (''event_type'', JStr (er_event_type r)),
      (''payload'', er_payload r), (''occurred_at'', JStr (er_occurred_at r)),
      (''prev_hash'', JStr (er_prev_hash r)), (''event_hash'', JStr (er_event_hash r))]"

text \<open>\<^verbatim>\<open>export_artifact\<close> reads the events first and verifies, by a second read, later.\<close>

definition export_artifact_at :: "(string \<Rightarrow> string) \<Rightarrow> evidence_db \<Rightarrow> evidence_db \<Rightarrow> string \<Rightarrow> json result" where
  "export_artifact_at sha snap db rid =
    (let events = evidence_events snap rid in
     case evidence_verify sha db rid of
       Invalid _ _ _ \<Rightarrow> raise RecoveryEvidenceError ''cannot_export_invalid_chain''
     | Valid _ head \<Rightarrow>
        if card (er_recovery_id ` set events) \<noteq> 1 \<or>
           (events \<noteq> [] \<and> card (er_attempt_id ` set events) \<noteq> 1)
        then raise RecoveryEvidenceError ''inconsistent_recovery_chain''
        else Inr (JObj
          [(''schema_version'', JStr schema_version), (''recovery_id'', JStr rid),
           (''attempt_id'', (case events of [] \<Rightarrow> JNull | e # _ \<Rightarrow> JStr (er_attempt_id e))),
           (''events'', JArr (map row_to_dict events)), (''head_hash'', JStr head)]))"


definition required_event_fields :: "string list" where
  "required_event_fields =
     [''attempt_id'', ''event_type'', ''payload'', ''occurred_at'', ''prev_hash'', ''event_hash'']"

fun verify_artifact_events :: "(json \<Rightarrow> string) \<Rightarrow> (string \<Rightarrow> string) \<Rightarrow> nat \<Rightarrow> json \<Rightarrow> json \<Rightarrow> json \<Rightarrow>
    json list \<Rightarrow> chain_result + json" where
  "verify_artifact_events show sha n rid aid expected_prev [] = Inr expected_prev"
| "verify_artifact_events show sha n rid aid expected_prev (ev # evs) =
    (case ev of
       JObj e \<Rightarrow>
        if json_get e ''recovery_id'' \<noteq> rid
        then Inl (Invalid ''recovery_id_mismatch'' None None)
        else if aid \<noteq> JNull \<and> json_get e ''attempt_id'' \<noteq> aid
        then Inl (Invalid ''attempt_id_mismatch'' None None)
        else if json_get e ''prev_hash'' \<noteq> expected_prev
        then Inl (Invalid ''broken_prev_hash'' (Some n) (Some (json_get e ''event_hash'')))
        else if \<exists>f \<in> set required_event_fields. map_of e f = None
        then Inl (Invalid ''event_field_missing'' None None)
        else if json_get e ''event_hash'' \<noteq> JStr (hash_event sha
               (py_str show (json_get e ''recovery_id'')) (py_str show (json_get e ''attempt_id''))
               (py_str show (json_get e ''event_type'')) (json_get e ''payload'')
               (py_str show (json_get e ''occurred_at'')) (py_str show (json_get e ''prev_hash'')))
        then Inl (Invalid ''event_hash_mismatch'' (Some n) (Some (json_get e ''event_hash'')))
        else verify_artifact_events show sha n rid aid (json_get e ''event_hash'') evs
     | _ \<Rightarrow> Inl (Invalid ''event_must_be_dict'' None None))"

definition verify_artifact :: "(json \<Rightarrow> string) \<Rightarrow> (string \<Rightarrow> string) \<Rightarrow> json \<Rightarrow> chain_result" where
  "verify_artifact show sha artifact =
    (case artifact of
       JObj a \<Rightarrow>
        if json_get a ''schema_version'' \<noteq> JStr schema_version
        then Invalid ''unsupported_schema_version'' None None
        else (case json_get a ''recovery_id'' of
           JStr rid \<Rightarrow>
            if blank rid then Invalid ''recovery_id_required'' None None
            else (case json_get a ''events'' of
               JArr evs \<Rightarrow>
                (case verify_artifact_events show sha (length evs) (JStr rid)
                        (json_get a ''attempt_id'') (JStr genesis_hash) evs of
                   Inl bad \<Rightarrow> bad
                 | Inr head \<Rightarrow>
                     if json_get a ''head_hash'' \<noteq> head
                     then Invalid ''head_hash_mismatch'' (Some (length evs)) None
                     else Valid (length evs) (py_str show head))
             | _ \<Rightarrow> Invalid ''events_must_be_list'' None None)
         | _ \<Rightarrow> Invalid ''recovery_id_required'' None None)
     | _ \<Rightarrow> Invalid ''artifact_must_be_dict'' None None)"

section \<open>The chain of a recovery\<close>

type_synonym event_content = "string \<times> string \<times> string \<times> json \<times> string"

definition content_body :: "event_content \<Rightarrow> string \<Rightarrow> string" where
  "content_body c prev = (case c of (rid, aid, etype, payload, occurred) \<Rightarrow>
     event_body rid aid etype payload occurred prev)"

definition content_wf :: "event_content \<Rightarrow> bool" where
  "content_wf c = (case c of (rid, aid, etype, payload, occurred) \<Rightarrow> json_wf payload)"

definition row_link :: "evidence_row \<Rightarrow> event_content link" where
  "row_link r = \<lparr>lk_event = (er_recovery_id r, er_attempt_id r, er_event_type r, er_payload r, er_occurred_at r),
     lk_prev = er_prev_hash r, lk_hash = er_event_hash r\<rparr>"

lemma row_link_hash: "lk_hash (row_link r) = er_event_hash r"
  by (simp add: row_link_def)

lemma row_link_prev: "lk_prev (row_link r) = er_prev_hash r"
  by (simp add: row_link_def)

definition evidence_links :: "evidence_db \<Rightarrow> string \<Rightarrow> event_content link list" where
  "evidence_links db rid = map row_link (evidence_events db rid)"

lemma event_keys_sorted: "sorted_wrt (<) [''attempt_id'', ''event_type'', ''occurred_at'', ''payload'',
    ''prev_hash'', ''recovery_id'', ''schema_version'']"
  by code_simp

interpretation evidence_chain: hash_chain content_body content_wf
proof
  fix c c' :: event_content and p p' :: string
  assume wf: "content_wf c" "content_wf c'" and eq: "content_body c p = content_body c' p'"
  obtain rid aid etype payload occurred where c: "c = (rid, aid, etype, payload, occurred)" by (cases c)
  obtain rid' aid' etype' payload' occurred' where c': "c' = (rid', aid', etype', payload', occurred')" by (cases c')
  have "JObj [(''attempt_id'', JStr aid), (''event_type'', JStr etype),
      (''occurred_at'', JStr occurred), (''payload'', payload), (''prev_hash'', JStr p),
      (''recovery_id'', JStr rid), (''schema_version'', JStr schema_version)] =
    JObj [(''attempt_id'', JStr aid'), (''event_type'', JStr etype'),
      (''occurred_at'', JStr occurred'), (''payload'', payload'), (''prev_hash'', JStr p'),
      (''recovery_id'', JStr rid'), (''schema_version'', JStr schema_version)]"
    by (rule dumps_inj [of _ _ False])
      (use wf eq event_keys_sorted in \<open>simp_all add: c c' content_wf_def content_body_def event_body_def\<close>)
  then show "c = c' \<and> p = p'" by (simp add: c c')
qed

abbreviation content_hash :: "(string \<Rightarrow> string) \<Rightarrow> event_content \<Rightarrow> string \<Rightarrow> string" where
  "content_hash sha \<equiv> \<lambda>c p. sha (content_body c p)"

lemma verify_rows_Valid:
  "verify_rows sha n p es = Valid m h \<longleftrightarrow>
     m = n \<and> h = chain_head p (map row_link es) \<and> chain_valid (content_hash sha) p (map row_link es)"
  by (induction es arbitrary: p)
    (auto simp: row_link_def content_body_def hash_event_def)

lemma evidence_verify_Valid:
  "evidence_verify sha db rid = Valid m h \<longleftrightarrow>
     m = length (evidence_events db rid) \<and> h = chain_head genesis_hash (evidence_links db rid) \<and>
     chain_valid (content_hash sha) genesis_hash (evidence_links db rid)"
  by (simp add: evidence_verify_def Let_def verify_rows_Valid evidence_links_def)

section \<open>Appending\<close>

definition evidence_ids_ok :: "evidence_db \<Rightarrow> bool" where
  "evidence_ids_ok db \<longleftrightarrow> sorted_wrt (<) (map er_event_id (ev_rows db)) \<and>
     (\<forall>r \<in> set (ev_rows db). er_event_id r \<le> ev_seq db)"

definition evidence_inv :: "(string \<Rightarrow> string) \<Rightarrow> evidence_db \<Rightarrow> bool" where
  "evidence_inv sha db \<longleftrightarrow> evidence_ids_ok db \<and>
     (\<forall>rid. chain_valid (content_hash sha) genesis_hash (evidence_links db rid))"

lemma evidence_events_filter:
  "evidence_ids_ok db \<Longrightarrow> evidence_events db rid = filter (\<lambda>r. er_recovery_id r = rid) (ev_rows db)"
  unfolding evidence_events_def evidence_ids_ok_def
  by (rule sort_key_id_if_sorted) (metis sorted_filter strict_sorted_imp_sorted)

lemma evidence_ids_ok_append:
  "evidence_ids_ok db \<Longrightarrow> er_event_id r = ev_seq db + 1 \<Longrightarrow>
     evidence_ids_ok \<lparr>ev_rows = ev_rows db @ [r], ev_seq = ev_seq db + 1\<rparr>"
  by (fastforce simp: evidence_ids_ok_def sorted_wrt_append)

lemma previous_hash_head: "previous_hash db rid = chain_head genesis_hash (evidence_links db rid)"
  by (cases "evidence_events db rid" rule: rev_cases)
    (simp_all add: previous_hash_def evidence_links_def row_link_def)

lemma evidence_append_at_Inr:
  assumes "evidence_append_at sha snap db rid aid etype payload now = Inr (r, db')"
  shows "db' = \<lparr>ev_rows = ev_rows db @ [r], ev_seq = ev_seq db + 1\<rparr>"
    and "er_recovery_id r = rid" and "er_event_id r = ev_seq db + 1"
    and "er_prev_hash r = previous_hash snap rid"
    and "er_event_hash r = content_hash sha (lk_event (row_link r)) (er_prev_hash r)"
    and "\<not> blank rid" and "er_payload r = (case payload of None \<Rightarrow> JObj [] | Some p \<Rightarrow> p)"
    and "er_attempt_id r = aid" and "er_event_type r = etype" and "er_occurred_at r = now"
    and "lookup_row er_event_hash (ev_rows db) (er_event_hash r) = None"
  using assms
  by (auto simp: evidence_append_at_def evidence_draft_def evidence_insert_def Let_def bindR_Inr_iff get_event_def table_simps
      row_link_def content_body_def hash_event_def split: if_splits json.splits option.splits)

lemmas evidence_append_Inr = evidence_append_at_Inr [where snap = db and db = db for db, folded evidence_append_def]

lemma evidence_append_events:
  assumes ok: "evidence_ids_ok db" and step: "evidence_append sha db rid aid etype payload now = Inr (r, db')"
  shows "evidence_ids_ok db'"
    and "evidence_events db' rid' = evidence_events db rid' @ (if rid' = rid then [r] else [])"
proof -
  show ok': "evidence_ids_ok db'"
    unfolding evidence_append_Inr(1) [OF step]
    by (rule evidence_ids_ok_append [OF ok]) (rule evidence_append_Inr(3) [OF step])
  show "evidence_events db' rid' = evidence_events db rid' @ (if rid' = rid then [r] else [])"
    unfolding evidence_events_filter [OF ok] evidence_events_filter [OF ok']
    using evidence_append_Inr(1,2) [OF step] by auto
qed

lemma evidence_append_inv:
  assumes inv: "evidence_inv sha db" and step: "evidence_append sha db rid aid etype payload now = Inr (r, db')"
  shows "evidence_inv sha db'"
proof -
  have ok: "evidence_ids_ok db" using inv by (simp add: evidence_inv_def)
  have "chain_valid (content_hash sha) genesis_hash (evidence_links db' rid')" for rid'
    using inv evidence_append_Inr(4,5) [OF step] previous_hash_head [of db rid]
    by (auto simp: evidence_inv_def evidence_links_def evidence_append_events(2) [OF ok step] row_link_def)
  with evidence_append_events(1) [OF ok step] show ?thesis by (simp add: evidence_inv_def)
qed

lemma evidence_inv_empty [simp]: "evidence_inv sha empty_evidence"
  by (simp add: evidence_inv_def evidence_ids_ok_def empty_evidence_def evidence_links_def evidence_events_def)

text \<open>A run of appends; one that raises leaves the table as it was.\<close>

type_synonym append_call = "string \<times> string \<times> string \<times> json option \<times> string"

definition append_step :: "(string \<Rightarrow> string) \<Rightarrow> append_call \<Rightarrow> evidence_db \<Rightarrow> evidence_db" where
  "append_step sha c db = (case c of (rid, aid, etype, payload, now) \<Rightarrow>
     (case evidence_append sha db rid aid etype payload now of Inl _ \<Rightarrow> db | Inr (_, db') \<Rightarrow> db'))"

lemma append_run_inv: "evidence_inv sha (fold (append_step sha) cs empty_evidence)"
proof -
  have "evidence_inv sha (append_step sha c db)" if "evidence_inv sha db" for c db
    using that evidence_append_inv [OF that]
    by (auto simp: append_step_def split: prod.splits sum.splits)
  then have "evidence_inv sha db \<Longrightarrow> evidence_inv sha (fold (append_step sha) cs db)" for db
    by (induction cs arbitrary: db) auto
  then show ?thesis by simp
qed

lemma evidence_inv_verifies:
  "evidence_inv sha db \<Longrightarrow>
     evidence_verify sha db rid = Valid (length (evidence_events db rid)) (previous_hash db rid)"
  by (auto simp: evidence_verify_Valid evidence_inv_def previous_hash_head)

lemma append_step_other:
  assumes "evidence_inv sha db" and "rid' \<noteq> rid"
  shows "evidence_events (append_step sha (rid, aid, etype, payload, now) db) rid' = evidence_events db rid'"
proof (cases "evidence_append sha db rid aid etype payload now")
  case (Inr x)
  obtain r db' where "x = (r, db')" by (cases x)
  with Inr assms evidence_append_events(2) [of db sha rid aid etype payload now r db' rid'] show ?thesis
    by (simp add: append_step_def evidence_inv_def)
qed (simp add: append_step_def)

lemma append_step_payloads:
  assumes "\<forall>r \<in> set (ev_rows db). json_wf (er_payload r)" and "payload \<noteq> None \<longrightarrow> json_wf (the payload)"
  shows "\<forall>r \<in> set (ev_rows (append_step sha (rid, aid, etype, payload, now) db)). json_wf (er_payload r)"
proof (cases "evidence_append sha db rid aid etype payload now")
  case (Inr x)
  obtain r db' where x: "x = (r, db')" by (cases x)
  note row = evidence_append_Inr(1,7) [OF Inr [unfolded x]]
  have "json_wf (er_payload r)" using assms(2) by (cases payload) (simp_all add: row(2))
  with assms(1) Inr x show ?thesis by (simp add: append_step_def row(1))
qed (use assms in \<open>simp add: append_step_def\<close>)

section \<open>Properties\<close>

section \<open>Interleaved appends\<close>

text \<open>
  Processes that append to one table: a \<open>Read\<close> is the SELECT of the previous hash, a \<open>Write\<close> the
  INSERT of the draft computed from it.
\<close>

fun evidence_write_db :: "(string \<Rightarrow> string) \<Rightarrow> append_call \<Rightarrow> evidence_db \<Rightarrow> evidence_db \<Rightarrow> evidence_db" where
  "evidence_write_db sha (rid, aid, etype, payload, now) snap db =
     (case evidence_append_at sha snap db rid aid etype payload now of Inl _ \<Rightarrow> db | Inr (_, db') \<Rightarrow> db')"

abbreviation evidence_sys :: "(string \<Rightarrow> string) \<Rightarrow> append_call event list \<Rightarrow> evidence_db system \<Rightarrow> evidence_db system" where
  "evidence_sys sha es s \<equiv> fold (sys_step (evidence_write_db sha)) es s"

abbreviation evidence_run :: "(string \<Rightarrow> string) \<Rightarrow> append_call event list \<Rightarrow> evidence_db" where
  "evidence_run sha es \<equiv> sys_db (evidence_sys sha es (sys_init empty_evidence))"

text \<open>
  Whether an append that stored an event of \<open>rid\<close> was overtaken: the events it had read were
  no longer the events at its INSERT.
\<close>

fun overtaken_by :: "(string \<Rightarrow> string) \<Rightarrow> string \<Rightarrow> append_call event \<Rightarrow> evidence_db system \<Rightarrow> bool" where
  "overtaken_by sha rid (Read p) s = False"
| "overtaken_by sha rid (Write p call) s = (fst call = rid \<and> evidence_write_db sha call (sys_snap s p) (sys_db s) \<noteq> sys_db s \<and>
     evidence_events (sys_snap s p) rid \<noteq> evidence_events (sys_db s) rid)"

fun overtaken :: "(string \<Rightarrow> string) \<Rightarrow> string \<Rightarrow> append_call event list \<Rightarrow> evidence_db system \<Rightarrow> bool" where
  "overtaken sha rid [] s = False"
| "overtaken sha rid (e # es) s = (overtaken_by sha rid e s \<or> overtaken sha rid es (sys_step (evidence_write_db sha) e s))"

lemma overtaken_snoc:
  "overtaken sha rid (es @ [e]) s = (overtaken sha rid es s \<or> overtaken_by sha rid e (evidence_sys sha es s))"
  by (induction es arbitrary: s) auto

text \<open>What every interleaving keeps: ids in order, hashes distinct and correct, snapshots in the past.\<close>

definition rows_hashed :: "(string \<Rightarrow> string) \<Rightarrow> evidence_row list \<Rightarrow> bool" where
  "rows_hashed sha rs \<longleftrightarrow> (\<forall>r \<in> set rs. er_event_hash r = content_hash sha (lk_event (row_link r)) (er_prev_hash r))"

definition evidence_table_inv :: "(string \<Rightarrow> string) \<Rightarrow> evidence_db \<Rightarrow> bool" where
  "evidence_table_inv sha db \<longleftrightarrow> evidence_ids_ok db \<and> key_unique er_event_hash (ev_rows db) \<and> rows_hashed sha (ev_rows db)"

definition evidence_earlier :: "evidence_db \<Rightarrow> evidence_db \<Rightarrow> bool" where
  "evidence_earlier snap db \<longleftrightarrow> (evidence_ids_ok db \<longrightarrow> evidence_ids_ok snap) \<and> prefix (ev_rows snap) (ev_rows db)"

lemma evidence_write_cases:
  obtains "evidence_write_db sha call snap db = db"
  | r where "evidence_write_db sha call snap db = \<lparr>ev_rows = ev_rows db @ [r], ev_seq = ev_seq db + 1\<rparr>"
      and "er_recovery_id r = fst call" and "er_event_id r = ev_seq db + 1" and "er_prev_hash r = previous_hash snap (fst call)"
      and "er_event_hash r = content_hash sha (lk_event (row_link r)) (er_prev_hash r)"
      and "lookup_row er_event_hash (ev_rows db) (er_event_hash r) = None"
proof -
  obtain rid aid etype payload now where call: "call = (rid, aid, etype, payload, now)" by (cases call)
  show ?thesis
  proof (cases "evidence_append_at sha snap db rid aid etype payload now")
    case (Inl e)
    then show ?thesis using that(1) by (simp add: call)
  next
    case (Inr x)
    obtain r db' where x: "x = (r, db')" by (cases x)
    note row = evidence_append_at_Inr [OF Inr [unfolded x]]
    show ?thesis by (rule that(2) [of r]) (use Inr x row in \<open>simp_all add: call\<close>)
  qed
qed

lemma evidence_write_keeps:
  assumes "evidence_table_inv sha db"
  shows "evidence_table_inv sha (evidence_write_db sha call snap db)"
    and "evidence_earlier db (evidence_write_db sha call snap db)"
proof -
  have "evidence_table_inv sha (evidence_write_db sha call snap db) \<and> evidence_earlier db (evidence_write_db sha call snap db)"
  proof (cases rule: evidence_write_cases [of sha call snap db])
    case 1
    with assms show ?thesis by (simp add: evidence_earlier_def)
  next
    case (2 r)
    with assms evidence_ids_ok_append [of db r] show ?thesis
      by (auto simp: evidence_table_inv_def evidence_earlier_def rows_hashed_def key_unique_def lookup_row_None_iff image_iff)
  qed
  then show "evidence_table_inv sha (evidence_write_db sha call snap db)"
    and "evidence_earlier db (evidence_write_db sha call snap db)" by blast+
qed

lemma evidence_earlier_trans: "evidence_earlier x y \<Longrightarrow> evidence_earlier y z \<Longrightarrow> evidence_earlier x z"
  by (auto simp: evidence_earlier_def intro: prefix_order.trans)

text \<open>The number of rows is the status that only grows.\<close>

interpretation evidence_tables: snapshot_writes "evidence_write_db sha" "evidence_table_inv sha" evidence_earlier
    "\<lambda>db (u :: unit). Some (length (ev_rows db))" "(\<le>)"
proof
  fix db snap :: evidence_db and w :: append_call and k :: unit and a
  assume "evidence_table_inv sha db" and "Some (length (ev_rows db)) = Some a"
  with evidence_write_keeps(2) [of sha db w snap] have "a \<le> length (ev_rows (evidence_write_db sha w snap db))"
    by (auto simp: evidence_earlier_def dest: prefix_length_le)
  then show "\<exists>b. Some (length (ev_rows (evidence_write_db sha w snap db))) = Some b \<and> (b = a \<or> a \<le> b)" by blast
qed (use evidence_write_keeps evidence_earlier_trans in \<open>auto simp: evidence_earlier_def\<close>)

lemma empty_table_inv: "evidence_table_inv sha empty_evidence"
  by (simp add: evidence_table_inv_def empty_evidence_def evidence_ids_ok_def key_unique_def rows_hashed_def)

lemma evidence_run_inv:
  "evidence_table_inv sha (evidence_run sha es) \<and> evidence_earlier (sys_snap (evidence_sys sha es (sys_init empty_evidence)) p) (evidence_run sha es)"
  using evidence_tables.run_inv [OF evidence_tables.sys_init_inv [OF empty_table_inv [of sha]], where xs = es] by (simp add: sys_inv_def)

lemma previous_hash_events: "previous_hash db rid = (if evidence_events db rid = [] then genesis_hash else er_event_hash (last (evidence_events db rid)))"
  by (cases "evidence_events db rid" rule: rev_cases) (simp_all add: previous_hash_def)

text \<open>Event hashes are unique, so an old head differs from the present one.\<close>

lemma heads_agree:
  assumes "evidence_table_inv sha db" and "evidence_earlier snap db" and "genesis_hash \<notin> er_event_hash ` set (ev_rows db)"
  shows "previous_hash snap rid = previous_hash db rid \<longleftrightarrow> evidence_events snap rid = evidence_events db rid"
proof
  assume eq: "previous_hash snap rid = previous_hash db rid"
  have ok: "evidence_ids_ok db" "evidence_ids_ok snap" using assms(1,2) by (auto simp: evidence_table_inv_def evidence_earlier_def)
  note filters = evidence_events_filter [OF ok(1), of rid] evidence_events_filter [OF ok(2), of rid]
  from assms(2) obtain new where new: "ev_rows db = ev_rows snap @ new" by (auto simp: evidence_earlier_def prefix_def)
  define ys where "ys = filter (\<lambda>r. er_recovery_id r = rid) new"
  have ev: "evidence_events db rid = evidence_events snap rid @ ys" by (simp add: filters new ys_def)
  have "ys = []"
  proof (cases ys rule: rev_cases)
    case (snoc zs y)
    then have "y \<in> set ys" by simp
    then have y: "y \<in> set new" by (simp add: ys_def)
    have "previous_hash db rid = er_event_hash y" by (simp add: previous_hash_events ev snoc)
    moreover have "previous_hash snap rid \<in> insert genesis_hash (er_event_hash ` set (ev_rows snap))"
      using last_in_set [of "evidence_events snap rid"] by (auto simp: previous_hash_events filters)
    moreover have "er_event_hash y \<noteq> genesis_hash" using imageI [of y "set (ev_rows db)" er_event_hash] y assms(3) by (metis Un_iff new set_append)
    ultimately show ?thesis
      using eq y assms(1) by (auto simp: new evidence_table_inv_def key_unique_def)
  qed simp
  then show "evidence_events snap rid = evidence_events db rid" by (simp add: ev)
qed (simp add: previous_hash_def)

lemma evidence_write_chain:
  assumes "evidence_table_inv sha db" and "evidence_earlier snap db"
    and "genesis_hash \<notin> er_event_hash ` set (ev_rows db)" and db': "db' = evidence_write_db sha call snap db"
  shows "chain_valid (content_hash sha) genesis_hash (evidence_links db' rid) \<longleftrightarrow>
    chain_valid (content_hash sha) genesis_hash (evidence_links db rid) \<and>
    \<not> (fst call = rid \<and> db' \<noteq> db \<and> evidence_events snap rid \<noteq> evidence_events db rid)"
proof (cases rule: evidence_write_cases [of sha call snap db])
  case 1
  then show ?thesis by (simp add: db')
next
  case (2 r)
  have ok: "evidence_ids_ok db" using assms(1) by (simp add: evidence_table_inv_def)
  have rows: "db' = \<lparr>ev_rows = ev_rows db @ [r], ev_seq = ev_seq db + 1\<rparr>" using 2(1) by (simp add: db')
  have ok': "evidence_ids_ok db'" unfolding rows by (rule evidence_ids_ok_append [OF ok 2(3)])
  have ev: "evidence_events db' rid = evidence_events db rid @ (if rid = fst call then [r] else [])"
    unfolding evidence_events_filter [OF ok] evidence_events_filter [OF ok'] using 2(2) by (simp add: rows)
  have "db' \<noteq> db" using rows by (metis append_self_conv evidence_db.select_convs(1) not_Cons_self2)
  moreover have "er_prev_hash r = chain_head genesis_hash (evidence_links db rid) \<longleftrightarrow> evidence_events snap rid = evidence_events db rid" if "fst call = rid"
    using heads_agree [OF assms(1-3), of rid] 2(4) that by (simp add: previous_hash_head)
  moreover have "er_event_hash r = content_hash sha (lk_event (row_link r)) (er_prev_hash r)" by (rule 2(5))
  ultimately show ?thesis by (auto simp: evidence_links_def ev row_link_prev row_link_hash)
qed

lemma evidence_run_chain:
  assumes "genesis_hash \<notin> er_event_hash ` set (ev_rows (evidence_run sha es))"
  shows "chain_valid (content_hash sha) genesis_hash (evidence_links (evidence_run sha es) rid) \<longleftrightarrow>
    \<not> overtaken sha rid es (sys_init empty_evidence)"
  using assms
proof (induction es rule: rev_induct)
  case Nil
  then show ?case by (simp add: evidence_links_def evidence_events_def empty_evidence_def)
next
  case (snoc e es)
  show ?case
  proof (cases e)
    case (Read p)
    with snoc show ?thesis by (simp add: overtaken_snoc)
  next
    case (Write p call)
    let ?s = "evidence_sys sha es (sys_init empty_evidence)"
    have inv: "evidence_table_inv sha (sys_db ?s)" and past: "evidence_earlier (sys_snap ?s p) (sys_db ?s)"
      using evidence_run_inv [of sha es p] by simp_all
    have "set (ev_rows (sys_db ?s)) \<subseteq> set (ev_rows (evidence_run sha (es @ [e])))"
      using evidence_write_keeps(2) [OF inv, of call "sys_snap ?s p"] by (auto simp: Write evidence_earlier_def prefix_def)
    with snoc.prems have fresh: "genesis_hash \<notin> er_event_hash ` set (ev_rows (sys_db ?s))" by blast
    from snoc.IH [OF this] evidence_write_chain [OF inv past fresh, of _ call rid] show ?thesis
      by (simp add: Write overtaken_snoc)
  qed
qed

text \<open>With correct hashes only a broken link can fail the verification.\<close>

lemma verify_rows_hashed:
  assumes "rows_hashed sha rs" and "\<not> chain_valid (content_hash sha) p (map row_link rs)"
  shows "\<exists>h. verify_rows sha n p rs = Invalid ''broken_prev_hash'' (Some n) (Some (JStr h))"
  using assms by (induction rs arbitrary: p)
    (auto simp: rows_hashed_def row_link_def content_body_def hash_event_def)

text \<open>
  C10: the chain of a recovery verifies exactly when none of its appends was overtaken.
  After any interleaving of processes that read the previous hash and insert later, the
  verification of a recovery succeeds, with the number of its events and the hash of the
  last one (or genesis) as the head, if every append that stored an event for it still
  found the events it had read; if one did not, the chain has forked, and the verification
  reports \<open>broken_prev_hash\<close> whatever is appended afterwards. Appends for other recoveries
  have no influence. It needs that no stored hash is the genesis value.
\<close>

theorem evidence_verifies_iff_not_overtaken:
  assumes "genesis_hash \<notin> er_event_hash ` set (ev_rows (evidence_run sha es))"
  shows "if overtaken sha rid es (sys_init empty_evidence)
    then \<exists>n h. evidence_verify sha (evidence_run sha es) rid = Invalid ''broken_prev_hash'' (Some n) (Some (JStr h))
    else evidence_verify sha (evidence_run sha es) rid =
      Valid (length (evidence_events (evidence_run sha es) rid)) (previous_hash (evidence_run sha es) rid)"
proof (cases "overtaken sha rid es (sys_init empty_evidence)")
  case True
  have "rows_hashed sha (ev_rows (evidence_run sha es))" using evidence_run_inv [of sha es] by (simp add: evidence_table_inv_def)
  then have "rows_hashed sha (evidence_events (evidence_run sha es) rid)" by (auto simp: rows_hashed_def evidence_events_def)
  from verify_rows_hashed [OF this, of genesis_hash] evidence_run_chain [OF assms, of rid] True show ?thesis
    by (simp add: evidence_verify_def Let_def evidence_links_def) blast
next
  case False
  with evidence_run_chain [OF assms, of rid] show ?thesis by (simp add: evidence_verify_Valid previous_hash_head)
qed

text \<open>Two processes append to one recovery, one after the other and then overlapping.\<close>

definition orderly_appends :: "append_call event list" where
  "orderly_appends = [Read 0, Write 0 (''r'', ''a'', ''OPENED'', None, ''t0''), Read 1, Write 1 (''r'', ''a'', ''CLAIMED'', None, ''t1'')]"

definition racing_appends :: "append_call event list" where
  "racing_appends = [Read 0, Read 1, Write 0 (''r'', ''a'', ''OPENED'', None, ''t0''), Write 1 (''r'', ''a'', ''CLAIMED'', None, ''t1'')]"

text \<open>
  C25: the head hash commits the history. If the rows of a recovery in two databases both
  verify with the same head, then the two histories agree event for event (content, order
  and links), provided SHA-256 does not collide on the texts that occur in them. So
  deleting, reordering or changing an event is detected by anyone who kept the head.
\<close>

theorem evidence_tamper_evident:
  assumes "evidence_verify sha db rid = Valid n h" and "evidence_verify sha db' rid = Valid n' h"
    and "\<forall>r \<in> set (evidence_events db rid) \<union> set (evidence_events db' rid). json_wf (er_payload r)"
    and "digest_good_on sha genesis_hash
      (link_bodies content_body (evidence_links db rid) \<union> link_bodies content_body (evidence_links db' rid))"
  shows "map row_link (evidence_events db rid) = map row_link (evidence_events db' rid)"
  unfolding evidence_links_def [symmetric]
proof (rule evidence_chain.head_determines_chain [OF _ _ _ assms(4)])
  show "\<forall>l \<in> set (evidence_links db rid) \<union> set (evidence_links db' rid). content_wf (lk_event l)"
    using assms(3) by (auto simp: evidence_links_def row_link_def content_wf_def)
qed (use assms(1,2) in \<open>auto simp: evidence_verify_Valid\<close>)

definition demo_sha :: "string \<Rightarrow> string" where
  "demo_sha t = CHR ''h'' # t"

definition demo_appends :: "append_call list" where
  "demo_appends = [(''r1'', ''a1'', ''RECOVERY_OPENED'', None, ''t0''),
     (''r1'', ''a1'', ''VERIFICATION_DECISION'', Some (JObj [(''decision'', JStr ''QUARANTINED'')]), ''t1'')]"

definition demo_evidence :: evidence_db where
  "demo_evidence = fold (append_step demo_sha) demo_appends empty_evidence"

lemma demo_sha_good: "digest_good_on demo_sha genesis_hash A"
  by (auto simp: digest_good_on_def demo_sha_def inj_on_def genesis_hash_def numeral_eq_Suc)

lemma demo_rows_not_genesis: "genesis_hash \<notin> er_event_hash ` set (ev_rows (evidence_run demo_sha es))"
proof
  assume "genesis_hash \<in> er_event_hash ` set (ev_rows (evidence_run demo_sha es))"
  then obtain r where "r \<in> set (ev_rows (evidence_run demo_sha es))" "genesis_hash = er_event_hash r" by blast
  moreover have "rows_hashed demo_sha (ev_rows (evidence_run demo_sha es))" using evidence_run_inv [of demo_sha es] by (simp add: evidence_table_inv_def)
  ultimately show False by (simp add: rows_hashed_def demo_sha_def genesis_hash_def numeral_eq_Suc)
qed

theorem evidence_verifies_iff_not_overtaken_witness:
  "(\<exists>h. evidence_verify demo_sha (evidence_run demo_sha orderly_appends) ''r'' = Valid 2 h) \<and>
   (\<exists>n h. evidence_verify demo_sha (evidence_run demo_sha racing_appends) ''r'' = Invalid ''broken_prev_hash'' (Some n) (Some (JStr h)))"
proof
  have "\<not> overtaken demo_sha ''r'' orderly_appends (sys_init empty_evidence)" by code_simp
  moreover have "length (evidence_events (evidence_run demo_sha orderly_appends) ''r'') = 2" by code_simp
  ultimately show "\<exists>h. evidence_verify demo_sha (evidence_run demo_sha orderly_appends) ''r'' = Valid 2 h"
    using evidence_verifies_iff_not_overtaken [OF demo_rows_not_genesis, where es = orderly_appends and rid = "''r''"] by simp
next
  have "overtaken demo_sha ''r'' racing_appends (sys_init empty_evidence)" by code_simp
  then show "\<exists>n h. evidence_verify demo_sha (evidence_run demo_sha racing_appends) ''r'' = Invalid ''broken_prev_hash'' (Some n) (Some (JStr h))"
    using evidence_verifies_iff_not_overtaken [OF demo_rows_not_genesis, where es = racing_appends and rid = "''r''"] by simp
qed

lemma demo_evidence_inv: "evidence_inv demo_sha demo_evidence"
  unfolding demo_evidence_def by (rule append_run_inv)

lemma demo_evidence_payloads: "\<forall>r \<in> set (ev_rows demo_evidence). json_wf (er_payload r)"
  unfolding demo_evidence_def demo_appends_def fold_simps comp_def id_def
  by (intro append_step_payloads) (simp_all add: empty_evidence_def)

theorem evidence_tamper_evident_witness:
  "map row_link (evidence_events demo_evidence ''r1'') =
     map row_link (evidence_events (append_step demo_sha (''r2'', ''a9'', ''X'', None, ''t2'') demo_evidence) ''r1'')"
proof (rule evidence_tamper_evident [OF _ _ _ demo_sha_good])
  let ?db' = "append_step demo_sha (''r2'', ''a9'', ''X'', None, ''t2'') demo_evidence"
  have inv': "evidence_inv demo_sha ?db'"
    using append_run_inv [of demo_sha "demo_appends @ [(''r2'', ''a9'', ''X'', None, ''t2'')]"]
    by (simp add: demo_evidence_def)
  have same: "evidence_events ?db' ''r1'' = evidence_events demo_evidence ''r1''"
    by (rule append_step_other [OF demo_evidence_inv]) simp
  then have head: "previous_hash ?db' ''r1'' = previous_hash demo_evidence ''r1''"
    by (simp add: previous_hash_def)
  show "evidence_verify demo_sha demo_evidence ''r1'' =
      Valid (length (evidence_events demo_evidence ''r1'')) (previous_hash demo_evidence ''r1'')"
    by (rule evidence_inv_verifies [OF demo_evidence_inv])
  show "evidence_verify demo_sha ?db' ''r1'' =
      Valid (length (evidence_events ?db' ''r1'')) (previous_hash demo_evidence ''r1'')"
    using evidence_inv_verifies [OF inv', of "''r1''"] head by simp
  show "\<forall>r \<in> set (evidence_events demo_evidence ''r1'') \<union> set (evidence_events ?db' ''r1'').
      json_wf (er_payload r)"
    using demo_evidence_payloads by (simp add: same) (simp add: evidence_events_def)
qed

text \<open>A JSON event as \<^verbatim>\<open>_row_to_dict\<close> renders it passes the checks its row passes.\<close>

lemma verify_artifact_events_row:
  assumes "er_event_hash r = hash_event sha (er_recovery_id r) (er_attempt_id r) (er_event_type r)
       (er_payload r) (er_occurred_at r) (er_prev_hash r)"
  shows "verify_artifact_events show sha n (JStr (er_recovery_id r)) (JStr (er_attempt_id r))
      (JStr (er_prev_hash r)) (row_to_dict r # evs) =
    verify_artifact_events show sha n (JStr (er_recovery_id r)) (JStr (er_attempt_id r))
      (JStr (er_event_hash r)) evs"
  using assms by (simp add: row_to_dict_def json_get_Cons required_event_fields_def)

lemma verify_artifact_events_rows:
  assumes "\<forall>r \<in> set rs. er_recovery_id r = rid" and "\<forall>r \<in> set rs. er_attempt_id r = aid"
    and "chain_valid (content_hash sha) p (map row_link rs)"
  shows "verify_artifact_events show sha n (JStr rid) (JStr aid) (JStr p) (map row_to_dict rs) =
     Inr (JStr (chain_head p (map row_link rs)))"
  using assms
proof (induction rs arbitrary: p)
  case Nil
  then show ?case by simp
next
  case (Cons r rs)
  from Cons.prems(3) have valid: "lk_prev (row_link r) = p"
    "lk_hash (row_link r) = content_hash sha (lk_event (row_link r)) p"
    "chain_valid (content_hash sha) (lk_hash (row_link r)) (map row_link rs)"
    unfolding list.map chain_valid.simps by blast+
  from valid(3) have rest: "chain_valid (content_hash sha) (er_event_hash r) (map row_link rs)"
    unfolding row_link_hash .
  from valid(1) have prev: "er_prev_hash r = p" unfolding row_link_prev .
  from valid(2) have link: "er_event_hash r = hash_event sha (er_recovery_id r) (er_attempt_id r) (er_event_type r)
       (er_payload r) (er_occurred_at r) (er_prev_hash r)"
    by (simp add: prev row_link_def content_body_def hash_event_def)
  have IH: "verify_artifact_events show sha n (JStr rid) (JStr aid) (JStr (er_event_hash r)) (map row_to_dict rs) =
     Inr (JStr (chain_head (er_event_hash r) (map row_link rs)))"
    using Cons.IH [OF _ _ rest] Cons.prems(1,2) by simp
  have ids: "er_recovery_id r = rid" "er_attempt_id r = aid" using Cons.prems(1,2) by simp_all
  show ?case
    using verify_artifact_events_row [OF link, of "show" n "map row_to_dict rs"]
    by (simp only: ids prev IH list.map chain_head_Cons row_link_hash)
qed

lemma verify_artifact_JObj:
  assumes "json_get a ''schema_version'' = JStr schema_version" and "json_get a ''recovery_id'' = JStr rid"
    and "json_get a ''events'' = JArr evs" and "json_get a ''head_hash'' = JStr h" and "\<not> blank rid"
    and "verify_artifact_events show sha (length evs) (JStr rid) (json_get a ''attempt_id'')
      (JStr genesis_hash) evs = Inr (JStr h')"
  shows "verify_artifact show sha (JObj a) =
    (if h = h' then Valid (length evs) h else Invalid ''head_hash_mismatch'' (Some (length evs)) None)"
  using assms by (simp add: verify_artifact_def)

lemma card_one_all:
  assumes "card (f ` set xs) = 1" and "xs = x # ys"
  shows "\<forall>y \<in> set xs. f y = f x"
  using assms by (metis card_1_singletonE image_eqI list.set_intros(1) singletonD)

text \<open>An exported artifact is judged by its events and by the head of the second read.\<close>

lemma export_artifact_at_verifies:
  assumes exp: "export_artifact_at sha snap db rid = Inr art" and rid: "\<not> blank rid"
    and chain: "chain_valid (content_hash sha) genesis_hash (evidence_links snap rid)"
  shows "\<exists>n h. evidence_verify sha db rid = Valid n h \<and> verify_artifact show sha art =
    (if h = previous_hash snap rid then Valid (length (evidence_events snap rid)) h
     else Invalid ''head_hash_mismatch'' (Some (length (evidence_events snap rid))) None)"
proof -
  define es where "es = evidence_events snap rid"
  from exp obtain n h where v: "evidence_verify sha db rid = Valid n h"
    by (auto simp: export_artifact_at_def Let_def split: chain_result.splits)
  from exp have card1: "card (er_recovery_id ` set es) = 1"
    and card2: "es \<noteq> [] \<longrightarrow> card (er_attempt_id ` set es) = 1"
    and art: "art = JObj [(''schema_version'', JStr schema_version), (''recovery_id'', JStr rid),
           (''attempt_id'', (case es of [] \<Rightarrow> JNull | e # _ \<Rightarrow> JStr (er_attempt_id e))),
           (''events'', JArr (map row_to_dict es)), (''head_hash'', JStr h)]"
    unfolding export_artifact_at_def Let_def v es_def [symmetric] by (auto split: if_splits)
  from card1 obtain e fs where es: "es = e # fs" by (cases es) auto
  have card3: "card (er_attempt_id ` set es) = 1" using card2 es by simp
  have aid: "\<forall>r \<in> set es. er_attempt_id r = er_attempt_id e"
    by (rule card_one_all [OF card3 es])
  have rids: "\<forall>r \<in> set es. er_recovery_id r = rid" by (simp add: evidence_events_def es_def)
  have ok: "chain_valid (content_hash sha) genesis_hash (map row_link es)"
    using chain by (simp add: evidence_links_def es_def)
  have head: "chain_head genesis_hash (map row_link es) = previous_hash snap rid"
    by (simp add: previous_hash_head evidence_links_def es_def)
  have first: "(case es of [] \<Rightarrow> JNull | e # _ \<Rightarrow> JStr (er_attempt_id e)) = JStr (er_attempt_id e)"
    by (simp add: es)
  have run: "verify_artifact_events show sha (length (map row_to_dict es)) (JStr rid) (JStr (er_attempt_id e))
      (JStr genesis_hash) (map row_to_dict es) = Inr (JStr (previous_hash snap rid))"
    unfolding head [symmetric] by (rule verify_artifact_events_rows [OF rids aid ok])
  have "verify_artifact show sha art = (if h = previous_hash snap rid then Valid (length (map row_to_dict es)) h
      else Invalid ''head_hash_mismatch'' (Some (length (map row_to_dict es))) None)"
    unfolding art first
    by (rule verify_artifact_JObj [of _ rid]) (use run rid in \<open>simp_all add: json_get_def\<close>)
  with v show ?thesis by (simp add: es_def)
qed




text \<open>
  If events were appended between the two reads, the artifact carries the old events under
  the new head, and the verifier rejects it.
\<close>

theorem stale_export_is_rejected:
  assumes "export_artifact_at sha snap db rid = Inr art" and "\<not> blank rid" and "evidence_table_inv sha db" and "evidence_earlier snap db"
    and "genesis_hash \<notin> er_event_hash ` set (ev_rows db)" and "evidence_events snap rid \<noteq> evidence_events db rid"
    and "chain_valid (content_hash sha) genesis_hash (evidence_links snap rid)"
  shows "\<exists>n. verify_artifact show sha art = Invalid ''head_hash_mismatch'' (Some n) None"
  using export_artifact_at_verifies [OF assms(1,2,7), of "show"] heads_agree [OF assms(3-5), of rid] assms(6)
  by (auto simp: evidence_verify_Valid previous_hash_head)

text \<open>
  The artifact verifier hashes \<^verbatim>\<open>str(event_type)\<close>, so it accepts artifacts in which the
  type of a committed field was changed: an event whose type is the number 5 verifies with
  the hash of the event whose type is the text 5.
\<close>

definition one_event_artifact :: "(string \<Rightarrow> string) \<Rightarrow> json \<Rightarrow> json" where
  "one_event_artifact sha t =
    (let h = hash_event sha ''r'' ''a'' ''5'' (JObj []) ''now'' genesis_hash in
     JObj [(''schema_version'', JStr schema_version), (''recovery_id'', JStr ''r''),
       (''attempt_id'', JStr ''a''), (''head_hash'', JStr h),
       (''events'', JArr [JObj [(''recovery_id'', JStr ''r''), (''attempt_id'', JStr ''a''),
          (''event_type'', t), (''payload'', JObj []), (''occurred_at'', JStr ''now''),
          (''prev_hash'', JStr genesis_hash), (''event_hash'', JStr h)]])])"

lemma int_str_5: "int_str 5 = ''5''"
  by code_simp

theorem artifact_type_confusion:
  "verify_artifact show sha (one_event_artifact sha (JStr ''5'')) =
     Valid 1 (hash_event sha ''r'' ''a'' ''5'' (JObj []) ''now'' genesis_hash)"
  "verify_artifact show sha (one_event_artifact sha (JInt 5)) =
     Valid 1 (hash_event sha ''r'' ''a'' ''5'' (JObj []) ''now'' genesis_hash)"
proof -
  have "\<not> blank ''r''" by code_simp
  then show "verify_artifact show sha (one_event_artifact sha (JStr ''5'')) =
     Valid 1 (hash_event sha ''r'' ''a'' ''5'' (JObj []) ''now'' genesis_hash)"
   "verify_artifact show sha (one_event_artifact sha (JInt 5)) =
     Valid 1 (hash_event sha ''r'' ''a'' ''5'' (JObj []) ''now'' genesis_hash)"
    by (simp_all add: one_event_artifact_def Let_def verify_artifact_def json_get_def
        required_event_fields_def int_str_5)
qed

end
