(* ===== verification/RecoveryTrust.thy ===== *)
theory RecoveryTrust
  imports HashChain Lifecycle
begin

text \<open>
  Recovery attestors (\<^verbatim>\<open>src/shared/recovery_trust.py\<close>): the SQLite store of attestors with
  their hash-chained status history, the in-memory registry in front of it, and the
  portable trust-history artifact with its offline verifier. Several registries (processes)
  may share one store; each keeps its own cache. \<open>sha\<close> is SHA-256 of a text in hexadecimal,
  \<open>shab\<close> the same of a byte string (a byte is a character below 256).
\<close>

section \<open>Attestors and their keys\<close>

record attestor =
  ra_key_id :: string
  ra_public_key :: string
  ra_name :: string
  ra_enabled :: bool

definition trust_transitions :: "(string \<times> string list) list" where
  "trust_transitions =
     [(''ACTIVE'', [''SUSPENDED'', ''REVOKED'']), (''SUSPENDED'', [''ACTIVE'', ''REVOKED'']), (''REVOKED'', [])]"

definition trust_allowed :: "string \<Rightarrow> string \<Rightarrow> bool" where
  "trust_allowed a b \<longleftrightarrow> (case map_of trust_transitions a of None \<Rightarrow> False | Some bs \<Rightarrow> b \<in> set bs)"

text \<open>The value of a character of the URL-safe base64 alphabet (and of the standard one).\<close>

definition b64_value :: "char \<Rightarrow> nat option" where
  "b64_value c = (let n = (of_char c :: nat) in
     if 65 \<le> n \<and> n \<le> 90 then Some (n - 65)
     else if 97 \<le> n \<and> n \<le> 122 then Some (n - 71)
     else if 48 \<le> n \<and> n \<le> 57 then Some (n + 4)
     else if c = CHR ''-'' \<or> c = CHR ''+'' then Some 62
     else if c = CHR ''_'' \<or> c = CHR ''/'' then Some 63
     else None)"

text \<open>
  \<^verbatim>\<open>base64.urlsafe_b64decode\<close>, which discards characters outside the alphabet: the state is
  the position in the quantum, the bits left over and the padding seen since the last
  character. None is the binascii.Error for an incomplete quantum.
\<close>

fun b64_decode :: "nat \<Rightarrow> nat \<Rightarrow> nat \<Rightarrow> string \<Rightarrow> string option" where
  "b64_decode quad left pads [] = (if quad = 0 then Some [] else None)"
| "b64_decode quad left pads (c # cs) =
    (if c = CHR ''='' then
       (if 2 \<le> quad \<and> 4 \<le> quad + pads + 1 then Some []
        else b64_decode quad left (if 2 \<le> quad then pads + 1 else pads) cs)
     else
       (case b64_value c of
          None \<Rightarrow> b64_decode quad left pads cs
        | Some v \<Rightarrow>
           (if quad = 0 then b64_decode 1 v 0 cs
            else if quad = 1 then
              map_option (Cons (char_of (left * 4 + v div 16))) (b64_decode 2 (v mod 16) 0 cs)
            else if quad = 2 then
              map_option (Cons (char_of (left * 16 + v div 4))) (b64_decode 3 (v mod 4) 0 cs)
            else map_option (Cons (char_of (left * 64 + v))) (b64_decode 0 0 0 cs))))"

definition urlsafe_b64decode :: "string \<Rightarrow> string option" where
  "urlsafe_b64decode s = (if list_all (\<lambda>c. (of_char c :: nat) < 128) s then b64_decode 0 0 0 s else None)"

text \<open>The checks on a public key: it decodes to 32 bytes, and the key id is its fingerprint.\<close>

definition attestor_key_id :: "(string \<Rightarrow> string) \<Rightarrow> string \<Rightarrow> string result" where
  "attestor_key_id shab pk = (case urlsafe_b64decode pk of
      None \<Rightarrow> raise RecoveryTrustError ''invalid_attestor_public_key''
    | Some raw \<Rightarrow> if length raw \<noteq> 32 then raise RecoveryTrustError ''invalid_attestor_public_key''
                  else Inr (''ed25519-'' @ take 16 (shab raw)))"

section \<open>History events\<close>

definition trust_integrity_schema :: string where
  "trust_integrity_schema = ''recovery-attestor-history-integrity-v1''"

text \<open>The fields of an event may be any JSON value in an artifact; in the store they are texts.\<close>

definition history_event_body :: "string \<Rightarrow> json \<Rightarrow> json \<Rightarrow> json \<Rightarrow> json \<Rightarrow> string \<Rightarrow> string" where
  "history_event_body key frm to at reason prev = dumps True (JObj
     [(''from_status'', frm), (''key_id'', JStr key), (''occurred_at'', at), (''prev_hash'', JStr prev),
      (''reason'', reason), (''schema_version'', JStr trust_integrity_schema), (''to_status'', to)])"

definition history_event_hash :: "(string \<Rightarrow> string) \<Rightarrow> string \<Rightarrow> json \<Rightarrow> json \<Rightarrow> json \<Rightarrow> json \<Rightarrow> string \<Rightarrow> string" where
  "history_event_hash sha key frm to at reason prev = sha (history_event_body key frm to at reason prev)"

definition opt_json :: "string option \<Rightarrow> json" where
  "opt_json x = (case x of None \<Rightarrow> JNull | Some s \<Rightarrow> JStr s)"

record trust_event =
  te_from :: "string option"
  te_to :: string
  te_at :: string
  te_reason :: string
  te_prev_hash :: string
  te_event_hash :: string

definition trust_event_hash :: "(string \<Rightarrow> string) \<Rightarrow> string \<Rightarrow> string option \<Rightarrow> string \<Rightarrow> string \<Rightarrow> string \<Rightarrow> string \<Rightarrow> string" where
  "trust_event_hash sha key frm to at reason prev =
     history_event_hash sha key (opt_json frm) (JStr to) (JStr at) (JStr reason) prev"

section \<open>The store\<close>

record attestor_row =
  ar_attestor :: attestor
  ar_status :: string

record history_row =
  hr_event_id :: int
  hr_key_id :: string
  hr_from :: "string option"
  hr_to :: string
  hr_at :: string
  hr_reason :: string

record integrity_row =
  ir_event_id :: int
  ir_key_id :: string
  ir_prev_hash :: string
  ir_event_hash :: string

record trust_db =
  td_attestors :: "attestor_row list"
  td_history :: "history_row list"
  td_seq :: int
  td_integrity :: "integrity_row list"

definition empty_trust_db :: trust_db where
  "empty_trust_db = \<lparr>td_attestors = [], td_history = [], td_seq = 0, td_integrity = []\<rparr>"

abbreviation row_key :: "attestor_row \<Rightarrow> string" where
  "row_key r \<equiv> ra_key_id (ar_attestor r)"

definition trust_status :: "trust_db \<Rightarrow> string \<Rightarrow> string option" where
  "trust_status db k = map_option ar_status (lookup_row row_key (td_attestors db) k)"

text \<open>SELECT ... FROM history h JOIN integrity i ON i.event_id = h.event_id WHERE h.key_id = ? ORDER BY h.event_id.\<close>

definition joined_history :: "trust_db \<Rightarrow> string \<Rightarrow> (history_row \<times> integrity_row) list" where
  "joined_history db k = sort_key (\<lambda>p. hr_event_id (fst p))
     (concat (map (\<lambda>h. map (Pair h) (filter (\<lambda>i. ir_event_id i = hr_event_id h) (td_integrity db)))
        (filter (\<lambda>h. hr_key_id h = k) (td_history db))))"

definition joined_event :: "history_row \<times> integrity_row \<Rightarrow> trust_event" where
  "joined_event p = (case p of (h, i) \<Rightarrow> \<lparr>te_from = hr_from h, te_to = hr_to h, te_at = hr_at h,
     te_reason = hr_reason h, te_prev_hash = ir_prev_hash i, te_event_hash = ir_event_hash i\<rparr>)"

definition store_history :: "trust_db \<Rightarrow> string \<Rightarrow> trust_event list" where
  "store_history db k = map joined_event (joined_history db k)"

definition trust_load :: "trust_db \<Rightarrow> attestor_row list" where
  "trust_load db = sort_key row_key (td_attestors db)"

text \<open>The loop over the joined rows: the head hash, or the first mismatch.\<close>

fun verify_history_rows :: "(string \<Rightarrow> string) \<Rightarrow> string \<Rightarrow> (history_row \<times> integrity_row) list \<Rightarrow> string result" where
  "verify_history_rows sha previous [] = Inr previous"
| "verify_history_rows sha previous ((h, i) # rows) =
    (if ir_prev_hash i \<noteq> previous then raise RecoveryTrustError ''trust_history_prev_hash_mismatch''
     else if ir_event_hash i \<noteq>
       trust_event_hash sha (hr_key_id h) (hr_from h) (hr_to h) (hr_at h) (hr_reason h) previous
     then raise RecoveryTrustError ''trust_history_event_hash_mismatch''
     else verify_history_rows sha (ir_event_hash i) rows)"

text \<open>The result is the head hash and the number of events.\<close>

definition store_verify_history :: "(string \<Rightarrow> string) \<Rightarrow> trust_db \<Rightarrow> string \<Rightarrow> (string \<times> nat) result" where
  "store_verify_history sha db k =
    (let rows = joined_history db k;
         source_count = count_where (\<lambda>h. hr_key_id h = k) (td_history db)
     in if rows = [] \<or> length rows \<noteq> source_count then raise RecoveryTrustError ''trust_history_missing''
        else bindR (verify_history_rows sha genesis_hash rows) (\<lambda>h. Inr (h, length rows)))"

text \<open>
  One history row and its integrity row inside the open transaction; a primary key that is
  taken rolls the transaction back.
\<close>

definition add_history_event :: "(string \<Rightarrow> string) \<Rightarrow> trust_db \<Rightarrow> string \<Rightarrow> string option \<Rightarrow> string \<Rightarrow> string \<Rightarrow>
    string \<Rightarrow> string \<Rightarrow> (string \<times> trust_db) result" where
  "add_history_event sha db k frm to at reason prev =
    (let eid = td_seq db + 1;
         h = trust_event_hash sha k frm to at reason prev
     in if lookup_row ir_event_id (td_integrity db) eid \<noteq> None
        then raise IntegrityError ''UNIQUE constraint failed: recovery_attestor_history_integrity.event_id''
        else Inr (h, db\<lparr>td_history := td_history db @ [\<lparr>hr_event_id = eid, hr_key_id = k, hr_from = frm,
                          hr_to = to, hr_at = at, hr_reason = reason\<rparr>],
                        td_seq := eid,
                        td_integrity := td_integrity db @ [\<lparr>ir_event_id = eid, ir_key_id = k,
                          ir_prev_hash = prev, ir_event_hash = h\<rparr>]\<rparr>))"

definition store_insert :: "(string \<Rightarrow> string) \<Rightarrow> trust_db \<Rightarrow> attestor \<Rightarrow> string \<Rightarrow> string \<Rightarrow> (string \<times> trust_db) result" where
  "store_insert sha db a status at =
    (if lookup_row row_key (td_attestors db) (ra_key_id a) \<noteq> None
     then raise IntegrityError ''UNIQUE constraint failed: recovery_attestors.key_id''
     else add_history_event sha
       (db\<lparr>td_attestors := td_attestors db @ [\<lparr>ar_attestor = a, ar_status = status\<rparr>]\<rparr>)
       (ra_key_id a) None status at ''registered'' genesis_hash)"

text \<open>SELECT event_hash FROM integrity WHERE key_id = ? ORDER BY event_id DESC LIMIT 1.\<close>

definition last_event_hash :: "trust_db \<Rightarrow> string \<Rightarrow> string" where
  "last_event_hash db k = (case rev (sort_key ir_event_id (filter (\<lambda>i. ir_key_id i = k) (td_integrity db))) of
      [] \<Rightarrow> genesis_hash | i # _ \<Rightarrow> ir_event_hash i)"

definition store_transition :: "(string \<Rightarrow> string) \<Rightarrow> trust_db \<Rightarrow> string \<Rightarrow> string \<Rightarrow> string \<Rightarrow> string \<Rightarrow> string \<Rightarrow>
    (string \<times> trust_db) result" where
  "store_transition sha db k expected new reason at =
    (case lookup_row row_key (td_attestors db) k of
       None \<Rightarrow> raise RecoveryTrustError ''untrusted_attestor''
     | Some row \<Rightarrow>
        if ar_status row \<noteq> expected then raise RecoveryTrustError ''attestor_state_changed''
        else add_history_event sha
          (db\<lparr>td_attestors := update_where (\<lambda>r. row_key r = k \<and> ar_status r = expected)
                (\<lambda>r. r\<lparr>ar_status := new\<rparr>) (td_attestors db)\<rparr>)
          k (Some expected) new at reason (last_event_hash db k))"

text \<open>The migration of a store without integrity rows; the dict of previous hashes is a map.\<close>

fun backfill_rows :: "(string \<Rightarrow> string) \<Rightarrow> history_row list \<Rightarrow> (string \<Rightarrow> string option) \<Rightarrow> integrity_row list \<Rightarrow>
    integrity_row list" where
  "backfill_rows sha [] previous tab = tab"
| "backfill_rows sha (h # hs) previous tab =
    (case lookup_row ir_event_id tab (hr_event_id h) of
       Some i \<Rightarrow> backfill_rows sha hs (previous(hr_key_id h \<mapsto> ir_event_hash i)) tab
     | None \<Rightarrow>
        (let prev = (case previous (hr_key_id h) of None \<Rightarrow> genesis_hash | Some p \<Rightarrow> p);
             eh = trust_event_hash sha (hr_key_id h) (hr_from h) (hr_to h) (hr_at h) (hr_reason h) prev
         in backfill_rows sha hs (previous(hr_key_id h \<mapsto> eh))
              (tab @ [\<lparr>ir_event_id = hr_event_id h, ir_key_id = hr_key_id h, ir_prev_hash = prev,
                      ir_event_hash = eh\<rparr>])))"

definition backfill_history_integrity :: "(string \<Rightarrow> string) \<Rightarrow> trust_db \<Rightarrow> trust_db" where
  "backfill_history_integrity sha db =
    (if td_integrity db \<noteq> [] then db
     else db\<lparr>td_integrity := backfill_rows sha
       (sort_key (\<lambda>h. (hr_key_id h, hr_event_id h)) (td_history db)) (\<lambda>_. None) []\<rparr>)"

section \<open>The registry\<close>

record registry =
  rg_attestors :: "string \<Rightarrow> attestor option"
  rg_status :: "string \<Rightarrow> string option"
  rg_history :: "string \<Rightarrow> trust_event list option"

definition empty_registry :: registry where
  "empty_registry = \<lparr>rg_attestors = (\<lambda>_. None), rg_status = (\<lambda>_. None), rg_history = (\<lambda>_. None)\<rparr>"

definition load_row :: "trust_db \<Rightarrow> attestor_row \<Rightarrow> registry \<Rightarrow> registry" where
  "load_row db r reg = (let k = row_key r in
     reg\<lparr>rg_attestors := (rg_attestors reg)(k \<mapsto> ar_attestor r),
         rg_status := (rg_status reg)(k \<mapsto> ar_status r),
         rg_history := (rg_history reg)(k \<mapsto> store_history db k)\<rparr>)"

definition load_store :: "trust_db \<Rightarrow> registry" where
  "load_store db = fold (load_row db) (trust_load db) empty_registry"

text \<open>\<open>db\<close> is None for a registry without a store; \<open>now\<close> is the ISO text.\<close>

definition registry_register :: "(string \<Rightarrow> string) \<Rightarrow> (string \<Rightarrow> string) \<Rightarrow> registry \<Rightarrow> trust_db option \<Rightarrow> attestor \<Rightarrow>
    string \<Rightarrow> (registry \<times> trust_db option) result" where
  "registry_register sha shab reg db a now =
    bindR (attestor_key_id shab (ra_public_key a)) (\<lambda>expected.
      if ra_key_id a \<noteq> expected then raise RecoveryTrustError ''attestor_key_id_mismatch''
      else if blank (ra_name a) then raise RecoveryTrustError ''attestor_name_required''
      else
        (case rg_attestors reg (ra_key_id a) of
           Some existing \<Rightarrow>
             if ra_public_key existing \<noteq> ra_public_key a then raise RecoveryTrustError ''attestor_key_mismatch''
             else Inr (reg, db)
         | None \<Rightarrow>
            (let k = ra_key_id a;
                 status = (if ra_enabled a then ''ACTIVE'' else ''SUSPENDED'');
                 enter = (\<lambda>h. reg\<lparr>rg_attestors := (rg_attestors reg)(k \<mapsto> a),
                                  rg_status := (rg_status reg)(k \<mapsto> status),
                                  rg_history := (rg_history reg)(k \<mapsto>
                                    [\<lparr>te_from = None, te_to = status, te_at = now, te_reason = ''registered'',
                                      te_prev_hash = genesis_hash, te_event_hash = h\<rparr>])\<rparr>)
             in (case db of
                   None \<Rightarrow> Inr (enter (trust_event_hash sha k None status now ''registered'' genesis_hash), None)
                 | Some d \<Rightarrow>
                     bindR (store_insert sha d a status now) (\<lambda>(h, d'). Inr (enter h, Some d'))))))"

definition registry_status :: "registry \<Rightarrow> string \<Rightarrow> string result" where
  "registry_status reg k = (case rg_attestors reg k of
      None \<Rightarrow> raise RecoveryTrustError ''untrusted_attestor''
    | Some _ \<Rightarrow> (case rg_status reg k of None \<Rightarrow> raise OtherError ''KeyError'' | Some s \<Rightarrow> Inr s))"

text \<open>
  The store commits before the registry extends its cache, so the outcome carries the state
  also when an exception is raised: a cached history that is empty (its integrity rows were
  deleted) raises an IndexError, with a store only after the transition is committed there.
\<close>

definition extend_cache :: "registry \<Rightarrow> string \<Rightarrow> string \<Rightarrow> string \<Rightarrow> string \<Rightarrow> string \<Rightarrow> string \<Rightarrow> string result \<times> registry" where
  "extend_cache reg k current new reason now h =
    (let reg' = reg\<lparr>rg_status := (rg_status reg)(k \<mapsto> new)\<rparr> in
     case rg_history reg k of
       None \<Rightarrow> (raise OtherError ''KeyError'', reg')
     | Some events \<Rightarrow>
        if events = [] then (raise OtherError ''IndexError'', reg')
        else (Inr new, reg'\<lparr>rg_history := (rg_history reg)(k \<mapsto> events @
               [\<lparr>te_from = Some current, te_to = new, te_at = now, te_reason = reason,
                 te_prev_hash = te_event_hash (last events), te_event_hash = h\<rparr>])\<rparr>))"

definition registry_transition :: "(string \<Rightarrow> string) \<Rightarrow> registry \<Rightarrow> trust_db option \<Rightarrow> string \<Rightarrow> string \<Rightarrow> string \<Rightarrow>
    string \<Rightarrow> string result \<times> registry \<times> trust_db option" where
  "registry_transition sha reg db k new reason now =
    (let fail = (\<lambda>c m. (raise c m, reg, db)) in
     if rg_attestors reg k = None then fail RecoveryTrustError ''untrusted_attestor''
     else if map_of trust_transitions new = None then fail RecoveryTrustError ''invalid_attestor_status''
     else
       (case rg_status reg k of
          None \<Rightarrow> fail OtherError ''KeyError''
        | Some current \<Rightarrow>
           (case map_of trust_transitions current of
              None \<Rightarrow> fail OtherError ''KeyError''
            | Some allowed \<Rightarrow>
               if new \<notin> set allowed then fail RecoveryTrustError ''invalid_attestor_transition''
               else if blank reason then fail RecoveryTrustError ''attestor_transition_reason_required''
               else
                 (case db of
                    Some d \<Rightarrow>
                      (case store_transition sha d k current new (strip reason) now of
                         Inl e \<Rightarrow> (Inl e, reg, db)
                       | Inr (h, d') \<Rightarrow>
                          (case extend_cache reg k current new (strip reason) now h of
                             (res, reg') \<Rightarrow> (res, reg', Some d')))
                  | None \<Rightarrow>
                      (case rg_history reg k of
                         None \<Rightarrow> fail OtherError ''KeyError''
                       | Some events \<Rightarrow>
                          if events = [] then fail OtherError ''IndexError''
                          else
                            (case extend_cache reg k current new (strip reason) now
                                    (trust_event_hash sha k (Some current) new now (strip reason)
                                       (te_event_hash (last events))) of
                               (res, reg') \<Rightarrow> (res, reg', None)))))))"

definition registry_history :: "registry \<Rightarrow> string \<Rightarrow> trust_event list result" where
  "registry_history reg k = (case rg_attestors reg k of
      None \<Rightarrow> raise RecoveryTrustError ''untrusted_attestor''
    | Some _ \<Rightarrow> (case rg_history reg k of None \<Rightarrow> raise OtherError ''KeyError'' | Some es \<Rightarrow> Inr es))"

fun verify_history_events :: "(string \<Rightarrow> string) \<Rightarrow> string \<Rightarrow> string \<Rightarrow> trust_event list \<Rightarrow> string result" where
  "verify_history_events sha k previous [] = Inr previous"
| "verify_history_events sha k previous (e # es) =
    (if te_prev_hash e \<noteq> previous then raise RecoveryTrustError ''trust_history_prev_hash_mismatch''
     else if te_event_hash e \<noteq>
       trust_event_hash sha k (te_from e) (te_to e) (te_at e) (te_reason e) previous
     then raise RecoveryTrustError ''trust_history_event_hash_mismatch''
     else verify_history_events sha k (te_event_hash e) es)"

definition registry_verify_history :: "(string \<Rightarrow> string) \<Rightarrow> registry \<Rightarrow> trust_db option \<Rightarrow> string \<Rightarrow>
    (string \<times> nat) result" where
  "registry_verify_history sha reg db k =
    (if rg_attestors reg k = None then raise RecoveryTrustError ''untrusted_attestor''
     else
       (case db of
          Some d \<Rightarrow> store_verify_history sha d k
        | None \<Rightarrow> bindR (registry_history reg k) (\<lambda>es.
            bindR (verify_history_events sha k genesis_hash es) (\<lambda>h. Inr (h, length es)))))"

definition registry_require :: "registry \<Rightarrow> string \<Rightarrow> string \<Rightarrow> attestor result" where
  "registry_require reg k pk = (case rg_attestors reg k of
      None \<Rightarrow> raise RecoveryTrustError ''untrusted_attestor''
    | Some a \<Rightarrow>
        if \<not> ra_enabled a then raise RecoveryTrustError ''attestor_disabled''
        else if rg_status reg k = Some ''SUSPENDED'' then raise RecoveryTrustError ''attestor_suspended''
        else if rg_status reg k = Some ''REVOKED'' then raise RecoveryTrustError ''attestor_revoked''
        else if ra_public_key a \<noteq> pk then raise RecoveryTrustError ''attestor_key_mismatch''
        else Inr a)"

section \<open>The portable artifact\<close>

definition trust_schema_version :: string where
  "trust_schema_version = ''recovery-trust-history-v1''"

definition trust_event_json :: "trust_event \<Rightarrow> json" where
  "trust_event_json e = JObj [(''from_status'', opt_json (te_from e)), (''to_status'', JStr (te_to e)),
     (''occurred_at'', JStr (te_at e)), (''reason'', JStr (te_reason e)),
     (''prev_hash'', JStr (te_prev_hash e)), (''event_hash'', JStr (te_event_hash e))]"

definition export_trust_history_artifact :: "(string \<Rightarrow> string) \<Rightarrow> registry \<Rightarrow> trust_db option \<Rightarrow> string \<Rightarrow> json result" where
  "export_trust_history_artifact sha reg db k =
    (case rg_attestors reg k of
       None \<Rightarrow> raise RecoveryTrustError ''untrusted_attestor''
     | Some a \<Rightarrow>
        bindR (registry_verify_history sha reg db k) (\<lambda>_.
        bindR (registry_history reg k) (\<lambda>history.
        bindR (registry_status reg k) (\<lambda>status.
          Inr (JObj [(''schema_version'', JStr trust_schema_version), (''key_id'', JStr (ra_key_id a)),
            (''public_key'', JStr (ra_public_key a)), (''name'', JStr (ra_name a)),
            (''enabled'', JBool (ra_enabled a)), (''status'', JStr status),
            (''history'', JArr (map trust_event_json history)),
            (''head_hash'', JStr (if history = [] then genesis_hash else te_event_hash (last history)))])))))"

definition missing_fields :: "string list \<Rightarrow> (string \<times> json) list \<Rightarrow> string list" where
  "missing_fields required kvs = filter (\<lambda>f. map_of kvs f = None) required"

text \<open>The required fields in sorted order, as the error lists the missing ones.\<close>

definition trust_artifact_fields :: "string list" where
  "trust_artifact_fields = [''enabled'', ''head_hash'', ''history'', ''key_id'', ''name'', ''public_key'',
     ''schema_version'', ''status'']"

definition trust_event_fields :: "string list" where
  "trust_event_fields = [''event_hash'', ''from_status'', ''occurred_at'', ''prev_hash'', ''reason'', ''to_status'']"

fun verify_artifact_history :: "(string \<Rightarrow> string) \<Rightarrow> string \<Rightarrow> string \<Rightarrow> json list \<Rightarrow> string result" where
  "verify_artifact_history sha k previous [] = Inr previous"
| "verify_artifact_history sha k previous (ev # evs) =
    (case ev of
       JObj e \<Rightarrow>
         if missing_fields trust_event_fields e \<noteq> []
         then raise RecoveryTrustError (''trust_history_event_fields_missing:'' @ join_comma (missing_fields trust_event_fields e))
         else if json_get e ''prev_hash'' \<noteq> JStr previous
         then raise RecoveryTrustError ''trust_history_prev_hash_mismatch''
         else
           (let expected = history_event_hash sha k (json_get e ''from_status'') (json_get e ''to_status'')
                  (json_get e ''occurred_at'') (json_get e ''reason'') previous
            in if json_get e ''event_hash'' \<noteq> JStr expected
               then raise RecoveryTrustError ''trust_history_event_hash_mismatch''
               else verify_artifact_history sha k expected evs)
     | _ \<Rightarrow> raise RecoveryTrustError ''trust_history_event_invalid'')"

definition artifact_event_get :: "json \<Rightarrow> string \<Rightarrow> json" where
  "artifact_event_get ev f = (case ev of JObj e \<Rightarrow> json_get e f | _ \<Rightarrow> JNull)"

text \<open>
  The result is the key id, the head hash and the number of events. A status that is a list
  or a dict is not hashable, so the membership test raises a TypeError.
\<close>

definition check_artifact_identity :: "(string \<Rightarrow> string) \<Rightarrow> (string \<times> json) list \<Rightarrow> string result" where
  "check_artifact_identity shab a =
    (if missing_fields trust_artifact_fields a \<noteq> []
     then raise RecoveryTrustError (''trust_history_artifact_fields_missing:'' @ join_comma (missing_fields trust_artifact_fields a))
     else if json_get a ''schema_version'' \<noteq> JStr trust_schema_version
     then raise RecoveryTrustError ''unsupported_trust_history_schema''
     else
       (case json_get a ''key_id'' of
          JStr k \<Rightarrow>
           if k = [] then raise RecoveryTrustError ''trust_history_key_id_required''
           else
             (case json_get a ''public_key'' of
                JStr pk \<Rightarrow>
                  bindR (attestor_key_id shab pk) (\<lambda>expected.
                    if k \<noteq> expected then raise RecoveryTrustError ''attestor_key_id_mismatch''
                    else
                      (case json_get a ''name'' of
                         JStr nm \<Rightarrow>
                           if blank nm then raise RecoveryTrustError ''attestor_name_required''
                           else
                             (case json_get a ''status'' of
                                JStr st \<Rightarrow>
                                  if st \<in> {''ACTIVE'', ''SUSPENDED'', ''REVOKED''} then Inr k
                                  else raise RecoveryTrustError ''invalid_attestor_status''
                              | JArr _ \<Rightarrow> raise TypeError ''unhashable type: list''
                              | JObj _ \<Rightarrow> raise TypeError ''unhashable type: dict''
                              | _ \<Rightarrow> raise RecoveryTrustError ''invalid_attestor_status'')
                       | _ \<Rightarrow> raise RecoveryTrustError ''attestor_name_required''))
              | _ \<Rightarrow> raise RecoveryTrustError ''trust_history_public_key_required'')
        | _ \<Rightarrow> raise RecoveryTrustError ''trust_history_key_id_required''))"

definition verify_trust_history_artifact :: "(string \<Rightarrow> string) \<Rightarrow> (string \<Rightarrow> string) \<Rightarrow> json \<Rightarrow>
    (string \<times> string \<times> nat) result" where
  "verify_trust_history_artifact sha shab artifact =
    (case artifact of
       JObj a \<Rightarrow>
        bindR (check_artifact_identity shab a) (\<lambda>k.
          (case json_get a ''history'' of
             JArr history \<Rightarrow>
               if history = [] then raise RecoveryTrustError ''trust_history_missing''
               else
                 bindR (verify_artifact_history sha k genesis_hash history) (\<lambda>previous.
                   if json_get a ''head_hash'' \<noteq> JStr previous
                   then raise RecoveryTrustError ''trust_history_head_hash_mismatch''
                   else if artifact_event_get (last history) ''to_status'' \<noteq> json_get a ''status''
                   then raise RecoveryTrustError ''trust_history_status_mismatch''
                   else Inr (k, previous, length history))
           | _ \<Rightarrow> raise RecoveryTrustError ''trust_history_missing''))
     | _ \<Rightarrow> raise RecoveryTrustError ''trust_history_artifact_required'')"

end
