(* ===== verification/RecoveryTrustRuns.thy ===== *)
theory RecoveryTrustRuns
  imports RecoveryTrust
begin

text \<open>
  What the attestor store guarantees to several registries that share it: the recorded
  history of every attestor is a valid hash chain and a path of the status relation that
  ends in the current status; revocation is final; exported histories verify offline and
  are tamper evident. Two consequences of the registry's cache are shown at the end.
\<close>

section \<open>The chain of an attestor\<close>

type_synonym trust_content = "string \<times> json \<times> json \<times> json \<times> json"

definition trust_body :: "trust_content \<Rightarrow> string \<Rightarrow> string" where
  "trust_body c prev = (case c of (k, frm, to, at, reason) \<Rightarrow> history_event_body k frm to at reason prev)"

definition trust_wf :: "trust_content \<Rightarrow> bool" where
  "trust_wf c = (case c of (k, frm, to, at, reason) \<Rightarrow>
     json_wf frm \<and> json_wf to \<and> json_wf at \<and> json_wf reason)"

definition event_link :: "string \<Rightarrow> trust_event \<Rightarrow> trust_content link" where
  "event_link k e = \<lparr>lk_event = (k, opt_json (te_from e), JStr (te_to e), JStr (te_at e), JStr (te_reason e)),
     lk_prev = te_prev_hash e, lk_hash = te_event_hash e\<rparr>"

definition json_text :: "json \<Rightarrow> string" where
  "json_text j = (case j of JStr s \<Rightarrow> s | _ \<Rightarrow> [])"

definition artifact_link :: "string \<Rightarrow> json \<Rightarrow> trust_content link" where
  "artifact_link k ev = \<lparr>lk_event = (k, artifact_event_get ev ''from_status'', artifact_event_get ev ''to_status'',
       artifact_event_get ev ''occurred_at'', artifact_event_get ev ''reason''),
     lk_prev = json_text (artifact_event_get ev ''prev_hash''),
     lk_hash = json_text (artifact_event_get ev ''event_hash'')\<rparr>"

abbreviation trust_hash :: "(string \<Rightarrow> string) \<Rightarrow> trust_content \<Rightarrow> string \<Rightarrow> string" where
  "trust_hash sha \<equiv> \<lambda>c p. sha (trust_body c p)"

lemma trust_keys_sorted: "sorted_wrt (<) [''from_status'', ''key_id'', ''occurred_at'', ''prev_hash'',
    ''reason'', ''schema_version'', ''to_status'']"
  by code_simp

interpretation trust_chain: hash_chain trust_body trust_wf
proof
  fix c c' :: trust_content and p p' :: string
  assume wf: "trust_wf c" "trust_wf c'" and eq: "trust_body c p = trust_body c' p'"
  obtain k f t a r where c: "c = (k, f, t, a, r)" by (cases c)
  obtain k' f' t' a' r' where c': "c' = (k', f', t', a', r')" by (cases c')
  have "JObj [(''from_status'', f), (''key_id'', JStr k), (''occurred_at'', a), (''prev_hash'', JStr p),
      (''reason'', r), (''schema_version'', JStr trust_integrity_schema), (''to_status'', t)] =
    JObj [(''from_status'', f'), (''key_id'', JStr k'), (''occurred_at'', a'), (''prev_hash'', JStr p'),
      (''reason'', r'), (''schema_version'', JStr trust_integrity_schema), (''to_status'', t')]"
    by (rule dumps_inj [of _ _ True])
      (use wf eq trust_keys_sorted in \<open>simp_all add: c c' trust_wf_def trust_body_def history_event_body_def\<close>)
  then show "c = c' \<and> p = p'" by (simp add: c c')
qed

lemma event_link_hash: "trust_hash sha (lk_event (event_link k e)) p =
    trust_event_hash sha k (te_from e) (te_to e) (te_at e) (te_reason e) p"
  by (simp add: event_link_def trust_body_def trust_event_hash_def history_event_hash_def)

lemma event_link_sel [simp]: "lk_prev (event_link k e) = te_prev_hash e" "lk_hash (event_link k e) = te_event_hash e"
  by (simp_all add: event_link_def)

lemma verify_history_events_iff:
  "verify_history_events sha k p es = Inr h \<longleftrightarrow>
     chain_valid (trust_hash sha) p (map (event_link k) es) \<and> h = chain_head p (map (event_link k) es)"
  by (induction es arbitrary: p) (auto simp: event_link_hash)

lemma verify_history_rows_eq:
  "\<forall>x \<in> set rows. hr_key_id (fst x) = k \<Longrightarrow>
     verify_history_rows sha p rows = verify_history_events sha k p (map joined_event rows)"
  by (induction rows arbitrary: p) (auto simp: joined_event_def)

lemma joined_key: "x \<in> set (joined_history db k) \<Longrightarrow> hr_key_id (fst x) = k"
  by (auto simp: joined_history_def)

lemma store_verify_history_Inr:
  "store_verify_history sha db k = Inr (h, n) \<longleftrightarrow>
     store_history db k \<noteq> [] \<and> n = length (store_history db k) \<and>
     n = count_where (\<lambda>h. hr_key_id h = k) (td_history db) \<and>
     chain_valid (trust_hash sha) genesis_hash (map (event_link k) (store_history db k)) \<and>
     h = chain_head genesis_hash (map (event_link k) (store_history db k))"
proof -
  have "\<forall>x \<in> set (joined_history db k). hr_key_id (fst x) = k" using joined_key by blast
  from verify_history_rows_eq [OF this, of sha genesis_hash] show ?thesis
    by (auto simp: store_verify_history_def Let_def bindR_Inr_iff verify_history_events_iff store_history_def)
qed

section \<open>Appending an event\<close>

definition trust_ids_ok :: "trust_db \<Rightarrow> bool" where
  "trust_ids_ok db \<longleftrightarrow> sorted_wrt (<) (map hr_event_id (td_history db)) \<and>
     sorted_wrt (<) (map ir_event_id (td_integrity db)) \<and>
     (\<forall>h \<in> set (td_history db). hr_event_id h \<le> td_seq db) \<and>
     (\<forall>i \<in> set (td_integrity db). ir_event_id i \<le> td_seq db)"

lemma sorted_concat_pairs:
  fixes f :: "'a \<Rightarrow> 'k::linorder"
  shows "sorted_wrt (<) (map f hs) \<Longrightarrow> sorted (map (\<lambda>p. f (fst p)) (concat (map (\<lambda>h. map (Pair h) (g h)) hs)))"
proof (induction hs)
  case (Cons h hs)
  then have "sorted (map (\<lambda>p. f (fst p)) (concat (map (\<lambda>h. map (Pair h) (g h)) hs)))" by simp
  moreover have "\<forall>h' \<in> set hs. f h \<le> f h'" using Cons.prems by auto
  ultimately show ?case by (auto simp: sorted_append comp_def sorted_wrt_map intro!: sorted_wrt_true)
qed simp

lemma joined_history_eq:
  assumes "trust_ids_ok db"
  shows "joined_history db k =
    concat (map (\<lambda>h. map (Pair h) (filter (\<lambda>i. ir_event_id i = hr_event_id h) (td_integrity db)))
      (filter (\<lambda>h. hr_key_id h = k) (td_history db)))"
  unfolding joined_history_def
proof (rule sort_key_id_if_sorted, rule sorted_concat_pairs)
  show "sorted_wrt (<) (map hr_event_id (filter (\<lambda>h. hr_key_id h = k) (td_history db)))"
    using assms by (simp add: trust_ids_ok_def sorted_wrt_map sorted_wrt_filter)
qed

lemma joined_history_attestors [simp]: "joined_history (db\<lparr>td_attestors := x\<rparr>) k = joined_history db k"
  by (simp add: joined_history_def)

lemma store_history_attestors [simp]: "store_history (db\<lparr>td_attestors := x\<rparr>) k = store_history db k"
  by (simp add: store_history_def)

lemma trust_ids_ok_attestors [simp]: "trust_ids_ok (db\<lparr>td_attestors := x\<rparr>) = trust_ids_ok db"
  by (simp add: trust_ids_ok_def)

lemma joined_history_snoc:
  assumes ids: "trust_ids_ok db" and new: "hr_event_id h = td_seq db + 1" "ir_event_id i = td_seq db + 1"
  defines "db' \<equiv> db\<lparr>td_history := td_history db @ [h], td_seq := td_seq db + 1, td_integrity := td_integrity db @ [i]\<rparr>"
  shows "trust_ids_ok db'"
    and "joined_history db' k = joined_history db k @ (if hr_key_id h = k then [(h, i)] else [])"
proof -
  show ids': "trust_ids_ok db'"
    using ids new by (fastforce simp: trust_ids_ok_def db'_def sorted_wrt_append)
  have old: "filter (\<lambda>x. ir_event_id x = hr_event_id h') (td_integrity db @ [i]) =
      filter (\<lambda>x. ir_event_id x = hr_event_id h') (td_integrity db)" if "h' \<in> set (td_history db)" for h'
    using ids new that by (fastforce simp: trust_ids_ok_def)
  have fresh: "filter (\<lambda>x. ir_event_id x = td_seq db + 1) (td_integrity db) = []"
    using ids by (fastforce simp: trust_ids_ok_def filter_empty_conv)
  have "concat (map (\<lambda>h. map (Pair h) (filter (\<lambda>x. ir_event_id x = hr_event_id h) (td_integrity db @ [i])))
        (filter (\<lambda>h. hr_key_id h = k) (td_history db))) = joined_history db k"
    unfolding joined_history_eq [OF ids]
    by (rule arg_cong [of _ _ concat], rule map_cong [OF refl]) (simp only: old set_filter mem_Collect_eq)
  then show "joined_history db' k = joined_history db k @ (if hr_key_id h = k then [(h, i)] else [])"
    unfolding joined_history_eq [OF ids'] by (simp add: db'_def new fresh)
qed

definition chain_ok :: "(string \<Rightarrow> string) \<Rightarrow> trust_db \<Rightarrow> bool" where
  "chain_ok sha db \<longleftrightarrow> trust_ids_ok db \<and>
     (\<forall>k. filter (\<lambda>i. ir_key_id i = k) (td_integrity db) = map snd (joined_history db k) \<and>
        length (joined_history db k) = count_where (\<lambda>h. hr_key_id h = k) (td_history db) \<and>
        chain_valid (trust_hash sha) genesis_hash (map (event_link k) (store_history db k)))"

lemma chain_ok_attestors [simp]: "chain_ok sha (db\<lparr>td_attestors := x\<rparr>) = chain_ok sha db"
  by (simp add: chain_ok_def)

lemma last_event_hash_eq:
  assumes "chain_ok sha db"
  shows "last_event_hash db k = chain_head genesis_hash (map (event_link k) (store_history db k))"
proof -
  have ids: "trust_ids_ok db" using assms by (simp add: chain_ok_def)
  have "sorted (map ir_event_id (filter (\<lambda>i. ir_key_id i = k) (td_integrity db)))"
    using ids by (intro strict_sorted_imp_sorted) (simp add: trust_ids_ok_def sorted_wrt_map sorted_wrt_filter)
  then have "sort_key ir_event_id (filter (\<lambda>i. ir_key_id i = k) (td_integrity db)) = map snd (joined_history db k)"
    using assms by (simp add: sort_key_id_if_sorted chain_ok_def)
  then show ?thesis
    by (cases "joined_history db k" rule: rev_cases)
      (auto simp: last_event_hash_def store_history_def joined_event_def)
qed

definition new_event :: "(string \<Rightarrow> string) \<Rightarrow> string \<Rightarrow> string option \<Rightarrow> string \<Rightarrow> string \<Rightarrow> string \<Rightarrow> string \<Rightarrow> trust_event" where
  "new_event sha k frm to at reason prev = \<lparr>te_from = frm, te_to = to, te_at = at, te_reason = reason,
     te_prev_hash = prev, te_event_hash = trust_event_hash sha k frm to at reason prev\<rparr>"

lemma add_history_event_Inr:
  assumes ok: "chain_ok sha db" and prev: "prev = chain_head genesis_hash (map (event_link k) (store_history db k))"
    and step: "add_history_event sha db k frm to at reason prev = Inr (h, db')"
  shows "chain_ok sha db'" and "td_attestors db' = td_attestors db"
    and "h = trust_event_hash sha k frm to at reason prev"
    and "store_history db' k' = store_history db k' @ (if k' = k then [new_event sha k frm to at reason prev] else [])"
proof -
  have ids: "trust_ids_ok db" using ok by (simp add: chain_ok_def)
  let ?h = "\<lparr>hr_event_id = td_seq db + 1, hr_key_id = k, hr_from = frm, hr_to = to, hr_at = at, hr_reason = reason\<rparr>"
  let ?i = "\<lparr>ir_event_id = td_seq db + 1, ir_key_id = k, ir_prev_hash = prev,
     ir_event_hash = trust_event_hash sha k frm to at reason prev\<rparr>"
  from step have db': "db' = db\<lparr>td_history := td_history db @ [?h], td_seq := td_seq db + 1,
      td_integrity := td_integrity db @ [?i]\<rparr>"
    and h: "h = trust_event_hash sha k frm to at reason prev"
    by (auto simp: add_history_event_def Let_def split: if_splits)
  have ids': "trust_ids_ok db'"
    and joined: "joined_history db' k' = joined_history db k' @ (if k = k' then [(?h, ?i)] else [])" for k'
    using joined_history_snoc [OF ids, of ?h ?i] by (simp_all add: db')
  then show hist: "store_history db' k' = store_history db k' @ (if k' = k then [new_event sha k frm to at reason prev] else [])" for k'
    by (simp add: store_history_def joined_event_def new_event_def)
  have "chain_valid (trust_hash sha) genesis_hash (map (event_link k') (store_history db' k'))" for k'
    using ok by (simp add: chain_ok_def hist prev event_link_hash) (simp add: new_event_def)
  with ok ids' show "chain_ok sha db'"
    by (simp add: chain_ok_def joined count_where_def) (simp add: db')
  show "td_attestors db' = td_attestors db" by (simp add: db')
  show "h = trust_event_hash sha k frm to at reason prev" by (rule h)
qed

section \<open>The status relation recorded in the history\<close>

fun trust_path :: "string option \<Rightarrow> (string option \<times> string) list \<Rightarrow> bool" where
  "trust_path p [] = True"
| "trust_path p ((f, t) # es) = (f = p \<and>
     (case p of None \<Rightarrow> t = ''ACTIVE'' \<or> t = ''SUSPENDED'' | Some a \<Rightarrow> trust_allowed a t) \<and> trust_path (Some t) es)"

definition path_end :: "string option \<Rightarrow> (string option \<times> string) list \<Rightarrow> string option" where
  "path_end p es = (if es = [] then p else Some (snd (last es)))"

definition status_edges :: "trust_db \<Rightarrow> string \<Rightarrow> (string option \<times> string) list" where
  "status_edges db k = map (\<lambda>e. (te_from e, te_to e)) (store_history db k)"

lemma path_end_simps [simp]: "path_end p [] = p" "path_end p (es @ [(f, t)]) = Some t"
  by (simp_all add: path_end_def)

lemma path_end_Cons [simp]: "path_end p ((f, t) # es) = path_end (Some t) es"
  by (simp add: path_end_def)

lemma trust_path_snoc [simp]:
  "trust_path p (es @ [(f, t)]) \<longleftrightarrow> trust_path p es \<and> f = path_end p es \<and>
     (case path_end p es of None \<Rightarrow> t = ''ACTIVE'' \<or> t = ''SUSPENDED'' | Some a \<Rightarrow> trust_allowed a t)"
  by (induction es arbitrary: p) auto

lemma trust_allowed_simps [simp]:
  "trust_allowed a t \<longleftrightarrow> (a, t) \<in> {(''ACTIVE'', ''SUSPENDED''), (''ACTIVE'', ''REVOKED''),
     (''SUSPENDED'', ''ACTIVE''), (''SUSPENDED'', ''REVOKED'')}"
  by (auto simp: trust_allowed_def trust_transitions_def)

definition attestor_ok :: "(string \<Rightarrow> string) \<Rightarrow> attestor \<Rightarrow> bool" where
  "attestor_ok shab a \<longleftrightarrow> attestor_key_id shab (ra_public_key a) = Inr (ra_key_id a) \<and> \<not> blank (ra_name a)"

definition trust_db_inv :: "(string \<Rightarrow> string) \<Rightarrow> (string \<Rightarrow> string) \<Rightarrow> trust_db \<Rightarrow> bool" where
  "trust_db_inv sha shab db \<longleftrightarrow> key_unique row_key (td_attestors db) \<and> chain_ok sha db \<and>
     (\<forall>k. trust_path None (status_edges db k) \<and> path_end None (status_edges db k) = trust_status db k) \<and>
     (\<forall>r \<in> set (td_attestors db). attestor_ok shab (ar_attestor r))"

lemma trust_db_inv_empty: "trust_db_inv sha shab empty_trust_db"
  by (simp add: trust_db_inv_def chain_ok_def trust_ids_ok_def empty_trust_db_def joined_history_def
      store_history_def count_where_def status_edges_def trust_status_def)

lemma store_insert_inv:
  assumes inv: "trust_db_inv sha shab db" and step: "store_insert sha db a st at = Inr (h, db')"
    and st: "st = ''ACTIVE'' \<or> st = ''SUSPENDED''" and a: "attestor_ok shab a"
  shows "trust_db_inv sha shab db'"
    and "trust_status db' k = (if k = ra_key_id a then Some st else trust_status db k)"
    and "trust_status db (ra_key_id a) = None"
proof -
  let ?db = "db\<lparr>td_attestors := td_attestors db @ [\<lparr>ar_attestor = a, ar_status = st\<rparr>]\<rparr>"
  from step have free: "lookup_row row_key (td_attestors db) (ra_key_id a) = None"
    and add: "add_history_event sha ?db (ra_key_id a) None st at ''registered'' genesis_hash = Inr (h, db')"
    by (auto simp: store_insert_def split: if_splits)
  show none: "trust_status db (ra_key_id a) = None" using free by (simp add: trust_status_def)
  with inv have "path_end None (status_edges db (ra_key_id a)) = None" by (simp add: trust_db_inv_def)
  then have nohist: "store_history db (ra_key_id a) = []"
    by (simp add: path_end_def status_edges_def split: if_splits)
  have ok: "chain_ok sha ?db" using inv by (simp add: trust_db_inv_def)
  have prev: "genesis_hash = chain_head genesis_hash (map (event_link (ra_key_id a)) (store_history ?db (ra_key_id a)))"
    by (simp add: nohist)
  note added = add_history_event_Inr [OF ok prev add]
  show status: "trust_status db' k = (if k = ra_key_id a then Some st else trust_status db k)" for k
    using free by (auto simp: trust_status_def added(2) table_simps split: option.splits)
  have edges: "status_edges db' k = (if k = ra_key_id a then [(None, st)] else status_edges db k)" for k
    by (simp add: status_edges_def added(4) nohist new_event_def)
  show "trust_db_inv sha shab db'"
    using inv st a free
    by (auto simp: trust_db_inv_def added(1,2) edges status)
qed

lemma store_transition_inv:
  assumes inv: "trust_db_inv sha shab db" and step: "store_transition sha db k cur new reason at = Inr (h, db')"
    and allowed: "trust_allowed cur new"
  shows "trust_db_inv sha shab db'" and "trust_status db k = Some cur"
    and "trust_status db' k' = (if k' = k then Some new else trust_status db k')"
proof -
  let ?upd = "update_where (\<lambda>r. row_key r = k \<and> ar_status r = cur) (\<lambda>r. r\<lparr>ar_status := new\<rparr>) (td_attestors db)"
  from step obtain row where row: "lookup_row row_key (td_attestors db) k = Some row" "ar_status row = cur"
    and add: "add_history_event sha (db\<lparr>td_attestors := ?upd\<rparr>) k (Some cur) new at reason (last_event_hash db k) = Inr (h, db')"
    by (auto simp: store_transition_def split: option.splits if_splits)
  show cur: "trust_status db k = Some cur" using row by (simp add: trust_status_def)
  have ok: "chain_ok sha (db\<lparr>td_attestors := ?upd\<rparr>)" and ok0: "chain_ok sha db"
    using inv by (simp_all add: trust_db_inv_def)
  note prev = last_event_hash_eq [OF ok0, of k]
  note added = add_history_event_Inr [OF ok _ add, unfolded store_history_attestors, OF prev]
  have uk: "key_unique row_key (td_attestors db)" using inv by (simp add: trust_db_inv_def)
  show status: "trust_status db' k' = (if k' = k then Some new else trust_status db k')" for k'
  proof (cases "lookup_row row_key (td_attestors db) k'")
    case None
    with row show ?thesis by (auto simp: trust_status_def added(2) table_simps)
  next
    case (Some x)
    then have "row_key x = k'" by (blast dest: lookup_row_SomeD)
    with Some row show ?thesis by (cases "k' = k") (simp_all add: trust_status_def added(2) table_simps)
  qed
  have edges: "status_edges db' k' = status_edges db k' @ (if k' = k then [(Some cur, new)] else [])" for k'
    by (simp add: status_edges_def added(4) new_event_def)
  have paths: "\<forall>k. trust_path None (status_edges db k) \<and> path_end None (status_edges db k) = trust_status db k"
    using inv by (simp add: trust_db_inv_def)
  have paths': "trust_path None (status_edges db' k') \<and> path_end None (status_edges db' k') = trust_status db' k'" for k'
    using paths cur allowed by (cases "k' = k") (simp_all add: edges status del: trust_allowed_simps)
  have "\<forall>r \<in> set ?upd. attestor_ok shab (ar_attestor r)"
    using inv by (auto simp: trust_db_inv_def update_where_def)
  with uk added(1,2) paths' show "trust_db_inv sha shab db'"
    by (simp add: trust_db_inv_def)
qed

section \<open>Registries sharing a store\<close>

record trust_system =
  ts_db :: trust_db
  ts_reg :: "nat \<Rightarrow> registry"

datatype trust_call =
    OpenRegistry nat
  | Register nat attestor string
  | Transition nat string string string string

text \<open>Process \<open>p\<close> constructs its registry over the store, registers, or transitions.\<close>

fun trust_step :: "(string \<Rightarrow> string) \<Rightarrow> (string \<Rightarrow> string) \<Rightarrow> trust_call \<Rightarrow> trust_system \<Rightarrow> trust_system" where
  "trust_step sha shab (OpenRegistry p) s =
    (let db = backfill_history_integrity sha (ts_db s)
     in s\<lparr>ts_db := db, ts_reg := (ts_reg s)(p := load_store db)\<rparr>)"
| "trust_step sha shab (Register p a now) s =
    (case registry_register sha shab (ts_reg s p) (Some (ts_db s)) a now of
       Inr (reg, Some db) \<Rightarrow> s\<lparr>ts_db := db, ts_reg := (ts_reg s)(p := reg)\<rparr>
     | _ \<Rightarrow> s)"
| "trust_step sha shab (Transition p k new reason now) s =
    (case registry_transition sha (ts_reg s p) (Some (ts_db s)) k new reason now of
       (_, reg, Some db) \<Rightarrow> s\<lparr>ts_db := db, ts_reg := (ts_reg s)(p := reg)\<rparr>
     | _ \<Rightarrow> s)"

definition trust_init :: trust_system where
  "trust_init = \<lparr>ts_db = empty_trust_db, ts_reg = (\<lambda>_. empty_registry)\<rparr>"

lemma registry_register_Inr:
  assumes "registry_register sha shab reg (Some db) a now = Inr (reg', db')"
  obtains "db' = Some db" | h db1 st where "db' = Some db1" "store_insert sha db a st now = Inr (h, db1)"
    "st = ''ACTIVE'' \<or> st = ''SUSPENDED''" "attestor_ok shab a"
  using assms
  by (auto simp: registry_register_def bindR_Inr_iff Let_def attestor_ok_def split: if_splits option.splits)

lemma registry_transition_db:
  assumes "registry_transition sha reg (Some db) k new reason now = (res, reg', db')"
  obtains "db' = Some db"
  | h db1 cur where "db' = Some db1" "store_transition sha db k cur new (strip reason) now = Inr (h, db1)"
    "trust_allowed cur new"
  using assms
  by (auto simp: registry_transition_def Let_def trust_allowed_def simp del: trust_allowed_simps
      split: if_splits option.splits sum.splits prod.splits)

lemma backfill_noop:
  assumes "trust_db_inv sha shab db"
  shows "backfill_history_integrity sha db = db"
proof (cases "td_integrity db = []")
  case True
  then have "joined_history db k = []" for k
    using assms by (simp add: trust_db_inv_def chain_ok_def)
  then have none: "count_where (\<lambda>h. hr_key_id h = k) (td_history db) = 0" for k
    using assms by (metis trust_db_inv_def chain_ok_def list.size(3))
  have "td_history db = []"
  proof (cases "td_history db")
    case (Cons h hs)
    with none [of "hr_key_id h"] show ?thesis by (simp add: count_where_def)
  qed simp
  with True show ?thesis by (simp add: backfill_history_integrity_def)
qed (simp add: backfill_history_integrity_def)

lemma trust_step_cases:
  assumes inv: "trust_db_inv sha shab (ts_db s)"
  shows "trust_db_inv sha shab (ts_db (trust_step sha shab c s)) \<and>
    (\<forall>k a. trust_status (ts_db s) k = Some a \<longrightarrow>
       (\<exists>b. trust_status (ts_db (trust_step sha shab c s)) k = Some b \<and> (b = a \<or> trust_allowed a b)))"
    (is "?keeps (ts_db (trust_step sha shab c s))")
proof -
  have same: "?keeps (ts_db s)" using inv by simp
  show ?thesis
  proof (cases c)
    case (OpenRegistry p)
    with same show ?thesis by (simp add: backfill_noop [OF inv] Let_def)
  next
    case (Register p a now)
    show ?thesis
    proof (cases "registry_register sha shab (ts_reg s p) (Some (ts_db s)) a now")
      case (Inr x)
      obtain reg db' where x: "x = (reg, db')" by (cases x)
      from Inr [unfolded x] show ?thesis
      proof (cases rule: registry_register_Inr)
        case 1
        with Inr x Register same show ?thesis by simp
      next
        case (2 h db1 st)
        note ins = store_insert_inv [OF inv 2(2-4)]
        have "?keeps db1" using ins by auto
        with Inr x Register 2(1) show ?thesis by simp
      qed
    qed (use Register same in simp)
  next
    case (Transition p k new reason now)
    obtain res reg db' where r: "registry_transition sha (ts_reg s p) (Some (ts_db s)) k new reason now = (res, reg, db')"
      using prod_cases3 by blast
    from r show ?thesis
    proof (cases rule: registry_transition_db)
      case 1
      with r Transition same show ?thesis by simp
    next
      case (2 h db1 cur)
      note tr = store_transition_inv [OF inv 2(2,3)]
      have "?keeps db1" using tr 2(3) by (simp del: trust_allowed_simps)
      with r Transition 2(1) show ?thesis by simp
    qed
  qed
qed

interpretation attestors: lifecycle "\<lambda>s. trust_status (ts_db s)" trust_allowed "\<lambda>_ _. True"
    "trust_step sha shab" "\<lambda>s. trust_db_inv sha shab (ts_db s)" for sha shab
  by unfold_locales (use trust_step_cases in blast)+

abbreviation trust_run :: "(string \<Rightarrow> string) \<Rightarrow> (string \<Rightarrow> string) \<Rightarrow> trust_call list \<Rightarrow> trust_system" where
  "trust_run sha shab cs \<equiv> fold (trust_step sha shab) cs trust_init"

lemma trust_run_inv: "trust_db_inv sha shab (ts_db (trust_run sha shab cs))"
  using attestors.run_inv [of sha shab trust_init cs] by (simp add: trust_init_def trust_db_inv_empty)

section \<open>A freshly loaded registry\<close>

lemma load_rows:
  "distinct (map row_key rs) \<Longrightarrow>
   rg_attestors (fold (load_row db) rs reg) k =
     (case lookup_row row_key rs k of Some r \<Rightarrow> Some (ar_attestor r) | None \<Rightarrow> rg_attestors reg k) \<and>
   rg_status (fold (load_row db) rs reg) k =
     (case lookup_row row_key rs k of Some r \<Rightarrow> Some (ar_status r) | None \<Rightarrow> rg_status reg k) \<and>
   rg_history (fold (load_row db) rs reg) k =
     (case lookup_row row_key rs k of Some r \<Rightarrow> Some (store_history db k) | None \<Rightarrow> rg_history reg k)"
proof (induction rs arbitrary: reg)
  case (Cons r rs)
  from Cons.prems have "row_key r \<notin> row_key ` set rs" by simp
  then have "lookup_row row_key rs (row_key r) = None" unfolding lookup_row_None_iff by (metis imageI)
  with Cons show ?case by (auto simp: load_row_def Let_def split: option.splits)
qed simp

lemma load_store_spec:
  assumes "trust_db_inv sha shab db"
  shows "rg_attestors (load_store db) k = map_option ar_attestor (lookup_row row_key (td_attestors db) k)"
    and "rg_status (load_store db) k = trust_status db k"
    and "trust_status db k = Some st \<Longrightarrow> rg_history (load_store db) k = Some (store_history db k)"
proof -
  have uk: "key_unique row_key (td_attestors db)" using assms by (simp add: trust_db_inv_def)
  have uk': "key_unique row_key (trust_load db)"
    using uk by (simp add: key_unique_def trust_load_def distinct_map)
  have look: "lookup_row row_key (trust_load db) k = lookup_row row_key (td_attestors db) k"
  proof (cases "lookup_row row_key (td_attestors db) k")
    case None
    then have "lookup_row row_key (trust_load db) k = None" by (simp add: trust_load_def lookup_row_None_iff)
    with None show ?thesis by simp
  next
    case (Some r)
    then have "r \<in> set (trust_load db) \<and> row_key r = k"
      using lookup_row_SomeD [OF Some] by (simp add: trust_load_def)
    with Some show ?thesis using lookup_row_iff [OF uk', of k r] by simp
  qed
  have dist: "distinct (map row_key (trust_load db))" using uk' by (simp add: key_unique_def)
  show "rg_attestors (load_store db) k = map_option ar_attestor (lookup_row row_key (td_attestors db) k)"
    and "rg_status (load_store db) k = trust_status db k"
    and "trust_status db k = Some st \<Longrightarrow> rg_history (load_store db) k = Some (store_history db k)"
    using load_rows [OF dist, of db empty_registry k]
    by (auto simp: load_store_def look empty_registry_def trust_status_def split: option.splits)
qed

section \<open>Properties\<close>

lemma reachable_history:
  assumes inv: "trust_db_inv sha shab db" and st: "trust_status db k = Some st"
  shows "store_history db k \<noteq> []" and "te_to (last (store_history db k)) = st"
    and "store_verify_history sha db k =
      Inr (chain_head genesis_hash (map (event_link k) (store_history db k)), length (store_history db k))"
proof -
  have pe: "path_end None (status_edges db k) = Some st" using inv st by (simp add: trust_db_inv_def)
  then show ne: "store_history db k \<noteq> []" by (auto simp: path_end_def status_edges_def)
  with pe show "te_to (last (store_history db k)) = st" by (simp add: path_end_def status_edges_def last_map)
  show "store_verify_history sha db k =
      Inr (chain_head genesis_hash (map (event_link k) (store_history db k)), length (store_history db k))"
    using inv ne by (auto simp: store_verify_history_Inr trust_db_inv_def chain_ok_def store_history_def)
qed

text \<open>
  the recorded history of an attestor is its life. Whatever registries do to a shared
  store, the history of every registered attestor verifies, and its events form a path of
  the status relation from registration to the attestor's current status.
\<close>

theorem attestor_history_is_lifecycle:
  assumes "trust_status (ts_db (trust_run sha shab cs)) k = Some st"
  shows "\<exists>h n. store_verify_history sha (ts_db (trust_run sha shab cs)) k = Inr (h, n) \<and> 1 \<le> n \<and>
    trust_path None (status_edges (ts_db (trust_run sha shab cs)) k) \<and>
    path_end None (status_edges (ts_db (trust_run sha shab cs)) k) = Some st"
  using reachable_history [OF trust_run_inv assms] trust_run_inv [of sha shab cs] assms
  by (auto simp: trust_db_inv_def Suc_le_eq)

definition demo_key :: string where
  "demo_key = replicate 43 CHR ''A'' @ ''=''"

definition demo_attestor :: attestor where
  "demo_attestor = \<lparr>ra_key_id = ''ed25519-k'', ra_public_key = demo_key, ra_name = ''lab'', ra_enabled = True\<rparr>"

abbreviation demo_fingerprint :: "string \<Rightarrow> string" where
  "demo_fingerprint \<equiv> \<lambda>_. ''k''"

text \<open>A stand-in for the digest that reads a few characters of the status and of the previous hash.\<close>

definition demo_trust_sha :: "string \<Rightarrow> string" where
  "demo_trust_sha t = take 3 (drop 16 t) @ take 3 (drop 77 t)"

definition demo_revocation :: "trust_call list" where
  "demo_revocation = [OpenRegistry 0, Register 0 demo_attestor ''t0'',
     Transition 0 ''ed25519-k'' ''REVOKED'' ''key lost'' ''t1'']"

lemma demo_revoked: "trust_status (ts_db (trust_run demo_trust_sha demo_fingerprint demo_revocation)) ''ed25519-k'' =
    Some ''REVOKED''"
  by code_simp

theorem attestor_history_is_lifecycle_witness:
  "\<exists>h n. store_verify_history demo_trust_sha
     (ts_db (trust_run demo_trust_sha demo_fingerprint demo_revocation)) ''ed25519-k'' = Inr (h, n) \<and> 1 \<le> n"
  using attestor_history_is_lifecycle [OF demo_revoked] by blast

text \<open>
  C27: revocation is final. Once an attestor is REVOKED in the store, no later sequence of
  calls by any registries, whatever their caches hold, changes its status, and no registry
  opened afterwards accepts it.
\<close>

theorem revoked_attestor_is_final:
  assumes "trust_status (ts_db (trust_run sha shab cs)) k = Some ''REVOKED''"
  shows "trust_status (ts_db (trust_run sha shab (cs @ cs'))) k = Some ''REVOKED'' \<and>
    isl (registry_require (load_store (ts_db (trust_run sha shab (cs @ cs')))) k pk)"
proof -
  have "terminal_in trust_allowed ''REVOKED''" by (simp add: terminal_in_def)
  from attestors.terminal_absorbing [OF trust_run_inv _ assms this, of cs']
  have status: "trust_status (ts_db (trust_run sha shab (cs @ cs'))) k = Some ''REVOKED''" by simp
  with load_store_spec(1,2) [OF trust_run_inv [of sha shab "cs @ cs'"], of k]
  show ?thesis by (auto simp: registry_require_def split: option.splits)
qed

theorem revoked_attestor_is_final_witness:
  "trust_status (ts_db (trust_run demo_trust_sha demo_fingerprint (demo_revocation @
     [OpenRegistry 1, Transition 1 ''ed25519-k'' ''ACTIVE'' ''again'' ''t2'']))) ''ed25519-k'' = Some ''REVOKED''"
  using revoked_attestor_is_final [OF demo_revoked] by blast

section \<open>Artifacts\<close>

lemma trust_event_json_get [simp]:
  "artifact_event_get (trust_event_json e) ''from_status'' = opt_json (te_from e)"
  "artifact_event_get (trust_event_json e) ''to_status'' = JStr (te_to e)"
  by (simp_all add: artifact_event_get_def trust_event_json_def json_get_Cons)

lemma verify_artifact_history_json:
  "verify_artifact_history sha k p (map trust_event_json es) = verify_history_events sha k p es"
proof (induction es arbitrary: p)
  case (Cons e es)
  have "verify_artifact_history sha k p (trust_event_json e # map trust_event_json es) =
    (if te_prev_hash e \<noteq> p then raise RecoveryTrustError ''trust_history_prev_hash_mismatch''
     else if te_event_hash e \<noteq> trust_event_hash sha k (te_from e) (te_to e) (te_at e) (te_reason e) p
     then raise RecoveryTrustError ''trust_history_event_hash_mismatch''
     else verify_artifact_history sha k (te_event_hash e) (map trust_event_json es))"
    by (simp add: trust_event_json_def [of e] missing_fields_def trust_event_fields_def json_get_Cons
        trust_event_hash_def Let_def)
  with Cons show ?case by simp
qed simp

lemma check_artifact_identity_export:
  assumes "attestor_ok shab a" and "ra_key_id a = k" and "st \<in> {''ACTIVE'', ''SUSPENDED'', ''REVOKED''}"
  shows "check_artifact_identity shab [(''schema_version'', JStr trust_schema_version), (''key_id'', JStr k),
     (''public_key'', JStr (ra_public_key a)), (''name'', JStr (ra_name a)), (''enabled'', JBool (ra_enabled a)),
     (''status'', JStr st), (''history'', hist), (''head_hash'', head)] = Inr k"
proof -
  have id: "attestor_key_id shab (ra_public_key a) = Inr k" and nm: "\<not> blank (ra_name a)"
    using assms(1,2) by (simp_all add: attestor_ok_def)
  have "k \<noteq> []" using id by (auto simp: attestor_key_id_def split: option.splits if_splits)
  with id nm assms(3) show ?thesis
    unfolding check_artifact_identity_def missing_fields_def trust_artifact_fields_def
    by (simp add: json_get_Cons)
qed

lemma status_range:
  assumes "trust_db_inv sha shab db" and "trust_status db k = Some st"
  shows "st \<in> {''ACTIVE'', ''SUSPENDED'', ''REVOKED''}"
proof -
  have path: "trust_path p es \<Longrightarrow> path_end p es = Some st \<Longrightarrow> p = None \<or> es \<noteq> [] \<Longrightarrow>
      st \<in> {''ACTIVE'', ''SUSPENDED'', ''REVOKED''}" for p es
    by (cases es rule: rev_cases) (auto split: option.splits)
  show ?thesis using path [of None "status_edges db k"] assms by (simp add: trust_db_inv_def)
qed

text \<open>
  the trust history of every attestor can be exported and verified offline. A registry
  opened on any reachable store exports an artifact for every registered attestor, and the
  offline verifier accepts it with the store's own head hash and length.
\<close>

theorem fresh_trust_artifact_verifies:
  assumes st: "trust_status (ts_db (trust_run sha shab cs)) k = Some st"
  shows "\<exists>art h n. export_trust_history_artifact sha (load_store (ts_db (trust_run sha shab cs)))
      (Some (ts_db (trust_run sha shab cs))) k = Inr art \<and>
    store_verify_history sha (ts_db (trust_run sha shab cs)) k = Inr (h, n) \<and>
    verify_trust_history_artifact sha shab art = Inr (k, h, n)"
proof -
  define db where "db = ts_db (trust_run sha shab cs)"
  have inv: "trust_db_inv sha shab db" unfolding db_def by (rule trust_run_inv)
  have st': "trust_status db k = Some st" using st by (simp add: db_def)
  then obtain row where row: "lookup_row row_key (td_attestors db) k = Some row"
    by (auto simp: trust_status_def)
  define a where "a = ar_attestor row"
  have mem: "row \<in> set (td_attestors db) \<and> row_key row = k" using lookup_row_SomeD [OF row] .
  then have a: "attestor_ok shab a" "ra_key_id a = k" using inv by (auto simp: trust_db_inv_def a_def)
  define es where "es = store_history db k"
  define head where "head = chain_head genesis_hash (map (event_link k) es)"
  note hist = reachable_history [OF inv st', folded es_def head_def]
  have head: "(if es = [] then genesis_hash else te_event_hash (last es)) = head"
    using hist(1) by (simp add: head_def chain_head_def last_map)
  note loaded = load_store_spec [OF inv, of k]
  have exp: "export_trust_history_artifact sha (load_store db) (Some db) k =
    Inr (JObj [(''schema_version'', JStr trust_schema_version), (''key_id'', JStr k),
      (''public_key'', JStr (ra_public_key a)), (''name'', JStr (ra_name a)), (''enabled'', JBool (ra_enabled a)),
      (''status'', JStr st), (''history'', JArr (map trust_event_json es)), (''head_hash'', JStr head)])"
    using loaded(1,2) loaded(3) [OF st'] st' row hist(3) head [unfolded es_def] a(2)
    by (simp add: export_trust_history_artifact_def registry_verify_history_def registry_history_def
        registry_status_def es_def a_def)
  have ver: "verify_history_events sha k genesis_hash es = Inr head"
    using hist(3) unfolding verify_history_events_iff head_def es_def by (simp add: store_verify_history_Inr)
  have "verify_trust_history_artifact sha shab
     (JObj [(''schema_version'', JStr trust_schema_version), (''key_id'', JStr k),
      (''public_key'', JStr (ra_public_key a)), (''name'', JStr (ra_name a)), (''enabled'', JBool (ra_enabled a)),
      (''status'', JStr st), (''history'', JArr (map trust_event_json es)), (''head_hash'', JStr head)]) =
     Inr (k, head, length es)"
    unfolding verify_trust_history_artifact_def json.case check_artifact_identity_export [OF a status_range [OF inv st']]
    using hist(1,2) by (simp add: json_get_Cons verify_artifact_history_json ver last_map)
  then show ?thesis unfolding db_def [symmetric] using exp hist(3) by (auto simp: head_def)
qed

theorem fresh_trust_artifact_verifies_witness:
  "\<exists>art h n. export_trust_history_artifact demo_trust_sha
      (load_store (ts_db (trust_run demo_trust_sha demo_fingerprint demo_revocation)))
      (Some (ts_db (trust_run demo_trust_sha demo_fingerprint demo_revocation))) ''ed25519-k'' = Inr art \<and>
    verify_trust_history_artifact demo_trust_sha demo_fingerprint art = Inr (''ed25519-k'', h, n)"
  using fresh_trust_artifact_verifies [OF demo_revoked] by blast

text \<open>The offline verifier accepts exactly the valid chains.\<close>

lemma verify_artifact_history_Inr:
  "verify_artifact_history sha k p evs = Inr h \<Longrightarrow>
     chain_valid (trust_hash sha) p (map (artifact_link k) evs) \<and> h = chain_head p (map (artifact_link k) evs)"
proof (induction evs arbitrary: p)
  case (Cons ev evs)
  from Cons.prems obtain e where ev: "ev = JObj e" by (cases ev) auto
  let ?h = "history_event_hash sha k (json_get e ''from_status'') (json_get e ''to_status'')
      (json_get e ''occurred_at'') (json_get e ''reason'') p"
  from Cons.prems have "json_get e ''prev_hash'' = JStr p" and eh: "json_get e ''event_hash'' = JStr ?h"
    and rest: "verify_artifact_history sha k ?h evs = Inr h"
    by (auto simp: ev Let_def split: if_splits)
  then have "lk_prev (artifact_link k ev) = p" and "lk_hash (artifact_link k ev) = ?h"
    and "trust_hash sha (lk_event (artifact_link k ev)) p = ?h"
    by (simp_all add: artifact_link_def ev artifact_event_get_def json_text_def trust_body_def history_event_hash_def)
  with Cons.IH [OF rest] show ?case by simp
qed simp

lemma verify_trust_history_artifact_Inr:
  assumes "verify_trust_history_artifact sha shab (JObj a) = Inr (k, h, n)"
  obtains evs where "json_get a ''history'' = JArr evs" "n = length evs"
    "chain_valid (trust_hash sha) genesis_hash (map (artifact_link k) evs)"
    "h = chain_head genesis_hash (map (artifact_link k) evs)"
    "artifact_event_get (last evs) ''to_status'' = json_get a ''status''"
proof (cases "json_get a ''history''")
  case (JArr evs)
  from assms have ver: "verify_artifact_history sha k genesis_hash evs = Inr h" and n: "n = length evs"
    and st: "artifact_event_get (last evs) ''to_status'' = json_get a ''status''"
    by (auto simp: verify_trust_history_artifact_def bindR_Inr_iff JArr split: if_splits)
  from verify_artifact_history_Inr [OF ver] n st JArr that show ?thesis by blast
qed (use assms in \<open>auto simp: verify_trust_history_artifact_def bindR_Inr_iff\<close>)

definition artifact_events :: "json \<Rightarrow> json list" where
  "artifact_events art = (case art of JObj a \<Rightarrow> (case json_get a ''history'' of JArr evs \<Rightarrow> evs | _ \<Rightarrow> []) | _ \<Rightarrow> [])"

definition artifact_field :: "json \<Rightarrow> string \<Rightarrow> json" where
  "artifact_field art f = (case art of JObj a \<Rightarrow> json_get a f | _ \<Rightarrow> JNull)"

text \<open>
  C38: the head hash of a trust artifact commits the attestor's whole history and its
  status. Two artifacts that the offline verifier accepts for the same attestor with the
  same head agree on every event and on the status, provided SHA-256 does not collide on
  the texts that occur in them.
\<close>

theorem trust_artifact_tamper_evident:
  assumes art: "verify_trust_history_artifact sha shab art = Inr (k, h, n)"
    and art': "verify_trust_history_artifact sha shab art' = Inr (k, h, n')"
    and wf: "\<forall>l \<in> artifact_link k ` set (artifact_events art @ artifact_events art'). trust_wf (lk_event l)"
    and good: "digest_good_on sha genesis_hash
      (link_bodies trust_body (map (artifact_link k) (artifact_events art)) \<union>
       link_bodies trust_body (map (artifact_link k) (artifact_events art')))"
  shows "n = n' \<and> map (artifact_link k) (artifact_events art) = map (artifact_link k) (artifact_events art') \<and>
    artifact_field art ''status'' = artifact_field art' ''status''"
proof -
  obtain a where a: "art = JObj a"
    using art by (cases art) (auto simp: verify_trust_history_artifact_def)
  obtain a' where a': "art' = JObj a'"
    using art' by (cases art') (auto simp: verify_trust_history_artifact_def)
  from art [unfolded a] obtain evs where evs: "json_get a ''history'' = JArr evs" "n = length evs"
    "chain_valid (trust_hash sha) genesis_hash (map (artifact_link k) evs)"
    "h = chain_head genesis_hash (map (artifact_link k) evs)"
    "artifact_event_get (last evs) ''to_status'' = json_get a ''status''"
    by (rule verify_trust_history_artifact_Inr)
  from art' [unfolded a'] obtain evs' where evs': "json_get a' ''history'' = JArr evs'" "n' = length evs'"
    "chain_valid (trust_hash sha) genesis_hash (map (artifact_link k) evs')"
    "h = chain_head genesis_hash (map (artifact_link k) evs')"
    "artifact_event_get (last evs') ''to_status'' = json_get a' ''status''"
    by (rule verify_trust_history_artifact_Inr)
  have events: "artifact_events art = evs" "artifact_events art' = evs'"
    by (simp_all add: a a' artifact_events_def evs(1) evs'(1))
  have links: "map (artifact_link k) evs = map (artifact_link k) evs'"
  proof (rule trust_chain.head_determines_chain [OF evs(3) evs'(3)])
    show "\<forall>l \<in> set (map (artifact_link k) evs) \<union> set (map (artifact_link k) evs'). trust_wf (lk_event l)"
      using wf by (auto simp: events)
    show "digest_good_on sha genesis_hash (link_bodies trust_body (map (artifact_link k) evs) \<union>
        link_bodies trust_body (map (artifact_link k) evs'))"
      using good by (simp add: events)
    show "chain_head genesis_hash (map (artifact_link k) evs) = chain_head genesis_hash (map (artifact_link k) evs')"
      using evs(4) evs'(4) by simp
  qed
  then have len: "length evs = length evs'" by (rule map_eq_imp_length_eq)
  have to: "artifact_event_get (last es) ''to_status'' =
      fst (snd (snd (lk_event (last (map (artifact_link k) es)))))" if "es \<noteq> []" for es
    using that by (simp add: last_map artifact_link_def)
  have ne: "evs \<noteq> []" using art by (auto simp: a verify_trust_history_artifact_def bindR_Inr_iff evs(1) split: if_splits)
  then have "evs' \<noteq> []" using len by auto
  with ne have "json_get a ''status'' = json_get a' ''status''"
    using to [of evs] to [of evs'] links evs(5) evs'(5) by simp
  with links len show ?thesis unfolding events by (simp add: evs(2) evs'(2) artifact_field_def a a')
qed

text \<open>The witness: the artifact of one registration, against itself.\<close>

definition one_event_history :: json where
  "one_event_history = JArr [JObj [(''from_status'', JNull), (''to_status'', JStr ''ACTIVE''), (''occurred_at'', JStr ''t0''),
     (''reason'', JStr ''registered''), (''prev_hash'', JStr genesis_hash), (''event_hash'', JStr ''h'')]]"

definition one_event_trust_artifact :: "string \<Rightarrow> json" where
  "one_event_trust_artifact nm = JObj [(''schema_version'', JStr trust_schema_version), (''key_id'', JStr ''ed25519-k''),
     (''public_key'', JStr demo_key), (''name'', JStr nm), (''enabled'', JBool True), (''status'', JStr ''ACTIVE''),
     (''history'', one_event_history), (''head_hash'', JStr ''h'')]"

lemma one_event_trust_artifact_valid:
  "verify_trust_history_artifact (\<lambda>_. ''h'') demo_fingerprint (one_event_trust_artifact ''lab'') = Inr (''ed25519-k'', ''h'', 1)"
  "verify_trust_history_artifact (\<lambda>_. ''h'') demo_fingerprint (one_event_trust_artifact ''other'') = Inr (''ed25519-k'', ''h'', 1)"
  by code_simp+

theorem trust_artifact_tamper_evident_witness:
  "artifact_field (one_event_trust_artifact ''lab'') ''status'' = artifact_field (one_event_trust_artifact ''other'') ''status''"
proof -
  have events: "artifact_events (one_event_trust_artifact nm) = (case one_event_history of JArr evs \<Rightarrow> evs | _ \<Rightarrow> [])" for nm
    by (simp add: artifact_events_def one_event_trust_artifact_def json_get_Cons)
  have "digest_good_on (\<lambda>_. ''h'') genesis_hash {b}" for b
    by (simp add: digest_good_on_def genesis_hash_def numeral_eq_Suc)
  then show ?thesis
    using trust_artifact_tamper_evident [OF one_event_trust_artifact_valid]
    by (simp add: events one_event_history_def link_bodies_def artifact_link_def artifact_event_get_def
        json_get_Cons trust_wf_def)
qed

section \<open>What the cache and the artifact do not cover\<close>

text \<open>
  The name of the attestor and its enabled flag are not committed by the head hash, so the
  two artifacts above, with different names, are both accepted. A registry opened before
  the revocation by another process still accepts the attestor.
\<close>

theorem stale_registry_accepts_revoked:
  "let s = trust_run demo_trust_sha demo_fingerprint
      [OpenRegistry 0, Register 0 demo_attestor ''t0'', OpenRegistry 1,
       Transition 1 ''ed25519-k'' ''REVOKED'' ''key lost'' ''t1'']
   in trust_status (ts_db s) ''ed25519-k'' = Some ''REVOKED'' \<and>
      registry_require (ts_reg s 0) ''ed25519-k'' demo_key = Inr demo_attestor"
  by code_simp

text \<open>
  The store compares the expected status only, so a registry whose cache missed a suspension
  and a reactivation commits its next transition, and its cached history then links to the
  wrong event: it exports an artifact that the offline verifier rejects.
\<close>

theorem stale_cache_exports_invalid_artifact:
  "let s = trust_run demo_trust_sha demo_fingerprint
      [OpenRegistry 0, Register 0 demo_attestor ''t0'', OpenRegistry 1,
       Transition 1 ''ed25519-k'' ''SUSPENDED'' ''audit'' ''t1'', Transition 1 ''ed25519-k'' ''ACTIVE'' ''done'' ''t2'',
       Transition 0 ''ed25519-k'' ''SUSPENDED'' ''audit'' ''t3'']
   in (case export_trust_history_artifact demo_trust_sha (ts_reg s 0) (Some (ts_db s)) ''ed25519-k'' of
         Inr art \<Rightarrow> verify_trust_history_artifact demo_trust_sha demo_fingerprint art =
            raise RecoveryTrustError ''trust_history_event_hash_mismatch''
       | Inl _ \<Rightarrow> False)"
  by code_simp

end
