(* ===== verification/Authority.thy ===== *)
theory Authority
  imports Lifecycle
begin

text \<open>
  Dynamic authority of an agent (\<^verbatim>\<open>src/shared/authority_transition.py\<close>,
  \<^verbatim>\<open>src/shared/authority_state.py\<close>, \<^verbatim>\<open>src/shared/agent_authority.py\<close>): the transition policy, the
  state machine, its SQLite store and the registry with its authority epochs. The handlers
  of the registry read a snapshot of the database and write later; the \<open>_at\<close> variants take
  the two separately.
\<close>

section \<open>The transition policy\<close>

datatype authority_state = PROBATION | LIMITED | STANDARD | ELEVATED | SUSPENDED

fun authority_state_value :: "authority_state \<Rightarrow> string" where
  "authority_state_value PROBATION = ''PROBATION''"
| "authority_state_value LIMITED = ''LIMITED''"
| "authority_state_value STANDARD = ''STANDARD''"
| "authority_state_value ELEVATED = ''ELEVATED''"
| "authority_state_value SUSPENDED = ''SUSPENDED''"

definition parse_authority_state :: "string \<Rightarrow> authority_state option" where
  "parse_authority_state s =
     find (\<lambda>a. authority_state_value a = s) [PROBATION, LIMITED, STANDARD, ELEVATED, SUSPENDED]"

record transition_policy =
  tp_min_trusted :: int
  tp_max_failed :: int
  tp_governance :: bool

definition default_transition_policy :: transition_policy where
  "default_transition_policy = \<lparr>tp_min_trusted = 3, tp_max_failed = 0, tp_governance = True\<rparr>"

definition new_transition_policy :: "int \<Rightarrow> int \<Rightarrow> bool \<Rightarrow> transition_policy result" where
  "new_transition_policy min_trusted max_failed governance =
    (if min_trusted < 1 then raise AuthorityTransitionPolicyError ''invalid_trusted_threshold''
     else if max_failed < 0 then raise AuthorityTransitionPolicyError ''invalid_failed_threshold''
     else Inr \<lparr>tp_min_trusted = min_trusted, tp_max_failed = max_failed, tp_governance = governance\<rparr>)"

definition evaluate_trusted :: "string \<Rightarrow> string \<times> string" where
  "evaluate_trusted current =
    (if current = ''SUSPENDED'' then (''SUSPENDED'', ''suspended_requires_governance_reset'')
     else if current = ''ELEVATED'' then (''ELEVATED'', ''elevated_authority_requires_governance_change'')
     else (''STANDARD'', ''trusted_attested_outcome''))"

definition can_governance_promote_elevated :: "transition_policy \<Rightarrow> int \<Rightarrow> int \<Rightarrow> bool" where
  "can_governance_promote_elevated pol trusted failed \<longleftrightarrow>
     tp_governance pol \<and> tp_min_trusted pol \<le> trusted \<and> failed \<le> tp_max_failed pol"

section \<open>The state machine\<close>

record authority_transition =
  tr_previous :: string
  tr_new :: string
  tr_reason :: string
  tr_proof_id :: string
  tr_agent_id :: string

record authority_machine =
  am_agent_id :: string
  am_state :: authority_state
  am_trusted :: int
  am_failed :: int
  am_last_proof :: string
  am_history :: "authority_transition list"
  am_policy :: transition_policy

definition new_machine :: "string \<Rightarrow> transition_policy option \<Rightarrow> authority_machine result" where
  "new_machine agent pol =
    (if agent = [] then raise AuthorityStateError ''agent_id_required''
     else Inr \<lparr>am_agent_id = agent, am_state = PROBATION, am_trusted = 0, am_failed = 0, am_last_proof = [],
       am_history = [], am_policy = (case pol of None \<Rightarrow> default_transition_policy | Some p \<Rightarrow> p)\<rparr>)"

text \<open>What the machine reads of a trust decision: its status and its proof id.\<close>

record trust_decision =
  td_status :: string
  td_proof_id :: string

text \<open>Recording a transition: the state and the history move together.\<close>

definition enter_state :: "authority_machine \<Rightarrow> authority_state \<Rightarrow> string \<Rightarrow> string \<Rightarrow>
    authority_transition \<times> authority_machine" where
  "enter_state m new reason proof =
    (let t = \<lparr>tr_previous = authority_state_value (am_state m), tr_new = authority_state_value new,
              tr_reason = reason, tr_proof_id = proof, tr_agent_id = am_agent_id m\<rparr>
     in (t, m\<lparr>am_state := new, am_history := am_history m @ [t]\<rparr>))"

definition apply_trust :: "authority_machine \<Rightarrow> trust_decision option \<Rightarrow> (authority_transition \<times> authority_machine) result" where
  "apply_trust m decision =
    (case decision of
       None \<Rightarrow> raise AuthorityStateError ''trust_decision_required''
     | Some d \<Rightarrow>
        if td_proof_id d = [] then raise AuthorityStateError ''proof_id_required''
        else if td_status d = ''TRUSTED'' then
          (let m' = m\<lparr>am_trusted := am_trusted m + 1, am_last_proof := td_proof_id d\<rparr>;
               (value, reason) = evaluate_trusted (authority_state_value (am_state m))
           in (case parse_authority_state value of
                 None \<Rightarrow> raise ValueError ''not a valid AuthorityState''
               | Some new \<Rightarrow> Inr (enter_state m' new reason (td_proof_id d))))
        else if td_status d = ''EXPIRED'' then
          Inr (enter_state (m\<lparr>am_last_proof := td_proof_id d\<rparr>) LIMITED ''attestation_expired'' (td_proof_id d))
        else if td_status d = ''UNTRUSTED'' then
          Inr (enter_state (m\<lparr>am_failed := am_failed m + 1, am_last_proof := td_proof_id d\<rparr>) LIMITED
                 ''untrusted_outcome'' (td_proof_id d))
        else raise AuthorityStateError ''unknown_trust_status'')"

definition promote_elevated :: "authority_machine \<Rightarrow> string \<Rightarrow> string \<Rightarrow> (authority_transition \<times> authority_machine) result" where
  "promote_elevated m reason proof =
    (if reason = [] then raise AuthorityStateError ''promotion_reason_required''
     else if am_state m = SUSPENDED then raise AuthorityStateError ''suspended_requires_governance_reset''
     else if \<not> can_governance_promote_elevated (am_policy m) (am_trusted m) (am_failed m)
     then raise AuthorityStateError ''elevated_conditions_not_met''
     else Inr (enter_state (if proof \<noteq> [] then m\<lparr>am_last_proof := proof\<rparr> else m) ELEVATED reason proof))"

definition machine_suspend :: "authority_machine \<Rightarrow> string \<Rightarrow> (authority_transition \<times> authority_machine) result" where
  "machine_suspend m reason =
    (if reason = [] then raise AuthorityStateError ''suspension_reason_required''
     else Inr (enter_state m SUSPENDED reason []))"

definition machine_reset :: "authority_machine \<Rightarrow> authority_transition \<times> authority_machine" where
  "machine_reset m = enter_state (m\<lparr>am_trusted := 0, am_failed := 0, am_last_proof := []\<rparr>) PROBATION
     ''governance_reset'' []"

section \<open>The store\<close>

record state_row =
  sr_agent_id :: string
  sr_state :: string
  sr_trusted :: int
  sr_failed :: int
  sr_last_proof :: string

record authority_row =
  gr_agent_id :: string
  gr_policy_version :: string
  gr_epoch :: int

text \<open>The three tables; transitions in the order of their AUTOINCREMENT id.\<close>

record authority_db =
  ad_states :: "state_row list"
  ad_transitions :: "authority_transition list"
  ad_registry :: "authority_row list"

definition empty_authority_db :: authority_db where
  "empty_authority_db = \<lparr>ad_states = [], ad_transitions = [], ad_registry = []\<rparr>"

definition authority_load :: "authority_db \<Rightarrow> string \<Rightarrow> authority_machine result" where
  "authority_load db agent =
    (if agent = [] then raise AuthorityStateError ''agent_id_required''
     else
       (case lookup_row sr_agent_id (ad_states db) agent of
          None \<Rightarrow> new_machine agent None
        | Some row \<Rightarrow>
           (case parse_authority_state (sr_state row) of
              None \<Rightarrow> raise AuthorityStateError ''invalid_persisted_state''
            | Some st \<Rightarrow>
               bindR (new_machine agent None) (\<lambda>m. Inr (m\<lparr>am_agent_id := sr_agent_id row, am_state := st,
                 am_trusted := sr_trusted row, am_failed := sr_failed row, am_last_proof := sr_last_proof row,
                 am_history := map (\<lambda>t. t\<lparr>tr_agent_id := agent\<rparr>)
                   (filter (\<lambda>t. tr_agent_id t = agent) (ad_transitions db))\<rparr>)))))"

text \<open>INSERT ... ON CONFLICT(agent_id) DO UPDATE.\<close>

definition upsert_state :: "state_row \<Rightarrow> state_row list \<Rightarrow> state_row list" where
  "upsert_state row tab =
    (if lookup_row sr_agent_id tab (sr_agent_id row) = None then tab @ [row]
     else update_where (\<lambda>r. sr_agent_id r = sr_agent_id row) (\<lambda>_. row) tab)"

definition authority_save :: "authority_db \<Rightarrow> authority_machine \<Rightarrow> authority_db" where
  "authority_save db m = db\<lparr>
     ad_states := upsert_state \<lparr>sr_agent_id = am_agent_id m, sr_state = authority_state_value (am_state m),
       sr_trusted = am_trusted m, sr_failed = am_failed m, sr_last_proof = am_last_proof m\<rparr> (ad_states db),
     ad_transitions := filter (\<lambda>t. tr_agent_id t \<noteq> am_agent_id m) (ad_transitions db) @ am_history m\<rparr>"

section \<open>The registry\<close>

record agent_authority =
  aa_agent_id :: string
  aa_policy_version :: string
  aa_state :: authority_state
  aa_trusted :: int
  aa_failed :: int
  aa_last_proof :: string
  aa_epoch :: int

definition authority_get :: "authority_db \<Rightarrow> string \<Rightarrow> agent_authority result" where
  "authority_get db agent =
    (if agent = [] then raise AgentAuthorityError ''agent_id_required''
     else
       (case lookup_row gr_agent_id (ad_registry db) agent of
          None \<Rightarrow> raise AgentAuthorityError ''agent_not_registered''
        | Some row \<Rightarrow>
            bindR (authority_load db agent) (\<lambda>m.
              Inr \<lparr>aa_agent_id = gr_agent_id row, aa_policy_version = gr_policy_version row,
                aa_state = am_state m, aa_trusted = am_trusted m, aa_failed = am_failed m,
                aa_last_proof = am_last_proof m, aa_epoch = gr_epoch row\<rparr>)))"

text \<open>\<open>default_version\<close> is the version of the registry's capability policy.\<close>

definition authority_register :: "transition_policy \<Rightarrow> string \<Rightarrow> authority_db \<Rightarrow> string \<Rightarrow> string option \<Rightarrow>
    (agent_authority \<times> authority_db) result" where
  "authority_register pol default_version db agent version =
    (if agent = [] then raise AgentAuthorityError ''agent_id_required''
     else if lookup_row gr_agent_id (ad_registry db) agent \<noteq> None
     then bindR (authority_get db agent) (\<lambda>a. Inr (a, db))
     else
       (let v = (case version of None \<Rightarrow> default_version | Some v \<Rightarrow> if v = [] then default_version else v)
        in bindR (new_machine agent (Some pol)) (\<lambda>m.
             let db' = authority_save db m;
                 db'' = db'\<lparr>ad_registry := ad_registry db' @
                   [\<lparr>gr_agent_id = agent, gr_policy_version = v, gr_epoch = 1\<rparr>]\<rparr>
             in bindR (authority_get db'' agent) (\<lambda>a. Inr (a, db'')))))"

definition load_machine :: "transition_policy \<Rightarrow> authority_db \<Rightarrow> string \<Rightarrow> authority_machine result" where
  "load_machine pol db agent = bindR (authority_get db agent) (\<lambda>_.
     bindR (authority_load db agent) (\<lambda>m. Inr (m\<lparr>am_policy := pol\<rparr>)))"

definition increment_epoch :: "string \<Rightarrow> authority_db \<Rightarrow> authority_db" where
  "increment_epoch agent db = db\<lparr>ad_registry :=
     update_where (\<lambda>r. gr_agent_id r = agent) (\<lambda>r. r\<lparr>gr_epoch := gr_epoch r + 1\<rparr>) (ad_registry db)\<rparr>"

text \<open>The machine is loaded from \<open>snap\<close>; save, epoch and the final read go to \<open>db\<close>.\<close>

definition record_trust_at :: "transition_policy \<Rightarrow> authority_db \<Rightarrow> authority_db \<Rightarrow> string \<Rightarrow> trust_decision option \<Rightarrow>
    (authority_transition \<times> authority_db) result" where
  "record_trust_at pol snap db agent decision =
    bindR (load_machine pol snap agent) (\<lambda>m.
    bindR (apply_trust m decision) (\<lambda>(t, m').
      let db' = authority_save db m';
          db'' = (if tr_new t \<noteq> authority_state_value (am_state m) then increment_epoch agent db' else db')
      in bindR (authority_get db'' agent) (\<lambda>_. Inr (t, db''))))"

definition governance_promote_at :: "transition_policy \<Rightarrow> authority_db \<Rightarrow> authority_db \<Rightarrow> string \<Rightarrow> string \<Rightarrow> string \<Rightarrow>
    (authority_transition \<times> authority_db) result" where
  "governance_promote_at pol snap db agent reason proof =
    bindR (load_machine pol snap agent) (\<lambda>m.
    bindR (promote_elevated m reason proof) (\<lambda>(t, m').
      let db' = increment_epoch agent (authority_save db m')
      in bindR (authority_get db' agent) (\<lambda>_. Inr (t, db'))))"

definition registry_suspend_at :: "transition_policy \<Rightarrow> authority_db \<Rightarrow> authority_db \<Rightarrow> string \<Rightarrow> string \<Rightarrow>
    (authority_transition \<times> authority_db) result" where
  "registry_suspend_at pol snap db agent reason =
    bindR (load_machine pol snap agent) (\<lambda>m.
    bindR (machine_suspend m reason) (\<lambda>(t, m').
      let db' = increment_epoch agent (authority_save db m')
      in bindR (authority_get db' agent) (\<lambda>_. Inr (t, db'))))"

definition registry_reset_at :: "transition_policy \<Rightarrow> authority_db \<Rightarrow> authority_db \<Rightarrow> string \<Rightarrow> string \<Rightarrow>
    (authority_transition \<times> authority_db) result" where
  "registry_reset_at pol snap db agent reason =
    (if reason = [] then raise AgentAuthorityError ''reset_reason_required''
     else
       bindR (load_machine pol snap agent) (\<lambda>m.
         let (t, m') = machine_reset m;
             db' = increment_epoch agent (authority_save db m')
         in bindR (authority_get db' agent) (\<lambda>_. Inr (t, db'))))"

definition rotate_policy :: "authority_db \<Rightarrow> string \<Rightarrow> string \<Rightarrow> (agent_authority \<times> authority_db) result" where
  "rotate_policy db agent version =
    (if version = [] then raise AgentAuthorityError ''policy_version_required''
     else
       bindR (authority_get db agent) (\<lambda>_.
         let db' = db\<lparr>ad_registry := update_where (\<lambda>r. gr_agent_id r = agent)
               (\<lambda>r. r\<lparr>gr_policy_version := version, gr_epoch := gr_epoch r + 1\<rparr>) (ad_registry db)\<rparr>
         in bindR (authority_get db' agent) (\<lambda>a. Inr (a, db'))))"

end
