(* ===== verification/AuthorityRuns.thy ===== *)
theory AuthorityRuns
  imports Authority
begin

text \<open>
  What the authority registry guarantees: what is saved is what is loaded, the stored log
  of transitions replays to the current state, elevated authority always meets the policy's
  thresholds, and the authority epoch changes with the state. Two ways in which a
  suspension is lost are shown at the end.
\<close>

section \<open>Machines\<close>

fun log_path :: "string \<Rightarrow> authority_transition list \<Rightarrow> bool" where
  "log_path p [] = True"
| "log_path p (t # ts) = (tr_previous t = p \<and> log_path (tr_new t) ts)"

definition log_end :: "string \<Rightarrow> authority_transition list \<Rightarrow> string" where
  "log_end p ts = (if ts = [] then p else tr_new (last ts))"

lemma log_path_snoc [simp]: "log_path p (ts @ [t]) \<longleftrightarrow> log_path p ts \<and> tr_previous t = log_end p ts"
  by (induction ts arbitrary: p) (auto simp: log_end_def)

lemma log_end_simps [simp]: "log_end p [] = p" "log_end p (ts @ [t]) = tr_new t"
  by (simp_all add: log_end_def)

lemma parse_authority_value [simp]: "parse_authority_state (authority_state_value a) = Some a"
  by (cases a) (simp_all add: parse_authority_state_def)

lemma parse_authority_SomeD: "parse_authority_state s = Some a \<Longrightarrow> s = authority_state_value a"
  by (auto simp: parse_authority_state_def split: if_splits)

lemma authority_value_inj: "authority_state_value a = authority_state_value b \<longleftrightarrow> a = b"
  using parse_authority_value by (metis option.inject)

definition machine_ok :: "transition_policy \<Rightarrow> authority_machine \<Rightarrow> bool" where
  "machine_ok pol m \<longleftrightarrow> am_agent_id m \<noteq> [] \<and>
     (am_state m = ELEVATED \<longrightarrow> can_governance_promote_elevated pol (am_trusted m) (am_failed m)) \<and>
     log_path ''PROBATION'' (am_history m) \<and>
     log_end ''PROBATION'' (am_history m) = authority_state_value (am_state m) \<and>
     (\<forall>t \<in> set (am_history m). tr_agent_id t = am_agent_id m)"

lemma machine_ok_policy [simp]: "machine_ok pol (m\<lparr>am_policy := p\<rparr>) = machine_ok pol m"
  by (simp add: machine_ok_def)

lemma new_machine_ok: "new_machine agent p = Inr m \<Longrightarrow> machine_ok pol m"
  by (auto simp: new_machine_def machine_ok_def split: if_splits)

text \<open>The common shape of the four transitions: counters change, then one state is entered.\<close>

lemma enter_state_ok:
  assumes "machine_ok pol m" and "enter_state m1 new reason proof = (t, m')"
    and "am_agent_id m1 = am_agent_id m" and "am_state m1 = am_state m" and "am_history m1 = am_history m"
    and "new = ELEVATED \<Longrightarrow> can_governance_promote_elevated pol (am_trusted m1) (am_failed m1)"
  shows "machine_ok pol m'" and "am_agent_id m' = am_agent_id m" and "am_state m' = new"
    and "tr_new t = authority_state_value new" and "am_trusted m' = am_trusted m1" and "am_failed m' = am_failed m1"
    and "am_history m' = am_history m @ [t]"
  using assms by (auto simp: enter_state_def Let_def machine_ok_def)

definition trust_next :: "authority_state \<Rightarrow> string \<Rightarrow> authority_state" where
  "trust_next a status =
    (if status = ''TRUSTED'' then (if a = SUSPENDED \<or> a = ELEVATED then a else STANDARD) else LIMITED)"

lemma evaluate_trusted_value:
  "\<exists>reason. evaluate_trusted (authority_state_value a) = (authority_state_value (trust_next a ''TRUSTED''), reason)"
  by (cases a) (simp_all add: evaluate_trusted_def trust_next_def)

lemma apply_trust_ok:
  assumes ok: "machine_ok pol m" and pol: "am_policy m = pol" and step: "apply_trust m decision = Inr (t, m')"
  shows "machine_ok pol m'" and "am_agent_id m' = am_agent_id m"
    and "\<exists>d. decision = Some d \<and> am_state m' = trust_next (am_state m) (td_status d)"
    and "tr_new t = authority_state_value (am_state m')" and "am_history m' = am_history m @ [t]"
proof -
  obtain reason where ev: "evaluate_trusted (authority_state_value (am_state m)) =
      (authority_state_value (trust_next (am_state m) ''TRUSTED''), reason)"
    using evaluate_trusted_value by blast
  from step obtain d where d: "decision = Some d" by (auto simp: apply_trust_def split: option.splits)
  obtain m1 r where enter: "enter_state m1 (trust_next (am_state m) (td_status d)) r (td_proof_id d) = (t, m')"
    and same: "am_agent_id m1 = am_agent_id m" "am_state m1 = am_state m" "am_history m1 = am_history m"
    and counts: "trust_next (am_state m) (td_status d) = ELEVATED \<Longrightarrow>
      am_state m = ELEVATED \<and> am_trusted m1 = am_trusted m + 1 \<and> am_failed m1 = am_failed m"
  proof (cases "td_status d = ''TRUSTED''")
    case True
    let ?m1 = "m\<lparr>am_trusted := am_trusted m + 1, am_last_proof := td_proof_id d\<rparr>"
    have "enter_state ?m1 (trust_next (am_state m) ''TRUSTED'') reason (td_proof_id d) = (t, m')"
      using step True by (simp add: apply_trust_def d ev split: if_splits)
    then have en: "enter_state ?m1 (trust_next (am_state m) (td_status d)) reason (td_proof_id d) = (t, m')"
      by (simp only: True)
    have "trust_next (am_state m) (td_status d) = ELEVATED \<Longrightarrow> am_state m = ELEVATED"
      by (simp add: trust_next_def True split: if_splits)
    with en show ?thesis by (intro that [of ?m1 reason]) simp_all
  next
    case False
    then have nxt: "trust_next (am_state m) (td_status d) = LIMITED" by (simp add: trust_next_def)
    show ?thesis
    proof (cases "td_status d = ''EXPIRED''")
      case True
      let ?m1 = "m\<lparr>am_last_proof := td_proof_id d\<rparr>"
      have "enter_state ?m1 LIMITED ''attestation_expired'' (td_proof_id d) = (t, m')"
        using step True by (simp add: apply_trust_def d split: if_splits)
      with nxt that [of ?m1] show ?thesis by simp
    next
      case nexp: False
      let ?m1 = "m\<lparr>am_failed := am_failed m + 1, am_last_proof := td_proof_id d\<rparr>"
      have "enter_state ?m1 LIMITED ''untrusted_outcome'' (td_proof_id d) = (t, m')"
        using step False nexp by (simp add: apply_trust_def d split: if_splits)
      with nxt that [of ?m1] show ?thesis by simp
    qed
  qed
  have "trust_next (am_state m) (td_status d) = ELEVATED \<Longrightarrow>
      can_governance_promote_elevated pol (am_trusted m1) (am_failed m1)"
    using counts ok by (auto simp: machine_ok_def can_governance_promote_elevated_def)
  note en = enter_state_ok [OF ok enter same this]
  show "machine_ok pol m'" "am_agent_id m' = am_agent_id m"
    "\<exists>d. decision = Some d \<and> am_state m' = trust_next (am_state m) (td_status d)"
    "tr_new t = authority_state_value (am_state m')" "am_history m' = am_history m @ [t]"
    using en d by simp_all
qed

lemma promote_elevated_ok:
  assumes ok: "machine_ok pol m" and pol: "am_policy m = pol" and step: "promote_elevated m reason proof = Inr (t, m')"
  shows "machine_ok pol m'" and "am_agent_id m' = am_agent_id m" and "am_state m' = ELEVATED"
    and "am_state m \<noteq> SUSPENDED" and "tr_new t = authority_state_value (am_state m')"
proof -
  let ?m1 = "if proof \<noteq> [] then m\<lparr>am_last_proof := proof\<rparr> else m"
  from step pol have enter: "enter_state ?m1 ELEVATED reason proof = (t, m')"
    and can: "can_governance_promote_elevated pol (am_trusted m) (am_failed m)" and ns: "am_state m \<noteq> SUSPENDED"
    by (auto simp: promote_elevated_def split: if_splits)
  have "can_governance_promote_elevated pol (am_trusted ?m1) (am_failed ?m1)" using can by simp
  note en = enter_state_ok [OF ok enter _ _ _ this]
  show "machine_ok pol m'" "am_agent_id m' = am_agent_id m" "am_state m' = ELEVATED"
    "am_state m \<noteq> SUSPENDED" "tr_new t = authority_state_value (am_state m')"
    using en ns by simp_all
qed

lemma machine_suspend_ok:
  assumes "machine_ok pol m" and "machine_suspend m reason = Inr (t, m')"
  shows "machine_ok pol m'" and "am_agent_id m' = am_agent_id m" and "am_state m' = SUSPENDED"
    and "tr_new t = authority_state_value (am_state m')"
  using enter_state_ok [OF assms(1), of m SUSPENDED reason "[]" t m'] assms(2)
  by (auto simp: machine_suspend_def split: if_splits)

lemma machine_reset_ok:
  assumes "machine_ok pol m" and "machine_reset m = (t, m')"
  shows "machine_ok pol m'" and "am_agent_id m' = am_agent_id m" and "am_state m' = PROBATION"
    and "tr_new t = authority_state_value (am_state m')"
  using enter_state_ok [OF assms(1), of "m\<lparr>am_trusted := 0, am_failed := 0, am_last_proof := []\<rparr>" PROBATION
      "''governance_reset''" "[]" t m'] assms(2)
  by (auto simp: machine_reset_def)

text \<open>What the registry relies on of a transition of the machine.\<close>

definition handler_ok :: "transition_policy \<Rightarrow>
    (authority_machine \<Rightarrow> (authority_transition \<times> authority_machine) result) \<Rightarrow> bool" where
  "handler_ok pol f \<longleftrightarrow> (\<forall>m m' t. machine_ok pol m \<longrightarrow> am_policy m = pol \<longrightarrow> f m = Inr (t, m') \<longrightarrow>
     machine_ok pol m' \<and> am_agent_id m' = am_agent_id m \<and> tr_new t = authority_state_value (am_state m'))"

lemma handler_okI:
  assumes "\<And>m m' t. machine_ok pol m \<Longrightarrow> am_policy m = pol \<Longrightarrow> f m = Inr (t, m') \<Longrightarrow>
    machine_ok pol m' \<and> am_agent_id m' = am_agent_id m \<and> tr_new t = authority_state_value (am_state m')"
  shows "handler_ok pol f"
  using assms unfolding handler_ok_def by blast

section \<open>Saving and loading\<close>

lemma upsert_state_lookup:
  "lookup_row sr_agent_id (upsert_state row tab) k =
     (if k = sr_agent_id row then Some row else lookup_row sr_agent_id tab k)"
proof (cases "lookup_row sr_agent_id tab (sr_agent_id row)")
  case None
  then show ?thesis by (auto simp: upsert_state_def table_simps split: option.splits)
next
  case (Some r)
  then have up: "upsert_state row tab = update_where (\<lambda>r. sr_agent_id r = sr_agent_id row) (\<lambda>_. row) tab"
    by (simp add: upsert_state_def)
  have look: "lookup_row sr_agent_id (upsert_state row tab) k = map_option (\<lambda>r. if sr_agent_id r = sr_agent_id row then row else r)
      (lookup_row sr_agent_id tab k)"
    unfolding up by (rule lookup_row_update_where) simp
  show ?thesis
  proof (cases "lookup_row sr_agent_id tab k")
    case None
    with Some look show ?thesis by auto
  next
    case (Some x)
    then have "sr_agent_id x = k" by (blast dest: lookup_row_SomeD)
    with look Some show ?thesis by simp
  qed
qed

lemma upsert_state_unique: "key_unique sr_agent_id tab \<Longrightarrow> key_unique sr_agent_id (upsert_state row tab)"
  by (simp add: upsert_state_def)

lemma authority_load_save:
  assumes "am_agent_id m \<noteq> []" and "\<forall>t \<in> set (am_history m). tr_agent_id t = am_agent_id m"
  shows "authority_load (authority_save db m) (am_agent_id m) = Inr (m\<lparr>am_policy := default_transition_policy\<rparr>)"
proof -
  have hist: "map (\<lambda>t. t\<lparr>tr_agent_id := am_agent_id m\<rparr>)
      (filter (\<lambda>t. tr_agent_id t = am_agent_id m)
        (filter (\<lambda>t. tr_agent_id t \<noteq> am_agent_id m) (ad_transitions db) @ am_history m)) = am_history m"
    using assms(2) by (simp add: filter_id_conv map_idI)
  show ?thesis
    using assms(1) hist
    by (simp add: authority_load_def authority_save_def upsert_state_lookup new_machine_def)
qed

lemma authority_load_save_other:
  assumes "agent \<noteq> am_agent_id m" and "\<forall>t \<in> set (am_history m). tr_agent_id t = am_agent_id m"
  shows "authority_load (authority_save db m) agent = authority_load db agent"
proof -
  have none: "filter (\<lambda>t. tr_agent_id t = agent) (am_history m) = []"
    using assms by (auto simp: filter_empty_conv)
  have rows: "filter (\<lambda>t. tr_agent_id t = agent) (filter (\<lambda>t. tr_agent_id t \<noteq> am_agent_id m) ts) =
      filter (\<lambda>t. tr_agent_id t = agent) ts" for ts
    unfolding filter_filter using assms(1) by (intro filter_cong) auto
  have trans: "filter (\<lambda>t. tr_agent_id t = agent) (ad_transitions (authority_save db m)) =
      filter (\<lambda>t. tr_agent_id t = agent) (ad_transitions db)"
    unfolding authority_save_def by (simp add: none rows del: filter_filter)
  have state: "lookup_row sr_agent_id (ad_states (authority_save db m)) agent = lookup_row sr_agent_id (ad_states db) agent"
    using assms(1) by (simp add: authority_save_def upsert_state_lookup)
  show ?thesis by (simp only: authority_load_def trans state)
qed

section \<open>The registry\<close>

definition state_row_ok :: "transition_policy \<Rightarrow> authority_db \<Rightarrow> state_row \<Rightarrow> bool" where
  "state_row_ok pol db r \<longleftrightarrow> sr_agent_id r \<noteq> [] \<and>
     (\<exists>st. sr_state r = authority_state_value st \<and>
        (st = ELEVATED \<longrightarrow> can_governance_promote_elevated pol (sr_trusted r) (sr_failed r))) \<and>
     (let ts = filter (\<lambda>t. tr_agent_id t = sr_agent_id r) (ad_transitions db)
      in log_path ''PROBATION'' ts \<and> log_end ''PROBATION'' ts = sr_state r)"

definition authority_inv :: "transition_policy \<Rightarrow> authority_db \<Rightarrow> bool" where
  "authority_inv pol db \<longleftrightarrow> key_unique sr_agent_id (ad_states db) \<and> key_unique gr_agent_id (ad_registry db) \<and>
     (\<forall>r \<in> set (ad_states db). state_row_ok pol db r) \<and>
     (\<forall>r \<in> set (ad_registry db). lookup_row sr_agent_id (ad_states db) (gr_agent_id r) \<noteq> None)"

lemma authority_inv_empty: "authority_inv pol empty_authority_db"
  by (simp add: authority_inv_def empty_authority_db_def)

lemma map_agent_id: "map (\<lambda>t. t\<lparr>tr_agent_id := a\<rparr>) (filter (\<lambda>t. tr_agent_id t = a) ts) = filter (\<lambda>t. tr_agent_id t = a) ts"
  by (rule map_idI) auto

lemma authority_load_ok:
  assumes inv: "authority_inv pol db" and row: "lookup_row sr_agent_id (ad_states db) agent = Some row"
  obtains m where "authority_load db agent = Inr m" "machine_ok pol m" "am_agent_id m = agent"
proof -
  from row have mem: "row \<in> set (ad_states db)" "sr_agent_id row = agent" by (auto dest: lookup_row_SomeD)
  with inv have ok: "state_row_ok pol db row" by (simp add: authority_inv_def)
  then obtain st where st: "sr_state row = authority_state_value st" by (auto simp: state_row_ok_def)
  have ne: "agent \<noteq> []" using ok mem(2) by (auto simp: state_row_ok_def)
  let ?m = "\<lparr>am_agent_id = agent, am_state = st, am_trusted = sr_trusted row, am_failed = sr_failed row,
    am_last_proof = sr_last_proof row, am_history = filter (\<lambda>t. tr_agent_id t = agent) (ad_transitions db),
    am_policy = default_transition_policy\<rparr>"
  have "authority_load db agent = Inr ?m"
    using ne mem(2) row st by (simp add: authority_load_def new_machine_def map_agent_id)
  moreover have "machine_ok pol ?m"
    using ok ne mem(2) st by (auto simp: machine_ok_def state_row_ok_def Let_def authority_value_inj)
  ultimately show thesis by (rule that) simp
qed

lemma authority_save_inv:
  assumes inv: "authority_inv pol db" and ok: "machine_ok pol m"
  shows "authority_inv pol (authority_save db m)"
proof -
  let ?db = "authority_save db m"
  let ?row = "\<lparr>sr_agent_id = am_agent_id m, sr_state = authority_state_value (am_state m),
       sr_trusted = am_trusted m, sr_failed = am_failed m, sr_last_proof = am_last_proof m\<rparr>"
  have states: "ad_states ?db = upsert_state ?row (ad_states db)" by (simp add: authority_save_def)
  have uk: "key_unique sr_agent_id (ad_states ?db)"
    using inv upsert_state_unique by (simp add: states authority_inv_def)
  have hist: "\<forall>t \<in> set (am_history m). tr_agent_id t = am_agent_id m" using ok by (simp add: machine_ok_def)
  have own: "filter (\<lambda>t. tr_agent_id t = am_agent_id m) (ad_transitions ?db) = am_history m"
    using hist by (simp add: authority_save_def filter_id_conv)
  have other: "filter (\<lambda>t. tr_agent_id t = a) (ad_transitions ?db) = filter (\<lambda>t. tr_agent_id t = a) (ad_transitions db)"
    if "a \<noteq> am_agent_id m" for a
  proof -
    have "filter (\<lambda>t. tr_agent_id t = a) (am_history m) = []" using hist that by (auto simp: filter_empty_conv)
    moreover have "filter (\<lambda>t. tr_agent_id t = a) (filter (\<lambda>t. tr_agent_id t \<noteq> am_agent_id m) (ad_transitions db)) =
        filter (\<lambda>t. tr_agent_id t = a) (ad_transitions db)"
      unfolding filter_filter using that by (intro filter_cong) auto
    ultimately show ?thesis unfolding authority_save_def by (simp del: filter_filter)
  qed
  have "state_row_ok pol ?db r" if "r \<in> set (ad_states ?db)" for r
  proof (cases "sr_agent_id r = am_agent_id m")
    case True
    then have "r = ?row" using lookup_row_mem [OF uk that] by (simp add: states upsert_state_lookup)
    then show ?thesis using ok own by (auto simp: state_row_ok_def machine_ok_def authority_value_inj)
  next
    case False
    then have "lookup_row sr_agent_id (ad_states db) (sr_agent_id r) = Some r"
      using lookup_row_mem [OF uk that] by (simp add: states upsert_state_lookup)
    then have "state_row_ok pol db r" using inv by (auto simp: authority_inv_def dest: lookup_row_SomeD)
    then show ?thesis by (simp add: state_row_ok_def other [OF False])
  qed
  then show ?thesis
    using inv uk by (auto simp: authority_inv_def states upsert_state_lookup) (simp_all add: authority_save_def)
qed

lemma increment_epoch_simps [simp]:
  "ad_states (increment_epoch a db) = ad_states db" "ad_transitions (increment_epoch a db) = ad_transitions db"
  by (simp_all add: increment_epoch_def)

lemma authority_load_registry:
  "ad_states db' = ad_states db \<Longrightarrow> ad_transitions db' = ad_transitions db \<Longrightarrow> authority_load db' k = authority_load db k"
  by (simp only: authority_load_def)

lemma authority_inv_registry:
  assumes "authority_inv pol db" and "ad_states db' = ad_states db" and "ad_transitions db' = ad_transitions db"
    and "ad_registry db' = update_where p f (ad_registry db)" and "\<And>r. gr_agent_id (f r) = gr_agent_id r"
  shows "authority_inv pol db'"
proof -
  have "state_row_ok pol db' r = state_row_ok pol db r" for r
    by (simp add: state_row_ok_def assms(3))
  with assms show ?thesis by (auto simp: authority_inv_def elim!: set_update_whereE)
qed

lemma increment_epoch_inv: "authority_inv pol db \<Longrightarrow> authority_inv pol (increment_epoch a db)"
  by (rule authority_inv_registry [where p = "\<lambda>r. gr_agent_id r = a" and f = "\<lambda>r. r\<lparr>gr_epoch := gr_epoch r + 1\<rparr>"])
    (simp_all add: increment_epoch_def)

text \<open>What \<^verbatim>\<open>get\<close> returns is the registry row and the loaded machine.\<close>

definition authority_view :: "authority_row \<Rightarrow> authority_machine \<Rightarrow> agent_authority" where
  "authority_view row m = \<lparr>aa_agent_id = gr_agent_id row, aa_policy_version = gr_policy_version row,
     aa_state = am_state m, aa_trusted = am_trusted m, aa_failed = am_failed m,
     aa_last_proof = am_last_proof m, aa_epoch = gr_epoch row\<rparr>"

lemma authority_get_Inr:
  "authority_get db agent = Inr a \<longleftrightarrow> agent \<noteq> [] \<and>
     (\<exists>row m. lookup_row gr_agent_id (ad_registry db) agent = Some row \<and> authority_load db agent = Inr m \<and>
        a = authority_view row m)"
  by (auto simp: authority_get_def authority_view_def bindR_Inr_iff split: option.splits)

text \<open>The shape all four state-changing handlers share.\<close>

definition machine_handler :: "transition_policy \<Rightarrow> authority_db \<Rightarrow> authority_db \<Rightarrow> string \<Rightarrow>
    (authority_machine \<Rightarrow> (authority_transition \<times> authority_machine) result) \<Rightarrow> bool \<Rightarrow>
    (authority_transition \<times> authority_db) result" where
  "machine_handler pol snap db agent f always =
    bindR (load_machine pol snap agent) (\<lambda>m.
    bindR (f m) (\<lambda>(t, m').
      let db' = authority_save db m';
          db'' = (if always \<or> tr_new t \<noteq> authority_state_value (am_state m) then increment_epoch agent db' else db')
      in bindR (authority_get db'' agent) (\<lambda>_. Inr (t, db''))))"

lemma handlers_eq:
  "record_trust_at pol snap db agent decision = machine_handler pol snap db agent (\<lambda>m. apply_trust m decision) False"
  "governance_promote_at pol snap db agent reason proof =
     machine_handler pol snap db agent (\<lambda>m. promote_elevated m reason proof) True"
  "registry_suspend_at pol snap db agent reason = machine_handler pol snap db agent (\<lambda>m. machine_suspend m reason) True"
  "reason \<noteq> [] \<Longrightarrow> registry_reset_at pol snap db agent reason =
     machine_handler pol snap db agent (\<lambda>m. Inr (machine_reset m)) True"
  by (simp_all add: record_trust_at_def governance_promote_at_def registry_suspend_at_def registry_reset_at_def
      machine_handler_def split_beta)

text \<open>
  A handler that returns saved a correct machine: the agent's view moves to it, the epoch
  moves exactly when the state does (or always), nobody else's view changes.
\<close>

lemma machine_handler_effect:
  assumes inv: "authority_inv pol db"
    and step: "machine_handler pol db db agent f always = Inr (t, db')"
    and f: "handler_ok pol f"
  obtains a a' m m' where "authority_get db agent = Inr a" "authority_get db' agent = Inr a'"
    "authority_inv pol db'" "machine_ok pol m" "am_policy m = pol" "f m = Inr (t, m')"
    "aa_state a = am_state m" "aa_state a' = am_state m'"
    "aa_epoch a' = aa_epoch a + (if always \<or> aa_state a' \<noteq> aa_state a then 1 else 0)"
    "aa_policy_version a' = aa_policy_version a"
    "\<And>k. k \<noteq> agent \<Longrightarrow> authority_get db' k = authority_get db k"
proof -
  from step obtain m m' db1 where load: "load_machine pol db agent = Inr m" and fm: "f m = Inr (t, m')"
    and db': "db' = (if always \<or> tr_new t \<noteq> authority_state_value (am_state m)
      then increment_epoch agent (authority_save db m') else authority_save db m')"
    by (auto simp: machine_handler_def bindR_Inr_iff Let_def)
  from load obtain row m0 where ne: "agent \<noteq> []"
    and row: "lookup_row gr_agent_id (ad_registry db) agent = Some row"
    and m0: "authority_load db agent = Inr m0" and m: "m = m0\<lparr>am_policy := pol\<rparr>"
    by (auto simp: load_machine_def bindR_Inr_iff authority_get_Inr)
  from row have key: "gr_agent_id row = agent" and mem: "row \<in> set (ad_registry db)" by (auto dest: lookup_row_SomeD)
  then obtain srow where "lookup_row sr_agent_id (ad_states db) agent = Some srow"
    using inv by (auto simp: authority_inv_def)
  from authority_load_ok [OF inv this] m0 have ok0: "machine_ok pol m0" and id0: "am_agent_id m0 = agent" by auto
  then have ok: "machine_ok pol m" and pol: "am_policy m = pol" and id: "am_agent_id m = agent" by (simp_all add: m)
  note facts = f [unfolded handler_ok_def, rule_format, OF ok pol fm]
  from facts id have ok': "machine_ok pol m'" and id': "am_agent_id m' = agent"
    and tn: "tr_new t = authority_state_value (am_state m')" by simp_all
  have hist: "\<forall>t \<in> set (am_history m'). tr_agent_id t = am_agent_id m'" using ok' by (simp add: machine_ok_def)
  let ?bump = "always \<or> am_state m' \<noteq> am_state m"
  have db2: "db' = (if ?bump then increment_epoch agent (authority_save db m') else authority_save db m')"
    by (simp add: db' tn authority_value_inj)
  have load': "authority_load db' agent = Inr (m'\<lparr>am_policy := default_transition_policy\<rparr>)"
    using authority_load_save [of m' db] ne hist authority_load_registry [of "increment_epoch agent (authority_save db m')"]
    by (simp add: db2 id')
  have loadk: "authority_load db' k = authority_load db k" if "k \<noteq> agent" for k
    using authority_load_save_other [of k m' db] that hist
      authority_load_registry [of "increment_epoch agent (authority_save db m')" "authority_save db m'" k]
    by (simp add: db2 id')
  have reg: "lookup_row gr_agent_id (ad_registry db') k = map_option (\<lambda>r. if ?bump \<and> k = agent
      then r\<lparr>gr_epoch := gr_epoch r + 1\<rparr> else r) (lookup_row gr_agent_id (ad_registry db) k)" for k
  proof (cases "lookup_row gr_agent_id (ad_registry db) k")
    case None
    then show ?thesis by (auto simp: db2 increment_epoch_def authority_save_def table_simps)
  next
    case (Some r)
    then have "gr_agent_id r = k" by (blast dest: lookup_row_SomeD)
    with Some show ?thesis by (auto simp: db2 increment_epoch_def authority_save_def table_simps)
  qed
  have inv': "authority_inv pol db'"
    using authority_save_inv [OF inv ok'] increment_epoch_inv by (simp add: db2)
  let ?row' = "if ?bump then row\<lparr>gr_epoch := gr_epoch row + 1\<rparr> else row"
  have get: "authority_get db agent = Inr (authority_view row m0)"
    using ne row m0 by (auto simp: authority_get_Inr)
  have get': "authority_get db' agent = Inr (authority_view ?row' (m'\<lparr>am_policy := default_transition_policy\<rparr>))"
    using ne row load' by (auto simp: authority_get_Inr reg)
  have others: "authority_get db' k = authority_get db k" if "k \<noteq> agent" for k
  proof -
    have "lookup_row gr_agent_id (ad_registry db') k = lookup_row gr_agent_id (ad_registry db) k"
      using that by (cases "lookup_row gr_agent_id (ad_registry db) k") (simp_all add: reg)
    then show ?thesis by (simp only: authority_get_def loadk [OF that])
  qed
  show thesis
  proof (rule that [OF get get' inv' ok pol fm])
    show "aa_state (authority_view row m0) = am_state m" by (simp add: authority_view_def m)
    show "aa_state (authority_view ?row' (m'\<lparr>am_policy := default_transition_policy\<rparr>)) = am_state m'"
      by (simp add: authority_view_def)
    show "aa_epoch (authority_view ?row' (m'\<lparr>am_policy := default_transition_policy\<rparr>)) = aa_epoch (authority_view row m0) +
        (if always \<or> aa_state (authority_view ?row' (m'\<lparr>am_policy := default_transition_policy\<rparr>)) \<noteq>
           aa_state (authority_view row m0) then 1 else 0)"
      by (simp add: authority_view_def m)
    show "aa_policy_version (authority_view ?row' (m'\<lparr>am_policy := default_transition_policy\<rparr>)) =
        aa_policy_version (authority_view row m0)"
      by (simp add: authority_view_def)
  qed (rule others)
qed

section \<open>Runs of the registry\<close>

datatype authority_call =
    ARegister string "string option"
  | ATrust string "trust_decision option"
  | APromote string string string
  | ASuspend string string
  | AReset string string
  | ARotate string string

fun authority_call_db :: "transition_policy \<Rightarrow> string \<Rightarrow> authority_call \<Rightarrow> authority_db \<Rightarrow> authority_db result" where
  "authority_call_db pol ver (ARegister agent v) db = bindR (authority_register pol ver db agent v) (\<lambda>x. Inr (snd x))"
| "authority_call_db pol ver (ATrust agent d) db = bindR (record_trust_at pol db db agent d) (\<lambda>x. Inr (snd x))"
| "authority_call_db pol ver (APromote agent reason proof) db =
     bindR (governance_promote_at pol db db agent reason proof) (\<lambda>x. Inr (snd x))"
| "authority_call_db pol ver (ASuspend agent reason) db = bindR (registry_suspend_at pol db db agent reason) (\<lambda>x. Inr (snd x))"
| "authority_call_db pol ver (AReset agent reason) db = bindR (registry_reset_at pol db db agent reason) (\<lambda>x. Inr (snd x))"
| "authority_call_db pol ver (ARotate agent v) db = bindR (rotate_policy db agent v) (\<lambda>x. Inr (snd x))"

definition authority_step :: "transition_policy \<Rightarrow> string \<Rightarrow> authority_call \<Rightarrow> authority_db \<Rightarrow> authority_db" where
  "authority_step pol ver c db = (case authority_call_db pol ver c db of Inl _ \<Rightarrow> db | Inr db' \<Rightarrow> db')"

text \<open>How one call may change what \<^verbatim>\<open>get\<close> returns for an agent.\<close>

definition authority_moves :: "agent_authority \<Rightarrow> agent_authority \<Rightarrow> bool" where
  "authority_moves a a' \<longleftrightarrow> aa_epoch a \<le> aa_epoch a' \<and> aa_epoch a' \<le> aa_epoch a + 1 \<and>
     (aa_state a' \<noteq> aa_state a \<or> aa_policy_version a' \<noteq> aa_policy_version a \<longrightarrow> aa_epoch a' = aa_epoch a + 1)"

lemma machine_handler_keeps:
  assumes inv: "authority_inv pol db" and step: "machine_handler pol db db agent f always = Inr (t, db')"
    and f: "handler_ok pol f"
  shows "authority_inv pol db'"
    and "authority_get db k = Inr b \<Longrightarrow> \<exists>b'. authority_get db' k = Inr b' \<and> authority_moves b b'"
proof -
  obtain a a' where get: "authority_get db agent = Inr a" "authority_get db' agent = Inr a'"
    and inv': "authority_inv pol db'"
    and epoch: "aa_epoch a' = aa_epoch a + (if always \<or> aa_state a' \<noteq> aa_state a then 1 else 0)"
    and ver: "aa_policy_version a' = aa_policy_version a"
    and others: "\<And>k. k \<noteq> agent \<Longrightarrow> authority_get db' k = authority_get db k"
    by (rule machine_handler_effect [OF inv step f]) blast+
  show "authority_inv pol db'" by (rule inv')
  show "\<exists>b'. authority_get db' k = Inr b' \<and> authority_moves b b'" if b: "authority_get db k = Inr b"
  proof (cases "k = agent")
    case True
    with b get epoch ver show ?thesis by (auto simp: authority_moves_def)
  next
    case False
    with b others show ?thesis by (auto simp: authority_moves_def)
  qed
qed

lemma apply_trust_handler: "handler_ok pol (\<lambda>m. apply_trust m d)"
  by (rule handler_okI, intro conjI) ((rule apply_trust_ok, assumption+) | simp)+

lemma promote_handler: "handler_ok pol (\<lambda>m. promote_elevated m r p)"
  by (rule handler_okI, intro conjI) ((rule promote_elevated_ok, assumption+) | simp)+

lemma suspend_handler: "handler_ok pol (\<lambda>m. machine_suspend m r)"
  by (rule handler_okI, intro conjI) ((rule machine_suspend_ok, assumption+) | simp)+

lemma reset_handler: "handler_ok pol (\<lambda>m. Inr (machine_reset m))"
proof (rule handler_okI)
  fix m m' t
  assume m: "machine_ok pol m" "Inr (machine_reset m) = Inr (t, m')"
  from m(2) have "machine_reset m = (t, m')" by simp
  from machine_reset_ok(1,2,4) [OF m(1) this]
  show "machine_ok pol m' \<and> am_agent_id m' = am_agent_id m \<and> tr_new t = authority_state_value (am_state m')"
    by (intro conjI)
qed

lemma register_keeps:
  assumes inv: "authority_inv pol db" and step: "authority_register pol ver db agent v = Inr (x, db')"
  shows "authority_inv pol db'"
    and "authority_get db k = Inr b \<Longrightarrow> authority_get db' k = Inr b"
proof -
  have "authority_inv pol db' \<and> (authority_get db k = Inr b \<longrightarrow> authority_get db' k = Inr b)"
  proof (cases "lookup_row gr_agent_id (ad_registry db) agent")
    case (Some r)
    with step have "db' = db" by (auto simp: authority_register_def bindR_Inr_iff split: if_splits)
    with inv show ?thesis by simp
  next
    case None
    from step None obtain m w where m: "new_machine agent (Some pol) = Inr m"
      and db': "db' = authority_save db m\<lparr>ad_registry := ad_registry db @
          [\<lparr>gr_agent_id = agent, gr_policy_version = w, gr_epoch = 1\<rparr>]\<rparr>"
      by (auto simp: authority_register_def bindR_Inr_iff Let_def authority_save_def split: if_splits)
    have ok: "machine_ok pol m" by (rule new_machine_ok [OF m])
    have id: "am_agent_id m = agent" and hist: "am_history m = []"
      using m by (auto simp: new_machine_def split: if_splits)
    note saved = authority_save_inv [OF inv ok]
    have parts: "ad_states db' = ad_states (authority_save db m)" "ad_transitions db' = ad_transitions (authority_save db m)"
      by (simp_all add: db')
    have reg: "ad_registry (authority_save db m) = ad_registry db" by (simp add: authority_save_def)
    have own: "lookup_row sr_agent_id (ad_states db') agent \<noteq> None"
      unfolding parts by (simp add: authority_save_def upsert_state_lookup id)
    have "state_row_ok pol db' r = state_row_ok pol (authority_save db m) r" for r
      by (simp only: state_row_ok_def parts)
    moreover have rows: "ad_registry db' = ad_registry db @ [\<lparr>gr_agent_id = agent, gr_policy_version = w, gr_epoch = 1\<rparr>]"
      by (simp add: db')
    have "\<forall>r \<in> set (ad_registry db'). lookup_row sr_agent_id (ad_states db') (gr_agent_id r) \<noteq> None"
      unfolding rows using own saved by (simp add: authority_inv_def parts reg)
    ultimately have inv': "authority_inv pol db'"
      using saved None by (simp add: authority_inv_def parts(1) reg rows)
    have "authority_get db' k = Inr b" if b: "authority_get db k = Inr b"
    proof -
      from b obtain row where row: "lookup_row gr_agent_id (ad_registry db) k = Some row"
        by (auto simp: authority_get_Inr)
      with None have ne: "k \<noteq> agent" by auto
      have look: "lookup_row gr_agent_id (ad_registry db') k = lookup_row gr_agent_id (ad_registry db) k"
        using row by (simp add: db' table_simps)
      have "authority_load db' k = authority_load db k"
        using authority_load_save_other [of k m db] ne id hist authority_load_registry [OF parts, of k] by simp
      with b show ?thesis by (simp only: authority_get_def look)
    qed
    with inv' show ?thesis by blast
  qed
  then show "authority_inv pol db'" "authority_get db k = Inr b \<Longrightarrow> authority_get db' k = Inr b" by auto
qed

lemma rotate_keeps:
  assumes inv: "authority_inv pol db" and step: "rotate_policy db agent v = Inr (x, db')"
  shows "authority_inv pol db'"
    and "authority_get db k = Inr b \<Longrightarrow> \<exists>b'. authority_get db' k = Inr b' \<and> authority_moves b b'"
proof -
  let ?f = "\<lambda>r. r\<lparr>gr_policy_version := v, gr_epoch := gr_epoch r + 1\<rparr>"
  from step have db': "db' = db\<lparr>ad_registry := update_where (\<lambda>r. gr_agent_id r = agent) ?f (ad_registry db)\<rparr>"
    by (auto simp: rotate_policy_def bindR_Inr_iff Let_def split: if_splits)
  have parts: "ad_states db' = ad_states db" "ad_transitions db' = ad_transitions db" by (simp_all add: db')
  show "authority_inv pol db'"
    by (rule authority_inv_registry [OF inv parts, where p = "\<lambda>r. gr_agent_id r = agent" and f = ?f])
      (simp_all add: db')
  show "\<exists>b'. authority_get db' k = Inr b' \<and> authority_moves b b'" if b: "authority_get db k = Inr b"
  proof -
    from b obtain row m where ne: "k \<noteq> []" and row: "lookup_row gr_agent_id (ad_registry db) k = Some row"
      and m: "authority_load db k = Inr m" and bv: "b = authority_view row m"
      by (auto simp: authority_get_Inr)
    let ?row = "if gr_agent_id row = agent then ?f row else row"
    have "lookup_row gr_agent_id (ad_registry db') k = Some ?row"
      using row by (simp add: db' table_simps)
    then have "authority_get db' k = Inr (authority_view ?row m)"
      using ne m authority_load_registry [OF parts, of k] by (simp add: authority_get_Inr)
    moreover have "authority_moves b (authority_view ?row m)"
      by (simp add: bv authority_moves_def authority_view_def)
    ultimately show ?thesis by blast
  qed
qed

lemma authority_step_keeps:
  assumes inv: "authority_inv pol db"
  shows "authority_inv pol (authority_step pol ver c db) \<and>
    (\<forall>k b. authority_get db k = Inr b \<longrightarrow>
       (\<exists>b'. authority_get (authority_step pol ver c db) k = Inr b' \<and> authority_moves b b'))"
    (is "?keeps (authority_step pol ver c db)")
proof (cases "authority_call_db pol ver c db")
  case (Inl e)
  have "authority_moves b b" for b by (simp add: authority_moves_def)
  with Inl inv show ?thesis by (simp add: authority_step_def)
next
  case (Inr db')
  have refl: "authority_moves b b" for b by (simp add: authority_moves_def)
  have "?keeps db'"
  proof (cases c)
    case (ARegister agent v)
    with Inr obtain x where "authority_register pol ver db agent v = Inr (x, db')" by (auto simp: bindR_Inr_iff)
    from register_keeps [OF inv this] refl show ?thesis by blast
  next
    case (ATrust agent d)
    with Inr obtain t where "machine_handler pol db db agent (\<lambda>m. apply_trust m d) False = Inr (t, db')"
      by (auto simp: bindR_Inr_iff handlers_eq)
    from machine_handler_keeps [OF inv this apply_trust_handler] show ?thesis by blast
  next
    case (APromote agent r p)
    with Inr obtain t where "machine_handler pol db db agent (\<lambda>m. promote_elevated m r p) True = Inr (t, db')"
      by (auto simp: bindR_Inr_iff handlers_eq)
    from machine_handler_keeps [OF inv this promote_handler] show ?thesis by blast
  next
    case (ASuspend agent r)
    with Inr obtain t where "machine_handler pol db db agent (\<lambda>m. machine_suspend m r) True = Inr (t, db')"
      by (auto simp: bindR_Inr_iff handlers_eq)
    from machine_handler_keeps [OF inv this suspend_handler] show ?thesis by blast
  next
    case (AReset agent r)
    with Inr have "r \<noteq> []" by (auto simp: bindR_Inr_iff registry_reset_at_def)
    with AReset Inr obtain t where "machine_handler pol db db agent (\<lambda>m. Inr (machine_reset m)) True = Inr (t, db')"
      by (auto simp: bindR_Inr_iff handlers_eq)
    from machine_handler_keeps [OF inv this reset_handler] show ?thesis by blast
  next
    case (ARotate agent v)
    with Inr obtain x where "rotate_policy db agent v = Inr (x, db')" by (auto simp: bindR_Inr_iff)
    from rotate_keeps [OF inv this] show ?thesis by blast
  qed
  with Inr show ?thesis by (simp add: authority_step_def)
qed

abbreviation authority_run :: "transition_policy \<Rightarrow> string \<Rightarrow> authority_call list \<Rightarrow> authority_db" where
  "authority_run pol ver cs \<equiv> fold (authority_step pol ver) cs empty_authority_db"

lemma authority_run_inv: "authority_inv pol (authority_run pol ver cs)"
  using run_invariant [of "authority_inv pol" "\<lambda>_ _. True" "authority_step pol ver" empty_authority_db cs]
    authority_step_keeps authority_inv_empty by auto

section \<open>Properties\<close>

text \<open>
  C36: authority is earned and accounted for. In every reachable registry, the transition log
  of an agent is a gapless path from PROBATION to the agent's current state, and an ELEVATED
  agent satisfies the governance thresholds of the policy on its recorded outcomes.
\<close>

theorem authority_is_accounted_for:
  assumes "authority_get (authority_run pol ver cs) k = Inr a"
  shows "\<exists>m. authority_load (authority_run pol ver cs) k = Inr m \<and> am_state m = aa_state a \<and>
    log_path ''PROBATION'' (am_history m) \<and>
    log_end ''PROBATION'' (am_history m) = authority_state_value (aa_state a) \<and>
    (aa_state a = ELEVATED \<longrightarrow> can_governance_promote_elevated pol (aa_trusted a) (aa_failed a))"
proof -
  let ?db = "authority_run pol ver cs"
  have inv: "authority_inv pol ?db" by (rule authority_run_inv)
  from assms obtain row m where row: "lookup_row gr_agent_id (ad_registry ?db) k = Some row"
    and m: "authority_load ?db k = Inr m" and a: "a = authority_view row m"
    by (auto simp: authority_get_Inr)
  from row have "row \<in> set (ad_registry ?db)" "gr_agent_id row = k" by (auto dest: lookup_row_SomeD)
  then obtain srow where "lookup_row sr_agent_id (ad_states ?db) k = Some srow"
    using inv by (auto simp: authority_inv_def)
  from authority_load_ok [OF inv this] m have "machine_ok pol m" by auto
  with m a show ?thesis by (simp add: machine_ok_def authority_view_def)
qed

definition trusted_outcome :: "string \<Rightarrow> trust_decision option" where
  "trusted_outcome p = Some \<lparr>td_status = ''TRUSTED'', td_proof_id = p\<rparr>"

definition earned_run :: "authority_call list" where
  "earned_run = [ARegister ''dev'' None, ATrust ''dev'' (trusted_outcome ''p1''), ATrust ''dev'' (trusted_outcome ''p2''),
     ATrust ''dev'' (trusted_outcome ''p3''), APromote ''dev'' ''earned'' ''p3'']"

lemma earned_run_elevated:
  "authority_get (authority_run default_transition_policy ''v1'' earned_run) ''dev'' =
     Inr \<lparr>aa_agent_id = ''dev'', aa_policy_version = ''v1'', aa_state = ELEVATED, aa_trusted = 3, aa_failed = 0,
       aa_last_proof = ''p3'', aa_epoch = 3\<rparr>"
  by code_simp

theorem authority_is_accounted_for_witness:
  "\<exists>m. authority_load (authority_run default_transition_policy ''v1'' earned_run) ''dev'' = Inr m \<and>
     log_end ''PROBATION'' (am_history m) = ''ELEVATED''"
  using authority_is_accounted_for [OF earned_run_elevated] by auto

text \<open>
  the authority epoch tracks the authority. Whatever call comes next, an agent stays
  registered, its epoch never decreases and grows by at most one, and it does grow whenever
  the agent's state or policy version changes, so a reader who compares epochs never misses
  a change.
\<close>

theorem epoch_tracks_authority:
  assumes "authority_get (authority_run pol ver cs) k = Inr a"
  shows "\<exists>a'. authority_get (authority_run pol ver (cs @ [c])) k = Inr a' \<and>
    aa_epoch a \<le> aa_epoch a' \<and> aa_epoch a' \<le> aa_epoch a + 1 \<and>
    (aa_state a' \<noteq> aa_state a \<or> aa_policy_version a' \<noteq> aa_policy_version a \<longrightarrow> aa_epoch a' = aa_epoch a + 1)"
  using authority_step_keeps [OF authority_run_inv, of pol ver c ver cs] assms
  by (auto simp: authority_moves_def)

theorem epoch_tracks_authority_witness:
  "\<exists>a'. authority_get (authority_run default_transition_policy ''v1'' (earned_run @ [ASuspend ''dev'' ''incident''])) ''dev'' = Inr a' \<and>
     3 \<le> aa_epoch a'"
  using epoch_tracks_authority [OF earned_run_elevated, of "ASuspend ''dev'' ''incident''"] by auto

text \<open>
  what is saved is what is loaded. Saving the machine of one agent and loading it back
  returns the same state, counters, proof and history (with the default policy, which the
  registry replaces by its own), and no other agent's machine is touched.
\<close>

theorem authority_save_load:
  assumes "am_agent_id m \<noteq> []" and "\<forall>t \<in> set (am_history m). tr_agent_id t = am_agent_id m"
  shows "authority_load (authority_save db m) (am_agent_id m) = Inr (m\<lparr>am_policy := default_transition_policy\<rparr>) \<and>
    (\<forall>k. k \<noteq> am_agent_id m \<longrightarrow> authority_load (authority_save db m) k = authority_load db k)"
  using authority_load_save [OF assms] authority_load_save_other [OF _ assms(2)] by blast

definition suspended_machine :: authority_machine where
  "suspended_machine = \<lparr>am_agent_id = ''dev'', am_state = SUSPENDED, am_trusted = 2, am_failed = 1, am_last_proof = ''p'',
     am_history = [\<lparr>tr_previous = ''PROBATION'', tr_new = ''SUSPENDED'', tr_reason = ''incident'', tr_proof_id = [],
       tr_agent_id = ''dev''\<rparr>], am_policy = default_transition_policy\<rparr>"

theorem authority_save_load_witness:
  "authority_load (authority_save empty_authority_db suspended_machine) ''dev'' = Inr suspended_machine"
  using authority_save_load [of suspended_machine empty_authority_db] by (simp add: suspended_machine_def)

section \<open>Two ways to lose a suspension\<close>

text \<open>
  The machine refuses to leave SUSPENDED on a trusted outcome, but an expired or untrusted
  outcome moves it to LIMITED, after which a trusted outcome makes it STANDARD: a suspended
  agent regains standard authority without a governance reset.
\<close>

definition suspension_escape :: "authority_call list" where
  "suspension_escape = [ARegister ''dev'' None, ASuspend ''dev'' ''incident'',
     ATrust ''dev'' (Some \<lparr>td_status = ''UNTRUSTED'', td_proof_id = ''p1''\<rparr>), ATrust ''dev'' (trusted_outcome ''p2'')]"

theorem suspension_lost_by_untrusted_outcome:
  "map_sum id aa_state (authority_get (authority_run default_transition_policy ''v1'' (take 2 suspension_escape)) ''dev'') = Inr SUSPENDED \<and>
   map_sum id aa_state (authority_get (authority_run default_transition_policy ''v1'' suspension_escape) ''dev'') = Inr STANDARD"
  by code_simp

text \<open>
  The store overwrites the whole record, so a handler that loaded the machine before another
  process suspended the agent writes the old authority back, and removes the suspension from
  the log as well.
\<close>

theorem suspension_lost_to_stale_writer:
  "let pol = default_transition_policy;
       before = authority_run pol ''v1'' [ARegister ''dev'' None];
       suspended = authority_step pol ''v1'' (ASuspend ''dev'' ''incident'') before
   in map_sum id aa_state (authority_get suspended ''dev'') = Inr SUSPENDED \<and>
      (case record_trust_at pol before suspended ''dev'' (trusted_outcome ''p'') of
         Inr (t, db) \<Rightarrow> map_sum id aa_state (authority_get db ''dev'') = Inr STANDARD \<and>
           map tr_new (ad_transitions db) = [''STANDARD'']
       | Inl _ \<Rightarrow> False)"
  by code_simp

end
