(* ===== verification/Capability.thy ===== *)
theory Capability
  imports Authority
begin

text \<open>
  What an agent may do: the static capability policy (\<^verbatim>\<open>src/shared/capability_policy.py\<close>), its
  narrowing by the dynamic authority state (\<^verbatim>\<open>src/shared/effective_capability.py\<close>) and the
  translation of trust decisions into authority (\<^verbatim>\<open>src/shared/trust_authority.py\<close>). Decisions are
  ordered BLOCK < REQUIRE_EVIDENCE < ALLOW, so that narrowing is an inequality.
\<close>

section \<open>Decisions\<close>

datatype capability_decision = BLOCK | REQUIRE_EVIDENCE | ALLOW

fun decision_level :: "capability_decision \<Rightarrow> nat" where
  "decision_level BLOCK = 0"
| "decision_level REQUIRE_EVIDENCE = 1"
| "decision_level ALLOW = 2"

lemma decision_level_inj: "decision_level a = decision_level b \<longleftrightarrow> a = b"
  by (cases a; cases b) simp_all

instantiation capability_decision :: linorder
begin

definition less_eq_capability_decision :: "capability_decision \<Rightarrow> capability_decision \<Rightarrow> bool" where
  "less_eq_capability_decision a b \<longleftrightarrow> decision_level a \<le> decision_level b"

definition less_capability_decision :: "capability_decision \<Rightarrow> capability_decision \<Rightarrow> bool" where
  "less_capability_decision a b \<longleftrightarrow> decision_level a < decision_level b"

instance
  by standard (auto simp: less_eq_capability_decision_def less_capability_decision_def decision_level_inj)

end

lemma decision_le_simps [simp]:
  "BLOCK \<le> d" "d \<le> ALLOW" "REQUIRE_EVIDENCE \<le> d \<longleftrightarrow> d \<noteq> BLOCK" "d \<le> REQUIRE_EVIDENCE \<longleftrightarrow> d \<noteq> ALLOW"
  by (cases d; simp add: less_eq_capability_decision_def)+

section \<open>The static policy\<close>

record action_intent =
  ai_role :: string
  ai_action :: string
  ai_agent_id :: string
  ai_target :: string
  ai_resource :: string
  ai_destination :: string
  ai_data_scope :: string
  ai_irreversible :: bool
  ai_requires_network :: bool
  ai_requires_shell :: bool
  ai_requires_filesystem :: bool
  ai_financial :: bool
  ai_privileged :: bool
  ai_read_only :: bool
  ai_evidence_required :: bool

definition policy_version :: string where
  "policy_version = ''capability-policy-v1''"

definition role_allowed_actions :: "(string \<times> string list) list" where
  "role_allowed_actions =
    [(''researcher'', [''research'', ''read_public_docs'']),
     (''analyst'', [''analyze'', ''inspect_evidence'']),
     (''developer'', [''inspect_code'', ''modify_code'', ''run_tests'', ''deploy'', ''publish'', ''delete'', ''transfer'',
        ''release'', ''api_request'', ''mcp_tool_call'']),
     (''security_checker'', [''security_scan'', ''inspect_code'', ''verify'']),
     (''opportunity_hunter'', [''identify_opportunities'', ''research'']),
     (''validator'', [''validate'', ''verify'']),
     (''model_researcher'', [''model_research'', ''research'']),
     (''source_researcher'', [''research'', ''read_public_docs'']),
     (''crypto_analyst'', [''analyze'', ''inspect_evidence'']),
     (''lab_runner'', [''run_synthetic_lab'', ''inspect_evidence'', ''verify''])]"

definition sensitive_actions :: "string list" where
  "sensitive_actions = [''modify_code'', ''deploy'', ''publish'', ''delete'', ''transfer'', ''release'', ''api_request'', ''mcp_tool_call'']"

definition sensitive_evidence_requirements :: "(string \<times> string list) list" where
  "sensitive_evidence_requirements =
    [(''modify_code'', [''tests_passed'']),
     (''deploy'', [''tests_passed'', ''security_scan_passed'', ''rollback_ready'']),
     (''publish'', [''tests_passed'', ''security_scan_passed'', ''artifact_integrity'']),
     (''delete'', [''recovery_ready'']),
     (''transfer'', [''authorization_confirmed'', ''destination_allowed'', ''simulation_passed'']),
     (''release'', [''tests_passed'', ''security_scan_passed'', ''artifact_integrity'']),
     (''api_request'', [''destination_allowed'']),
     (''mcp_tool_call'', [''destination_allowed''])]"

definition evidence_source_roles :: "(string \<times> string list) list" where
  "evidence_source_roles =
    [(''tests_passed'', [''developer'', ''validator'']),
     (''security_scan_passed'', [''security_checker'', ''validator'']),
     (''rollback_ready'', [''developer'', ''validator'']),
     (''rollback_or_recovery_ready'', [''developer'', ''validator'']),
     (''artifact_integrity'', [''developer'', ''security_checker'', ''validator'']),
     (''recovery_ready'', [''developer'', ''validator'']),
     (''authorization_confirmed'', [''validator'']),
     (''destination_allowed'', [''validator'', ''security_checker'']),
     (''simulation_passed'', [''validator'', ''security_checker'']),
     (''financial_authorization'', [''validator'']),
     (''privilege_scope_verified'', [''security_checker'', ''validator'']),
     (''explicit_evidence'', [''validator''])]"

text \<open>The instance attributes a deployment may change.\<close>

record capability_policy =
  cp_blocked_targets :: "string list"
  cp_blocked_destinations :: "string list"
  cp_blocked_data_scopes :: "string list"
  cp_network_allowed :: bool
  cp_shell_allowed :: bool
  cp_filesystem_allowed :: bool

definition default_capability_policy :: capability_policy where
  "default_capability_policy = \<lparr>
     cp_blocked_targets = [''unknown_external_endpoint'', ''production_database'', ''production_environment''],
     cp_blocked_destinations = [''production_database'', ''production'', ''production_environment'', ''production_api'',
       ''unauthorized_external_destination''],
     cp_blocked_data_scopes = [''credentials'', ''private_keys'', ''secrets'', ''api_keys'', ''passwords''],
     cp_network_allowed = True, cp_shell_allowed = True, cp_filesystem_allowed = True\<rparr>"

text \<open>\<^verbatim>\<open>d.get(k, set())\<close> on a table of sets.\<close>

definition table_get :: "(string \<times> string list) list \<Rightarrow> string \<Rightarrow> string list" where
  "table_get t k = (case map_of t k of None \<Rightarrow> [] | Some xs \<Rightarrow> xs)"

definition evidence_source_allowed :: "string \<Rightarrow> string \<Rightarrow> bool" where
  "evidence_source_allowed claim role \<longleftrightarrow> role \<in> set (table_get evidence_source_roles claim)"

definition required_evidence :: "action_intent \<Rightarrow> string list" where
  "required_evidence i =
    (let r1 = table_get sensitive_evidence_requirements (ai_action i);
         r2 = (if ai_financial i then r1 @ [''financial_authorization'', ''destination_allowed''] else r1);
         r3 = (if ai_privileged i then r2 @ [''privilege_scope_verified''] else r2);
         r4 = (if ai_irreversible i then r3 @ [''rollback_or_recovery_ready''] else r3);
         r5 = (if ai_evidence_required i \<and> r4 = [] then r4 @ [''explicit_evidence''] else r4)
     in sort (remdups r5))"

definition policy_check :: "capability_policy \<Rightarrow> action_intent \<Rightarrow> capability_decision \<times> string" where
  "policy_check p i =
    (if ai_target i \<in> set (cp_blocked_targets p) then (BLOCK, ''blocked_target'')
     else if ai_destination i \<in> set (cp_blocked_destinations p) then (BLOCK, ''blocked_destination'')
     else if ai_data_scope i \<in> set (cp_blocked_data_scopes p) then (BLOCK, ''blocked_data_scope'')
     else if ai_action i \<notin> set (table_get role_allowed_actions (ai_role i)) then (BLOCK, ''action_not_allowed_for_role'')
     else if ai_requires_shell i \<and> \<not> cp_shell_allowed p then (BLOCK, ''shell_disabled'')
     else if ai_requires_network i \<and> \<not> cp_network_allowed p then (BLOCK, ''network_disabled'')
     else if ai_requires_filesystem i \<and> \<not> cp_filesystem_allowed p then (BLOCK, ''filesystem_disabled'')
     else if ai_action i \<in> set sensitive_actions \<or> \<not> ai_read_only i \<or> ai_irreversible i \<or> ai_financial i \<or>
             ai_privileged i \<or> ai_evidence_required i
     then (REQUIRE_EVIDENCE, ''evidence_required_for_sensitive_action'')
     else (ALLOW, ''policy_pass''))"

section \<open>Effective capability\<close>

record effective_capability =
  ec_decision :: capability_decision
  ec_reason :: string
  ec_state :: string
  ec_action :: string

definition safe_actions :: "string list" where
  "safe_actions = [''research'', ''read_public_docs'', ''analyze'', ''inspect_evidence'', ''inspect_code'', ''security_scan'',
     ''verify'', ''validate'', ''identify_opportunities'', ''model_research'', ''run_tests'']"

text \<open>\<open>intent\<close> may be absent; the state is given by name when it is not an AuthorityState.\<close>

definition evaluate_effective_capability :: "action_intent option \<Rightarrow> authority_state + string \<Rightarrow> capability_policy \<Rightarrow>
    effective_capability result" where
  "evaluate_effective_capability intent state p =
    (case intent of
       None \<Rightarrow> raise EffectiveCapabilityError ''intent_required''
     | Some i \<Rightarrow>
        (case (case state of Inl a \<Rightarrow> Some a | Inr s \<Rightarrow> parse_authority_state s) of
           None \<Rightarrow> raise EffectiveCapabilityError ''unknown_authority_state''
         | Some a \<Rightarrow>
            (let (base, reason) = policy_check p i;
                 ret = (\<lambda>d r. Inr \<lparr>ec_decision = d, ec_reason = r, ec_state = authority_state_value a, ec_action = ai_action i\<rparr>)
             in if base = BLOCK then ret BLOCK (''static_policy:'' @ reason)
                else if a = SUSPENDED then ret BLOCK ''authority_suspended''
                else if (a = PROBATION \<or> a = LIMITED) \<and>
                  (ai_action i \<notin> set safe_actions \<or> \<not> ai_read_only i \<or> ai_irreversible i \<or> ai_financial i \<or>
                   ai_privileged i \<or> ai_requires_network i \<or> ai_requires_shell i \<or> ai_requires_filesystem i)
                then ret BLOCK ''dynamic_authority_restricted''
                else if base = REQUIRE_EVIDENCE then ret REQUIRE_EVIDENCE reason
                else ret ALLOW ''effective_authority_allowed'')))"

text \<open>\<^verbatim>\<open>AgentAuthorityRegistry.evaluate\<close>: the registered state decides.\<close>

definition registry_evaluate :: "capability_policy \<Rightarrow> authority_db \<Rightarrow> string \<Rightarrow> action_intent option \<Rightarrow>
    effective_capability result" where
  "registry_evaluate p db agent intent =
     bindR (authority_get db agent) (\<lambda>a. evaluate_effective_capability intent (Inl (aa_state a)) p)"

section \<open>Trust decisions\<close>

record full_trust_decision =
  ft_status :: string
  ft_proof_id :: string
  ft_reason :: string
  ft_attestor_id :: "string option"
  ft_registry_id :: "string option"

record authority_trust_decision =
  au_status :: string
  au_decision :: string
  au_why :: string
  au_proof :: string
  au_attestor_id :: "string option"
  au_registry_id :: "string option"

definition trust_to_authority :: "full_trust_decision option \<Rightarrow> authority_trust_decision result" where
  "trust_to_authority decision =
    (case decision of
       None \<Rightarrow> raise TrustAuthorityError ''trust_decision_required''
     | Some d \<Rightarrow>
        (let ret = (\<lambda>st dec why. Inr \<lparr>au_status = st, au_decision = dec, au_why = why, au_proof = ft_proof_id d,
                      au_attestor_id = ft_attestor_id d, au_registry_id = ft_registry_id d\<rparr>)
         in if ft_proof_id d = [] then raise TrustAuthorityError ''proof_id_required''
            else if ft_status d = ''TRUSTED'' then ret ''TRUSTED'' ''AUTHORITY_CONTINUE'' ''trusted_attested_outcome''
            else if ft_status d = ''EXPIRED'' then ret ''EXPIRED'' ''RE_ATTEST_REQUIRED'' ''attestation_expired''
            else if ft_status d = ''UNTRUSTED''
            then ret ''UNTRUSTED'' ''AUTHORITY_RESTRICT'' (if ft_reason d = [] then ''untrusted_outcome'' else ft_reason d)
            else raise TrustAuthorityError ''unknown_trust_status''))"

section \<open>Narrowing\<close>

text \<open>How much a state allows.\<close>

fun state_level :: "authority_state \<Rightarrow> nat" where
  "state_level SUSPENDED = 0"
| "state_level PROBATION = 1"
| "state_level LIMITED = 1"
| "state_level STANDARD = 2"
| "state_level ELEVATED = 2"

lemma evaluate_total: "\<exists>c. evaluate_effective_capability (Some i) (Inl a) p = Inr c"
  by (auto simp: evaluate_effective_capability_def Let_def split: prod.splits)

text \<open>The intents a restricted state refuses.\<close>

definition beyond_safe :: "action_intent \<Rightarrow> bool" where
  "beyond_safe i \<longleftrightarrow> ai_action i \<notin> set safe_actions \<or> \<not> ai_read_only i \<or> ai_irreversible i \<or> ai_financial i \<or>
     ai_privileged i \<or> ai_requires_network i \<or> ai_requires_shell i \<or> ai_requires_filesystem i"

lemma effective_decision:
  assumes "evaluate_effective_capability (Some i) (Inl s) p = Inr e"
  shows "ec_decision e = (if s = SUSPENDED \<or> (s = PROBATION \<or> s = LIMITED) \<and> beyond_safe i then BLOCK
    else fst (policy_check p i))"
proof -
  obtain base reason where chk: "policy_check p i = (base, reason)" by fastforce
  show ?thesis
    using assms unfolding evaluate_effective_capability_def option.case sum.case chk Let_def prod.case beyond_safe_def [symmetric]
    by (cases base) (auto split: if_splits)
qed

text \<open>
  C28: dynamic authority only narrows. For every policy, intent and state the effective
  decision exists and is at most the static one, it is monotone in the authority state, and
  the states STANDARD and ELEVATED leave the static decision as it is.
\<close>

theorem dynamic_authority_narrows:
  assumes "evaluate_effective_capability (Some i) (Inl a) p = Inr c"
    and "evaluate_effective_capability (Some i) (Inl b) p = Inr d" and "state_level a \<le> state_level b"
  shows "ec_decision c \<le> fst (policy_check p i) \<and> ec_decision c \<le> ec_decision d \<and>
    (2 \<le> state_level a \<longrightarrow> ec_decision c = fst (policy_check p i)) \<and>
    (a = SUSPENDED \<longrightarrow> ec_decision c = BLOCK)"
  using effective_decision [OF assms(1)] effective_decision [OF assms(2)] assms(3)
  by (cases a; cases b) (auto simp: Let_def)

definition fix_intent :: action_intent where
  "fix_intent = \<lparr>ai_role = ''developer'', ai_action = ''modify_code'', ai_agent_id = ''dev'', ai_target = [], ai_resource = [],
     ai_destination = [], ai_data_scope = [], ai_irreversible = False, ai_requires_network = False,
     ai_requires_shell = False, ai_requires_filesystem = True, ai_financial = False, ai_privileged = False,
     ai_read_only = False, ai_evidence_required = False\<rparr>"

theorem dynamic_authority_narrows_witness:
  "BLOCK \<le> fst (policy_check default_capability_policy fix_intent) \<and> BLOCK \<le> REQUIRE_EVIDENCE"
  using dynamic_authority_narrows [of fix_intent LIMITED default_capability_policy
      "\<lparr>ec_decision = BLOCK, ec_reason = ''dynamic_authority_restricted'', ec_state = ''LIMITED'', ec_action = ''modify_code''\<rparr>"
      STANDARD "\<lparr>ec_decision = REQUIRE_EVIDENCE, ec_reason = ''evidence_required_for_sensitive_action'',
        ec_state = ''STANDARD'', ec_action = ''modify_code''\<rparr>"]
  by code_simp

text \<open>
  nothing sensitive is allowed outright. An intent that is ALLOWed in any state is read
  only, reversible, neither financial nor privileged nor sensitive, its action belongs to
  its role, and it avoids every blocked target, destination and data scope.
\<close>

theorem allowed_intents_are_harmless:
  assumes "evaluate_effective_capability (Some i) (Inl a) p = Inr c" and "ec_decision c = ALLOW"
  shows "ai_read_only i \<and> \<not> ai_irreversible i \<and> \<not> ai_financial i \<and> \<not> ai_privileged i \<and>
    ai_action i \<notin> set sensitive_actions \<and> ai_action i \<in> set (table_get role_allowed_actions (ai_role i)) \<and>
    ai_target i \<notin> set (cp_blocked_targets p) \<and> ai_destination i \<notin> set (cp_blocked_destinations p) \<and>
    ai_data_scope i \<notin> set (cp_blocked_data_scopes p) \<and> a \<noteq> SUSPENDED"
proof -
  have "fst (policy_check p i) = ALLOW \<and> a \<noteq> SUSPENDED"
    using effective_decision [OF assms(1)] assms(2) by (auto split: if_splits)
  then show ?thesis by (auto simp: policy_check_def split: if_splits)
qed

definition read_intent :: action_intent where
  "read_intent = fix_intent\<lparr>ai_action := ''inspect_code'', ai_read_only := True, ai_requires_filesystem := False\<rparr>"

theorem allowed_intents_are_harmless_witness:
  "''inspect_code'' \<notin> set sensitive_actions"
  using allowed_intents_are_harmless [of read_intent LIMITED default_capability_policy
      "\<lparr>ec_decision = ALLOW, ec_reason = ''effective_authority_allowed'', ec_state = ''LIMITED'', ec_action = ''inspect_code''\<rparr>"]
  by code_simp

lemma requirement_rows:
  "\<forall>(a, es) \<in> set sensitive_evidence_requirements. \<forall>e \<in> set es.
     \<exists>role \<in> {''developer'', ''security_checker'', ''validator''}. evidence_source_allowed e role"
  by code_simp

lemma sensitive_rows: "\<forall>a \<in> set sensitive_actions. table_get sensitive_evidence_requirements a \<noteq> []"
  by code_simp

text \<open>
  every piece of evidence the policy can demand can be supplied. Each claim type in the
  sorted, duplicate-free list of required evidence has a role that may attest it, and an
  action of the sensitive list always demands some.
\<close>

theorem required_evidence_obtainable:
  "(\<forall>e \<in> set (required_evidence i). \<exists>role \<in> {''developer'', ''security_checker'', ''validator''}. evidence_source_allowed e role) \<and>
   sorted (required_evidence i) \<and> distinct (required_evidence i) \<and>
   (ai_action i \<in> set sensitive_actions \<longrightarrow> required_evidence i \<noteq> [])"
proof (intro conjI)
  have known: "\<forall>e \<in> set (table_get sensitive_evidence_requirements a).
      \<exists>role \<in> {''developer'', ''security_checker'', ''validator''}. evidence_source_allowed e role" for a
  proof (cases "map_of sensitive_evidence_requirements a")
    case (Some es)
    from bspec [OF requirement_rows map_of_SomeD [OF Some]] Some show ?thesis by (simp add: table_get_def)
  qed (simp add: table_get_def)
  have extra: "\<forall>e \<in> {''financial_authorization'', ''destination_allowed'', ''privilege_scope_verified'',
      ''rollback_or_recovery_ready'', ''explicit_evidence''}.
      \<exists>role \<in> {''developer'', ''security_checker'', ''validator''}. evidence_source_allowed e role"
    by code_simp
  have sub: "set (required_evidence i) \<subseteq> set (table_get sensitive_evidence_requirements (ai_action i)) \<union>
      {''financial_authorization'', ''destination_allowed'', ''privilege_scope_verified'',
       ''rollback_or_recovery_ready'', ''explicit_evidence''}"
    unfolding required_evidence_def Let_def by (simp add: subset_iff)
  show "\<forall>e \<in> set (required_evidence i). \<exists>role \<in> {''developer'', ''security_checker'', ''validator''}. evidence_source_allowed e role"
  proof
    fix e assume "e \<in> set (required_evidence i)"
    with sub have "e \<in> set (table_get sensitive_evidence_requirements (ai_action i)) \<or>
      e \<in> {''financial_authorization'', ''destination_allowed'', ''privilege_scope_verified'',
       ''rollback_or_recovery_ready'', ''explicit_evidence''}" by (meson UnE subsetD)
    then show "\<exists>role \<in> {''developer'', ''security_checker'', ''validator''}. evidence_source_allowed e role"
      using known [of "ai_action i"] extra by (meson bspec)
  qed
  show "sorted (required_evidence i)" "distinct (required_evidence i)" by (simp_all add: required_evidence_def Let_def)
  have "a \<in> set sensitive_actions \<Longrightarrow> table_get sensitive_evidence_requirements a \<noteq> []" for a
    using sensitive_rows by blast
  moreover have "set (table_get sensitive_evidence_requirements (ai_action i)) \<subseteq> set (required_evidence i)"
    unfolding required_evidence_def Let_def by (simp add: subset_iff)
  ultimately show "ai_action i \<in> set sensitive_actions \<longrightarrow> required_evidence i \<noteq> []"
    by (metis list.set(1) set_empty subset_empty)
qed

theorem required_evidence_obtainable_witness:
  "required_evidence fix_intent \<noteq> [] \<and> (\<exists>role. evidence_source_allowed ''tests_passed'' role)"
proof -
  have "ai_action fix_intent \<in> set sensitive_actions" "''tests_passed'' \<in> set (required_evidence fix_intent)" by code_simp+
  with required_evidence_obtainable [of fix_intent] show ?thesis by blast
qed

text \<open>
  A REQUIRE_EVIDENCE decision may come with an empty list of evidence: a write by an action
  outside the sensitive list, with no flag set.
\<close>

theorem evidence_decision_without_evidence:
  "let i = fix_intent\<lparr>ai_action := ''run_tests''\<rparr> in
     fst (policy_check default_capability_policy i) = REQUIRE_EVIDENCE \<and> required_evidence i = []"
  by code_simp

text \<open>
  Trust decisions that translate into authority are exactly those the state machine accepts,
  and authority continues exactly on a trusted outcome.
\<close>

lemma trust_to_authority_agrees:
  "(\<exists>r. trust_to_authority (Some d) = Inr r \<and> (au_decision r = ''AUTHORITY_CONTINUE'' \<longleftrightarrow> ft_status d = ''TRUSTED'')) \<longleftrightarrow>
   (\<exists>r. apply_trust m (Some \<lparr>td_status = ft_status d, td_proof_id = ft_proof_id d\<rparr>) = Inr r)"
  by (cases "am_state m")
    (auto simp: trust_to_authority_def apply_trust_def Let_def evaluate_trusted_def parse_authority_state_def)

end
