(* ===== verification/GrantStore.thy ===== *)
theory GrantStore
  imports Lifecycle Json
begin

text \<open>
  The persistent lifecycle of capability grants (\<^verbatim>\<open>src/shared/capability_grant_store.py\<close>):
  registration, consumption and revocation. Each write is one conditional statement, so the
  operations are atomic and a run is a sequence of them, whichever processes issue them.
  The payload column holds the JSON text of the signed grant; the model stores the value.
\<close>

record grant_row =
  gw_grant_id :: string
  gw_nonce :: string
  gw_task_id :: string
  gw_key_id :: string
  gw_payload :: json
  gw_issued_at :: string
  gw_expires_at :: string
  gw_status :: string
  gw_created_at :: string
  gw_consumed_at :: "string option"
  gw_revoked_at :: "string option"
  gw_revoke_reason :: "string option"

type_synonym grant_table = "grant_row list"

text \<open>What the store reads of a signed grant.\<close>

record signed_grant =
  sg_grant_id :: string
  sg_nonce :: string
  sg_task_id :: string
  sg_key_id :: string
  sg_payload :: json
  sg_issued_at :: string
  sg_expires_at :: string

definition grant_status :: "grant_table \<Rightarrow> string \<Rightarrow> string option" where
  "grant_status db g = map_option gw_status (lookup_row gw_grant_id db g)"

definition new_grant_row :: "signed_grant \<Rightarrow> string \<Rightarrow> grant_row" where
  "new_grant_row s now = \<lparr>gw_grant_id = sg_grant_id s, gw_nonce = sg_nonce s, gw_task_id = sg_task_id s,
     gw_key_id = sg_key_id s, gw_payload = sg_payload s, gw_issued_at = sg_issued_at s,
     gw_expires_at = sg_expires_at s, gw_status = ''ACTIVE'', gw_created_at = now, gw_consumed_at = None,
     gw_revoked_at = None, gw_revoke_reason = None\<rparr>"

text \<open>
  True when the row is inserted, False when an ACTIVE row of the grant exists. Both UNIQUE
  constraints are handled alike, so a fresh grant whose nonce is taken is reported as
  finalized.
\<close>

definition grant_register :: "grant_table \<Rightarrow> signed_grant \<Rightarrow> string \<Rightarrow> (bool \<times> grant_table) result" where
  "grant_register db s now =
    (if lookup_row gw_grant_id db (sg_grant_id s) \<noteq> None \<or> lookup_row gw_nonce db (sg_nonce s) \<noteq> None
     then (if grant_status db (sg_grant_id s) = Some ''ACTIVE'' then Inr (False, db)
           else raise CapabilityGrantStoreError ''grant_already_finalized'')
     else Inr (True, db @ [new_grant_row s now]))"

definition ensure_registered :: "grant_table \<Rightarrow> signed_grant \<Rightarrow> string \<Rightarrow> (string \<times> grant_table) result" where
  "ensure_registered db s now =
    (case grant_status db (sg_grant_id s) of
       Some st \<Rightarrow> Inr (st, db)
     | None \<Rightarrow> bindR (grant_register db s now) (\<lambda>(_, db'). Inr (''ACTIVE'', db')))"

text \<open>\<open>decode\<close> is \<^verbatim>\<open>SignedCapabilityGrant.from_dict\<close>.\<close>

definition get_signed :: "(json \<Rightarrow> 'g result) \<Rightarrow> grant_table \<Rightarrow> string \<Rightarrow> 'g option result" where
  "get_signed decode db g = (case lookup_row gw_grant_id db g of
      None \<Rightarrow> Inr None
    | Some row \<Rightarrow> rescue type_or_value (\<lambda>_. Exc CapabilityGrantStoreError ''grant_payload_invalid'')
        (bindR (decode (gw_payload row)) (\<lambda>x. Inr (Some x))))"

abbreviation active_grant :: "string \<Rightarrow> grant_row \<Rightarrow> bool" where
  "active_grant g r \<equiv> gw_grant_id r = g \<and> gw_status r = ''ACTIVE''"

definition grant_revoke :: "grant_table \<Rightarrow> string \<Rightarrow> string \<Rightarrow> string \<Rightarrow> grant_table result" where
  "grant_revoke db g reason now =
    (let db' = update_where (active_grant g) (\<lambda>r. r\<lparr>gw_status := ''REVOKED'', gw_revoked_at := Some now,
                 gw_revoke_reason := Some (take 500 reason)\<rparr>) db
     in if count_where (active_grant g) db = 1 then Inr db'
        else if grant_status db' g = None then raise CapabilityGrantStoreError ''grant_not_found''
        else raise CapabilityGrantStoreError ''grant_not_active'')"

definition grant_consume :: "grant_table \<Rightarrow> string \<Rightarrow> string \<Rightarrow> grant_table result" where
  "grant_consume db g at =
    (let db' = update_where (active_grant g) (\<lambda>r. r\<lparr>gw_status := ''CONSUMED'', gw_consumed_at := Some at\<rparr>) db
     in if count_where (active_grant g) db = 1 then Inr db'
        else if grant_status db' g = Some ''REVOKED'' then raise CapabilityGrantStoreError ''grant_revoked''
        else if grant_status db' g = Some ''CONSUMED'' then raise CapabilityGrantStoreError ''grant_replayed''
        else raise CapabilityGrantStoreError ''grant_not_found'')"

section \<open>The lifecycle\<close>

definition grant_allowed :: "string \<Rightarrow> string \<Rightarrow> bool" where
  "grant_allowed a b \<longleftrightarrow> a = ''ACTIVE'' \<and> (b = ''CONSUMED'' \<or> b = ''REVOKED'')"

definition grants_inv :: "grant_table \<Rightarrow> bool" where
  "grants_inv db \<longleftrightarrow> key_unique gw_grant_id db \<and> key_unique gw_nonce db"

datatype grant_call =
    GRegister signed_grant string
  | GEnsure signed_grant string
  | GRevoke string string string
  | GConsume string string

definition table_of :: "'a result \<Rightarrow> ('a \<Rightarrow> grant_table) \<Rightarrow> grant_table \<Rightarrow> grant_table" where
  "table_of r f db = (case r of Inl _ \<Rightarrow> db | Inr x \<Rightarrow> f x)"

fun grant_step :: "grant_call \<Rightarrow> grant_table \<Rightarrow> grant_table" where
  "grant_step (GRegister s now) db = table_of (grant_register db s now) snd db"
| "grant_step (GEnsure s now) db = table_of (ensure_registered db s now) snd db"
| "grant_step (GRevoke g reason now) db = table_of (grant_revoke db g reason now) id db"
| "grant_step (GConsume g at) db = table_of (grant_consume db g at) id db"

lemma count_active:
  assumes "grants_inv db"
  shows "count_where (active_grant g) db = (if grant_status db g = Some ''ACTIVE'' then 1 else 0)"
  using count_where_key [of gw_grant_id db g "\<lambda>r. gw_status r = ''ACTIVE''"] assms
  by (auto simp: grants_inv_def grant_status_def split: option.splits)

lemma update_active_inactive:
  assumes "grant_status db g \<noteq> Some ''ACTIVE''" and "grants_inv db"
  shows "update_where (active_grant g) f db = db"
proof (rule update_where_noop)
  fix r assume "r \<in> set db"
  then show "\<not> active_grant g r"
    using assms lookup_row_mem [of gw_grant_id db r] by (auto simp: grants_inv_def grant_status_def)
qed

lemma update_active_status:
  assumes "\<And>r. gw_grant_id (f r) = gw_grant_id r" and "\<And>r. gw_status (f r) = st"
  shows "grant_status (update_where (active_grant g) f db) k =
    (if k = g \<and> grant_status db g = Some ''ACTIVE'' then Some st else grant_status db k)"
proof (cases "lookup_row gw_grant_id db k")
  case None
  with assms(1) show ?thesis by (auto simp: grant_status_def table_simps)
next
  case (Some r)
  then have "gw_grant_id r = k" by (blast dest: lookup_row_SomeD)
  with Some assms show ?thesis by (auto simp: grant_status_def table_simps)
qed

text \<open>Both writes, completely: they return exactly on an ACTIVE grant.\<close>

lemma grant_consume_behaviour:
  assumes "grants_inv db"
  shows "grant_consume db g at =
    (case grant_status db g of
       None \<Rightarrow> raise CapabilityGrantStoreError ''grant_not_found''
     | Some st \<Rightarrow>
        if st = ''ACTIVE'' then Inr (update_where (active_grant g)
            (\<lambda>r. r\<lparr>gw_status := ''CONSUMED'', gw_consumed_at := Some at\<rparr>) db)
        else if st = ''REVOKED'' then raise CapabilityGrantStoreError ''grant_revoked''
        else if st = ''CONSUMED'' then raise CapabilityGrantStoreError ''grant_replayed''
        else raise CapabilityGrantStoreError ''grant_not_found'')"
proof (cases "grant_status db g = Some ''ACTIVE''")
  case False
  then show ?thesis
    using update_active_inactive [OF False assms]
    by (simp add: grant_consume_def Let_def count_active [OF assms] split: option.splits)
qed (simp add: grant_consume_def Let_def count_active [OF assms])

lemma grant_revoke_behaviour:
  assumes "grants_inv db"
  shows "grant_revoke db g reason now =
    (case grant_status db g of
       None \<Rightarrow> raise CapabilityGrantStoreError ''grant_not_found''
     | Some st \<Rightarrow>
        if st = ''ACTIVE'' then Inr (update_where (active_grant g)
            (\<lambda>r. r\<lparr>gw_status := ''REVOKED'', gw_revoked_at := Some now, gw_revoke_reason := Some (take 500 reason)\<rparr>) db)
        else raise CapabilityGrantStoreError ''grant_not_active'')"
proof (cases "grant_status db g = Some ''ACTIVE''")
  case False
  then show ?thesis
    using update_active_inactive [OF False assms]
    by (simp add: grant_revoke_def Let_def count_active [OF assms] split: option.splits)
qed (simp add: grant_revoke_def Let_def count_active [OF assms])

lemma grants_inv_update:
  "(\<And>r. gw_grant_id (f r) = gw_grant_id r) \<Longrightarrow> (\<And>r. gw_nonce (f r) = gw_nonce r) \<Longrightarrow>
   grants_inv (update_where p f db) = grants_inv db"
  by (simp add: grants_inv_def)

lemma grant_register_cases:
  assumes "grant_register db s now = Inr (b, db')"
  obtains "b = False" "db' = db" "grant_status db (sg_grant_id s) = Some ''ACTIVE''"
  | "b = True" "db' = db @ [new_grant_row s now]" "lookup_row gw_grant_id db (sg_grant_id s) = None"
    "lookup_row gw_nonce db (sg_nonce s) = None"
  using assms by (auto simp: grant_register_def split: if_splits)

lemma grant_register_keeps:
  assumes inv: "grants_inv db" and step: "grant_register db s now = Inr (b, db')"
  shows "grants_inv db' \<and> (\<forall>k a. grant_status db k = Some a \<longrightarrow> grant_status db' k = Some a)"
  using step
proof (cases rule: grant_register_cases)
  case 2
  with inv show ?thesis by (auto simp: grants_inv_def grant_status_def new_grant_row_def table_simps)
qed (use inv in auto)

lemma grant_step_keeps:
  assumes inv: "grants_inv db"
  shows "grants_inv (grant_step c db) \<and> (\<forall>k a. grant_status db k = Some a \<longrightarrow>
    (\<exists>b. grant_status (grant_step c db) k = Some b \<and> (b = a \<or> grant_allowed a b)))"
proof (cases c)
  case (GRegister s now)
  show ?thesis
  proof (cases "grant_register db s now")
    case (Inr x)
    with grant_register_keeps [OF inv, of s now "fst x" "snd x"] GRegister show ?thesis by (simp add: table_of_def)
  qed (use inv GRegister in \<open>simp add: table_of_def\<close>)
next
  case (GEnsure s now)
  show ?thesis
  proof (cases "ensure_registered db s now")
    case (Inr x)
    then have "snd x = db \<or> (\<exists>b. grant_register db s now = Inr (b, snd x))"
      by (auto simp: ensure_registered_def bindR_Inr_iff split: option.splits)
    with grant_register_keeps [OF inv] inv GEnsure Inr show ?thesis by (auto simp: table_of_def)
  qed (use inv GEnsure in \<open>simp add: table_of_def\<close>)
next
  case (GRevoke g reason now)
  then show ?thesis
    using inv by (auto simp: table_of_def grant_revoke_behaviour [OF inv] grants_inv_update update_active_status
        grant_allowed_def split: option.splits)
next
  case (GConsume g at)
  then show ?thesis
    using inv by (auto simp: table_of_def grant_consume_behaviour [OF inv] grants_inv_update update_active_status
        grant_allowed_def split: option.splits)
qed

interpretation grants: lifecycle grant_status grant_allowed "\<lambda>_ _. True" grant_step grants_inv
  by unfold_locales (use grant_step_keeps in blast)+

abbreviation grant_run :: "grant_call list \<Rightarrow> grant_table" where
  "grant_run cs \<equiv> fold grant_step cs []"

lemma grant_run_inv: "grants_inv (grant_run cs)"
  by (rule grants.run_inv) (simp_all add: grants_inv_def)

section \<open>Properties\<close>

text \<open>
  C6: a grant is used at most once. After a consumption that returned, whatever is done to
  the store, every further consumption of the grant raises grant_replayed, every revocation
  raises grant_not_active, and every registration of it is refused.
\<close>

theorem consumed_grant_is_spent:
  assumes "grant_consume (grant_run cs) g at = Inr db"
  shows "grant_consume (fold grant_step cs' db) g at' = raise CapabilityGrantStoreError ''grant_replayed'' \<and>
    grant_revoke (fold grant_step cs' db) g reason now = raise CapabilityGrantStoreError ''grant_not_active'' \<and>
    (sg_grant_id s = g \<longrightarrow>
       grant_register (fold grant_step cs' db) s now = raise CapabilityGrantStoreError ''grant_already_finalized'')"
proof -
  have "db = grant_step (GConsume g at) (grant_run cs)" using assms by (simp add: table_of_def)
  then have run: "fold grant_step cs' db = grant_run (cs @ [GConsume g at] @ cs')" by simp
  have inv: "grants_inv (fold grant_step cs' db)" unfolding run by (rule grant_run_inv)
  have inv0: "grants_inv db" using grant_run_inv [of "cs @ [GConsume g at]"] \<open>db = _\<close> by simp
  have "grant_status db g = Some ''CONSUMED''"
    using assms by (auto simp: grant_consume_behaviour [OF grant_run_inv] update_active_status split: option.splits if_splits)
  from grants.terminal_absorbing [OF inv0 _ this, of cs']
  have "grant_status (fold grant_step cs' db) g = Some ''CONSUMED''" by (simp add: terminal_in_def grant_allowed_def)
  then show ?thesis
    by (auto simp: grant_consume_behaviour [OF inv] grant_revoke_behaviour [OF inv] grant_register_def grant_status_def)
qed

definition demo_grant :: signed_grant where
  "demo_grant = \<lparr>sg_grant_id = ''g'', sg_nonce = ''n'', sg_task_id = ''t'', sg_key_id = ''k'', sg_payload = JObj [],
     sg_issued_at = ''t0'', sg_expires_at = ''t9''\<rparr>"

theorem consumed_grant_is_spent_witness:
  "grant_consume (grant_run [GRegister demo_grant ''t0'', GConsume ''g'' ''t1'', GEnsure demo_grant ''t2'']) ''g'' ''t3'' =
     raise CapabilityGrantStoreError ''grant_replayed''"
proof -
  have "grant_consume (grant_run [GRegister demo_grant ''t0'']) ''g'' ''t1'' =
      Inr [new_grant_row demo_grant ''t0''\<lparr>gw_status := ''CONSUMED'', gw_consumed_at := Some ''t1''\<rparr>]"
    by code_simp
  from consumed_grant_is_spent [OF this, of "[GEnsure demo_grant ''t2'']" "''t3''"] this
  show ?thesis by (simp add: table_of_def)
qed

text \<open>
  a revoked grant is never usable again: no later run of the store consumes it or
  registers it anew.
\<close>

theorem revoked_grant_is_dead:
  assumes "grant_status (grant_run cs) g = Some ''REVOKED''"
  shows "grant_consume (grant_run (cs @ cs')) g at = raise CapabilityGrantStoreError ''grant_revoked'' \<and>
    (sg_grant_id s = g \<longrightarrow> ensure_registered (grant_run (cs @ cs')) s now = Inr (''REVOKED'', grant_run (cs @ cs')))"
proof -
  have "grant_status (grant_run (cs @ cs')) g = Some ''REVOKED''"
    using grants.terminal_absorbing [OF grant_run_inv _ assms, of cs'] by (simp add: terminal_in_def grant_allowed_def)
  then show ?thesis
    using grant_consume_behaviour [OF grant_run_inv, of "cs @ cs'"] by (auto simp: ensure_registered_def)
qed

theorem revoked_grant_is_dead_witness:
  "grant_consume (grant_run ([GRegister demo_grant ''t0'', GRevoke ''g'' ''policy'' ''t1''] @ [GRegister demo_grant ''t2''])) ''g'' ''t3'' =
     raise CapabilityGrantStoreError ''grant_revoked''"
proof -
  have "grant_status (grant_run [GRegister demo_grant ''t0'', GRevoke ''g'' ''policy'' ''t1'']) ''g'' = Some ''REVOKED''"
    by code_simp
  from revoked_grant_is_dead [OF this] show ?thesis by blast
qed

end
