(* ===== verification/ResearchCase.thy ===== *)
theory ResearchCase
  imports Prelude
begin

text \<open>
  Research cases (\<^verbatim>\<open>src/shared/research_case.py\<close>) and the scope gate
  (\<^verbatim>\<open>src/shared/scope_gate.py\<close>): the validation a case and its rounds pass when they are
  constructed, the binding of tasks to cases, and the gate a worker asks before it runs.
  Date and URL parsing are those of Python 3.10, the version the repository's CI runs.
\<close>

section \<open>Enumerations and text helpers\<close>

datatype execution_mode = LOCAL | AUTHORIZED_FORK | TESTNET

fun execution_mode_value :: "execution_mode \<Rightarrow> string" where
  "execution_mode_value LOCAL = ''local''"
| "execution_mode_value AUTHORIZED_FORK = ''authorized_fork''"
| "execution_mode_value TESTNET = ''testnet''"

definition parse_execution_mode :: "string \<Rightarrow> execution_mode option" where
  "parse_execution_mode s = find (\<lambda>m. execution_mode_value m = s) [LOCAL, AUTHORIZED_FORK, TESTNET]"

datatype case_status = DRAFT | READY | CASE_RUNNING | CONFIRMED | REJECTED | INCONCLUSIVE | OUT_OF_SCOPE

fun case_status_value :: "case_status \<Rightarrow> string" where
  "case_status_value DRAFT = ''draft''"
| "case_status_value READY = ''ready''"
| "case_status_value CASE_RUNNING = ''running''"
| "case_status_value CONFIRMED = ''confirmed''"
| "case_status_value REJECTED = ''rejected''"
| "case_status_value INCONCLUSIVE = ''inconclusive''"
| "case_status_value OUT_OF_SCOPE = ''out_of_scope''"

definition parse_case_status :: "string \<Rightarrow> case_status option" where
  "parse_case_status s = find (\<lambda>m. case_status_value m = s)
     [DRAFT, READY, CASE_RUNNING, CONFIRMED, REJECTED, INCONCLUSIVE, OUT_OF_SCOPE]"

definition is_hex :: "char \<Rightarrow> bool" where
  "is_hex c \<longleftrightarrow> (48 \<le> char_code c \<and> char_code c \<le> 57) \<or> (65 \<le> char_code c \<and> char_code c \<le> 70) \<or>
     (97 \<le> char_code c \<and> char_code c \<le> 102)"

definition is_ascii_alpha :: "char \<Rightarrow> bool" where
  "is_ascii_alpha c \<longleftrightarrow> (65 \<le> char_code c \<and> char_code c \<le> 90) \<or> (97 \<le> char_code c \<and> char_code c \<le> 122)"

text \<open>The fullmatches of the commit and digest patterns.\<close>

definition hex_of_length :: "nat \<Rightarrow> string \<Rightarrow> bool" where
  "hex_of_length n s \<longleftrightarrow> length s = n \<and> list_all is_hex s"

text \<open>The fullmatch of owner/repository: two nonempty runs of the class around one slash.\<close>

definition repo_char :: "char \<Rightarrow> bool" where
  "repo_char c \<longleftrightarrow> is_ascii_alpha c \<or> is_ascii_digit c \<or> c \<in> {CHR ''_'', CHR ''.'', CHR ''-''}"

definition owner_repository :: "string \<Rightarrow> bool" where
  "owner_repository s \<longleftrightarrow> (let a = takeWhile repo_char s; rest = dropWhile repo_char s in
     a \<noteq> [] \<and> (case rest of [] \<Rightarrow> False | c # b \<Rightarrow> c = CHR ''/'' \<and> b \<noteq> [] \<and> list_all repo_char b))"

section \<open>Dates\<close>

type_synonym date = "int \<times> int \<times> int"

definition digits_value :: "string \<Rightarrow> int option" where
  "digits_value s = (if list_all is_ascii_digit s
     then Some (fold (\<lambda>c n. 10 * n + int (char_code c - 48)) s 0) else None)"

definition leap_year :: "int \<Rightarrow> bool" where
  "leap_year y \<longleftrightarrow> 4 dvd y \<and> (\<not> 100 dvd y \<or> 400 dvd y)"

definition days_in_month :: "int \<Rightarrow> int \<Rightarrow> int" where
  "days_in_month y m = (if m = 2 then (if leap_year y then 29 else 28)
     else if m \<in> {4, 6, 9, 11} then 30 else 31)"

text \<open>\<^verbatim>\<open>date.fromisoformat\<close>: exactly YYYY-MM-DD and a date of the proleptic Gregorian calendar.\<close>

definition date_fromisoformat :: "string \<Rightarrow> date option" where
  "date_fromisoformat s =
    (if length s = 10 \<and> s ! 4 = CHR ''-'' \<and> s ! 7 = CHR ''-'' then
       (case (digits_value (take 4 s), digits_value (take 2 (drop 5 s)), digits_value (drop 8 s)) of
          (Some y, Some m, Some d) \<Rightarrow>
            if 1 \<le> y \<and> 1 \<le> m \<and> m \<le> 12 \<and> 1 \<le> d \<and> d \<le> days_in_month y m then Some (y, m, d) else None
        | _ \<Rightarrow> None)
     else None)"

definition pad_digits :: "nat \<Rightarrow> int \<Rightarrow> string" where
  "pad_digits n i = (let s = nat_str (nat i) in replicate (n - length s) CHR ''0'' @ s)"

definition date_isoformat :: "date \<Rightarrow> string" where
  "date_isoformat x = (case x of (y, m, d) \<Rightarrow>
     pad_digits 4 y @ ''-'' @ pad_digits 2 m @ ''-'' @ pad_digits 2 d)"

section \<open>URLs\<close>

definition scheme_char :: "char \<Rightarrow> bool" where
  "scheme_char c \<longleftrightarrow> is_ascii_alpha c \<or> is_ascii_digit c \<or> c \<in> {CHR ''+'', CHR ''-'', CHR ''.''}"

definition to_lower :: "char \<Rightarrow> char" where
  "to_lower c = (if 65 \<le> char_code c \<and> char_code c \<le> 90 then char_of (char_code c + 32) else c)"

text \<open>
  The scheme and the network location \<^verbatim>\<open>urlparse\<close> finds: leading control characters and
  spaces are stripped, tabs and newlines removed.
\<close>

definition url_split :: "string \<Rightarrow> (string \<times> string) result" where
  "url_split url0 =
    (let url1 = dropWhile (\<lambda>c. char_code c \<le> 32) url0;
         url = filter (\<lambda>c. c \<notin> {CHR 0x09, CHR 0x0A, CHR 0x0D}) url1;
         pre = takeWhile (\<lambda>c. c \<noteq> CHR '':'') url;
         (scheme, rest) = (if length pre < length url \<and> pre \<noteq> [] \<and> list_all scheme_char pre
            then (map to_lower pre, drop (length pre + 1) url) else ([], url));
         netloc = (if take 2 rest = ''//''
            then takeWhile (\<lambda>c. c \<notin> {CHR ''/'', CHR ''?'', CHR ''#''}) (drop 2 rest) else [])
     in if (CHR ''['' \<in> set netloc) \<noteq> (CHR '']'' \<in> set netloc)
        then raise ValueError ''Invalid IPv6 URL''
        else Inr (scheme, netloc))"

definition starts_with :: "string \<Rightarrow> string \<Rightarrow> bool" where
  "starts_with p s \<longleftrightarrow> take (length p) s = p"

text \<open>\<^verbatim>\<open>fullmatch(...) or (startswith("https://") and urlparse(repo).netloc)\<close>.\<close>

definition repository_valid :: "string \<Rightarrow> bool result" where
  "repository_valid repo =
    (if owner_repository repo then Inr True
     else if starts_with ''https://'' repo then bindR (url_split repo) (\<lambda>(_, netloc). Inr (netloc \<noteq> []))
     else Inr False)"

section \<open>Rounds\<close>

record round_spec =
  rs_round_id :: string
  rs_technique :: string
  rs_hypothesis :: string
  rs_atoms :: "string list"
  rs_falsification :: string
  rs_priority :: int
  rs_deadline_days :: int

definition short_deadline_techniques :: "string list" where
  "short_deadline_techniques = [''source_pattern'', ''crypto_primitive_analysis'', ''differential_revision'']"

definition make_round_spec :: "round_spec \<Rightarrow> round_spec result" where
  "make_round_spec r =
    (if blank (rs_round_id r) then raise CaseValidationError ''round_id_required''
     else if blank (rs_technique r) then raise CaseValidationError ''technique_required''
     else if blank (rs_hypothesis r) then raise CaseValidationError ''hypothesis_required''
     else if blank (rs_falsification r) then raise CaseValidationError ''falsification_criteria_required''
     else if rs_atoms r = [] then raise CaseValidationError ''round_expected_evidence_atoms_required''
     else if list_ex blank (rs_atoms r) then raise CaseValidationError ''round_expected_evidence_atoms_invalid''
     else if \<not> (7 \<le> rs_deadline_days r \<and> rs_deadline_days r \<le> 180)
     then raise CaseValidationError ''round_disclosure_deadline_days_out_of_range:7..180''
     else if rs_technique r \<in> set short_deadline_techniques \<and> 60 < rs_deadline_days r
     then raise CaseValidationError (''round_disclosure_deadline_days_exceeds_technique_max:'' @ rs_technique r @ '':60'')
     else Inr r)"

section \<open>Cases\<close>

definition allowed_technique_names :: "string list" where
  "allowed_technique_names = [''source_pattern'', ''differential_revision'', ''symbolic_execution'', ''fuzzing'',
     ''formal_verification'', ''crypto_primitive_analysis'', ''supply_chain'', ''runtime_probe'']"

record research_case =
  rc_case_id :: string
  rc_target_repository :: string
  rc_target_commit :: string
  rc_scope_url :: string
  rc_scope_digest :: string
  rc_scope_reviewed_on :: string
  rc_hypothesis :: string
  rc_attacker_capability :: string
  rc_expected_invariant :: string
  rc_falsification :: string
  rc_execution_mode :: execution_mode
  rc_status :: case_status
  rc_allowed_techniques :: "string list"
  rc_rounds :: "round_spec list"

text \<open>The loop over the rounds with the set of round ids seen so far.\<close>

fun check_rounds :: "string list \<Rightarrow> string list \<Rightarrow> round_spec list \<Rightarrow> unit result" where
  "check_rounds allowed seen [] = Inr ()"
| "check_rounds allowed seen (r # rs) =
    (if rs_round_id r \<in> set seen then raise CaseValidationError (''duplicate_round_id:'' @ rs_round_id r)
     else if rs_technique r \<notin> set allowed
     then raise CaseValidationError (''round_technique_not_in_allowed:'' @ rs_round_id r @ '':'' @ rs_technique r)
     else check_rounds allowed (rs_round_id r # seen) rs)"

definition required_case_fields :: "research_case \<Rightarrow> (string \<times> string) list" where
  "required_case_fields c =
    [(''case_id'', rc_case_id c), (''target_repository'', rc_target_repository c), (''scope_url'', rc_scope_url c),
     (''scope_digest'', rc_scope_digest c), (''scope_reviewed_on'', rc_scope_reviewed_on c),
     (''hypothesis'', rc_hypothesis c), (''attacker_capability'', rc_attacker_capability c),
     (''expected_invariant'', rc_expected_invariant c), (''falsification_criteria'', rc_falsification c)]"

fun join_list :: "string \<Rightarrow> string list \<Rightarrow> string" where
  "join_list sep [] = []"
| "join_list sep [x] = x"
| "join_list sep (x # y # xs) = x @ sep @ join_list sep (y # xs)"

text \<open>
  The constructor. Mode and status arrive as texts (a str-valued enum member is its text);
  the fields of \<open>c\<close> for them are overwritten.
\<close>

definition make_research_case :: "research_case \<Rightarrow> string \<Rightarrow> string \<Rightarrow> research_case result" where
  "make_research_case c mode status =
    (if rc_allowed_techniques c = [] then raise CaseValidationError ''allowed_techniques_required''
     else
       (case find (\<lambda>t. t \<notin> set allowed_technique_names) (rc_allowed_techniques c) of
          Some t \<Rightarrow> raise CaseValidationError (''technique_not_allowed:'' @ t)
        | None \<Rightarrow>
           bindR (check_rounds (rc_allowed_techniques c) [] (rc_rounds c)) (\<lambda>_.
           let missing = map fst (filter (\<lambda>(_, v). blank v) (required_case_fields c)) in
           if missing \<noteq> [] then raise CaseValidationError (''Missing required research-case fields: '' @ join_list '', '' missing)
           else if date_fromisoformat (rc_scope_reviewed_on c) = None
           then raise CaseValidationError ''scope_reviewed_on must be an ISO date (YYYY-MM-DD)''
           else if \<not> hex_of_length 40 (rc_target_commit c)
           then raise CaseValidationError ''target_commit must be a full 40-character Git commit SHA; branches and movable tags are not accepted''
           else if \<not> hex_of_length 64 (rc_scope_digest c)
           then raise CaseValidationError ''scope_digest must be a SHA-256 hex digest''
           else
             bindR (url_split (rc_scope_url c)) (\<lambda>(scheme, netloc).
             if scheme \<noteq> ''https'' \<or> netloc = []
             then raise CaseValidationError ''scope_url must be an absolute HTTPS URL''
             else
               bindR (repository_valid (rc_target_repository c)) (\<lambda>ok.
               if \<not> ok then raise CaseValidationError ''target_repository must be owner/repository or an HTTPS URL''
               else
                 (case parse_execution_mode mode of
                    None \<Rightarrow> raise CaseValidationError ''Unsupported execution mode''
                  | Some m \<Rightarrow>
                     (case parse_case_status status of
                        None \<Rightarrow> raise CaseValidationError ''Unsupported case status''
                      | Some s \<Rightarrow> Inr (c\<lparr>rc_execution_mode := m, rc_status := s\<rparr>))))))))"

section \<open>Binding tasks to cases\<close>

definition case_required_roles :: "string list" where
  "case_required_roles = [''source_researcher'', ''crypto_analyst'', ''lab_runner'']"

definition validate_task_binding :: "research_case option \<Rightarrow> string option \<Rightarrow> research_case result" where
  "validate_task_binding rcase task_case_id =
    (case rcase of
       None \<Rightarrow> raise CaseValidationError ''Task has no research case; execution denied''
     | Some c \<Rightarrow>
        if task_case_id = None \<or> task_case_id = Some [] \<or> task_case_id \<noteq> Some (rc_case_id c)
        then raise CaseValidationError ''Task/case identifier mismatch; execution denied''
        else if rc_status c \<noteq> READY \<and> rc_status c \<noteq> CASE_RUNNING
        then raise CaseValidationError (''Case status '' @ [CHR 0x27] @ case_status_value (rc_status c) @ [CHR 0x27] @ '' does not permit execution'')
        else Inr c)"

definition validate_worker_case_binding :: "string \<Rightarrow> research_case option \<Rightarrow> string option \<Rightarrow> research_case option result" where
  "validate_worker_case_binding role rcase task_case_id =
    (if task_case_id = None \<or> task_case_id = Some [] then
       (if role \<in> set case_required_roles
        then raise CaseValidationError (''Role '' @ [CHR 0x27] @ role @ [CHR 0x27] @ '' requires a registered research case; execution denied'')
        else if rcase \<noteq> None then raise CaseValidationError ''Research case payload has no task binding''
        else Inr None)
     else bindR (validate_task_binding rcase task_case_id) (\<lambda>c. Inr (Some c)))"

section \<open>The scope gate\<close>

record gate_result =
  ga_allowed :: bool
  ga_reason :: string

definition min_scope_review_date :: date where
  "min_scope_review_date = (2020, 1, 1)"

fun gate_rounds :: "string list \<Rightarrow> string list \<Rightarrow> round_spec list \<Rightarrow> gate_result" where
  "gate_rounds allowed seen [] = \<lparr>ga_allowed = True, ga_reason = ''case_scope_envelope_valid''\<rparr>"
| "gate_rounds allowed seen (r # rs) =
    (if blank (rs_round_id r) then \<lparr>ga_allowed = False, ga_reason = ''round_id_missing''\<rparr>
     else if rs_round_id r \<in> set seen
     then \<lparr>ga_allowed = False, ga_reason = ''duplicate_round_id:'' @ rs_round_id r\<rparr>
     else if rs_technique r \<notin> set allowed_technique_names
     then \<lparr>ga_allowed = False, ga_reason = ''technique_not_allowed:'' @ rs_technique r\<rparr>
     else if rs_technique r \<notin> set allowed
     then \<lparr>ga_allowed = False, ga_reason = ''round_technique_not_in_case:'' @ rs_round_id r @ '':'' @ rs_technique r\<rparr>
     else gate_rounds allowed (rs_round_id r # seen) rs)"

text \<open>\<open>today\<close> is \<^verbatim>\<open>date.today()\<close>; parsing a URL may raise.\<close>

definition validate_case :: "date \<Rightarrow> research_case option \<Rightarrow> gate_result result" where
  "validate_case today rcase =
    (let deny = (\<lambda>r. Inr \<lparr>ga_allowed = False, ga_reason = r\<rparr>) in
     case rcase of
       None \<Rightarrow> deny ''research_case_required''
     | Some c \<Rightarrow>
        if blank (rc_case_id c) then deny ''case_id_missing''
        else if blank (rc_target_repository c) then deny ''target_repository_missing''
        else
          bindR (repository_valid (rc_target_repository c)) (\<lambda>ok.
          if \<not> ok then deny ''target_repository_invalid''
          else if blank (rc_hypothesis c) then deny ''hypothesis_missing''
          else if blank (rc_attacker_capability c) then deny ''attacker_capability_missing''
          else if blank (rc_expected_invariant c) then deny ''expected_invariant_missing''
          else if blank (rc_falsification c) then deny ''falsification_criteria_missing''
          else if \<not> hex_of_length 40 (rc_target_commit c) then deny ''target_commit_invalid''
          else if blank (rc_scope_url c) then deny ''scope_reference_missing''
          else
            bindR (url_split (rc_scope_url c)) (\<lambda>(scheme, netloc).
            if scheme \<noteq> ''https'' \<or> netloc = [] then deny ''scope_reference_invalid''
            else if \<not> hex_of_length 64 (rc_scope_digest c) then deny ''scope_digest_invalid''
            else if blank (rc_scope_reviewed_on c) then deny ''scope_review_date_missing''
            else
              (case date_fromisoformat (rc_scope_reviewed_on c) of
                 None \<Rightarrow> deny ''scope_review_date_invalid''
               | Some reviewed_on \<Rightarrow>
                  if date_isoformat reviewed_on \<noteq> rc_scope_reviewed_on c then deny ''scope_review_date_invalid''
                  else if today < reviewed_on then deny ''scope_review_date_in_future''
                  else if reviewed_on < min_scope_review_date then deny ''scope_review_date_implausible''
                  else if rc_allowed_techniques c = [] then deny ''allowed_techniques_required''
                  else
                    (case find (\<lambda>t. t \<notin> set allowed_technique_names) (rc_allowed_techniques c) of
                       Some t \<Rightarrow> deny (''technique_not_allowed:'' @ t)
                     | None \<Rightarrow> Inr (gate_rounds (rc_allowed_techniques c) [] (rc_rounds c)))))))"

section \<open>The gate and the constructor\<close>

definition digit_of :: "char \<Rightarrow> nat" where
  "digit_of c = char_code c - 48"

definition text_value :: "string \<Rightarrow> nat" where
  "text_value s = fold (\<lambda>c n. 10 * n + digit_of c) s 0"

lemma digits_value_eq: "digits_value s = (if list_all is_ascii_digit s then Some (int (text_value s)) else None)"
proof -
  have "fold (\<lambda>c n. 10 * n + int (char_code c - 48)) s (int k) = int (fold (\<lambda>c n. 10 * n + digit_of c) s k)" for k
  proof (induction s arbitrary: k)
    case (Cons c s)
    have "10 * int k + int (char_code c - 48) = int (10 * k + digit_of c)" by (simp add: digit_of_def)
    with Cons show ?case by (simp del: of_nat_add of_nat_mult)
  qed simp
  from this [of 0] show ?thesis by (simp add: digits_value_def text_value_def)
qed

lemma digit_char_of: "is_ascii_digit c \<Longrightarrow> char_of (48 + digit_of c) = c \<and> digit_of c < 10"
proof -
  assume "is_ascii_digit c"
  then have n: "48 \<le> (of_char c :: nat)" "(of_char c :: nat) \<le> 57" by (simp_all add: is_ascii_digit_def char_code_def)
  then have "48 + ((of_char c :: nat) - 48) = of_char c" by simp
  then have "char_of (48 + ((of_char c :: nat) - 48)) = c" by (simp only: char_of_char)
  with n show "char_of (48 + digit_of c) = c \<and> digit_of c < 10" by (simp add: digit_of_def char_code_def)
qed

lemma zero_char: "char_of (48 :: nat) = CHR ''0''"
  by code_simp

lemma nat_str_small: "n < 10 \<Longrightarrow> nat_str n = [char_of (48 + n)]"
  by (simp add: nat_str.simps)

lemma nat_str_snoc: "0 < v \<Longrightarrow> d < 10 \<Longrightarrow> nat_str (10 * v + d) = nat_str v @ [char_of (48 + d)]"
  using nat_str.simps [of "10 * v + d"] by simp

lemma pad_digits_value:
  "list_all is_ascii_digit s \<Longrightarrow> s \<noteq> [] \<Longrightarrow> pad_digits (length s) (int (text_value s)) = s"
proof (induction s rule: rev_induct)
  case (snoc c s)
  then have c: "char_of (48 + digit_of c) = c" "digit_of c < 10" by (simp_all add: digit_char_of)
  have val: "text_value (s @ [c]) = 10 * text_value s + digit_of c" by (simp add: text_value_def)
  show ?case
  proof (cases "s = []")
    case True
    with c show ?thesis by (simp add: pad_digits_def text_value_def nat_str_small)
  next
    case False
    with snoc have IH: "pad_digits (length s) (int (text_value s)) = s" by simp
    show ?thesis
    proof (cases "text_value s = 0")
      case True
      have "replicate (length s) CHR ''0'' = replicate (length s - 1) CHR ''0'' @ [CHR ''0'']"
        using False by (cases s) (simp_all add: replicate_append_same)
      then have "replicate (length s) CHR ''0'' = s"
        using IH by (simp add: True pad_digits_def nat_str_small zero_char)
      with True c show ?thesis by (simp add: pad_digits_def val nat_str_small)
    next
      case False
      then have "nat_str (text_value (s @ [c])) = nat_str (text_value s) @ [c]"
        using c by (simp add: val nat_str_snoc)
      then show ?thesis using IH by (simp add: pad_digits_def Let_def)
    qed
  qed
qed simp

lemma date_isoformat_fromisoformat:
  assumes "date_fromisoformat s = Some d"
  shows "date_isoformat d = s"
proof -
  from assms have len: "length s = 10" and dash: "s ! 4 = CHR ''-''" "s ! 7 = CHR ''-''"
    by (auto simp: date_fromisoformat_def split: if_splits)
  from assms have digits: "list_all is_ascii_digit (take 4 s)" "list_all is_ascii_digit (take 2 (drop 5 s))"
    "list_all is_ascii_digit (drop 8 s)" and d: "d = (int (text_value (take 4 s)),
      int (text_value (take 2 (drop 5 s))), int (text_value (drop 8 s)))"
    unfolding date_fromisoformat_def digits_value_eq by (auto split: if_splits)
  have split: "s = take 4 s @ s ! 4 # take 2 (drop 5 s) @ s ! 7 # drop 8 s"
  proof -
    have "s = take 4 s @ drop 4 s" by simp
    also have "drop 4 s = s ! 4 # drop 5 s" using len by (simp add: Cons_nth_drop_Suc [symmetric] numeral_eq_Suc)
    also have "drop 5 s = take 2 (drop 5 s) @ drop 7 s" using append_take_drop_id [of 2 "drop 5 s"] by simp
    also have "drop 7 s = s ! 7 # drop 8 s" using len by (simp add: Cons_nth_drop_Suc [symmetric] numeral_eq_Suc)
    finally show ?thesis .
  qed
  have "s \<noteq> []" "take 4 s \<noteq> []" "take 2 (drop 5 s) \<noteq> []" "drop 8 s \<noteq> []"
    "length (take 4 s) = 4" "length (take 2 (drop 5 s)) = 2" "length (drop 8 s) = 2"
    using len by auto
  then have "pad_digits 4 (int (text_value (take 4 s))) = take 4 s"
    "pad_digits 2 (int (text_value (take 2 (drop 5 s)))) = take 2 (drop 5 s)"
    "pad_digits 2 (int (text_value (drop 8 s))) = drop 8 s"
    using pad_digits_value [OF digits(1)] pad_digits_value [OF digits(2)] pad_digits_value [OF digits(3)] by metis+
  then show ?thesis using split dash by (simp add: d date_isoformat_def)
qed

lemma gate_rounds_accepts:
  assumes "check_rounds allowed seen rs = Inr ()" and "\<forall>r \<in> set rs. make_round_spec r = Inr r"
    and "set allowed \<subseteq> set allowed_technique_names"
  shows "gate_rounds allowed seen rs = \<lparr>ga_allowed = True, ga_reason = ''case_scope_envelope_valid''\<rparr>"
  using assms
proof (induction rs arbitrary: seen)
  case (Cons r rs)
  from Cons.prems have "\<not> blank (rs_round_id r)" by (auto simp: make_round_spec_def split: if_splits)
  with Cons show ?case by (auto split: if_splits)
qed simp

text \<open>
  C40: the scope gate admits what the constructor builds, except by date. For a case the
  constructor returned, made of rounds their constructor returned, the gate never raises
  and allows the case exactly if its review date is neither in the future nor before 2020.
\<close>

theorem gate_agrees_with_constructor:
  assumes made: "make_research_case c0 mode status = Inr c"
    and rounds: "\<forall>r \<in> set (rc_rounds c0). make_round_spec r = Inr r"
  shows "\<exists>d g. date_fromisoformat (rc_scope_reviewed_on c) = Some d \<and> validate_case today (Some c) = Inr g \<and>
    (ga_allowed g \<longleftrightarrow> d \<le> today \<and> min_scope_review_date \<le> d)"
proof -
  obtain scheme netloc ok m st where
    chk: "check_rounds (rc_allowed_techniques c0) [] (rc_rounds c0) = Inr ()"
    and ne: "rc_allowed_techniques c0 \<noteq> []"
    and known: "find (\<lambda>t. t \<notin> set allowed_technique_names) (rc_allowed_techniques c0) = None"
    and fields: "filter (\<lambda>(_, v). blank v) (required_case_fields c0) = []"
    and date: "date_fromisoformat (rc_scope_reviewed_on c0) \<noteq> None"
    and hex: "hex_of_length 40 (rc_target_commit c0)" "hex_of_length 64 (rc_scope_digest c0)"
    and url: "url_split (rc_scope_url c0) = Inr (scheme, netloc)" "scheme = ''https''" "netloc \<noteq> []"
    and repo: "repository_valid (rc_target_repository c0) = Inr True"
    and c: "c = c0\<lparr>rc_execution_mode := m, rc_status := st\<rparr>"
    using made unfolding make_research_case_def
    by (auto simp: bindR_Inr_iff Let_def split: if_splits option.splits)
  obtain d where d: "date_fromisoformat (rc_scope_reviewed_on c0) = Some d" using date by blast
  have iso: "date_isoformat d = rc_scope_reviewed_on c0" by (rule date_isoformat_fromisoformat [OF d])
  have nb: "\<not> blank (rc_case_id c0)" "\<not> blank (rc_target_repository c0)" "\<not> blank (rc_scope_url c0)"
    "\<not> blank (rc_scope_reviewed_on c0)" "\<not> blank (rc_hypothesis c0)" "\<not> blank (rc_attacker_capability c0)"
    "\<not> blank (rc_expected_invariant c0)" "\<not> blank (rc_falsification c0)"
    using fields by (simp_all add: required_case_fields_def split: if_splits)
  have sub: "set (rc_allowed_techniques c0) \<subseteq> set allowed_technique_names"
    using known by (auto simp: find_None_iff)
  have "validate_case today (Some c) =
    (if today < d then Inr \<lparr>ga_allowed = False, ga_reason = ''scope_review_date_in_future''\<rparr>
     else if d < min_scope_review_date then Inr \<lparr>ga_allowed = False, ga_reason = ''scope_review_date_implausible''\<rparr>
     else Inr (gate_rounds (rc_allowed_techniques c0) [] (rc_rounds c0)))"
    unfolding validate_case_def Let_def option.case
    by (simp add: c nb repo url hex d iso ne known)
  moreover note gate_rounds_accepts [OF chk rounds sub]
  ultimately show ?thesis using d by (auto simp: c not_less)
qed

definition demo_case_fields :: research_case where
  "demo_case_fields = \<lparr>rc_case_id = ''case1'', rc_target_repository = ''a/b'', rc_target_commit = replicate 40 CHR ''a'',
     rc_scope_url = ''https://x'', rc_scope_digest = replicate 64 CHR ''0'', rc_scope_reviewed_on = ''2024-02-29'',
     rc_hypothesis = ''h'', rc_attacker_capability = ''c'', rc_expected_invariant = ''i'', rc_falsification = ''f'',
     rc_execution_mode = LOCAL, rc_status = DRAFT, rc_allowed_techniques = [''source_pattern''],
     rc_rounds = [\<lparr>rs_round_id = ''r1'', rs_technique = ''source_pattern'', rs_hypothesis = ''h'', rs_atoms = [''e''],
       rs_falsification = ''f'', rs_priority = 0, rs_deadline_days = 30\<rparr>]\<rparr>"

theorem gate_agrees_with_constructor_witness:
  "\<exists>d g. validate_case (2024, 3, 1) (Some (demo_case_fields\<lparr>rc_status := READY\<rparr>)) = Inr g \<and>
     (ga_allowed g \<longleftrightarrow> d \<le> (2024, 3, 1) \<and> min_scope_review_date \<le> d)"
proof -
  have "make_research_case demo_case_fields ''local'' ''ready'' = Inr (demo_case_fields\<lparr>rc_status := READY\<rparr>)"
    by code_simp
  moreover have "\<forall>r \<in> set (rc_rounds demo_case_fields). make_round_spec r = Inr r" by code_simp
  ultimately show ?thesis by (blast dest: gate_agrees_with_constructor)
qed

end
