(* ===== verification/Tasks.thy ===== *)
theory Tasks
  imports ResearchCase Json
begin

text \<open>
  The task queue (\<^verbatim>\<open>src/shared/queue.py\<close>): the rows of its tables, enqueueing with the
  inheritance of case and round, the claim of work by workers, completion, failure, retry
  and recovery, the planner's views, and the compaction of history. Clock values and uuids
  are arguments; a result column holds the encoded JSON of a result, the model the JSON
  value.

  Steps. The claim runs in BEGIN IMMEDIATE; reports, decisions and the compaction of results
  are single guarded statements; these are one step each. \<^verbatim>\<open>requeue_failed\<close> reads first and
  updates later and is modelled over the databases it read and the one it writes. Enqueueing
  and registration read rows whose relevant columns never change afterwards (the case, the
  round and the payload of a case) before one INSERT. Recovery of stale tasks, repair and
  \<^verbatim>\<open>compact_history\<close> read and write several times in autocommit mode; they are modelled as
  calls that no other process interrupts, which is a simplification: the code does not
  enforce it, and a task that is requeued while \<^verbatim>\<open>compact_history\<close> runs can be deleted.
\<close>

section \<open>Rows\<close>

datatype task_status = Pending | Running | Completed | Failed

record task =
  tk_id :: string
  tk_description :: string
  tk_status :: task_status
  tk_worker :: "string option"
  tk_created_at :: instant
  tk_started_at :: "instant option"
  tk_finished_at :: "instant option"
  tk_role :: "string option"
  tk_parent :: "string option"
  tk_result :: "json option"
  tk_case_id :: "string option"
  tk_round_id :: "string option"
  tk_planner_decision :: "string option"
  tk_retry_count :: int
  tk_intent :: "json option"
  tk_allow_failed_parent :: bool
  tk_evaluation_only :: bool
  tk_evaluation_id :: "string option"

record case_row =
  cr_case_id :: string
  cr_payload :: research_case
  cr_registered_at :: instant

record human_review =
  hv_id :: string
  hv_case_id :: string
  hv_task_id :: "string option"
  hv_reason :: string
  hv_status :: string
  hv_created_at :: instant
  hv_resolved_at :: "instant option"
  hv_resolution :: "string option"

datatype round_status = RoundOpen | RoundExtended | RoundCompleted | RoundFailed

record round_row =
  rt_case_id :: string
  rt_round_id :: string
  rt_technique :: string
  rt_started_at :: instant
  rt_deadline :: instant
  rt_status :: round_status
  rt_completed_at :: "instant option"
  rt_verdict :: "string option"
  rt_extension_granted_at :: "instant option"
  rt_extension_reason :: "string option"

record case_round =
  cd_round_id :: string
  cd_case_id :: string
  cd_number :: int
  cd_root_task_id :: string
  cd_created_at :: instant

record queue_db =
  qd_tasks :: "task list"
  qd_cases :: "case_row list"
  qd_reviews :: "human_review list"
  qd_rounds :: "round_row list"
  qd_case_rounds :: "case_round list"

definition empty_queue :: queue_db where
  "empty_queue = \<lparr>qd_tasks = [], qd_cases = [], qd_reviews = [], qd_rounds = [], qd_case_rounds = []\<rparr>"

section \<open>Bounded descriptions\<close>

definition max_description_bytes :: nat where
  "max_description_bytes = 4096"

definition max_queue_history :: int where
  "max_queue_history = 500"

definition max_capability_intent_bytes :: nat where
  "max_capability_intent_bytes = 8192"

text \<open>UTF-8 takes two bytes for a code point from 128 to 255.\<close>

definition char_bytes :: "char \<Rightarrow> nat" where
  "char_bytes c = (if (of_char c :: nat) < 128 then 1 else 2)"

definition utf8_length :: "string \<Rightarrow> nat" where
  "utf8_length s = sum_list (map char_bytes s)"

text \<open>\<^verbatim>\<open>raw[:keep].decode("utf-8", "ignore")\<close>: the characters that fit as a whole.\<close>

fun take_bytes :: "nat \<Rightarrow> string \<Rightarrow> string" where
  "take_bytes n [] = []"
| "take_bytes n (c # cs) = (if char_bytes c \<le> n then c # take_bytes (n - char_bytes c) cs else [])"

definition truncation_suffix :: string where
  "truncation_suffix = CHR 0x0A # ''...[truncated]''"

definition bounded_description :: "string \<Rightarrow> string" where
  "bounded_description d =
    (if utf8_length d \<le> max_description_bytes then d
     else take_bytes (max_description_bytes - utf8_length truncation_suffix) d @ truncation_suffix)"

section \<open>Research cases\<close>

definition task_row :: "queue_db \<Rightarrow> string \<Rightarrow> task option" where
  "task_row db i = lookup_row tk_id (qd_tasks db) i"

definition get_research_case :: "queue_db \<Rightarrow> string \<Rightarrow> research_case option" where
  "get_research_case db c =
    (if c = [] then None else map_option cr_payload (lookup_row cr_case_id (qd_cases db) c))"

definition register_research_case :: "queue_db \<Rightarrow> research_case \<Rightarrow> instant \<Rightarrow> (string \<times> queue_db) result" where
  "register_research_case db c now =
    (case lookup_row cr_case_id (qd_cases db) (rc_case_id c) of
       Some row \<Rightarrow>
         if cr_payload row \<noteq> c then raise ValueError ''research_case_id_already_registered_with_different_content''
         else Inr (rc_case_id c, db)
     | None \<Rightarrow> Inr (rc_case_id c, db\<lparr>qd_cases := qd_cases db @
         [\<lparr>cr_case_id = rc_case_id c, cr_payload = c, cr_registered_at = now\<rparr>]\<rparr>))"

section \<open>Enqueueing\<close>

record add_args =
  ag_description :: string
  ag_role :: "string option"
  ag_parent :: "string option"
  ag_intent :: "json option"
  ag_allow_failed_parent :: bool
  ag_evaluation_only :: bool
  ag_evaluation_id :: "string option"
  ag_case_id :: "string option"
  ag_round_id :: "string option"

text \<open>Python truth of an optional text.\<close>

definition given :: "string option \<Rightarrow> bool" where
  "given s \<longleftrightarrow> s \<noteq> None \<and> s \<noteq> Some []"

text \<open>The case and the round of the new task, from its arguments and its parent's row.\<close>

definition inherit_case :: "queue_db \<Rightarrow> string option \<Rightarrow> string option \<Rightarrow> string option \<Rightarrow>
    (string option \<times> string option) result" where
  "inherit_case db parent c r =
    (if \<not> given parent then Inr (c, r)
     else
       (let row = task_row db (the parent);
            pc = (case row of None \<Rightarrow> None | Some p \<Rightarrow> tk_case_id p);
            pr = (case row of None \<Rightarrow> None | Some p \<Rightarrow> tk_round_id p)
        in bindR (if c = None \<and> given pc then Inr pc
                  else if c \<noteq> pc
                  then (if row = None then raise ValueError ''research_case_parent_task_not_found''
                        else raise ValueError ''research_case_parent_mismatch'')
                  else Inr c)
             (\<lambda>c'. if row = None then Inr (c', r)
                   else if r = None \<and> given pr then Inr (c', pr)
                   else if r \<noteq> pr then raise ValueError ''research_case_round_parent_mismatch''
                   else Inr (c', r))))"

definition check_case :: "queue_db \<Rightarrow> string option \<Rightarrow> string option \<Rightarrow> unit result" where
  "check_case db role c =
    (if (case role of Some r \<Rightarrow> r \<in> set case_required_roles | None \<Rightarrow> False) \<and> \<not> given c
     then raise ValueError (''research_case_id_required_for_role:'' @ the role)
     else
       (case c of
          None \<Rightarrow> Inr ()
        | Some i \<Rightarrow>
           (case get_research_case db i of
              None \<Rightarrow> raise ValueError ''research_case_not_registered''
            | Some rc \<Rightarrow> bindR (validate_task_binding (Some rc) (Some i)) (\<lambda>_. Inr ()))))"

definition check_intent :: "json option \<Rightarrow> unit result" where
  "check_intent intent =
    (case intent of
       None \<Rightarrow> Inr ()
     | Some (JObj kvs) \<Rightarrow>
         if max_capability_intent_bytes < utf8_length (dumps True (JObj kvs))
         then raise ValueError ''capability_intent exceeds bounded storage size'' else Inr ()
     | Some _ \<Rightarrow> raise TypeError ''capability_intent must be a dict or None'')"

definition new_task :: "string \<Rightarrow> instant \<Rightarrow> add_args \<Rightarrow> string option \<Rightarrow> string option \<Rightarrow> task" where
  "new_task i now a c r = \<lparr>tk_id = i, tk_description = bounded_description (ag_description a), tk_status = Pending,
     tk_worker = None, tk_created_at = now, tk_started_at = None, tk_finished_at = None, tk_role = ag_role a,
     tk_parent = ag_parent a, tk_result = None, tk_case_id = c, tk_round_id = r, tk_planner_decision = None,
     tk_retry_count = 0, tk_intent = ag_intent a, tk_allow_failed_parent = ag_allow_failed_parent a,
     tk_evaluation_only = ag_evaluation_only a, tk_evaluation_id = ag_evaluation_id a\<rparr>"

definition queue_add :: "queue_db \<Rightarrow> string \<Rightarrow> instant \<Rightarrow> add_args \<Rightarrow> (string \<times> queue_db) result" where
  "queue_add db i now a =
    bindR (inherit_case db (ag_parent a) (ag_case_id a) (ag_round_id a)) (\<lambda>(c, r).
    bindR (check_case db (ag_role a) c) (\<lambda>_.
    bindR (check_intent (ag_intent a)) (\<lambda>_.
      if task_row db i \<noteq> None then raise IntegrityError ''UNIQUE constraint failed: queue.id''
      else Inr (i, db\<lparr>qd_tasks := qd_tasks db @ [new_task i now a c r]\<rparr>))))"

section \<open>Claiming\<close>

text \<open>EXISTS a completed parent with a result.\<close>

definition parent_completed :: "task list \<Rightarrow> string \<Rightarrow> bool" where
  "parent_completed ts p \<longleftrightarrow> list_ex (\<lambda>t. tk_id t = p \<and> tk_status t = Completed \<and> tk_result t \<noteq> None) ts"

definition claimable :: "task list \<Rightarrow> task \<Rightarrow> bool" where
  "claimable ts q \<longleftrightarrow> tk_status q = Pending \<and>
     (case tk_parent q of None \<Rightarrow> True | Some p \<Rightarrow> tk_allow_failed_parent q \<or> parent_completed ts p)"

definition role_matches :: "string option \<Rightarrow> task \<Rightarrow> bool" where
  "role_matches role q \<longleftrightarrow> \<not> given role \<or> tk_role q = role"

definition queue_claim :: "queue_db \<Rightarrow> string \<Rightarrow> string option \<Rightarrow> instant \<Rightarrow> task option \<times> queue_db" where
  "queue_claim db worker role now =
    (case sort_key tk_created_at (filter (\<lambda>q. role_matches role q \<and> claimable (qd_tasks db) q) (qd_tasks db)) of
       [] \<Rightarrow> (None, db)
     | q # _ \<Rightarrow>
        (let p = (\<lambda>t. tk_id t = tk_id q \<and> tk_status t = Pending);
             db' = db\<lparr>qd_tasks := update_where p
                 (\<lambda>t. t\<lparr>tk_status := Running, tk_worker := Some worker, tk_started_at := Some now\<rparr>) (qd_tasks db)\<rparr>
         in if count_where p (qd_tasks db) \<noteq> 1 then (None, db)
            else (task_row db' (tk_id q), db')))"

text \<open>The planner's view of what is pending; it does not know allow_failed_parent.\<close>

definition queue_pending :: "queue_db \<Rightarrow> string option \<Rightarrow> task list" where
  "queue_pending db role = sort_key tk_created_at (filter (\<lambda>q. tk_status q = Pending \<and>
     (case tk_parent q of None \<Rightarrow> True | Some p \<Rightarrow> parent_completed (qd_tasks db) p) \<and> role_matches role q) (qd_tasks db))"

section \<open>Completion and failure\<close>

definition finish_row :: "task_status \<Rightarrow> json option \<Rightarrow> instant \<Rightarrow> task \<Rightarrow> task" where
  "finish_row st res now t = t\<lparr>tk_status := st, tk_result := res, tk_finished_at := Some now\<rparr>"

abbreviation running_task :: "string \<Rightarrow> task \<Rightarrow> bool" where
  "running_task i t \<equiv> tk_id t = i \<and> tk_status t = Running"

definition queue_finish :: "queue_db \<Rightarrow> string \<Rightarrow> json option \<Rightarrow> instant \<Rightarrow> queue_db result" where
  "queue_finish db i res now =
    (case res of
       None \<Rightarrow> raise ValueError (''Cannot complete task '' @ i @ '': result is None'')
     | Some r \<Rightarrow>
        if count_where (running_task i) (qd_tasks db) \<noteq> 1
        then raise RuntimeError (''Cannot complete task '' @ i @ '': task is not in running state'')
        else Inr (db\<lparr>qd_tasks := update_where (running_task i) (finish_row Completed (Some r) now) (qd_tasks db)\<rparr>))"

definition queue_fail :: "queue_db \<Rightarrow> string \<Rightarrow> json option \<Rightarrow> instant \<Rightarrow> queue_db result" where
  "queue_fail db i res now =
    (if count_where (running_task i) (qd_tasks db) \<noteq> 1
     then raise RuntimeError (''Cannot fail task '' @ i @ '': task is not in running state'')
     else Inr (db\<lparr>qd_tasks := update_where (running_task i) (finish_row Failed res now) (qd_tasks db)\<rparr>))"

section \<open>Retry and recovery\<close>

definition retry_count :: "queue_db \<Rightarrow> string \<Rightarrow> int" where
  "retry_count db i = (case task_row db i of None \<Rightarrow> 0 | Some t \<Rightarrow> tk_retry_count t)"

definition parent_allows_retry :: "queue_db \<Rightarrow> task \<Rightarrow> bool" where
  "parent_allows_retry db t \<longleftrightarrow>
    (if \<not> given (tk_parent t) then True
     else
       (case task_row db (the (tk_parent t)) of
          None \<Rightarrow> False
        | Some p \<Rightarrow> (tk_status p = Completed \<and> tk_result p \<noteq> None) \<or>
             (tk_status p = Failed \<and> tk_allow_failed_parent t \<and> tk_result p \<noteq> None)))"

definition requeue_row :: "task \<Rightarrow> task" where
  "requeue_row t = t\<lparr>tk_status := Pending, tk_worker := None, tk_started_at := None, tk_finished_at := None,
     tk_retry_count := tk_retry_count t + 1\<rparr>"

text \<open>
  \<^verbatim>\<open>requeue_failed\<close> reads the row, then its parent, then updates under the guard that the
  task is still failed: \<open>snap\<close> and \<open>psnap\<close> are the databases of the two reads, \<open>db\<close> that of the
  UPDATE. The budget and the parent are not checked again.
\<close>

definition requeue_failed_at :: "queue_db \<Rightarrow> queue_db \<Rightarrow> queue_db \<Rightarrow> string \<Rightarrow> int \<Rightarrow> bool \<times> queue_db" where
  "requeue_failed_at snap psnap db i max_retries =
    (case task_row snap i of
       None \<Rightarrow> (False, db)
     | Some t \<Rightarrow>
        if tk_status t \<noteq> Failed \<or> max_retries \<le> tk_retry_count t \<or> \<not> parent_allows_retry psnap t then (False, db)
        else
          (let p = (\<lambda>t. tk_id t = i \<and> tk_status t = Failed)
           in if count_where p (qd_tasks db) \<noteq> 1 then (False, db)
              else (True, db\<lparr>qd_tasks := update_where p requeue_row (qd_tasks db)\<rparr>)))"

text \<open>A call that nothing interrupts.\<close>

definition requeue_failed :: "queue_db \<Rightarrow> string \<Rightarrow> int \<Rightarrow> bool \<times> queue_db" where
  "requeue_failed db = requeue_failed_at db db db"

text \<open>\<^verbatim>\<open>rsplit("-", 1)[-1]\<close>.\<close>

definition after_last_dash :: "string \<Rightarrow> string" where
  "after_last_dash s = rev (takeWhile (\<lambda>c. c \<noteq> CHR ''-'') (rev s))"

definition worker_pid :: "string option \<Rightarrow> int option" where
  "worker_pid w = (if \<not> given w then None else py_int (after_last_dash (the w)))"

text \<open>\<open>alive\<close> is what \<^verbatim>\<open>os.kill(pid, 0)\<close> finds: the process exists (perhaps of another user).\<close>

definition worker_alive :: "(int \<Rightarrow> bool) \<Rightarrow> string option \<Rightarrow> bool" where
  "worker_alive alive w = (case worker_pid w of None \<Rightarrow> False | Some pid \<Rightarrow> 0 < pid \<and> alive pid)"

definition recover_row :: "task \<Rightarrow> task" where
  "recover_row t = t\<lparr>tk_status := Pending, tk_worker := None, tk_started_at := None\<rparr>"

fun recover_rows :: "(int \<Rightarrow> bool) \<Rightarrow> instant \<Rightarrow> task list \<Rightarrow> task list \<Rightarrow> string list \<times> task list" where
  "recover_rows alive cutoff [] tab = ([], tab)"
| "recover_rows alive cutoff (t # ts) tab =
    (if (case tk_started_at t of None \<Rightarrow> True | Some s \<Rightarrow> cutoff < s) \<or> worker_alive alive (tk_worker t)
     then recover_rows alive cutoff ts tab
     else
       (let tab' = update_where (running_task (tk_id t)) recover_row tab;
            (ids, tab'') = recover_rows alive cutoff ts tab'
        in (if count_where (running_task (tk_id t)) tab = 1 then tk_id t # ids else ids, tab'')))"

definition minute :: int where
  "minute = 60 * 1000000"

definition recover_stale_running :: "(int \<Rightarrow> bool) \<Rightarrow> queue_db \<Rightarrow> int \<Rightarrow> instant \<Rightarrow> string list \<times> queue_db" where
  "recover_stale_running alive db stale_minutes now =
    (let rows = sort_key (\<lambda>t. the (tk_started_at t))
           (filter (\<lambda>t. tk_status t = Running \<and> tk_started_at t \<noteq> None) (qd_tasks db));
         (ids, tab) = recover_rows alive (now - stale_minutes * minute) rows (qd_tasks db)
     in (ids, db\<lparr>qd_tasks := tab\<rparr>))"

section \<open>Views\<close>

definition has_tasks :: "queue_db \<Rightarrow> bool" where
  "has_tasks db \<longleftrightarrow> list_ex (\<lambda>t. tk_status t \<noteq> Completed \<and> tk_status t \<noteq> Failed) (qd_tasks db)"

definition has_planner_work :: "queue_db \<Rightarrow> bool" where
  "has_planner_work db \<longleftrightarrow> list_ex (\<lambda>t.
     (tk_status t \<noteq> Completed \<and> tk_status t \<noteq> Failed \<and> \<not> tk_evaluation_only t) \<or>
     (tk_status t = Completed \<and> tk_result t \<noteq> None \<and> tk_planner_decision t = None \<and> \<not> tk_evaluation_only t)) (qd_tasks db)"

definition all_tasks :: "queue_db \<Rightarrow> task list" where
  "all_tasks db = sort_key tk_created_at (qd_tasks db)"

definition has_child :: "task list \<Rightarrow> string \<Rightarrow> bool" where
  "has_child ts i \<longleftrightarrow> list_ex (\<lambda>c. tk_parent c = Some i) ts"

definition continuing_decisions :: "string list" where
  "continuing_decisions = [''CONTINUE'', ''REFINE'', ''VERIFY'', ''BRANCH'', ''ESCALATE'']"

definition continuing :: "task \<Rightarrow> bool" where
  "continuing t \<longleftrightarrow> (case tk_planner_decision t of None \<Rightarrow> False | Some d \<Rightarrow> d \<in> set continuing_decisions)"

text \<open>The UNION ALL of the failed, the undecided and the stalled tasks.\<close>

definition planning_tasks :: "queue_db \<Rightarrow> task list" where
  "planning_tasks db =
    (let ts = qd_tasks db in
     filter (\<lambda>q. tk_status q = Failed \<and> \<not> tk_evaluation_only q) ts @
     filter (\<lambda>q. tk_status q = Completed \<and> \<not> tk_evaluation_only q \<and> tk_planner_decision q = None \<and>
                 \<not> has_child ts (tk_id q)) ts @
     filter (\<lambda>q. tk_status q = Completed \<and> \<not> tk_evaluation_only q \<and> continuing q \<and> \<not> has_child ts (tk_id q)) ts)"

definition mark_planner_decision :: "queue_db \<Rightarrow> string \<Rightarrow> string option \<Rightarrow> queue_db" where
  "mark_planner_decision db i decision = db\<lparr>qd_tasks :=
     update_where (\<lambda>t. tk_id t = i) (\<lambda>t. t\<lparr>tk_planner_decision := decision\<rparr>) (qd_tasks db)\<rparr>"

definition planner_processed :: "queue_db \<Rightarrow> string \<Rightarrow> bool" where
  "planner_processed db i = (case task_row db i of None \<Rightarrow> False | Some t \<Rightarrow> given (tk_planner_decision t))"

section \<open>Integrity of the graph\<close>

definition active :: "task \<Rightarrow> bool" where
  "active t \<longleftrightarrow> tk_status t = Pending \<or> tk_status t = Running"

definition orphan :: "task list \<Rightarrow> task \<Rightarrow> bool" where
  "orphan ts t \<longleftrightarrow> (case tk_parent t of None \<Rightarrow> False | Some p \<Rightarrow> lookup_row tk_id ts p = None)"

definition active_orphans :: "queue_db \<Rightarrow> task list" where
  "active_orphans db = sort_key tk_created_at (filter (\<lambda>t. orphan (qd_tasks db) t \<and> active t) (qd_tasks db))"

text \<open>One round of the recursive query: the pending children of what is doomed already.\<close>

definition doom_step :: "task list \<Rightarrow> string list \<Rightarrow> string list" where
  "doom_step ts ids = map tk_id (filter (\<lambda>t. tk_id t \<in> set ids \<or>
     (tk_status t = Pending \<and> (case tk_parent t of None \<Rightarrow> False | Some p \<Rightarrow> p \<in> set ids))) ts)"

definition doomed :: "task list \<Rightarrow> string list \<Rightarrow> string list" where
  "doomed ts roots = (doom_step ts ^^ length ts)
     (map tk_id (filter (\<lambda>t. tk_id t \<in> set roots \<and> tk_status t = Pending) ts))"

definition repair_active_orphans :: "queue_db \<Rightarrow> nat \<times> queue_db" where
  "repair_active_orphans db =
    (let roots = map tk_id (active_orphans db);
         gone = doomed (qd_tasks db) roots
     in if roots = [] then (0, db)
        else (count_where (\<lambda>t. tk_id t \<in> set gone) (qd_tasks db),
              db\<lparr>qd_tasks := filter (\<lambda>t. tk_id t \<notin> set gone) (qd_tasks db)\<rparr>))"

section \<open>Compaction\<close>

definition live_branch :: "task list \<Rightarrow> task \<Rightarrow> bool" where
  "live_branch ts q \<longleftrightarrow> active q \<or> (tk_status q = Completed \<and> tk_planner_decision q = None) \<or>
     (tk_status q = Completed \<and> continuing q \<and> \<not> has_child ts (tk_id q))"

definition parents_of :: "task list \<Rightarrow> string list \<Rightarrow> string list" where
  "parents_of ts ids = concat (map (\<lambda>t. case tk_parent t of None \<Rightarrow> [] | Some p \<Rightarrow> [p])
     (filter (\<lambda>t. tk_id t \<in> set ids) ts))"

text \<open>The recursive query: the ids within \<open>n\<close> parent edges of the frontier.\<close>

fun ancestors_upto :: "nat \<Rightarrow> task list \<Rightarrow> string list \<Rightarrow> string list" where
  "ancestors_upto 0 ts ids = ids"
| "ancestors_upto (Suc n) ts ids = ids @ ancestors_upto n ts (parents_of ts ids)"

definition day :: int where
  "day = 24 * 60 * minute"

definition compact_completed_results :: "queue_db \<Rightarrow> int \<Rightarrow> int \<Rightarrow> int \<Rightarrow> instant \<Rightarrow> (nat \<times> queue_db) result" where
  "compact_completed_results db older_than_days keep_ancestor_depth limit now =
    (if older_than_days < 0 then raise ValueError ''older_than_days must be >= 0''
     else if keep_ancestor_depth < 0 then raise ValueError ''keep_ancestor_depth must be >= 0''
     else if limit \<le> 0 then Inr (0, db)
     else
       (let ts = qd_tasks db;
            cutoff = now - older_than_days * day;
            kept = ancestors_upto (nat keep_ancestor_depth) ts (map tk_id (filter (live_branch ts) ts));
            candidates = take (nat limit) (map tk_id (filter (\<lambda>q. tk_status q = Completed \<and> tk_result q \<noteq> None \<and>
              (case tk_finished_at q of None \<Rightarrow> False | Some f \<Rightarrow> f < cutoff) \<and> tk_id q \<notin> set kept) ts))
        in Inr (count_where (\<lambda>t. tk_id t \<in> set candidates) ts,
                db\<lparr>qd_tasks := update_where (\<lambda>t. tk_id t \<in> set candidates) (\<lambda>t. t\<lparr>tk_result := None\<rparr>) ts\<rparr>)))"

definition historical :: "task \<Rightarrow> bool" where
  "historical t \<longleftrightarrow> tk_status t = Completed \<or> tk_status t = Failed"

definition history_key :: "task \<Rightarrow> instant \<times> string" where
  "history_key t = ((case tk_finished_at t of None \<Rightarrow> tk_created_at t | Some f \<Rightarrow> f), tk_id t)"

text \<open>
  The worklist loop: a chunk of 500 ids leaves the frontier, the parents that are not
  protected yet enter both. The pair is the protected set and the new frontier.
\<close>

fun add_parents :: "string list \<Rightarrow> string list \<Rightarrow> string list \<Rightarrow> string list \<times> string list" where
  "add_parents [] prot frontier = (prot, frontier)"
| "add_parents (p # ps) prot frontier =
    (if p \<in> set prot then add_parents ps prot frontier
     else add_parents ps (p # prot) (frontier @ [p]))"

definition protect_step :: "task list \<Rightarrow> string list \<times> string list \<Rightarrow> string list \<times> string list" where
  "protect_step ts s = (case s of (prot, frontier) \<Rightarrow>
     add_parents (parents_of ts (take 500 frontier)) prot (drop 500 frontier))"

text \<open>Every parent in the table can enter once, so the fuel below is enough (proved).\<close>

fun protect_loop :: "nat \<Rightarrow> task list \<Rightarrow> string list \<times> string list \<Rightarrow> string list option" where
  "protect_loop fuel ts s = (if snd s = [] then Some (fst s)
     else (case fuel of 0 \<Rightarrow> None | Suc n \<Rightarrow> protect_loop n ts (protect_step ts s)))"

declare protect_loop.simps [simp del]

definition protect_fuel :: "task list \<Rightarrow> nat" where
  "protect_fuel ts = 2 * length ts + 1"

definition bound_descriptions :: "task list \<Rightarrow> task list" where
  "bound_descriptions ts = map (\<lambda>t. t\<lparr>tk_description := bounded_description (tk_description t)\<rparr>) ts"

definition compact_history :: "queue_db \<Rightarrow> int \<Rightarrow> int \<Rightarrow> nat \<times> queue_db" where
  "compact_history db keep_recent limit =
    (if keep_recent \<le> 0 \<or> limit \<le> 0 then (0, db)
     else
       (let ts = bound_descriptions (qd_tasks db);
            db1 = db\<lparr>qd_tasks := ts\<rparr>;
            recent = take (nat keep_recent) (map tk_id (rev (sort_key history_key (filter historical ts))));
            candidates = take (nat limit) (map tk_id (filter (\<lambda>t. historical t \<and> tk_id t \<notin> set recent) ts));
            frontier = map tk_id (filter (\<lambda>t. tk_id t \<notin> set candidates) ts)
        in if recent = [] \<or> candidates = [] then (0, db1)
           else
             (case protect_loop (protect_fuel ts) ts ([], frontier) of
                None \<Rightarrow> (0, db1)
              | Some prot \<Rightarrow>
                  (let removable = filter (\<lambda>i. i \<notin> set prot) candidates
                   in (count_where (\<lambda>t. tk_id t \<in> set removable) ts,
                       db1\<lparr>qd_tasks := filter (\<lambda>t. tk_id t \<notin> set removable) ts\<rparr>)))))"

end
