(* ===== verification/TaskRuns.thy ===== *)
theory TaskRuns
  imports Tasks Lifecycle
begin

text \<open>
  Runs of the task queue: the operations of \<^verbatim>\<open>src/shared/queue.py\<close> as one datatype, the
  invariant of the tables, the life of a task as an interpretation of the lifecycle
  contract, and the properties of claiming, retry, recovery and compaction.
\<close>

section \<open>Operations of a run\<close>

datatype queue_op =
    RegisterCase research_case instant
  | Add string instant add_args
  | Claim string "string option" instant
  | Finish string "json option" instant
  | Fail string "json option" instant
  | Requeue "(queue_db \<times> queue_db) option" string int
  | Recover "int \<Rightarrow> bool" int instant
  | Decide string "string option"
  | Repair
  | CompactResults int int int instant
  | CompactHistory int int

definition kept :: "queue_db \<Rightarrow> ('a \<times> queue_db) result \<Rightarrow> queue_db" where
  "kept db r = (case r of Inl _ \<Rightarrow> db | Inr (_, db') \<Rightarrow> db')"

definition kept_unit :: "queue_db \<Rightarrow> queue_db result \<Rightarrow> queue_db" where
  "kept_unit db r = (case r of Inl _ \<Rightarrow> db | Inr db' \<Rightarrow> db')"

text \<open>A requeue acts on the databases it has read earlier, or on the present one.\<close>

definition requeue_op :: "(queue_db \<times> queue_db) option \<Rightarrow> queue_db \<Rightarrow> string \<Rightarrow> int \<Rightarrow> bool \<times> queue_db" where
  "requeue_op reads db i n = (case reads of None \<Rightarrow> requeue_failed db i n | Some (snap, psnap) \<Rightarrow> requeue_failed_at snap psnap db i n)"

fun queue_step :: "queue_op \<Rightarrow> queue_db \<Rightarrow> queue_db" where
  "queue_step (RegisterCase c now) db = kept db (register_research_case db c now)"
| "queue_step (Add i now a) db = kept db (queue_add db i now a)"
| "queue_step (Claim w role now) db = snd (queue_claim db w role now)"
| "queue_step (Finish i res now) db = kept_unit db (queue_finish db i res now)"
| "queue_step (Fail i res now) db = kept_unit db (queue_fail db i res now)"
| "queue_step (Requeue reads i n) db = snd (requeue_op reads db i n)"
| "queue_step (Recover alive n now) db = snd (recover_stale_running alive db n now)"
| "queue_step (Decide i d) db = mark_planner_decision db i d"
| "queue_step Repair db = snd (repair_active_orphans db)"
| "queue_step (CompactResults d k l now) db = kept db (compact_completed_results db d k l now)"
| "queue_step (CompactHistory k l) db = snd (compact_history db k l)"

section \<open>Small tables\<close>

text \<open>Concrete rows on which the theorems are tried.\<close>

definition plain_task :: "string \<Rightarrow> task_status \<Rightarrow> instant \<Rightarrow> string option \<Rightarrow> task" where
  "plain_task i st created parent = \<lparr>tk_id = i, tk_description = ''d'', tk_status = st, tk_worker = None,
     tk_created_at = created, tk_started_at = None, tk_finished_at = None, tk_role = None, tk_parent = parent,
     tk_result = None, tk_case_id = None, tk_round_id = None, tk_planner_decision = None, tk_retry_count = 0,
     tk_intent = None, tk_allow_failed_parent = False, tk_evaluation_only = False, tk_evaluation_id = None\<rparr>"

definition queue_with :: "task list \<Rightarrow> queue_db" where
  "queue_with ts = empty_queue\<lparr>qd_tasks := ts\<rparr>"

definition running_row :: task where
  "running_row = (plain_task ''t'' Running 1 None)\<lparr>tk_worker := Some ''w-7'', tk_started_at := Some 2\<rparr>"

definition stopped_row :: "string \<Rightarrow> instant \<Rightarrow> string option \<Rightarrow> task" where
  "stopped_row i finished parent = (plain_task i Completed 0 parent)\<lparr>tk_worker := Some ''w-7'', tk_started_at := Some 0,
     tk_finished_at := Some finished, tk_result := Some JNull, tk_planner_decision := Some ''STOP''\<rparr>"

section \<open>What an operation does to the rows\<close>

text \<open>
  Every operation but the insertions rewrites rows in place and drops some. \<open>row_edit R\<close>
  is that shape: the new table maps the rows that pass a filter, each to an \<open>R\<close> successor.
\<close>

definition row_edit :: "(task \<Rightarrow> task \<Rightarrow> bool) \<Rightarrow> (task \<Rightarrow> bool) \<Rightarrow> task list \<Rightarrow> task list \<Rightarrow> bool" where
  "row_edit R D ts ts' \<longleftrightarrow> (\<exists>p f. ts' = map f (filter p ts) \<and>
     (\<forall>t \<in> set ts. p t \<longrightarrow> R t (f t)) \<and> (\<forall>t \<in> set ts. \<not> p t \<longrightarrow> D t))"

lemma row_edit_refl: "(\<And>t. R t t) \<Longrightarrow> row_edit R D ts ts"
  unfolding row_edit_def by (rule exI [of _ "\<lambda>_. True"], rule exI [of _ id]) simp

lemma row_edit_update:
  "(\<And>t. R t t) \<Longrightarrow> (\<And>t. t \<in> set ts \<Longrightarrow> q t \<Longrightarrow> R t (f t)) \<Longrightarrow> row_edit R D ts (update_where q f ts)"
  unfolding row_edit_def update_where_def
  by (rule exI [of _ "\<lambda>_. True"], rule exI [of _ "\<lambda>t. if q t then f t else t"]) simp

lemma row_edit_filter:
  "(\<And>t. R t t) \<Longrightarrow> (\<And>t. t \<in> set ts \<Longrightarrow> \<not> q t \<Longrightarrow> D t) \<Longrightarrow> row_edit R D ts (filter q ts)"
  unfolding row_edit_def by (rule exI [of _ q], rule exI [of _ id]) simp

lemma row_edit_all:
  assumes "row_edit R D ts ts'" and "\<forall>t \<in> set ts. P t" and "\<And>t t'. P t \<Longrightarrow> R t t' \<Longrightarrow> Q t'"
  shows "\<forall>t \<in> set ts'. Q t"
  using assms by (fastforce simp: row_edit_def)

lemma row_edit_trans:
  assumes "row_edit R D ts ts'" and "row_edit R D ts' ts''"
    and trans: "\<And>x y z. R x y \<Longrightarrow> R y z \<Longrightarrow> R x z" and bwd: "\<And>x y. R x y \<Longrightarrow> D y \<Longrightarrow> D x"
  shows "row_edit R D ts ts''"
proof -
  from assms(1) obtain p f where f: "ts' = map f (filter p ts)"
      "\<And>t. t \<in> set ts \<Longrightarrow> p t \<Longrightarrow> R t (f t)" "\<And>t. t \<in> set ts \<Longrightarrow> \<not> p t \<Longrightarrow> D t"
    by (auto simp: row_edit_def)
  from assms(2) obtain q g where g: "ts'' = map g (filter q ts')"
      "\<And>t. t \<in> set ts' \<Longrightarrow> q t \<Longrightarrow> R t (g t)" "\<And>t. t \<in> set ts' \<Longrightarrow> \<not> q t \<Longrightarrow> D t"
    by (auto simp: row_edit_def)
  have "ts'' = map (g \<circ> f) (filter (\<lambda>t. p t \<and> q (f t)) ts)"
    by (simp add: f(1) g(1) filter_map comp_def conj_commute)
  moreover have "R t ((g \<circ> f) t)" if "t \<in> set ts" "p t \<and> q (f t)" for t
    using trans [OF f(2) g(2)] f(1) that by simp
  moreover have "D t" if "t \<in> set ts" "\<not> (p t \<and> q (f t))" for t
    using bwd [OF f(2) g(3)] f(1,3) that by (cases "p t") auto
  ultimately show ?thesis unfolding row_edit_def by blast
qed

text \<open>The states a task goes through; a ghost set remembers the ids used so far.\<close>

datatype life = Unborn | Alive task_status | Gone

fun task_allowed :: "task_status \<Rightarrow> task_status \<Rightarrow> bool" where
  "task_allowed Pending Running = True"
| "task_allowed Running Completed = True"
| "task_allowed Running Failed = True"
| "task_allowed Running Pending = True"
| "task_allowed Failed Pending = True"
| "task_allowed _ _ = False"

fun life_allowed :: "life \<Rightarrow> life \<Rightarrow> bool" where
  "life_allowed Unborn (Alive st) = (st = Pending)"
| "life_allowed Unborn Gone = True"
| "life_allowed (Alive a) (Alive b) = task_allowed a b"
| "life_allowed (Alive a) Gone = (a \<noteq> Running)"
| "life_allowed _ _ = False"

definition task_wf :: "task \<Rightarrow> bool" where
  "task_wf t \<longleftrightarrow> tk_id t \<noteq> [] \<and> utf8_length (tk_description t) \<le> max_description_bytes \<and> 0 \<le> tk_retry_count t \<and>
     (case tk_status t of
        Pending \<Rightarrow> tk_worker t = None \<and> tk_started_at t = None \<and> tk_finished_at t = None
      | Running \<Rightarrow> tk_worker t \<noteq> None \<and> tk_started_at t \<noteq> None \<and> tk_finished_at t = None
      | _ \<Rightarrow> tk_worker t \<noteq> None \<and> tk_started_at t \<noteq> None \<and> tk_finished_at t \<noteq> None)"

definition task_moves :: "task \<Rightarrow> task \<Rightarrow> bool" where
  "task_moves t t' \<longleftrightarrow> tk_id t' = tk_id t \<and> tk_parent t' = tk_parent t \<and> tk_role t' = tk_role t \<and>
     tk_case_id t' = tk_case_id t \<and> tk_round_id t' = tk_round_id t \<and>
     (tk_status t' = tk_status t \<or> task_allowed (tk_status t) (tk_status t')) \<and> (task_wf t \<longrightarrow> task_wf t')"

text \<open>Only a requeue counts as a retry, and only a claim makes a task run; every other move is quiet.\<close>

definition uncounted_moves :: "task \<Rightarrow> task \<Rightarrow> bool" where
  "uncounted_moves t t' \<longleftrightarrow> task_moves t t' \<and> tk_retry_count t' = tk_retry_count t"

definition quiet_moves :: "task \<Rightarrow> task \<Rightarrow> bool" where
  "quiet_moves t t' \<longleftrightarrow> uncounted_moves t t' \<and> (tk_status t' = Running \<longrightarrow> tk_status t = Running)"

lemma uncounted_moves_refl [simp]: "uncounted_moves t t"
  by (simp add: uncounted_moves_def task_moves_def)

lemma quiet_moves_refl [simp]: "quiet_moves t t"
  by (simp add: quiet_moves_def)

lemma task_moves_refl [simp]: "task_moves t t"
  by (simp add: task_moves_def)

lemma task_moves_key: "task_moves t t' \<Longrightarrow> tk_id t' = tk_id t"
  by (simp add: task_moves_def)

section \<open>Bounded descriptions\<close>

lemma utf8_length_append [simp]: "utf8_length (s @ t) = utf8_length s + utf8_length t"
  by (simp add: utf8_length_def)

lemma take_bytes_length: "utf8_length (take_bytes n s) \<le> n"
  by (induction n s rule: take_bytes.induct) (auto simp: utf8_length_def)

lemma take_bytes_prefix: "\<exists>r. s = take_bytes n s @ r"
  by (induction n s rule: take_bytes.induct) auto

lemma truncation_suffix_length: "utf8_length truncation_suffix = 15"
  by (simp add: truncation_suffix_def utf8_length_def char_bytes_def)

lemma bounded_description_length: "utf8_length (bounded_description d) \<le> max_description_bytes"
  using take_bytes_length [of "max_description_bytes - utf8_length truncation_suffix" d]
  by (auto simp: bounded_description_def truncation_suffix_length max_description_bytes_def)

text \<open>
  A stored description never exceeds 4096 bytes, bounding it again changes nothing, a
  short one is stored as it is, and a long one keeps a prefix of its text before the mark.
\<close>

theorem descriptions_are_bounded:
  "utf8_length (bounded_description d) \<le> 4096 \<and>
   bounded_description (bounded_description d) = bounded_description d \<and>
   (if utf8_length d \<le> 4096 then bounded_description d = d
    else \<exists>kept rest. d = kept @ rest \<and> rest \<noteq> [] \<and> bounded_description d = kept @ truncation_suffix)"
proof -
  let ?n = "max_description_bytes - utf8_length truncation_suffix"
  obtain r where r: "d = take_bytes ?n d @ r" using take_bytes_prefix by blast
  have "rest \<noteq> []" if "d = take_bytes ?n d @ rest" "\<not> utf8_length d \<le> max_description_bytes" for rest
  proof
    assume "rest = []"
    with that(1) have "d = take_bytes ?n d" by simp
    with take_bytes_length [of ?n d] that(2) show False by simp
  qed
  with r have "if utf8_length d \<le> max_description_bytes then bounded_description d = d
      else \<exists>kept rest. d = kept @ rest \<and> rest \<noteq> [] \<and> bounded_description d = kept @ truncation_suffix"
    by (cases "utf8_length d \<le> max_description_bytes") (simp add: bounded_description_def, metis bounded_description_def)
  moreover have "bounded_description (bounded_description d) = bounded_description d"
    using bounded_description_length [of d] unfolding bounded_description_def [of "bounded_description d"]
    by simp
  ultimately show ?thesis
    using bounded_description_length [of d] by (simp add: max_description_bytes_def)
qed


section \<open>Recovery of stale tasks\<close>

definition stale :: "(int \<Rightarrow> bool) \<Rightarrow> instant \<Rightarrow> task \<Rightarrow> bool" where
  "stale alive cutoff t \<longleftrightarrow> (case tk_started_at t of None \<Rightarrow> False | Some s \<Rightarrow> s \<le> cutoff) \<and>
     \<not> worker_alive alive (tk_worker t)"

lemma recover_rows_Cons:
  "recover_rows alive cutoff (t # ts) tab =
    (if stale alive cutoff t
     then (let r = recover_rows alive cutoff ts (update_where (running_task (tk_id t)) recover_row tab)
           in (if count_where (running_task (tk_id t)) tab = 1 then tk_id t # fst r else fst r, snd r))
     else recover_rows alive cutoff ts tab)"
  by (auto simp: stale_def Let_def split_beta split: option.splits)

declare recover_rows.simps(2) [simp del]

lemma recover_rows_tab:
  "snd (recover_rows alive cutoff rows tab) =
    update_where (\<lambda>t. tk_status t = Running \<and> tk_id t \<in> tk_id ` set (filter (stale alive cutoff) rows)) recover_row tab"
proof (induction rows arbitrary: tab)
  case Nil
  then show ?case by (simp add: update_where_noop)
next
  case (Cons r rows)
  show ?case
    unfolding recover_rows_Cons
    by (simp add: Cons Let_def) (auto simp: update_where_def recover_row_def)
qed

lemma recover_rows_ids:
  assumes "key_unique tk_id tab" and "distinct (map tk_id rows)"
    and "\<And>r. r \<in> set rows \<Longrightarrow> \<exists>t \<in> set tab. tk_id t = tk_id r \<and> tk_status t = Running"
  shows "fst (recover_rows alive cutoff rows tab) = map tk_id (filter (stale alive cutoff) rows)"
  using assms
proof (induction rows arbitrary: tab)
  case (Cons r rows)
  let ?tab = "update_where (running_task (tk_id r)) recover_row tab"
  from Cons.prems(3) [of r] obtain t where t: "t \<in> set tab" "tk_id t = tk_id r" "tk_status t = Running" by auto
  then have "lookup_row tk_id tab (tk_id r) = Some t"
    using lookup_row_mem [OF Cons.prems(1) t(1)] by simp
  then have hit: "count_where (running_task (tk_id r)) tab = 1"
    using count_where_key [OF Cons.prems(1), of "tk_id r" "\<lambda>t. tk_status t = Running"] t by simp
  have uid: "key_unique tk_id ?tab" using Cons.prems(1) by (simp add: recover_row_def)
  have "\<exists>t \<in> set ?tab. tk_id t = tk_id q \<and> tk_status t = Running" if q: "q \<in> set rows" for q
  proof -
    from Cons.prems(3) [of q] q obtain u where u: "u \<in> set tab" "tk_id u = tk_id q" "tk_status u = Running" by auto
    from Cons.prems(2) q have "tk_id q \<noteq> tk_id r" by (auto simp: image_iff)
    with u show ?thesis by (force simp: update_where_def)
  qed
  note after = Cons.IH [OF uid _ this]
  have before: "fst (recover_rows alive cutoff rows tab) = map tk_id (filter (stale alive cutoff) rows)"
    by (rule Cons.IH) (use Cons.prems in auto)
  from after before Cons.prems(2) hit show ?case by (simp add: recover_rows_Cons Let_def)
qed simp

text \<open>
  Recovery requeues exactly the running tasks that started before the cutoff and whose
  worker is not alive, oldest first, and touches no other row: a live worker never loses a task.
\<close>

theorem recovery_is_exact:
  assumes "key_unique tk_id (qd_tasks db)"
  shows "recover_stale_running alive db n now =
    (let lost = \<lambda>t. tk_status t = Running \<and> stale alive (now - n * minute) t
     in (map tk_id (sort_key (\<lambda>t. the (tk_started_at t)) (filter lost (qd_tasks db))),
         db\<lparr>qd_tasks := update_where lost recover_row (qd_tasks db)\<rparr>))"
proof -
  let ?key = "\<lambda>t. the (tk_started_at t)"
  let ?run = "\<lambda>t. tk_status t = Running \<and> tk_started_at t \<noteq> None"
  let ?st = "stale alive (now - n * minute)"
  let ?lost = "\<lambda>t. tk_status t = Running \<and> ?st t"
  let ?rows = "sort_key ?key (filter ?run (qd_tasks db))"
  have "distinct (map tk_id (filter ?run (qd_tasks db)))"
    using assms by (simp add: key_unique_def distinct_map_filter)
  then have "distinct (map tk_id ?rows)"
    by (simp add: distinct_map)
  then have ids: "fst (recover_rows alive (now - n * minute) ?rows (qd_tasks db)) = map tk_id (filter ?st ?rows)"
    by (intro recover_rows_ids [OF assms]) auto
  have lost: "?run t \<and> ?st t \<longleftrightarrow> ?lost t" for t by (auto simp: stale_def split: option.splits)
  then have rows: "filter ?st ?rows = sort_key ?key (filter ?lost (qd_tasks db))"
    unfolding filter_sort [symmetric] filter_filter by (auto intro: arg_cong [where f = "sort_key ?key"] filter_cong)
  have "tk_status t = Running \<and> tk_id t \<in> tk_id ` set (filter ?st ?rows) \<longleftrightarrow> ?lost t" if "t \<in> set (qd_tasks db)" for t
  proof -
    have "tk_id t \<in> tk_id ` set (filter ?st ?rows) \<longleftrightarrow> t \<in> set (filter ?st ?rows)"
      using assms that by (auto simp: key_unique_def distinct_map inj_on_def)
    with that show ?thesis unfolding rows by simp
  qed
  then have tab: "snd (recover_rows alive (now - n * minute) ?rows (qd_tasks db)) =
      update_where ?lost recover_row (qd_tasks db)"
    unfolding recover_rows_tab by (simp add: update_where_def)
  from ids tab rows show ?thesis
    by (simp add: recover_stale_running_def Let_def split_beta)
qed


lemma recovery_is_exact_witness:
  "recover_stale_running (\<lambda>_. False) (queue_with [running_row]) 0 20 = ([''t''], queue_with [recover_row running_row])"
proof -
  have "key_unique tk_id (qd_tasks (queue_with [running_row]))" by (simp add: queue_with_def key_unique_def)
  from recovery_is_exact [OF this, of "\<lambda>_. False" 0 20] show ?thesis
    by (simp add: queue_with_def running_row_def plain_task_def stale_def worker_alive_def Let_def split: option.splits)
qed

section \<open>The shape of every operation\<close>

definition deletable :: "task \<Rightarrow> bool" where
  "deletable t \<longleftrightarrow> tk_status t \<noteq> Running"

lemma requeue_row_moves: "tk_status t = Failed \<Longrightarrow> task_moves t (requeue_row t)"
  by (simp add: task_moves_def task_wf_def requeue_row_def)

lemma recover_row_moves: "tk_status t = Running \<Longrightarrow> quiet_moves t (recover_row t)"
  by (simp add: quiet_moves_def uncounted_moves_def task_moves_def task_wf_def recover_row_def)

lemma finish_row_moves: "tk_status t = Running \<Longrightarrow> st = Completed \<or> st = Failed \<Longrightarrow> quiet_moves t (finish_row st res now t)"
  by (auto simp: quiet_moves_def uncounted_moves_def task_moves_def task_wf_def finish_row_def)

lemma claim_row_moves:
  "tk_status t = Pending \<Longrightarrow>
   uncounted_moves t (t\<lparr>tk_status := Running, tk_worker := Some worker, tk_started_at := Some now\<rparr>)"
  by (simp add: uncounted_moves_def task_moves_def task_wf_def)

lemma describe_row_moves: "quiet_moves t (t\<lparr>tk_description := bounded_description (tk_description t)\<rparr>)"
  using bounded_description_length [of "tk_description t"]
  by (simp add: quiet_moves_def uncounted_moves_def task_moves_def task_wf_def split: task_status.splits)

lemma drop_result_moves: "quiet_moves t (t\<lparr>tk_result := None\<rparr>)"
  by (simp add: quiet_moves_def uncounted_moves_def task_moves_def task_wf_def split: task_status.splits)

lemma decide_moves: "quiet_moves t (t\<lparr>tk_planner_decision := d\<rparr>)"
  by (simp add: quiet_moves_def uncounted_moves_def task_moves_def task_wf_def split: task_status.splits)

lemmas row_moves = recover_row_moves finish_row_moves claim_row_moves
  drop_result_moves decide_moves

abbreviation edits :: "task list \<Rightarrow> task list \<Rightarrow> bool" where
  "edits \<equiv> row_edit task_moves deletable"

abbreviation uncounted_edits :: "task list \<Rightarrow> task list \<Rightarrow> bool" where
  "uncounted_edits \<equiv> row_edit uncounted_moves deletable"

abbreviation quiet_edits :: "task list \<Rightarrow> task list \<Rightarrow> bool" where
  "quiet_edits \<equiv> row_edit quiet_moves deletable"

lemma edits_refl: "edits ts ts"
  by (rule row_edit_refl) simp

lemma quiet_edits_refl: "quiet_edits ts ts"
  by (rule row_edit_refl) simp

lemma uncounted_edits_refl: "uncounted_edits ts ts"
  by (rule row_edit_refl) simp

lemma quiet_edits_uncounted: "quiet_edits ts ts' \<Longrightarrow> uncounted_edits ts ts'"
  unfolding row_edit_def quiet_moves_def by blast

lemma uncounted_edits_edits: "uncounted_edits ts ts' \<Longrightarrow> edits ts ts'"
  unfolding row_edit_def uncounted_moves_def by blast

lemma claim_edits: "uncounted_edits (qd_tasks db) (qd_tasks (snd (queue_claim db w role now)))"
  by (auto simp: queue_claim_def Let_def uncounted_edits_refl split: list.split
      intro!: row_edit_update row_moves)

lemma finish_edits: "quiet_edits (qd_tasks db) (qd_tasks (kept_unit db (queue_finish db i res now)))"
  by (auto simp: queue_finish_def kept_unit_def quiet_edits_refl split: option.split
      intro!: row_edit_update row_moves)

lemma fail_edits: "quiet_edits (qd_tasks db) (qd_tasks (kept_unit db (queue_fail db i res now)))"
  by (auto simp: queue_fail_def kept_unit_def quiet_edits_refl intro!: row_edit_update row_moves)

lemma requeue_op_eq:
  "requeue_op reads db i n =
    (let (snap, psnap) = (case reads of None \<Rightarrow> (db, db) | Some r \<Rightarrow> r) in requeue_failed_at snap psnap db i n)"
  by (simp add: requeue_op_def requeue_failed_def split: option.split)

lemma requeue_failed_at_edits: "edits (qd_tasks db) (qd_tasks (snd (requeue_failed_at snap psnap db i n)))"
  by (auto simp: requeue_failed_at_def Let_def edits_refl split: option.split
      intro!: row_edit_update requeue_row_moves)

lemma requeue_edits: "edits (qd_tasks db) (qd_tasks (snd (requeue_op reads db i n)))"
  by (simp add: requeue_op_eq requeue_failed_at_edits split_beta)

lemma recover_edits: "quiet_edits (qd_tasks db) (qd_tasks (snd (recover_stale_running alive db n now)))"
  unfolding recover_stale_running_def Let_def
  by (auto simp: split_beta recover_rows_tab intro!: row_edit_update row_moves)

lemma decide_edits: "quiet_edits (qd_tasks db) (qd_tasks (mark_planner_decision db i d))"
  by (auto simp: mark_planner_decision_def intro!: row_edit_update row_moves)

lemma results_edits: "quiet_edits (qd_tasks db) (qd_tasks (kept db (compact_completed_results db d k l now)))"
  by (auto simp: compact_completed_results_def kept_def Let_def quiet_edits_refl
      intro!: row_edit_update row_moves)

text \<open>Repair: what is doomed is pending.\<close>

lemma set_doom_step:
  "i \<in> set (doom_step ts ids) \<longleftrightarrow> (\<exists>t \<in> set ts. tk_id t = i \<and>
     (i \<in> set ids \<or> (tk_status t = Pending \<and> (\<exists>p \<in> set ids. tk_parent t = Some p))))"
  by (auto simp: doom_step_def split: option.splits)

definition all_pending :: "task list \<Rightarrow> string list \<Rightarrow> bool" where
  "all_pending ts ids \<longleftrightarrow> (\<forall>t \<in> set ts. tk_id t \<in> set ids \<longrightarrow> tk_status t = Pending)"

lemma doom_step_pending:
  assumes uid: "key_unique tk_id ts" and ids: "all_pending ts ids"
  shows "all_pending ts (doom_step ts ids)"
  unfolding all_pending_def
proof (intro ballI impI)
  fix t assume t: "t \<in> set ts" "tk_id t \<in> set (doom_step ts ids)"
  from t(2) obtain u where u: "u \<in> set ts" "tk_id u = tk_id t" "tk_id t \<in> set ids \<or> tk_status u = Pending"
    unfolding set_doom_step by blast
  with key_unique_eq [OF uid t(1) u(1)] ids t(1) show "tk_status t = Pending"
    by (auto simp: all_pending_def)
qed

lemma doomed_pending:
  assumes uid: "key_unique tk_id ts" and t: "t \<in> set ts" "tk_id t \<in> set (doomed ts roots)"
  shows "tk_status t = Pending"
proof -
  let ?ids = "map tk_id (filter (\<lambda>t. tk_id t \<in> set roots \<and> tk_status t = Pending) ts)"
  have "all_pending ts ?ids"
    unfolding all_pending_def
  proof (intro ballI impI)
    fix t assume t: "t \<in> set ts" "tk_id t \<in> set ?ids"
    then obtain u where "u \<in> set ts" "tk_status u = Pending" "tk_id t = tk_id u" by (auto simp: image_iff)
    with key_unique_eq [OF uid t(1), of u] show "tk_status t = Pending" by simp
  qed
  then have "all_pending ts ((doom_step ts ^^ n) ?ids)" for n
    by (induction n) (auto intro: doom_step_pending [OF uid])
  with t show ?thesis unfolding doomed_def all_pending_def by blast
qed

lemma repair_edits:
  assumes "key_unique tk_id (qd_tasks db)"
  shows "quiet_edits (qd_tasks db) (qd_tasks (snd (repair_active_orphans db)))"
proof -
  have "quiet_edits ts (filter (\<lambda>t. tk_id t \<notin> set (doomed ts roots)) ts)" if "ts = qd_tasks db" for ts roots
    using assms that by (intro row_edit_filter) (auto simp: deletable_def dest: doomed_pending)
  then show ?thesis
    using quiet_edits_refl by (auto simp: repair_active_orphans_def Let_def)
qed


section \<open>Compaction of history\<close>

lemma add_parents_new:
  "\<exists>new. add_parents ps prot frontier = (rev new @ prot, frontier @ new) \<and> distinct new \<and>
     set new = set ps - set prot"
proof (induction ps arbitrary: prot frontier)
  case (Cons p ps)
  show ?case
  proof (cases "p \<in> set prot")
    case True
    with Cons [of prot frontier] show ?thesis by (auto simp: insert_absorb)
  next
    case False
    from Cons [of "p # prot" "frontier @ [p]"] obtain new
      where "add_parents ps (p # prot) (frontier @ [p]) = (rev new @ p # prot, (frontier @ [p]) @ new)"
        and "distinct new" and "set new = set ps - set (p # prot)" by blast
    with False show ?thesis by (intro exI [of _ "p # new"]) auto
  qed
qed simp

lemma set_parents_of: "set (parents_of ts ids) = {p. \<exists>t \<in> set ts. tk_id t \<in> set ids \<and> tk_parent t = Some p}"
  by (force simp: parents_of_def split: option.splits)

definition mentioned_parents :: "task list \<Rightarrow> string set" where
  "mentioned_parents ts = {p. \<exists>t \<in> set ts. tk_parent t = Some p}"

lemma card_mentioned_parents: "finite (mentioned_parents ts) \<and> card (mentioned_parents ts) \<le> length ts"
proof -
  have "mentioned_parents ts \<subseteq> (\<lambda>t. the (tk_parent t)) ` set ts"
    by (force simp: mentioned_parents_def)
  then show ?thesis
    by (meson List.finite_set card_image_le card_length finite_imageI finite_subset card_mono le_trans)
qed

definition protect_measure :: "task list \<Rightarrow> string list \<times> string list \<Rightarrow> nat" where
  "protect_measure ts s = length (snd s) + card (mentioned_parents ts - set (fst s))"

lemma protect_step_decreases:
  assumes "frontier \<noteq> []"
  shows "protect_measure ts (protect_step ts (prot, frontier)) < protect_measure ts (prot, frontier)"
proof -
  let ?ps = "parents_of ts (take 500 frontier)"
  obtain new where new: "add_parents ?ps prot (drop 500 frontier) = (rev new @ prot, drop 500 frontier @ new)"
    "distinct new" "set new = set ?ps - set prot" using add_parents_new by blast
  have "set ?ps \<subseteq> mentioned_parents ts" by (auto simp: set_parents_of mentioned_parents_def)
  with new(3) have sub: "set new \<subseteq> mentioned_parents ts - set prot" by auto
  have "mentioned_parents ts - set (rev new @ prot) = mentioned_parents ts - set prot - set new" by auto
  then have "card (mentioned_parents ts - set (rev new @ prot)) = card (mentioned_parents ts - set prot) - length new"
    using card_Diff_subset [OF List.finite_set sub] distinct_card [OF new(2)] by simp
  moreover have "length new \<le> card (mentioned_parents ts - set prot)"
    using card_mono [OF _ sub] card_mentioned_parents [of ts] distinct_card [OF new(2)] by simp
  moreover have "length (drop 500 frontier) < length frontier" using assms by (cases frontier) auto
  ultimately show ?thesis
    by (simp add: protect_step_def protect_measure_def new(1))
qed

lemma protect_loop_returns: "protect_measure ts s \<le> fuel \<Longrightarrow> \<exists>prot. protect_loop fuel ts s = Some prot"
proof (induction fuel arbitrary: s)
  case 0
  then show ?case by (simp add: protect_loop.simps protect_measure_def)
next
  case (Suc n)
  show ?case
  proof (cases "snd s = []")
    case False
    then have "protect_measure ts (protect_step ts s) \<le> n"
      using protect_step_decreases [of "snd s" ts "fst s"] Suc.prems by simp
    from Suc.IH [OF this] False show ?thesis by (simp add: protect_loop.simps)
  qed (simp add: protect_loop.simps)
qed

text \<open>The state of the worklist: every protected or initial id is waiting or has its parents protected.\<close>

definition protect_inv :: "task list \<Rightarrow> string list \<Rightarrow> string list \<times> string list \<Rightarrow> bool" where
  "protect_inv ts start s \<longleftrightarrow> (\<forall>x \<in> set start \<union> set (fst s).
     x \<in> set (snd s) \<or> set (parents_of ts [x]) \<subseteq> set (fst s))"

lemma protect_step_inv:
  assumes "protect_inv ts start (prot, frontier)"
  shows "protect_inv ts start (protect_step ts (prot, frontier))"
proof -
  let ?ps = "parents_of ts (take 500 frontier)"
  obtain new where new: "add_parents ?ps prot (drop 500 frontier) = (rev new @ prot, drop 500 frontier @ new)"
    "set new = set ?ps - set prot" using add_parents_new by blast
  have fr: "x \<in> set frontier \<Longrightarrow> x \<in> set (take 500 frontier) \<or> x \<in> set (drop 500 frontier)" for x
    by (metis UnE append_take_drop_id set_append)
  have seen: "x \<in> set (take 500 frontier) \<Longrightarrow> set (parents_of ts [x]) \<subseteq> set new \<union> set prot" for x
    unfolding new(2) set_parents_of by auto
  show ?thesis
    unfolding protect_inv_def protect_step_def prod.case new(1)
    using assms fr seen by (fastforce simp: protect_inv_def)
qed

lemma protect_loop_inv:
  "protect_loop fuel ts s = Some prot \<Longrightarrow> protect_inv ts start s \<Longrightarrow> protect_inv ts start (prot, [])"
proof (induction fuel arbitrary: s)
  case 0
  then show ?case by (cases s) (auto simp: protect_loop.simps split: if_splits)
next
  case (Suc n)
  show ?case
  proof (cases "snd s = []")
    case True
    with Suc.prems show ?thesis by (cases s) (simp add: protect_loop.simps)
  next
    case False
    with Suc.prems(1) have "protect_loop n ts (protect_step ts s) = Some prot" by (simp add: protect_loop.simps)
    from Suc.IH [OF this] Suc.prems(2) protect_step_inv [of ts start "fst s" "snd s"] show ?thesis by simp
  qed
qed


text \<open>The rows after compaction: those that are not removed, with bounded descriptions.\<close>

definition described :: "task \<Rightarrow> task" where
  "described t = t\<lparr>tk_description := bounded_description (tk_description t)\<rparr>"

lemma described_simps [simp]:
  "tk_id (described t) = tk_id t" "tk_parent (described t) = tk_parent t"
  "tk_status (described t) = tk_status t" "historical (described t) = historical t"
  "history_key (described t) = history_key t"
  by (simp_all add: described_def historical_def history_key_def split: option.splits)

lemma bound_descriptions_map: "bound_descriptions ts = map described ts"
  by (simp add: bound_descriptions_def described_def)

definition recent_ids :: "int \<Rightarrow> task list \<Rightarrow> string list" where
  "recent_ids keep ts = take (nat keep) (map tk_id (rev (sort_key history_key (filter historical ts))))"

lemma insort_key_map: "insort_key k (f x) (map f xs) = map f (insort_key (\<lambda>x. k (f x)) x xs)"
  by (induction xs) auto

lemma sort_key_map: "sort_key k (map f xs) = map f (sort_key (\<lambda>x. k (f x)) xs)"
  by (induction xs) (simp_all add: insort_key_map)

lemma recent_ids_described [simp]: "recent_ids keep (map described ts) = recent_ids keep ts"
  by (simp add: recent_ids_def filter_map sort_key_map comp_def rev_map)

definition removable_ids :: "int \<Rightarrow> int \<Rightarrow> task list \<Rightarrow> string list" where
  "removable_ids keep limit ts =
    (let candidates = take (nat limit) (map tk_id (filter (\<lambda>t. historical t \<and> tk_id t \<notin> set (recent_ids keep ts)) ts));
         frontier = map tk_id (filter (\<lambda>t. tk_id t \<notin> set candidates) ts)
     in filter (\<lambda>i. i \<notin> set (the (protect_loop (protect_fuel ts) ts ([], frontier)))) candidates)"

text \<open>The worklist ends within its fuel, and what it returns is closed under parents.\<close>

lemma protect_closed:
  assumes "length start \<le> length ts"
  obtains prot where "protect_loop (protect_fuel ts) ts ([], start) = Some prot"
    and "\<And>t p. t \<in> set ts \<Longrightarrow> tk_id t \<in> set start \<union> set prot \<Longrightarrow> tk_parent t = Some p \<Longrightarrow> p \<in> set prot"
proof -
  have "protect_measure ts ([], start) \<le> protect_fuel ts"
    using assms card_mentioned_parents [of ts] by (simp add: protect_measure_def protect_fuel_def)
  then obtain prot where prot: "protect_loop (protect_fuel ts) ts ([], start) = Some prot"
    using protect_loop_returns by blast
  have "protect_inv ts start (prot, [])"
    by (rule protect_loop_inv [OF prot]) (simp add: protect_inv_def)
  then have "p \<in> set prot" if "t \<in> set ts" "tk_id t \<in> set start \<union> set prot" "tk_parent t = Some p" for t p
    using that unfolding protect_inv_def by (force simp: set_parents_of)
  with prot show thesis by (rule that)
qed

text \<open>
  C26: The worklist of compaction ends within its fuel for every table, and what it returns
  is closed: every parent of an initial or of a protected id is protected.
\<close>

theorem protection_terminates:
  "\<exists>prot. protect_loop (protect_fuel ts) ts ([], map tk_id (filter q ts)) = Some prot \<and>
     (\<forall>t \<in> set ts. \<forall>p. (q t \<or> tk_id t \<in> set prot) \<longrightarrow> tk_parent t = Some p \<longrightarrow> p \<in> set prot)"
proof -
  have "length (map tk_id (filter q ts)) \<le> length ts" by simp
  from protect_closed [OF this] obtain prot
    where prot: "protect_loop (protect_fuel ts) ts ([], map tk_id (filter q ts)) = Some prot"
      and closed: "\<And>t p. t \<in> set ts \<Longrightarrow> tk_id t \<in> set (map tk_id (filter q ts)) \<union> set prot \<Longrightarrow>
        tk_parent t = Some p \<Longrightarrow> p \<in> set prot" by blast
  have "p \<in> set prot" if "t \<in> set ts" "q t \<or> tk_id t \<in> set prot" "tk_parent t = Some p" for t p
    using closed [OF that(1) _ that(3)] that(1,2) by auto
  with prot show ?thesis by blast
qed

lemma protection_terminates_witness:
  "\<exists>prot. protect_loop 5 [plain_task ''p'' Completed 0 None, plain_task ''c'' Pending 1 (Some ''p'')] ([], [''c'']) = Some prot \<and> ''p'' \<in> set prot"
  using protection_terminates [of "[plain_task ''p'' Completed 0 None, plain_task ''c'' Pending 1 (Some ''p'')]" active]
  by (auto simp: protect_fuel_def plain_task_def active_def)

lemma removable_not_parent:
  assumes "t \<in> set ts" and "tk_id t \<notin> set (removable_ids keep limit ts)" and "tk_parent t = Some p"
  shows "p \<notin> set (removable_ids keep limit ts)"
proof -
  define candidates where "candidates = take (nat limit) (map tk_id
    (filter (\<lambda>t. historical t \<and> tk_id t \<notin> set (recent_ids keep ts)) ts))"
  define start where "start = map tk_id (filter (\<lambda>t. tk_id t \<notin> set candidates) ts)"
  have rem: "removable_ids keep limit ts =
      filter (\<lambda>i. i \<notin> set (the (protect_loop (protect_fuel ts) ts ([], start)))) candidates"
    by (simp add: removable_ids_def Let_def candidates_def start_def)
  have "length start \<le> length ts" by (simp add: start_def)
  from protect_closed [OF this] obtain prot where prot: "protect_loop (protect_fuel ts) ts ([], start) = Some prot"
      and closed: "\<And>t p. t \<in> set ts \<Longrightarrow> tk_id t \<in> set start \<union> set prot \<Longrightarrow> tk_parent t = Some p \<Longrightarrow> p \<in> set prot"
    by blast
  have "tk_id t \<notin> set candidates \<or> tk_id t \<in> set prot"
    using assms(2) by (simp add: rem prot)
  then have "tk_id t \<in> set start \<union> set prot"
    using assms(1) by (auto simp: start_def)
  from closed [OF assms(1) this assms(3)] show ?thesis by (simp add: rem prot)
qed

lemma removable_historical:
  "i \<in> set (removable_ids keep limit ts) \<Longrightarrow>
   i \<notin> set (recent_ids keep ts) \<and> (\<exists>t \<in> set ts. tk_id t = i \<and> historical t)"
  by (auto simp: removable_ids_def Let_def dest!: in_set_takeD)

lemma length_removable: "length (removable_ids keep limit ts) \<le> nat limit"
  unfolding removable_ids_def Let_def by (rule le_trans [OF length_filter_le]) simp


lemma protect_loop_the:
  "length start \<le> length ts \<Longrightarrow>
   protect_loop (protect_fuel ts) ts ([], start) = Some (the (protect_loop (protect_fuel ts) ts ([], start)))"
  by (metis protect_closed option.sel)

text \<open>Compaction in closed form: nothing at all, or the removal of the removable ids.\<close>

lemma compact_history_eq:
  obtains "compact_history db keep limit = (0, db)" and "keep \<le> 0 \<or> limit \<le> 0"
  | "compact_history db keep limit = (0, db\<lparr>qd_tasks := map described (qd_tasks db)\<rparr>)" and "0 < keep" and "0 < limit"
      and "removable_ids keep limit (map described (qd_tasks db)) = []"
  | "compact_history db keep limit =
      (count_where (\<lambda>t. tk_id t \<in> set (removable_ids keep limit (map described (qd_tasks db)))) (map described (qd_tasks db)),
       db\<lparr>qd_tasks := filter (\<lambda>t. tk_id t \<notin> set (removable_ids keep limit (map described (qd_tasks db))))
          (map described (qd_tasks db))\<rparr>)" and "0 < keep" and "0 < limit"
proof (cases "keep \<le> 0 \<or> limit \<le> 0")
  case True
  then have "compact_history db keep limit = (0, db)" by (simp add: compact_history_def)
  with True that(1) show thesis by blast
next
  case False
  define ts where "ts = map described (qd_tasks db)"
  define candidates where "candidates = take (nat limit) (map tk_id
    (filter (\<lambda>t. historical t \<and> tk_id t \<notin> set (recent_ids keep ts)) ts))"
  define start where "start = map tk_id (filter (\<lambda>t. tk_id t \<notin> set candidates) ts)"
  have rem: "removable_ids keep limit ts =
      filter (\<lambda>i. i \<notin> set (the (protect_loop (protect_fuel ts) ts ([], start)))) candidates"
    by (simp add: removable_ids_def Let_def candidates_def start_def)
  have ret: "protect_loop (protect_fuel ts) ts ([], start) = Some (the (protect_loop (protect_fuel ts) ts ([], start)))"
    by (rule protect_loop_the) (simp add: start_def)
  have eq: "compact_history db keep limit =
     (if recent_ids keep ts = [] \<or> candidates = [] then (0, db\<lparr>qd_tasks := ts\<rparr>)
      else (count_where (\<lambda>t. tk_id t \<in> set (removable_ids keep limit ts)) ts,
            db\<lparr>qd_tasks := filter (\<lambda>t. tk_id t \<notin> set (removable_ids keep limit ts)) ts\<rparr>))"
    unfolding compact_history_def Let_def bound_descriptions_map ts_def [symmetric]
      recent_ids_def [symmetric] candidates_def [symmetric] start_def [symmetric]
    using False by (subst ret) (simp add: rem)
  have "recent_ids keep ts = [] \<Longrightarrow> filter historical ts = []"
    using False by (simp add: recent_ids_def)
  then have "recent_ids keep ts = [] \<Longrightarrow> candidates = []"
    by (auto simp: candidates_def filter_empty_conv)
  then have none: "recent_ids keep ts = [] \<or> candidates = [] \<Longrightarrow> removable_ids keep limit ts = []"
    by (auto simp: rem)
  show thesis
    using that(2,3) eq none False unfolding ts_def [symmetric] by (metis not_le)
qed

lemma history_edits:
  assumes uid: "key_unique tk_id (qd_tasks db)"
  shows "quiet_edits (qd_tasks db) (qd_tasks (snd (compact_history db k l)))"
proof -
  let ?rem = "removable_ids k l (map described (qd_tasks db))"
  have desc: "quiet_moves t (described t)" for t
    using describe_row_moves by (simp add: described_def)
  have all: "quiet_edits (qd_tasks db) (map described (qd_tasks db))"
    unfolding row_edit_def using desc
    by (intro exI [of _ "\<lambda>_. True"] exI [of _ described]) simp
  have del: "deletable t" if t: "t \<in> set (qd_tasks db)" "tk_id t \<in> set ?rem" for t
  proof -
    from t(2) obtain u where u: "u \<in> set (qd_tasks db)" "tk_id u = tk_id t" "historical u"
      using removable_historical by fastforce
    with key_unique_eq [OF uid t(1) u(1)] show ?thesis by (auto simp: historical_def deletable_def)
  qed
  have some: "quiet_edits (qd_tasks db) (filter (\<lambda>t. tk_id t \<notin> set ?rem) (map described (qd_tasks db)))"
    unfolding row_edit_def using desc del
    by (intro exI [of _ "\<lambda>t. tk_id t \<notin> set ?rem"] exI [of _ described]) (simp add: filter_map comp_def)
  show ?thesis
    by (rule compact_history_eq [of db k l]) (use all some quiet_edits_refl in simp_all)
qed

text \<open>
  C24: Compaction removes only completed and failed tasks, at most \<open>limit\<close> of them, none of
  the \<open>keep_recent\<close> latest, and never a parent of a task that stays: no task becomes an orphan
  by it. Pending and running tasks keep everything but the length of their description.
\<close>

theorem compaction_is_safe:
  assumes "key_unique tk_id (qd_tasks db)" and "compact_history db keep limit = (n, db')"
    and "0 < keep" and "0 < limit"
  shows "(\<forall>t \<in> set (qd_tasks db). active t \<or> tk_id t \<in> set (recent_ids keep (qd_tasks db)) \<longrightarrow>
      described t \<in> set (qd_tasks db')) \<and>
    (\<forall>t \<in> set (qd_tasks db'). orphan (qd_tasks db') t \<longrightarrow> orphan (qd_tasks db) t) \<and>
    n = length (qd_tasks db) - length (qd_tasks db') \<and> n \<le> nat limit"
proof -
  define ts where "ts = map described (qd_tasks db)"
  define gone where "gone = removable_ids keep limit ts"
  have uid: "key_unique tk_id ts"
    using assms(1) by (simp add: ts_def key_unique_def comp_def)
  have db': "qd_tasks db' = filter (\<lambda>t. tk_id t \<notin> set gone) ts" and n: "n = count_where (\<lambda>t. tk_id t \<in> set gone) ts"
  proof -
    have "qd_tasks db' = filter (\<lambda>t. tk_id t \<notin> set gone) ts \<and> n = count_where (\<lambda>t. tk_id t \<in> set gone) ts"
      by (rule compact_history_eq [of db keep limit])
        (use assms(2-4) in \<open>auto simp: ts_def [symmetric] gone_def [symmetric] count_where_def\<close>)
    then show "qd_tasks db' = filter (\<lambda>t. tk_id t \<notin> set gone) ts" "n = count_where (\<lambda>t. tk_id t \<in> set gone) ts"
      by auto
  qed
  have kept: "described t \<in> set (qd_tasks db')"
    if t: "t \<in> set (qd_tasks db)" "active t \<or> tk_id t \<in> set (recent_ids keep (qd_tasks db))" for t
  proof -
    have mem: "described t \<in> set ts" using t(1) by (simp add: ts_def)
    have "tk_id t \<notin> set gone"
    proof
      assume g: "tk_id t \<in> set gone"
      then obtain u where u: "u \<in> set ts" "tk_id u = tk_id t" "historical u"
        and nr: "tk_id t \<notin> set (recent_ids keep ts)"
        using removable_historical unfolding gone_def by blast
      with key_unique_eq [OF uid mem u(1)] have "u = described t" by simp
      with u(3) have "historical t" by simp
      with t(2) nr show False by (auto simp: ts_def historical_def active_def)
    qed
    with mem show ?thesis by (simp add: db')
  qed
  have orph: "orphan (qd_tasks db) t" if t: "t \<in> set (qd_tasks db')" "orphan (qd_tasks db') t" for t
  proof -
    from t obtain p where p: "tk_parent t = Some p" "\<forall>q \<in> set (qd_tasks db'). tk_id q \<noteq> p"
      by (auto simp: orphan_def lookup_row_None_iff split: option.splits)
    from t(1) have "t \<in> set ts" "tk_id t \<notin> set gone" by (auto simp: db')
    with removable_not_parent [of t ts keep limit p] p(1) have "p \<notin> set gone" by (simp add: gone_def)
    with p(2) have "\<forall>q \<in> set ts. tk_id q \<noteq> p" by (auto simp: db')
    then have "\<forall>q \<in> set (qd_tasks db). tk_id q \<noteq> p" by (simp add: ts_def)
    with p(1) show ?thesis by (auto simp: orphan_def lookup_row_None_iff)
  qed
  have "length (qd_tasks db) = length (filter (\<lambda>t. tk_id t \<in> set gone) ts) + length (qd_tasks db')"
    using sum_length_filter_compl [of "\<lambda>t. tk_id t \<in> set gone" ts] by (simp add: db' ts_def)
  then have count: "n = length (qd_tasks db) - length (qd_tasks db')"
    by (simp add: n count_where_def)
  have "n \<le> length gone" unfolding n by (rule count_where_ids_le [OF uid])
  with length_removable [of keep limit ts] have "n \<le> nat limit" by (simp add: gone_def)
  with kept orph count show ?thesis by blast
qed


lemma compaction_is_safe_witness:
  "compact_history (queue_with [stopped_row ''a'' 1 None, stopped_row ''b'' 2 None]) 1 5 = (1, queue_with [stopped_row ''b'' 2 None]) \<and>
   described (stopped_row ''b'' 2 None) \<in> set (qd_tasks (queue_with [stopped_row ''b'' 2 None]))"
proof -
  let ?db = "queue_with [stopped_row ''a'' 1 None, stopped_row ''b'' 2 None]"
  have run: "compact_history ?db 1 5 = (1, queue_with [stopped_row ''b'' 2 None])" by code_simp
  have uid: "key_unique tk_id (qd_tasks ?db)"
    by (simp add: queue_with_def key_unique_def stopped_row_def plain_task_def)
  have "tk_id (stopped_row ''b'' 2 None) \<in> set (recent_ids 1 (qd_tasks ?db))" by code_simp
  with compaction_is_safe [OF uid run] run show ?thesis by (simp add: queue_with_def)
qed

end
