(* ===== verification/TaskLife.thy ===== *)
theory TaskLife
  imports TaskRuns
begin

text \<open>
  Every reachable state of the task queue (\<^verbatim>\<open>src/shared/queue.py\<close>): the invariant of its
  tables, the life of a task as an interpretation of the lifecycle contract, the binding of
  tasks to cases, and what claiming, retry, repair and compaction guarantee.
\<close>

section \<open>The invariant\<close>

text \<open>A case-bound task names a registered case that permits execution; a forensic task is bound.\<close>

definition case_bound :: "case_row list \<Rightarrow> task \<Rightarrow> bool" where
  "case_bound cases t \<longleftrightarrow>
    (case tk_case_id t of
       None \<Rightarrow> (case tk_role t of None \<Rightarrow> True | Some r \<Rightarrow> r \<notin> set case_required_roles)
     | Some c \<Rightarrow> c \<noteq> [] \<and> (\<exists>row. lookup_row cr_case_id cases c = Some row \<and>
         rc_case_id (cr_payload row) = c \<and> rc_status (cr_payload row) \<in> {READY, CASE_RUNNING}))"

text \<open>A task that inherited from a parent still in the table agrees with it.\<close>

definition agrees_with :: "task \<Rightarrow> task \<Rightarrow> bool" where
  "agrees_with p t \<longleftrightarrow> (tk_parent t = Some (tk_id p) \<longrightarrow> tk_case_id t = tk_case_id p \<and> tk_round_id t = tk_round_id p)"

text \<open>In rowid order a parent comes before its children, so parent links never form a cycle.\<close>

fun parents_first :: "task list \<Rightarrow> bool" where
  "parents_first [] = True"
| "parents_first (t # ts) = ((\<forall>q \<in> set (t # ts). tk_parent t \<noteq> Some (tk_id q)) \<and> parents_first ts)"

definition tasks_inv :: "string set \<Rightarrow> queue_db \<Rightarrow> bool" where
  "tasks_inv used db \<longleftrightarrow> key_unique tk_id (qd_tasks db) \<and>
     (\<forall>row \<in> set (qd_cases db). rc_case_id (cr_payload row) = cr_case_id row) \<and>
     (\<forall>t \<in> set (qd_tasks db). task_wf t \<and> case_bound (qd_cases db) t \<and> tk_id t \<in> used \<and>
        set_option (tk_parent t) \<subseteq> used) \<and>
     (\<forall>p \<in> set (qd_tasks db). \<forall>t \<in> set (qd_tasks db). agrees_with p t) \<and>
     parents_first (qd_tasks db)"

lemma parents_first_edit:
  assumes "\<And>t. t \<in> set ts \<Longrightarrow> p t \<Longrightarrow> tk_id (f t) = tk_id t \<and> tk_parent (f t) = tk_parent t"
  shows "parents_first ts \<Longrightarrow> parents_first (map f (filter p ts))"
  using assms by (induction ts) auto

lemma parents_first_snoc:
  "parents_first (ts @ [t]) \<longleftrightarrow> parents_first ts \<and> tk_parent t \<noteq> Some (tk_id t) \<and>
     (\<forall>q \<in> set ts. tk_parent q \<noteq> Some (tk_id t))"
  by (induction ts) auto

lemma case_bound_moves: "task_moves t t' \<Longrightarrow> case_bound cases t' = case_bound cases t"
  by (simp add: task_moves_def case_bound_def cong: option.case_cong)

lemma tasks_inv_edit:
  assumes inv: "tasks_inv used db" and ed: "edits (qd_tasks db) ts"
  shows "tasks_inv used (db\<lparr>qd_tasks := ts\<rparr>)"
proof -
  from ed obtain p f where ts: "ts = map f (filter p (qd_tasks db))"
    and mv: "\<And>t. t \<in> set (qd_tasks db) \<Longrightarrow> p t \<Longrightarrow> task_moves t (f t)"
    by (auto simp: row_edit_def)
  have same: "tk_id (f t) = tk_id t \<and> tk_parent (f t) = tk_parent t \<and> tk_case_id (f t) = tk_case_id t \<and>
      tk_round_id (f t) = tk_round_id t \<and> (task_wf t \<longrightarrow> task_wf (f t))" if "t \<in> set (qd_tasks db)" "p t" for t
    using mv [OF that] by (simp add: task_moves_def)
  have "map tk_id ts = map tk_id (filter p (qd_tasks db))"
    using same by (simp add: ts)
  then have "key_unique tk_id ts"
    using inv key_unique_filter [of tk_id "qd_tasks db" p] by (simp add: tasks_inv_def key_unique_def)
  moreover have "parents_first ts"
    unfolding ts by (rule parents_first_edit) (use same inv in \<open>auto simp: tasks_inv_def\<close>)
  moreover have "task_wf u \<and> case_bound (qd_cases db) u \<and> tk_id u \<in> used \<and> set_option (tk_parent u) \<subseteq> used"
    if "u \<in> set ts" for u
    using that same case_bound_moves [OF mv] inv by (auto simp: ts tasks_inv_def)
  moreover have "agrees_with u v" if "u \<in> set ts" "v \<in> set ts" for u v
    using that same inv by (auto simp: ts tasks_inv_def agrees_with_def)
  ultimately show ?thesis using inv by (simp add: tasks_inv_def)
qed

section \<open>Registration and enqueueing\<close>

lemma register_inv:
  assumes inv: "tasks_inv used db" and reg: "register_research_case db c now = Inr (i, db')"
  shows "tasks_inv used db'"
proof (cases "lookup_row cr_case_id (qd_cases db) (rc_case_id c)")
  case (Some row)
  with reg inv show ?thesis by (auto simp: register_research_case_def split: if_splits)
next
  case None
  with reg have db': "db' = db\<lparr>qd_cases := qd_cases db @
      [\<lparr>cr_case_id = rc_case_id c, cr_payload = c, cr_registered_at = now\<rparr>]\<rparr>"
    by (auto simp: register_research_case_def)
  have "case_bound (qd_cases db') t" if "case_bound (qd_cases db) t" for t
    using that by (auto simp: db' case_bound_def lookup_row_snoc split: option.splits)
  with inv show ?thesis by (auto simp: tasks_inv_def db')
qed

lemma check_case_bound:
  assumes "check_case db role c = Inr u"
    and cases: "\<forall>row \<in> set (qd_cases db). rc_case_id (cr_payload row) = cr_case_id row"
    and "tk_role t = role" and "tk_case_id t = c"
  shows "case_bound (qd_cases db) t"
proof (cases c)
  case None
  with assms show ?thesis
    by (auto simp: check_case_def case_bound_def given_def split: option.splits if_splits)
next
  case (Some i)
  with assms(1) obtain rc where rc: "get_research_case db i = Some rc"
      and val: "bindR (validate_task_binding (Some rc) (Some i)) (\<lambda>_. Inr ()) = Inr u"
    by (auto simp: check_case_def split: option.splits if_splits)
  from rc have "i \<noteq> []" by (auto simp: get_research_case_def)
  with rc obtain row where row: "lookup_row cr_case_id (qd_cases db) i = Some row" "cr_payload row = rc"
    by (auto simp: get_research_case_def split: if_splits)
  from val have "rc_status rc \<in> {READY, CASE_RUNNING}"
    by (auto simp: bindR_Inr_iff validate_task_binding_def split: if_splits)
  with row cases Some assms(4) \<open>i \<noteq> []\<close> show ?thesis
    using lookup_row_SomeD [OF row(1)] by (auto simp: case_bound_def)
qed

lemma new_task_simps [simp]:
  "tk_id (new_task i now a c r) = i" "tk_status (new_task i now a c r) = Pending"
  "tk_parent (new_task i now a c r) = ag_parent a" "tk_role (new_task i now a c r) = ag_role a"
  "tk_case_id (new_task i now a c r) = c" "tk_round_id (new_task i now a c r) = r"
  by (simp_all add: new_task_def)

lemma queue_add_Inr:
  assumes "queue_add db i now a = Inr (j, db')"
  obtains c r where "inherit_case db (ag_parent a) (ag_case_id a) (ag_round_id a) = Inr (c, r)"
    and "check_case db (ag_role a) c = Inr ()" and "task_row db i = None" and "j = i"
    and "db' = db\<lparr>qd_tasks := qd_tasks db @ [new_task i now a c r]\<rparr>"
proof -
  from assms obtain c r where ih: "inherit_case db (ag_parent a) (ag_case_id a) (ag_round_id a) = Inr (c, r)"
    by (auto simp: queue_add_def bindR_Inr_iff)
  from assms have ck: "check_case db (ag_role a) c = Inr ()"
    by (auto simp: queue_add_def bindR_Inr_iff ih)
  from assms have row: "task_row db i = None" and eq: "j = i"
      "db' = db\<lparr>qd_tasks := qd_tasks db @ [new_task i now a c r]\<rparr>"
    by (auto simp: queue_add_def bindR_Inr_iff ih split: if_splits)
  from that [OF ih ck row eq] show thesis .
qed

lemma inherit_case_parent:
  assumes "inherit_case db parent c r = Inr (c', r')" and "given parent" and "task_row db (the parent) = Some p"
  shows "c' = tk_case_id p \<and> r' = tk_round_id p"
  using assms by (auto simp: inherit_case_def bindR_Inr_iff Let_def given_def split: if_splits)

lemma add_inv:
  assumes inv: "tasks_inv used db" and add: "queue_add db i now a = Inr (j, db')"
    and fresh: "i \<notin> used" "i \<noteq> []" "ag_parent a \<noteq> Some i"
  shows "tasks_inv (insert i (used \<union> set_option (ag_parent a))) db'"
proof -
  from add obtain c r where ih: "inherit_case db (ag_parent a) (ag_case_id a) (ag_round_id a) = Inr (c, r)"
    and ck: "check_case db (ag_role a) c = Inr ()" and row: "task_row db i = None"
    and db': "db' = db\<lparr>qd_tasks := qd_tasks db @ [new_task i now a c r]\<rparr>"
    by (rule queue_add_Inr)
  let ?t = "new_task i now a c r"
  have wf: "task_wf ?t"
    using fresh(2) bounded_description_length by (simp add: new_task_def task_wf_def)
  have old: "\<And>q. q \<in> set (qd_tasks db) \<Longrightarrow> tk_id q \<in> used \<and> set_option (tk_parent q) \<subseteq> used \<and> tk_id q \<noteq> []"
    and uid: "key_unique tk_id (qd_tasks db)"
    using inv by (auto simp: tasks_inv_def task_wf_def)
  have bound: "case_bound (qd_cases db) ?t"
    by (rule check_case_bound [OF ck]) (use inv in \<open>auto simp: tasks_inv_def\<close>)
  have "agrees_with p ?t" if p: "p \<in> set (qd_tasks db)" for p
    unfolding agrees_with_def new_task_simps
  proof
    assume eq: "ag_parent a = Some (tk_id p)"
    with old [OF p] have g: "given (ag_parent a)" by (auto simp: given_def)
    from eq lookup_row_mem [OF uid p] have "task_row db (the (ag_parent a)) = Some p" by (simp add: task_row_def)
    from inherit_case_parent [OF ih g this] show "c = tk_case_id p \<and> r = tk_round_id p" .
  qed
  moreover have "agrees_with ?t q" if "q \<in> set (qd_tasks db)" for q
    using old [OF that] fresh(1) by (auto simp: agrees_with_def)
  moreover have "agrees_with ?t ?t" using fresh(3) by (simp add: agrees_with_def)
  moreover have "parents_first (qd_tasks db @ [?t])"
    using inv old fresh by (auto simp: tasks_inv_def parents_first_snoc)
  ultimately show ?thesis
    using inv wf bound row old by (auto simp: tasks_inv_def db' task_row_def)
qed


section \<open>Runs\<close>

text \<open>
  A run carries the ghost set of the ids seen so far; a new id (uuid4) is fresh: not seen,
  not empty, not guessed by the caller as its own parent.
\<close>

type_synonym queue_sys = "string set \<times> queue_db"

fun op_ids :: "queue_op \<Rightarrow> string set" where
  "op_ids (Add i now a) = insert i (set_option (ag_parent a))"
| "op_ids _ = {}"

definition sys_queue_step :: "queue_op \<Rightarrow> queue_sys \<Rightarrow> queue_sys" where
  "sys_queue_step x s = (op_ids x \<union> fst s, queue_step x (snd s))"

fun queue_op_ok :: "queue_op \<Rightarrow> queue_sys \<Rightarrow> bool" where
  "queue_op_ok (Add i now a) s = (i \<notin> fst s \<and> i \<noteq> [] \<and> ag_parent a \<noteq> Some i)"
| "queue_op_ok _ _ = True"

definition queue_sys_inv :: "queue_sys \<Rightarrow> bool" where
  "queue_sys_inv s \<longleftrightarrow> tasks_inv (fst s) (snd s)"

definition task_life :: "queue_sys \<Rightarrow> string \<Rightarrow> life option" where
  "task_life s i = Some (case task_row (snd s) i of Some t \<Rightarrow> Alive (tk_status t)
     | None \<Rightarrow> if i \<in> fst s then Gone else Unborn)"

lemma queue_init_inv [simp]: "queue_sys_inv ({}, empty_queue)"
  by (simp add: queue_sys_inv_def tasks_inv_def empty_queue_def)

text \<open>All operations but the two insertions edit rows, and all but a claim and a requeue do so quietly.\<close>

lemma queue_step_quiet:
  assumes "key_unique tk_id (qd_tasks db)" and "op_ids x = {}" and "\<And>c now. x \<noteq> RegisterCase c now"
    and "\<And>reads i n. x \<noteq> Requeue reads i n" and "\<And>w role now. x \<noteq> Claim w role now"
  shows "quiet_edits (qd_tasks db) (qd_tasks (queue_step x db))"
  using assms by (cases x) (auto simp: finish_edits fail_edits recover_edits
    decide_edits results_edits repair_edits history_edits)

lemma queue_step_uncounted:
  assumes "key_unique tk_id (qd_tasks db)" and "op_ids x = {}" and "\<And>c now. x \<noteq> RegisterCase c now"
    and "\<And>reads i n. x \<noteq> Requeue reads i n"
  shows "uncounted_edits (qd_tasks db) (qd_tasks (queue_step x db))"
proof (cases "\<exists>w role now. x = Claim w role now")
  case True
  then show ?thesis by (auto simp: claim_edits)
next
  case False
  with queue_step_quiet [OF assms] show ?thesis by (blast intro: quiet_edits_uncounted)
qed

lemma queue_step_edits:
  assumes uid: "key_unique tk_id (qd_tasks db)" and "op_ids x = {}" and "\<And>c now. x \<noteq> RegisterCase c now"
  shows "edits (qd_tasks db) (qd_tasks (queue_step x db)) \<and> queue_step x db = db\<lparr>qd_tasks := qd_tasks (queue_step x db)\<rparr>"
proof -
  have "edits (qd_tasks db) (qd_tasks (queue_step x db))"
  proof (cases "\<exists>reads i n. x = Requeue reads i n")
    case True
    then show ?thesis by (auto simp: requeue_edits)
  next
    case False
    with queue_step_uncounted [OF assms] show ?thesis by (auto intro: uncounted_edits_edits)
  qed
  moreover have "queue_step x db = db\<lparr>qd_tasks := qd_tasks (queue_step x db)\<rparr>"
  proof (cases x)
    case (CompactHistory k l)
    show ?thesis unfolding CompactHistory by (rule compact_history_eq [of db k l]) simp_all
  qed (use assms in \<open>auto simp: queue_claim_def queue_finish_def queue_fail_def requeue_op_eq requeue_failed_at_def
      recover_stale_running_def mark_planner_decision_def repair_active_orphans_def compact_completed_results_def
      Let_def kept_def kept_unit_def split_beta split: list.split option.split\<close>)
  ultimately show ?thesis ..
qed

lemma queue_sys_step_inv:
  assumes inv: "queue_sys_inv s" and ok: "queue_op_ok x s"
  shows "queue_sys_inv (sys_queue_step x s)"
proof -
  obtain used db where s: "s = (used, db)" by (cases s)
  from inv have inv: "tasks_inv used db" by (simp add: queue_sys_inv_def s)
  then have uid: "key_unique tk_id (qd_tasks db)" by (simp add: tasks_inv_def)
  have more: "tasks_inv (A \<union> used) db" for A
    using inv by (auto simp: tasks_inv_def)
  have "tasks_inv (op_ids x \<union> used) (queue_step x db)"
  proof (cases "op_ids x = {} \<and> (\<forall>c now. x \<noteq> RegisterCase c now)")
    case True
    with queue_step_edits [OF uid, of x] tasks_inv_edit [OF inv] show ?thesis by (metis Un_empty_left)
  next
    case False
    then consider (reg) c now where "x = RegisterCase c now" | (add) i now a where "x = Add i now a"
      by (cases x) auto
    then show ?thesis
    proof cases
      case reg
      then show ?thesis
        using inv register_inv [OF inv] by (auto simp: kept_def split: sum.split)
    next
      case add
      show ?thesis
      proof (cases "queue_add db i now a")
        case (Inl e)
        then show ?thesis using more [of "op_ids x"] by (simp add: add kept_def)
      next
        case (Inr y)
        obtain j db' where y: "y = (j, db')" by (cases y)
        from add_inv [OF inv Inr [unfolded y]] ok show ?thesis
          by (simp add: add kept_def Inr y s Un_commute)
      qed
    qed
  qed
  then show ?thesis by (simp add: queue_sys_inv_def sys_queue_step_def s)
qed

lemma lookup_row_edit:
  assumes uid: "key_unique tk_id ts" and ed: "edits ts ts'"
  shows "lookup_row tk_id ts i = None \<Longrightarrow> lookup_row tk_id ts' i = None"
    and "lookup_row tk_id ts i = Some t \<Longrightarrow>
      (lookup_row tk_id ts' i = None \<and> deletable t) \<or> (\<exists>t'. lookup_row tk_id ts' i = Some t' \<and> task_moves t t')"
proof -
  from ed obtain p f where ts': "ts' = map f (filter p ts)"
    and mv: "\<And>t. t \<in> set ts \<Longrightarrow> p t \<Longrightarrow> task_moves t (f t)"
    and del: "\<And>t. t \<in> set ts \<Longrightarrow> \<not> p t \<Longrightarrow> deletable t"
    by (auto simp: row_edit_def)
  then have key: "t \<in> set ts \<Longrightarrow> p t \<Longrightarrow> tk_id (f t) = tk_id t" for t by (auto dest: task_moves_key)
  show "lookup_row tk_id ts i = None \<Longrightarrow> lookup_row tk_id ts' i = None"
    using key by (auto simp: ts' lookup_row_None_iff)
  assume t: "lookup_row tk_id ts i = Some t"
  then have mem: "t \<in> set ts" "tk_id t = i" by (auto dest: lookup_row_SomeD)
  show "(lookup_row tk_id ts' i = None \<and> deletable t) \<or> (\<exists>t'. lookup_row tk_id ts' i = Some t' \<and> task_moves t t')"
  proof (cases "p t")
    case True
    have "map tk_id ts' = map tk_id (filter p ts)" using key by (simp add: ts')
    then have "key_unique tk_id ts'" using key_unique_filter [OF uid, of p] by (simp add: key_unique_def)
    from lookup_row_mem [OF this, of "f t"] True mem key [of t] have "lookup_row tk_id ts' i = Some (f t)"
      by (simp add: ts')
    with mv [OF mem(1) True] show ?thesis by blast
  next
    case False
    have "lookup_row tk_id ts' i = None"
      using key key_unique_eq [OF uid mem(1)] mem(2) False by (fastforce simp: ts' lookup_row_None_iff)
    with del [OF mem(1) False] show ?thesis by blast
  qed
qed

lemma queue_sys_step_moves:
  assumes inv: "queue_sys_inv s" and ok: "queue_op_ok x s" and life: "task_life s i = Some a"
  shows "\<exists>b. task_life (sys_queue_step x s) i = Some b \<and> (b = a \<or> life_allowed a b)"
proof -
  obtain used db where s: "s = (used, db)" by (cases s)
  from inv have uid: "key_unique tk_id (qd_tasks db)" by (simp add: queue_sys_inv_def tasks_inv_def s)
  show ?thesis
  proof (cases "op_ids x = {} \<and> (\<forall>c now. x \<noteq> RegisterCase c now)")
    case True
    then have ed: "edits (qd_tasks db) (qd_tasks (queue_step x db))" using queue_step_edits [OF uid] by blast
    have used: "i \<in> used" if "lookup_row tk_id (qd_tasks db) i = Some t" for t
      using inv lookup_row_SomeD [OF that] by (auto simp: queue_sys_inv_def tasks_inv_def s)
    show ?thesis
      using life lookup_row_edit [OF uid ed, of i] used True
      by (cases "lookup_row tk_id (qd_tasks db) i")
        (auto simp: task_life_def sys_queue_step_def s task_row_def deletable_def task_moves_def)
  next
    case False
    then consider (reg) c now where "x = RegisterCase c now" | (add) j now a where "x = Add j now a"
      by (cases x) auto
    then show ?thesis
    proof cases
      case reg
      have "qd_tasks (queue_step x db) = qd_tasks db"
        by (auto simp: reg kept_def register_research_case_def split: sum.split option.split)
      with life show ?thesis
        by (auto simp: task_life_def sys_queue_step_def s task_row_def reg simp del: queue_step.simps split: option.split)
    next
      case (add j now a)
      have "qd_tasks (queue_step x db) = qd_tasks db \<or>
          (\<exists>c r. qd_tasks (queue_step x db) = qd_tasks db @ [new_task j now a c r])"
        by (cases "queue_add db j now a") (auto simp: add kept_def elim!: queue_add_Inr, blast)
      with life ok show ?thesis
        by (auto simp: task_life_def sys_queue_step_def s task_row_def add lookup_row_snoc
            split: option.splits if_splits)
    qed
  qed
qed

interpretation task_system: lifecycle task_life life_allowed queue_op_ok sys_queue_step queue_sys_inv
  by unfold_locales (use queue_sys_step_inv queue_sys_step_moves in blast)+


abbreviation queue_run :: "queue_op list \<Rightarrow> queue_sys" where
  "queue_run ops \<equiv> fold sys_queue_step ops ({}, empty_queue)"

abbreviation queue_run_ok :: "queue_op list \<Rightarrow> bool" where
  "queue_run_ok ops \<equiv> run_ok queue_op_ok sys_queue_step ops ({}, empty_queue)"

lemma queue_run_inv: "queue_run_ok ops \<Longrightarrow> queue_sys_inv (queue_run ops)"
  by (rule task_system.run_inv [OF queue_init_inv])

text \<open>What a completed task can still become.\<close>

lemma completed_reaches: "life_allowed\<^sup>*\<^sup>* (Alive Completed) b \<Longrightarrow> b = Alive Completed \<or> b = Gone"
proof (induction rule: rtranclp_induct)
  case (step b c)
  then show ?case by (cases c) (auto elim: life_allowed.elims)
qed simp

text \<open>
  C11: Whatever operations follow, a completed task stays completed until it is deleted, and
  a deleted id never comes back: no task runs again after it completed.
\<close>

theorem completed_task_never_runs_again:
  assumes "queue_run_ok (ops @ ops')" and "task_row (snd (queue_run ops)) i = Some t" and "tk_status t = Completed"
  shows "case task_row (snd (queue_run (ops @ ops'))) i of Some t' \<Rightarrow> tk_status t' = Completed | None \<Rightarrow> True"
proof -
  from assms(1) have ok: "queue_run_ok ops" "run_ok queue_op_ok sys_queue_step ops' (queue_run ops)"
    by (auto simp: run_ok_append)
  have "task_life (queue_run ops) i = Some (Alive Completed)"
    using assms(2,3) by (simp add: task_life_def)
  from task_system.run_status [OF queue_run_inv [OF ok(1)] ok(2) this] completed_reaches
  show ?thesis by (fastforce simp: task_life_def split: option.splits if_splits)
qed

text \<open>The row of a claimed task.\<close>

definition claimed :: "string \<Rightarrow> instant \<Rightarrow> task \<Rightarrow> task" where
  "claimed worker now t = t\<lparr>tk_status := Running, tk_worker := Some worker, tk_started_at := Some now\<rparr>"

lemma claimed_simps [simp]:
  "tk_id (claimed w now t) = tk_id t" "tk_status (claimed w now t) = Running"
  "tk_role (claimed w now t) = tk_role t" "tk_case_id (claimed w now t) = tk_case_id t"
  by (simp_all add: claimed_def)

text \<open>A run: a task is enqueued, claimed, fails, is requeued.\<close>

definition small_args :: add_args where
  "small_args = \<lparr>ag_description = ''d'', ag_role = None, ag_parent = None, ag_intent = None, ag_allow_failed_parent = False,
     ag_evaluation_only = False, ag_evaluation_id = None, ag_case_id = None, ag_round_id = None\<rparr>"

definition small_run :: "queue_op list" where
  "small_run = [Add ''t'' 1 small_args, Claim ''w'' None 2, Fail ''t'' None 3, Requeue None ''t'' 1]"

definition done_run :: "queue_op list" where
  "done_run = [Add ''t'' 1 small_args, Claim ''w'' None 2, Finish ''t'' (Some JNull) 3]"

lemma completed_task_never_runs_again_witness:
  "case task_row (snd (queue_run (done_run @ [Requeue None ''t'' 3, Claim ''v'' None 5]))) ''t'' of
     Some t \<Rightarrow> tk_status t = Completed | None \<Rightarrow> True"
proof (rule completed_task_never_runs_again)
  show "queue_run_ok (done_run @ [Requeue None ''t'' 3, Claim ''v'' None 5])" by code_simp
  show "task_row (snd (queue_run done_run)) ''t'' =
      Some (finish_row Completed (Some JNull) 3 (claimed ''w'' 2 (plain_task ''t'' Pending 1 None)))" by code_simp
qed (simp add: finish_row_def)

section \<open>The tables of every reachable state\<close>

text \<open>
  C18: In every reachable state ids are unique, each row is well formed for its status, a
  forensic or case-bound task names a registered case that permits execution, a child agrees
  with its parent on case and round, and parent links form no cycle.
\<close>

theorem reachable_queue_is_sound:
  assumes "queue_run_ok ops"
  shows "tasks_inv (fst (queue_run ops)) (snd (queue_run ops))"
  using queue_run_inv [OF assms] by (simp add: queue_sys_inv_def)


lemma reachable_queue_is_sound_witness:
  "tasks_inv (fst (queue_run small_run)) (snd (queue_run small_run))"
  by (rule reachable_queue_is_sound) code_simp

section \<open>Claims\<close>

definition eligible :: "string option \<Rightarrow> task list \<Rightarrow> task list" where
  "eligible role ts = sort_key tk_created_at (filter (\<lambda>q. role_matches role q \<and> claimable ts q) ts)"

lemma eligible_mem: "q \<in> set (eligible role ts) \<longleftrightarrow> q \<in> set ts \<and> role_matches role q \<and> claimable ts q"
  by (auto simp: eligible_def)

lemma queue_claim_eq:
  assumes uid: "key_unique tk_id (qd_tasks db)"
  shows "queue_claim db w role now =
    (case eligible role (qd_tasks db) of [] \<Rightarrow> (None, db)
     | q # _ \<Rightarrow> (Some (claimed w now q),
         db\<lparr>qd_tasks := update_where (\<lambda>t. tk_id t = tk_id q \<and> tk_status t = Pending) (claimed w now) (qd_tasks db)\<rparr>))"
proof (cases "eligible role (qd_tasks db)")
  case Nil
  then show ?thesis by (simp add: queue_claim_def eligible_def)
next
  case (Cons q qs)
  then have q: "q \<in> set (qd_tasks db)" "tk_status q = Pending"
    using eligible_mem [of q role "qd_tasks db"] by (auto simp: claimable_def)
  from lookup_row_mem [OF uid q(1)] have row: "lookup_row tk_id (qd_tasks db) (tk_id q) = Some q" .
  from count_where_key [OF uid, of "tk_id q" "\<lambda>t. tk_status t = Pending"] row q
  have "count_where (\<lambda>t. tk_id t = tk_id q \<and> tk_status t = Pending) (qd_tasks db) = 1" by simp
  then show ?thesis
    using Cons q row unfolding queue_claim_def eligible_def [symmetric]
    by (simp add: Let_def task_row_def claimed_def [abs_def] lookup_row_update_where)
qed

text \<open>A claim takes the head of the eligible tasks and leaves the tail eligible.\<close>

lemma eligible_after_claim:
  assumes uid: "key_unique tk_id ts" and el: "eligible role ts = q # qs"
  shows "eligible role (update_where (\<lambda>t. tk_id t = tk_id q \<and> tk_status t = Pending) (claimed w now) ts) = qs"
proof -
  let ?p = "\<lambda>t. tk_id t = tk_id q \<and> tk_status t = Pending"
  let ?ts = "update_where ?p (claimed w now) ts"
  have q: "q \<in> set ts" "tk_status q = Pending" using eligible_mem [of q role ts] el by (auto simp: claimable_def)
  have p: "?p t \<longleftrightarrow> t = q" if "t \<in> set ts" for t
    using key_unique_eq [OF uid that q(1)] q(2) by auto
  have pc: "parent_completed ?ts i = parent_completed ts i" for i
    by (auto simp: parent_completed_def list_ex_iff update_where_def)
  have cl: "claimable ?ts t \<longleftrightarrow> claimable ts t" for t
    by (simp add: claimable_def pc cong: option.case_cong)
  have "filter (\<lambda>t. role_matches role t \<and> claimable ?ts t) ?ts = filter (\<lambda>t. t \<noteq> q \<and> role_matches role t \<and> claimable ts t) ts"
  proof -
    have "filter (\<lambda>t. role_matches role t \<and> claimable ts t) (map (\<lambda>t. if ?p t then claimed w now t else t) us) =
        filter (\<lambda>t. t \<noteq> q \<and> role_matches role t \<and> claimable ts t) us" if "set us \<subseteq> set ts" for us
      using that by (induction us) (auto simp: p claimable_def)
    from this [of ts] show ?thesis by (simp add: update_where_def [symmetric] cl)
  qed
  then have "eligible role ?ts = filter (\<lambda>t. t \<noteq> q) (eligible role ts)"
    unfolding eligible_def by (simp add: filter_sort conj_ac)
  moreover have "distinct (eligible role ts)"
    using uid by (simp add: eligible_def key_unique_def distinct_map)
  ultimately show ?thesis using el by (auto simp: filter_id_conv)
qed

text \<open>Claims one after another by different workers; the ids they receive.\<close>

fun claim_all :: "(string \<times> instant) list \<Rightarrow> string option \<Rightarrow> queue_db \<Rightarrow> string list" where
  "claim_all [] role db = []"
| "claim_all ((w, now) # ws) role db =
    (case queue_claim db w role now of (None, db') \<Rightarrow> claim_all ws role db'
     | (Some t, db') \<Rightarrow> tk_id t # claim_all ws role db')"

text \<open>
  C20: Workers that claim one after another receive exactly the eligible tasks, each once, in
  the order of their creation: as many claims as there are eligible tasks hand out all of
  them, and a task whose parent has no result is never among them unless it allows it.
\<close>

theorem claims_drain_the_queue_in_order:
  assumes "key_unique tk_id (qd_tasks db)"
  shows "claim_all ws role db = take (length ws) (map tk_id (eligible role (qd_tasks db)))"
  using assms
proof (induction ws arbitrary: db)
  case (Cons x ws)
  obtain w now where x: "x = (w, now)" by (cases x)
  show ?case
  proof (cases "eligible role (qd_tasks db)")
    case Nil
    with Cons show ?thesis by (simp add: x queue_claim_eq)
  next
    case el: (Cons q qs)
    let ?ts = "update_where (\<lambda>t. tk_id t = tk_id q \<and> tk_status t = Pending) (claimed w now) (qd_tasks db)"
    from eligible_after_claim [OF Cons.prems el] have "eligible role ?ts = qs" .
    moreover have "key_unique tk_id ?ts" using Cons.prems by simp
    ultimately show ?thesis
      using Cons.IH [of "db\<lparr>qd_tasks := ?ts\<rparr>"] el by (simp add: x queue_claim_eq [OF Cons.prems])
  qed
qed simp


lemma claims_drain_the_queue_in_order_witness:
  "claim_all [(''v'', 3), (''w'', 4), (''u'', 5)] None
     (queue_with [plain_task ''b'' Pending 2 None, plain_task ''a'' Pending 1 None, plain_task ''c'' Pending 0 (Some ''a'')]) = [''a'', ''b'']"
proof -
  let ?db = "queue_with [plain_task ''b'' Pending 2 None, plain_task ''a'' Pending 1 None, plain_task ''c'' Pending 0 (Some ''a'')]"
  have "key_unique tk_id (qd_tasks ?db)" by (simp add: queue_with_def key_unique_def plain_task_def)
  moreover have "map tk_id (eligible None (qd_tasks ?db)) = [''a'', ''b'']" by code_simp
  ultimately show ?thesis using claims_drain_the_queue_in_order [of ?db] by simp
qed

lemma case_bound_executable:
  assumes "case_bound (qd_cases db) q" and "tk_role q = Some r" and "tk_case_id q = c" and "qd_cases db' = qd_cases db"
  shows "\<exists>rc. validate_worker_case_binding r (case c of None \<Rightarrow> None | Some i \<Rightarrow> get_research_case db' i) c = Inr rc"
proof (cases c)
  case None
  with assms show ?thesis by (simp add: case_bound_def validate_worker_case_binding_def)
next
  case (Some i)
  with assms(1,3) obtain row where i: "i \<noteq> []" "lookup_row cr_case_id (qd_cases db) i = Some row"
      "rc_case_id (cr_payload row) = i" "rc_status (cr_payload row) \<in> {READY, CASE_RUNNING}"
    by (auto simp: case_bound_def)
  then have "get_research_case db' i = Some (cr_payload row)" using assms(4) by (simp add: get_research_case_def)
  moreover have "validate_task_binding (Some (cr_payload row)) (Some i) = Inr (cr_payload row)"
    using i by (auto simp: validate_task_binding_def)
  ultimately show ?thesis using i(1) by (simp add: Some validate_worker_case_binding_def)
qed

text \<open>
  C13: In every reachable state what a claim returns was the oldest eligible pending task, its
  parent (if any) has completed with a result or it allows a failed one, and the binding check
  the worker makes before it executes the task does not refuse it.
\<close>

theorem claimed_task_is_executable:
  assumes "queue_run_ok ops" and "queue_claim (snd (queue_run ops)) w role now = (Some t, db')"
    and "tk_role t = Some r"
  shows "\<exists>q \<in> set (qd_tasks (snd (queue_run ops))). t = claimed w now q \<and>
      claimable (qd_tasks (snd (queue_run ops))) q \<and> role_matches role q \<and>
      (\<forall>u \<in> set (qd_tasks (snd (queue_run ops))). claimable (qd_tasks (snd (queue_run ops))) u \<longrightarrow>
         role_matches role u \<longrightarrow> tk_created_at q \<le> tk_created_at u) \<and>
      (\<exists>rc. validate_worker_case_binding r
        (case tk_case_id t of None \<Rightarrow> None | Some c \<Rightarrow> get_research_case db' c) (tk_case_id t) = Inr rc)"
proof -
  define db where "db = snd (queue_run ops)"
  from queue_run_inv [OF assms(1)] have inv: "tasks_inv (fst (queue_run ops)) db"
    by (simp add: queue_sys_inv_def db_def)
  then have uid: "key_unique tk_id (qd_tasks db)" by (simp add: tasks_inv_def)
  from assms(2) [folded db_def] obtain q qs where el: "eligible role (qd_tasks db) = q # qs"
    and t: "t = claimed w now q" and cases: "qd_cases db' = qd_cases db"
    unfolding queue_claim_eq [OF uid] by (auto split: list.splits)
  then have q: "q \<in> set (qd_tasks db)" "role_matches role q" "claimable (qd_tasks db) q"
    using eligible_mem [of q role "qd_tasks db"] by auto
  have "sorted (map tk_created_at (q # qs))"
    using sorted_sort_key [of tk_created_at] unfolding el [symmetric] eligible_def .
  then have oldest: "tk_created_at q \<le> tk_created_at u"
    if "u \<in> set (qd_tasks db)" "claimable (qd_tasks db) u" "role_matches role u" for u
    using eligible_mem [of u role "qd_tasks db"] that el by auto
  have "case_bound (qd_cases db) q" using inv q(1) by (simp add: tasks_inv_def)
  then have "\<exists>rc. validate_worker_case_binding r
      (case tk_case_id t of None \<Rightarrow> None | Some c \<Rightarrow> get_research_case db' c) (tk_case_id t) = Inr rc"
    by (rule case_bound_executable) (use assms(3) t cases in auto)
  with t q oldest show ?thesis unfolding db_def by blast
qed

lemma claimed_task_is_executable_witness:
  "\<exists>q \<in> set (qd_tasks (snd (queue_run [Add ''t'' 1 (small_args\<lparr>ag_role := Some ''tester''\<rparr>)]))).
     claimed ''w'' 2 ((plain_task ''t'' Pending 1 None)\<lparr>tk_role := Some ''tester''\<rparr>) = claimed ''w'' 2 q \<and> role_matches None q"
proof -
  let ?ops = "[Add ''t'' 1 (small_args\<lparr>ag_role := Some ''tester''\<rparr>)]"
  let ?t = "claimed ''w'' 2 ((plain_task ''t'' Pending 1 None)\<lparr>tk_role := Some ''tester''\<rparr>)"
  have ok: "queue_run_ok ?ops" by code_simp
  have claim: "queue_claim (snd (queue_run ?ops)) ''w'' None 2 = (Some ?t, snd (queue_claim (snd (queue_run ?ops)) ''w'' None 2))"
    by code_simp
  have "tk_role ?t = Some ''tester''" by simp
  from claimed_task_is_executable [OF ok claim this] show ?thesis by blast
qed

text \<open>
  The planner's list of pending tasks agrees with what a claim would take, except for the
  tasks that allow a failed parent, which it does not know.
\<close>

lemma queue_pending_eligible:
  "queue_pending db role = filter (\<lambda>q. case tk_parent q of None \<Rightarrow> True | Some p \<Rightarrow> parent_completed (qd_tasks db) p)
     (eligible role (qd_tasks db))"
  unfolding queue_pending_def eligible_def filter_sort filter_filter
  by (rule arg_cong [of _ _ "sort_key tk_created_at"], rule filter_cong) (auto simp: claimable_def split: option.split)


section \<open>Compaction of results\<close>

lemma ancestors_start: "set ids \<subseteq> set (ancestors_upto n ts ids)"
  by (cases n) auto

lemma ancestors_parent:
  assumes "0 < n" and "t \<in> set ts" and "tk_id t \<in> set ids" and "tk_parent t = Some p"
  shows "p \<in> set (ancestors_upto n ts ids)"
proof (cases n)
  case (Suc m)
  from assms(2-4) have "p \<in> set (parents_of ts ids)" by (auto simp: set_parents_of)
  with ancestors_start [of "parents_of ts ids" m ts] show ?thesis by (auto simp: Suc)
qed (use assms in simp)

text \<open>
  C24: Dropping the results of completed tasks, with an ancestor depth of one or more, never
  changes what the workers may claim: a pending task whose parent's result was there still
  finds it. At most \<open>limit\<close> results are dropped, and rows keep everything else.
\<close>

theorem result_compaction_starves_nobody:
  assumes uid: "key_unique tk_id (qd_tasks db)" and depth: "1 \<le> depth" and "0 < limit"
    and res: "compact_completed_results db days depth limit now = Inr (n, db')"
  shows "eligible role (qd_tasks db') = eligible role (qd_tasks db) \<and> n \<le> nat limit \<and>
    map (\<lambda>t. t\<lparr>tk_result := None\<rparr>) (qd_tasks db') = map (\<lambda>t. t\<lparr>tk_result := None\<rparr>) (qd_tasks db)"
proof -
  define ts where "ts = qd_tasks db"
  define anc where "anc = ancestors_upto (nat depth) ts (map tk_id (filter (live_branch ts) ts))"
  define cand where "cand = take (nat limit) (map tk_id (filter (\<lambda>q. tk_status q = Completed \<and> tk_result q \<noteq> None \<and>
      (case tk_finished_at q of None \<Rightarrow> False | Some f \<Rightarrow> f < now - days * day) \<and> tk_id q \<notin> set anc) ts))"
  define dropped where "dropped = (\<lambda>t :: task. t\<lparr>tk_result := None\<rparr>)"
  from res depth \<open>0 < limit\<close> have n: "n = count_where (\<lambda>t. tk_id t \<in> set cand) ts"
    and db': "qd_tasks db' = update_where (\<lambda>t. tk_id t \<in> set cand) dropped ts"
    by (auto simp: compact_completed_results_def Let_def anc_def cand_def ts_def dropped_def split: if_splits)
  have uid: "key_unique tk_id ts" using uid by (simp add: ts_def)
  have cand: "tk_status t = Completed \<and> tk_id t \<notin> set anc" if t: "t \<in> set ts" "tk_id t \<in> set cand" for t
  proof -
    from t(2) obtain u where "u \<in> set ts" "tk_id u = tk_id t" "tk_status u = Completed" "tk_id u \<notin> set anc"
      unfolding cand_def by (auto dest!: in_set_takeD)
    with key_unique_eq [OF uid t(1), of u] show ?thesis by simp
  qed
  have pc: "parent_completed (qd_tasks db') p = parent_completed ts p"
    if "q \<in> set ts" "tk_status q = Pending" "tk_parent q = Some p" for q p
  proof -
    have "tk_id q \<in> set (map tk_id (filter (live_branch ts) ts))"
      using that by (auto simp: live_branch_def active_def)
    then have "p \<in> set anc"
      unfolding anc_def using that depth by (intro ancestors_parent) auto
    then have "tk_id t \<noteq> p" if "t \<in> set ts" "tk_id t \<in> set cand" for t
      using cand [OF that] by auto
    then show ?thesis
      by (auto simp: parent_completed_def list_ex_iff db' update_where_def dropped_def)
  qed
  have cl: "claimable (qd_tasks db') q = claimable ts q" if "q \<in> set ts" for q
    using pc [OF that] by (auto simp: claimable_def split: option.splits)
  have "filter (\<lambda>q. role_matches role q \<and> claimable (qd_tasks db') q) (update_where (\<lambda>t. tk_id t \<in> set cand) dropped us) =
      filter (\<lambda>q. role_matches role q \<and> claimable ts q) us" if "set us \<subseteq> set ts" for us
    using that
  proof (induction us)
    case (Cons u us)
    have "\<not> claimable (qd_tasks db') (dropped u)" "\<not> claimable ts u" if "tk_id u \<in> set cand"
      using cand [of u] Cons.prems that by (auto simp: claimable_def dropped_def)
    with Cons cl [of u] show ?case by auto
  qed simp
  from this [of ts] have "eligible role (qd_tasks db') = eligible role ts"
    by (simp add: eligible_def db' [symmetric])
  moreover have "n \<le> nat limit"
    using count_where_ids_le [OF uid, of cand] by (simp add: n cand_def)
  moreover have "map (\<lambda>t. t\<lparr>tk_result := None\<rparr>) (qd_tasks db') = map (\<lambda>t. t\<lparr>tk_result := None\<rparr>) ts"
    by (auto simp: db' update_where_def dropped_def)
  ultimately show ?thesis by (simp add: ts_def)
qed


lemma result_compaction_starves_nobody_witness:
  "eligible None (qd_tasks (queue_with [(stopped_row ''a'' 1 None)\<lparr>tk_result := None\<rparr>, stopped_row ''b'' 2 None, plain_task ''c'' Pending 3 (Some ''b'')])) =
   eligible None (qd_tasks (queue_with [stopped_row ''a'' 1 None, stopped_row ''b'' 2 None, plain_task ''c'' Pending 3 (Some ''b'')]))"
proof -
  let ?db = "queue_with [stopped_row ''a'' 1 None, stopped_row ''b'' 2 None, plain_task ''c'' Pending 3 (Some ''b'')]"
  let ?db' = "queue_with [(stopped_row ''a'' 1 None)\<lparr>tk_result := None\<rparr>, stopped_row ''b'' 2 None, plain_task ''c'' Pending 3 (Some ''b'')]"
  have run: "compact_completed_results ?db 7 1 500 (8 * day) = Inr (1, ?db')" by code_simp
  have "key_unique tk_id (qd_tasks ?db)"
    by (simp add: queue_with_def key_unique_def stopped_row_def plain_task_def)
  from result_compaction_starves_nobody [OF this _ _ run] show ?thesis by simp
qed

section \<open>Repair of orphans\<close>

text \<open>What repair is meant to remove: pending orphans, and pending children of what it removes.\<close>

inductive lost :: "task list \<Rightarrow> task \<Rightarrow> bool" for ts where
  root: "t \<in> set ts \<Longrightarrow> tk_status t = Pending \<Longrightarrow> orphan ts t \<Longrightarrow> lost ts t"
| child: "t \<in> set ts \<Longrightarrow> tk_status t = Pending \<Longrightarrow> lost ts p \<Longrightarrow> tk_parent t = Some (tk_id p) \<Longrightarrow> lost ts t"

inductive_cases lostE: "lost ts t"

definition doom_set :: "task list \<Rightarrow> string set \<Rightarrow> string set" where
  "doom_set ts A = {i. \<exists>t \<in> set ts. tk_id t = i \<and>
     (i \<in> A \<or> (tk_status t = Pending \<and> (\<exists>p \<in> A. tk_parent t = Some p)))}"

lemma in_doom_set:
  "i \<in> doom_set ts A \<longleftrightarrow> (\<exists>t \<in> set ts. tk_id t = i \<and>
     (i \<in> A \<or> (tk_status t = Pending \<and> (\<exists>p \<in> A. tk_parent t = Some p))))"
  by (simp add: doom_set_def)

lemma set_doom_iter: "set ((doom_step ts ^^ n) ids) = (doom_set ts ^^ n) (set ids)"
proof (induction n)
  case (Suc n)
  have "set (doom_step ts A) = doom_set ts (set A)" for A
    by (rule set_eqI) (simp only: set_doom_step in_doom_set)
  with Suc show ?case by simp
qed simp

lemma doomed_closed:
  assumes t: "t \<in> set ts" "tk_status t = Pending" "tk_parent t = Some p" and p: "p \<in> set (doomed ts roots)"
  shows "tk_id t \<in> set (doomed ts roots)"
proof -
  let ?ids = "map tk_id (filter (\<lambda>t. tk_id t \<in> set roots \<and> tk_status t = Pending) ts)"
  have "doom_set ts ((doom_set ts ^^ length ts) (set ?ids)) = (doom_set ts ^^ length ts) (set ?ids)"
  proof (rule iteration_reaches_fixpoint [of "tk_id ` set ts"])
    show "card (tk_id ` set ts) \<le> length ts"
      by (meson List.finite_set card_image_le card_length le_trans)
  qed (auto simp: in_doom_set, blast)
  then have fixed: "doom_set ts (set (doomed ts roots)) = set (doomed ts roots)"
    by (simp only: doomed_def set_doom_iter)
  from t p have "tk_id t \<in> doom_set ts (set (doomed ts roots))" by (auto simp: in_doom_set)
  then show ?thesis by (simp only: fixed)
qed

lemma doomed_start:
  assumes "t \<in> set ts" and "tk_id t \<in> set roots" and "tk_status t = Pending"
  shows "tk_id t \<in> set (doomed ts roots)"
proof -
  let ?ids = "map tk_id (filter (\<lambda>t. tk_id t \<in> set roots \<and> tk_status t = Pending) ts)"
  have "tk_id t \<in> (doom_set ts ^^ n) (set ?ids)" for n
    using assms by (induction n) (auto simp: in_doom_set)
  then show ?thesis by (simp only: doomed_def set_doom_iter)
qed

lemma doomed_lost:
  assumes uid: "key_unique tk_id ts" and roots: "\<And>t. t \<in> set ts \<Longrightarrow> tk_id t \<in> set roots \<Longrightarrow> orphan ts t"
    and t: "t \<in> set ts" "tk_id t \<in> set (doomed ts roots)"
  shows "lost ts t"
proof -
  let ?ids = "map tk_id (filter (\<lambda>t. tk_id t \<in> set roots \<and> tk_status t = Pending) ts)"
  have "t \<in> set ts \<Longrightarrow> tk_id t \<in> (doom_set ts ^^ n) (set ?ids) \<Longrightarrow> lost ts t" for n t
  proof (induction n arbitrary: t)
    case 0
    then obtain u where u: "u \<in> set ts" "tk_id t = tk_id u" "tk_id u \<in> set roots" "tk_status u = Pending" by auto
    with key_unique_eq [OF uid 0(1) u(1)] roots [OF u(1)] show ?case by (auto intro: lost.root)
  next
    case (Suc n)
    let ?A = "(doom_set ts ^^ n) (set ?ids)"
    from Suc.prems(2) obtain u where u: "u \<in> set ts" "tk_id u = tk_id t"
        "tk_id t \<in> ?A \<or> (tk_status u = Pending \<and> (\<exists>p \<in> ?A. tk_parent u = Some p))"
      by (simp only: funpow.simps comp_apply in_doom_set) blast
    with key_unique_eq [OF uid Suc.prems(1) u(1)] have "u = t" by simp
    with u(3) consider "tk_id t \<in> ?A" | p where "tk_status t = Pending" "p \<in> ?A" "tk_parent t = Some p" by auto
    then show ?case
    proof cases
      case 1
      with Suc.IH [OF Suc.prems(1)] show ?thesis by simp
    next
      case 2
      have "?A \<subseteq> tk_id ` set ts" by (cases n) (auto simp: in_doom_set)
      with 2(2) obtain v where v: "v \<in> set ts" "tk_id v = p" by auto
      with Suc.IH [OF v(1)] 2(2) have "lost ts v" by simp
      with 2 v Suc.prems(1) show ?thesis by (auto intro: lost.child)
    qed
  qed
  from this [OF t(1)] t(2) show ?thesis by (simp only: doomed_def set_doom_iter)
qed

text \<open>
  Repair deletes exactly the pending orphans and the pending tasks below them, and
  afterwards no pending task is an orphan; running and finished tasks all stay.
\<close>

theorem repair_is_exact:
  assumes uid: "key_unique tk_id (qd_tasks db)" and rep: "repair_active_orphans db = (n, db')"
  shows "qd_tasks db' = filter (\<lambda>t. \<not> lost (qd_tasks db) t) (qd_tasks db) \<and>
    n = length (qd_tasks db) - length (qd_tasks db') \<and>
    (\<forall>t \<in> set (qd_tasks db'). tk_status t = Pending \<longrightarrow> \<not> orphan (qd_tasks db') t)"
proof -
  define ts where "ts = qd_tasks db"
  define roots where "roots = map tk_id (active_orphans db)"
  have root: "orphan ts t" if "t \<in> set ts" "tk_id t \<in> set roots" for t
    using that key_unique_eq [OF uid, of t] by (auto simp: ts_def roots_def active_orphans_def)
  have pend: "tk_id t \<in> set roots" if "t \<in> set ts" "tk_status t = Pending" "orphan ts t" for t
    using that by (auto simp: ts_def roots_def active_orphans_def active_def)
  have doom: "tk_id t \<in> set (doomed ts roots) \<longleftrightarrow> lost ts t" if t: "t \<in> set ts" for t
  proof
    assume "lost ts t"
    then show "tk_id t \<in> set (doomed ts roots)"
      by induction (auto intro: doomed_start doomed_closed pend)
  qed (use doomed_lost [OF uid [folded ts_def] root t] in blast)
  have none: "\<not> lost ts t" if "roots = []" for t
  proof
    assume "lost ts t"
    then show False using that pend by induction auto
  qed
  have tab: "qd_tasks db' = filter (\<lambda>t. \<not> lost ts t) ts" and "n = count_where (lost ts) ts"
  proof -
    have "filter (\<lambda>t. tk_id t \<notin> set (doomed ts roots)) ts = filter (\<lambda>t. \<not> lost ts t) ts"
      using doom by (intro filter_cong) auto
    moreover have "count_where (\<lambda>t. tk_id t \<in> set (doomed ts roots)) ts = count_where (lost ts) ts"
      unfolding count_where_def using doom by (intro arg_cong [of _ _ length] filter_cong) auto
    ultimately have "qd_tasks db' = filter (\<lambda>t. \<not> lost ts t) ts \<and> n = count_where (lost ts) ts"
      using rep none unfolding repair_active_orphans_def Let_def roots_def [symmetric] ts_def [symmetric]
      by (auto simp: count_where_def ts_def split: if_splits)
    then show "qd_tasks db' = filter (\<lambda>t. \<not> lost ts t) ts" "n = count_where (lost ts) ts" by auto
  qed
  then have "n = length ts - length (qd_tasks db')"
    using sum_length_filter_compl [of "lost ts" ts] by (simp add: count_where_def)
  moreover have "\<not> orphan (qd_tasks db') t" if t: "t \<in> set (qd_tasks db')" "tk_status t = Pending" for t
  proof
    assume "orphan (qd_tasks db') t"
    then obtain p where p: "tk_parent t = Some p" "\<forall>q \<in> set (qd_tasks db'). tk_id q \<noteq> p"
      by (auto simp: orphan_def lookup_row_None_iff split: option.splits)
    from t tab have mem: "t \<in> set ts" and keep: "\<not> lost ts t" by auto
    from keep mem t(2) have "\<not> orphan ts t" by (auto intro: lost.root)
    with p(1) obtain q where q: "q \<in> set ts" "tk_id q = p"
      by (auto simp: orphan_def lookup_row_None_iff)
    with p(2) tab have "lost ts q" by auto
    with q p(1) mem t(2) have "lost ts t" by (auto intro: lost.child)
    with keep show False ..
  qed
  ultimately show ?thesis using tab by (simp add: ts_def)
qed


lemma repair_is_exact_witness:
  "qd_tasks (queue_with [plain_task ''ok'' Pending 0 None]) =
   filter (\<lambda>t. \<not> lost [plain_task ''ok'' Pending 0 None, plain_task ''c'' Pending 1 (Some ''x''), plain_task ''d'' Pending 2 (Some ''c'')] t)
     [plain_task ''ok'' Pending 0 None, plain_task ''c'' Pending 1 (Some ''x''), plain_task ''d'' Pending 2 (Some ''c'')]"
proof -
  let ?db = "queue_with [plain_task ''ok'' Pending 0 None, plain_task ''c'' Pending 1 (Some ''x''), plain_task ''d'' Pending 2 (Some ''c'')]"
  have run: "repair_active_orphans ?db = (2, queue_with [plain_task ''ok'' Pending 0 None])" by code_simp
  have "key_unique tk_id (qd_tasks ?db)" by (simp add: queue_with_def key_unique_def plain_task_def)
  from repair_is_exact [OF this run] show ?thesis by (simp add: queue_with_def)
qed

end
