(* ===== verification/TaskOutcomes.thy ===== *)
theory TaskOutcomes
  imports TaskLife
begin

text \<open>
  Outcomes of tasks in \<^verbatim>\<open>src/shared/queue.py\<close>: the budget of retries over whole runs, the
  race of two workers that report on one task, and what modelling showed about the claim,
  the planner's view, superseded workers and requeueing.
\<close>

section \<open>The budget of retries\<close>

text \<open>An operation that requeues \<open>i\<close>: a call of \<^verbatim>\<open>requeue_failed\<close> that returns True.\<close>

fun requeues :: "string \<Rightarrow> queue_op \<Rightarrow> queue_db \<Rightarrow> bool" where
  "requeues i (Requeue reads j n) db = (j = i \<and> fst (requeue_op reads db j n))"
| "requeues i _ db = False"

fun retries_of :: "string \<Rightarrow> queue_op list \<Rightarrow> queue_sys \<Rightarrow> nat" where
  "retries_of i [] s = 0"
| "retries_of i (x # xs) s = (if requeues i x (snd s) then 1 else 0) + retries_of i xs (sys_queue_step x s)"

lemma retries_of_snoc:
  "retries_of i (xs @ [x]) s = retries_of i xs s + (if requeues i x (snd (fold sys_queue_step xs s)) then 1 else 0)"
  by (induction xs arbitrary: s) auto

text \<open>The requeues of \<open>i\<close> that wrote later than they read, and the budgets.\<close>

fun late_requeue :: "string \<Rightarrow> queue_op \<Rightarrow> bool" where
  "late_requeue i (Requeue (Some reads) j n) = (j = i)"
| "late_requeue i _ = False"

definition late_requeues :: "string \<Rightarrow> queue_op list \<Rightarrow> nat" where
  "late_requeues i ops = length (filter (late_requeue i) ops)"

fun budget_within :: "int \<Rightarrow> queue_op \<Rightarrow> bool" where
  "budget_within N (Requeue reads i n) = (n \<le> N)"
| "budget_within N _ = True"

text \<open>What a requeue does to the row of a task.\<close>

lemma requeue_failed_at_row:
  assumes "key_unique tk_id (qd_tasks db)"
  shows "task_row (snd (requeue_failed_at snap psnap db i n)) j =
    (if j = i \<and> fst (requeue_failed_at snap psnap db i n) then map_option requeue_row (task_row db j) else task_row db j)"
    and "fst (requeue_failed_at snap psnap db i n) \<Longrightarrow> \<exists>t. task_row db i = Some t \<and> tk_status t = Failed"
    and "fst (requeue_failed_at snap psnap db i n) \<Longrightarrow> \<exists>t. task_row snap i = Some t \<and> tk_retry_count t < n"
proof -
  let ?p = "\<lambda>t. tk_id t = i \<and> tk_status t = Failed"
  have key: "tk_id (requeue_row t) = tk_id t" for t by (simp add: requeue_row_def)
  have hit: "\<exists>t. task_row db i = Some t \<and> tk_status t = Failed" if "count_where ?p (qd_tasks db) = 1"
  proof -
    from that have "(case task_row db i of Some t \<Rightarrow> if tk_status t = Failed then 1 else 0 | None \<Rightarrow> 0) = (1 :: nat)"
      unfolding count_where_key [OF assms, of i "\<lambda>t. tk_status t = Failed"] task_row_def .
    then show ?thesis by (auto split: option.splits if_splits)
  qed
  have row: "task_row (db\<lparr>qd_tasks := update_where ?p requeue_row (qd_tasks db)\<rparr>) j =
      (if j = i then map_option requeue_row (task_row db j) else task_row db j)" if "count_where ?p (qd_tasks db) = 1"
  proof -
    from hit [OF that] obtain t where t: "task_row db i = Some t" "tk_status t = Failed" by blast
    then have "tk_id t = i" by (auto simp: task_row_def dest: lookup_row_SomeD)
    have upd: "task_row (db\<lparr>qd_tasks := update_where ?p requeue_row (qd_tasks db)\<rparr>) j =
        map_option (\<lambda>t. if ?p t then requeue_row t else t) (task_row db j)"
      by (simp add: task_row_def lookup_row_update_where key)
    show ?thesis
    proof (cases "task_row db j")
      case (Some u)
      then have id: "tk_id u = j" by (auto simp: task_row_def dest: lookup_row_SomeD)
      have hits: "?p u \<longleftrightarrow> j = i"
      proof
        assume "j = i"
        with Some t have "u = t" by simp
        with t(2) id \<open>j = i\<close> show "?p u" by simp
      qed (simp add: id)
      show ?thesis unfolding upd Some option.map if_distrib [of Some] hits by (rule refl)
    qed (auto simp: upd)
  qed
  let ?db = "db\<lparr>qd_tasks := update_where ?p requeue_row (qd_tasks db)\<rparr>"
  have shape: "requeue_failed_at snap psnap db i n = (False, db) \<or>
      (requeue_failed_at snap psnap db i n = (True, ?db) \<and> count_where ?p (qd_tasks db) = 1 \<and> (\<exists>t. task_row snap i = Some t \<and> tk_retry_count t < n))"
    by (simp add: requeue_failed_at_def Let_def split: option.split)
  then show "task_row (snd (requeue_failed_at snap psnap db i n)) j =
      (if j = i \<and> fst (requeue_failed_at snap psnap db i n) then map_option requeue_row (task_row db j) else task_row db j)"
    using row by (elim disjE conjE) simp_all
  from shape show "fst (requeue_failed_at snap psnap db i n) \<Longrightarrow> \<exists>t. task_row db i = Some t \<and> tk_status t = Failed"
    using hit by (elim disjE conjE) simp_all
  from shape show "fst (requeue_failed_at snap psnap db i n) \<Longrightarrow> \<exists>t. task_row snap i = Some t \<and> tk_retry_count t < n"
    by (elim disjE conjE) simp_all
qed

text \<open>The counter of a row that stays is the old one, plus one for a requeue.\<close>

lemma step_counts:
  assumes inv: "queue_sys_inv s" and ok: "queue_op_ok x s" and row: "task_row (snd (sys_queue_step x s)) i = Some t'"
  shows "(\<exists>t. task_row (snd s) i = Some t \<and> tk_retry_count t' = tk_retry_count t + (if requeues i x (snd s) then 1 else 0)) \<or>
    (task_row (snd s) i = None \<and> i \<notin> fst s \<and> tk_retry_count t' = 0 \<and> \<not> requeues i x (snd s))"
proof -
  obtain used db where s: "s = (used, db)" by (cases s)
  from inv have uid: "key_unique tk_id (qd_tasks db)" by (simp add: queue_sys_inv_def tasks_inv_def s)
  from row have row: "task_row (queue_step x db) i = Some t'" by (simp add: sys_queue_step_def s)
  consider (reg) c now where "x = RegisterCase c now" | (add) j now a where "x = Add j now a"
    | (req) reads j n where "x = Requeue reads j n"
    | (other) "op_ids x = {}" "\<And>c now. x \<noteq> RegisterCase c now" "\<And>reads i n. x \<noteq> Requeue reads i n"
    by (cases x) auto
  then show ?thesis
  proof cases
    case reg
    have "qd_tasks (queue_step x db) = qd_tasks db"
      by (auto simp: reg kept_def register_research_case_def split: sum.split option.split)
    with row show ?thesis by (simp add: task_row_def s reg)
  next
    case add
    show ?thesis
    proof (cases "queue_add db j now a")
      case (Inl e)
      with row add show ?thesis by (simp add: kept_def s)
    next
      case (Inr y)
      obtain k db' where y: "y = (k, db')" by (cases y)
      from Inr [unfolded y] obtain c r where "task_row db j = None" "db' = db\<lparr>qd_tasks := qd_tasks db @ [new_task j now a c r]\<rparr>"
        by (rule queue_add_Inr) blast
      with row add ok Inr y show ?thesis
        by (auto simp: kept_def s task_row_def lookup_row_snoc new_task_def split: option.splits if_splits)
    qed
  next
    case req
    let ?snap = "fst (case reads of None \<Rightarrow> (db, db) | Some r \<Rightarrow> r)" and ?psnap = "snd (case reads of None \<Rightarrow> (db, db) | Some r \<Rightarrow> r)"
    have op: "requeue_op reads db j n = requeue_failed_at ?snap ?psnap db j n" by (simp add: requeue_op_eq split_beta)
    show ?thesis
      using row requeue_failed_at_row(1) [OF uid, of ?snap ?psnap j n i]
      by (cases "task_row db i") (auto simp: req op s requeue_row_def split: if_splits)
  next
    case other
    have quiet: "\<not> requeues i x (snd s)" using other(3) by (cases x) auto
    from queue_step_uncounted [OF uid other] obtain p f where f: "qd_tasks (queue_step x db) = map f (filter p (qd_tasks db))"
      and mv: "\<And>t. t \<in> set (qd_tasks db) \<Longrightarrow> p t \<Longrightarrow> uncounted_moves t (f t)" by (auto simp: row_edit_def)
    from row have "t' \<in> set (qd_tasks (queue_step x db))" "tk_id t' = i" by (auto simp: task_row_def dest: lookup_row_SomeD)
    then obtain t where t: "t \<in> set (qd_tasks db)" "p t" "t' = f t" by (auto simp: f)
    with mv [OF t(1,2)] \<open>tk_id t' = i\<close> have "tk_id t = i" "tk_retry_count t' = tk_retry_count t"
      by (auto simp: uncounted_moves_def task_moves_def)
    with lookup_row_mem [OF uid t(1)] quiet show ?thesis by (auto simp: task_row_def s)
  qed
qed

lemma fresh_not_retried:
  assumes "queue_sys_inv s" and "i \<notin> fst s"
  shows "task_row (snd s) i = None"
  using assms by (cases "task_row (snd s) i") (auto simp: queue_sys_inv_def tasks_inv_def task_row_def dest: lookup_row_SomeD)

definition budget_inv :: "string \<Rightarrow> int \<Rightarrow> queue_op list \<Rightarrow> bool" where
  "budget_inv i N ops \<longleftrightarrow> int (retries_of i ops ({}, empty_queue)) \<le> N + int (late_requeues i ops) \<and>
     (i \<notin> fst (queue_run ops) \<longrightarrow> retries_of i ops ({}, empty_queue) = 0) \<and>
     (\<forall>t. task_row (snd (queue_run ops)) i = Some t \<longrightarrow> tk_retry_count t = int (retries_of i ops ({}, empty_queue)))"

lemma budget_inv_step:
  assumes ih: "budget_inv i N ops" and inv: "queue_sys_inv (queue_run ops)" and ok: "queue_op_ok x (queue_run ops)"
    and within: "budget_within N x"
  shows "budget_inv i N (ops @ [x])"
proof -
  let ?s = "queue_run ops" and ?n = "retries_of i ops ({}, empty_queue)"
  have uid: "key_unique tk_id (qd_tasks (snd ?s))" using inv by (simp add: queue_sys_inv_def tasks_inv_def)
  have hit: "\<exists>t. task_row (snd ?s) i = Some t \<and> (late_requeue i x \<or> tk_retry_count t < N)" if r: "requeues i x (snd ?s)"
  proof -
    from r obtain reads n where x: "x = Requeue reads i n" and ran: "fst (requeue_op reads (snd ?s) i n)" by (cases x) auto
    show ?thesis
    proof (cases reads)
      case None
      with ran requeue_failed_at_row(3) [of "snd ?s" "snd ?s" "snd ?s" i n] uid within show ?thesis
        by (force simp: x requeue_op_def requeue_failed_def)
    next
      case (Some rd)
      with ran requeue_failed_at_row(2) [OF uid, of "fst rd" "snd rd" i n] show ?thesis
        by (auto simp: x requeue_op_def split_beta)
    qed
  qed
  have late: "late_requeues i (ops @ [x]) = late_requeues i ops + (if late_requeue i x then 1 else 0)"
    by (simp add: late_requeues_def)
  have bound: "int (retries_of i (ops @ [x]) ({}, empty_queue)) \<le> N + int (late_requeues i (ops @ [x]))"
    using ih hit by (auto simp: budget_inv_def retries_of_snoc late)
  have fresh: "retries_of i (ops @ [x]) ({}, empty_queue) = 0" if "i \<notin> fst (queue_run (ops @ [x]))"
  proof -
    from that have "i \<notin> fst ?s" by (simp add: sys_queue_step_def)
    with ih hit fresh_not_retried [OF inv] show ?thesis by (auto simp: budget_inv_def retries_of_snoc)
  qed
  have count: "tk_retry_count t' = int (retries_of i (ops @ [x]) ({}, empty_queue))"
    if "task_row (snd (queue_run (ops @ [x]))) i = Some t'" for t'
    using step_counts [OF inv ok, of i t'] that ih by (auto simp: budget_inv_def retries_of_snoc)
  from bound fresh count show ?thesis by (simp add: budget_inv_def)
qed

text \<open>
  C33: the retries of a task are counted, and the budget bounds them. In every run the
  counter of a task is the number of times it was requeued, whatever claims, reports,
  recoveries and compactions happen in between. If no call of \<^verbatim>\<open>requeue_failed\<close> was given a
  budget above \<open>N\<close>, the task was requeued at most \<open>N\<close> times, plus once for each requeue
  that was interrupted between its reads and its UPDATE: the budget is checked on the row
  read before, so only such calls can exceed it.
\<close>

theorem retry_budget_is_respected:
  assumes "queue_run_ok ops" and "list_all (budget_within N) ops" and "0 \<le> N"
  shows "int (retries_of i ops ({}, empty_queue)) \<le> N + int (late_requeues i ops) \<and>
    (\<forall>t. task_row (snd (queue_run ops)) i = Some t \<longrightarrow> tk_retry_count t = int (retries_of i ops ({}, empty_queue)))"
proof -
  have "budget_inv i N ops"
    using assms
  proof (induction ops rule: rev_induct)
    case Nil
    then show ?case by (simp add: budget_inv_def late_requeues_def empty_queue_def task_row_def)
  next
    case (snoc x ops)
    then have ok: "queue_run_ok ops" "queue_op_ok x (queue_run ops)" and b: "list_all (budget_within N) ops" "budget_within N x"
      by (simp_all add: run_ok_append)
    show ?case by (rule budget_inv_step [OF snoc.IH [OF ok(1) b(1) snoc.prems(3)] queue_run_inv [OF ok(1)] ok(2) b(2)])
  qed
  then show ?thesis by (simp add: budget_inv_def)
qed

text \<open>
  The excess occurs: a requeuer with budget 1 that has read before another one requeued the
  task still requeues it after its second failure.
\<close>

definition racing_run :: "queue_op list" where
  "racing_run = [Add ''t'' 1 small_args, Claim ''w'' None 2, Fail ''t'' None 3] @
     (let db = snd (queue_run [Add ''t'' 1 small_args, Claim ''w'' None 2, Fail ''t'' None 3])
      in [Requeue None ''t'' 1, Claim ''w'' None 4, Fail ''t'' None 5, Requeue (Some (db, db)) ''t'' 1])"

lemma retry_budget_is_respected_witness:
  "retries_of ''t'' racing_run ({}, empty_queue) = 2 \<and> int (retries_of ''t'' racing_run ({}, empty_queue)) \<le> 1 + int (late_requeues ''t'' racing_run) \<and>
   int (retries_of ''t'' small_run ({}, empty_queue)) \<le> 1 + int (late_requeues ''t'' small_run)"
proof (intro conjI)
  show "retries_of ''t'' racing_run ({}, empty_queue) = 2" by code_simp
  have ok: "queue_run_ok racing_run" "queue_run_ok small_run" by code_simp+
  have "list_all (budget_within 1) racing_run" "list_all (budget_within 1) small_run" by (simp_all add: racing_run_def small_run_def Let_def)
  with retry_budget_is_respected [OF ok(1), of 1 "''t''"] retry_budget_is_respected [OF ok(2), of 1 "''t''"]
  show "int (retries_of ''t'' racing_run ({}, empty_queue)) \<le> 1 + int (late_requeues ''t'' racing_run)"
    "int (retries_of ''t'' small_run ({}, empty_queue)) \<le> 1 + int (late_requeues ''t'' small_run)" by simp_all
qed

section \<open>Reports\<close>

text \<open>A worker's report on a task: its result or its failure.\<close>

definition report :: "bool \<Rightarrow> queue_db \<Rightarrow> string \<Rightarrow> json option \<Rightarrow> instant \<Rightarrow> queue_db result" where
  "report success db i res now = (if success then queue_finish db i res now else queue_fail db i res now)"

lemma report_Inr:
  assumes uid: "key_unique tk_id (qd_tasks db)" and "report success db i res now = Inr db'"
  shows "\<exists>t. task_row db i = Some t \<and> tk_status t = Running \<and>
    db' = db\<lparr>qd_tasks := update_where (running_task i) (finish_row (if success then Completed else Failed) res now) (qd_tasks db)\<rparr>"
proof -
  from assms(2) have "count_where (running_task i) (qd_tasks db) = 1"
    and db': "db' = db\<lparr>qd_tasks := update_where (running_task i) (finish_row (if success then Completed else Failed) res now) (qd_tasks db)\<rparr>"
    by (auto simp: report_def queue_finish_def queue_fail_def split: if_splits option.splits)
  with count_where_key [OF uid, of i "\<lambda>t. tk_status t = Running"] show ?thesis
    by (auto simp: task_row_def split: option.splits if_splits)
qed

text \<open>A claim that hands out \<open>i\<close>, the only operation that makes a task run.\<close>

fun hands_out :: "string \<Rightarrow> queue_op \<Rightarrow> queue_db \<Rightarrow> bool" where
  "hands_out i (Claim w role now) db = (map_option tk_id (fst (queue_claim db w role now)) = Some i)"
| "hands_out i _ db = False"

abbreviation runs_in :: "queue_db \<Rightarrow> string \<Rightarrow> bool" where
  "runs_in db i \<equiv> (\<exists>t. task_row db i = Some t \<and> tk_status t = Running)"

lemma claim_shape:
  fixes db :: queue_db
  obtains "queue_claim db w role now = (None, db)"
  | q :: task where "queue_claim db w role now = (task_row (snd (queue_claim db w role now)) (tk_id q), snd (queue_claim db w role now))"
      and "snd (queue_claim db w role now) = db\<lparr>qd_tasks := update_where (\<lambda>t. tk_id t = tk_id q \<and> tk_status t = Pending)
       (claimed w now) (qd_tasks db)\<rparr>"
proof (cases "sort_key tk_created_at (filter (\<lambda>q. role_matches role q \<and> claimable (qd_tasks db) q) (qd_tasks db))")
  case Nil
  with that(1) show thesis by (simp add: queue_claim_def)
next
  case (Cons q qs)
  show thesis
  proof (cases "count_where (\<lambda>t. tk_id t = tk_id q \<and> tk_status t = Pending) (qd_tasks db) = 1")
    case True
    with Cons that(2) [of q] show thesis by (simp add: queue_claim_def Let_def claimed_def [abs_def])
  next
    case False
    with Cons that(1) show thesis by (simp add: queue_claim_def Let_def)
  qed
qed

lemma claim_makes_run:
  assumes uid: "key_unique tk_id (qd_tasks db)" and "runs_in (snd (queue_claim db w role now)) i" and "\<not> runs_in db i"
  shows "map_option tk_id (fst (queue_claim db w role now)) = Some i"
proof (cases rule: claim_shape [of db w role now])
  case 1
  with assms show ?thesis by simp
next
  case q: (2 q)
  note db' = q(2)
  have row: "task_row (snd (queue_claim db w role now)) j =
      map_option (\<lambda>t. if tk_id t = tk_id q \<and> tk_status t = Pending then claimed w now t else t) (task_row db j)" for j
    by (simp add: db' task_row_def lookup_row_update_where)
  have "tk_id q = i"
  proof (rule ccontr)
    assume "tk_id q \<noteq> i"
    then have "task_row (snd (queue_claim db w role now)) i = task_row db i"
      unfolding row by (cases "task_row db i") (auto simp: task_row_def dest: lookup_row_SomeD)
    with assms(2,3) show False by simp
  qed
  with assms(2) obtain t where t: "task_row (snd (queue_claim db w role now)) i = Some t" by blast
  then have "tk_id t = i" by (auto simp: task_row_def dest: lookup_row_SomeD)
  moreover have "fst (queue_claim db w role now) = Some t" using arg_cong [OF q(1), of fst] t \<open>tk_id q = i\<close> by simp
  ultimately show ?thesis by simp
qed

lemma stays_idle:
  assumes inv: "queue_sys_inv s" and ok: "queue_op_ok x s" and idle: "\<not> runs_in (snd s) i" and "\<not> hands_out i x (snd s)"
  shows "\<not> runs_in (snd (sys_queue_step x s)) i"
proof
  assume run: "runs_in (snd (sys_queue_step x s)) i"
  obtain used db where s: "s = (used, db)" by (cases s)
  from inv have uid: "key_unique tk_id (qd_tasks db)" by (simp add: queue_sys_inv_def tasks_inv_def s)
  from run obtain t' where row: "task_row (queue_step x db) i = Some t'" "tk_status t' = Running" by (auto simp: sys_queue_step_def s)
  have mem: "t' \<in> set (qd_tasks (queue_step x db))" "tk_id t' = i" using row(1) by (auto simp: task_row_def dest: lookup_row_SomeD)
  consider (reg) c now where "x = RegisterCase c now" | (add) j now a where "x = Add j now a"
    | (req) reads j n where "x = Requeue reads j n" | (claim) w role now where "x = Claim w role now"
    | (other) "op_ids x = {}" "\<And>c now. x \<noteq> RegisterCase c now" "\<And>reads i n. x \<noteq> Requeue reads i n" "\<And>w role now. x \<noteq> Claim w role now"
    by (cases x) auto
  then show False
  proof cases
    case reg
    have "qd_tasks (queue_step x db) = qd_tasks db"
      by (auto simp: reg kept_def register_research_case_def split: sum.split option.split)
    with row idle show False by (simp add: task_row_def s)
  next
    case add
    have "qd_tasks (queue_step x db) = qd_tasks db \<or> (\<exists>c r. qd_tasks (queue_step x db) = qd_tasks db @ [new_task j now a c r])"
      by (cases "queue_add db j now a") (auto simp: add kept_def elim!: queue_add_Inr, blast)
    with row idle show False by (auto simp: task_row_def s lookup_row_snoc split: option.splits if_splits)
  next
    case req
    let ?snap = "fst (case reads of None \<Rightarrow> (db, db) | Some r \<Rightarrow> r)" and ?psnap = "snd (case reads of None \<Rightarrow> (db, db) | Some r \<Rightarrow> r)"
    have op: "requeue_op reads db j n = requeue_failed_at ?snap ?psnap db j n" by (simp add: requeue_op_eq split_beta)
    show False
      using row idle requeue_failed_at_row(1) [OF uid, of ?snap ?psnap j n i]
      by (cases "task_row db i") (auto simp: req op s requeue_row_def split: if_splits)
  next
    case claim
    with claim_makes_run [OF uid, of w role now i] row idle assms(4) show False by (auto simp: s)
  next
    case other
    from queue_step_quiet [OF uid other] obtain p f where f: "qd_tasks (queue_step x db) = map f (filter p (qd_tasks db))"
      and mv: "\<And>t. t \<in> set (qd_tasks db) \<Longrightarrow> p t \<Longrightarrow> quiet_moves t (f t)" by (auto simp: row_edit_def)
    from mem(1) obtain t where t: "t \<in> set (qd_tasks db)" "p t" "t' = f t" by (auto simp: f)
    with mv [OF t(1,2)] mem(2) row(2) have "tk_id t = i" "tk_status t = Running"
      by (auto simp: quiet_moves_def uncounted_moves_def task_moves_def)
    with lookup_row_mem [OF uid t(1)] idle show False by (auto simp: task_row_def s)
  qed
qed

lemma stays_idle_run:
  "queue_sys_inv s \<Longrightarrow> \<not> runs_in (snd s) i \<Longrightarrow> run_ok (\<lambda>x s. queue_op_ok x s \<and> \<not> hands_out i x (snd s)) sys_queue_step xs s \<Longrightarrow>
     queue_sys_inv (fold sys_queue_step xs s) \<and> \<not> runs_in (snd (fold sys_queue_step xs s)) i"
proof (induction xs arbitrary: s)
  case (Cons x xs)
  from Cons.prems(3) have "queue_op_ok x s" "\<not> hands_out i x (snd s)" by simp_all
  then have "queue_sys_inv (sys_queue_step x s)" "\<not> runs_in (snd (sys_queue_step x s)) i"
    using queue_sys_step_inv stays_idle Cons.prems(1,2) by blast+
  moreover have "run_ok (\<lambda>x s. queue_op_ok x s \<and> \<not> hands_out i x (snd s)) sys_queue_step xs (sys_queue_step x s)"
    using Cons.prems(3) by simp
  ultimately show ?case using Cons.IH [of "sys_queue_step x s"] by (simp only: fold_simps) blast
qed simp

definition report_op :: "bool \<Rightarrow> string \<Rightarrow> json option \<Rightarrow> instant \<Rightarrow> queue_op" where
  "report_op success i res now = (if success then Finish i res now else Fail i res now)"

lemma report_step: "report success (snd s) i res now = Inr db' \<Longrightarrow> sys_queue_step (report_op success i res now) s = (fst s, db')"
  by (simp add: sys_queue_step_def report_op_def report_def kept_unit_def split: if_splits)

lemma report_needs_run:
  assumes "key_unique tk_id (qd_tasks db)" and "\<not> runs_in db i"
  shows "\<exists>e. report success db i res now = Inl e \<and> exc_cls e \<in> {ValueError, RuntimeError}"
proof -
  have "\<nexists>db'. report success db i res now = Inr db'" using report_Inr [OF assms(1)] assms(2) by blast
  then obtain e where e: "report success db i res now = Inl e" by (cases "report success db i res now") auto
  then have "exc_cls e \<in> {ValueError, RuntimeError}"
    by (auto simp: report_def queue_finish_def queue_fail_def split: if_splits option.splits)
  with e show ?thesis by blast
qed

text \<open>
  C32: Of the reports on one run of a task the first counts. A report that is accepted finds
  the task running and stores the result, the time and the status; whatever operations
  follow (requeues, recoveries, compaction, claims of other tasks, reports), until a claim
  hands the task out again every further report on it, success or failure, raises.
\<close>

theorem first_report_wins:
  assumes ok: "queue_run_ok ops" and rep: "report success (snd (queue_run ops)) i res now = Inr db'"
    and later: "run_ok (\<lambda>x s. queue_op_ok x s \<and> \<not> hands_out i x (snd s)) sys_queue_step ops' (fst (queue_run ops), db')"
  shows "(\<exists>t. task_row (snd (queue_run ops)) i = Some t \<and> tk_status t = Running \<and>
      task_row db' i = Some (finish_row (if success then Completed else Failed) res now t)) \<and>
    (\<exists>e. report success' (snd (queue_run (ops @ report_op success i res now # ops'))) i res' now' = Inl e \<and>
      exc_cls e \<in> {ValueError, RuntimeError})"
proof -
  let ?db = "snd (queue_run ops)"
  have inv: "queue_sys_inv (queue_run ops)" by (rule queue_run_inv [OF ok])
  then have uid: "key_unique tk_id (qd_tasks ?db)" by (simp add: queue_sys_inv_def tasks_inv_def)
  from report_Inr [OF uid rep] obtain t where t: "task_row ?db i = Some t" "tk_status t = Running"
    and db': "db' = ?db\<lparr>qd_tasks := update_where (running_task i) (finish_row (if success then Completed else Failed) res now) (qd_tasks ?db)\<rparr>"
    by blast
  from t(1) have "tk_id t = i" by (auto simp: task_row_def dest: lookup_row_SomeD)
  have key: "tk_id (finish_row st res now u) = tk_id u" for st u by (simp add: finish_row_def)
  have row: "task_row db' i = Some (finish_row (if success then Completed else Failed) res now t)"
    using t \<open>tk_id t = i\<close> by (simp add: db' task_row_def lookup_row_update_where key)
  have step: "sys_queue_step (report_op success i res now) (queue_run ops) = (fst (queue_run ops), db')"
    by (rule report_step [OF rep])
  have "queue_op_ok (report_op success i res now) (queue_run ops)" by (simp add: report_op_def)
  from queue_sys_step_inv [OF inv this] have inv': "queue_sys_inv (fst (queue_run ops), db')" by (simp add: step)
  have "\<not> runs_in db' i" using row by (simp add: finish_row_def)
  with stays_idle_run [OF inv' _ later] have last: "queue_sys_inv (queue_run (ops @ report_op success i res now # ops'))"
    "\<not> runs_in (snd (queue_run (ops @ report_op success i res now # ops'))) i" by (simp_all add: step)
  from last(1) have "key_unique tk_id (qd_tasks (snd (queue_run (ops @ report_op success i res now # ops'))))"
    by (simp add: queue_sys_inv_def tasks_inv_def)
  from report_needs_run [OF this last(2), where success = success' and res = res' and now = now'] row t show ?thesis by blast
qed

lemma first_report_wins_witness:
  "\<exists>e. report True (snd (queue_run ([Add ''t'' 1 small_args, Claim ''w'' None 2] @ report_op False ''t'' None 3 #
       [Requeue None ''t'' 3, Recover (\<lambda>_. False) 0 9]))) ''t'' (Some JNull) 4 = Inl e \<and>
     exc_cls e \<in> {ValueError, RuntimeError}"
proof -
  let ?ops = "[Add ''t'' 1 small_args, Claim ''w'' None 2]"
  have ok: "queue_run_ok ?ops" by code_simp
  have "\<not> isl (report False (snd (queue_run ?ops)) ''t'' None 3)" by code_simp
  then obtain db' where db': "report False (snd (queue_run ?ops)) ''t'' None 3 = Inr db'"
    by (cases "report False (snd (queue_run ?ops)) ''t'' None 3") simp_all
  have "run_ok (\<lambda>x s. queue_op_ok x s \<and> \<not> hands_out ''t'' x (snd s)) sys_queue_step [Requeue None ''t'' 3, Recover (\<lambda>_. False) 0 9] (fst (queue_run ?ops), db')"
    by simp
  from first_report_wins [OF ok db' this, of True "Some JNull" 4] show ?thesis by blast
qed

section \<open>What modelling showed\<close>

text \<open>
  A report names the task but not the worker: after a recovery and a second claim the first
  worker can still complete the task the second one runs.
\<close>

lemma superseded_worker_completes:
  "let db = snd (queue_claim (queue_with [plain_task ''t'' Pending 0 None]) ''w-1'' None 10);
       db = snd (recover_stale_running (\<lambda>_. False) db 0 20);
       db = snd (queue_claim db ''w-2'' None 30)
   in map_option tk_worker (task_row db ''t'') = Some (Some ''w-2'') \<and>
      (case queue_finish db ''t'' (Some JNull) 40 of Inr _ \<Rightarrow> True | Inl _ \<Rightarrow> False)"
  by code_simp

text \<open>
  A task that allows a failed parent is claimed although its parent is still pending, and the
  planner's view of the pending tasks does not list it.
\<close>

lemma claim_before_the_parent_ran:
  "let db = queue_with [plain_task ''p'' Pending 5 None, (plain_task ''c'' Pending 1 (Some ''p''))\<lparr>tk_allow_failed_parent := True\<rparr>]
   in map_option tk_id (fst (queue_claim db ''w'' None 10)) = Some ''c'' \<and> map tk_id (queue_pending db None) = [''p'']"
  by code_simp

text \<open>
  Compaction of results does not protect the parents of failed tasks: once the parent's
  result is dropped, a requeue of the failed task is refused for good.
\<close>

lemma compaction_blocks_requeue:
  "let p = (plain_task ''p'' Completed 0 None)\<lparr>tk_result := Some JNull, tk_finished_at := Some 0, tk_planner_decision := Some ''STOP''\<rparr>;
       db = queue_with [p, plain_task ''c'' Failed 1 (Some ''p'')];
       db' = (case compact_completed_results db 7 4 500 (8 * day) of Inr (_, d) \<Rightarrow> d | Inl _ \<Rightarrow> db)
   in fst (requeue_failed db ''c'' 3) \<and> \<not> fst (requeue_failed db' ''c'' 3)"
  by code_simp

end
