(* ===== verification/IsoTime.thy ===== *)
theory IsoTime
  imports Prelude
begin

text \<open>
  The stored form of a timestamp: \<^verbatim>\<open>datetime.isoformat()\<close> of an aware UTC datetime, as every
  table of the program keeps it (\<^verbatim>\<open>datetime.now(timezone.utc).isoformat()\<close>). The calendar is
  Python's proleptic Gregorian one. What the other theories rely on when they compare
  instants where SQLite compares texts is proved here: the order of the texts is the order
  of the instants.
\<close>

section \<open>The calendar\<close>

definition leap :: "int \<Rightarrow> bool" where
  "leap y \<longleftrightarrow> y mod 4 = 0 \<and> (y mod 100 \<noteq> 0 \<or> y mod 400 = 0)"

definition days_before_year :: "int \<Rightarrow> int" where
  "days_before_year y = 365 * (y - 1) + (y - 1) div 4 - (y - 1) div 100 + (y - 1) div 400"

definition month_lengths :: "int \<Rightarrow> int list" where
  "month_lengths y = [31, if leap y then 29 else 28, 31, 30, 31, 30, 31, 31, 30, 31, 30, 31]"

text \<open>The year of an ordinal (day 1 is 0001-01-01) and the days before it in that year.\<close>

definition ord_year :: "int \<Rightarrow> int \<times> int" where
  "ord_year n =
    (let n400 = (n - 1) div 146097; a = (n - 1) mod 146097;
         n100 = a div 36524; b = a mod 36524;
         n4 = b div 1461; c = b mod 1461;
         n1 = c div 365; d = c mod 365;
         year = n400 * 400 + 1 + n100 * 100 + n4 * 4 + n1
     in if n1 = 4 \<or> n100 = 4 then (year - 1, 365) else (year, d))"

text \<open>Month and day of the month, both from 1.\<close>

fun month_day :: "int list \<Rightarrow> int \<Rightarrow> int \<Rightarrow> int \<times> int" where
  "month_day [] m d = (m, d + 1)"
| "month_day (l # ls) m d = (if d < l then (m, d + 1) else month_day ls (m + 1) (d - l))"

definition civil :: "int \<Rightarrow> int \<times> int \<times> int" where
  "civil n = (case ord_year n of (y, d) \<Rightarrow> (y, month_day (month_lengths y) 1 d))"

section \<open>The text\<close>

fun digits :: "nat \<Rightarrow> int \<Rightarrow> string" where
  "digits 0 n = []"
| "digits (Suc w) n = digits w (n div 10) @ [char_of (48 + nat (n mod 10))]"

definition second_us :: int where
  "second_us = 1000000"

definition day_us :: int where
  "day_us = 86400 * second_us"

text \<open>1970-01-01 has the ordinal 719163.\<close>

definition epoch_ordinal :: int where
  "epoch_ordinal = 719163"

definition isoformat :: "instant \<Rightarrow> string" where
  "isoformat t =
    (case civil (epoch_ordinal + t div day_us) of (y, m, d) \<Rightarrow>
      (let r = t mod day_us; s = r div second_us; us = r mod second_us
       in digits 4 y @ ''-'' @ digits 2 m @ ''-'' @ digits 2 d @ ''T'' @
          digits 2 (s div 3600) @ '':'' @ digits 2 (s div 60 mod 60) @ '':'' @ digits 2 (s mod 60) @
          (if us = 0 then [] else ''.'' @ digits 6 us) @ ''+00:00''))"

text \<open>The instants a datetime can hold: years 1 to 9999.\<close>

definition datetime_min :: instant where
  "datetime_min = (1 - epoch_ordinal) * day_us"

definition datetime_max :: instant where
  "datetime_max = (days_before_year 10000 + 1 - epoch_ordinal) * day_us - 1"

lemma isoformat_examples:
  "isoformat 0 = ''1970-01-01T00:00:00+00:00''" "isoformat 951782400000001 = ''2000-02-29T00:00:00.000001+00:00''"
  "isoformat datetime_max = ''9999-12-31T23:59:59.999999+00:00''" "isoformat datetime_min = ''0001-01-01T00:00:00+00:00''"
  by code_simp+


section \<open>Instants and dates\<close>

definition year_length :: "int \<Rightarrow> int" where
  "year_length y = (if leap y then 366 else 365)"

lemma div_step: "0 < k \<Longrightarrow> y div k = (y - 1) div k + (if y mod k = 0 then 1 else 0)" for k y :: int
proof (cases "y mod k = 0")
  case True
  assume k: "0 < k"
  from True obtain q where y: "y = k * q" by (auto elim: dvdE simp: mod_eq_0_iff_dvd)
  have "(k * q - 1) div k = q - 1"
    by (rule int_div_pos_eq [where r = "k - 1"]) (use k in \<open>simp_all add: algebra_simps\<close>)
  with k show ?thesis by (simp add: y)
next
  case False
  assume k: "0 < k"
  have "y - 1 = k * (y div k) + (y mod k - 1)" by (simp add: algebra_simps)
  moreover have "0 \<le> y mod k - 1" "y mod k - 1 < k"
    using False k pos_mod_sign [of k y] pos_mod_bound [of k y] by linarith+
  ultimately have "(y - 1) div k = y div k" by (rule int_div_pos_eq)
  with False show ?thesis by simp
qed

lemma days_before_next_year: "days_before_year (y + 1) = days_before_year y + year_length y"
proof -
  have "400 dvd y \<Longrightarrow> 100 dvd y" "100 dvd y \<Longrightarrow> 4 dvd y"
    using dvd_trans [of 100 400 y] dvd_trans [of 4 100 y] by simp_all
  then have leap: "(if y mod 4 = 0 then 1 else 0) - (if y mod 100 = 0 then 1 else 0) + (if y mod 400 = 0 then 1 else 0) =
      year_length y - 365"
    unfolding year_length_def leap_def mod_eq_0_iff_dvd
    by (cases "400 dvd y"; cases "100 dvd y"; cases "4 dvd y") simp_all
  have steps: "y div 4 = (y - 1) div 4 + (if y mod 4 = 0 then 1 else 0)"
    "y div 100 = (y - 1) div 100 + (if y mod 100 = 0 then 1 else 0)"
    "y div 400 = (y - 1) div 400 + (if y mod 400 = 0 then 1 else 0)" by (rule div_step, simp)+
  have alg: "i - j + k = l - 365 \<Longrightarrow> 365 * y + (a + i) - (b + j) + (c + k) = 365 * (y - 1) + a - b + c + l"
    for a b c i j k l :: int by simp
  have "days_before_year (y + 1) = 365 * y + y div 4 - y div 100 + y div 400"
    by (simp add: days_before_year_def)
  also have "\<dots> = 365 * (y - 1) + (y - 1) div 4 - (y - 1) div 100 + (y - 1) div 400 + year_length y"
    unfolding steps by (rule alg [OF leap])
  finally show ?thesis by (simp only: days_before_year_def)
qed

lemma days_before_year_mono: "y < y' \<Longrightarrow> days_before_year y + year_length y \<le> days_before_year y'"
proof (induction "nat (y' - y - 1)" arbitrary: y')
  case 0
  then have "y' = y + 1" by simp
  then show ?case by (simp add: days_before_next_year)
next
  case (Suc k)
  then have "days_before_year y + year_length y \<le> days_before_year (y' - 1)" by simp
  with days_before_next_year [of "y' - 1"] show ?case by (simp add: year_length_def split: if_splits)
qed

lemma ord_year_correct:
  assumes "ord_year n = (y, d)"
  shows "n = days_before_year y + 1 + d \<and> 0 \<le> d \<and> d < year_length y"
proof -
  define q a where "q = (n - 1) div 146097" and "a = (n - 1) mod 146097"
  define h b where "h = a div 36524" and "b = a mod 36524"
  define f c where "f = b div 1461" and "c = b mod 1461"
  define u r where "u = c div 365" and "r = c mod 365"
  have eqs: "n - 1 = 146097 * q + a" "a = 36524 * h + b" "b = 1461 * f + c" "c = 365 * u + r"
    by (simp_all add: q_def a_def h_def b_def f_def c_def u_def r_def)
  have bounds: "0 \<le> a" "a < 146097" "0 \<le> b" "b < 36524" "0 \<le> c" "c < 1461" "0 \<le> r" "r < 365"
    by (simp_all add: a_def b_def c_def r_def)
  then have digits: "0 \<le> h" "h \<le> 4" "0 \<le> f" "f \<le> 24" "0 \<le> u" "u \<le> 4"
    by (auto simp: h_def f_def u_def)
  have res: "(y, d) = (if u = 4 \<or> h = 4 then (q * 400 + h * 100 + f * 4 + u, 365)
      else (q * 400 + 1 + h * 100 + f * 4 + u, r))"
    using assms unfolding ord_year_def Let_def a_def [symmetric] q_def [symmetric] b_def [symmetric] h_def [symmetric]
      c_def [symmetric] f_def [symmetric] u_def [symmetric] r_def [symmetric] by (simp split: if_splits)
  have core: "days_before_year (400 * q + 100 * h + 4 * f + w + 1) =
      146097 * q + 36524 * h + 1461 * f + 365 * w"
    if "0 \<le> w" "w \<le> 3" "0 \<le> h'" "h' \<le> 3" "h' = h" for w h'
  proof -
    have "(400 * q + 100 * h + 4 * f + w) div 4 = 100 * q + 25 * h + f"
      "(400 * q + 100 * h + 4 * f + w) div 100 = 4 * q + h"
      "(400 * q + 100 * h + 4 * f + w) div 400 = q"
      using that digits by (intro int_div_pos_eq [where r = w] int_div_pos_eq [where r = "4 * f + w"]
        int_div_pos_eq [where r = "100 * h + 4 * f + w"]; simp)+
    then show ?thesis by (simp add: days_before_year_def)
  qed
  show ?thesis
  proof (cases "u = 4 \<or> h = 4")
    case False
    with digits have "u \<le> 3" "h \<le> 3" by auto
    moreover from False res have "y = 400 * q + 100 * h + 4 * f + u + 1" "d = r" by auto
    ultimately show ?thesis
      using core [of u h] digits bounds eqs by (simp add: year_length_def)
  next
    case True
    show ?thesis
    proof (cases "h = 4")
      case h: True
      with eqs bounds have "b = 0" by linarith
      with h eqs bounds digits have "f = 0" "c = 0" by linarith+
      with eqs bounds digits have "u = 0" "r = 0" by linarith+
      with h res \<open>f = 0\<close> have y: "y = 400 * (q + 1)" "d = 365" by auto
      have "leap y" by (simp add: y leap_def)
      moreover have "days_before_year y = 146097 * q + 145731"
      proof -
        have "(400 * (q + 1) - 1) div 4 = 100 * q + 99" by (rule int_div_pos_eq [where r = 3]) simp_all
        moreover have "(400 * (q + 1) - 1) div 100 = 4 * q + 3" by (rule int_div_pos_eq [where r = 99]) simp_all
        moreover have "(400 * (q + 1) - 1) div 400 = q" by (rule int_div_pos_eq [where r = 399]) simp_all
        ultimately show ?thesis by (simp add: days_before_year_def y)
      qed
      ultimately show ?thesis
        using y h eqs \<open>b = 0\<close> by (simp add: year_length_def)
    next
      case False
      with True digits have u: "u = 4" "h \<le> 3" by auto
      with eqs bounds have "r = 0" "c = 1460" by linarith+
      with eqs bounds have "f \<le> 23" by linarith
      from u False res have y: "y = 400 * q + 100 * h + 4 * f + 3 + 1" "d = 365" by auto
      have "y mod 4 = 0" unfolding y(1) by (rule int_mod_pos_eq [where q = "100 * q + 25 * h + f + 1"]) simp_all
      moreover have "y mod 100 = 4 * f + 4"
        unfolding y(1) by (rule int_mod_pos_eq [where q = "4 * q + h"]) (use \<open>f \<le> 23\<close> digits in simp_all)
      ultimately have "leap y" using digits by (simp add: leap_def)
      with core [of 3 h] u digits y eqs \<open>c = 1460\<close> show ?thesis by (simp add: year_length_def)
    qed
  qed
qed

lemma ord_year_mono:
  assumes "n < n'" and "ord_year n = (y, d)" and "ord_year n' = (y', d')"
  shows "y < y' \<or> (y = y' \<and> d < d')"
proof -
  note n = ord_year_correct [OF assms(2)] and n' = ord_year_correct [OF assms(3)]
  have "\<not> y' < y" using days_before_year_mono [of y' y] n n' assms(1) by linarith
  with n n' assms(1) show ?thesis by (cases "y = y'") auto
qed

lemma month_day_mono:
  "0 \<le> d \<Longrightarrow> d < d' \<Longrightarrow> \<forall>l \<in> set ls. 0 < l \<Longrightarrow> month_day ls m d = (x, i) \<Longrightarrow> month_day ls m d' = (x', i') \<Longrightarrow>
   x < x' \<or> (x = x' \<and> i < i')"
proof (induction ls m d arbitrary: d' rule: month_day.induct)
  case (2 l ls m d)
  have least: "month_day us k e = (z, j) \<Longrightarrow> k \<le> z" for us k e z j
    by (induction us k e rule: month_day.induct) (auto split: if_splits)
  show ?case
  proof (cases "d < l")
    case True
    with 2 show ?thesis by (cases "d' < l") (auto dest!: least)
  next
    case False
    with 2(3) have "\<not> d' < l" by simp
    with False 2(5,6) have "month_day ls (m + 1) (d - l) = (x, i)" "month_day ls (m + 1) (d' - l) = (x', i')" by simp_all
    with 2(1) [OF False, of "d' - l"] False 2(3,4) show ?thesis by simp
  qed
qed simp

lemma month_day_bounds:
  "0 \<le> d \<Longrightarrow> d < sum_list ls \<Longrightarrow> \<forall>l \<in> set ls. l \<le> 31 \<Longrightarrow> month_day ls m d = (x, i) \<Longrightarrow>
   m \<le> x \<and> x < m + int (length ls) \<and> 1 \<le> i \<and> i \<le> 31"
  by (induction ls m d rule: month_day.induct) (fastforce split: if_splits)+


section \<open>Fixed-width digits\<close>

lemma length_digits [simp]: "length (digits w n) = w"
  by (induction w arbitrary: n) auto

lemma append_less_iff:
  "length xs = length ys \<Longrightarrow> xs @ us < ys @ vs \<longleftrightarrow> xs < ys \<or> (xs = ys \<and> us < vs)" for xs :: "'a :: linorder list"
  by (induction xs ys rule: list_induct2) auto

lemma digit_less: "0 \<le> a \<Longrightarrow> a < b \<Longrightarrow> b < 10 \<Longrightarrow> (char_of (48 + nat a) :: char) < char_of (48 + nat b)"
  by (simp add: less_char_def)

lemma digits_mono: "0 \<le> a \<Longrightarrow> a < b \<Longrightarrow> b < 10 ^ w \<Longrightarrow> digits w a < digits w b"
proof (induction w arbitrary: a b)
  case (Suc w)
  show ?case
  proof (cases "a div 10 < b div 10")
    case True
    moreover have "b div 10 < 10 ^ w" using Suc.prems by simp
    ultimately have "digits w (a div 10) < digits w (b div 10)" using Suc by simp
    then show ?thesis by (simp add: append_less_iff)
  next
    case False
    with Suc.prems have eq: "a div 10 = b div 10" by (simp add: zdiv_mono1 order.antisym)
    have "a mod 10 < b mod 10" using Suc.prems(2) eq by (simp add: minus_div_mult_eq_mod [symmetric])
    with eq show ?thesis by (simp add: append_less_iff digit_less)
  qed
qed simp

text \<open>Two texts with a common number of leading digits, compared digit field by field.\<close>

lemma field_less:
  assumes "0 \<le> a" and "0 \<le> b" and "a < 10 ^ w" and "b < 10 ^ w" and "a < b \<or> (a = b \<and> us < vs)"
  shows "digits w a @ us < digits w b @ vs"
  using assms digits_mono [of a b w] by (auto simp: append_less_iff)

lemma sep_less: "us < vs \<Longrightarrow> c # us < c # vs" for c :: "'a :: linorder"
  by simp

definition fraction_text :: "int \<Rightarrow> string" where
  "fraction_text us = (if us = 0 then [] else ''.'' @ digits 6 us) @ ''+00:00''"

lemma fraction_less: "0 \<le> a \<Longrightarrow> a < b \<Longrightarrow> b < 1000000 \<Longrightarrow> fraction_text a < fraction_text b"
  using digits_mono [of a b 6] by (auto simp: fraction_text_def append_less_iff less_char_def)

section \<open>The order of the texts\<close>

definition time_text_of :: "int \<Rightarrow> string" where
  "time_text_of r = (let s = r div second_us; us = r mod second_us
     in digits 2 (s div 3600) @ '':'' @ digits 2 (s div 60 mod 60) @ '':'' @ digits 2 (s mod 60) @ fraction_text us)"

lemma isoformat_parts:
  "isoformat t = (case civil (epoch_ordinal + t div day_us) of (y, m, d) \<Rightarrow>
     digits 4 y @ ''-'' @ digits 2 m @ ''-'' @ digits 2 d @ ''T'' @ time_text_of (t mod day_us))"
  by (simp add: isoformat_def time_text_of_def fraction_text_def Let_def split: prod.split)

lemma mixed_radix: "a < b \<Longrightarrow> 0 < k \<Longrightarrow> a div k < b div k \<or> (a div k = b div k \<and> a mod k < b mod k)" for a b k :: int
  using zdiv_mono1 [of a b k] by (auto simp: minus_div_mult_eq_mod [symmetric] order.order_iff_strict)

lemma clock_order:
  fixes s s' :: int
  assumes "s < s'"
  shows "s div 3600 < s' div 3600 \<or> (s div 3600 = s' div 3600 \<and> (s div 60 mod 60 < s' div 60 mod 60 \<or>
  (s div 60 mod 60 = s' div 60 mod 60 \<and> s mod 60 < s' mod 60)))"
proof -
  have e: "x div 3600 = x div 60 div 60" for x :: int using zdiv_zmult2_eq [of 60 x 60] by simp
  from mixed_radix [OF assms, of 60] show ?thesis
  proof
    assume "s div 60 < s' div 60"
    from mixed_radix [OF this, of 60] show ?thesis unfolding e by force
  next
    assume "s div 60 = s' div 60 \<and> s mod 60 < s' mod 60"
    then show ?thesis unfolding e by simp
  qed simp
qed
lemma time_text_less:
  assumes "0 \<le> a" and "a < b" and "b < day_us"
  shows "time_text_of a < time_text_of b"
proof -
  define s u where "s = a div second_us" and "u = a mod second_us"
  define s' u' where "s' = b div second_us" and "u' = b mod second_us"
  have pos: "0 < second_us" by (simp add: second_us_def)
  have a: "a = second_us * s + u" "0 \<le> u" "u < second_us" and b: "b = second_us * s' + u'" "0 \<le> u'" "u' < second_us"
    using pos by (simp_all add: s_def u_def s'_def u'_def)
  have "0 \<le> s" "s \<le> s'"
    using assms pos by (simp_all add: s_def s'_def pos_imp_zdiv_nonneg_iff zdiv_mono1)
  moreover have "s' < 86400"
  proof (rule ccontr)
    assume "\<not> s' < 86400"
    then have "86400 * second_us \<le> second_us * s'" using pos by (simp add: mult.commute)
    with b assms(3) show False by (simp add: day_us_def)
  qed
  ultimately have s: "0 \<le> s" "s \<le> s'" "s' < 86400" .
  have "s < s' \<or> (s = s' \<and> u < u')"
    using a b s assms(2) by auto
  moreover have fr: "s = s' \<Longrightarrow> u < u' \<Longrightarrow> fraction_text u < fraction_text u'"
    using a b by (simp add: fraction_less second_us_def)
  moreover define H M S where "H = s div 3600" and "M = s div 60 mod 60" and "S = s mod 60"
  moreover define H' M' S' where "H' = s' div 3600" and "M' = s' div 60 mod 60" and "S' = s' mod 60"
  moreover have "s < s' \<Longrightarrow> H < H' \<or> (H = H' \<and> (M < M' \<or> (M = M' \<and> S < S')))"
    unfolding H_def M_def S_def H'_def M'_def S'_def by (rule clock_order)
  ultimately have order: "H < H' \<or> (H = H' \<and> M < M') \<or> (H = H' \<and> M = M' \<and> S < S') \<or>
      (H = H' \<and> M = M' \<and> S = S' \<and> fraction_text u < fraction_text u')" by blast
  have "0 \<le> H" "H' < 100" "0 \<le> M" "M' < 100" "0 \<le> S" "S' < 100"
    using s by (auto simp: H_def H'_def M_def M'_def S_def S'_def intro: less_trans [OF pos_mod_bound])
  with order have "digits 2 H @ '':'' @ digits 2 M @ '':'' @ digits 2 S @ fraction_text u <
      digits 2 H' @ '':'' @ digits 2 M' @ '':'' @ digits 2 S' @ fraction_text u'"
    by (elim disjE conjE) (simp_all add: append_less_iff digits_mono)
  then show ?thesis
    by (simp only: time_text_of_def Let_def s_def u_def s'_def u'_def H_def M_def S_def H'_def M'_def S'_def)
qed

lemma div_below: "0 < k \<Longrightarrow> b < K * k \<Longrightarrow> b div k < K" for b k K :: int
proof (rule ccontr)
  assume k: "0 < k" "b < K * k" and "\<not> b div k < K"
  then have "k * K \<le> k * (b div k)" by simp
  also have "\<dots> \<le> b" using k(1) by (simp add: minus_mod_eq_mult_div [symmetric])
  finally show False using k(2) by (simp add: mult.commute)
qed

lemma civil_mono:
  assumes "1 \<le> n" and "n < n'" and "n' \<le> days_before_year 10000"
    and "civil n = (y, m, d)" and "civil n' = (y', m', d')"
  shows "1 \<le> y \<and> y' \<le> 9999 \<and> 1 \<le> m \<and> m \<le> 12 \<and> 1 \<le> m' \<and> m' \<le> 12 \<and> 1 \<le> d \<and> d \<le> 31 \<and> 1 \<le> d' \<and> d' \<le> 31 \<and>
    (y < y' \<or> (y = y' \<and> (m < m' \<or> (m = m' \<and> d < d'))))"
proof -
  from assms(4) obtain k where k: "ord_year n = (y, k)" "month_day (month_lengths y) 1 k = (m, d)"
    by (auto simp: civil_def split: prod.splits)
  from assms(5) obtain k' where k': "ord_year n' = (y', k')" "month_day (month_lengths y') 1 k' = (m', d')"
    by (auto simp: civil_def split: prod.splits)
  note n = ord_year_correct [OF k(1)] and n' = ord_year_correct [OF k'(1)]
  have len: "sum_list (month_lengths y) = year_length y" "\<forall>l \<in> set (month_lengths y). 0 < l \<and> l \<le> 31"
    "length (month_lengths y) = 12" for y
    by (auto simp: month_lengths_def year_length_def)
  have md: "1 \<le> m \<and> m \<le> 12 \<and> 1 \<le> d \<and> d \<le> 31"
    using month_day_bounds [OF _ _ _ k(2)] n len [of y] by auto
  have md': "1 \<le> m' \<and> m' \<le> 12 \<and> 1 \<le> d' \<and> d' \<le> 31"
    using month_day_bounds [OF _ _ _ k'(2)] n' len [of y'] by auto
  have "\<not> y < 1"
    using days_before_year_mono [of y 1] n assms(1) by (auto simp: days_before_year_def)
  moreover have "\<not> 9999 < y'"
    using days_before_year_mono [of 10000 y'] n' assms(3) by (cases "y' = 10000") (auto simp: year_length_def split: if_splits)
  moreover from ord_year_mono [OF assms(2) k(1) k'(1)]
  have "y < y' \<or> (y = y' \<and> (m < m' \<or> (m = m' \<and> d < d')))"
    using month_day_mono [OF _ _ _ k(2), of k' m' d'] k'(2) n len [of y] by auto
  ultimately show ?thesis using md md' by simp
qed

text \<open>
  Within the range of a datetime the texts, compared character by character as SQLite does,
  are ordered like the instants; in particular equal texts mean equal instants.
\<close>

lemma isoformat_less:
  assumes "datetime_min \<le> a" and "a < b" and "b \<le> datetime_max"
  shows "isoformat a < isoformat b"
proof -
  have pos: "0 < day_us" by (simp add: day_us_def second_us_def)
  define n r where "n = epoch_ordinal + a div day_us" and "r = a mod day_us"
  define n' r' where "n' = epoch_ordinal + b div day_us" and "r' = b mod day_us"
  have r: "0 \<le> r" "r < day_us" "0 \<le> r'" "r' < day_us" using pos by (simp_all add: r_def r'_def)
  have ab: "a = day_us * (n - epoch_ordinal) + r" "b = day_us * (n' - epoch_ordinal) + r'"
    by (simp_all add: n_def r_def n'_def r'_def)
  have le: "n \<le> n'" using assms(2) pos by (simp add: n_def n'_def zdiv_mono1)
  have lo: "1 \<le> n"
  proof -
    have "(1 - epoch_ordinal) * day_us div day_us \<le> a div day_us"
      using assms(1) pos by (intro zdiv_mono1) (simp_all add: datetime_min_def)
    then show ?thesis using pos by (simp add: n_def)
  qed
  have hi: "n' \<le> days_before_year 10000"
  proof -
    have "b < (days_before_year 10000 + 1 - epoch_ordinal) * day_us" using assms(3) by (simp add: datetime_max_def)
    then have "b div day_us < days_before_year 10000 + 1 - epoch_ordinal"
      using pos by (rule div_below [rotated])
    then show ?thesis by (simp add: n'_def)
  qed
  obtain y m d where c: "civil n = (y, m, d)" by (cases "civil n") auto
  obtain y' m' d' where c': "civil n' = (y', m', d')" by (cases "civil n'") auto
  show ?thesis
  proof (cases "n = n'")
    case True
    with ab assms(2) have "r < r'" by simp
    with time_text_less [of r r'] r have "time_text_of r < time_text_of r'" by simp
    with True c c' show ?thesis
      by (simp add: isoformat_parts n_def [symmetric] n'_def [symmetric] r_def [symmetric] r'_def [symmetric] append_less_iff)
  next
    case False
    with le have "n < n'" by simp
    from civil_mono [OF lo this hi c c'] show ?thesis
      unfolding isoformat_parts n_def [symmetric] n'_def [symmetric] r_def [symmetric] r'_def [symmetric] c c' prod.case
      by (elim conjE disjE) (simp_all add: append_less_iff digits_mono)
  qed
qed

lemma isoformat_less_iff:
  assumes "datetime_min \<le> a" and "a \<le> datetime_max" and "datetime_min \<le> b" and "b \<le> datetime_max"
  shows "isoformat a < isoformat b \<longleftrightarrow> a < b"
  using isoformat_less [of a b] isoformat_less [of b a] assms by (cases a b rule: linorder_cases) (auto dest: less_asym)

end
