(* ===== verification/Disclosure.thy ===== *)
theory Disclosure
  imports Tasks IsoTime
begin

text \<open>
  Disclosure rounds and human reviews (\<^verbatim>\<open>src/shared/queue.py\<close>): the timeline row of a research
  round with its deadline, one extension and one outcome, the list of overdue rounds, and
  the queue of reviews a human has to resolve. Timestamps are the ISO texts of aware UTC
  datetimes, as the callers pass them; SQLite orders them like the instants.
\<close>

section \<open>Rounds\<close>

definition round_key :: "round_row \<Rightarrow> string \<times> string" where
  "round_key r = (rt_case_id r, rt_round_id r)"

definition get_round :: "queue_db \<Rightarrow> string \<Rightarrow> string \<Rightarrow> round_row option" where
  "get_round db c r = lookup_row round_key (qd_rounds db) (c, r)"

definition new_round_row :: "string \<Rightarrow> string \<Rightarrow> string \<Rightarrow> instant \<Rightarrow> instant \<Rightarrow> round_row" where
  "new_round_row r c technique started deadline = \<lparr>rt_case_id = c, rt_round_id = r, rt_technique = technique,
     rt_started_at = started, rt_deadline = deadline, rt_status = RoundOpen, rt_completed_at = None,
     rt_verdict = None, rt_extension_granted_at = None, rt_extension_reason = None\<rparr>"

text \<open>INSERT OR IGNORE: an existing row of the case and round stays as it is.\<close>

definition create_round_transparency :: "queue_db \<Rightarrow> string \<Rightarrow> string \<Rightarrow> string \<Rightarrow> instant \<Rightarrow> instant \<Rightarrow> queue_db result" where
  "create_round_transparency db r c technique started deadline =
    (if blank r \<or> blank c \<or> blank technique then raise ValueError ''round_transparency_required_fields''
     else if get_round db c r \<noteq> None then Inr db
     else Inr (db\<lparr>qd_rounds := qd_rounds db @ [new_round_row r c technique started deadline]\<rparr>))"

definition round_active :: "round_row \<Rightarrow> bool" where
  "round_active r \<longleftrightarrow> rt_status r = RoundOpen \<or> rt_status r = RoundExtended"

abbreviation active_round :: "string \<Rightarrow> string \<Rightarrow> round_row \<Rightarrow> bool" where
  "active_round c i r \<equiv> round_key r = (c, i) \<and> round_active r"

text \<open>
  \<^verbatim>\<open>str.upper\<close> on code points below 256; the upper case of the micro sign and of y with
  diaeresis lies outside and they stay as they are.
\<close>

definition upper_char :: "char \<Rightarrow> string" where
  "upper_char c = (let n = (of_char c :: nat) in
     if (97 \<le> n \<and> n \<le> 122) \<or> (224 \<le> n \<and> n \<le> 254 \<and> n \<noteq> 247) then [char_of (n - 32)]
     else if n = 223 then ''SS'' else [c])"

definition upper :: "string \<Rightarrow> string" where
  "upper s = concat (map upper_char s)"

definition allowed_verdicts :: "string list" where
  "allowed_verdicts = [''REPRODUCED'', ''NOT_REPRODUCED'', ''INCONCLUSIVE'']"

definition stored_verdict :: "string \<Rightarrow> string" where
  "stored_verdict v = (if upper (strip v) \<in> set allowed_verdicts then upper (strip v) else ''INCONCLUSIVE'')"

definition complete_round :: "queue_db \<Rightarrow> string \<Rightarrow> string \<Rightarrow> instant \<Rightarrow> string \<Rightarrow> bool \<times> queue_db" where
  "complete_round db c i completed_at verdict =
    (if blank c \<or> blank i then (False, db)
     else (count_where (active_round c i) (qd_rounds db) = 1,
           db\<lparr>qd_rounds := update_where (active_round c i)
             (\<lambda>r. r\<lparr>rt_status := RoundCompleted, rt_completed_at := Some completed_at,
                 rt_verdict := Some (stored_verdict verdict)\<rparr>) (qd_rounds db)\<rparr>))"

definition fail_round :: "queue_db \<Rightarrow> string \<Rightarrow> string \<Rightarrow> instant \<Rightarrow> bool \<times> queue_db" where
  "fail_round db c i failed_at =
    (if blank c \<or> blank i then (False, db)
     else (count_where (active_round c i) (qd_rounds db) = 1,
           db\<lparr>qd_rounds := update_where (active_round c i)
             (\<lambda>r. r\<lparr>rt_status := RoundFailed, rt_completed_at := Some failed_at, rt_verdict := None\<rparr>) (qd_rounds db)\<rparr>))"

definition list_rounds_for_case :: "queue_db \<Rightarrow> string \<Rightarrow> round_row list result" where
  "list_rounds_for_case db c =
    (if blank c then raise ValueError ''round_transparency_case_id_required''
     else Inr (sort_key (\<lambda>r. (rt_started_at r, rt_round_id r)) (filter (\<lambda>r. rt_case_id r = c) (qd_rounds db))))"

record public_round =
  pr_round_id :: string
  pr_technique :: string
  pr_started_at :: instant
  pr_deadline :: instant
  pr_status :: round_status
  pr_verdict :: "string option"
  pr_extension_granted_at :: "instant option"

definition public_view :: "round_row \<Rightarrow> public_round" where
  "public_view r = \<lparr>pr_round_id = rt_round_id r, pr_technique = rt_technique r, pr_started_at = rt_started_at r,
     pr_deadline = rt_deadline r, pr_status = rt_status r, pr_verdict = rt_verdict r,
     pr_extension_granted_at = rt_extension_granted_at r\<rparr>"

definition public_timeline :: "queue_db \<Rightarrow> string \<Rightarrow> public_round list result" where
  "public_timeline db c = bindR (list_rounds_for_case db c) (\<lambda>rows. Inr (map public_view rows))"

text \<open>Adding days beyond the last datetime raises, which the code catches.\<close>

definition extendable :: "string \<Rightarrow> string \<Rightarrow> round_row \<Rightarrow> bool" where
  "extendable c i r \<longleftrightarrow> round_key r = (c, i) \<and> rt_status r = RoundOpen \<and> rt_extension_granted_at r = None"

definition grant_extension :: "queue_db \<Rightarrow> string \<Rightarrow> string \<Rightarrow> string \<Rightarrow> int \<Rightarrow> instant \<Rightarrow> bool \<times> queue_db" where
  "grant_extension db c i reason days now =
    (if blank c \<or> blank i \<or> blank reason \<or> days \<le> 0 then (False, db)
     else
       (case find (\<lambda>r. round_key r = (c, i) \<and> rt_status r = RoundOpen) (qd_rounds db) of
          None \<Rightarrow> (False, db)
        | Some row \<Rightarrow>
           if rt_extension_granted_at row \<noteq> None then (False, db)
           else if datetime_max < rt_deadline row + days * day then (False, db)
           else if count_where (extendable c i) (qd_rounds db) \<noteq> 1 then (False, db)
           else (True, db\<lparr>qd_rounds := update_where (extendable c i)
             (\<lambda>r. r\<lparr>rt_deadline := rt_deadline row + days * day, rt_status := RoundExtended,
                 rt_extension_granted_at := Some now, rt_extension_reason := Some (take 1000 (strip reason))\<rparr>)
             (qd_rounds db)\<rparr>)))"

definition expired_rounds :: "queue_db \<Rightarrow> instant \<Rightarrow> round_row list" where
  "expired_rounds db now = sort_key (\<lambda>r. (rt_deadline r, rt_round_id r))
     (filter (\<lambda>r. round_active r \<and> rt_deadline r < now) (qd_rounds db))"

section \<open>Human reviews\<close>

definition open_reviews :: "queue_db \<Rightarrow> string \<Rightarrow> human_review list" where
  "open_reviews db c = filter (\<lambda>h. hv_case_id h = c \<and> hv_status h = ''OPEN'') (qd_reviews db)"

definition create_human_review :: "queue_db \<Rightarrow> string \<Rightarrow> string \<Rightarrow> string option \<Rightarrow> string \<Rightarrow> instant \<Rightarrow>
    (string \<times> queue_db) result" where
  "create_human_review db c reason task new_id now =
    (if blank c then raise ValueError ''human_review_case_id_required''
     else if blank reason then raise ValueError ''human_review_reason_required''
     else if (case task of None \<Rightarrow> False | Some t \<Rightarrow> blank t) then raise ValueError ''human_review_task_id_invalid''
     else
       (case sort_key (\<lambda>h. (hv_created_at h, hv_id h)) (filter (\<lambda>h. hv_reason h = reason) (open_reviews db c)) of
          h # _ \<Rightarrow> Inr (hv_id h, db)
        | [] \<Rightarrow>
           if lookup_row hv_id (qd_reviews db) new_id \<noteq> None
           then raise IntegrityError ''UNIQUE constraint failed: pending_human_review.id''
           else Inr (new_id, db\<lparr>qd_reviews := qd_reviews db @
             [\<lparr>hv_id = new_id, hv_case_id = c, hv_task_id = task, hv_reason = bounded_description reason,
               hv_status = ''OPEN'', hv_created_at = now, hv_resolved_at = None, hv_resolution = None\<rparr>]\<rparr>)))"

definition list_human_reviews :: "queue_db \<Rightarrow> string \<Rightarrow> human_review list result" where
  "list_human_reviews db status =
    (if blank status then raise ValueError ''human_review_status_required''
     else Inr (sort_key (\<lambda>h. (hv_created_at h, hv_id h)) (filter (\<lambda>h. hv_status h = upper status) (qd_reviews db))))"

definition resolve_human_review :: "queue_db \<Rightarrow> string \<Rightarrow> string \<Rightarrow> instant \<Rightarrow> (bool \<times> queue_db) result" where
  "resolve_human_review db i resolution now =
    (if blank i then raise ValueError ''human_review_id_required''
     else if blank resolution then raise ValueError ''human_review_resolution_required''
     else
       (let p = (\<lambda>h. hv_id h = i \<and> hv_status h = ''OPEN'')
        in Inr (count_where p (qd_reviews db) = 1,
                db\<lparr>qd_reviews := update_where p (\<lambda>h. h\<lparr>hv_status := ''RESOLVED'', hv_resolved_at := Some now,
                  hv_resolution := Some (bounded_description resolution)\<rparr>) (qd_reviews db)\<rparr>)))"

end
