(* ===== verification/CaseRounds.thy ===== *)
theory CaseRounds
  imports Disclosure
begin

text \<open>
  The operator's command that continues a case (\<^verbatim>\<open>src/shared/case_rounds.py\<close>): one new root
  task and one numbered round row, created together or not at all, and the read-only
  diagnosis of a case. The command runs in one immediate transaction and rolls back when it
  raises.
\<close>

section \<open>Starting a round\<close>

fun task_status_value :: "task_status \<Rightarrow> string" where
  "task_status_value Pending = ''pending''"
| "task_status_value Running = ''running''"
| "task_status_value Completed = ''completed''"
| "task_status_value Failed = ''failed''"

text \<open>How an f-string shows an optional column.\<close>

definition show_opt :: "string option \<Rightarrow> string" where
  "show_opt x = (case x of None \<Rightarrow> ''None'' | Some s \<Rightarrow> s)"

definition case_tasks :: "queue_db \<Rightarrow> string \<Rightarrow> task list" where
  "case_tasks db c = filter (\<lambda>t. tk_case_id t = Some c) (qd_tasks db)"

definition active_case_task :: "queue_db \<Rightarrow> string \<Rightarrow> task option" where
  "active_case_task db c = (case sort_key tk_created_at (filter active (case_tasks db c)) of [] \<Rightarrow> None | t # _ \<Rightarrow> Some t)"

definition first_open_review :: "queue_db \<Rightarrow> string \<Rightarrow> human_review option" where
  "first_open_review db c = (case sort_key hv_created_at (open_reviews db c) of [] \<Rightarrow> None | h # _ \<Rightarrow> Some h)"

text \<open>NULLs sort first.\<close>

definition first_failed_task :: "queue_db \<Rightarrow> string \<Rightarrow> task option" where
  "first_failed_task db c =
    (case sort_key (\<lambda>t. (case tk_finished_at t of None \<Rightarrow> (0, 0) | Some f \<Rightarrow> (1 :: int, f), tk_created_at t))
        (filter (\<lambda>t. tk_status t = Failed) (case_tasks db c)) of [] \<Rightarrow> None | t # _ \<Rightarrow> Some t)"

text \<open>The next number: after the recorded rounds and after the roots that predate the table.\<close>

definition next_round_number :: "queue_db \<Rightarrow> string \<Rightarrow> int" where
  "next_round_number db c =
    (let recorded = fold max (map cd_number (filter (\<lambda>r. cd_case_id r = c) (qd_case_rounds db))) 0 + 1;
         roots = int (count_where (\<lambda>t. tk_role t = Some ''source_researcher'' \<and> tk_parent t = None) (case_tasks db c))
     in max recorded (roots + 1))"

definition round_description :: "research_case \<Rightarrow> int \<Rightarrow> string \<Rightarrow> string" where
  "round_description c n r = ''[CASE ROUND '' @ int_str n @ '' run_id='' @ r @ ''] Continue registered '' @
     ''EVM Key Forensics case '' @ rc_case_id c @ ''. Target: '' @ rc_target_repository c @ ''@'' @ rc_target_commit c @
     ''. Approved scope: '' @ rc_scope_url c @ '' (SHA-256 '' @ rc_scope_digest c @ ''). Hypothesis: '' @ rc_hypothesis c @
     ''. Re-evaluate prior evidence and identify a materially distinct falsifiable next step. Preserve evidence continuity; '' @
     ''do not repeat completed work without a documented reason. Use immutable public sources and local/synthetic experiments only. '' @
     ''Do not execute live-network actions, handle wallet/key material, or mark a finding CONFIRMED.''"

definition round_root :: "string \<Rightarrow> research_case \<Rightarrow> int \<Rightarrow> string \<Rightarrow> string \<Rightarrow> instant \<Rightarrow> task" where
  "round_root c rc n r t now = \<lparr>tk_id = t, tk_description = bounded_description (round_description rc n r), tk_status = Pending,
     tk_worker = None, tk_created_at = now, tk_started_at = None, tk_finished_at = None, tk_role = Some ''source_researcher'',
     tk_parent = None, tk_result = None, tk_case_id = Some c, tk_round_id = Some r, tk_planner_decision = None,
     tk_retry_count = 0, tk_intent = None, tk_allow_failed_parent = False, tk_evaluation_only = False, tk_evaluation_id = None\<rparr>"

definition insert_round :: "queue_db \<Rightarrow> case_round \<Rightarrow> queue_db result" where
  "insert_round db r =
    (if lookup_row cd_round_id (qd_case_rounds db) (cd_round_id r) \<noteq> None
     then raise IntegrityError ''UNIQUE constraint failed: research_case_rounds.round_id''
     else if lookup_row cd_root_task_id (qd_case_rounds db) (cd_root_task_id r) \<noteq> None
     then raise IntegrityError ''UNIQUE constraint failed: research_case_rounds.root_task_id''
     else if lookup_row (\<lambda>x. (cd_case_id x, cd_number x)) (qd_case_rounds db) (cd_case_id r, cd_number r) \<noteq> None
     then raise IntegrityError ''UNIQUE constraint failed: research_case_rounds.case_id, research_case_rounds.round_number''
     else Inr (db\<lparr>qd_case_rounds := qd_case_rounds db @ [r]\<rparr>))"

definition start_case_round :: "queue_db \<Rightarrow> string \<Rightarrow> string \<Rightarrow> string \<Rightarrow> instant \<Rightarrow> (case_round \<times> queue_db) result" where
  "start_case_round db c r t now =
    (if blank c then raise CaseRoundError ''case_id_required''
     else
       (case get_research_case db c of
          None \<Rightarrow> raise CaseRoundError ''research_case_not_registered''
        | Some rc \<Rightarrow>
           if rc_status rc \<noteq> READY \<and> rc_status rc \<noteq> CASE_RUNNING
           then raise CaseRoundError (''research_case_not_runnable:'' @ case_status_value (rc_status rc))
           else
             bindR (validate_task_binding (Some rc) (Some c)) (\<lambda>_.
               (case active_case_task db c of
                  Some a \<Rightarrow> raise CaseRoundError (''case_round_already_active:task='' @ tk_id a @ '':role='' @
                    show_opt (tk_role a) @ '':status='' @ task_status_value (tk_status a))
                | None \<Rightarrow>
                    (case first_open_review db c of
                       Some h \<Rightarrow> raise CaseRoundError (''case_round_blocked_human_review:review='' @ hv_id h)
                     | None \<Rightarrow>
                         (case first_failed_task db c of
                            Some f \<Rightarrow> raise CaseRoundError (''case_round_blocked_failed_tasks:task='' @ tk_id f @ '':role='' @
                              show_opt (tk_role f))
                          | None \<Rightarrow>
                              (let n = next_round_number db c;
                                   row = \<lparr>cd_round_id = r, cd_case_id = c, cd_number = n, cd_root_task_id = t, cd_created_at = now\<rparr>
                               in if task_row db t \<noteq> None then raise IntegrityError ''UNIQUE constraint failed: queue.id''
                                  else bindR (insert_round (db\<lparr>qd_tasks := qd_tasks db @ [round_root c rc n r t now]\<rparr>) row)
                                    (\<lambda>db'. Inr (row, db')))))))))"

section \<open>Diagnosis\<close>

record case_diagnosis =
  dg_state :: string
  dg_reason :: string
  dg_pending :: nat
  dg_running :: nat
  dg_completed :: nat
  dg_failed :: nat
  dg_open_reviews :: nat

definition count_status :: "queue_db \<Rightarrow> string \<Rightarrow> task_status \<Rightarrow> nat" where
  "count_status db c st = count_where (\<lambda>t. tk_status t = st) (case_tasks db c)"

definition terminal_case_statuses :: "case_status list" where
  "terminal_case_statuses = [CONFIRMED, REJECTED, INCONCLUSIVE, OUT_OF_SCOPE]"

definition diagnose_case_state :: "queue_db \<Rightarrow> string \<Rightarrow> case_diagnosis result" where
  "diagnose_case_state db c =
    (if blank c then raise CaseRoundError ''case_id_required''
     else
       (case get_research_case db c of
          None \<Rightarrow> Inr \<lparr>dg_state = ''blocked'', dg_reason = ''research_case_not_registered'', dg_pending = 0, dg_running = 0,
            dg_completed = 0, dg_failed = 0, dg_open_reviews = 0\<rparr>
        | Some rc \<Rightarrow>
           (let reviews = length (open_reviews db c);
                (state, reason) =
                  (if count_status db c Pending \<noteq> 0 \<or> count_status db c Running \<noteq> 0 then (''active'', ''case_has_active_tasks'')
                   else if reviews \<noteq> 0 then (''blocked'', ''human_review_required'')
                   else if rc_status rc \<in> set terminal_case_statuses
                   then (''terminal'', ''research_case_terminal:'' @ case_status_value (rc_status rc))
                   else if count_status db c Failed \<noteq> 0 then (''blocked'', ''failed_tasks_require_operator_review'')
                   else (''idle_awaiting_input'', ''explicit_operator_action_required''))
            in Inr \<lparr>dg_state = state, dg_reason = reason, dg_pending = count_status db c Pending,
                 dg_running = count_status db c Running, dg_completed = count_status db c Completed,
                 dg_failed = count_status db c Failed, dg_open_reviews = reviews\<rparr>)))"

end
