(* ===== verification/CasePipeline.thy ===== *)
theory CasePipeline
  imports CaseRounds
begin

text \<open>
  The pipeline of registered cases in \<^verbatim>\<open>src/orchestrator/master.py\<close>: the bootstrap step of
  the master loop, which creates the root task and the disclosure timeline of every round,
  repairs a partially created set, closes the rounds whose branch has ended and asks for a
  human review where nothing is left to do. Each statement commits on its own, so an
  exception leaves what was committed. Every reading of the clock and every uuid is drawn
  from the environment in order.
\<close>

section \<open>State and effects\<close>

record pipeline =
  pl_db :: queue_db
  pl_idle_logged :: bool
  pl_drawn :: nat

record environment =
  env_uuid :: "nat \<Rightarrow> string"
  env_clock :: "nat \<Rightarrow> instant"

type_synonym 'a pipe = "(pipeline, 'a) op"

definition draw :: "(nat \<Rightarrow> 'a) \<Rightarrow> 'a pipe" where
  "draw f = (\<lambda>s. (Inr (f (pl_drawn s)), s\<lparr>pl_drawn := pl_drawn s + 1\<rparr>))"

definition ask :: "(queue_db \<Rightarrow> 'a) \<Rightarrow> 'a pipe" where
  "ask f = readS (\<lambda>s. Inr (f (pl_db s)))"

definition run_db :: "(queue_db \<Rightarrow> ('a \<times> queue_db) result) \<Rightarrow> 'a pipe" where
  "run_db f = commitS (\<lambda>s. bindR (f (pl_db s)) (\<lambda>(x, db). Inr (x, s\<lparr>pl_db := db\<rparr>)))"

definition set_idle :: "bool \<Rightarrow> unit pipe" where
  "set_idle b = (\<lambda>s. (Inr (), s\<lparr>pl_idle_logged := b\<rparr>))"

definition add_task :: "environment \<Rightarrow> add_args \<Rightarrow> string pipe" where
  "add_task env a = bindS (draw (env_uuid env)) (\<lambda>i. bindS (draw (env_clock env)) (\<lambda>now. run_db (\<lambda>db. queue_add db i now a)))"

definition request_review :: "environment \<Rightarrow> string \<Rightarrow> string \<Rightarrow> string pipe" where
  "request_review env c reason = bindS (draw (env_uuid env)) (\<lambda>i. bindS (draw (env_clock env)) (\<lambda>now.
     run_db (\<lambda>db. create_human_review db c reason None i now)))"

text \<open>\<^verbatim>\<open>datetime + timedelta(days=...)\<close>.\<close>

definition add_days :: "instant \<Rightarrow> int \<Rightarrow> instant pipe" where
  "add_days t days = (if datetime_min \<le> t + days * day \<and> t + days * day \<le> datetime_max then retS (t + days * day)
     else failS OverflowError ''date value out of range'')"

definition create_timeline :: "string \<Rightarrow> string \<Rightarrow> string \<Rightarrow> instant \<Rightarrow> instant \<Rightarrow> unit pipe" where
  "create_timeline r c technique started deadline =
     run_db (\<lambda>db. bindR (create_round_transparency db r c technique started deadline) (\<lambda>db'. Inr ((), db')))"

section \<open>The root of a round\<close>

definition root_roles :: "(string \<times> string) list" where
  "root_roles = [(''source_pattern'', ''source_researcher''), (''differential_revision'', ''source_researcher''),
     (''crypto_primitive_analysis'', ''crypto_analyst''), (''runtime_probe'', ''lab_runner''),
     (''fuzzing'', ''source_researcher''), (''symbolic_execution'', ''source_researcher''),
     (''formal_verification'', ''source_researcher''), (''supply_chain'', ''source_researcher'')]"

definition root_role :: "string \<Rightarrow> string" where
  "root_role technique = (case map_of root_roles technique of None \<Rightarrow> ''source_researcher'' | Some r \<Rightarrow> r)"

definition root_description :: "research_case \<Rightarrow> round_spec \<Rightarrow> instant \<Rightarrow> string" where
  "root_description c r deadline = ''Research round '' @ rs_round_id r @ '' for case '' @ rc_case_id c @
     ''. Technique: '' @ rs_technique r @ ''. Priority: '' @ int_str (rs_priority r) @ ''. Hypothesis: '' @ rs_hypothesis r @
     ''. Expected evidence atoms: '' @ join_list '', '' (rs_atoms r) @ ''. Falsification criteria: '' @ rs_falsification r @
     ''. Disclosure deadline: '' @ isoformat deadline @
     ''. Use immutable public sources and bounded local/synthetic experiments only. '' @
     ''Do not execute downloaded or historical code, handle wallet/key material, '' @
     ''or infer exposure of individual wallets. Agent output is not a confirmed finding.''"

definition root_args :: "string \<Rightarrow> string \<Rightarrow> string \<Rightarrow> string option \<Rightarrow> add_args" where
  "root_args description role c r = \<lparr>ag_description = description, ag_role = Some role, ag_parent = None, ag_intent = None,
     ag_allow_failed_parent = False, ag_evaluation_only = False, ag_evaluation_id = None, ag_case_id = Some c, ag_round_id = r\<rparr>"

definition create_round_root :: "environment \<Rightarrow> research_case \<Rightarrow> round_spec \<Rightarrow> unit pipe" where
  "create_round_root env c r =
    bindS (draw (env_clock env)) (\<lambda>started.
    bindS (add_days started (rs_deadline_days r)) (\<lambda>deadline.
    bindS (add_task env (root_args (root_description c r deadline) (root_role (rs_technique r)) (rc_case_id c)
        (Some (rs_round_id r)))) (\<lambda>_.
      create_timeline (rs_round_id r) (rc_case_id c) (rs_technique r) started deadline)))"

section \<open>The verdict of a round\<close>

definition round_verdicts :: "string list" where
  "round_verdicts = [''REPRODUCED'', ''NOT_REPRODUCED'', ''INCONCLUSIVE'', ''OUT_OF_SCOPE'']"

definition normalize_verdict :: "string \<Rightarrow> string" where
  "normalize_verdict v = (let n = map (\<lambda>c. if c = CHR ''-'' \<or> c = CHR '' '' then CHR ''_'' else c) (upper (strip v))
     in if n \<in> set round_verdicts then n else ''INCONCLUSIVE'')"

text \<open>The first result, latest task first, with a validation decides.\<close>

fun verdict_of :: "json option list \<Rightarrow> string" where
  "verdict_of [] = ''INCONCLUSIVE''"
| "verdict_of (r # rs) =
    (case r of
       Some (JObj kvs) \<Rightarrow>
         (case json_get kvs ''research_validation'' of
            JObj v \<Rightarrow>
              (let verdict = (if truthy (json_get v ''verdict'') then json_get v ''verdict'' else JStr ''INCONCLUSIVE'')
               in case verdict of JStr s \<Rightarrow> normalize_verdict s | _ \<Rightarrow> ''INCONCLUSIVE'')
          | _ \<Rightarrow> verdict_of rs)
     | _ \<Rightarrow> verdict_of rs)"

definition round_verdict :: "queue_db \<Rightarrow> string \<Rightarrow> string" where
  "round_verdict db root = verdict_of (map tk_result (sort_key (\<lambda>t. - tk_created_at t)
     (filter (\<lambda>t. tk_id t = root \<or> tk_parent t = Some root) (qd_tasks db))))"

section \<open>Deadlines and branches\<close>

definition check_round_deadlines :: "environment \<Rightarrow> string \<Rightarrow> unit pipe" where
  "check_round_deadlines env c =
    bindS (draw (env_clock env)) (\<lambda>now.
    bindS (ask (\<lambda>db. expired_rounds db now)) (\<lambda>rows.
      forS (\<lambda>r. if rt_case_id r \<noteq> c \<or> rt_round_id r = [] then retS ()
                else bindS (request_review env c (''deadline_exceeded:'' @ rt_round_id r)) (\<lambda>_. retS ())) rows))"

text \<open>The recursive query, which unites the children of what it found.\<close>

definition branch_step :: "task list \<Rightarrow> string \<Rightarrow> string list \<Rightarrow> string list" where
  "branch_step ts root ids = map tk_id (filter (\<lambda>t. tk_id t \<in> set ids \<or> tk_parent t = Some root \<or>
     (case tk_parent t of None \<Rightarrow> False | Some p \<Rightarrow> p \<in> set ids)) ts)"

definition descendants :: "task list \<Rightarrow> string \<Rightarrow> string list" where
  "descendants ts root = (branch_step ts root ^^ length ts) []"

definition has_active_descendants :: "queue_db \<Rightarrow> string \<Rightarrow> bool" where
  "has_active_descendants db root \<longleftrightarrow>
     list_ex (\<lambda>t. tk_id t \<in> set (descendants (qd_tasks db) root) \<and> tk_status t \<noteq> Completed \<and> tk_status t \<noteq> Failed) (qd_tasks db)"

definition case_roots :: "queue_db \<Rightarrow> string \<Rightarrow> task list" where
  "case_roots db c = sort_key (\<lambda>t. (tk_created_at t, tk_id t)) (filter (\<lambda>t. tk_parent t = None) (case_tasks db c))"

definition spec_of :: "round_spec list \<Rightarrow> string option \<Rightarrow> round_spec option" where
  "spec_of rounds i = (case i of None \<Rightarrow> None | Some r \<Rightarrow> lookup_row rs_round_id rounds r)"

text \<open>A missing timeline row is rebuilt from the root's creation.\<close>

definition repair_timeline :: "string \<Rightarrow> round_spec list \<Rightarrow> task \<Rightarrow> unit pipe" where
  "repair_timeline c rounds t =
    (case spec_of rounds (tk_round_id t) of
       None \<Rightarrow> retS ()
     | Some spec \<Rightarrow>
        bindS (ask (\<lambda>db. get_round db c (rs_round_id spec))) (\<lambda>row.
          if row \<noteq> None then retS ()
          else bindS (add_days (tk_created_at t) (rs_deadline_days spec)) (\<lambda>deadline.
            create_timeline (rs_round_id spec) c (rs_technique spec) (tk_created_at t) deadline)))"

definition by_priority :: "round_spec list \<Rightarrow> round_spec list" where
  "by_priority rounds = sort_key (\<lambda>r. (- rs_priority r, rs_round_id r)) rounds"

definition missing_specs :: "round_spec list \<Rightarrow> task list \<Rightarrow> round_spec list" where
  "missing_specs rounds roots = filter (\<lambda>r. Some (rs_round_id r) \<notin> set (map tk_round_id roots)) rounds"

section \<open>Reconciling the roots\<close>

text \<open>What the loop over the roots collects.\<close>

record reconciliation =
  rq_active :: bool
  rq_failed_rounds :: "string list"
  rq_failed_roots :: "string list"
  rq_all_completed :: bool

definition close_root :: "environment \<Rightarrow> string \<Rightarrow> task \<Rightarrow> reconciliation \<Rightarrow> reconciliation pipe" where
  "close_root env c t q =
    bindS (draw (env_clock env)) (\<lambda>now.
      if tk_status t = Completed
      then (if given (tk_round_id t)
            then bindS (ask (\<lambda>db. round_verdict db (tk_id t))) (\<lambda>v.
                   bindS (run_db (\<lambda>db. Inr (complete_round db c (the (tk_round_id t)) now v))) (\<lambda>_. retS q))
            else retS q)
      else (if given (tk_round_id t)
            then bindS (run_db (\<lambda>db. Inr (fail_round db c (the (tk_round_id t)) now))) (\<lambda>_.
                   retS (q\<lparr>rq_all_completed := False, rq_failed_rounds := rq_failed_rounds q @ [the (tk_round_id t)]\<rparr>))
            else retS (q\<lparr>rq_all_completed := False, rq_failed_roots := rq_failed_roots q @ [tk_id t]\<rparr>)))"

fun reconcile_roots :: "environment \<Rightarrow> string \<Rightarrow> task list \<Rightarrow> reconciliation \<Rightarrow> reconciliation pipe" where
  "reconcile_roots env c [] q = retS q"
| "reconcile_roots env c (t # ts) q =
    bindS (ask (\<lambda>db. has_active_descendants db (tk_id t))) (\<lambda>busy.
      if (tk_status t \<noteq> Completed \<and> tk_status t \<noteq> Failed) \<or> busy
      then reconcile_roots env c ts (q\<lparr>rq_active := True, rq_all_completed := False\<rparr>)
      else
        bindS (ask (\<lambda>db. case task_row db (tk_id t) of None \<Rightarrow> None | Some r \<Rightarrow> tk_planner_decision r)) (\<lambda>decision.
          if tk_status t = Completed \<and> decision = None
          then reconcile_roots env c ts (q\<lparr>rq_active := True, rq_all_completed := False\<rparr>)
          else bindS (close_root env c t q) (\<lambda>q'. reconcile_roots env c ts q')))"

definition start_reconciliation :: reconciliation where
  "start_reconciliation = \<lparr>rq_active = False, rq_failed_rounds = [], rq_failed_roots = [], rq_all_completed = True\<rparr>"

text \<open>The outcome of one case: bootstrap returns, or goes on to the next case.\<close>

datatype case_outcome = Return bool | Continue bool

definition review_outcome :: "environment \<Rightarrow> string \<Rightarrow> nat \<Rightarrow> reconciliation \<Rightarrow> case_outcome pipe" where
  "review_outcome env c roots q =
    bindS (forS (\<lambda>r. bindS (request_review env c (''round_failed:'' @ r)) (\<lambda>_. retS ())) (rq_failed_rounds q)) (\<lambda>_.
    bindS (forS (\<lambda>r. bindS (request_review env c (''branch_failed:'' @ r)) (\<lambda>_. retS ())) (rq_failed_roots q)) (\<lambda>_.
      if rq_active q then bindS (set_idle False) (\<lambda>_. retS (Continue True))
      else if \<not> rq_all_completed q then retS (Continue False)
      else bindS (request_review env c (''all_branches_terminal:roots='' @ nat_str roots)) (\<lambda>_. retS (Continue False))))"

definition create_round_roots :: "environment \<Rightarrow> research_case \<Rightarrow> round_spec list \<Rightarrow> case_outcome pipe" where
  "create_round_roots env rc specs =
    bindS (forS (create_round_root env rc) (by_priority specs)) (\<lambda>_. bindS (set_idle False) (\<lambda>_. retS (Return True)))"

definition case_description :: "research_case \<Rightarrow> string" where
  "case_description c = ''Begin bounded EVM Key Forensics for registered case '' @ rc_case_id c @
     ''. Target: '' @ rc_target_repository c @ ''@'' @ rc_target_commit c @ ''. Approved scope: '' @ rc_scope_url c @
     '' (SHA-256 '' @ rc_scope_digest c @ ''). Hypothesis: '' @ rc_hypothesis c @
     ''. Use immutable public sources and record provenance. Do not execute downloaded or historical code, '' @
     ''handle wallet/key material, or infer exposure of individual wallets.''"

definition bootstrap_new_case :: "environment \<Rightarrow> string \<Rightarrow> research_case \<Rightarrow> case_outcome pipe" where
  "bootstrap_new_case env c rc =
    (if rc_status rc \<noteq> READY \<and> rc_status rc \<noteq> CASE_RUNNING
     then bindS (request_review env c (''case_terminal_no_root:'' @ case_status_value (rc_status rc))) (\<lambda>_. retS (Continue False))
     else if rc_rounds rc \<noteq> [] then create_round_roots env rc (rc_rounds rc)
     else bindS (add_task env (root_args (case_description rc) ''source_researcher'' c None)) (\<lambda>_.
            bindS (set_idle False) (\<lambda>_. retS (Return True))))"

definition reconcile_case :: "environment \<Rightarrow> string \<Rightarrow> research_case \<Rightarrow> task list \<Rightarrow> case_outcome pipe" where
  "reconcile_case env c rc roots =
    bindS (if rc_rounds rc = [] then retS ()
           else forS (repair_timeline c (rc_rounds rc)) roots) (\<lambda>_.
      if missing_specs (rc_rounds rc) roots \<noteq> [] then create_round_roots env rc (missing_specs (rc_rounds rc) roots)
      else bindS (reconcile_roots env c roots start_reconciliation) (review_outcome env c (length roots)))"

definition bootstrap_case :: "environment \<Rightarrow> string \<Rightarrow> case_outcome pipe" where
  "bootstrap_case env c =
    bindS (ask (\<lambda>db. get_research_case db c)) (\<lambda>rc.
      case rc of
        None \<Rightarrow> retS (Continue False)
      | Some rc \<Rightarrow>
          bindS (check_round_deadlines env c) (\<lambda>_.
          bindS (ask (\<lambda>db. case_roots db c)) (\<lambda>roots.
            if roots \<noteq> [] then reconcile_case env c rc roots else bootstrap_new_case env c rc)))"

fun bootstrap_loop :: "environment \<Rightarrow> string list \<Rightarrow> bool \<Rightarrow> bool pipe" where
  "bootstrap_loop env [] busy =
    bindS (readS (\<lambda>s. Inr (pl_idle_logged s))) (\<lambda>logged.
      if \<not> busy \<and> \<not> logged then bindS (set_idle True) (\<lambda>_. retS False) else retS False)"
| "bootstrap_loop env (c # cs) busy =
    bindS (bootstrap_case env c) (\<lambda>out.
      case out of Return b \<Rightarrow> retS b | Continue a \<Rightarrow> bootstrap_loop env cs (busy \<or> a))"

text \<open>Bootstrap with at least one registered case, latest registration first.\<close>

definition bootstrap_cases :: "environment \<Rightarrow> bool pipe" where
  "bootstrap_cases env =
    bindS (ask (\<lambda>db. map cr_case_id (sort_key (\<lambda>r. - cr_registered_at r) (qd_cases db)))) (\<lambda>cs. bootstrap_loop env cs False)"

end
