(* ===== verification/DisclosureRuns.thy ===== *)
theory DisclosureRuns
  imports Disclosure TaskRuns
begin

text \<open>
  Runs of the disclosure timeline and of the human reviews of \<^verbatim>\<open>src/shared/queue.py\<close>: how
  the row of a round may change over time, as an interpretation of the lifecycle contract on
  whole rows, the reviews, and the reading of the deadline query on the stored texts.
\<close>

section \<open>Operations\<close>

datatype disclosure_op =
    CreateRound string string string instant instant
  | CompleteRound string string instant string
  | FailRound string string instant
  | GrantExtension string string string int instant
  | CreateReview string string "string option" string instant
  | ResolveReview string string instant

fun disclosure_step :: "disclosure_op \<Rightarrow> queue_db \<Rightarrow> queue_db" where
  "disclosure_step (CreateRound r c technique started deadline) db =
     (case create_round_transparency db r c technique started deadline of Inl _ \<Rightarrow> db | Inr db' \<Rightarrow> db')"
| "disclosure_step (CompleteRound c i at v) db = snd (complete_round db c i at v)"
| "disclosure_step (FailRound c i at) db = snd (fail_round db c i at)"
| "disclosure_step (GrantExtension c i reason days now) db = snd (grant_extension db c i reason days now)"
| "disclosure_step (CreateReview c reason t new_id now) db =
     (case create_human_review db c reason t new_id now of Inl _ \<Rightarrow> db | Inr (_, db') \<Rightarrow> db')"
| "disclosure_step (ResolveReview i resolution now) db =
     (case resolve_human_review db i resolution now of Inl _ \<Rightarrow> db | Inr (_, db') \<Rightarrow> db')"

section \<open>The history of a round\<close>

definition round_same :: "round_row \<Rightarrow> round_row \<Rightarrow> bool" where
  "round_same r r' \<longleftrightarrow> round_key r' = round_key r \<and> rt_technique r' = rt_technique r \<and> rt_started_at r' = rt_started_at r"

definition round_extends :: "round_row \<Rightarrow> round_row \<Rightarrow> bool" where
  "round_extends r r' \<longleftrightarrow> round_same r r' \<and> rt_status r = RoundOpen \<and> rt_status r' = RoundExtended \<and>
     rt_deadline r < rt_deadline r' \<and> rt_extension_granted_at r = None \<and> rt_extension_granted_at r' \<noteq> None \<and>
     rt_completed_at r' = rt_completed_at r \<and> rt_verdict r' = rt_verdict r"

definition round_closes :: "round_row \<Rightarrow> round_row \<Rightarrow> bool" where
  "round_closes r r' \<longleftrightarrow> round_same r r' \<and> round_active r \<and> \<not> round_active r' \<and>
     rt_deadline r' = rt_deadline r \<and> rt_extension_granted_at r' = rt_extension_granted_at r \<and>
     rt_completed_at r' \<noteq> None \<and> rt_verdict r' \<in> {None} \<union> Some ` set allowed_verdicts \<and>
     (rt_status r' = RoundFailed \<longleftrightarrow> rt_verdict r' = None)"

definition round_moves :: "round_row \<Rightarrow> round_row \<Rightarrow> bool" where
  "round_moves r r' \<longleftrightarrow> round_extends r r' \<or> round_closes r r'"

definition round_wf :: "round_row \<Rightarrow> bool" where
  "round_wf r \<longleftrightarrow>
    (case rt_status r of
       RoundOpen \<Rightarrow> rt_extension_granted_at r = None \<and> rt_completed_at r = None \<and> rt_verdict r = None
     | RoundExtended \<Rightarrow> rt_extension_granted_at r \<noteq> None \<and> rt_completed_at r = None \<and> rt_verdict r = None
     | RoundCompleted \<Rightarrow> rt_completed_at r \<noteq> None \<and> rt_verdict r \<in> Some ` set allowed_verdicts
     | RoundFailed \<Rightarrow> rt_completed_at r \<noteq> None \<and> rt_verdict r = None)"

definition rounds_inv :: "queue_db \<Rightarrow> bool" where
  "rounds_inv db \<longleftrightarrow> key_unique round_key (qd_rounds db) \<and> (\<forall>r \<in> set (qd_rounds db). round_wf r)"

lemma stored_verdict_allowed: "stored_verdict v \<in> set allowed_verdicts"
  by (simp add: stored_verdict_def allowed_verdicts_def)

lemma round_moves_wf: "round_moves r r' \<Longrightarrow> round_wf r \<Longrightarrow> round_wf r'"
  unfolding round_moves_def round_extends_def round_closes_def round_wf_def round_active_def
  by (cases "rt_status r"; cases "rt_status r'") auto

text \<open>Every operation appends a row or rewrites rows along a move.\<close>

lemma complete_row_moves:
  "round_active r \<Longrightarrow> round_moves r (r\<lparr>rt_status := RoundCompleted, rt_completed_at := Some at, rt_verdict := Some (stored_verdict v)\<rparr>)"
  using stored_verdict_allowed [of v]
  by (simp add: round_moves_def round_closes_def round_same_def round_key_def round_active_def)

lemma fail_row_moves:
  "round_active r \<Longrightarrow> round_moves r (r\<lparr>rt_status := RoundFailed, rt_completed_at := Some at, rt_verdict := None\<rparr>)"
  by (simp add: round_moves_def round_closes_def round_same_def round_key_def round_active_def)

lemma extend_row_moves:
  "rt_status r = RoundOpen \<Longrightarrow> rt_extension_granted_at r = None \<Longrightarrow> rt_deadline r < d \<Longrightarrow>
   round_moves r (r\<lparr>rt_deadline := d, rt_status := RoundExtended, rt_extension_granted_at := Some now, rt_extension_reason := x\<rparr>)"
  by (simp add: round_moves_def round_extends_def round_same_def round_key_def)

lemma grant_extension_shape:
  assumes uid: "key_unique round_key (qd_rounds db)" and changed: "snd (grant_extension db c i reason days now) \<noteq> db"
  obtains d where "qd_rounds (snd (grant_extension db c i reason days now)) =
      update_where (extendable c i) (\<lambda>r. r\<lparr>rt_deadline := d, rt_status := RoundExtended,
        rt_extension_granted_at := Some now, rt_extension_reason := Some (take 1000 (strip reason))\<rparr>) (qd_rounds db)"
    and "\<And>r. r \<in> set (qd_rounds db) \<Longrightarrow> extendable c i r \<Longrightarrow> d = rt_deadline r + days * day \<and> 0 < days \<and> d \<le> datetime_max"
proof -
  from changed obtain row where row: "find (\<lambda>r. round_key r = (c, i) \<and> rt_status r = RoundOpen) (qd_rounds db) = Some row"
    and days: "0 < days" "rt_deadline row + days * day \<le> datetime_max"
    and eq: "snd (grant_extension db c i reason days now) = db\<lparr>qd_rounds := update_where (extendable c i)
      (\<lambda>r. r\<lparr>rt_deadline := rt_deadline row + days * day, rt_status := RoundExtended,
        rt_extension_granted_at := Some now, rt_extension_reason := Some (take 1000 (strip reason))\<rparr>) (qd_rounds db)\<rparr>"
    by (auto simp: grant_extension_def split: if_splits option.splits)
  from row have mem: "row \<in> set (qd_rounds db)" "round_key row = (c, i)"
    by (auto simp: find_Some_iff)
  have "r = row" if "r \<in> set (qd_rounds db)" "extendable c i r" for r
    using key_unique_eq [OF uid that(1) mem(1)] mem(2) that(2) by (simp add: extendable_def)
  with days eq show thesis by (intro that) auto
qed

definition appends_round :: "queue_db \<Rightarrow> queue_db \<Rightarrow> bool" where
  "appends_round db db' \<longleftrightarrow> (\<exists>r. qd_rounds db' = qd_rounds db @ [r] \<and> round_wf r \<and>
     lookup_row round_key (qd_rounds db) (round_key r) = None)"

definition moves_rounds :: "queue_db \<Rightarrow> queue_db \<Rightarrow> bool" where
  "moves_rounds db db' \<longleftrightarrow> (\<exists>p f. qd_rounds db' = update_where p f (qd_rounds db) \<and>
     (\<forall>r \<in> set (qd_rounds db). p r \<longrightarrow> round_moves r (f r)))"

lemma moves_rounds_same: "qd_rounds db' = qd_rounds db \<Longrightarrow> moves_rounds db db'"
  unfolding moves_rounds_def
  by (rule exI [of _ "\<lambda>_. False"], rule exI [of _ id]) (simp add: update_where_noop)

lemma moves_roundsI:
  "qd_rounds db' = update_where p f (qd_rounds db) \<Longrightarrow> (\<And>r. r \<in> set (qd_rounds db) \<Longrightarrow> p r \<Longrightarrow> round_moves r (f r)) \<Longrightarrow>
   moves_rounds db db'"
  unfolding moves_rounds_def by blast

lemma complete_shape: "moves_rounds db (snd (complete_round db c i at v))"
proof (cases "blank c \<or> blank i")
  case False
  then show ?thesis
    by (intro moves_roundsI [of _ "active_round c i"
        "\<lambda>r. r\<lparr>rt_status := RoundCompleted, rt_completed_at := Some at, rt_verdict := Some (stored_verdict v)\<rparr>"])
      (simp_all add: complete_round_def complete_row_moves)
qed (simp add: complete_round_def moves_rounds_same)

lemma fail_shape: "moves_rounds db (snd (fail_round db c i at))"
proof (cases "blank c \<or> blank i")
  case False
  then show ?thesis
    by (intro moves_roundsI [of _ "active_round c i"
        "\<lambda>r. r\<lparr>rt_status := RoundFailed, rt_completed_at := Some at, rt_verdict := None\<rparr>"])
      (simp_all add: fail_round_def fail_row_moves)
qed (simp add: fail_round_def moves_rounds_same)

lemma extension_shape:
  assumes "key_unique round_key (qd_rounds db)"
  shows "moves_rounds db (snd (grant_extension db c i reason days now))"
proof (cases "snd (grant_extension db c i reason days now) = db")
  case False
  show ?thesis
  proof (rule grant_extension_shape [OF assms False])
    fix d assume eq: "qd_rounds (snd (grant_extension db c i reason days now)) =
        update_where (extendable c i) (\<lambda>r. r\<lparr>rt_deadline := d, rt_status := RoundExtended,
          rt_extension_granted_at := Some now, rt_extension_reason := Some (take 1000 (strip reason))\<rparr>) (qd_rounds db)"
      and d: "\<And>r. r \<in> set (qd_rounds db) \<Longrightarrow> extendable c i r \<Longrightarrow> d = rt_deadline r + days * day \<and> 0 < days \<and> d \<le> datetime_max"
    show ?thesis
    proof (rule moves_roundsI [OF eq])
      fix r assume r: "r \<in> set (qd_rounds db)" "extendable c i r"
      with d [OF r] have "rt_deadline r < d" by (simp add: day_def minute_def)
      with r(2) show "round_moves r (r\<lparr>rt_deadline := d, rt_status := RoundExtended,
          rt_extension_granted_at := Some now, rt_extension_reason := Some (take 1000 (strip reason))\<rparr>)"
        by (intro extend_row_moves) (simp_all add: extendable_def)
    qed
  qed
qed (simp add: moves_rounds_same)

lemma create_shape:
  "create_round_transparency db r c technique started deadline = Inr db' \<Longrightarrow> appends_round db db' \<or> moves_rounds db db'"
  by (auto simp: create_round_transparency_def appends_round_def get_round_def new_round_row_def round_wf_def
      round_key_def moves_rounds_same split: if_splits)

lemma disclosure_step_shape:
  assumes "rounds_inv db"
  shows "appends_round db (disclosure_step x db) \<or> moves_rounds db (disclosure_step x db)"
proof (cases x)
  case (CreateRound r c technique started deadline)
  then show ?thesis
    using create_shape [of db r c technique started deadline]
    by (cases "create_round_transparency db r c technique started deadline") (auto simp: moves_rounds_same)
next
  case (GrantExtension c i reason days now)
  with extension_shape assms show ?thesis by (simp add: rounds_inv_def)
next
  case (CreateReview c reason t new_id now)
  then show ?thesis
    by (auto intro!: moves_rounds_same simp: create_human_review_def split: if_splits list.splits sum.splits option.splits)
next
  case (ResolveReview i resolution now)
  then show ?thesis
    by (auto intro!: moves_rounds_same simp: resolve_human_review_def Let_def split: if_splits)
qed (use complete_shape fail_shape in simp_all)

lemma round_moves_key: "round_moves r r' \<Longrightarrow> round_key r' = round_key r"
  by (auto simp: round_moves_def round_extends_def round_closes_def round_same_def)

lemma disclosure_step_inv:
  assumes inv: "rounds_inv db"
  shows "rounds_inv (disclosure_step x db)"
  using disclosure_step_shape [OF inv, of x]
proof
  assume "appends_round db (disclosure_step x db)"
  with inv show ?thesis by (auto simp: appends_round_def rounds_inv_def)
next
  assume "moves_rounds db (disclosure_step x db)"
  then obtain p f where eq: "qd_rounds (disclosure_step x db) = update_where p f (qd_rounds db)"
    and mv: "\<And>r. r \<in> set (qd_rounds db) \<Longrightarrow> p r \<Longrightarrow> round_moves r (f r)"
    by (auto simp: moves_rounds_def)
  have "map round_key (update_where p f (qd_rounds db)) = map round_key (qd_rounds db)"
    unfolding update_where_def using mv by (auto dest: round_moves_key)
  then have "key_unique round_key (update_where p f (qd_rounds db))"
    using inv by (simp add: rounds_inv_def key_unique_def)
  moreover have "round_wf (f r)" if "r \<in> set (qd_rounds db)" "p r" for r
    by (rule round_moves_wf [OF mv [OF that]]) (use inv that in \<open>simp add: rounds_inv_def\<close>)
  ultimately show ?thesis
    using inv by (auto simp: rounds_inv_def eq elim!: set_update_whereE)
qed

lemma disclosure_step_moves:
  assumes inv: "rounds_inv db" and row: "lookup_row round_key (qd_rounds db) k = Some r"
  shows "\<exists>r'. lookup_row round_key (qd_rounds (disclosure_step x db)) k = Some r' \<and> (r' = r \<or> round_moves r r')"
  using disclosure_step_shape [OF inv, of x]
proof
  assume "appends_round db (disclosure_step x db)"
  with row show ?thesis by (auto simp: appends_round_def lookup_row_snoc)
next
  assume "moves_rounds db (disclosure_step x db)"
  then obtain p f where eq: "qd_rounds (disclosure_step x db) = update_where p f (qd_rounds db)"
    and mv: "\<And>r. r \<in> set (qd_rounds db) \<Longrightarrow> p r \<Longrightarrow> round_moves r (f r)"
    by (auto simp: moves_rounds_def)
  have r: "r \<in> set (qd_rounds db)" "round_key r = k" using row by (auto dest: lookup_row_SomeD)
  let ?r = "if p r then f r else r"
  have "?r \<in> set (qd_rounds (disclosure_step x db))" using r(1) by (auto simp: eq update_where_def)
  moreover have "round_key ?r = k" using r(2) round_moves_key [OF mv [OF r(1)]] by simp
  moreover have "key_unique round_key (qd_rounds (disclosure_step x db))"
    using disclosure_step_inv [OF inv] by (simp add: rounds_inv_def)
  ultimately have "lookup_row round_key (qd_rounds (disclosure_step x db)) k = Some ?r"
    using lookup_row_mem [of round_key _ ?r] by simp
  with mv [OF r(1)] show ?thesis by simp
qed

interpretation rounds: lifecycle "\<lambda>db. lookup_row round_key (qd_rounds db)" round_moves "\<lambda>_ _. True"
    disclosure_step rounds_inv
  by unfold_locales (use disclosure_step_inv disclosure_step_moves in blast)+


text \<open>What may have happened to a row over any run.\<close>

definition round_later :: "round_row \<Rightarrow> round_row \<Rightarrow> bool" where
  "round_later r r' \<longleftrightarrow> round_same r r' \<and> rt_deadline r \<le> rt_deadline r' \<and> (\<not> round_active r \<longrightarrow> r' = r) \<and>
     (rt_extension_granted_at r \<noteq> None \<longrightarrow> rt_deadline r' = rt_deadline r \<and>
        rt_extension_granted_at r' = rt_extension_granted_at r) \<and>
     (rt_deadline r' \<noteq> rt_deadline r \<longrightarrow> rt_extension_granted_at r' \<noteq> None)"

lemma round_later_moves: "round_later r x \<Longrightarrow> round_moves x y \<Longrightarrow> round_later r y"
  unfolding round_later_def round_moves_def round_extends_def round_closes_def round_same_def round_active_def
  by (elim conjE disjE; intro conjI impI) (auto simp: round_active_def)

lemma round_moves_later: "round_moves\<^sup>*\<^sup>* r r' \<Longrightarrow> round_later r r'"
proof (induction rule: rtranclp_induct)
  case base
  show ?case by (simp add: round_later_def round_same_def)
qed (rule round_later_moves)

text \<open>
  C39: Whatever operations follow, a disclosure round keeps its identity, technique and start;
  a closed round keeps its whole row, outcome and verdict included; the deadline never moves
  back, moves only by the one extension, and never again after it was granted.
\<close>

theorem disclosure_round_history:
  assumes "rounds_inv db" and "get_round db c i = Some r"
  shows "\<exists>r'. get_round (fold disclosure_step ops db) c i = Some r' \<and> round_later r r'"
  using rounds.run_status [OF assms(1) run_ok_True assms(2) [unfolded get_round_def], of ops] round_moves_later
  by (fastforce simp: get_round_def)

definition small_rounds :: queue_db where
  "small_rounds = empty_queue\<lparr>qd_rounds := [new_round_row ''r1'' ''c1'' ''source_pattern'' 0 day]\<rparr>"

lemma disclosure_round_history_witness:
  "round_later (new_round_row ''r1'' ''c1'' ''source_pattern'' 0 day)
     (the (get_round (fold disclosure_step [GrantExtension ''c1'' ''r1'' ''more'' 14 5,
        CompleteRound ''c1'' ''r1'' 9 ''reproduced'', GrantExtension ''c1'' ''r1'' ''again'' 14 10] small_rounds) ''c1'' ''r1''))"
proof -
  have inv: "rounds_inv small_rounds"
    by (simp add: rounds_inv_def small_rounds_def empty_queue_def key_unique_def round_wf_def new_round_row_def)
  have row: "get_round small_rounds ''c1'' ''r1'' = Some (new_round_row ''r1'' ''c1'' ''source_pattern'' 0 day)" by code_simp
  obtain r' where "get_round (fold disclosure_step [GrantExtension ''c1'' ''r1'' ''more'' 14 5,
        CompleteRound ''c1'' ''r1'' 9 ''reproduced'', GrantExtension ''c1'' ''r1'' ''again'' 14 10] small_rounds) ''c1'' ''r1'' = Some r'"
      "round_later (new_round_row ''r1'' ''c1'' ''source_pattern'' 0 day) r'"
    using disclosure_round_history [OF inv row] by blast
  then show ?thesis by simp
qed

section \<open>Deadlines as stored texts\<close>

text \<open>
  For timestamps within the range of a datetime the overdue rounds are those the code's
  query finds on the stored texts: those whose deadline text is less than the text of now,
  ordered by the text of the deadline and the round id.
\<close>

theorem expired_rounds_on_texts:
  assumes "\<And>r. r \<in> set (qd_rounds db) \<Longrightarrow> datetime_min \<le> rt_deadline r \<and> rt_deadline r \<le> datetime_max"
    and "datetime_min \<le> now" and "now \<le> datetime_max"
  shows "expired_rounds db now = sort_key (\<lambda>r. (isoformat (rt_deadline r), rt_round_id r))
    (filter (\<lambda>r. round_active r \<and> isoformat (rt_deadline r) < isoformat now) (qd_rounds db))"
proof -
  have flt: "filter (\<lambda>r. round_active r \<and> isoformat (rt_deadline r) < isoformat now) (qd_rounds db) =
      filter (\<lambda>r. round_active r \<and> rt_deadline r < now) (qd_rounds db)"
    using assms by (intro filter_cong) (auto simp: isoformat_less_iff)
  have less: "isoformat (rt_deadline x) < isoformat (rt_deadline y) \<longleftrightarrow> rt_deadline x < rt_deadline y"
    if "x \<in> set (qd_rounds db)" "y \<in> set (qd_rounds db)" for x y
    using assms(1) [OF that(1)] assms(1) [OF that(2)] by (intro isoformat_less_iff) auto
  have "((isoformat (rt_deadline x), rt_round_id x) \<le> (isoformat (rt_deadline y), rt_round_id y)) =
      ((rt_deadline x, rt_round_id x) \<le> (rt_deadline y, rt_round_id y))"
    if "x \<in> set (qd_rounds db)" "y \<in> set (qd_rounds db)" for x y
    using less [OF that] less [OF that(2,1)] by (auto simp: less_eq_prod_def not_less order.order_iff_strict)
  then show ?thesis
    unfolding flt unfolding expired_rounds_def by (intro sort_key_order_cong) auto
qed

lemma expired_rounds_on_texts_witness:
  "isoformat day < isoformat (2 * day) \<and> expired_rounds small_rounds (2 * day) =
     [new_round_row ''r1'' ''c1'' ''source_pattern'' 0 day]"
proof -
  have bounds: "datetime_min \<le> 2 * day" "2 * day \<le> datetime_max" "datetime_min \<le> day" "day \<le> datetime_max"
    by (simp_all add: datetime_min_def datetime_max_def day_def minute_def day_us_def second_us_def epoch_ordinal_def
        days_before_year_def)
  have less: "isoformat day < isoformat (2 * day)"
    using isoformat_less [of day "2 * day"] bounds by (simp add: day_def minute_def)
  have "expired_rounds small_rounds (2 * day) = sort_key (\<lambda>r. (isoformat (rt_deadline r), rt_round_id r))
      (filter (\<lambda>r. round_active r \<and> isoformat (rt_deadline r) < isoformat (2 * day)) (qd_rounds small_rounds))"
    by (rule expired_rounds_on_texts) (use bounds in \<open>auto simp: small_rounds_def new_round_row_def\<close>)
  with less show ?thesis
    by (simp add: small_rounds_def new_round_row_def round_active_def)
qed


section \<open>Reviews\<close>

text \<open>What is asked of a run: a fresh review id (uuid4) and reasons that fit the stored column.\<close>

fun review_ok :: "disclosure_op \<Rightarrow> queue_db \<Rightarrow> bool" where
  "review_ok (CreateReview c reason t new_id now) db =
     (lookup_row hv_id (qd_reviews db) new_id = None \<and> utf8_length reason \<le> max_description_bytes)"
| "review_ok _ db = True"

definition review_slot :: "human_review \<Rightarrow> string \<times> string" where
  "review_slot h = (hv_case_id h, hv_reason h)"

definition review_open :: "human_review \<Rightarrow> bool" where
  "review_open h \<longleftrightarrow> hv_status h = ''OPEN''"

definition reviews_inv :: "queue_db \<Rightarrow> bool" where
  "reviews_inv db \<longleftrightarrow> key_unique hv_id (qd_reviews db) \<and> distinct (map review_slot (filter review_open (qd_reviews db)))"

definition review_moves :: "human_review \<Rightarrow> human_review \<Rightarrow> bool" where
  "review_moves h h' \<longleftrightarrow> review_open h \<and> hv_status h' = ''RESOLVED'' \<and> hv_id h' = hv_id h \<and>
     review_slot h' = review_slot h \<and> hv_resolved_at h' \<noteq> None \<and> hv_resolution h' \<noteq> None"

lemma open_reviews_slot:
  "sort_key k (filter (\<lambda>h. hv_reason h = reason) (open_reviews db c)) = [] \<longleftrightarrow>
   (c, reason) \<notin> review_slot ` set (filter review_open (qd_reviews db))"
  by (auto simp: open_reviews_def review_slot_def review_open_def filter_empty_conv)

lemma create_review_shape:
  assumes "create_human_review db c reason t new_id now = Inr (i, db')"
  shows "(db' = db \<and> (\<exists>h \<in> set (open_reviews db c). hv_id h = i \<and> hv_reason h = reason)) \<or>
    (i = new_id \<and> lookup_row hv_id (qd_reviews db) i = None \<and>
     (c, reason) \<notin> review_slot ` set (filter review_open (qd_reviews db)) \<and>
     (\<exists>h. db' = db\<lparr>qd_reviews := qd_reviews db @ [h]\<rparr> \<and> hv_id h = i \<and> review_open h \<and>
        review_slot h = (c, bounded_description reason)))"
proof (cases "sort_key (\<lambda>h. (hv_created_at h, hv_id h)) (filter (\<lambda>h. hv_reason h = reason) (open_reviews db c))")
  case Nil
  with assms open_reviews_slot [of _ reason db c] show ?thesis
    by (auto simp: create_human_review_def review_open_def review_slot_def split: if_splits)
next
  case (Cons h hs)
  then have "h \<in> set (sort_key (\<lambda>h. (hv_created_at h, hv_id h)) (filter (\<lambda>h. hv_reason h = reason) (open_reviews db c)))" by simp
  then have "h \<in> set (open_reviews db c)" "hv_reason h = reason" by simp_all
  moreover from Cons assms have "db' = db" "i = hv_id h" by (auto simp: create_human_review_def split: if_splits)
  ultimately show ?thesis by blast
qed

lemma review_step_cases:
  assumes "review_ok x db"
  obtains "qd_reviews (disclosure_step x db) = qd_reviews db"
  | h where "qd_reviews (disclosure_step x db) = qd_reviews db @ [h]" and "lookup_row hv_id (qd_reviews db) (hv_id h) = None"
      and "review_open h" and "review_slot h \<notin> review_slot ` set (filter review_open (qd_reviews db))"
  | i f where "qd_reviews (disclosure_step x db) = update_where (\<lambda>h. hv_id h = i \<and> review_open h) f (qd_reviews db)"
      and "\<And>h. review_open h \<Longrightarrow> review_moves h (f h)"
proof (cases x)
  case (CreateReview c reason t new_id now)
  show thesis
  proof (cases "create_human_review db c reason t new_id now")
    case (Inl e)
    with CreateReview show thesis by (intro that(1)) simp
  next
    case (Inr y)
    obtain i db' where y: "y = (i, db')" by (cases y)
    from assms CreateReview have "bounded_description reason = reason" by (simp add: bounded_description_def)
    with create_review_shape [OF Inr [unfolded y]] that(1,2) show thesis
      by (auto simp: CreateReview Inr y)
  qed
next
  case (ResolveReview i resolution now)
  let ?f = "\<lambda>h. h\<lparr>hv_status := ''RESOLVED'', hv_resolved_at := Some now, hv_resolution := Some (bounded_description resolution)\<rparr>"
  show thesis
  proof (cases "blank i \<or> blank resolution")
    case True
    with ResolveReview show thesis by (intro that(1)) (auto simp: resolve_human_review_def)
  next
    case False
    have "review_moves h (?f h)" if "review_open h" for h
      using that by (simp add: review_moves_def review_slot_def)
    with False show thesis
      by (intro that(3) [of i ?f]) (simp_all add: ResolveReview resolve_human_review_def review_open_def Let_def)
  qed
next
  case (CreateRound r c technique started deadline)
  then show thesis by (intro that(1)) (auto simp: create_round_transparency_def split: sum.split if_splits)
qed (auto intro!: that(1) simp: complete_round_def fail_round_def grant_extension_def split: option.splits)

lemma review_moves_id: "review_moves h h' \<Longrightarrow> hv_id h' = hv_id h"
  by (simp add: review_moves_def)

lemma open_slots_resolve:
  assumes "\<And>h. review_open h \<Longrightarrow> review_moves h (f h)" and "distinct (map review_slot (filter review_open hs))"
  shows "distinct (map review_slot (filter review_open (update_where (\<lambda>h. hv_id h = i \<and> review_open h) f hs)))"
proof -
  have "filter review_open (update_where (\<lambda>h. hv_id h = i \<and> review_open h) f hs) =
      filter (\<lambda>h. review_open h \<and> hv_id h \<noteq> i) hs"
    using assms(1) by (induction hs) (auto simp: review_moves_def review_open_def)
  also have "\<dots> = filter (\<lambda>h. hv_id h \<noteq> i) (filter review_open hs)" by (simp add: conj_commute)
  finally show ?thesis using distinct_map_filter [OF assms(2)] by simp
qed

lemma review_step_inv:
  assumes inv: "reviews_inv db" and ok: "review_ok x db"
  shows "reviews_inv (disclosure_step x db)"
  using ok
proof (rule review_step_cases)
  fix i f assume eq: "qd_reviews (disclosure_step x db) = update_where (\<lambda>h. hv_id h = i \<and> review_open h) f (qd_reviews db)"
    and mv: "\<And>h. review_open h \<Longrightarrow> review_moves h (f h)"
  have key: "hv_id (f h) = hv_id h" if "hv_id h = i \<and> review_open h" for h
    using review_moves_id [OF mv] that by blast
  from inv open_slots_resolve [OF mv] show ?thesis
    by (simp add: reviews_inv_def eq key_unique_update_where [where p = "\<lambda>h. hv_id h = i \<and> review_open h" and key = hv_id, OF key])
qed (use inv in \<open>auto simp: reviews_inv_def\<close>)

lemma review_step_moves:
  assumes inv: "reviews_inv db" and ok: "review_ok x db" and row: "lookup_row hv_id (qd_reviews db) k = Some h"
  shows "\<exists>h'. lookup_row hv_id (qd_reviews (disclosure_step x db)) k = Some h' \<and> (h' = h \<or> review_moves h h')"
  using ok
proof (rule review_step_cases)
  fix i f assume eq: "qd_reviews (disclosure_step x db) = update_where (\<lambda>h. hv_id h = i \<and> review_open h) f (qd_reviews db)"
    and mv: "\<And>h. review_open h \<Longrightarrow> review_moves h (f h)"
  have key: "hv_id (f h) = hv_id h" if "hv_id h = i \<and> review_open h" for h
    using review_moves_id [OF mv] that by blast
  from row mv show ?thesis by (simp add: eq lookup_row_update_where [where p = "\<lambda>h. hv_id h = i \<and> review_open h" and key = hv_id, OF key])
qed (use row in \<open>auto simp: lookup_row_snoc\<close>)

interpretation reviews: lifecycle "\<lambda>db. lookup_row hv_id (qd_reviews db)" review_moves review_ok disclosure_step reviews_inv
  by unfold_locales (use review_step_inv review_step_moves in blast)+

text \<open>
  In every reachable state at most one review is open for a case and a reason, and a
  resolved review keeps its row, resolution and time of resolution included, for good.
\<close>

theorem reviews_open_once_resolved_once:
  assumes "reviews_inv db" and "run_ok review_ok disclosure_step ops db"
    and "lookup_row hv_id (qd_reviews db) k = Some h" and "hv_status h = ''RESOLVED''"
  shows "lookup_row hv_id (qd_reviews (fold disclosure_step ops db)) k = Some h \<and>
    (\<forall>a \<in> set (qd_reviews (fold disclosure_step ops db)). \<forall>b \<in> set (qd_reviews (fold disclosure_step ops db)).
       review_open a \<longrightarrow> review_open b \<longrightarrow> review_slot a = review_slot b \<longrightarrow> a = b)"
proof -
  have "terminal_in review_moves h" using assms(4) by (simp add: terminal_in_def review_moves_def review_open_def)
  from reviews.terminal_absorbing [OF assms(1-3) this]
  have "lookup_row hv_id (qd_reviews (fold disclosure_step ops db)) k = Some h" .
  moreover have "reviews_inv (fold disclosure_step ops db)" by (rule reviews.run_inv [OF assms(1,2)])
  then have "inj_on review_slot (set (filter review_open (qd_reviews (fold disclosure_step ops db))))"
    by (simp add: reviews_inv_def distinct_map)
  ultimately show ?thesis by (auto simp: inj_on_def)
qed

lemma reviews_open_once_resolved_once_witness:
  "lookup_row hv_id (qd_reviews (fold disclosure_step [CreateReview ''c1'' ''x'' None ''i2'' 7, ResolveReview ''i1'' ''no'' 8]
      (fold disclosure_step [CreateReview ''c1'' ''x'' None ''i1'' 5, ResolveReview ''i1'' ''done'' 6] empty_queue))) ''i1'' =
   Some \<lparr>hv_id = ''i1'', hv_case_id = ''c1'', hv_task_id = None, hv_reason = ''x'', hv_status = ''RESOLVED'', hv_created_at = 5,
     hv_resolved_at = Some 6, hv_resolution = Some ''done''\<rparr>"
proof -
  let ?ops = "[CreateReview ''c1'' ''x'' None ''i2'' 7, ResolveReview ''i1'' ''no'' 8]"
  let ?db = "fold disclosure_step [CreateReview ''c1'' ''x'' None ''i1'' 5, ResolveReview ''i1'' ''done'' 6] empty_queue"
  let ?h = "\<lparr>hv_id = ''i1'', hv_case_id = ''c1'', hv_task_id = None, hv_reason = ''x'', hv_status = ''RESOLVED'', hv_created_at = 5,
     hv_resolved_at = Some 6, hv_resolution = Some ''done''\<rparr>"
  have rows: "qd_reviews ?db = [?h]" by code_simp
  have "reviews_inv ?db" unfolding reviews_inv_def rows by (simp add: key_unique_def review_open_def)
  moreover have "run_ok review_ok disclosure_step ?ops ?db" by code_simp
  moreover have "lookup_row hv_id (qd_reviews ?db) ''i1'' = Some ?h" unfolding rows by simp
  ultimately have "lookup_row hv_id (qd_reviews (fold disclosure_step ?ops ?db)) ''i1'' = Some ?h"
    by (rule conjunct1 [OF reviews_open_once_resolved_once]) simp
  then show ?thesis .
qed

text \<open>
  A reason that does not fit the column is stored truncated, but looked up in full: the
  second request does not find the first review and opens another.
\<close>

lemma long_reason_opens_twice:
  assumes "max_description_bytes < utf8_length reason" and "\<not> blank c" and "\<not> blank reason"
  shows "length (open_reviews (fold disclosure_step [CreateReview c reason None ''i1'' 5, CreateReview c reason None ''i2'' 6]
    empty_queue) c) = 2"
proof -
  from assms(1) bounded_description_length [of reason] have ne: "bounded_description reason \<noteq> reason" by auto
  let ?h = "\<lambda>i t. \<lparr>hv_id = i, hv_case_id = c, hv_task_id = None, hv_reason = bounded_description reason,
    hv_status = ''OPEN'', hv_created_at = t, hv_resolved_at = None, hv_resolution = None\<rparr>"
  have "create_human_review empty_queue c reason None ''i1'' 5 = Inr (''i1'', empty_queue\<lparr>qd_reviews := [?h ''i1'' 5]\<rparr>)"
    using assms by (simp add: create_human_review_def open_reviews_def empty_queue_def)
  moreover have "create_human_review (empty_queue\<lparr>qd_reviews := [?h ''i1'' 5]\<rparr>) c reason None ''i2'' 6 =
      Inr (''i2'', empty_queue\<lparr>qd_reviews := [?h ''i1'' 5, ?h ''i2'' 6]\<rparr>)"
    using assms ne by (simp add: create_human_review_def open_reviews_def empty_queue_def)
  ultimately show ?thesis by (simp add: open_reviews_def)
qed

end
