(* ===== verification/CasePipelineRuns.thy ===== *)
theory CasePipelineRuns
  imports CasePipeline DisclosureRuns TaskLife
begin

text \<open>
  The bootstrap step of \<^verbatim>\<open>src/orchestrator/master.py\<close> and the operator's command of
  \<^verbatim>\<open>src/shared/case_rounds.py\<close> as they act on the tables: which invariants every path
  keeps, an exception halfway included, when a disclosure round is closed, and how often the
  root of a round is created.
\<close>

section \<open>Effects of the small steps\<close>

lemma preserves_ask [preserves_intros]: "preserves P (ask f)"
  by (simp add: ask_def preserves_readS)

lemma preserves_run_db:
  assumes "\<And>s x db'. P s \<Longrightarrow> f (pl_db s) = Inr (x, db') \<Longrightarrow> P (s\<lparr>pl_db := db'\<rparr>)"
  shows "preserves P (run_db f)"
  unfolding run_db_def by (rule preserves_commitS) (auto simp: bindR_Inr_iff intro: assms)

lemma preserves_set_idle:
  "(\<And>s. P s \<Longrightarrow> P (s\<lparr>pl_idle_logged := b\<rparr>)) \<Longrightarrow> preserves P (set_idle b)"
  by (simp add: preserves_def set_idle_def)

lemma preserves_draw:
  "(\<And>s. P s \<Longrightarrow> P (s\<lparr>pl_drawn := pl_drawn s + 1\<rparr>)) \<Longrightarrow> preserves P (draw f)"
  by (simp add: preserves_def draw_def)

lemma preserves_add_days [preserves_intros]: "preserves P (add_days t d)"
  unfolding add_days_def by (intro preserves_intros)

text \<open>
  A property of the tables, kept by every elementary effect of bootstrap, is kept by bootstrap.
  \<open>pipe_closed\<close> collects the elementary effects.
\<close>

definition pipe_closed :: "(pipeline \<Rightarrow> bool) \<Rightarrow> environment \<Rightarrow> bool" where
  "pipe_closed P env \<longleftrightarrow>
    (\<forall>s n. P s \<longrightarrow> P (s\<lparr>pl_drawn := pl_drawn s + n\<rparr>)) \<and> (\<forall>s b. P s \<longrightarrow> P (s\<lparr>pl_idle_logged := b\<rparr>)) \<and>
    (\<forall>c reason. preserves P (request_review env c reason)) \<and>
    (\<forall>r c technique started deadline. preserves P (create_timeline r c technique started deadline))"

lemma pipe_closedD:
  assumes "pipe_closed P env"
  shows "preserves P (draw f)" and "preserves P (set_idle b)" and "preserves P (request_review env c reason)"
    and "preserves P (create_timeline r c technique started deadline)"
proof -
  have d: "P s \<Longrightarrow> P (s\<lparr>pl_drawn := pl_drawn s + n\<rparr>)" for s n using assms by (simp add: pipe_closed_def)
  show "preserves P (draw f)" by (rule preserves_draw) (rule d)
qed (use assms in \<open>auto simp: pipe_closed_def intro: preserves_set_idle\<close>)

lemma preserves_deadlines:
  assumes "pipe_closed P env"
  shows "preserves P (check_round_deadlines env c)"
  unfolding check_round_deadlines_def by (intro preserves_intros pipe_closedD [OF assms])

lemma preserves_review_outcome:
  assumes "pipe_closed P env"
  shows "preserves P (review_outcome env c n q)"
  unfolding review_outcome_def by (intro preserves_intros pipe_closedD [OF assms])

lemma preserves_repair_timeline:
  assumes "pipe_closed P env"
  shows "preserves P (repair_timeline c rounds t)"
  unfolding repair_timeline_def by (intro preserves_intros pipe_closedD [OF assms])

lemma preserves_reconcile_roots:
  assumes "\<And>t q. preserves P (close_root env c t q)"
  shows "preserves P (reconcile_roots env c ts q)"
  by (induction ts arbitrary: q) (auto intro!: preserves_intros assms)

lemma preserves_close_root:
  assumes "pipe_closed P env" and "\<And>i now v. preserves P (run_db (\<lambda>db. Inr (complete_round db c i now v)))"
    and "\<And>i now. preserves P (run_db (\<lambda>db. Inr (fail_round db c i now)))"
  shows "preserves P (close_root env c t q)"
  unfolding close_root_def by (intro preserves_intros pipe_closedD [OF assms(1)] assms(2,3))

lemma ask_apply [simp]: "bindS (ask f) g s = g (f (pl_db s)) s"
  by (simp add: ask_def bindS_def)

lemma pipe_closed_conj: "pipe_closed P env \<Longrightarrow> pipe_closed Q env \<Longrightarrow> pipe_closed (\<lambda>s. P s \<and> Q s) env"
  unfolding pipe_closed_def by (auto intro: preserves_conj)

text \<open>The registered cases stay as they are while the deadlines are checked.\<close>

lemma review_other_tables:
  "create_human_review db c reason t i now = Inr (x, db') \<Longrightarrow>
   qd_tasks db' = qd_tasks db \<and> qd_cases db' = qd_cases db \<and> qd_rounds db' = qd_rounds db"
  by (auto simp: create_human_review_def split: if_splits list.splits option.splits)

lemma timeline_other_tables:
  "create_round_transparency db r c technique started deadline = Inr db' \<Longrightarrow>
   qd_tasks db' = qd_tasks db \<and> qd_cases db' = qd_cases db"
  by (auto simp: create_round_transparency_def split: if_splits)

text \<open>How to prove \<open>pipe_closed\<close>: a predicate on the tables that reviews and timeline rows keep.\<close>

lemma pipe_closedI:
  assumes "\<And>db c reason i now x db'. P db \<Longrightarrow> create_human_review db c reason None i now = Inr (x, db') \<Longrightarrow> P db'"
    and "\<And>db r c technique started deadline db'. P db \<Longrightarrow>
      create_round_transparency db r c technique started deadline = Inr db' \<Longrightarrow> P db'"
  shows "pipe_closed (\<lambda>s. P (pl_db s)) env"
proof -
  have draw: "preserves (\<lambda>s. P (pl_db s)) (draw f)" for f
    by (rule preserves_draw) simp
  have "preserves (\<lambda>s. P (pl_db s)) (request_review env c reason)" for c reason
    unfolding request_review_def
    by (intro preserves_intros draw preserves_run_db) (use assms(1) in simp)
  moreover have "preserves (\<lambda>s. P (pl_db s)) (create_timeline r c technique started deadline)" for r c technique started deadline
    unfolding create_timeline_def by (intro preserves_run_db) (use assms(2) in \<open>auto simp: bindR_Inr_iff\<close>)
  ultimately show ?thesis by (simp add: pipe_closed_def)
qed

lemma cases_closed: "pipe_closed (\<lambda>s. qd_cases (pl_db s) = C) env"
  by (rule pipe_closedI) (auto dest: review_other_tables timeline_other_tables)

lemma preserves_bootstrap:
  assumes cl: "pipe_closed P env"
    and old: "\<And>c rc s. P s \<Longrightarrow> get_research_case (pl_db s) c = Some rc \<Longrightarrow>
      P (snd (reconcile_case env c rc (case_roots (pl_db s) c) s))"
    and new: "\<And>c rc s. P s \<Longrightarrow> get_research_case (pl_db s) c = Some rc \<Longrightarrow> case_roots (pl_db s) c = [] \<Longrightarrow>
      P (snd (bootstrap_new_case env c rc s))"
  shows "preserves P (bootstrap_cases env)"
proof -
  have one: "preserves P (bootstrap_case env c)" for c
  proof (rule preservesI)
    fix s assume s: "P s"
    show "P (snd (bootstrap_case env c s))"
    proof (cases "get_research_case (pl_db s) c")
      case None
      with s show ?thesis by (simp add: bootstrap_case_def)
    next
      case (Some rc)
      let ?Q = "\<lambda>t. P t \<and> qd_cases (pl_db t) = qd_cases (pl_db s)"
      have "preserves ?Q (check_round_deadlines env c)"
        by (rule preserves_deadlines [OF pipe_closed_conj [OF cl cases_closed]])
      then have "?Q (snd (check_round_deadlines env c s))" by (rule preservesD) (simp add: s)
      then have "P (snd (check_round_deadlines env c s))"
        and "get_research_case (pl_db (snd (check_round_deadlines env c s))) c = Some rc"
        using Some by (auto simp: get_research_case_def split: if_splits)
      moreover obtain r s1 where "check_round_deadlines env c s = (r, s1)" by (cases "check_round_deadlines env c s")
      ultimately show ?thesis
        using old new Some by (cases r) (auto simp: bootstrap_case_def)
    qed
  qed
  note rules = preserves_intros pipe_closedD [OF cl] one
  have out: "preserves P (case out of Return b \<Rightarrow> retS b | Continue a \<Rightarrow> f a)"
    if "\<And>a. preserves P (f a)" for out and f :: "bool \<Rightarrow> bool pipe"
    using that by (cases out) (simp_all add: preserves_retS)
  have "preserves P (bootstrap_loop env cs busy)" for cs busy
    by (induction cs arbitrary: busy) (auto intro!: rules out)
  then show ?thesis unfolding bootstrap_cases_def by (intro rules)
qed

text \<open>The simple case: every elementary effect keeps the property, whatever was read before.\<close>

lemma preserves_roots:
  assumes cl: "pipe_closed P env" and add: "\<And>d role c r. preserves P (add_task env (root_args d role c r))"
  shows "preserves P (create_round_roots env rc specs)"
proof -
  have "preserves P (create_round_root env rc r)" for r
    unfolding create_round_root_def by (intro preserves_intros pipe_closedD [OF cl] add)
  then show ?thesis
    unfolding create_round_roots_def by (intro preserves_intros pipe_closedD [OF cl])
qed

lemma preserves_new_case:
  assumes cl: "pipe_closed P env" and add: "\<And>d role c r. preserves P (add_task env (root_args d role c r))"
  shows "preserves P (bootstrap_new_case env c rc)"
  unfolding bootstrap_new_case_def by (intro preserves_intros pipe_closedD [OF cl] add preserves_roots [OF cl add])

lemma preserves_bootstrap_all:
  assumes cl: "pipe_closed P env" and add: "\<And>d role c r. preserves P (add_task env (root_args d role c r))"
    and close: "\<And>c t q. preserves P (close_root env c t q)"
  shows "preserves P (bootstrap_cases env)"
proof (rule preserves_bootstrap [OF cl])
  have "preserves P (reconcile_case env c rc ts)" for c rc ts
    unfolding reconcile_case_def
    by (intro preserves_intros preserves_roots [OF cl add] preserves_repair_timeline [OF cl]
        preserves_reconcile_roots [OF close] preserves_review_outcome [OF cl])
  then show "P s \<Longrightarrow> P (snd (reconcile_case env c rc (case_roots (pl_db s) c) s))" for c rc s by (rule preservesD)
  show "P s \<Longrightarrow> P (snd (bootstrap_new_case env c rc s))" for c rc s
    by (rule preservesD [OF preserves_new_case [OF cl add]])
qed

section \<open>The invariants of the tables\<close>

text \<open>The uuids still to be drawn are new.\<close>

definition uuids_fresh :: "environment \<Rightarrow> nat \<Rightarrow> string set \<Rightarrow> bool" where
  "uuids_fresh env n used \<longleftrightarrow> (\<forall>m \<ge> n. env_uuid env m \<notin> used \<and> env_uuid env m \<noteq> [])"

definition pipe_inv :: "environment \<Rightarrow> pipeline \<Rightarrow> bool" where
  "pipe_inv env s \<longleftrightarrow> inj (env_uuid env) \<and>
     (\<exists>used. tasks_inv used (pl_db s) \<and> uuids_fresh env (pl_drawn s) used) \<and> rounds_inv (pl_db s)"

lemma tasks_inv_other_tables:
  "qd_tasks db' = qd_tasks db \<Longrightarrow> qd_cases db' = qd_cases db \<Longrightarrow> tasks_inv used db' = tasks_inv used db"
  by (simp add: tasks_inv_def)

lemma pipe_inv_rounds:
  assumes "\<And>db x db'. f db = Inr (x, db') \<Longrightarrow>
    qd_tasks db' = qd_tasks db \<and> qd_cases db' = qd_cases db \<and> (rounds_inv db \<longrightarrow> rounds_inv db')"
  shows "preserves (pipe_inv env) (run_db f)"
proof (rule preserves_run_db)
  fix s x db' assume s: "pipe_inv env s" and f: "f (pl_db s) = Inr (x, db')"
  from assms [OF f] tasks_inv_other_tables [of db' "pl_db s"] s show "pipe_inv env (s\<lparr>pl_db := db'\<rparr>)"
    by (auto simp: pipe_inv_def)
qed

lemma complete_other_tables:
  "qd_tasks (snd (complete_round db c i now v)) = qd_tasks db \<and> qd_cases (snd (complete_round db c i now v)) = qd_cases db"
  by (simp add: complete_round_def)

lemma fail_other_tables:
  "qd_tasks (snd (fail_round db c i now)) = qd_tasks db \<and> qd_cases (snd (fail_round db c i now)) = qd_cases db"
  by (simp add: fail_round_def)

lemma preserves_drawn:
  assumes "\<And>s n. P s \<Longrightarrow> P (s\<lparr>pl_drawn := pl_drawn s + n\<rparr>)"
  shows "preserves P (draw f)"
  by (rule preserves_draw) (rule assms)

lemma pipe_inv_draw: "pipe_inv env s \<Longrightarrow> pipe_inv env (s\<lparr>pl_drawn := pl_drawn s + n\<rparr>)"
  by (auto simp: pipe_inv_def uuids_fresh_def)

lemma pipe_inv_closed: "pipe_closed (pipe_inv env) env"
proof -
  have review: "preserves (pipe_inv env) (request_review env c reason)" for c reason
    unfolding request_review_def
    by (intro preserves_intros preserves_drawn pipe_inv_draw pipe_inv_rounds)
      (auto simp: rounds_inv_def dest!: review_other_tables)
  have rounds: "rounds_inv db \<Longrightarrow> create_round_transparency db r c technique started deadline = Inr db' \<Longrightarrow> rounds_inv db'"
    for db db' r c technique started deadline
    using disclosure_step_inv [of db "CreateRound r c technique started deadline"] by simp
  have line: "preserves (pipe_inv env) (create_timeline r c technique started deadline)" for r c technique started deadline
    unfolding create_timeline_def
    by (rule pipe_inv_rounds) (auto simp: bindR_Inr_iff dest: timeline_other_tables rounds)
  show ?thesis
    unfolding pipe_closed_def using pipe_inv_draw review line by (auto simp: pipe_inv_def)
qed

lemma pipe_inv_add: "preserves (pipe_inv env) (add_task env (root_args d role c r))"
proof (rule preservesI)
  fix s assume s: "pipe_inv env s"
  let ?n = "pl_drawn s"
  let ?i = "env_uuid env ?n" and ?now = "env_clock env (Suc ?n)"
  let ?a = "root_args d role c r"
  have run: "snd (add_task env ?a s) = (case queue_add (pl_db s) ?i ?now ?a of
      Inl e \<Rightarrow> s\<lparr>pl_drawn := ?n + 2\<rparr> | Inr (_, db') \<Rightarrow> s\<lparr>pl_drawn := ?n + 2, pl_db := db'\<rparr>)"
    by (simp add: add_task_def draw_def run_db_def commitS_def bindS_def split: sum.split prod.split)
  from s obtain used where used: "tasks_inv used (pl_db s)" "uuids_fresh env ?n used" by (auto simp: pipe_inv_def)
  show "pipe_inv env (snd (add_task env ?a s))"
  proof (cases "queue_add (pl_db s) ?i ?now ?a")
    case (Inl e)
    with run pipe_inv_draw [OF s, of 2] show ?thesis by simp
  next
    case (Inr y)
    obtain j db' where y: "y = (j, db')" by (cases y)
    have new: "?i \<notin> used" "?i \<noteq> []" using used(2) by (auto simp: uuids_fresh_def)
    have "ag_parent ?a \<noteq> Some ?i" by (simp add: root_args_def)
    from add_inv [OF used(1) Inr [unfolded y] new this] have "tasks_inv (insert ?i used) db'" by (simp add: root_args_def)
    moreover have "uuids_fresh env (?n + 2) (insert ?i used)"
      using used(2) s by (auto simp: uuids_fresh_def pipe_inv_def dest!: injD)
    moreover have "qd_rounds db' = qd_rounds (pl_db s)"
      using Inr [unfolded y] by (auto elim: queue_add_Inr)
    ultimately show ?thesis
      using s by (auto simp: run Inr y pipe_inv_def rounds_inv_def)
  qed
qed

lemma pipe_inv_close: "preserves (pipe_inv env) (close_root env c t q)"
proof (rule preserves_close_root [OF pipe_inv_closed])
  show "preserves (pipe_inv env) (run_db (\<lambda>db. Inr (complete_round db c i now v)))" for i now v
  proof (rule pipe_inv_rounds)
    fix db x db' assume "Inr (complete_round db c i now v) = (Inr (x, db') :: (bool \<times> queue_db) result)"
    then have "db' = snd (complete_round db c i now v)" by simp
    with complete_other_tables disclosure_step_inv [of db "CompleteRound c i now v"]
    show "qd_tasks db' = qd_tasks db \<and> qd_cases db' = qd_cases db \<and> (rounds_inv db \<longrightarrow> rounds_inv db')"
      by simp
  qed
  show "preserves (pipe_inv env) (run_db (\<lambda>db. Inr (fail_round db c i now)))" for i now
  proof (rule pipe_inv_rounds)
    fix db x db' assume "Inr (fail_round db c i now) = (Inr (x, db') :: (bool \<times> queue_db) result)"
    then have "db' = snd (fail_round db c i now)" by simp
    with fail_other_tables disclosure_step_inv [of db "FailRound c i now"]
    show "qd_tasks db' = qd_tasks db \<and> qd_cases db' = qd_cases db \<and> (rounds_inv db \<longrightarrow> rounds_inv db')"
      by simp
  qed
qed

text \<open>
  Whatever the tables hold, a bootstrap step keeps their invariants, also when it raises
  halfway: ids stay unique, every root it creates is bound to a runnable case, and the rows
  of the timeline fit their status.
\<close>

theorem bootstrap_keeps_invariants:
  assumes "inj (env_uuid env)" and "tasks_inv used (pl_db s)" and "uuids_fresh env (pl_drawn s) used"
    and "rounds_inv (pl_db s)"
  shows "\<exists>used'. tasks_inv used' (pl_db (snd (bootstrap_cases env s))) \<and> rounds_inv (pl_db (snd (bootstrap_cases env s)))"
proof -
  from assms have "pipe_inv env s" by (auto simp: pipe_inv_def)
  then have "pipe_inv env (snd (bootstrap_cases env s))"
    by (rule preservesD [OF preserves_bootstrap_all [OF pipe_inv_closed pipe_inv_add pipe_inv_close]])
  then show ?thesis by (auto simp: pipe_inv_def)
qed


lemma bootstrap_keeps_invariants_witness:
  "\<exists>used'. tasks_inv used' (pl_db (snd (bootstrap_cases \<lparr>env_uuid = (\<lambda>n. replicate (n + 1) CHR ''u''), env_clock = (\<lambda>_. 0)\<rparr>
     \<lparr>pl_db = empty_queue, pl_idle_logged = False, pl_drawn = 0\<rparr>)))"
proof -
  let ?env = "\<lparr>env_uuid = (\<lambda>n. replicate (n + 1) CHR ''u''), env_clock = (\<lambda>_. 0)\<rparr>"
  let ?s = "\<lparr>pl_db = empty_queue, pl_idle_logged = False, pl_drawn = 0\<rparr>"
  have "inj (env_uuid ?env)"
  proof (rule injI)
    fix m n assume "env_uuid ?env m = env_uuid ?env n"
    then have "length (replicate (m + 1) CHR ''u'') = length (replicate (n + 1) CHR ''u'')" by simp
    then show "m = n" by simp
  qed
  moreover have "tasks_inv {} (pl_db ?s)" "rounds_inv (pl_db ?s)" "uuids_fresh ?env (pl_drawn ?s) {}"
    by (simp_all add: tasks_inv_def empty_queue_def rounds_inv_def uuids_fresh_def)
  ultimately show ?thesis using bootstrap_keeps_invariants [of ?env "{}" ?s] by blast
qed

section \<open>When a round is closed\<close>

lemma branch_step_mono:
  "set ids \<subseteq> set ids' \<Longrightarrow> set ts \<subseteq> set ts' \<Longrightarrow> set (branch_step ts root ids) \<subseteq> set (branch_step ts' root ids')"
  by (fastforce simp: branch_step_def split: option.splits)

lemma branch_step_grows:
  "set ids \<subseteq> tk_id ` set ts \<Longrightarrow> set ids \<subseteq> set (branch_step ts root ids)"
  by (auto simp: branch_step_def)

lemma branch_step_ids: "set (branch_step ts root ids) \<subseteq> tk_id ` set ts"
  by (auto simp: branch_step_def)

lemma descendants_mono:
  assumes "set ts \<subseteq> set ts'" and "length ts \<le> length ts'"
  shows "set (descendants ts root) \<subseteq> set (descendants ts' root)"
proof -
  have step: "set ((branch_step ts root ^^ n) []) \<subseteq> set ((branch_step ts' root ^^ n) [])" for n
    by (induction n) (simp_all add: branch_step_mono [OF _ assms(1)])
  have grow: "set ((branch_step ts' root ^^ n) []) \<subseteq> set ((branch_step ts' root ^^ (n + k)) [])" for n k
  proof (induction k)
    case (Suc k)
    have "set ((branch_step ts' root ^^ (n + k)) []) \<subseteq> tk_id ` set ts'"
      using branch_step_ids by (cases "n + k") auto
    from branch_step_grows [OF this, of root] Suc show ?case by auto
  qed simp
  from step [of "length ts"] grow [of "length ts" "length ts' - length ts"] assms(2) show ?thesis
    by (simp add: descendants_def)
qed

lemma active_descendants_mono:
  assumes "qd_tasks db' = qd_tasks db @ new" and "has_active_descendants db root"
  shows "has_active_descendants db' root"
proof -
  have "set (descendants (qd_tasks db) root) \<subseteq> set (descendants (qd_tasks db') root)"
    by (rule descendants_mono) (simp_all add: assms(1))
  with assms show ?thesis by (fastforce simp: has_active_descendants_def list_ex_iff)
qed

text \<open>
  The rows below a task: its children, their children, and so on. The query finds their ids,
  after at most as many unions as the table has rows.
\<close>

inductive below :: "task list \<Rightarrow> string \<Rightarrow> task \<Rightarrow> bool" for ts root where
  child: "t \<in> set ts \<Longrightarrow> tk_parent t = Some root \<Longrightarrow> below ts root t"
| deeper: "below ts root p \<Longrightarrow> t \<in> set ts \<Longrightarrow> tk_parent t = Some (tk_id p) \<Longrightarrow> below ts root t"

definition branch_set :: "task list \<Rightarrow> string \<Rightarrow> string set \<Rightarrow> string set" where
  "branch_set ts root A = {i. \<exists>t \<in> set ts. tk_id t = i \<and>
     (i \<in> A \<or> tk_parent t = Some root \<or> (\<exists>p \<in> A. tk_parent t = Some p))}"

lemma in_branch_set:
  "i \<in> branch_set ts root A \<longleftrightarrow> (\<exists>t \<in> set ts. tk_id t = i \<and>
     (i \<in> A \<or> tk_parent t = Some root \<or> (\<exists>p \<in> A. tk_parent t = Some p)))"
  by (simp add: branch_set_def)

lemma set_descendants: "set (descendants ts root) = (branch_set ts root ^^ length ts) {}"
proof -
  have "set (branch_step ts root A) = branch_set ts root (set A)" for A
    by (auto simp: branch_step_def branch_set_def split: option.splits)
  then have "set ((branch_step ts root ^^ n) []) = (branch_set ts root ^^ n) {}" for n
    by (induction n) simp_all
  then show ?thesis by (simp add: descendants_def)
qed

lemma descendants_fixed: "branch_set ts root (set (descendants ts root)) = set (descendants ts root)"
  unfolding set_descendants
proof (rule iteration_reaches_fixpoint [of "tk_id ` set ts"])
  show "card (tk_id ` set ts) \<le> length ts"
    by (meson List.finite_set card_image_le card_length le_trans)
qed (auto simp: in_branch_set, blast)

lemma descendants_below: "set (descendants ts root) = tk_id ` {t. below ts root t}"
proof
  have step: "branch_set ts root A \<subseteq> tk_id ` {t. below ts root t}" if A: "A \<subseteq> tk_id ` {t. below ts root t}" for A
  proof
    fix i assume "i \<in> branch_set ts root A"
    then obtain t where t: "t \<in> set ts" "tk_id t = i"
      and "i \<in> A \<or> tk_parent t = Some root \<or> (\<exists>p \<in> A. tk_parent t = Some p)"
      unfolding in_branch_set by blast
    then have "i \<in> A \<or> below ts root t" using A by (auto intro: below.intros)
    with A t show "i \<in> tk_id ` {t. below ts root t}" by blast
  qed
  have "(branch_set ts root ^^ n) {} \<subseteq> tk_id ` {t. below ts root t}" for n
    by (induction n) (simp_all add: step)
  then show "set (descendants ts root) \<subseteq> tk_id ` {t. below ts root t}" by (simp add: set_descendants)
  have "tk_id t \<in> branch_set ts root (set (descendants ts root))" if "below ts root t" for t
    using that
  proof induction
    case (deeper p t)
    from deeper.IH have "tk_id p \<in> set (descendants ts root)" by (simp only: descendants_fixed)
    with deeper.hyps show ?case unfolding in_branch_set by blast
  qed (unfold in_branch_set, blast)
  then show "tk_id ` {t. below ts root t} \<subseteq> set (descendants ts root)" by (auto simp: descendants_fixed)
qed

lemma below_row: "below ts root t \<Longrightarrow> t \<in> set ts"
  by (induction rule: below.induct)

theorem has_active_descendants_iff:
  assumes "key_unique tk_id (qd_tasks db)"
  shows "has_active_descendants db root \<longleftrightarrow>
    (\<exists>t. below (qd_tasks db) root t \<and> tk_status t \<noteq> Completed \<and> tk_status t \<noteq> Failed)"
  unfolding has_active_descendants_def list_ex_iff descendants_below
  using key_unique_eq [OF assms] below_row by (metis (mono_tags, lifting) image_iff mem_Collect_eq)

text \<open>A branch of a round is over: its root has ended, was decided on, and nothing runs below it.\<close>

definition branch_over :: "queue_db \<Rightarrow> string \<Rightarrow> string \<Rightarrow> bool" where
  "branch_over db c i \<longleftrightarrow> (\<exists>t \<in> set (qd_tasks db). tk_parent t = None \<and> tk_case_id t = Some c \<and> tk_round_id t = Some i \<and>
     ((tk_status t = Completed \<and> tk_planner_decision t \<noteq> None) \<or> tk_status t = Failed) \<and>
     (\<forall>u. below (qd_tasks db) (tk_id t) u \<longrightarrow> tk_status u = Completed \<or> tk_status u = Failed))"

text \<open>The tables since the state \<open>db\<close>: new pending roots, and rounds that close only when their branch is over.\<close>

definition closes_rightly :: "queue_db \<Rightarrow> queue_db \<Rightarrow> bool" where
  "closes_rightly db db' \<longleftrightarrow> key_unique tk_id (qd_tasks db') \<and>
     (\<exists>new. qd_tasks db' = qd_tasks db @ new \<and> (\<forall>t \<in> set new. tk_status t = Pending)) \<and>
     (\<forall>r \<in> set (qd_rounds db'). round_active r \<or> r \<in> set (qd_rounds db) \<or> branch_over db (rt_case_id r) (rt_round_id r))"

lemma closes_closed: "pipe_closed (\<lambda>s. closes_rightly db (pl_db s)) env"
proof (rule pipe_closedI)
  show "closes_rightly db db1 \<Longrightarrow> create_human_review db1 c reason None i now = Inr (x, db') \<Longrightarrow> closes_rightly db db'"
    for db1 c reason i now x db'
    by (auto simp: closes_rightly_def dest!: review_other_tables)
  show "closes_rightly db db1 \<Longrightarrow> create_round_transparency db1 r c technique started deadline = Inr db' \<Longrightarrow> closes_rightly db db'"
    for db1 r c technique started deadline db'
    by (auto simp: closes_rightly_def create_round_transparency_def new_round_row_def round_active_def split: if_splits)
qed

lemma closes_add: "preserves (\<lambda>s. closes_rightly db (pl_db s)) (add_task env (root_args d role c r))"
proof -
  have "closes_rightly db db'" if "closes_rightly db db1" "queue_add db1 i now a = Inr (j, db')" for db1 i now a j db'
  proof (rule queue_add_Inr [OF that(2)])
    fix c r assume "task_row db1 i = None" and db': "db' = db1\<lparr>qd_tasks := qd_tasks db1 @ [new_task i now a c r]\<rparr>"
    with that(1) show ?thesis by (auto simp: closes_rightly_def task_row_def)
  qed
  then show ?thesis
    unfolding add_task_def by (intro preserves_intros preserves_draw preserves_run_db) auto
qed

text \<open>What the loop knows of a root it closes.\<close>

definition close_ok :: "queue_db \<Rightarrow> string \<Rightarrow> task \<Rightarrow> bool" where
  "close_ok db c t \<longleftrightarrow> t \<in> set (qd_tasks db) \<and> tk_parent t = None \<and> tk_case_id t = Some c"

lemma close_branch_over:
  assumes cl: "closes_rightly db db'" and t: "close_ok db' c t" and i: "tk_round_id t = Some i"
    and st: "tk_status t = Completed \<or> tk_status t = Failed" and idle: "\<not> has_active_descendants db' (tk_id t)"
    and dec: "tk_status t = Completed \<longrightarrow> (case task_row db' (tk_id t) of None \<Rightarrow> None | Some r \<Rightarrow> tk_planner_decision r) \<noteq> None"
  shows "branch_over db c i"
proof -
  from cl obtain new where new: "qd_tasks db' = qd_tasks db @ new" "\<And>t. t \<in> set new \<Longrightarrow> tk_status t = Pending"
    and uid: "key_unique tk_id (qd_tasks db')" by (auto simp: closes_rightly_def)
  from uid new(1) have old: "key_unique tk_id (qd_tasks db)" by (simp add: key_unique_def)
  from t have mem: "t \<in> set (qd_tasks db')" by (simp add: close_ok_def)
  with new st have "t \<in> set (qd_tasks db)" by auto
  moreover have "\<not> has_active_descendants db (tk_id t)"
    using active_descendants_mono [OF new(1)] idle by blast
  then have "tk_status u = Completed \<or> tk_status u = Failed" if "below (qd_tasks db) (tk_id t) u" for u
    using has_active_descendants_iff [OF old] that by blast
  moreover have "task_row db' (tk_id t) = Some t"
    using lookup_row_mem [OF uid mem] by (simp add: task_row_def)
  with dec have "tk_status t = Completed \<longrightarrow> tk_planner_decision t \<noteq> None" by simp
  ultimately show ?thesis using t i st by (auto simp: branch_over_def close_ok_def)
qed


lemma close_root_effect:
  "\<exists>now v. pl_db (snd (close_root env c t q s)) =
    (if \<not> given (tk_round_id t) then pl_db s
     else if tk_status t = Completed then snd (complete_round (pl_db s) c (the (tk_round_id t)) now v)
     else snd (fail_round (pl_db s) c (the (tk_round_id t)) now))"
  by (cases "given (tk_round_id t)"; cases "tk_status t = Completed")
    (auto simp: close_root_def draw_def bindS_def ask_def run_db_def commitS_def split: prod.split, (metis snd_conv)+)

lemma closes_update:
  assumes "closes_rightly db db'" and "qd_tasks db'' = qd_tasks db'"
    and "qd_rounds db'' = update_where (active_round c i) f (qd_rounds db')"
    and "\<And>r. round_key (f r) = round_key r" and "branch_over db c i"
  shows "closes_rightly db db''"
proof -
  have "round_active r \<or> r \<in> set (qd_rounds db) \<or> branch_over db (rt_case_id r) (rt_round_id r)"
    if "r \<in> set (qd_rounds db'')" for r
  proof -
    from that assms(3) obtain r0 where r0: "r0 \<in> set (qd_rounds db')" "r = (if active_round c i r0 then f r0 else r0)"
      by (auto elim: set_update_whereE)
    show ?thesis
    proof (cases "active_round c i r0")
      case True
      with r0 assms(4) have "round_key r = (c, i)" by simp
      with assms(5) show ?thesis by (simp add: round_key_def)
    next
      case False
      with r0 assms(1) show ?thesis by (auto simp: closes_rightly_def)
    qed
  qed
  with assms(1,2) show ?thesis by (simp add: closes_rightly_def)
qed

lemma complete_closes:
  "closes_rightly db db' \<Longrightarrow> branch_over db c i \<Longrightarrow> closes_rightly db (snd (complete_round db' c i now v))"
  unfolding complete_round_def by (auto intro: closes_update simp: round_key_def)

lemma fail_closes:
  "closes_rightly db db' \<Longrightarrow> branch_over db c i \<Longrightarrow> closes_rightly db (snd (fail_round db' c i now))"
  unfolding fail_round_def by (auto intro: closes_update simp: round_key_def)

definition roots_ok :: "queue_db \<Rightarrow> string \<Rightarrow> task list \<Rightarrow> pipeline \<Rightarrow> bool" where
  "roots_ok db c roots s \<longleftrightarrow> closes_rightly db (pl_db s) \<and> (\<forall>t \<in> set roots. close_ok (pl_db s) c t)"

lemma roots_ok_closed: "pipe_closed (roots_ok db c roots) env"
proof -
  have "pipe_closed (\<lambda>s. \<forall>t \<in> set roots. close_ok (pl_db s) c t) env"
    by (rule pipe_closedI) (auto simp: close_ok_def dest: review_other_tables timeline_other_tables)
  from pipe_closed_conj [OF closes_closed this] show ?thesis by (simp add: roots_ok_def [abs_def])
qed

lemma close_root_ok:
  assumes ok: "roots_ok db c roots s" and t: "t \<in> set roots"
    and st: "tk_status t = Completed \<or> tk_status t = Failed" and idle: "\<not> has_active_descendants (pl_db s) (tk_id t)"
    and dec: "tk_status t = Completed \<longrightarrow>
      (case task_row (pl_db s) (tk_id t) of None \<Rightarrow> None | Some r \<Rightarrow> tk_planner_decision r) \<noteq> None"
  shows "roots_ok db c roots (snd (close_root env c t q s))"
proof -
  obtain now v where eff: "pl_db (snd (close_root env c t q s)) =
    (if \<not> given (tk_round_id t) then pl_db s
     else if tk_status t = Completed then snd (complete_round (pl_db s) c (the (tk_round_id t)) now v)
     else snd (fail_round (pl_db s) c (the (tk_round_id t)) now))"
    using close_root_effect by blast
  have tasks: "qd_tasks (pl_db (snd (close_root env c t q s))) = qd_tasks (pl_db s)"
    by (simp add: eff complete_round_def fail_round_def)
  have "closes_rightly db (pl_db (snd (close_root env c t q s)))"
  proof (cases "given (tk_round_id t)")
    case True
    then obtain i where i: "tk_round_id t = Some i" by (auto simp: given_def)
    have "branch_over db c i"
      using close_branch_over [OF _ _ i st idle dec] ok t by (auto simp: roots_ok_def)
    with ok i show ?thesis by (simp add: eff roots_ok_def complete_closes fail_closes)
  next
    case False
    with ok show ?thesis by (simp add: eff roots_ok_def)
  qed
  with ok tasks show ?thesis by (simp add: roots_ok_def close_ok_def)
qed

lemma reconcile_roots_ok:
  "roots_ok db c roots s \<Longrightarrow> set ts \<subseteq> set roots \<Longrightarrow> roots_ok db c roots (snd (reconcile_roots env c ts q s))"
proof (induction ts arbitrary: q s)
  case (Cons t ts)
  let ?busy = "(tk_status t \<noteq> Completed \<and> tk_status t \<noteq> Failed) \<or> has_active_descendants (pl_db s) (tk_id t)"
  let ?dec = "case task_row (pl_db s) (tk_id t) of None \<Rightarrow> None | Some r \<Rightarrow> tk_planner_decision r"
  show ?case
  proof (cases "?busy \<or> (tk_status t = Completed \<and> ?dec = None)")
    case True
    with Cons.IH [OF Cons.prems(1)] Cons.prems(2) show ?thesis by auto
  next
    case False
    obtain r s1 where run: "close_root env c t q s = (r, s1)" by (cases "close_root env c t q s")
    have "roots_ok db c roots s1"
      using close_root_ok [OF Cons.prems(1), of t env q] Cons.prems(2) False run by auto
    with Cons.IH [of s1] Cons.prems(2) False run show ?thesis by (cases r) auto
  qed
qed simp

text \<open>
  C35: A bootstrap step closes a disclosure round only when the branch of its root is over: the
  root has failed, or has completed and the planner decided on it, and no task below it is
  pending or running. An exception halfway does not change that.
\<close>

theorem rounds_close_only_after_their_branch:
  assumes uid: "key_unique tk_id (qd_tasks (pl_db s))"
    and r: "r \<in> set (qd_rounds (pl_db (snd (bootstrap_cases env s))))" and closed: "\<not> round_active r"
  shows "r \<in> set (qd_rounds (pl_db s)) \<or> branch_over (pl_db s) (rt_case_id r) (rt_round_id r)"
proof -
  let ?db = "pl_db s"
  have old: "closes_rightly ?db (pl_db (snd (reconcile_case env c rc (case_roots (pl_db s1) c) s1)))"
    if s1: "closes_rightly ?db (pl_db s1)" for c rc s1
  proof -
    let ?roots = "case_roots (pl_db s1) c"
    have ok: "roots_ok ?db c ?roots s1"
      using s1 by (auto simp: roots_ok_def close_ok_def case_roots_def case_tasks_def)
    let ?m = "if rc_rounds rc = [] then retS () else forS (repair_timeline c (rc_rounds rc)) ?roots"
    have "preserves (roots_ok ?db c ?roots) ?m"
      by (intro preserves_intros preserves_repair_timeline [OF roots_ok_closed])
    from preservesD [OF this ok] have ok1: "roots_ok ?db c ?roots (snd (?m s1))" .
    obtain x s2 where m: "?m s1 = (x, s2)" by (cases "?m s1")
    show ?thesis
    proof (cases x)
      case (Inl e)
      with m ok1 show ?thesis by (simp add: reconcile_case_def roots_ok_def)
    next
      case (Inr u)
      from ok1 m have ok2: "roots_ok ?db c ?roots s2" by simp
      show ?thesis
      proof (cases "missing_specs (rc_rounds rc) ?roots = []")
        case False
        have "closes_rightly ?db (pl_db (snd (create_round_roots env rc (missing_specs (rc_rounds rc) ?roots) s2)))"
          by (rule preservesD [OF preserves_roots [OF closes_closed closes_add]]) (use ok2 in \<open>simp add: roots_ok_def\<close>)
        with False m Inr show ?thesis by (simp add: reconcile_case_def)
      next
        case True
        obtain y s3 where run: "reconcile_roots env c ?roots start_reconciliation s2 = (y, s3)"
          by (cases "reconcile_roots env c ?roots start_reconciliation s2")
        with reconcile_roots_ok [OF ok2, of ?roots env start_reconciliation] have "roots_ok ?db c ?roots s3" by simp
        then have "closes_rightly ?db (pl_db s3)" by (simp add: roots_ok_def)
        with preservesD [OF preserves_review_outcome [OF closes_closed], where s = s3] True m Inr run
        show ?thesis by (cases y) (simp_all add: reconcile_case_def)
      qed
    qed
  qed
  have new: "closes_rightly ?db (pl_db (snd (bootstrap_new_case env c rc s1)))" if "closes_rightly ?db (pl_db s1)" for c rc s1
    by (rule preservesD [OF preserves_new_case [OF closes_closed closes_add]]) (rule that)
  have "preserves (\<lambda>s. closes_rightly ?db (pl_db s)) (bootstrap_cases env)"
    by (rule preserves_bootstrap [OF closes_closed old new])
  moreover have "closes_rightly ?db (pl_db s)" using uid by (simp add: closes_rightly_def)
  ultimately have "closes_rightly ?db (pl_db (snd (bootstrap_cases env s)))" by (rule preservesD)
  with r closed show ?thesis by (auto simp: closes_rightly_def)
qed


section \<open>One root per round\<close>

definition root_slots :: "queue_db \<Rightarrow> (string \<times> string) list" where
  "root_slots db = map (\<lambda>t. (the (tk_case_id t), the (tk_round_id t)))
     (filter (\<lambda>t. tk_parent t = None \<and> tk_case_id t \<noteq> None \<and> tk_round_id t \<noteq> None) (qd_tasks db))"

text \<open>What bootstrap keeps: distinct roots of rounds, and the registered cases with distinct round ids.\<close>

definition roots_distinct :: "queue_db \<Rightarrow> bool" where
  "roots_distinct db \<longleftrightarrow> distinct (root_slots db) \<and>
     (\<forall>row \<in> set (qd_cases db). rc_case_id (cr_payload row) = cr_case_id row \<and>
        distinct (map rs_round_id (rc_rounds (cr_payload row))))"

lemma distinct_closed: "pipe_closed (\<lambda>s. roots_distinct (pl_db s)) env"
  by (rule pipe_closedI) (auto simp: roots_distinct_def root_slots_def dest!: review_other_tables timeline_other_tables)

definition slots_free :: "string \<Rightarrow> round_spec list \<Rightarrow> queue_db \<Rightarrow> bool" where
  "slots_free c specs db \<longleftrightarrow> distinct (map rs_round_id specs) \<and> (\<forall>r \<in> set specs. (c, rs_round_id r) \<notin> set (root_slots db))"

lemma slots_free_same: "qd_tasks db' = qd_tasks db \<Longrightarrow> slots_free c specs db \<Longrightarrow> slots_free c specs db'"
  by (simp add: slots_free_def root_slots_def)

lemma add_root_slots:
  assumes "queue_add db i now (root_args d role c r) = Inr (j, db')"
  shows "root_slots db' = root_slots db @ (case r of None \<Rightarrow> [] | Some x \<Rightarrow> [(c, x)]) \<and> qd_cases db' = qd_cases db"
proof (rule queue_add_Inr [OF assms])
  fix c' r' assume ih: "inherit_case db (ag_parent (root_args d role c r)) (ag_case_id (root_args d role c r))
      (ag_round_id (root_args d role c r)) = Inr (c', r')"
    and db': "db' = db\<lparr>qd_tasks := qd_tasks db @ [new_task i now (root_args d role c r) c' r']\<rparr>"
  from ih have "c' = Some c" "r' = r" by (auto simp: inherit_case_def root_args_def given_def)
  with db' show ?thesis by (simp add: root_slots_def root_args_def split: option.split)
qed

lemma add_task_effect:
  "pl_db (snd (add_task env a s)) = pl_db s \<or>
   (\<exists>i now j. queue_add (pl_db s) i now a = Inr (j, pl_db (snd (add_task env a s))))"
  by (auto simp: add_task_def draw_def run_db_def commitS_def bindS_def bindR_Inr_iff split: sum.split prod.split)

lemma timeline_slots: "root_slots (pl_db (snd (create_timeline r c technique started deadline s))) = root_slots (pl_db s) \<and>
    qd_cases (pl_db (snd (create_timeline r c technique started deadline s))) = qd_cases (pl_db s)"
  by (auto simp: create_timeline_def run_db_def commitS_def root_slots_def bindR_Inr_iff dest!: timeline_other_tables split: sum.split)

text \<open>One round root adds at most its own slot.\<close>

lemma create_root_effect:
  "qd_cases (pl_db (snd (create_round_root env rc r s))) = qd_cases (pl_db s) \<and>
   (root_slots (pl_db (snd (create_round_root env rc r s))) = root_slots (pl_db s) \<or>
    root_slots (pl_db (snd (create_round_root env rc r s))) = root_slots (pl_db s) @ [(rc_case_id rc, rs_round_id r)])"
proof -
  let ?t = "env_clock env (pl_drawn s)"
  let ?s1 = "s\<lparr>pl_drawn := pl_drawn s + 1\<rparr>"
  obtain x s2 where days: "add_days ?t (rs_deadline_days r) ?s1 = (x, s2)" by (cases "add_days ?t (rs_deadline_days r) ?s1")
  then have s2: "s2 = ?s1" by (simp add: add_days_def split: if_splits)
  show ?thesis
  proof (cases x)
    case (Inl e)
    with days s2 show ?thesis by (simp add: create_round_root_def draw_def bindS_def)
  next
    case (Inr deadline)
    let ?a = "root_args (root_description rc r deadline) (root_role (rs_technique r)) (rc_case_id rc) (Some (rs_round_id r))"
    obtain y s3 where add: "add_task env ?a ?s1 = (y, s3)" by (cases "add_task env ?a ?s1")
    have "qd_cases (pl_db s3) = qd_cases (pl_db s) \<and> (root_slots (pl_db s3) = root_slots (pl_db s) \<or>
        root_slots (pl_db s3) = root_slots (pl_db s) @ [(rc_case_id rc, rs_round_id r)])"
      using add_task_effect [of env ?a ?s1] add add_root_slots by fastforce
    with timeline_slots [of "rs_round_id r" "rc_case_id rc" "rs_technique r" ?t deadline s3] days s2 add Inr
    show ?thesis by (cases y) (simp_all add: create_round_root_def draw_def bindS_def)
  qed
qed

lemma create_roots_distinct:
  assumes "roots_distinct (pl_db s)" and "slots_free (rc_case_id rc) specs (pl_db s)"
  shows "roots_distinct (pl_db (snd (forS (create_round_root env rc) specs s)))"
  using assms
proof (induction specs arbitrary: s)
  case (Cons r specs)
  obtain x s1 where run: "create_round_root env rc r s = (x, s1)" by (cases "create_round_root env rc r s")
  with create_root_effect [of env rc r s]
  have eff: "qd_cases (pl_db s1) = qd_cases (pl_db s)" "root_slots (pl_db s1) = root_slots (pl_db s) \<or>
      root_slots (pl_db s1) = root_slots (pl_db s) @ [(rc_case_id rc, rs_round_id r)]" by auto
  with Cons.prems have d1: "roots_distinct (pl_db s1)" by (auto simp: roots_distinct_def slots_free_def)
  moreover have "slots_free (rc_case_id rc) specs (pl_db s1)"
    using Cons.prems(2) eff(2) by (auto simp: slots_free_def image_iff)
  ultimately have "roots_distinct (pl_db (snd (forS (create_round_root env rc) specs s1)))" by (rule Cons.IH)
  with d1 run show ?case by (cases x) (simp_all add: bindS_def)
qed simp


lemma distinct_close: "preserves (\<lambda>s. roots_distinct (pl_db s)) (close_root env c t q)"
proof (rule preserves_close_root [OF distinct_closed])
  have same: "qd_tasks db' = qd_tasks db \<Longrightarrow> qd_cases db' = qd_cases db \<Longrightarrow> roots_distinct db \<Longrightarrow> roots_distinct db'" for db db'
    by (simp add: roots_distinct_def root_slots_def)
  show "preserves (\<lambda>s. roots_distinct (pl_db s)) (run_db (\<lambda>db. Inr (complete_round db c i now v)))" for i now v
    by (rule preserves_run_db) (use same complete_other_tables in \<open>metis pipeline.select_convs(1) pipeline.surjective pipeline.update_convs(1) snd_conv sum.inject(2)\<close>)
  show "preserves (\<lambda>s. roots_distinct (pl_db s)) (run_db (\<lambda>db. Inr (fail_round db c i now)))" for i now
    by (rule preserves_run_db) (use same fail_other_tables in \<open>metis pipeline.select_convs(1) pipeline.surjective pipeline.update_convs(1) snd_conv sum.inject(2)\<close>)
qed

lemma distinct_add_plain:
  "preserves (\<lambda>s. roots_distinct (pl_db s)) (add_task env (root_args d role c None))"
proof (rule preservesI)
  fix s :: pipeline assume s: "roots_distinct (pl_db s)"
  show "roots_distinct (pl_db (snd (add_task env (root_args d role c None) s)))"
    using add_task_effect [of env "root_args d role c None" s]
  proof
    assume "\<exists>i now j. queue_add (pl_db s) i now (root_args d role c None) =
        Inr (j, pl_db (snd (add_task env (root_args d role c None) s)))"
    with add_root_slots s show ?thesis by (fastforce simp: roots_distinct_def)
  qed (use s in simp)
qed

lemma create_round_roots_distinct:
  assumes "roots_distinct (pl_db s)" and "slots_free (rc_case_id rc) specs (pl_db s)"
  shows "roots_distinct (pl_db (snd (create_round_roots env rc specs s)))"
proof -
  have "slots_free (rc_case_id rc) (by_priority specs) (pl_db s)"
    using assms(2) by (simp add: slots_free_def by_priority_def distinct_map)
  from create_roots_distinct [OF assms(1) this, of env] show ?thesis
    by (cases "forS (create_round_root env rc) (by_priority specs) s")
      (auto simp: create_round_roots_def bindS_def set_idle_def split: sum.split)
qed

lemma registered_rounds:
  assumes "roots_distinct db" and "get_research_case db c = Some rc"
  shows "rc_case_id rc = c \<and> distinct (map rs_round_id (rc_rounds rc))"
proof -
  from assms(2) obtain row where "lookup_row cr_case_id (qd_cases db) c = Some row" "cr_payload row = rc"
    by (auto simp: get_research_case_def split: if_splits)
  with assms(1) lookup_row_SomeD [of cr_case_id "qd_cases db" c row] show ?thesis
    by (auto simp: roots_distinct_def)
qed

text \<open>
  C37: A bootstrap step never creates a second root for a round of a case: if the roots of each
  round were unique they are unique afterwards, also when it raises halfway and is run again.
\<close>

theorem bootstrap_creates_each_root_once:
  assumes "roots_distinct (pl_db s)"
  shows "roots_distinct (pl_db (snd (bootstrap_cases env s)))"
proof -
  let ?P = "\<lambda>s. roots_distinct (pl_db s)"
  have old: "?P (snd (reconcile_case env c rc (case_roots (pl_db s1) c) s1))"
    if s1: "?P s1" and rc: "get_research_case (pl_db s1) c = Some rc" for c rc s1
  proof -
    let ?roots = "case_roots (pl_db s1) c"
    let ?specs = "missing_specs (rc_rounds rc) ?roots"
    let ?m = "if rc_rounds rc = [] then retS () else forS (repair_timeline c (rc_rounds rc)) ?roots"
    let ?Q = "\<lambda>s. ?P s \<and> slots_free c ?specs (pl_db s)"
    have "pipe_closed (\<lambda>s. slots_free c ?specs (pl_db s)) env"
      by (rule pipe_closedI) (metis slots_free_same review_other_tables, metis slots_free_same timeline_other_tables)
    from pipe_closed_conj [OF distinct_closed this] have cl: "pipe_closed ?Q env" .
    have "preserves ?Q ?m" by (intro preserves_intros preserves_repair_timeline [OF cl])
    moreover have "slots_free c ?specs (pl_db s1)"
      using registered_rounds [OF s1 rc]
      by (auto simp: slots_free_def missing_specs_def root_slots_def case_roots_def case_tasks_def distinct_map_filter image_iff)
    ultimately have Q: "?Q (snd (?m s1))" using s1 by (intro preservesD [where P = ?Q]) auto
    obtain x s2 where m: "?m s1 = (x, s2)" by (cases "?m s1")
    show ?thesis
    proof (cases x)
      case (Inl e)
      with m Q show ?thesis by (simp add: reconcile_case_def)
    next
      case (Inr u)
      show ?thesis
      proof (cases "?specs = []")
        case False
        with create_round_roots_distinct [of s2 rc ?specs env] registered_rounds [OF s1 rc] Q m Inr show ?thesis
          by (simp add: reconcile_case_def)
      next
        case True
        have "preserves ?P (bindS (reconcile_roots env c ?roots start_reconciliation) (review_outcome env c (length ?roots)))"
          by (intro preserves_intros preserves_reconcile_roots [OF distinct_close] preserves_review_outcome [OF distinct_closed])
        from preservesD [OF this, where s = s2] Q m True Inr show ?thesis by (simp add: reconcile_case_def)
      qed
    qed
  qed
  have new: "?P (snd (bootstrap_new_case env c rc s1))"
    if s1: "?P s1" and rc: "get_research_case (pl_db s1) c = Some rc" and none: "case_roots (pl_db s1) c = []" for c rc s1
  proof -
    have "slots_free c (rc_rounds rc) (pl_db s1)"
      using registered_rounds [OF s1 rc] none
      by (auto simp: slots_free_def root_slots_def case_roots_def case_tasks_def filter_empty_conv)
    with create_round_roots_distinct [OF s1] registered_rounds [OF s1 rc]
    have roots: "?P (snd (create_round_roots env rc (rc_rounds rc) s1))" by simp
    have "preserves ?P (bindS (request_review env c (''case_terminal_no_root:'' @ case_status_value (rc_status rc))) (\<lambda>_. retS (Continue False)))"
      "preserves ?P (bindS (add_task env (root_args (case_description rc) ''source_researcher'' c None)) (\<lambda>_. bindS (set_idle False) (\<lambda>_. retS (Return True))))"
      by (intro preserves_intros pipe_closedD [OF distinct_closed] distinct_add_plain)+
    with roots s1 show ?thesis by (auto simp: bootstrap_new_case_def dest: preservesD)
  qed
  show ?thesis
    using preservesD [OF preserves_bootstrap [OF distinct_closed old new] assms] .
qed

end
