(* ===== verification/CaseRoundRuns.thy ===== *)
theory CaseRoundRuns
  imports CasePipelineRuns
begin

text \<open>
  The operator's command of \<^verbatim>\<open>src/shared/case_rounds.py\<close>: when a round may start and what
  starting it does, how the diagnosis agrees with it, and how it meets the reviews that
  bootstrap keeps requesting.
\<close>

section \<open>Starting a round\<close>

lemma fold_max_ge: "a \<le> fold max xs a \<and> (\<forall>x \<in> set xs. x \<le> fold max xs a)" for a :: "'a :: linorder"
proof (induction xs arbitrary: a)
  case (Cons x xs)
  from Cons [of "max x a"] show ?case by auto
qed simp

lemma next_round_number_greater:
  "x \<in> set (qd_case_rounds db) \<Longrightarrow> cd_case_id x = c \<Longrightarrow> cd_number x < next_round_number db c"
  using fold_max_ge [of 0 "map cd_number (filter (\<lambda>r. cd_case_id r = c) (qd_case_rounds db))"]
  by (fastforce simp: next_round_number_def Let_def)

text \<open>The state of a case in which the command starts a round.\<close>

definition round_startable :: "queue_db \<Rightarrow> string \<Rightarrow> bool" where
  "round_startable db c \<longleftrightarrow> (\<exists>rc. get_research_case db c = Some rc \<and> rc_case_id rc = c \<and> rc_status rc \<in> {READY, CASE_RUNNING}) \<and>
     \<not> blank c \<and> (\<forall>t \<in> set (case_tasks db c). tk_status t = Completed) \<and> open_reviews db c = []"

lemma head_None: "(case xs of [] \<Rightarrow> None | x # _ \<Rightarrow> Some x) = None \<longleftrightarrow> xs = []"
  by (cases xs) simp_all

lemma active_case_task_None: "active_case_task db c = None \<longleftrightarrow> (\<forall>t \<in> set (case_tasks db c). \<not> active t)"
  unfolding active_case_task_def head_None sort_key_Nil_iff filter_empty_conv ..

lemma first_open_review_None: "first_open_review db c = None \<longleftrightarrow> open_reviews db c = []"
  unfolding first_open_review_def head_None sort_key_Nil_iff ..

lemma first_failed_task_None: "first_failed_task db c = None \<longleftrightarrow> (\<forall>t \<in> set (case_tasks db c). tk_status t \<noteq> Failed)"
  unfolding first_failed_task_def head_None sort_key_Nil_iff filter_empty_conv ..

lemma all_completed_iff:
  "(\<forall>t \<in> A. tk_status t = Completed) \<longleftrightarrow> (\<forall>t \<in> A. \<not> active t) \<and> (\<forall>t \<in> A. tk_status t \<noteq> Failed)"
  by (metis active_def task_status.distinct task_status.exhaust)

definition ids_free :: "queue_db \<Rightarrow> string \<Rightarrow> string \<Rightarrow> bool" where
  "ids_free db r t \<longleftrightarrow> task_row db t = None \<and> lookup_row cd_round_id (qd_case_rounds db) r = None \<and>
     lookup_row cd_root_task_id (qd_case_rounds db) t = None"

definition round_row_of :: "queue_db \<Rightarrow> string \<Rightarrow> string \<Rightarrow> string \<Rightarrow> instant \<Rightarrow> case_round" where
  "round_row_of db c r t now = \<lparr>cd_round_id = r, cd_case_id = c, cd_number = next_round_number db c, cd_root_task_id = t, cd_created_at = now\<rparr>"

lemma start_case_round_Inr:
  assumes "start_case_round db c r t now = Inr (row, db')"
  obtains rc where "get_research_case db c = Some rc" and "round_startable db c" and "ids_free db r t"
    and "row = round_row_of db c r t now"
    and "db' = db\<lparr>qd_tasks := qd_tasks db @ [round_root c rc (next_round_number db c) r t now],
      qd_case_rounds := qd_case_rounds db @ [row]\<rparr>"
proof -
  let ?row = "round_row_of db c r t now"
  from assms have nb: "\<not> blank c" by (auto simp: start_case_round_def)
  with assms obtain rc where got: "get_research_case db c = Some rc"
    by (cases "get_research_case db c") (simp_all add: start_case_round_def)
  from assms nb got have status: "rc_status rc = READY \<or> rc_status rc = CASE_RUNNING"
    by (simp add: start_case_round_def split: if_splits)
  from assms nb got status have val: "validate_task_binding (Some rc) (Some c) = Inr rc"
    by (cases "validate_task_binding (Some rc) (Some c)") (auto simp: start_case_round_def validate_task_binding_def split: if_splits)
  from assms nb got status val have i1: "active_case_task db c = None"
    by (cases "active_case_task db c") (auto simp: start_case_round_def)
  from assms nb got status val i1 have i2: "first_open_review db c = None"
    by (cases "first_open_review db c") (auto simp: start_case_round_def)
  from assms nb got status val i1 i2 have i3: "first_failed_task db c = None"
    by (cases "first_failed_task db c") (auto simp: start_case_round_def)
  note idle = i1 i2 i3 and rc = got status
  from assms nb got status val idle have free: "task_row db t = None"
    and ins: "insert_round (db\<lparr>qd_tasks := qd_tasks db @ [round_root c rc (next_round_number db c) r t now]\<rparr>) ?row = Inr db'"
    and row: "row = ?row"
    by (auto simp: start_case_round_def Let_def round_row_of_def bindR_Inr_iff split: if_splits)
  from val have "rc_case_id rc = c" by (auto simp: validate_task_binding_def split: if_splits)
  with rc nb idle have "round_startable db c"
    unfolding round_startable_def all_completed_iff
    by (auto simp: active_case_task_None first_open_review_None first_failed_task_None)
  moreover from ins row have "ids_free db r t" "db' = db\<lparr>qd_tasks := qd_tasks db @ [round_root c rc (next_round_number db c) r t now],
      qd_case_rounds := qd_case_rounds db @ [row]\<rparr>"
    using free by (auto simp: insert_round_def ids_free_def round_row_of_def split: if_splits)
  ultimately show thesis using that rc(1) row by blast
qed

lemma start_case_round_starts:
  assumes st: "round_startable db c" and free: "ids_free db r t"
  shows "\<exists>db'. start_case_round db c r t now = Inr (round_row_of db c r t now, db')"
proof -
  from st obtain rc where rc: "get_research_case db c = Some rc" "rc_case_id rc = c" "rc_status rc \<in> {READY, CASE_RUNNING}"
    and nb: "\<not> blank c" and "open_reviews db c = []" and "\<forall>t \<in> set (case_tasks db c). tk_status t = Completed"
    by (auto simp: round_startable_def)
  then have idle: "active_case_task db c = None" "first_open_review db c = None" "first_failed_task db c = None"
    unfolding active_case_task_None first_open_review_None first_failed_task_None all_completed_iff by auto
  have "c \<noteq> []" using nb by auto
  with rc have val: "validate_task_binding (Some rc) (Some c) = Inr rc" by (auto simp: validate_task_binding_def)
  have "lookup_row (\<lambda>x. (cd_case_id x, cd_number x)) (qd_case_rounds db) (c, next_round_number db c) = None"
    using next_round_number_greater [of _ db c] by (fastforce simp: lookup_row_None_iff)
  with rc nb idle val free show ?thesis
    by (auto simp: start_case_round_def Let_def insert_round_def ids_free_def round_row_of_def)
qed

text \<open>
  A round starts only for a registered runnable case all of whose tasks have completed and
  that has no open review; it gets a number above every earlier one of the case and exactly
  one new pending root, recorded with it, and no second round starts while that root is active.
\<close>

theorem one_round_at_a_time:
  assumes "start_case_round db c r t now = Inr (row, db')"
  shows "round_startable db c \<and> (\<forall>x \<in> set (qd_case_rounds db). cd_case_id x = c \<longrightarrow> cd_number x < cd_number row) \<and>
    (\<exists>root. case_tasks db' c = case_tasks db c @ [root] \<and> tk_id root = t \<and> tk_round_id root = Some r \<and> active root) \<and>
    qd_case_rounds db' = qd_case_rounds db @ [row] \<and>
    (\<forall>r' t' now'. \<exists>m. start_case_round db' c r' t' now' = raise CaseRoundError m)"
proof (rule start_case_round_Inr [OF assms])
  fix rc assume rc: "get_research_case db c = Some rc" and st: "round_startable db c" and row: "row = round_row_of db c r t now"
    and db': "db' = db\<lparr>qd_tasks := qd_tasks db @ [round_root c rc (next_round_number db c) r t now],
      qd_case_rounds := qd_case_rounds db @ [row]\<rparr>"
  let ?root = "round_root c rc (next_round_number db c) r t now"
  have root: "tk_id ?root = t" "tk_round_id ?root = Some r" "active ?root" "tk_case_id ?root = Some c"
    by (simp_all add: round_root_def active_def)
  have tasks: "case_tasks db' c = case_tasks db c @ [?root]" using root by (simp add: case_tasks_def db')
  have "active_case_task db' c \<noteq> None" using root(3) tasks by (auto simp: active_case_task_None)
  then obtain a where a: "active_case_task db' c = Some a" by auto
  from st rc have rc': "get_research_case db' c = Some rc" "rc_case_id rc = c" "rc_status rc \<in> {READY, CASE_RUNNING}" "\<not> blank c"
    by (auto simp: round_startable_def db' get_research_case_def)
  then have "c \<noteq> []" by auto
  with rc' have val: "validate_task_binding (Some rc) (Some c) = Inr rc" by (auto simp: validate_task_binding_def)
  have "\<exists>m. start_case_round db' c r' t' now' = raise CaseRoundError m" for r' t' now'
    using rc' val a by (auto simp: start_case_round_def)
  moreover have "\<forall>x \<in> set (qd_case_rounds db). cd_case_id x = c \<longrightarrow> cd_number x < cd_number row"
    using next_round_number_greater by (auto simp: row round_row_of_def)
  ultimately show ?thesis using st tasks root by (auto simp: db')
qed

text \<open>
  C42: For a registered case past its draft the diagnosis is \<open>idle_awaiting_input\<close> exactly when
  the command would start a round.
\<close>

theorem diagnosis_agrees_with_start:
  assumes rc: "get_research_case db c = Some rc" "rc_case_id rc = c" and "rc_status rc \<noteq> DRAFT" and "\<not> blank c"
    and free: "ids_free db r t" and dg: "diagnose_case_state db c = Inr d"
  shows "dg_state d = ''idle_awaiting_input'' \<longleftrightarrow> (\<exists>row db'. start_case_round db c r t now = Inr (row, db'))"
proof -
  have counts: "count_status db c st = 0 \<longleftrightarrow> (\<forall>t \<in> set (case_tasks db c). tk_status t \<noteq> st)" for st
    by (simp add: count_status_def count_where_zero_iff)
  have "dg_state d = (if count_status db c Pending \<noteq> 0 \<or> count_status db c Running \<noteq> 0 then ''active''
      else if length (open_reviews db c) \<noteq> 0 then ''blocked''
      else if rc_status rc \<in> set terminal_case_statuses then ''terminal''
      else if count_status db c Failed \<noteq> 0 then ''blocked'' else ''idle_awaiting_input'')"
    using dg unfolding diagnose_case_state_def rc(1) Let_def using assms(4) by (auto split: if_splits)
  then have "dg_state d = ''idle_awaiting_input'' \<longleftrightarrow>
      count_status db c Pending = 0 \<and> count_status db c Running = 0 \<and> open_reviews db c = [] \<and>
      rc_status rc \<notin> set terminal_case_statuses \<and> count_status db c Failed = 0" by simp
  moreover have "rc_status rc \<notin> set terminal_case_statuses \<longleftrightarrow> rc_status rc \<in> {READY, CASE_RUNNING}"
    using assms(3) by (cases "rc_status rc") (simp_all add: terminal_case_statuses_def)
  moreover have "(\<forall>t \<in> set (case_tasks db c). tk_status t = Completed) \<longleftrightarrow>
      count_status db c Pending = 0 \<and> count_status db c Running = 0 \<and> count_status db c Failed = 0"
    unfolding counts all_completed_iff active_def by blast
  ultimately have "dg_state d = ''idle_awaiting_input'' \<longleftrightarrow> round_startable db c"
    using rc assms(4) by (auto simp: round_startable_def)
  moreover have "round_startable db c" if "start_case_round db c r t now = Inr (row, db')" for row db'
    by (rule start_case_round_Inr [OF that])
  ultimately show ?thesis
    using start_case_round_starts [OF _ free, of c now] by blast
qed


section \<open>Small cases\<close>

definition small_case :: "case_status \<Rightarrow> research_case" where
  "small_case st = \<lparr>rc_case_id = ''c'', rc_target_repository = ''o/r'', rc_target_commit = [], rc_scope_url = [],
     rc_scope_digest = [], rc_scope_reviewed_on = [], rc_hypothesis = [], rc_attacker_capability = [],
     rc_expected_invariant = [], rc_falsification = [], rc_execution_mode = LOCAL, rc_status = st,
     rc_allowed_techniques = [''source_pattern''], rc_rounds = []\<rparr>"

definition case_queue :: "case_status \<Rightarrow> queue_db" where
  "case_queue st = empty_queue\<lparr>qd_cases := [\<lparr>cr_case_id = ''c'', cr_payload = small_case st, cr_registered_at = 0\<rparr>]\<rparr>"

lemma small_case_simps:
  "get_research_case (case_queue st) ''c'' = Some (small_case st)" "rc_case_id (small_case st) = ''c''"
  "rc_status (small_case st) = st" "case_tasks (case_queue st) ''c'' = []" "open_reviews (case_queue st) ''c'' = []"
  "ids_free (case_queue st) ''r'' ''t''" "\<not> blank ''c''"
  by (simp_all add: get_research_case_def case_queue_def small_case_def case_tasks_def open_reviews_def empty_queue_def
      ids_free_def task_row_def blank_def is_space_def)

lemma small_startable: "round_startable (case_queue READY) ''c''"
  by (simp add: round_startable_def small_case_simps)

lemma one_round_at_a_time_witness:
  "\<exists>row db'. start_case_round (case_queue READY) ''c'' ''r'' ''t'' 5 = Inr (row, db') \<and>
     (\<exists>m. start_case_round db' ''c'' ''r2'' ''t2'' 6 = raise CaseRoundError m)"
proof -
  from start_case_round_starts [OF small_startable small_case_simps(6)] obtain db'
    where run: "start_case_round (case_queue READY) ''c'' ''r'' ''t'' 5 = Inr (round_row_of (case_queue READY) ''c'' ''r'' ''t'' 5, db')"
    by blast
  with one_round_at_a_time [OF run] show ?thesis by blast
qed

lemma diagnosis_agrees_with_start_witness:
  "\<exists>d row db'. diagnose_case_state (case_queue READY) ''c'' = Inr d \<and> dg_state d = ''idle_awaiting_input'' \<and>
     start_case_round (case_queue READY) ''c'' ''r'' ''t'' 5 = Inr (row, db')"
proof -
  obtain d where d: "diagnose_case_state (case_queue READY) ''c'' = Inr d" "dg_state d = ''idle_awaiting_input''"
    by (simp add: diagnose_case_state_def small_case_simps count_status_def count_where_def terminal_case_statuses_def)
  with diagnosis_agrees_with_start [OF small_case_simps(1,2) _ small_case_simps(7,6) d(1), of 5] show ?thesis
    by (auto simp: small_case_simps)
qed

section \<open>What modelling showed\<close>

text \<open>A registered draft is diagnosed as awaiting the operator, but the command refuses it.\<close>

lemma draft_diagnosed_idle:
  "(case diagnose_case_state (case_queue DRAFT) ''c'' of Inr d \<Rightarrow> dg_state d = ''idle_awaiting_input'' | Inl _ \<Rightarrow> False) \<and>
   start_case_round (case_queue DRAFT) ''c'' ''r'' ''t'' 5 = raise CaseRoundError ''research_case_not_runnable:draft''"
  by (simp add: diagnose_case_state_def start_case_round_def small_case_simps count_status_def count_where_def
      terminal_case_statuses_def)

text \<open>
  A verdict outside the three that a round may store is replaced: the branch that validated
  as out of scope is recorded as inconclusive.
\<close>

lemma out_of_scope_recorded_inconclusive:
  "normalize_verdict ''out-of-scope'' = ''OUT_OF_SCOPE'' \<and> stored_verdict ''OUT_OF_SCOPE'' = ''INCONCLUSIVE''"
  by code_simp

text \<open>
  A resolved review does not stay resolved: once all branches of a case have ended every
  bootstrap step requests a review again, which then blocks the operator's command.
\<close>

definition ended_root :: task where
  "ended_root = (stopped_row ''t'' 1 None)\<lparr>tk_role := Some ''source_researcher'', tk_case_id := Some ''c''\<rparr>"

definition ended_queue :: queue_db where
  "ended_queue = (case_queue READY)\<lparr>qd_tasks := [ended_root]\<rparr>"

definition small_env :: environment where
  "small_env = \<lparr>env_uuid = (\<lambda>n. CHR ''u'' # nat_str n), env_clock = int\<rparr>"

definition pipe_of :: "queue_db \<Rightarrow> nat \<Rightarrow> pipeline" where
  "pipe_of db n = \<lparr>pl_db = db, pl_idle_logged = False, pl_drawn = n\<rparr>"

lemma resolved_review_reopens:
  "let s1 = snd (bootstrap_cases small_env (pipe_of ended_queue 0));
       ids = map hv_id (open_reviews (pl_db s1) ''c'');
       resolved = (case resolve_human_review (pl_db s1) (hd ids) ''seen'' 9 of Inr (_, db) \<Rightarrow> db | Inl _ \<Rightarrow> pl_db s1);
       s2 = snd (bootstrap_cases small_env (pipe_of resolved 10))
   in length ids = 1 \<and> open_reviews resolved ''c'' = [] \<and> length (open_reviews (pl_db s2) ''c'') = 1"
  by code_simp


section \<open>Bootstrap on small cases\<close>

definition small_round :: round_spec where
  "small_round = \<lparr>rs_round_id = ''r1'', rs_technique = ''source_pattern'', rs_hypothesis = ''h'', rs_atoms = [],
     rs_falsification = ''f'', rs_priority = 1, rs_deadline_days = 30\<rparr>"

definition ended_round_queue :: queue_db where
  "ended_round_queue = empty_queue\<lparr>
     qd_cases := [\<lparr>cr_case_id = ''c'', cr_payload = (small_case READY)\<lparr>rc_rounds := [small_round]\<rparr>, cr_registered_at = 0\<rparr>],
     qd_tasks := [ended_root\<lparr>tk_round_id := Some ''r1''\<rparr>],
     qd_rounds := [new_round_row ''r1'' ''c'' ''source_pattern'' 0 day]\<rparr>"

lemma rounds_close_only_after_their_branch_witness:
  "\<exists>c i. branch_over ended_round_queue c i"
proof -
  let ?s = "pipe_of ended_round_queue 0"
  have uid: "key_unique tk_id (qd_tasks (pl_db ?s))"
    by (simp add: pipe_of_def ended_round_queue_def key_unique_def)
  have closed: "list_ex (\<lambda>r. \<not> round_active r) (qd_rounds (pl_db (snd (bootstrap_cases small_env ?s))))" by code_simp
  have "list_all round_active (qd_rounds (pl_db ?s))" by code_simp
  then have "\<forall>r \<in> set (qd_rounds (pl_db ?s)). round_active r" by (simp only: list_all_iff)
  with closed rounds_close_only_after_their_branch [OF uid, of _ small_env] show ?thesis
    unfolding list_ex_iff by (fastforce simp: pipe_of_def)
qed

lemma bootstrap_creates_each_root_once_witness:
  "roots_distinct (pl_db (snd (bootstrap_cases small_env (pipe_of ended_round_queue 0))))"
proof (rule bootstrap_creates_each_root_once)
  show "roots_distinct (pl_db (pipe_of ended_round_queue 0))"
    by (simp add: roots_distinct_def root_slots_def pipe_of_def ended_round_queue_def empty_queue_def small_case_def)
qed

end
