(* ===== verification/TaskGraph.thy ===== *)
theory TaskGraph
  imports Prelude
begin

text \<open>
  The dependency graph and the admission decisions of \<^verbatim>\<open>orchestrator/task_graph.py\<close>:
  the checks of \<^verbatim>\<open>TaskNode\<close> and \<^verbatim>\<open>TaskGraph\<close>, the depth-first search that orders the nodes
  and refuses cycles, \<^verbatim>\<open>plan\<close> and \<^verbatim>\<open>graph_retry_allowed\<close>. The set \<^verbatim>\<open>visiting\<close> of the search is an
  argument, since every call removes what it added; the interpreter's limit on nested
  calls is not modelled (a chain of about a thousand dependencies meets it and raises
  RecursionError).
\<close>

section \<open>Statuses and identifiers\<close>

datatype execution_status =
  E_PENDING | E_RUNNING | E_SUCCEEDED | E_FAILED | E_TIMED_OUT | E_INCOMPLETE | E_BLOCKED

definition execution_status_of :: "string \<Rightarrow> execution_status option" where
  "execution_status_of s = map_of [(''PENDING'', E_PENDING), (''RUNNING'', E_RUNNING),
     (''SUCCEEDED'', E_SUCCEEDED), (''FAILED'', E_FAILED), (''TIMED_OUT'', E_TIMED_OUT),
     (''INCOMPLETE'', E_INCOMPLETE), (''BLOCKED'', E_BLOCKED)] s"

fun terminal_failure :: "execution_status \<Rightarrow> bool" where
  "terminal_failure E_FAILED = True"
| "terminal_failure E_TIMED_OUT = True"
| "terminal_failure E_INCOMPLETE = True"
| "terminal_failure E_BLOCKED = True"
| "terminal_failure _ = False"

text \<open>The value a caller's mapping holds for a task: a status, a text, or anything else.\<close>

datatype raw_status = Status execution_status | Text string | NoText

definition name_start :: "char \<Rightarrow> bool" where
  "name_start c \<longleftrightarrow> (let n = (of_char c :: nat) in
     (48 \<le> n \<and> n \<le> 57) \<or> (65 \<le> n \<and> n \<le> 90) \<or> (97 \<le> n \<and> n \<le> 122))"

definition name_char :: "char \<Rightarrow> bool" where
  "name_char c \<longleftrightarrow> name_start c \<or> c \<in> set ''_.:-''"

text \<open>\<^verbatim>\<open>value.strip() and _NAME.fullmatch(value)\<close>.\<close>

definition valid_name :: "string \<Rightarrow> bool" where
  "valid_name s \<longleftrightarrow> strip s \<noteq> [] \<and>
     (case s of [] \<Rightarrow> False | c # cs \<Rightarrow> name_start c \<and> length cs \<le> 127 \<and> list_all name_char cs)"

text \<open>\<^verbatim>\<open>repr\<close> of a text below code point 256.\<close>

definition hex_lower :: "nat \<Rightarrow> char" where
  "hex_lower n = ''0123456789abcdef'' ! n"

definition repr_char :: "char \<Rightarrow> char \<Rightarrow> string" where
  "repr_char q c = (let n = (of_char c :: nat) in
     if c = q \<or> c = CHR 0x5C then [CHR 0x5C, c]
     else if n = 10 then [CHR 0x5C, CHR ''n'']
     else if n = 13 then [CHR 0x5C, CHR ''r'']
     else if n = 9 then [CHR 0x5C, CHR ''t'']
     else if n < 32 \<or> (127 \<le> n \<and> n \<le> 160) \<or> n = 173
       then [CHR 0x5C, CHR ''x'', hex_lower (n div 16), hex_lower (n mod 16)]
     else [c])"

definition py_repr :: "string \<Rightarrow> string" where
  "py_repr s = (let q = if CHR 0x27 \<in> set s \<and> CHR 0x22 \<notin> set s then CHR 0x22 else CHR 0x27 in
     [q] @ concat (map (repr_char q) s) @ [q])"

fun comma_join :: "string list \<Rightarrow> string" where
  "comma_join [] = []"
| "comma_join [x] = x"
| "comma_join (x # xs) = x @ '', '' @ comma_join xs"

section \<open>Nodes\<close>

record task_node =
  node_id :: string
  role :: string
  dependencies :: "string list"
  max_attempts :: int
  timeout_seconds :: int
  resource_units :: int

definition make_task_node :: "string \<Rightarrow> string \<Rightarrow> string list \<Rightarrow> int \<Rightarrow> int \<Rightarrow> int \<Rightarrow> task_node result" where
  "make_task_node i ro deps attempts timeout units =
    (if \<not> valid_name i then raise TaskGraphError ''node_id must be a valid non-empty identifier''
     else if \<not> valid_name ro then raise TaskGraphError ''role must be a valid non-empty identifier''
     else if list_ex (\<lambda>d. \<not> valid_name d) deps
       then raise TaskGraphError ''dependencies must contain valid non-empty node IDs''
     else if \<not> distinct deps then raise TaskGraphError ''dependencies must not contain duplicates''
     else if i \<in> set deps then raise TaskGraphError ''a task cannot depend on itself''
     else if attempts < 1 then raise TaskGraphError ''max_attempts must be a positive integer''
     else if timeout < 1 then raise TaskGraphError ''timeout_seconds must be a positive integer''
     else if units < 1 then raise TaskGraphError ''resource_units must be a positive integer''
     else Inr \<lparr>node_id = i, role = ro, dependencies = deps, max_attempts = attempts,
               timeout_seconds = timeout, resource_units = units\<rparr>)"

text \<open>A node some call of the constructor returned.\<close>

definition node_ok :: "task_node \<Rightarrow> bool" where
  "node_ok n \<longleftrightarrow> make_task_node (node_id n) (role n) (dependencies n) (max_attempts n)
     (timeout_seconds n) (resource_units n) = Inr n"

section \<open>The graph\<close>

abbreviation node_ids :: "task_node list \<Rightarrow> string list" where
  "node_ids ns \<equiv> map node_id ns"

abbreviation node_of :: "task_node list \<Rightarrow> string \<Rightarrow> task_node option" where
  "node_of \<equiv> lookup_row node_id"

lemma path_measure:
  assumes "node_of ns i = Some n" and "i \<notin> set visiting"
  shows "card (set (node_ids ns) - set (i # visiting)) < card (set (node_ids ns) - set visiting)"
proof (rule psubset_card_mono)
  from assms(1) have "i \<in> set (node_ids ns)" by (auto dest!: lookup_row_SomeD)
  with assms(2) show "set (node_ids ns) - set (i # visiting) \<subset> set (node_ids ns) - set visiting" by auto
qed simp

text \<open>
  \<^verbatim>\<open>visit\<close> of \<^verbatim>\<open>_validate_acyclic\<close>, and its loop over a list of nodes. The list
  \<open>order\<close> is also the set \<^verbatim>\<open>visited\<close>, the two grow together. The path grows inside the
  node ids, which bounds the nesting.
\<close>

function visit :: "task_node list \<Rightarrow> string list \<Rightarrow> string \<Rightarrow> string list \<Rightarrow> string list result"
  and visit_all :: "task_node list \<Rightarrow> string list \<Rightarrow> string list \<Rightarrow> string list \<Rightarrow> string list result" where
  "visit ns visiting i order =
    (if i \<in> set visiting then raise TaskGraphError ''task dependencies contain a cycle''
     else if i \<in> set order then Inr order
     else case node_of ns i of
       None \<Rightarrow> raise KeyError (py_repr i)
     | Some n \<Rightarrow> bindR (visit_all ns (i # visiting) (dependencies n) order) (\<lambda>order'. Inr (order' @ [i])))"
| "visit_all ns visiting [] order = Inr order"
| "visit_all ns visiting (i # is) order =
    bindR (visit ns visiting i order) (\<lambda>order'. visit_all ns visiting is order')"
  by pat_completeness auto

termination
  by (relation "measures
      [\<lambda>x. case x of Inl (ns, p, i, ord) \<Rightarrow> card (set (node_ids ns) - set p)
                   | Inr (ns, p, is, ord) \<Rightarrow> card (set (node_ids ns) - set p),
       \<lambda>x. case x of Inl _ \<Rightarrow> 0 | Inr (ns, p, is, ord) \<Rightarrow> Suc (length is)]")
    (use path_measure in \<open>auto simp del: list.set\<close>)

declare visit.simps [simp del]

definition validate_acyclic :: "task_node list \<Rightarrow> string list result" where
  "validate_acyclic ns = visit_all ns [] (node_ids ns) []"

record task_graph =
  nodes :: "task_node list"
  max_parallelism :: int
  max_resource_units :: int
  order :: "string list"

text \<open>The loop of the constructor that checks the dependencies and the size of each node.\<close>

fun check_nodes :: "string list \<Rightarrow> int \<Rightarrow> task_node list \<Rightarrow> unit result" where
  "check_nodes ids units [] = Inr ()"
| "check_nodes ids units (n # ns) =
    (let unknown = sort (remdups (filter (\<lambda>d. d \<notin> set ids) (dependencies n))) in
     if unknown \<noteq> [] then raise TaskGraphError
       (''task '' @ py_repr (node_id n) @ '' has unknown dependencies: '' @ comma_join unknown)
     else if resource_units n > units then raise TaskGraphError
       (''task '' @ py_repr (node_id n) @ '' exceeds the graph resource budget'')
     else check_nodes ids units ns)"

definition make_task_graph :: "task_node list \<Rightarrow> int \<Rightarrow> int \<Rightarrow> task_graph result" where
  "make_task_graph ns par units =
    (if ns = [] then raise TaskGraphError ''nodes must be a non-empty list or tuple''
     else if par < 1 then raise TaskGraphError ''max_parallelism must be a positive integer''
     else if units < 1 then raise TaskGraphError ''max_resource_units must be a positive integer''
     else if \<not> distinct (node_ids ns) then raise TaskGraphError ''node IDs must be unique''
     else bindR (check_nodes (node_ids ns) units ns) (\<lambda>_.
       bindR (validate_acyclic ns) (\<lambda>ord.
         Inr \<lparr>nodes = ns, max_parallelism = par, max_resource_units = units, order = ord\<rparr>)))"

section \<open>Plans\<close>

definition status_of_value :: "raw_status \<Rightarrow> string \<Rightarrow> execution_status result" where
  "status_of_value v i = (case v of
      Status s \<Rightarrow> Inr s
    | Text t \<Rightarrow> (case execution_status_of t of
        Some s \<Rightarrow> Inr s
      | None \<Rightarrow> raise TaskGraphError
          (''task '' @ py_repr i @ '' has unknown execution status '' @ py_repr t))
    | NoText \<Rightarrow> raise TaskGraphError
        (''task '' @ py_repr i @ '' execution status must be a valid string''))"

text \<open>\<^verbatim>\<open>normalized\<close>: the statuses of all nodes, in the order of the nodes.\<close>

fun normalize :: "(string \<times> raw_status) list \<Rightarrow> task_node list \<Rightarrow> (string \<times> execution_status) list result" where
  "normalize sts [] = Inr []"
| "normalize sts (n # ns) =
    bindR (status_of_value (case map_of sts (node_id n) of Some v \<Rightarrow> v | None \<Rightarrow> Status E_PENDING) (node_id n)) (\<lambda>s.
    bindR (normalize sts ns) (\<lambda>rest. Inr ((node_id n, s) # rest)))"

abbreviation status_in :: "(string \<times> execution_status) list \<Rightarrow> string \<Rightarrow> execution_status" where
  "status_in norm i \<equiv> the (map_of norm i)"

definition premature :: "(string \<times> execution_status) list \<Rightarrow> task_node \<Rightarrow> bool" where
  "premature norm n \<longleftrightarrow> status_in norm (node_id n) \<in> {E_RUNNING, E_SUCCEEDED} \<and>
     list_ex (\<lambda>d. status_in norm d \<noteq> E_SUCCEEDED) (dependencies n)"

record schedule_plan =
  ready :: "string list"
  blocked :: "string list"
  waiting :: "string list"
  running_count :: int
  running_resource_units :: int

text \<open>The state of the scheduling loop: the three lists and what is still free.\<close>

record schedule =
  s_ready :: "string list"
  s_blocked :: "string list"
  s_waiting :: "string list"
  free_slots :: int
  free_resources :: int

definition schedule_node :: "task_node list \<Rightarrow> (string \<times> execution_status) list \<Rightarrow> string \<Rightarrow> schedule \<Rightarrow> schedule" where
  "schedule_node ns norm i s =
    (let n = the (node_of ns i); deps = dependencies n in
     if status_in norm i \<noteq> E_PENDING then s
     else if list_ex (\<lambda>d. terminal_failure (status_in norm d)) deps \<or> list_ex (\<lambda>d. d \<in> set (s_blocked s)) deps
       then s\<lparr>s_blocked := s_blocked s @ [i]\<rparr>
     else if \<not> list_all (\<lambda>d. status_in norm d = E_SUCCEEDED) deps
       then s\<lparr>s_waiting := s_waiting s @ [i]\<rparr>
     else if free_slots s > 0 \<and> resource_units n \<le> free_resources s
       then s\<lparr>s_ready := s_ready s @ [i], free_slots := free_slots s - 1,
              free_resources := free_resources s - resource_units n\<rparr>
     else s\<lparr>s_waiting := s_waiting s @ [i]\<rparr>)"

definition running_nodes :: "task_node list \<Rightarrow> (string \<times> execution_status) list \<Rightarrow> task_node list" where
  "running_nodes ns norm = map (\<lambda>(i, _). the (node_of ns i)) (filter (\<lambda>(_, s). s = E_RUNNING) norm)"

abbreviation units_of :: "task_node list \<Rightarrow> int" where
  "units_of ns \<equiv> sum_list (map resource_units ns)"

definition plan :: "task_graph \<Rightarrow> (string \<times> raw_status) list \<Rightarrow> schedule_plan result" where
  "plan g sts =
    (let ns = nodes g; unknown = filter (\<lambda>i. i \<notin> set (node_ids ns)) (map fst sts) in
     if unknown \<noteq> [] then raise TaskGraphError
       (''statuses contain unknown task IDs: '' @ comma_join (sort (remdups unknown)))
     else bindR (normalize sts ns) (\<lambda>norm.
       case find (premature norm) ns of
         Some n \<Rightarrow> raise TaskGraphError (''task '' @ py_repr (node_id n)
           @ '' cannot be RUNNING or SUCCEEDED before all dependencies succeed'')
       | None \<Rightarrow>
         (let running = running_nodes ns norm; count = int (length running); units = units_of running in
          if count > max_parallelism g then raise TaskGraphError ''running tasks exceed max_parallelism''
          else if units > max_resource_units g then raise TaskGraphError ''running tasks exceed max_resource_units''
          else
            let s = fold (schedule_node ns norm) (order g)
              \<lparr>s_ready = [], s_blocked = [], s_waiting = [],
               free_slots = max_parallelism g - count, free_resources = max_resource_units g - units\<rparr>
            in Inr \<lparr>ready = s_ready s, blocked = s_blocked s, waiting = s_waiting s,
                    running_count = count, running_resource_units = units\<rparr>)))"

definition graph_retry_allowed :: "task_graph \<Rightarrow> string \<Rightarrow> int \<Rightarrow> raw_status \<Rightarrow> bool result" where
  "graph_retry_allowed g i used last_status =
    (case node_of (nodes g) i of
       None \<Rightarrow> raise TaskGraphError (''unknown task ID '' @ py_repr i)
     | Some n \<Rightarrow>
       (if used < 1 then raise TaskGraphError ''attempts_used must be a positive integer''
        else bindR (status_of_value last_status i) (\<lambda>s.
          Inr (s \<in> {E_FAILED, E_TIMED_OUT, E_INCOMPLETE} \<and> used < max_attempts n))))"

end
