(* ===== verification/TaskGraphRuns.thy ===== *)
theory TaskGraphRuns
  imports TaskGraph
begin

text \<open>
  What the task graph promises: the constructor accepts exactly the well-formed acyclic
  graphs and orders them topologically; a plan sorts the pending tasks into ready, blocked
  and waiting, stays within the budgets and never stalls.
\<close>

section \<open>The depth-first search\<close>

definition dep_edges :: "task_node list \<Rightarrow> (string \<times> string) set" where
  "dep_edges ns = {(d, node_id n) | n d. n \<in> set ns \<and> d \<in> set (dependencies n)}"

definition topological :: "task_node list \<Rightarrow> string list \<Rightarrow> bool" where
  "topological ns ord \<longleftrightarrow> distinct ord \<and> set ord \<subseteq> set (node_ids ns) \<and>
     (\<forall>xs i ys n. ord = xs @ i # ys \<longrightarrow> node_of ns i = Some n \<longrightarrow> set (dependencies n) \<subseteq> set xs)"

lemma dep_edgesI: "n \<in> set ns \<Longrightarrow> d \<in> set (dependencies n) \<Longrightarrow> (d, node_id n) \<in> dep_edges ns"
  by (auto simp: dep_edges_def)

lemma topological_split:
  "topological ns (xs @ i # ys) \<Longrightarrow> node_of ns i = Some n \<Longrightarrow> set (dependencies n) \<subseteq> set xs"
  unfolding topological_def by blast

lemma topological_Nil [simp]: "topological ns []"
  by (simp add: topological_def)

lemma topological_snoc:
  assumes "topological ns ord" and "i \<notin> set ord" and "node_of ns i = Some n"
    and "set (dependencies n) \<subseteq> set ord"
  shows "topological ns (ord @ [i])"
proof -
  have "set (dependencies m) \<subseteq> set xs"
    if "ord @ [i] = xs @ j # ys" and "node_of ns j = Some m" for xs j ys m
  proof (cases ys rule: rev_cases)
    case Nil
    with that assms show ?thesis by auto
  next
    case (snoc zs k)
    with that(1) have "ord = xs @ j # zs" by simp
    with that(2) assms(1) show ?thesis by (auto simp: topological_def)
  qed
  moreover from assms(3) have "i \<in> set (node_ids ns)" by (auto dest!: lookup_row_SomeD)
  ultimately show ?thesis using assms(1,2) unfolding topological_def by auto
qed

lemma visit_orders:
  "visit ns p i ord = Inr ord' \<Longrightarrow> topological ns ord \<Longrightarrow>
     topological ns ord' \<and> i \<in> set ord' \<and> (\<exists>zs. ord' = ord @ zs \<and> set zs \<inter> set p = {})"
  "visit_all ns p is ord = Inr ord' \<Longrightarrow> topological ns ord \<Longrightarrow>
     topological ns ord' \<and> set is \<subseteq> set ord' \<and> (\<exists>zs. ord' = ord @ zs \<and> set zs \<inter> set p = {})"
proof (induction ns p i ord and ns p "is" ord arbitrary: ord' and ord' rule: visit_visit_all.induct)
  case (1 ns p i ord)
  show ?case
  proof (cases "i \<in> set ord")
    case True
    with 1(2,3) show ?thesis by (simp add: visit.simps split: if_splits)
  next
    case False
    with 1(2) have fresh: "i \<notin> set p" by (simp add: visit.simps split: if_splits)
    with 1(2) False obtain n ord1 where n: "node_of ns i = Some n"
      and v: "visit_all ns (i # p) (dependencies n) ord = Inr ord1" and ord': "ord' = ord1 @ [i]"
      by (auto simp: visit.simps bindR_Inr_iff split: option.splits)
    from 1(1) [OF fresh False n v 1(3)] obtain zs where t: "topological ns ord1"
      and d: "set (dependencies n) \<subseteq> set ord1" and zs: "ord1 = ord @ zs" "set zs \<inter> set (i # p) = {}"
      by blast
    from zs False have "i \<notin> set ord1" by auto
    from topological_snoc [OF t this n d] zs fresh show ?thesis by (auto simp: ord')
  qed
next
  case (2 ns p ord)
  then show ?case by simp
next
  case (3 ns p i "is" ord)
  from 3(3) obtain ord1 where v: "visit ns p i ord = Inr ord1" "visit_all ns p is ord1 = Inr ord'"
    by (auto simp: bindR_Inr_iff)
  from 3(1) [OF v(1) 3(4)] obtain zs where "topological ns ord1" "i \<in> set ord1"
    "ord1 = ord @ zs" "set zs \<inter> set p = {}" by blast
  with 3(2) [OF v(2)] show ?case by auto
qed

definition cycle_error :: exc where
  "cycle_error = Exc TaskGraphError ''task dependencies contain a cycle''"

lemma visit_fails:
  "visit ns p i ord = Inl e \<Longrightarrow> \<forall>n \<in> set ns. set (dependencies n) \<subseteq> set (node_ids ns) \<Longrightarrow>
     i \<in> set (node_ids ns) \<Longrightarrow> \<forall>y \<in> set p. (i, y) \<in> (dep_edges ns)\<^sup>+ \<Longrightarrow>
     e = cycle_error \<and> \<not> acyclic (dep_edges ns)"
  "visit_all ns p is ord = Inl e \<Longrightarrow> \<forall>n \<in> set ns. set (dependencies n) \<subseteq> set (node_ids ns) \<Longrightarrow>
     set is \<subseteq> set (node_ids ns) \<Longrightarrow> \<forall>i \<in> set is. \<forall>y \<in> set p. (i, y) \<in> (dep_edges ns)\<^sup>+ \<Longrightarrow>
     e = cycle_error \<and> \<not> acyclic (dep_edges ns)"
proof (induction ns p i ord and ns p "is" ord rule: visit_visit_all.induct)
  case (1 ns p i ord)
  show ?case
  proof (cases "i \<in> set p")
    case True
    with 1(2,5) show ?thesis by (auto simp: visit.simps cycle_error_def acyclic_def)
  next
    case False
    from 1(4) obtain n where n: "node_of ns i = Some n"
      by (cases "node_of ns i") (auto simp: lookup_row_None_iff)
    from 1(2) False have new: "i \<notin> set ord" by (auto simp: visit.simps)
    from 1(2) False new n have v: "visit_all ns (i # p) (dependencies n) ord = Inl e"
      by (simp add: visit.simps) (metis bindR.elims sum.distinct(1))
    from n have mem: "n \<in> set ns" "node_id n = i" by (auto dest: lookup_row_SomeD)
    then have e: "(d, i) \<in> dep_edges ns" if "d \<in> set (dependencies n)" for d
      using that by (auto simp: dep_edges_def)
    have "\<forall>d \<in> set (dependencies n). \<forall>y \<in> set (i # p). (d, y) \<in> (dep_edges ns)\<^sup>+"
    proof (intro ballI)
      fix d y
      assume d: "d \<in> set (dependencies n)" and y: "y \<in> set (i # p)"
      show "(d, y) \<in> (dep_edges ns)\<^sup>+"
      proof (cases "y = i")
        case True
        with e [OF d] show ?thesis by auto
      next
        case False
        with y 1(5) have "(i, y) \<in> (dep_edges ns)\<^sup>+" by simp
        with e [OF d] show ?thesis by (rule trancl_into_trancl2)
      qed
    qed
    with 1(1) [OF False new n v 1(3)] mem 1(3) show ?thesis by blast
  qed
next
  case (2 ns p ord)
  then show ?case by simp
next
  case (3 ns p i "is" ord)
  show ?case
  proof (cases "visit ns p i ord")
    case (Inl e')
    with 3(3) have "e' = e" by simp
    with 3(1) Inl 3(4-6) show ?thesis by simp
  next
    case (Inr ord1)
    with 3(3) have "visit_all ns p is ord1 = Inl e" by simp
    with 3(2) 3(4-6) show ?thesis by simp
  qed
qed

lemma takeWhile_first: "d \<notin> set us \<Longrightarrow> takeWhile (\<lambda>x. x \<noteq> d) (us @ d # vs) = us"
  by (induction us) auto

lemma topological_acyclic:
  assumes t: "topological ns ord" and all: "set (node_ids ns) \<subseteq> set ord" and ids: "distinct (node_ids ns)"
  shows "acyclic (dep_edges ns)"
proof -
  let ?pos = "\<lambda>i. length (takeWhile (\<lambda>x. x \<noteq> i) ord)"
  have "?pos d < ?pos i" if edge: "(d, i) \<in> dep_edges ns" for d i
  proof -
    from edge obtain n where n: "n \<in> set ns" "node_id n = i" "d \<in> set (dependencies n)"
      by (auto simp: dep_edges_def)
    with all have "i \<in> set ord" by auto
    then obtain xs ys where split: "ord = xs @ i # ys" and first: "i \<notin> set xs"
      by (metis split_list_first)
    have "node_of ns i = Some n"
      using lookup_row_mem [of node_id ns n] ids n by (simp add: key_unique_def)
    with t split have "set (dependencies n) \<subseteq> set xs" by (auto dest: topological_split)
    with n have d: "d \<in> set xs" by blast
    then obtain us vs where us: "xs = us @ d # vs" and new: "d \<notin> set us" by (metis split_list_first)
    from new have "?pos d = length us" by (simp add: split us takeWhile_first)
    moreover from first have "takeWhile (\<lambda>x. x \<noteq> i) ord = xs" by (simp add: split takeWhile_first)
    ultimately show ?thesis by (simp add: us)
  qed
  then have "dep_edges ns \<subseteq> measure ?pos" by auto
  then show ?thesis by (meson acyclic_subset wf_acyclic wf_measure)
qed

section \<open>Construction\<close>

definition graph_well_formed :: "task_node list \<Rightarrow> int \<Rightarrow> int \<Rightarrow> bool" where
  "graph_well_formed ns par units \<longleftrightarrow> ns \<noteq> [] \<and> 1 \<le> par \<and> 1 \<le> units \<and> distinct (node_ids ns) \<and>
     (\<forall>n \<in> set ns. set (dependencies n) \<subseteq> set (node_ids ns) \<and> resource_units n \<le> units)"

lemma check_nodes_Inr: "check_nodes ids units ns = Inr u \<longleftrightarrow>
   (\<forall>n \<in> set ns. set (dependencies n) \<subseteq> set ids \<and> resource_units n \<le> units)"
  by (induction ns) (auto simp: Let_def filter_empty_conv)

lemma validate_acyclic_Inr:
  assumes "validate_acyclic ns = Inr ord" and "distinct (node_ids ns)"
  shows "topological ns ord" and "set ord = set (node_ids ns)" and "acyclic (dep_edges ns)"
proof -
  from visit_orders(2) [OF assms(1) [unfolded validate_acyclic_def]]
  have t: "topological ns ord" and all: "set (node_ids ns) \<subseteq> set ord" by simp_all
  from t show "topological ns ord" .
  from t all show "set ord = set (node_ids ns)" by (auto simp: topological_def)
  from topological_acyclic [OF t all assms(2)] show "acyclic (dep_edges ns)" .
qed

lemma validate_acyclic_Inl:
  assumes "validate_acyclic ns = Inl e" and "\<forall>n \<in> set ns. set (dependencies n) \<subseteq> set (node_ids ns)"
  shows "e = cycle_error" and "\<not> acyclic (dep_edges ns)"
  using visit_fails(2) [OF assms(1) [unfolded validate_acyclic_def] assms(2)] by auto

lemma make_task_graph_Inr:
  "make_task_graph ns par units = Inr g \<longleftrightarrow> graph_well_formed ns par units \<and>
     (\<exists>ord. validate_acyclic ns = Inr ord \<and>
       g = \<lparr>nodes = ns, max_parallelism = par, max_resource_units = units, order = ord\<rparr>)"
  by (auto simp: make_task_graph_def graph_well_formed_def bindR_Inr_iff check_nodes_Inr)

text \<open>
  C22: The constructor of TaskGraph decides its specification: it returns a graph exactly
  when the node list is non-empty, the budgets are positive, the ids are unique, every
  dependency is a node, no node alone exceeds the resource budget and the dependency
  relation is acyclic. Whenever all but the last hold, a cyclic relation raises the
  documented error, so the search ends on every input.
\<close>

theorem graph_accepted_iff_acyclic:
  "((\<exists>g. make_task_graph ns par units = Inr g) \<longleftrightarrow>
      graph_well_formed ns par units \<and> acyclic (dep_edges ns)) \<and>
   (graph_well_formed ns par units \<longrightarrow> \<not> acyclic (dep_edges ns) \<longrightarrow>
      make_task_graph ns par units = raise TaskGraphError ''task dependencies contain a cycle'')"
proof (cases "graph_well_formed ns par units")
  case False
  then show ?thesis by (simp add: make_task_graph_Inr)
next
  case True
  then have wf: "\<forall>n \<in> set ns. set (dependencies n) \<subseteq> set (node_ids ns)" "distinct (node_ids ns)"
    and make: "make_task_graph ns par units = bindR (validate_acyclic ns) (\<lambda>ord.
         Inr \<lparr>nodes = ns, max_parallelism = par, max_resource_units = units, order = ord\<rparr>)"
    using check_nodes_Inr [of "node_ids ns" units ns "()"]
    by (auto simp: graph_well_formed_def make_task_graph_def)
  show ?thesis
  proof (cases "validate_acyclic ns")
    case (Inl e)
    with validate_acyclic_Inl [OF Inl wf(1)] show ?thesis by (simp add: make cycle_error_def)
  next
    case (Inr ord)
    with validate_acyclic_Inr(3) [OF Inr wf(2)] True show ?thesis by (simp add: make)
  qed
qed

definition tnode :: "string \<Rightarrow> string list \<Rightarrow> int \<Rightarrow> task_node" where
  "tnode i deps units = \<lparr>node_id = i, role = ''research'', dependencies = deps, max_attempts = 3,
     timeout_seconds = 300, resource_units = units\<rparr>"

lemmas tnode_simps [simp] = tnode_def [THEN arg_cong, of node_id, simplified]
  tnode_def [THEN arg_cong, of dependencies, simplified]
  tnode_def [THEN arg_cong, of resource_units, simplified]

definition small_nodes :: "task_node list" where
  "small_nodes = [tnode ''report'' [''scan'', ''fuzz''] 1, tnode ''scan'' [] 2, tnode ''fuzz'' [''scan''] 3]"

definition small_graph :: task_graph where
  "small_graph = \<lparr>nodes = small_nodes, max_parallelism = 2, max_resource_units = 3,
     order = [''scan'', ''fuzz'', ''report'']\<rparr>"

lemma small_graph_made: "make_task_graph small_nodes 2 3 = Inr small_graph"
  by (simp add: small_nodes_def small_graph_def make_task_graph_def validate_acyclic_def visit.simps)

theorem graph_accepted_iff_acyclic_witness:
  "make_task_graph [tnode ''a'' [''b''] 1, tnode ''b'' [''a''] 1] 4 4
     = raise TaskGraphError ''task dependencies contain a cycle''"
proof -
  let ?ns = "[tnode ''a'' [''b''] 1, tnode ''b'' [''a''] 1]"
  have "(''a'', ''b'') \<in> dep_edges ?ns" "(''b'', ''a'') \<in> dep_edges ?ns"
    using dep_edgesI [of "tnode ''b'' [''a''] 1" ?ns "''a''"] dep_edgesI [of "tnode ''a'' [''b''] 1" ?ns "''b''"]
    by simp_all
  then have "(''a'', ''a'') \<in> (dep_edges ?ns)\<^sup>+" by (meson trancl.simps)
  then have "\<not> acyclic (dep_edges ?ns)" by (auto simp: acyclic_def)
  moreover have "graph_well_formed ?ns 4 4" by (simp add: graph_well_formed_def)
  ultimately show ?thesis using graph_accepted_iff_acyclic [of ?ns 4 4] by blast
qed

text \<open>
  C29: A graph that the constructor returned is ordered topologically: the order lists
  every node once, and every node after all of its dependencies.
\<close>

theorem graph_order_topological:
  assumes "make_task_graph ns par units = Inr g"
  shows "distinct (order g) \<and> set (order g) = set (node_ids (nodes g)) \<and>
     (\<forall>xs i ys n. order g = xs @ i # ys \<longrightarrow> node_of (nodes g) i = Some n \<longrightarrow>
        set (dependencies n) \<subseteq> set xs)"
proof -
  from assms have v: "validate_acyclic (nodes g) = Inr (order g)" and "distinct (node_ids (nodes g))"
    by (auto simp: make_task_graph_Inr graph_well_formed_def)
  note ord = validate_acyclic_Inr(1,2) [OF this]
  then show ?thesis by (auto simp: topological_def [of _ "order g"] dest: topological_split)
qed

theorem graph_order_topological_witness:
  "set (dependencies (hd small_nodes)) \<subseteq> set [''scan'', ''fuzz'']"
  using graph_order_topological [OF small_graph_made]
  by (elim conjE allE [of _ "[''scan'', ''fuzz'']"]) (simp add: small_graph_def small_nodes_def)

section \<open>Plans\<close>

text \<open>The status \<^verbatim>\<open>plan\<close> reads for a task, once every value of the mapping is valid.\<close>

definition planned_status :: "(string \<times> raw_status) list \<Rightarrow> string \<Rightarrow> execution_status" where
  "planned_status sts i =
     projr (status_of_value (case map_of sts i of Some v \<Rightarrow> v | None \<Rightarrow> Status E_PENDING) i)"

text \<open>A pending task below a failed one, through pending tasks only.\<close>

inductive doomed_task :: "task_node list \<Rightarrow> (string \<Rightarrow> execution_status) \<Rightarrow> string \<Rightarrow> bool" for ns st where
  doomed_failed: "node_of ns i = Some n \<Longrightarrow> st i = E_PENDING \<Longrightarrow> d \<in> set (dependencies n) \<Longrightarrow>
     terminal_failure (st d) \<Longrightarrow> doomed_task ns st i"
| doomed_below: "node_of ns i = Some n \<Longrightarrow> st i = E_PENDING \<Longrightarrow> d \<in> set (dependencies n) \<Longrightarrow>
     doomed_task ns st d \<Longrightarrow> doomed_task ns st i"

inductive_simps doomed_task_iff: "doomed_task ns st i"

lemma normalize_fst: "normalize sts ns = Inr norm \<Longrightarrow> map fst norm = node_ids ns"
  by (induction ns arbitrary: norm) (auto simp: bindR_Inr_iff)

lemma normalize_lookup:
  "normalize sts ns = Inr norm \<Longrightarrow> i \<in> set (node_ids ns) \<Longrightarrow> map_of norm i = Some (planned_status sts i)"
  by (induction ns arbitrary: norm) (auto simp: bindR_Inr_iff planned_status_def)

lemma running_nodes_Nil:
  assumes "normalize sts ns = Inr norm" and "running_nodes ns norm = []" and "i \<in> set (node_ids ns)"
  shows "planned_status sts i \<noteq> E_RUNNING"
  using normalize_lookup [OF assms(1,3)] assms(2)
  by (auto simp: running_nodes_def filter_empty_conv dest!: map_of_SomeD)

abbreviation node_units :: "task_node list \<Rightarrow> string list \<Rightarrow> int" where
  "node_units ns is \<equiv> sum_list (map (\<lambda>i. resource_units (the (node_of ns i))) is)"

text \<open>What the scheduling loop keeps true of the nodes it has seen.\<close>

definition schedule_ok :: "task_node list \<Rightarrow> (string \<Rightarrow> execution_status) \<Rightarrow> int \<Rightarrow> int \<Rightarrow> string list \<Rightarrow> schedule \<Rightarrow> bool" where
  "schedule_ok ns st slots units seen s \<longleftrightarrow>
     distinct (s_ready s @ s_blocked s @ s_waiting s) \<and>
     set (s_ready s @ s_blocked s @ s_waiting s) = {i \<in> set seen. st i = E_PENDING} \<and>
     set (s_blocked s) = {i \<in> set seen. doomed_task ns st i} \<and>
     (\<forall>i \<in> set (s_ready s). \<forall>d \<in> set (dependencies (the (node_of ns i))). st d = E_SUCCEEDED) \<and>
     free_slots s = slots - int (length (s_ready s)) \<and> 0 \<le> free_slots s \<and>
     free_resources s = units - node_units ns (s_ready s) \<and> 0 \<le> free_resources s"

text \<open>Every waiting task is kept back by a dependency or by a budget.\<close>

definition waiting_ok :: "task_node list \<Rightarrow> (string \<Rightarrow> execution_status) \<Rightarrow> schedule \<Rightarrow> bool" where
  "waiting_ok ns st s \<longleftrightarrow> (\<forall>i \<in> set (s_waiting s).
     (\<exists>d \<in> set (dependencies (the (node_of ns i))). st d \<noteq> E_SUCCEEDED) \<or>
     free_slots s = 0 \<or> free_resources s < resource_units (the (node_of ns i)))"

lemma schedule_node_ok:
  assumes norm: "\<And>j. j \<in> set (node_ids ns) \<Longrightarrow> map_of norm j = Some (st j)"
    and top: "topological ns (seen @ i # rest)" and n: "node_of ns i = Some n"
    and deps: "set (dependencies n) \<subseteq> set (node_ids ns)"
    and s: "schedule_ok ns st slots units seen s"
  shows "schedule_ok ns st slots units (seen @ [i]) (schedule_node ns norm i s)"
proof -
  have i: "i \<in> set (node_ids ns)" and new: "i \<notin> set seen"
    using top by (auto simp: topological_def)
  have before: "set (dependencies n) \<subseteq> set seen" using topological_split [OF top n] .
  have st_i: "status_in norm i = st i" using norm [OF i] by simp
  have st_d: "\<And>d. d \<in> set (dependencies n) \<Longrightarrow> status_in norm d = st d" using norm deps by force
  from s new have fresh: "i \<notin> set (s_ready s) \<union> set (s_blocked s) \<union> set (s_waiting s)"
    by (auto simp: schedule_ok_def)
  let ?hit = "(\<exists>d \<in> set (dependencies n). terminal_failure (st d)) \<or> (\<exists>d \<in> set (dependencies n). d \<in> set (s_blocked s))"
  have hit: "?hit \<longleftrightarrow> doomed_task ns st i" if "st i = E_PENDING"
  proof -
    from s before have "(\<exists>d \<in> set (dependencies n). d \<in> set (s_blocked s)) \<longleftrightarrow>
        (\<exists>d \<in> set (dependencies n). doomed_task ns st d)"
      by (auto simp: schedule_ok_def)
    then show ?thesis using n that by (subst doomed_task_iff) auto
  qed
  have not_doomed: "\<not> doomed_task ns st i" if "st i \<noteq> E_PENDING"
    using that by (subst doomed_task_iff) auto
  have node: "schedule_node ns norm i s =
    (if st i \<noteq> E_PENDING then s
     else if ?hit then s\<lparr>s_blocked := s_blocked s @ [i]\<rparr>
     else if \<not> (\<forall>d \<in> set (dependencies n). st d = E_SUCCEEDED) then s\<lparr>s_waiting := s_waiting s @ [i]\<rparr>
     else if free_slots s > 0 \<and> resource_units n \<le> free_resources s
       then s\<lparr>s_ready := s_ready s @ [i], free_slots := free_slots s - 1,
              free_resources := free_resources s - resource_units n\<rparr>
     else s\<lparr>s_waiting := s_waiting s @ [i]\<rparr>)"
    using st_i st_d n by (auto simp: schedule_node_def list_ex_iff list_all_iff Let_def)
  have seen: "{j \<in> set (seen @ [i]). Q j} = (if Q i then insert i {j \<in> set seen. Q j} else {j \<in> set seen. Q j})"
    for Q by auto
  show ?thesis
  proof (cases "st i = E_PENDING")
    case False
    with not_doomed have "\<not> doomed_task ns st i" by simp
    moreover from False node have "schedule_node ns norm i s = s" by simp
    ultimately show ?thesis using s False by (simp only: schedule_ok_def seen if_False) simp
  next
    case True
    note facts = s [unfolded schedule_ok_def] fresh True n
    show ?thesis
    proof (cases ?hit)
      case d: True
      with hit True have "doomed_task ns st i" by blast
      with facts d node show ?thesis by (simp only: schedule_ok_def seen) auto
    next
      case d: False
      with hit True have "\<not> doomed_task ns st i" by blast
      moreover from node True d have "schedule_node ns norm i s =
        (if (\<forall>d \<in> set (dependencies n). st d = E_SUCCEEDED) \<and> free_slots s > 0 \<and> resource_units n \<le> free_resources s
         then s\<lparr>s_ready := s_ready s @ [i], free_slots := free_slots s - 1,
              free_resources := free_resources s - resource_units n\<rparr>
         else s\<lparr>s_waiting := s_waiting s @ [i]\<rparr>)" by simp
      ultimately show ?thesis using facts by (simp only: schedule_ok_def seen split: if_split) auto
    qed
  qed
qed

lemma waiting_node_ok:
  assumes norm: "\<And>j. j \<in> set (node_ids ns) \<Longrightarrow> map_of norm j = Some (st j)"
    and n: "node_of ns i = Some n" and deps: "set (dependencies n) \<subseteq> set (node_ids ns)"
    and s: "waiting_ok ns st s" and free: "0 \<le> free_slots s" and pos: "0 \<le> resource_units n"
  shows "waiting_ok ns st (schedule_node ns norm i s)"
proof -
  have st_d: "\<And>d. d \<in> set (dependencies n) \<Longrightarrow> status_in norm d = st d" using norm deps by force
  show ?thesis using s free pos n st_d
    by (fastforce simp: schedule_node_def waiting_ok_def list_ex_iff list_all_iff Let_def)
qed

lemma schedule_all_ok:
  assumes norm: "\<And>j. j \<in> set (node_ids ns) \<Longrightarrow> map_of norm j = Some (st j)"
    and top: "topological ns (seen @ rest)"
    and deps: "\<forall>n \<in> set ns. set (dependencies n) \<subseteq> set (node_ids ns)"
    and start: "0 \<le> slots" "0 \<le> units"
  shows "schedule_ok ns st slots units seen (fold (schedule_node ns norm) seen
     \<lparr>s_ready = [], s_blocked = [], s_waiting = [], free_slots = slots, free_resources = units\<rparr>)"
  using top
proof (induction seen arbitrary: rest rule: rev_induct)
  case Nil
  with start show ?case by (simp add: schedule_ok_def)
next
  case (snoc i seen)
  then have top: "topological ns (seen @ i # rest)" by simp
  then have "i \<in> set (node_ids ns)" by (simp add: topological_def)
  then obtain n where n: "node_of ns i = Some n"
    by (cases "node_of ns i") (auto simp: lookup_row_None_iff)
  with deps have "set (dependencies n) \<subseteq> set (node_ids ns)" by (auto dest: lookup_row_SomeD)
  from schedule_node_ok [OF norm top n this snoc.IH [OF top]] show ?case by simp
qed

lemma waiting_all_ok:
  assumes norm: "\<And>j. j \<in> set (node_ids ns) \<Longrightarrow> map_of norm j = Some (st j)"
    and top: "topological ns (seen @ rest)"
    and deps: "\<forall>n \<in> set ns. set (dependencies n) \<subseteq> set (node_ids ns)"
    and start: "0 \<le> slots" "0 \<le> units" and pos: "\<forall>n \<in> set ns. 0 \<le> resource_units n"
  shows "waiting_ok ns st (fold (schedule_node ns norm) seen
     \<lparr>s_ready = [], s_blocked = [], s_waiting = [], free_slots = slots, free_resources = units\<rparr>)"
  using top
proof (induction seen arbitrary: rest rule: rev_induct)
  case Nil
  then show ?case by (simp add: waiting_ok_def)
next
  case (snoc i seen)
  then have top: "topological ns (seen @ i # rest)" by simp
  then have "i \<in> set (node_ids ns)" by (simp add: topological_def)
  then obtain n where n: "node_of ns i = Some n"
    by (cases "node_of ns i") (auto simp: lookup_row_None_iff)
  with deps pos have "set (dependencies n) \<subseteq> set (node_ids ns)" "0 \<le> resource_units n"
    by (auto dest: lookup_row_SomeD)
  moreover have "0 \<le> free_slots (fold (schedule_node ns norm) seen
     \<lparr>s_ready = [], s_blocked = [], s_waiting = [], free_slots = slots, free_resources = units\<rparr>)"
    using schedule_all_ok [OF norm top deps start] by (simp add: schedule_ok_def)
  ultimately show ?case using waiting_node_ok [OF norm n _ snoc.IH [OF top]] by simp
qed

text \<open>A plan of a constructed graph, in terms of the final state of the scheduling loop.\<close>

definition plan_of :: "schedule \<Rightarrow> int \<Rightarrow> int \<Rightarrow> schedule_plan" where
  "plan_of s count units = \<lparr>ready = s_ready s, blocked = s_blocked s, waiting = s_waiting s,
     running_count = count, running_resource_units = units\<rparr>"

lemma plan_of_simps [simp]:
  "ready (plan_of s c u) = s_ready s" "blocked (plan_of s c u) = s_blocked s"
  "waiting (plan_of s c u) = s_waiting s" "running_count (plan_of s c u) = c"
  "running_resource_units (plan_of s c u) = u"
  by (simp_all add: plan_of_def)

lemma plan_schedule:
  assumes g: "make_task_graph ns par units = Inr g" and p: "plan g sts = Inr p"
  obtains norm s where "normalize sts ns = Inr norm"
    and "p = plan_of s (int (length (running_nodes ns norm))) (units_of (running_nodes ns norm))"
    and "schedule_ok ns (planned_status sts) (par - running_count p) (units - running_resource_units p) (order g) s"
    and "(\<forall>n \<in> set ns. 0 \<le> resource_units n) \<longrightarrow> waiting_ok ns (planned_status sts) s"
    and "nodes g = ns" and "max_parallelism g = par" and "max_resource_units g = units"
    and "\<forall>n \<in> set ns. \<not> premature norm n"
proof -
  from g have wf: "graph_well_formed ns par units" and v: "validate_acyclic ns = Inr (order g)"
    and simps: "nodes g = ns" "max_parallelism g = par" "max_resource_units g = units"
    by (auto simp: make_task_graph_Inr)
  then have deps: "\<forall>n \<in> set ns. set (dependencies n) \<subseteq> set (node_ids ns)" and dist: "distinct (node_ids ns)"
    by (auto simp: graph_well_formed_def)
  from validate_acyclic_Inr(1) [OF v dist] have top: "topological ns (order g @ [])" by simp
  from p obtain norm where norm: "normalize sts ns = Inr norm" and pre: "find (premature norm) ns = None"
    and lim: "int (length (running_nodes ns norm)) \<le> par" "units_of (running_nodes ns norm) \<le> units"
    and pe: "p = plan_of (fold (schedule_node ns norm) (order g)
        \<lparr>s_ready = [], s_blocked = [], s_waiting = [], free_slots = par - int (length (running_nodes ns norm)),
         free_resources = units - units_of (running_nodes ns norm)\<rparr>)
        (int (length (running_nodes ns norm))) (units_of (running_nodes ns norm))"
    by (auto simp: plan_def Let_def bindR_Inr_iff simps plan_of_def split: if_splits option.splits)
  have lookup: "\<And>j. j \<in> set (node_ids ns) \<Longrightarrow> map_of norm j = Some (planned_status sts j)"
    by (rule normalize_lookup [OF norm])
  from lim have "0 \<le> par - int (length (running_nodes ns norm))" "0 \<le> units - units_of (running_nodes ns norm)"
    by simp_all
  note start = schedule_all_ok [OF lookup top deps this] waiting_all_ok [OF lookup top deps this]
  show ?thesis
    by (rule that [OF norm pe _ _ simps]) (use start pre pe in \<open>auto simp: find_None_iff\<close>)
qed

text \<open>
  C31: A plan admits only tasks that may run: with the running ones they stay within the
  parallelism and the resource budget, each of them is pending, and all of its
  dependencies have succeeded.
\<close>

theorem plan_admits_within_budget:
  assumes "make_task_graph ns par units = Inr g" and "plan g sts = Inr p"
  shows "running_count p + int (length (ready p)) \<le> par \<and>
     running_resource_units p + node_units ns (ready p) \<le> units \<and>
     (\<forall>i \<in> set (ready p). planned_status sts i = E_PENDING \<and>
        (\<forall>d \<in> set (dependencies (the (node_of ns i))). planned_status sts d = E_SUCCEEDED))"
proof -
  obtain norm s where p: "p = plan_of s (int (length (running_nodes ns norm))) (units_of (running_nodes ns norm))"
    and ok: "schedule_ok ns (planned_status sts) (par - running_count p) (units - running_resource_units p) (order g) s"
    by (rule plan_schedule [OF assms]) blast
  from ok have "set (s_ready s) \<subseteq> {i. planned_status sts i = E_PENDING}" by (auto simp: schedule_ok_def)
  with ok show ?thesis by (auto simp: p schedule_ok_def)
qed

definition small_plan :: schedule_plan where
  "small_plan = \<lparr>ready = [''fuzz''], blocked = [], waiting = [''report''], running_count = 0, running_resource_units = 0\<rparr>"

lemma small_plan_made: "plan small_graph [(''scan'', Text ''SUCCEEDED'')] = Inr small_plan"
  by (simp add: small_plan_def small_graph_def small_nodes_def plan_def Let_def status_of_value_def
    execution_status_of_def premature_def running_nodes_def schedule_node_def)

theorem plan_admits_within_budget_witness:
  "node_units small_nodes (ready small_plan) \<le> 3 \<and> planned_status [(''scan'', Text ''SUCCEEDED'')] ''fuzz'' = E_PENDING"
  using plan_admits_within_budget [OF small_graph_made small_plan_made] by (simp add: small_plan_def)

text \<open>
  A plan accounts for every pending task once: the ready, blocked and waiting lists
  are disjoint, duplicate free and together hold exactly the pending tasks; the blocked
  ones are exactly those below a failed, timed out, incomplete or blocked task through
  pending tasks.
\<close>

theorem plan_sorts_pending:
  assumes "make_task_graph ns par units = Inr g" and "plan g sts = Inr p"
  shows "distinct (ready p @ blocked p @ waiting p) \<and>
     set (ready p @ blocked p @ waiting p) = {i \<in> set (node_ids ns). planned_status sts i = E_PENDING} \<and>
     set (blocked p) = {i \<in> set (node_ids ns). doomed_task ns (planned_status sts) i}"
proof -
  obtain norm s where p: "p = plan_of s (int (length (running_nodes ns norm))) (units_of (running_nodes ns norm))"
    and ok: "schedule_ok ns (planned_status sts) (par - running_count p) (units - running_resource_units p) (order g) s"
    by (rule plan_schedule [OF assms]) blast
  from assms(1) have v: "validate_acyclic ns = Inr (order g)" and "distinct (node_ids ns)"
    by (auto simp: make_task_graph_Inr graph_well_formed_def)
  then have "set (order g) = set (node_ids ns)" by (rule validate_acyclic_Inr(2))
  with ok show ?thesis by (simp only: p plan_of_simps schedule_ok_def)
qed

theorem plan_sorts_pending_witness:
  "\<not> doomed_task small_nodes (planned_status [(''scan'', Text ''SUCCEEDED'')]) ''report''"
  using plan_sorts_pending [OF small_graph_made small_plan_made, THEN conjunct2, THEN conjunct2]
  by (auto simp: small_plan_def small_nodes_def)

lemma pending_behind:
  assumes ok: "schedule_ok ns st slots units ord s" and ids: "set ord = set (node_ids ns)"
    and none: "s_ready s = []" and calm: "\<And>j. j \<in> set (node_ids ns) \<Longrightarrow> st j \<noteq> E_RUNNING"
    and w: "w \<in> set (s_waiting s)" and n: "node_of ns w = Some n"
    and d: "d \<in> set (dependencies n)" "d \<in> set (node_ids ns)" "st d \<noteq> E_SUCCEEDED"
  shows "d \<in> set (s_waiting s)"
proof -
  from ok w have "w \<in> set ord" "st w = E_PENDING" "w \<notin> set (s_blocked s)"
    by (auto simp: schedule_ok_def)
  moreover from this ok have "\<not> doomed_task ns st w" by (auto simp: schedule_ok_def)
  ultimately have "\<not> terminal_failure (st d)" "\<not> doomed_task ns st d"
    using doomed_failed [of ns w n st, OF n _ d(1)] doomed_below [of ns w n st, OF n _ d(1)] by blast+
  then have "st d = E_PENDING" using d(3) calm [OF d(2)] by (cases "st d") auto
  with ok ids d(2) have "d \<in> set (s_ready s @ s_blocked s @ s_waiting s)"
    by (simp only: schedule_ok_def) blast
  moreover have "d \<notin> set (s_blocked s)"
    using ok \<open>\<not> doomed_task ns st d\<close> by (auto simp: schedule_ok_def)
  ultimately show ?thesis using none by simp
qed

lemma idle_schedule_waits_for_nothing:
  assumes wf: "graph_well_formed ns slots units" and acyc: "acyclic (dep_edges ns)"
    and ok: "schedule_ok ns st slots units ord s" and ids: "set ord = set (node_ids ns)"
    and wait: "waiting_ok ns st s" and none: "s_ready s = []"
    and calm: "\<And>j. j \<in> set (node_ids ns) \<Longrightarrow> st j \<noteq> E_RUNNING"
  shows "s_waiting s = []"
proof (rule ccontr)
  assume "s_waiting s \<noteq> []"
  then obtain w where w: "w \<in> set (s_waiting s)" by (meson ex_in_conv set_empty)
  have "finite (dep_edges ns)"
    by (rule finite_subset [of _ "(\<Union>n \<in> set ns. set (dependencies n)) \<times> set (node_ids ns)"])
      (auto simp: dep_edges_def)
  from finite_acyclic_wf [OF this acyc] w show False
  proof (induction w)
    case (less w)
    from less.prems ok ids have "w \<in> set (node_ids ns)" by (auto simp: schedule_ok_def)
    then obtain n where n: "node_of ns w = Some n"
      by (cases "node_of ns w") (auto simp: lookup_row_None_iff)
    then have mem: "n \<in> set ns" "node_id n = w" by (auto dest: lookup_row_SomeD)
    with wf have fits: "resource_units n \<le> units" "1 \<le> slots" and deps: "set (dependencies n) \<subseteq> set (node_ids ns)"
      by (auto simp: graph_well_formed_def)
    from ok none have "free_slots s = slots" "free_resources s = units" by (simp_all add: schedule_ok_def)
    with wait less.prems n fits obtain d where d: "d \<in> set (dependencies n)" "st d \<noteq> E_SUCCEEDED"
      by (auto simp: waiting_ok_def)
    with deps have "d \<in> set (node_ids ns)" by blast
    from pending_behind [OF ok ids none calm less.prems n d(1) this d(2)]
    show False using less.IH [of d] dep_edgesI [OF mem(1) d(1)] mem(2) by simp
  qed
qed

text \<open>
  C30: The scheduler never stalls: when no task is running and none becomes ready, no task
  waits, so every pending one is below a failure. It also leaves no room unused: a waiting
  task whose dependencies have all succeeded does not fit into what the running and the
  ready tasks leave.
\<close>

theorem plan_never_stalls:
  assumes "make_task_graph ns par units = Inr g" and "plan g sts = Inr p" and "list_all node_ok ns"
  shows "(running_count p = 0 \<and> ready p = [] \<longrightarrow> waiting p = []) \<and>
     (\<forall>i \<in> set (waiting p). (\<forall>d \<in> set (dependencies (the (node_of ns i))). planned_status sts d = E_SUCCEEDED) \<longrightarrow>
        par = running_count p + int (length (ready p)) \<or>
        units < running_resource_units p + node_units ns (ready p) + resource_units (the (node_of ns i)))"
proof -
  obtain norm s where norm: "normalize sts ns = Inr norm"
    and p: "p = plan_of s (int (length (running_nodes ns norm))) (units_of (running_nodes ns norm))"
    and ok: "schedule_ok ns (planned_status sts) (par - running_count p) (units - running_resource_units p) (order g) s"
    and wait: "(\<forall>n \<in> set ns. 0 \<le> resource_units n) \<longrightarrow> waiting_ok ns (planned_status sts) s"
    by (rule plan_schedule [OF assms(1,2)]) blast
  have "0 \<le> resource_units n" if "n \<in> set ns" for n
    using that assms(3) by (auto simp: list_all_iff node_ok_def make_task_node_def split: if_splits)
  with wait have wait: "waiting_ok ns (planned_status sts) s" by blast
  from ok have free: "free_slots s = par - running_count p - int (length (s_ready s))"
    "free_resources s = units - running_resource_units p - node_units ns (s_ready s)"
    by (auto simp: schedule_ok_def)
  from assms(1) have v: "validate_acyclic ns = Inr (order g)" and wf: "graph_well_formed ns par units"
    by (auto simp: make_task_graph_Inr)
  then have ids: "distinct (node_ids ns)" by (simp add: graph_well_formed_def)
  have stall: "waiting p = []" if idle: "running_count p = 0" and none: "ready p = []"
  proof -
    from idle have run: "running_nodes ns norm = []" by (simp add: p)
    with ok have "schedule_ok ns (planned_status sts) par units (order g) s" by (simp add: p)
    from idle_schedule_waits_for_nothing [OF wf validate_acyclic_Inr(3) [OF v ids] this
        validate_acyclic_Inr(2) [OF v ids] wait _ running_nodes_Nil [OF norm run]] none
    show ?thesis by (simp add: p)
  qed
  with wait free show ?thesis by (fastforce simp: p waiting_ok_def)
qed

definition twin_nodes :: "task_node list" where
  "twin_nodes = [tnode ''a'' [] 2, tnode ''b'' [] 2]"

theorem plan_never_stalls_witness:
  "\<exists>g p. make_task_graph twin_nodes 2 3 = Inr g \<and> plan g [] = Inr p \<and> waiting p = [''b''] \<and>
     3 < node_units twin_nodes (ready p) + 2"
proof -
  obtain g where g: "make_task_graph twin_nodes 2 3 = Inr g"
    and ge: "g = \<lparr>nodes = twin_nodes, max_parallelism = 2, max_resource_units = 3, order = [''a'', ''b'']\<rparr>"
    by (simp add: twin_nodes_def make_task_graph_def validate_acyclic_def visit.simps)
  obtain p where p: "plan g [] = Inr p" and pe: "p = \<lparr>ready = [''a''], blocked = [], waiting = [''b''],
      running_count = 0, running_resource_units = 0\<rparr>"
    by (simp add: ge twin_nodes_def plan_def Let_def status_of_value_def premature_def running_nodes_def schedule_node_def)
  have "list_all node_ok twin_nodes" by (simp add: twin_nodes_def) code_simp
  from plan_never_stalls [OF g p this] g p show ?thesis
    by (intro exI [of _ g] exI [of _ p]) (simp add: pe twin_nodes_def)
qed

text \<open>
  A retry is allowed only after an explicit failure, timeout or incomplete run, and a
  task that keeps failing gets at most its budget of attempts: with n attempts used the
  answer is true exactly while n is below the budget. An unknown task, a non-positive
  count and an invalid status are refused.
\<close>

theorem retries_are_bounded:
  "graph_retry_allowed g i used last_status = Inr True \<longleftrightarrow>
     (\<exists>n s. node_of (nodes g) i = Some n \<and> 1 \<le> used \<and> used < max_attempts n \<and>
        status_of_value last_status i = Inr s \<and> s \<in> {E_FAILED, E_TIMED_OUT, E_INCOMPLETE})"
  by (auto simp: graph_retry_allowed_def bindR_Inr_iff split: option.splits)

end
