(* ===== verification/Outcomes.thy ===== *)
theory Outcomes
  imports Json
begin

text \<open>
  Typed outcome contracts (\<^verbatim>\<open>src/shared/outcome_contract.py\<close>): what an action promises to have
  caused and which independent verifier may confirm it. A dict is represented with its
  items in key order, so \<^verbatim>\<open>json.loads(json.dumps(contract, sort_keys=True))\<close> is the same value.
\<close>

definition contract_required_actions :: "string list" where
  "contract_required_actions = [''delete'', ''publish'', ''api_request'', ''mcp_tool_call'', ''transfer'', ''release'']"

record contract_spec =
  cs_required :: "string list"
  cs_allowed :: "string list"
  cs_verifiers :: "string list"
  cs_actions :: "string list"

definition contract_types :: "(string \<times> contract_spec) list" where
  "contract_types =
    [(''state_match'', \<lparr>cs_required = [''type'', ''verifier'', ''expected_state''],
        cs_allowed = [''type'', ''verifier'', ''expected_state''],
        cs_verifiers = [''filesystem_independent_v1''], cs_actions = [''delete'']\<rparr>),
     (''artifact_exists'', \<lparr>cs_required = [''type'', ''verifier'', ''path'', ''expected_exists''],
        cs_allowed = [''type'', ''verifier'', ''path'', ''expected_exists''],
        cs_verifiers = [''artifact_independent_v1''], cs_actions = [''publish'']\<rparr>),
     (''http_state'', \<lparr>cs_required = [''type'', ''verifier'', ''verify_url'', ''expected_state''],
        cs_allowed = [''type'', ''verifier'', ''verify_url'', ''expected_state''],
        cs_verifiers = [''http_independent_get_v1''], cs_actions = [''api_request'']\<rparr>),
     (''mcp_state'', \<lparr>cs_required = [''type'', ''verifier'', ''endpoint'', ''tool'', ''arguments'', ''read_only'', ''expected_state''],
        cs_allowed = [''type'', ''verifier'', ''endpoint'', ''tool'', ''arguments'', ''read_only'', ''expected_state'',
          ''headers'', ''request_id''],
        cs_verifiers = [''mcp_independent_read_v1''], cs_actions = [''mcp_tool_call'']\<rparr>),
     (''transaction_confirmed'', \<lparr>cs_required = [''type'', ''verifier'', ''transaction_id''],
        cs_allowed = [''type'', ''verifier'', ''transaction_id'', ''expected_status''],
        cs_verifiers = [''transaction_independent_v1''], cs_actions = [''transfer'', ''release'']\<rparr>)]"

text \<open>\<^verbatim>\<open>isinstance(v, str) and v.strip()\<close>, and the other tests on single fields.\<close>

fun text_present :: "json \<Rightarrow> bool" where
  "text_present (JStr s) = (strip s \<noteq> [])"
| "text_present _ = False"

fun is_dict :: "json \<Rightarrow> bool" where
  "is_dict (JObj kvs) = True"
| "is_dict _ = False"

fun is_text :: "json \<Rightarrow> bool" where
  "is_text (JStr s) = True"
| "is_text _ = False"

fun is_bool :: "json \<Rightarrow> bool" where
  "is_bool (JBool b) = True"
| "is_bool _ = False"

text \<open>Keys of \<^verbatim>\<open>CONTRACT_TYPES\<close>; a list or dict is not hashable.\<close>

fun contract_type :: "json \<Rightarrow> (string \<times> contract_spec) result" where
  "contract_type (JStr t) = (case map_of contract_types t of
      None \<Rightarrow> raise OutcomeContractError ''unknown_outcome_contract_type''
    | Some spec \<Rightarrow> Inr (t, spec))"
| "contract_type (JArr xs) = raise TypeError ''unhashable type: list''"
| "contract_type (JObj xs) = raise TypeError ''unhashable type: dict''"
| "contract_type _ = raise OutcomeContractError ''unknown_outcome_contract_type''"

definition check_contract_fields :: "string \<Rightarrow> (string \<times> json) list \<Rightarrow> unit result" where
  "check_contract_fields t v =
    (if t = ''artifact_exists'' \<and> (\<not> text_present (json_get v ''path'') \<or> \<not> is_bool (json_get v ''expected_exists''))
     then raise OutcomeContractError ''outcome_contract_artifact_invalid''
     else if t = ''http_state'' \<and> \<not> text_present (json_get v ''verify_url'')
     then raise OutcomeContractError ''outcome_contract_verify_url_required''
     else if t = ''mcp_state'' \<and> (\<not> text_present (json_get v ''endpoint'') \<or> \<not> text_present (json_get v ''tool''))
     then raise OutcomeContractError ''outcome_contract_mcp_target_required''
     else if t = ''mcp_state'' \<and> (\<not> is_dict (json_get v ''arguments'') \<or> json_get v ''read_only'' \<noteq> JBool True)
     then raise OutcomeContractError ''outcome_contract_mcp_arguments_invalid''
     else if t = ''mcp_state'' \<and> ''headers'' \<in> set (map fst v) \<and> \<not> is_dict (json_get v ''headers'')
     then raise OutcomeContractError ''outcome_contract_headers_invalid''
     else if t = ''mcp_state'' \<and> ''request_id'' \<in> set (map fst v) \<and> \<not> is_text (json_get v ''request_id'')
     then raise OutcomeContractError ''outcome_contract_request_id_invalid''
     else if t = ''transaction_confirmed'' \<and> \<not> text_present (json_get v ''transaction_id'')
     then raise OutcomeContractError ''outcome_contract_transaction_id_required''
     else Inr ())"

text \<open>Membership in a set of texts; \<open>action\<close> is JNull when it is None.\<close>

fun in_texts :: "json \<Rightarrow> string list \<Rightarrow> bool result" where
  "in_texts (JArr xs) ts = raise TypeError ''unhashable type: list''"
| "in_texts (JObj kvs) ts = raise TypeError ''unhashable type: dict''"
| "in_texts j ts = Inr (j \<in> set (map JStr ts))"

definition validate_outcome_contract :: "json \<Rightarrow> json \<Rightarrow> (string \<times> json) list result" where
  "validate_outcome_contract contract action =
    (case (if contract = JNull then JObj [] else contract) of
       JObj v \<Rightarrow>
        (if v = [] then
           bindR (in_texts action contract_required_actions) (\<lambda>required.
             if required then raise OutcomeContractError ''outcome_contract_required'' else Inr v)
         else bindR (contract_type (json_get v ''type'')) (\<lambda>(t, spec).
           let missing = sort (filter (\<lambda>f. f \<notin> set (map fst v)) (cs_required spec));
               extra = sort (filter (\<lambda>f. f \<notin> set (cs_allowed spec)) (map fst v)) in
           if missing \<noteq> [] then raise OutcomeContractError (''outcome_contract_fields_missing:'' @ join_comma missing)
           else if extra \<noteq> [] then raise OutcomeContractError (''outcome_contract_fields_unknown:'' @ join_comma extra)
           else if \<not> text_present (json_get v ''verifier'')
           then raise OutcomeContractError ''outcome_contract_verifier_required''
           else if json_get v ''verifier'' \<notin> set (map JStr (cs_verifiers spec))
           then raise OutcomeContractError ''outcome_contract_verifier_mismatch''
           else bindR (if action = JNull then Inr True else in_texts action (cs_actions spec)) (\<lambda>covered.
             if \<not> covered then raise OutcomeContractError ''outcome_contract_action_mismatch''
             else bindR (check_contract_fields t v) (\<lambda>_. Inr v))))
     | _ \<Rightarrow> raise OutcomeContractError ''invalid_outcome_contract'')"

text \<open>
  An accepted contract of an action that must have one names a type that covers the
  action and the one verifier of that type.
\<close>

lemma contract_binds_verifier:
  assumes "validate_outcome_contract c (JStr a) = Inr v" and "v \<noteq> [] \<or> a \<in> set contract_required_actions"
  shows "\<exists>t spec. map_of contract_types t = Some spec \<and> json_get v ''type'' = JStr t \<and>
    a \<in> set (cs_actions spec) \<and> (\<exists>n \<in> set (cs_verifiers spec). json_get v ''verifier'' = JStr n) \<and> c = JObj v"
proof -
  from assms obtain t spec where c: "c = JObj v" and "v \<noteq> []" and t: "contract_type (json_get v ''type'') = Inr (t, spec)"
    and rest: "json_get v ''verifier'' \<in> set (map JStr (cs_verifiers spec))" "a \<in> set (cs_actions spec)"
    by (auto simp: validate_outcome_contract_def Let_def bindR_Inr_iff split: if_splits json.splits)
  from t have "json_get v ''type'' = JStr t" "map_of contract_types t = Some spec"
    by (cases "json_get v ''type''"; auto split: option.splits)+
  with c rest show ?thesis by auto
qed

end
