(* ===== verification/Signing.thy ===== *)
theory Signing
  imports Capability IsoTime Outcomes
begin

text \<open>
  Identities and intents that agents sign (\<^verbatim>\<open>src/shared/agent_identity.py\<close>,
  \<^verbatim>\<open>agent_identity_signing.py\<close>, \<^verbatim>\<open>signed_action_intent.py\<close>). The Ed25519 primitives, SHA-256,
  base64, the parsing of ISO texts and \<^verbatim>\<open>repr\<close> are a parameter, the record \<open>crypto\<close>; what is
  relied on of them is a hypothesis where it is used. Raw bytes are lists of code points.
\<close>

section \<open>The environment\<close>

text \<open>\<^verbatim>\<open>datetime.fromisoformat\<close>: a moment with an offset, one without, or a ValueError.\<close>

datatype moment = Aware instant | Naive | Unreadable

record crypto =
  cr_sha256 :: "string \<Rightarrow> string"
  cr_b64encode :: "string \<Rightarrow> string"
  cr_b64decode :: "string \<Rightarrow> string option"
  cr_public_ok :: "string \<Rightarrow> bool"
  cr_public :: "string \<Rightarrow> string"
  cr_sign :: "string \<Rightarrow> string \<Rightarrow> string"
  cr_verify :: "string \<Rightarrow> string \<Rightarrow> string \<Rightarrow> bool"
  cr_parse_time :: "string \<Rightarrow> moment"
  cr_show :: "json \<Rightarrow> string"
  cr_dict :: "json \<Rightarrow> (string \<times> json) list result"

text \<open>\<^verbatim>\<open>moment >= expiry\<close>; a naive expiry cannot be compared.\<close>

definition reached :: "instant \<Rightarrow> moment \<Rightarrow> exc_class \<Rightarrow> bool result" where
  "reached now m c = (case m of
      Unreadable \<Rightarrow> raise c ''invalid_expiry''
    | Naive \<Rightarrow> raise TypeError ''can't compare offset-naive and offset-aware datetimes''
    | Aware t \<Rightarrow> Inr (t \<le> now))"

text \<open>\<^verbatim>\<open>now + timedelta(seconds=n)\<close>.\<close>

definition add_seconds :: "instant \<Rightarrow> int \<Rightarrow> instant result" where
  "add_seconds t n = (if datetime_min \<le> t + n * second_us \<and> t + n * second_us \<le> datetime_max
     then Inr (t + n * second_us) else raise OverflowError ''date value out of range'')"

definition canonical_text :: "json \<Rightarrow> string" where
  "canonical_text j = dumps True j"

text \<open>\<^verbatim>\<open>payload[key]\<close> of a dict; \<^verbatim>\<open>dict(v)\<close> of any value.\<close>

definition item :: "(string \<times> json) list \<Rightarrow> string \<Rightarrow> json result" where
  "item kvs k = (case map_of kvs k of None \<Rightarrow> raise KeyError k | Some v \<Rightarrow> Inr v)"

fun dict_of :: "crypto \<Rightarrow> json \<Rightarrow> (string \<times> json) list result" where
  "dict_of c (JObj kvs) = Inr kvs"
| "dict_of c j = cr_dict c j"

definition absent_fields :: "string list \<Rightarrow> (string \<times> json) list \<Rightarrow> string list" where
  "absent_fields required kvs = sort (filter (\<lambda>f. f \<notin> set (map fst kvs)) required)"

abbreviation text_field :: "crypto \<Rightarrow> (string \<times> json) list \<Rightarrow> string \<Rightarrow> string" where
  "text_field c kvs k \<equiv> py_str (cr_show c) (json_get kvs k)"

section \<open>Agent identities\<close>

record agent_identity =
  id_agent_id :: string
  id_role :: string
  id_schema :: string

definition agent_identity_schema :: string where
  "agent_identity_schema = ''agent-identity-v1''"

definition make_agent_identity :: "string \<Rightarrow> string \<Rightarrow> string \<Rightarrow> agent_identity result" where
  "make_agent_identity agent ro schema =
    (if agent = [] then raise AgentIdentityError ''agent_id_required''
     else if ro = [] then raise AgentIdentityError ''agent_role_required''
     else if schema \<noteq> agent_identity_schema then raise AgentIdentityError ''unsupported_agent_identity_schema''
     else Inr \<lparr>id_agent_id = agent, id_role = ro, id_schema = schema\<rparr>)"

definition identity_json :: "agent_identity \<Rightarrow> json" where
  "identity_json i = JObj [(''agent_id'', JStr (id_agent_id i)), (''role'', JStr (id_role i)),
     (''schema_version'', JStr (id_schema i))]"

definition identity_for_worker :: "crypto \<Rightarrow> string \<Rightarrow> string \<Rightarrow> agent_identity result" where
  "identity_for_worker c ro host =
    (if ro = [] \<or> host = [] then raise AgentIdentityError ''worker_identity_inputs_required''
     else make_agent_identity
       (''af-'' @ take 32 (cr_sha256 c (''aegisforge:'' @ agent_identity_schema @ '':'' @ host @ '':'' @ ro)))
       ro agent_identity_schema)"

record signed_identity =
  si_identity :: agent_identity
  si_public_key :: string
  si_key_id :: string
  si_signature :: string
  si_algorithm :: string
  si_schema :: string

definition signed_identity_schema :: string where
  "signed_identity_schema = ''signed-agent-identity-v1''"

definition signed_identity_payload :: "signed_identity \<Rightarrow> json" where
  "signed_identity_payload s = JObj [(''algorithm'', JStr (si_algorithm s)), (''identity'', identity_json (si_identity s)),
     (''key_id'', JStr (si_key_id s)), (''public_key'', JStr (si_public_key s)), (''schema_version'', JStr (si_schema s))]"

definition signed_identity_json :: "signed_identity \<Rightarrow> json" where
  "signed_identity_json s = JObj [(''algorithm'', JStr (si_algorithm s)), (''identity'', identity_json (si_identity s)),
     (''key_id'', JStr (si_key_id s)), (''public_key'', JStr (si_public_key s)), (''schema_version'', JStr (si_schema s)),
     (''signature'', JStr (si_signature s))]"

text \<open>The identity inside a signed one; a missing key escapes as KeyError.\<close>

definition identity_of_json :: "crypto \<Rightarrow> json \<Rightarrow> agent_identity result" where
  "identity_of_json c j = (case j of
      JObj ids \<Rightarrow> bindR (item ids ''agent_id'') (\<lambda>a. bindR (item ids ''role'') (\<lambda>ro.
        make_agent_identity (py_str (cr_show c) a) (py_str (cr_show c) ro)
          (case map_of ids ''schema_version'' of None \<Rightarrow> agent_identity_schema | Some v \<Rightarrow> py_str (cr_show c) v)))
    | _ \<Rightarrow> raise TypeError ''indices must be integers'')"

definition signed_identity_of_json :: "crypto \<Rightarrow> json \<Rightarrow> signed_identity result" where
  "signed_identity_of_json c j = (case j of
      JObj kvs \<Rightarrow>
       (let missing = absent_fields [''algorithm'', ''key_id'', ''identity'', ''public_key'', ''schema_version'', ''signature''] kvs in
        if missing \<noteq> [] then raise AgentIdentitySignatureError (''signed_agent_identity_fields_missing:'' @ join_comma missing)
        else if json_get kvs ''algorithm'' \<noteq> JStr ''Ed25519'' \<or> json_get kvs ''schema_version'' \<noteq> JStr signed_identity_schema
        then raise AgentIdentitySignatureError ''unsupported_signed_agent_identity''
        else bindR (identity_of_json c (json_get kvs ''identity'')) (\<lambda>i.
          Inr \<lparr>si_identity = i, si_public_key = text_field c kvs ''public_key'', si_key_id = text_field c kvs ''key_id'',
            si_signature = text_field c kvs ''signature'', si_algorithm = ''Ed25519'', si_schema = signed_identity_schema\<rparr>))
    | _ \<Rightarrow> raise AgentIdentitySignatureError ''signed_agent_identity_required'')"

text \<open>The holder of an identity key.\<close>

record identity_signer =
  is_key :: string
  is_identity :: agent_identity

definition identity_key_id :: "crypto \<Rightarrow> string \<Rightarrow> string" where
  "identity_key_id c public = ''agent-ed25519-'' @ take 16 (cr_sha256 c public)"

definition sign_identity :: "crypto \<Rightarrow> identity_signer \<Rightarrow> signed_identity" where
  "sign_identity c h =
    (let public = cr_public c (is_key h);
         s = \<lparr>si_identity = is_identity h, si_public_key = cr_b64encode c public, si_key_id = identity_key_id c public,
              si_signature = [], si_algorithm = ''Ed25519'', si_schema = signed_identity_schema\<rparr>
     in s\<lparr>si_signature := cr_b64encode c (cr_sign c (is_key h) (canonical_text (signed_identity_payload s)))\<rparr>)"

definition verify_identity :: "crypto \<Rightarrow> signed_identity \<Rightarrow> agent_identity result" where
  "verify_identity c s = (case cr_b64decode c (si_public_key s) of
      None \<Rightarrow> raise AgentIdentitySignatureError ''agent_identity_signature_invalid''
    | Some public \<Rightarrow>
       (if \<not> cr_public_ok c public then raise AgentIdentitySignatureError ''agent_identity_signature_invalid''
        else if identity_key_id c public \<noteq> si_key_id s then raise AgentIdentitySignatureError ''agent_identity_key_id_mismatch''
        else (case cr_b64decode c (si_signature s) of
            None \<Rightarrow> raise AgentIdentitySignatureError ''agent_identity_signature_invalid''
          | Some sg \<Rightarrow> if cr_verify c public sg (canonical_text (signed_identity_payload s)) then Inr (si_identity s)
              else raise AgentIdentitySignatureError ''agent_identity_signature_invalid'')))"

section \<open>Intents as the dataclass holds them\<close>

text \<open>
  The fields of \<^verbatim>\<open>ActionIntent\<close> in order, with the defaults. A value of the class is the list
  of its fields: \<^verbatim>\<open>ActionIntent(**raw)\<close> checks the names only, not the types of the values.
\<close>

type_synonym intent_value = "(string \<times> json) list"

definition intent_defaults :: "(string \<times> json) list" where
  "intent_defaults = [(''role'', JNull), (''action'', JNull), (''agent_id'', JStr []), (''target'', JStr []), (''resource'', JStr []),
     (''destination'', JStr []), (''data_scope'', JStr []), (''irreversible'', JBool False), (''requires_network'', JBool False),
     (''requires_shell'', JBool False), (''requires_filesystem'', JBool False), (''financial'', JBool False),
     (''privileged'', JBool False), (''read_only'', JBool True), (''evidence_required'', JBool False), (''parameters'', JNull)]"

definition make_intent :: "(string \<times> json) list \<Rightarrow> intent_value result" where
  "make_intent raw =
    (if \<exists>k \<in> set (map fst raw). k \<notin> set (map fst intent_defaults)
     then raise TypeError ''ActionIntent.__init__() got an unexpected keyword argument''
     else if ''role'' \<notin> set (map fst raw) \<or> ''action'' \<notin> set (map fst raw)
     then raise TypeError ''ActionIntent.__init__() missing a required positional argument''
     else Inr (map (\<lambda>(f, d). (f, case map_of raw f of None \<Rightarrow> d | Some v \<Rightarrow> v)) intent_defaults))"

text \<open>An intent the code built from typed values, and its fields.\<close>

record full_intent = action_intent +
  ai_parameters :: "(string \<times> json) list option"

definition intent_value_of :: "full_intent \<Rightarrow> intent_value" where
  "intent_value_of i = [(''role'', JStr (ai_role i)), (''action'', JStr (ai_action i)), (''agent_id'', JStr (ai_agent_id i)),
     (''target'', JStr (ai_target i)), (''resource'', JStr (ai_resource i)), (''destination'', JStr (ai_destination i)),
     (''data_scope'', JStr (ai_data_scope i)), (''irreversible'', JBool (ai_irreversible i)),
     (''requires_network'', JBool (ai_requires_network i)), (''requires_shell'', JBool (ai_requires_shell i)),
     (''requires_filesystem'', JBool (ai_requires_filesystem i)), (''financial'', JBool (ai_financial i)),
     (''privileged'', JBool (ai_privileged i)), (''read_only'', JBool (ai_read_only i)),
     (''evidence_required'', JBool (ai_evidence_required i)),
     (''parameters'', case ai_parameters i of None \<Rightarrow> JNull | Some ps \<Rightarrow> JObj ps)]"

text \<open>\<^verbatim>\<open>to_dict\<close>, with \<^verbatim>\<open>dict(self.parameters or {})\<close>.\<close>

definition intent_json :: "crypto \<Rightarrow> intent_value \<Rightarrow> json result" where
  "intent_json c i =
    (let p = json_get i ''parameters'' in
     bindR (if truthy p then dict_of c p else Inr []) (\<lambda>ps.
       Inr (JObj (sort_key fst (map (\<lambda>(f, v). (f, if f = ''parameters'' then JObj ps else v)) i)))))"

definition intent_hash :: "crypto \<Rightarrow> intent_value \<Rightarrow> string result" where
  "intent_hash c i = bindR (intent_json c i) (\<lambda>j. Inr (cr_sha256 c (canonical_text j)))"

section \<open>Python equality of values\<close>

text \<open>\<^verbatim>\<open>==\<close> on JSON-like values: True is 1, dicts compare without order.\<close>

fun py_key :: "json \<Rightarrow> json" where
  "py_key (JBool b) = JInt (if b then 1 else 0)"
| "py_key (JArr xs) = JArr (map py_key xs)"
| "py_key (JObj kvs) = JObj (sort_key fst (map (\<lambda>(k, v). (k, py_key v)) kvs))"
| "py_key j = j"

definition py_eq :: "json \<Rightarrow> json \<Rightarrow> bool" where
  "py_eq a b \<longleftrightarrow> py_key a = py_key b"

lemma py_eq_refl [simp]: "py_eq a a"
  by (simp add: py_eq_def)

section \<open>Signed intents\<close>

record signed_intent =
  sn_intent :: intent_value
  sn_intent_hash :: string
  sn_identity :: signed_identity
  sn_issued_at :: string
  sn_nonce :: string
  sn_signature :: string
  sn_algorithm :: string
  sn_schema :: string
  sn_expires_at :: string

definition signed_intent_schema :: string where
  "signed_intent_schema = ''signed-action-intent-v1''"

definition signed_intent_items :: "crypto \<Rightarrow> signed_intent \<Rightarrow> (string \<times> json) list result" where
  "signed_intent_items c s = bindR (intent_json c (sn_intent s)) (\<lambda>j.
     Inr [(''agent_identity'', signed_identity_json (sn_identity s)), (''algorithm'', JStr (sn_algorithm s)),
       (''expires_at'', JStr (sn_expires_at s)), (''intent'', j), (''intent_hash'', JStr (sn_intent_hash s)),
       (''issued_at'', JStr (sn_issued_at s)), (''nonce'', JStr (sn_nonce s)), (''schema_version'', JStr (sn_schema s))])"

definition signed_intent_json :: "crypto \<Rightarrow> signed_intent \<Rightarrow> json result" where
  "signed_intent_json c s = bindR (signed_intent_items c s) (\<lambda>kvs. Inr (JObj (kvs @ [(''signature'', JStr (sn_signature s))])))"

definition signed_intent_fields :: "string list" where
  "signed_intent_fields = [''algorithm'', ''agent_identity'', ''expires_at'', ''intent'', ''intent_hash'', ''issued_at'',
     ''nonce'', ''schema_version'', ''signature'']"

definition signed_intent_of_json :: "crypto \<Rightarrow> json \<Rightarrow> signed_intent result" where
  "signed_intent_of_json c j = (case j of
      JObj kvs \<Rightarrow>
       (let missing = absent_fields signed_intent_fields kvs in
        if missing \<noteq> [] then raise SignedActionIntentError (''signed_action_intent_fields_missing:'' @ join_comma missing)
        else if json_get kvs ''algorithm'' \<noteq> JStr ''Ed25519'' \<or> json_get kvs ''schema_version'' \<noteq> JStr signed_intent_schema
        then raise SignedActionIntentError ''unsupported_signed_action_intent''
        else bindR (rescue type_or_value (\<lambda>e. Exc SignedActionIntentError (exc_msg e))
              (bindR (signed_identity_of_json c (json_get kvs ''agent_identity'')) (\<lambda>ident.
               bindR (dict_of c (json_get kvs ''intent'')) (\<lambda>raw.
               bindR (make_intent raw) (\<lambda>i. Inr (ident, i)))))) (\<lambda>(ident, i).
          Inr \<lparr>sn_intent = i, sn_intent_hash = text_field c kvs ''intent_hash'', sn_identity = ident,
            sn_issued_at = text_field c kvs ''issued_at'', sn_nonce = text_field c kvs ''nonce'',
            sn_signature = text_field c kvs ''signature'', sn_algorithm = ''Ed25519'', sn_schema = signed_intent_schema,
            sn_expires_at = text_field c kvs ''expires_at''\<rparr>))
    | _ \<Rightarrow> raise SignedActionIntentError ''signed_action_intent_required'')"

text \<open>
  The signature block of \<^verbatim>\<open>verify\<close>: whatever raises inside becomes signature_invalid. Before
  it, \<^verbatim>\<open>intent_hash\<close> may raise what \<^verbatim>\<open>dict(parameters)\<close> raises.
\<close>

definition intent_signature_ok :: "crypto \<Rightarrow> signed_intent \<Rightarrow> bool" where
  "intent_signature_ok c s = (case (cr_b64decode c (sn_signature s), cr_b64decode c (si_public_key (sn_identity s)),
        signed_intent_items c s) of
      (Some sg, Some public, Inr kvs) \<Rightarrow> cr_public_ok c public \<and> cr_verify c public sg (canonical_text (JObj kvs))
    | _ \<Rightarrow> False)"

definition verify_signed_intent :: "crypto \<Rightarrow> instant option \<Rightarrow> instant \<Rightarrow> signed_intent \<Rightarrow> unit result" where
  "verify_signed_intent c now clock s =
    bindR (ensure (JStr (id_agent_id (si_identity (sn_identity s))) = json_get (sn_intent s) ''agent_id'')
       SignedActionIntentError ''agent_identity_mismatch'') (\<lambda>_.
    bindR (intent_hash c (sn_intent s)) (\<lambda>h.
    bindR (ensure (sn_intent_hash s = h) SignedActionIntentError ''intent_hash_mismatch'') (\<lambda>_.
    bindR (rescue (\<lambda>cl. cl = AgentIdentitySignatureError) (\<lambda>e. Exc SignedActionIntentError (exc_msg e))
       (verify_identity c (sn_identity s))) (\<lambda>_.
    bindR (ensure (intent_signature_ok c s) SignedActionIntentError ''signature_invalid'') (\<lambda>_.
    if sn_expires_at s = [] then Inr ()
    else bindR (reached (case now of None \<Rightarrow> clock | Some t \<Rightarrow> t) (cr_parse_time c (sn_expires_at s)) SignedActionIntentError)
      (\<lambda>late. ensure (\<not> late) SignedActionIntentError ''intent_expired''))))))"

text \<open>\<open>token\<close> is the nonce the library draws when the caller gives none.\<close>

definition sign_intent :: "crypto \<Rightarrow> identity_signer \<Rightarrow> full_intent \<Rightarrow> int \<Rightarrow> string option \<Rightarrow> string \<Rightarrow> instant \<Rightarrow>
    signed_intent result" where
  "sign_intent c h i ttl nonce token clock =
    (if ai_agent_id i \<noteq> id_agent_id (is_identity h) then raise SignedActionIntentError ''agent_identity_mismatch''
     else if ttl \<le> 0 then raise SignedActionIntentError ''invalid_ttl''
     else bindR (intent_hash c (intent_value_of i)) (\<lambda>ih.
       bindR (add_seconds clock ttl) (\<lambda>expiry.
       let s = \<lparr>sn_intent = intent_value_of i, sn_intent_hash = ih, sn_identity = sign_identity c h,
             sn_issued_at = isoformat clock,
             sn_nonce = (case nonce of None \<Rightarrow> token | Some n \<Rightarrow> if n = [] then token else n), sn_signature = [],
             sn_algorithm = ''Ed25519'', sn_schema = signed_intent_schema, sn_expires_at = isoformat expiry\<rparr> in
       bindR (signed_intent_items c s) (\<lambda>kvs.
         Inr (s\<lparr>sn_signature := cr_b64encode c (cr_sign c (is_key h) (canonical_text (JObj kvs)))\<rparr>)))))"

end
