(* ===== verification/Grants.thy ===== *)
theory Grants
  imports Signing GrantStore
begin

text \<open>
  Capability grants (\<^verbatim>\<open>src/shared/capability_grant.py\<close>) and their signatures
  (\<^verbatim>\<open>src/shared/capability_signing.py\<close>): issuing, the binding to intent, evidence and outcome
  contract, expiry, and the round trip through JSON.
\<close>

section \<open>The grant\<close>

record capability_grant =
  cg_grant_id :: string
  cg_task_id :: string
  cg_agent_id :: string
  cg_epoch :: int
  cg_state :: string
  cg_intent_hash :: string
  cg_policy_version :: string
  cg_evidence_ids :: "string list"
  cg_evidence_hash :: string
  cg_action :: string
  cg_target :: string
  cg_scope :: string
  cg_issued_at :: string
  cg_expires_at :: string
  cg_nonce :: string
  cg_status :: string
  cg_contract :: "(string \<times> json) list"
  cg_signed_intent :: "(string \<times> json) list"

definition evidence_hash :: "crypto \<Rightarrow> string list \<Rightarrow> string" where
  "evidence_hash c ids = cr_sha256 c (canonical_text (JArr (map JStr (sort ids))))"

definition grant_json :: "capability_grant \<Rightarrow> json" where
  "grant_json g = JObj [(''agent_id'', JStr (cg_agent_id g)), (''authority_epoch'', JInt (cg_epoch g)),
     (''authority_state'', JStr (cg_state g)), (''authorized_action'', JStr (cg_action g)),
     (''authorized_scope'', JStr (cg_scope g)), (''authorized_target'', JStr (cg_target g)),
     (''evidence_hash'', JStr (cg_evidence_hash g)), (''evidence_ids'', JArr (map JStr (cg_evidence_ids g))),
     (''expires_at'', JStr (cg_expires_at g)), (''grant_id'', JStr (cg_grant_id g)),
     (''intent_hash'', JStr (cg_intent_hash g)), (''issued_at'', JStr (cg_issued_at g)), (''nonce'', JStr (cg_nonce g)),
     (''outcome_contract'', JObj (cg_contract g)), (''policy_version'', JStr (cg_policy_version g)),
     (''signed_action_intent'', JObj (cg_signed_intent g)), (''status'', JStr (cg_status g)), (''task_id'', JStr (cg_task_id g))]"

definition grant_fields :: "string list" where
  "grant_fields = [''grant_id'', ''task_id'', ''agent_id'', ''authority_epoch'', ''authority_state'', ''intent_hash'',
     ''policy_version'', ''evidence_ids'', ''evidence_hash'', ''authorized_action'', ''authorized_target'',
     ''authorized_scope'', ''issued_at'', ''expires_at'', ''nonce'', ''status'', ''outcome_contract'']"

text \<open>\<^verbatim>\<open>(str(v) for v in payload["evidence_ids"])\<close>: lists, texts and dicts iterate.\<close>

fun iterated_texts :: "crypto \<Rightarrow> json \<Rightarrow> string list result" where
  "iterated_texts c (JArr xs) = Inr (map (py_str (cr_show c)) xs)"
| "iterated_texts c (JStr s) = Inr (map (\<lambda>ch. [ch]) s)"
| "iterated_texts c (JObj kvs) = Inr (map fst kvs)"
| "iterated_texts c _ = raise CapabilityGrantError ''invalid_evidence_ids''"

text \<open>\<^verbatim>\<open>int(v)\<close>.\<close>

fun py_int_of :: "json \<Rightarrow> int result" where
  "py_int_of (JInt i) = Inr i"
| "py_int_of (JBool b) = Inr (if b then 1 else 0)"
| "py_int_of (JStr s) = (case py_int s of None \<Rightarrow> raise ValueError ''invalid literal for int()'' | Some i \<Rightarrow> Inr i)"
| "py_int_of _ = raise TypeError ''int() argument must be a string or a number''"

text \<open>\<^verbatim>\<open>SignedActionIntent.from_dict\<close> and \<^verbatim>\<open>verify\<close> on the grant's copy of the signed intent.\<close>

definition embedded_intent :: "crypto \<Rightarrow> instant option \<Rightarrow> instant \<Rightarrow> (string \<times> json) list \<Rightarrow> signed_intent result" where
  "embedded_intent c now clock kvs =
     bindR (signed_intent_of_json c (JObj kvs)) (\<lambda>s. bindR (verify_signed_intent c now clock s) (\<lambda>_. Inr s))"

definition check_embedded_intent :: "crypto \<Rightarrow> instant \<Rightarrow> (string \<times> json) list \<Rightarrow> string \<Rightarrow> unit result" where
  "check_embedded_intent c clock kvs h =
    (if kvs = [] then Inr ()
     else bindR (rescue type_or_value (\<lambda>_. Exc CapabilityGrantError ''signed_action_intent_invalid'')
           (embedded_intent c None clock kvs)) (\<lambda>s.
       ensure (sn_intent_hash s = h) CapabilityGrantError ''signed_action_intent_hash_mismatch''))"

definition grant_of_json :: "crypto \<Rightarrow> instant \<Rightarrow> json \<Rightarrow> capability_grant result" where
  "grant_of_json c clock j = (case j of
      JObj kvs \<Rightarrow>
       (let missing = absent_fields grant_fields kvs in
        if missing \<noteq> [] then raise CapabilityGrantError (''grant_fields_missing:'' @ join_comma missing)
        else
          bindR (iterated_texts c (json_get kvs ''evidence_ids'')) (\<lambda>ids.
          bindR (py_int_of (json_get kvs ''authority_epoch'')) (\<lambda>epoch.
          bindR (dict_of c (json_get kvs ''outcome_contract'')) (\<lambda>contract.
          bindR (let v = json_get kvs ''signed_action_intent'' in if truthy v then dict_of c v else Inr []) (\<lambda>signed.
          let g = \<lparr>cg_grant_id = text_field c kvs ''grant_id'', cg_task_id = text_field c kvs ''task_id'',
                cg_agent_id = text_field c kvs ''agent_id'', cg_epoch = epoch,
                cg_state = text_field c kvs ''authority_state'', cg_intent_hash = text_field c kvs ''intent_hash'',
                cg_policy_version = text_field c kvs ''policy_version'', cg_evidence_ids = sort ids,
                cg_evidence_hash = text_field c kvs ''evidence_hash'', cg_action = text_field c kvs ''authorized_action'',
                cg_target = text_field c kvs ''authorized_target'', cg_scope = text_field c kvs ''authorized_scope'',
                cg_issued_at = text_field c kvs ''issued_at'', cg_expires_at = text_field c kvs ''expires_at'',
                cg_nonce = text_field c kvs ''nonce'', cg_status = text_field c kvs ''status'',
                cg_contract = contract, cg_signed_intent = signed\<rparr> in
          bindR (ensure (is_dict (json_get kvs ''outcome_contract'')) CapabilityGrantError ''invalid_outcome_contract'') (\<lambda>_.
          bindR (validate_outcome_contract (json_get kvs ''outcome_contract'') (json_get kvs ''authorized_action'')) (\<lambda>_.
          bindR (check_embedded_intent c clock signed (cg_intent_hash g)) (\<lambda>_.
          bindR (ensure (cg_evidence_hash g = evidence_hash c (cg_evidence_ids g)) CapabilityGrantError ''evidence_hash_mismatch'')
            (\<lambda>_. Inr g)))))))))
    | _ \<Rightarrow> raise CapabilityGrantError ''grant_payload_required'')"

text \<open>\<^verbatim>\<open>dict(intent.parameters or {}).get("outcome_contract", {})\<close>.\<close>

definition intent_contract :: "full_intent \<Rightarrow> json" where
  "intent_contract i = (case map_of (case ai_parameters i of None \<Rightarrow> [] | Some ps \<Rightarrow> ps) ''outcome_contract'' of
      None \<Rightarrow> JObj [] | Some v \<Rightarrow> v)"

definition verify_binding :: "crypto \<Rightarrow> instant \<Rightarrow> capability_grant \<Rightarrow> full_intent \<Rightarrow> string list \<Rightarrow> unit result" where
  "verify_binding c clock g i ids =
    bindR (ensure (cg_status g = ''ACTIVE'') CapabilityGrantError ''grant_not_active'') (\<lambda>_.
    bindR (intent_hash c (intent_value_of i)) (\<lambda>h.
    bindR (ensure (cg_intent_hash g = h) CapabilityGrantError ''intent_hash_mismatch'') (\<lambda>_.
    bindR (check_embedded_intent c clock (cg_signed_intent g) (cg_intent_hash g)) (\<lambda>_.
    bindR (ensure (cg_evidence_hash g = evidence_hash c ids) CapabilityGrantError ''evidence_hash_mismatch'') (\<lambda>_.
    bindR (ensure (sort ids = sort (cg_evidence_ids g)) CapabilityGrantError ''evidence_ids_mismatch'') (\<lambda>_.
    bindR (ensure (cg_action g = ai_action i) CapabilityGrantError ''authorized_action_mismatch'') (\<lambda>_.
    bindR (ensure (cg_target g = ai_target i) CapabilityGrantError ''authorized_target_mismatch'') (\<lambda>_.
    bindR (validate_outcome_contract (intent_contract i) (JStr (ai_action i))) (\<lambda>_.
    bindR (validate_outcome_contract (JObj (cg_contract g)) (JStr (ai_action i))) (\<lambda>_.
    ensure (py_eq (intent_contract i) (JObj (cg_contract g))) CapabilityGrantError ''outcome_contract_mismatch''))))))))))"

text \<open>What the caller passes to \<^verbatim>\<open>issue_capability_grant\<close>; the tokens are the drawn ids.\<close>

record issue_args =
  ig_task_id :: string
  ig_policy_version :: string
  ig_evidence_ids :: "string list"
  ig_scope :: string
  ig_ttl :: int
  ig_contract :: "json option"
  ig_state :: "authority_state option"
  ig_context :: "agent_authority option"
  ig_signed_intent :: "signed_intent option"
  ig_grant_id :: "string option"
  ig_nonce :: "string option"
  ig_token :: string
  ig_nonce_token :: string

text \<open>\<^verbatim>\<open>str(x) if x else "..."\<close>.\<close>

definition given_or :: "string option \<Rightarrow> string \<Rightarrow> string" where
  "given_or x d = (case x of None \<Rightarrow> d | Some s \<Rightarrow> if s = [] then d else s)"

definition check_context :: "issue_args \<Rightarrow> agent_authority result" where
  "check_context a = (case ig_context a of
      None \<Rightarrow> raise CapabilityGrantError ''authority_context_required''
    | Some au \<Rightarrow>
       (if aa_agent_id au = [] then raise CapabilityGrantError ''authority_agent_id_required''
        else if aa_epoch au \<le> 0 then raise CapabilityGrantError ''authority_epoch_required''
        else if ig_state a \<noteq> None \<and> ig_state a \<noteq> Some (aa_state au)
        then raise CapabilityGrantError ''authority_state_mismatch''
        else if ig_policy_version a \<noteq> aa_policy_version au
        then raise CapabilityGrantError ''authority_policy_version_mismatch''
        else Inr au))"

definition signed_intent_for :: "crypto \<Rightarrow> instant \<Rightarrow> full_intent \<Rightarrow> signed_intent option \<Rightarrow> (string \<times> json) list result" where
  "signed_intent_for c clock i signed = (case signed of
      None \<Rightarrow> Inr []
    | Some s \<Rightarrow>
        bindR (rescue (\<lambda>cl. cl = SignedActionIntentError) (\<lambda>_. Exc CapabilityGrantError ''signed_action_intent_invalid'')
          (verify_signed_intent c None clock s)) (\<lambda>_.
        bindR (intent_hash c (intent_value_of i)) (\<lambda>h.
        bindR (ensure (sn_intent_hash s = h) CapabilityGrantError ''signed_action_intent_hash_mismatch'') (\<lambda>_.
        bindR (signed_intent_json c s) (dict_of c)))))"

definition issue_capability_grant :: "crypto \<Rightarrow> instant \<Rightarrow> full_intent \<Rightarrow> issue_args \<Rightarrow>
    capability_grant result" where
  "issue_capability_grant c clock i a =
    bindR (check_context a) (\<lambda>au.
    bindR (signed_intent_for c clock i (ig_signed_intent a)) (\<lambda>signed.
    bindR (evaluate_effective_capability (Some (action_intent.truncate i)) (Inl (aa_state au))
      default_capability_policy) (\<lambda>e.
    if ec_decision e = BLOCK then raise CapabilityGrantError (''authority_blocked:'' @ ec_reason e)
    else if ig_ttl a \<le> 0 then raise CapabilityGrantError ''invalid_ttl''
    else
      bindR (validate_outcome_contract (intent_contract i) (JStr (ai_action i))) (\<lambda>_.
      let requested = (case ig_contract a of None \<Rightarrow> intent_contract i | Some v \<Rightarrow> v) in
      bindR (validate_outcome_contract requested (JStr (ai_action i))) (\<lambda>_.
      bindR (ensure (py_eq requested (intent_contract i)) CapabilityGrantError ''outcome_contract_mismatch'') (\<lambda>_.
      bindR (intent_hash c (intent_value_of i)) (\<lambda>h.
      bindR (add_seconds clock (ig_ttl a)) (\<lambda>expiry.
      bindR (dict_of c requested) (\<lambda>contract.
        Inr \<lparr>cg_grant_id = given_or (ig_grant_id a) (''grant_'' @ ig_token a), cg_task_id = ig_task_id a,
          cg_agent_id = aa_agent_id au, cg_epoch = aa_epoch au, cg_state = authority_state_value (aa_state au),
          cg_intent_hash = h, cg_policy_version = ig_policy_version a, cg_evidence_ids = sort (ig_evidence_ids a),
          cg_evidence_hash = evidence_hash c (ig_evidence_ids a), cg_action = ai_action i, cg_target = ai_target i,
          cg_scope = ig_scope a, cg_issued_at = isoformat clock, cg_expires_at = isoformat expiry,
          cg_nonce = given_or (ig_nonce a) (ig_nonce_token a), cg_status = ''ACTIVE'', cg_contract = contract,
          cg_signed_intent = signed\<rparr>)))))))))"

definition consume_capability_grant :: "crypto \<Rightarrow> instant option \<Rightarrow> instant \<Rightarrow> capability_grant \<Rightarrow> full_intent \<Rightarrow>
    string list \<Rightarrow> unit result" where
  "consume_capability_grant c now clock g i ids =
    bindR (verify_binding c clock g i ids) (\<lambda>_.
    bindR (reached (case now of None \<Rightarrow> clock | Some t \<Rightarrow> t) (cr_parse_time c (cg_expires_at g)) CapabilityGrantError)
      (\<lambda>late. ensure (\<not> late) CapabilityGrantError ''grant_expired''))"

section \<open>Signed grants\<close>

record signed_capability =
  sc_grant :: capability_grant
  sc_key_id :: string
  sc_signature :: string
  sc_identity :: "signed_identity option"
  sc_algorithm :: string

definition signed_capability_items :: "signed_capability \<Rightarrow> (string \<times> json) list" where
  "signed_capability_items s =
    [(''agent_identity'', case sc_identity s of None \<Rightarrow> JNull | Some i \<Rightarrow> signed_identity_json i),
     (''algorithm'', JStr (sc_algorithm s)), (''grant'', grant_json (sc_grant s)), (''key_id'', JStr (sc_key_id s))]"

definition signed_capability_json :: "signed_capability \<Rightarrow> json" where
  "signed_capability_json s = JObj (signed_capability_items s @ [(''signature'', JStr (sc_signature s))])"

text \<open>The first of the required fields that is absent, in the order of the loop.\<close>

definition signed_capability_of_json :: "crypto \<Rightarrow> instant \<Rightarrow> json \<Rightarrow> signed_capability result" where
  "signed_capability_of_json c clock j = (case j of
      JObj kvs \<Rightarrow>
       (case find (\<lambda>f. f \<notin> set (map fst kvs)) [''algorithm'', ''key_id'', ''grant'', ''signature'', ''agent_identity''] of
          Some f \<Rightarrow> raise CapabilitySignatureError (''signed_grant_field_missing:'' @ f)
        | None \<Rightarrow>
            bindR (ensure (json_get kvs ''algorithm'' = JStr ''Ed25519'') CapabilitySignatureError ''unsupported_signature_algorithm'') (\<lambda>_.
            bindR (rescue type_or_value (\<lambda>e. Exc CapabilitySignatureError (exc_msg e))
              (grant_of_json c clock (json_get kvs ''grant''))) (\<lambda>g.
            bindR (if json_get kvs ''agent_identity'' = JNull then Inr None
                   else bindR (rescue type_or_value (\<lambda>e. Exc CapabilitySignatureError (exc_msg e))
                     (signed_identity_of_json c (json_get kvs ''agent_identity''))) (\<lambda>i. Inr (Some i))) (\<lambda>ident.
              Inr \<lparr>sc_grant = g, sc_key_id = text_field c kvs ''key_id'', sc_signature = text_field c kvs ''signature'',
                sc_identity = ident, sc_algorithm = ''Ed25519''\<rparr>))))
    | _ \<Rightarrow> raise CapabilitySignatureError ''signed_grant_required'')"

record capability_signer =
  ck_key :: string
  ck_key_id :: string

definition make_capability_signer :: "crypto \<Rightarrow> string \<Rightarrow> string option \<Rightarrow> capability_signer" where
  "make_capability_signer c key key_id =
     \<lparr>ck_key = key, ck_key_id = given_or key_id (''ed25519-'' @ take 16 (cr_sha256 c (cr_public c key)))\<rparr>"

text \<open>The check of an attached agent identity, shared by \<^verbatim>\<open>sign\<close> and \<^verbatim>\<open>verify\<close>.\<close>

definition check_grant_identity :: "crypto \<Rightarrow> capability_grant \<Rightarrow> signed_identity option \<Rightarrow> unit result" where
  "check_grant_identity c g ident = (case ident of
      None \<Rightarrow> Inr ()
    | Some s \<Rightarrow> bindR (rescue (\<lambda>cl. cl = AgentIdentitySignatureError) (\<lambda>e. Exc CapabilitySignatureError (exc_msg e))
          (verify_identity c s)) (\<lambda>_.
        ensure (id_agent_id (si_identity s) = cg_agent_id g) CapabilitySignatureError ''agent_identity_mismatch''))"

definition sign_capability :: "crypto \<Rightarrow> capability_signer \<Rightarrow> capability_grant \<Rightarrow> signed_identity option \<Rightarrow>
    signed_capability result" where
  "sign_capability c k g ident =
    bindR (check_grant_identity c g ident) (\<lambda>_.
      let s = \<lparr>sc_grant = g, sc_key_id = ck_key_id k, sc_signature = [], sc_identity = ident, sc_algorithm = ''Ed25519''\<rparr>
      in Inr (s\<lparr>sc_signature := cr_b64encode c (cr_sign c (ck_key k) (canonical_text (JObj (signed_capability_items s))))\<rparr>))"

definition verify_capability :: "crypto \<Rightarrow> capability_signer \<Rightarrow> signed_capability \<Rightarrow> capability_grant result" where
  "verify_capability c k s =
    bindR (ensure (sc_algorithm s = ''Ed25519'') CapabilitySignatureError ''unsupported_signature_algorithm'') (\<lambda>_.
    bindR (ensure (sc_key_id s = ck_key_id k) CapabilitySignatureError ''signer_key_id_mismatch'') (\<lambda>_.
    bindR (check_grant_identity c (sc_grant s) (sc_identity s)) (\<lambda>_.
      (case cr_b64decode c (sc_signature s) of
         None \<Rightarrow> raise CapabilitySignatureError ''signature_invalid''
       | Some sg \<Rightarrow> if cr_verify c (cr_public c (ck_key k)) sg (canonical_text (JObj (signed_capability_items s)))
           then Inr (sc_grant s) else raise CapabilitySignatureError ''signature_invalid''))))"

text \<open>What the grant store keeps of a signed grant.\<close>

definition stored_grant :: "signed_capability \<Rightarrow> signed_grant" where
  "stored_grant s = (let g = sc_grant s in
     \<lparr>sg_grant_id = cg_grant_id g, sg_nonce = cg_nonce g, sg_task_id = cg_task_id g, sg_key_id = sc_key_id s,
      sg_payload = signed_capability_json s, sg_issued_at = cg_issued_at g, sg_expires_at = cg_expires_at g\<rparr>)"

end
