(* ===== verification/ExecutionGate.thy ===== *)
theory ExecutionGate
  imports Grants AttemptRuns
begin

text \<open>
  The boundary between authority and execution (\<^verbatim>\<open>src/shared/execution_gate.py\<close>). The gate
  works on four tables and on the world, the state that the injected executor reads and
  changes. Every store call commits on its own, so an exception leaves what was committed
  before it. The clock and the drawn receipt id are arguments of a call.
\<close>

record consumption =
  cn_nonce :: string
  cn_grant_id :: string
  cn_task_id :: string
  cn_consumed_at :: string
  cn_receipt_id :: string

record 'w gate_db =
  gd_grants :: grant_table
  gd_nonces :: "consumption list"
  gd_attempts :: attempts
  gd_authority :: authority_db
  gd_world :: 'w

text \<open>The gate object; without a database it has no stores.\<close>

record gate =
  ge_crypto :: crypto
  ge_policy_version :: string
  ge_signer :: "capability_signer option"
  ge_db :: bool
  ge_registry :: bool

record receipt =
  re_receipt_id :: string
  re_task_id :: string
  re_grant_id :: string
  re_nonce :: string
  re_intent_hash :: string
  re_policy_version :: string
  re_action :: string
  re_target :: string
  re_scope :: string
  re_status :: string
  re_executed_at :: string
  re_result :: json
  re_error :: string
  re_agent_id :: string
  re_epoch :: int
  re_state :: string
  re_executor_id :: string
  re_executor_version :: string
  re_executor_digest :: "string option"
  re_executor_epoch :: int

definition optional_text :: "string option \<Rightarrow> json" where
  "optional_text x = (case x of None \<Rightarrow> JNull | Some s \<Rightarrow> JStr s)"

definition receipt_json :: "receipt \<Rightarrow> json" where
  "receipt_json r = JObj [(''action'', JStr (re_action r)), (''agent_id'', JStr (re_agent_id r)),
     (''authority_epoch'', JInt (re_epoch r)), (''authority_state'', JStr (re_state r)),
     (''authorized_scope'', JStr (re_scope r)), (''error'', JStr (re_error r)), (''executed_at'', JStr (re_executed_at r)),
     (''executor_id'', JStr (re_executor_id r)), (''executor_identity_epoch'', JInt (re_executor_epoch r)),
     (''executor_implementation_digest'', optional_text (re_executor_digest r)),
     (''executor_version'', JStr (re_executor_version r)), (''grant_id'', JStr (re_grant_id r)),
     (''intent_hash'', JStr (re_intent_hash r)), (''nonce'', JStr (re_nonce r)),
     (''policy_version'', JStr (re_policy_version r)), (''receipt_id'', JStr (re_receipt_id r)), (''result'', re_result r),
     (''status'', JStr (re_status r)), (''target'', JStr (re_target r)), (''task_id'', JStr (re_task_id r))]"

text \<open>The text of a caught exception becomes a gate error.\<close>

definition gate_error :: "exc \<Rightarrow> exc" where
  "gate_error e = Exc ExecutionGateError (exc_msg e)"

definition gate_grant :: "gate \<Rightarrow> signed_capability \<Rightarrow> capability_grant result" where
  "gate_grant ge s = (case ge_signer ge of
      None \<Rightarrow> raise ExecutionGateError ''signer_required''
    | Some k \<Rightarrow> rescue (\<lambda>cl. cl = CapabilitySignatureError) gate_error (verify_capability (ge_crypto ge) k s))"

definition gate_scope :: "full_intent \<Rightarrow> string" where
  "gate_scope i = (if ai_destination i \<noteq> [] then ai_destination i else ai_resource i)"

definition verify_grant_intent :: "gate \<Rightarrow> instant option \<Rightarrow> instant \<Rightarrow> capability_grant \<Rightarrow> unit result" where
  "verify_grant_intent ge now clock g =
    (if cg_signed_intent g = [] then raise ExecutionGateError ''signed_action_intent_required''
     else bindR (rescue type_or_value (\<lambda>_. Exc ExecutionGateError ''signed_action_intent_invalid'')
           (embedded_intent (ge_crypto ge) now clock (cg_signed_intent g))) (\<lambda>s.
       bindR (ensure (id_agent_id (si_identity (sn_identity s)) = cg_agent_id g) ExecutionGateError
         ''signed_action_intent_agent_mismatch'') (\<lambda>_.
       ensure (sn_intent_hash s = cg_intent_hash g) ExecutionGateError ''signed_action_intent_hash_mismatch'')))"

definition check_authority :: "gate \<Rightarrow> authority_db \<Rightarrow> capability_grant \<Rightarrow> unit result" where
  "check_authority ge db g =
    bindR (ensure (cg_policy_version g = ge_policy_version ge) ExecutionGateError ''policy_version_mismatch'') (\<lambda>_.
    bindR (ensure (ge_registry ge) ExecutionGateError ''authority_registry_required'') (\<lambda>_.
    bindR (rescue (\<lambda>cl. cl = AgentAuthorityError) gate_error (authority_get db (cg_agent_id g))) (\<lambda>a.
    bindR (ensure (cg_epoch g = aa_epoch a) ExecutionGateError ''authority_epoch_mismatch'') (\<lambda>_.
    bindR (ensure (cg_state g = authority_state_value (aa_state a)) ExecutionGateError ''authority_state_mismatch'') (\<lambda>_.
    ensure (cg_policy_version g = aa_policy_version a) ExecutionGateError ''authority_policy_version_mismatch'')))))"

definition gate_register :: "gate \<Rightarrow> instant \<Rightarrow> signed_capability \<Rightarrow> ('w gate_db, unit) op" where
  "gate_register ge clock s =
    (if \<not> ge_db ge then retS ()
     else bindS (commitS (\<lambda>db. bindR (rescue (\<lambda>cl. cl = CapabilityGrantStoreError) gate_error
            (ensure_registered (gd_grants db) (stored_grant s) (isoformat clock)))
            (\<lambda>(st, gs). Inr (st, db\<lparr>gd_grants := gs\<rparr>)))) (\<lambda>st.
       liftS (ensure (st = ''ACTIVE'') ExecutionGateError (if st = ''REVOKED'' then ''grant_revoked'' else ''grant_replayed''))))"

definition authorize :: "gate \<Rightarrow> instant option \<Rightarrow> instant \<Rightarrow> signed_capability option \<Rightarrow> full_intent \<Rightarrow> string list \<Rightarrow>
    ('w gate_db, capability_grant) op" where
  "authorize ge now clock signed i ids = (case signed of
      None \<Rightarrow> failS ExecutionGateError ''grant_required''
    | Some s \<Rightarrow>
        bindS (liftS (gate_grant ge s)) (\<lambda>g.
        bindS (liftS (verify_grant_intent ge now clock g)) (\<lambda>_.
        bindS (readS (\<lambda>db. check_authority ge (gd_authority db) g)) (\<lambda>_.
        bindS (gate_register ge clock s) (\<lambda>_.
        bindS (liftS (rescue (\<lambda>cl. cl = CapabilityGrantError) gate_error
          (consume_capability_grant (ge_crypto ge) now clock g i ids))) (\<lambda>_.
        bindS (liftS (ensure (cg_scope g = gate_scope i) ExecutionGateError ''authorized_scope_mismatch'')) (\<lambda>_.
        retS g)))))))"

text \<open>The executor returns a JSON value or raises, and may change the world.\<close>

type_synonym 'w executor = "'w \<Rightarrow> (string \<times> string + json) \<times> 'w"

record execute_args =
  ex_executor_id :: string
  ex_executor_version :: string
  ex_digest :: "string option"
  ex_epoch :: int
  ex_key :: string

definition check_execute_args :: "execute_args \<Rightarrow> unit result" where
  "check_execute_args x =
    bindR (ensure (ex_executor_id x \<noteq> []) ExecutionGateError ''executor_identity_required'') (\<lambda>_.
    bindR (ensure (ex_executor_version x \<noteq> []) ExecutionGateError ''executor_version_required'') (\<lambda>_.
    ensure (1 \<le> ex_epoch x) ExecutionGateError ''executor_identity_epoch_required''))"

definition gate_transition :: "string \<Rightarrow> string \<Rightarrow> instant \<Rightarrow> transition_args \<Rightarrow> ('w gate_db, attempt) op" where
  "gate_transition i new now a = commitS (\<lambda>db. bindR (attempt_transition (gd_attempts db) i new now a)
     (\<lambda>(r, as). Inr (r, db\<lparr>gd_attempts := as\<rparr>)))"

text \<open>Create and lease the attempt; \<open>hex\<close> is the drawn part of its id.\<close>

definition open_attempt :: "string \<Rightarrow> instant \<Rightarrow> capability_grant \<Rightarrow> execute_args \<Rightarrow> ('w gate_db, attempt) op" where
  "open_attempt hex now g x =
    tryS (bindS (commitS (\<lambda>db. bindR (attempt_create (gd_attempts db) hex (cg_task_id g) (cg_grant_id g) (cg_intent_hash g)
             (if ex_key x = [] then cg_nonce g else ex_key x) now False)
             (\<lambda>(r, as). Inr (r, db\<lparr>gd_attempts := as\<rparr>)))) (\<lambda>r.
          gate_transition (at_attempt_id r) ''LEASED'' now
            (no_args\<lparr>targ_executor_id := ex_executor_id x, targ_executor_version := ex_executor_version x,
               targ_executor_identity_epoch := ex_epoch x\<rparr>)))
      (\<lambda>e. raiseS (if exc_cls e = ExecutionAttemptError then gate_error e else e))"

definition abort_attempt :: "attempt option \<Rightarrow> instant \<Rightarrow> exc \<Rightarrow> ('w gate_db, unit) op" where
  "abort_attempt att now e = (case att of
      None \<Rightarrow> retS ()
    | Some r \<Rightarrow> bindS (gate_transition (at_attempt_id r) ''ABORTED'' now (no_args\<lparr>targ_error := exc_msg e\<rparr>)) (\<lambda>_. retS ()))"

definition gate_consume :: "gate \<Rightarrow> attempt option \<Rightarrow> instant \<Rightarrow> capability_grant \<Rightarrow> string \<Rightarrow> ('w gate_db, unit) op" where
  "gate_consume ge att now g at =
    (if \<not> ge_db ge then retS ()
     else tryS (commitS (\<lambda>db. bindR (grant_consume (gd_grants db) (cg_grant_id g) at)
            (\<lambda>gs. Inr ((), db\<lparr>gd_grants := gs\<rparr>))))
       (\<lambda>e. if exc_cls e = CapabilityGrantStoreError
            then bindS (abort_attempt att now e) (\<lambda>_. raiseS (gate_error e)) else raiseS e))"

definition consume_nonce :: "gate \<Rightarrow> capability_grant \<Rightarrow> string \<Rightarrow> string \<Rightarrow> ('w gate_db, unit) op" where
  "consume_nonce ge g receipt_id at = commitS (\<lambda>db.
    (if \<not> ge_db ge then raise ExecutionGateError ''replay_store_required''
     else if lookup_row cn_nonce (gd_nonces db) (cg_nonce g) \<noteq> None then raise ExecutionGateError ''grant_replayed''
     else Inr ((), db\<lparr>gd_nonces := gd_nonces db @ [\<lparr>cn_nonce = cg_nonce g, cn_grant_id = cg_grant_id g,
            cn_task_id = cg_task_id g, cn_consumed_at = at, cn_receipt_id = receipt_id\<rparr>]\<rparr>)))"

text \<open>Consume the grant and the nonce, then mark the attempt RUNNING.\<close>

definition start_attempt :: "gate \<Rightarrow> attempt option \<Rightarrow> instant \<Rightarrow> capability_grant \<Rightarrow> string \<Rightarrow> string \<Rightarrow> ('w gate_db, unit) op" where
  "start_attempt ge att now g receipt_id at =
    tryS (bindS (gate_consume ge att now g at) (\<lambda>_.
          bindS (consume_nonce ge g receipt_id at) (\<lambda>_.
          (case att of None \<Rightarrow> retS ()
           | Some r \<Rightarrow> bindS (gate_transition (at_attempt_id r) ''RUNNING'' now no_args) (\<lambda>_. retS ())))))
      (\<lambda>e. if exc_cls e = ExecutionGateError then raiseS e
           else bindS (abort_attempt att now e) (\<lambda>_. raiseS e))"

definition make_receipt :: "capability_grant \<Rightarrow> full_intent \<Rightarrow> execute_args \<Rightarrow> string \<Rightarrow> string \<Rightarrow>
    string \<times> string + json \<Rightarrow> receipt" where
  "make_receipt g i x receipt_id at out =
    \<lparr>re_receipt_id = receipt_id, re_task_id = cg_task_id g, re_grant_id = cg_grant_id g, re_nonce = cg_nonce g,
     re_intent_hash = cg_intent_hash g, re_policy_version = cg_policy_version g, re_action = ai_action i,
     re_target = ai_target i, re_scope = cg_scope g,
     re_status = (case out of Inl _ \<Rightarrow> ''FAILED'' | Inr _ \<Rightarrow> ''EXECUTED''), re_executed_at = at,
     re_result = (case out of Inl _ \<Rightarrow> JNull | Inr v \<Rightarrow> v),
     re_error = (case out of Inl (n, m) \<Rightarrow> n @ '': '' @ take 500 m | Inr _ \<Rightarrow> []),
     re_agent_id = cg_agent_id g, re_epoch = cg_epoch g, re_state = cg_state g, re_executor_id = ex_executor_id x,
     re_executor_version = ex_executor_version x, re_executor_digest = ex_digest x, re_executor_epoch = ex_epoch x\<rparr>"

definition run_executor :: "'w executor \<Rightarrow> ('w gate_db, string \<times> string + json) op" where
  "run_executor f = (\<lambda>db. case f (gd_world db) of (out, w) \<Rightarrow> (Inr out, db\<lparr>gd_world := w\<rparr>))"

definition close_attempt :: "attempt option \<Rightarrow> instant \<Rightarrow> receipt \<Rightarrow> ('w gate_db, unit) op" where
  "close_attempt att now r = (case att of
      None \<Rightarrow> retS ()
    | Some a \<Rightarrow> bindS (gate_transition (at_attempt_id a) (if re_status r = ''EXECUTED'' then ''SUCCEEDED'' else ''FAILED'') now
        (no_args\<lparr>targ_receipt_id := re_receipt_id r, targ_error := re_error r\<rparr>)) (\<lambda>_. retS ()))"

definition execute :: "gate \<Rightarrow> instant option \<Rightarrow> instant \<Rightarrow> string \<Rightarrow> string \<Rightarrow> signed_capability option \<Rightarrow> full_intent \<Rightarrow>
    string list \<Rightarrow> execute_args \<Rightarrow> 'w executor \<Rightarrow> ('w gate_db, receipt) op" where
  "execute ge now clock hex token signed i ids x f =
    bindS (authorize ge now clock signed i ids) (\<lambda>g.
    bindS (liftS (check_execute_args x)) (\<lambda>_.
    let t = (case now of None \<Rightarrow> clock | Some m \<Rightarrow> m); at = isoformat t; receipt_id = ''receipt_'' @ token in
    bindS (if ge_db ge then bindS (open_attempt hex t g x) (\<lambda>r. retS (Some r)) else retS None) (\<lambda>att.
    bindS (start_attempt ge att t g receipt_id at) (\<lambda>_.
    bindS (run_executor f) (\<lambda>out.
    let r = make_receipt g i x receipt_id at out in
    bindS (close_attempt att t r) (\<lambda>_. retS r))))))"

end
