(* ===== verification/ExecutionGateRuns.thy ===== *)
theory ExecutionGateRuns
  imports ExecutionGate
begin

text \<open>
  What the execution gate promises: the executor runs only on authority that is signed,
  current, bound to the intent and unspent, and at most once per grant; every call that ran
  it leaves the attempt in a terminal state with the receipt.
\<close>

section \<open>The part of a call before the executor\<close>

definition prepare :: "gate \<Rightarrow> instant option \<Rightarrow> instant \<Rightarrow> string \<Rightarrow> string \<Rightarrow> signed_capability option \<Rightarrow> full_intent \<Rightarrow>
    string list \<Rightarrow> execute_args \<Rightarrow> ('w gate_db, capability_grant \<times> attempt option) op" where
  "prepare ge now clock hex token signed i ids x =
    bindS (authorize ge now clock signed i ids) (\<lambda>g.
    bindS (liftS (check_execute_args x)) (\<lambda>_.
    let t = (case now of None \<Rightarrow> clock | Some m \<Rightarrow> m) in
    bindS (if ge_db ge then bindS (open_attempt hex t g x) (\<lambda>r. retS (Some r)) else retS None) (\<lambda>att.
    bindS (start_attempt ge att t g (''receipt_'' @ token) (isoformat t)) (\<lambda>_. retS (g, att)))))"

definition perform :: "gate \<Rightarrow> instant option \<Rightarrow> instant \<Rightarrow> string \<Rightarrow> full_intent \<Rightarrow> execute_args \<Rightarrow> 'w executor \<Rightarrow>
    capability_grant \<times> attempt option \<Rightarrow> ('w gate_db, receipt) op" where
  "perform ge now clock token i x f = (\<lambda>(g, att).
    let t = (case now of None \<Rightarrow> clock | Some m \<Rightarrow> m) in
    bindS (run_executor f) (\<lambda>out.
    let r = make_receipt g i x (''receipt_'' @ token) (isoformat t) out in
    bindS (close_attempt att t r) (\<lambda>_. retS r)))"

lemma bindS_assoc: "bindS (bindS m f) g = bindS m (\<lambda>x. bindS (f x) g)"
  by (rule ext) (simp add: bindS_def split: prod.splits sum.splits)

lemma bindS_retS [simp]: "bindS (retS x) f = f x"
  by (rule ext) simp

lemma execute_split:
  "execute ge now clock hex token signed i ids x f =
     bindS (prepare ge now clock hex token signed i ids x) (perform ge now clock token i x f)"
  by (simp add: execute_def prepare_def perform_def Let_def bindS_assoc)

lemmas gate_ops = gate_register_def open_attempt_def gate_transition_def abort_attempt_def gate_consume_def
  consume_nonce_def start_attempt_def authorize_def

text \<open>No store call touches the world.\<close>

lemma prepare_world: "preserves (\<lambda>db. gd_world db = w) (prepare ge now clock hex token signed i ids x)"
  unfolding prepare_def gate_ops Let_def
  by (intro preserves_intros) (auto simp: bindR_Inr_iff split: if_splits prod.splits)

lemma close_world: "preserves (\<lambda>db. gd_world db = w) (close_attempt att t r)"
  unfolding close_attempt_def gate_transition_def
  by (intro preserves_intros) (auto simp: bindR_Inr_iff split: prod.splits)

section \<open>A call that reached the executor\<close>

lemma gate_register_Inr:
  assumes "gate_register ge clock s db = (Inr u, db1)"
  shows "\<exists>gs. db1 = db\<lparr>gd_grants := gs\<rparr> \<and>
    (if ge_db ge then ensure_registered (gd_grants db) (stored_grant s) (isoformat clock) = Inr (''ACTIVE'', gs)
     else gs = gd_grants db)"
proof (cases "ge_db ge")
  case True
  with assms show ?thesis
    by (auto simp: gate_register_def bindS_Inr_iff commitS_Inr_iff bindR_Inr_iff)
qed (use assms in \<open>auto simp: gate_register_def\<close>)

definition authority_granted :: "gate \<Rightarrow> instant option \<Rightarrow> instant \<Rightarrow> authority_db \<Rightarrow> signed_capability \<Rightarrow> capability_grant \<Rightarrow>
    full_intent \<Rightarrow> string list \<Rightarrow> bool" where
  "authority_granted ge now clock au s g i ids \<longleftrightarrow>
     gate_grant ge s = Inr g \<and> verify_grant_intent ge now clock g = Inr () \<and> check_authority ge au g = Inr () \<and>
     consume_capability_grant (ge_crypto ge) now clock g i ids = Inr () \<and> cg_scope g = gate_scope i"

lemma authorize_Inr:
  assumes "authorize ge now clock signed i ids db = (Inr g, db1)"
  obtains s gs where "signed = Some s" and "authority_granted ge now clock (gd_authority db) s g i ids"
    and "db1 = db\<lparr>gd_grants := gs\<rparr>"
    and "ge_db ge \<Longrightarrow> ensure_registered (gd_grants db) (stored_grant s) (isoformat clock) = Inr (''ACTIVE'', gs)"
proof -
  from assms obtain s where s: "signed = Some s" by (auto simp: authorize_def split: option.splits)
  with assms obtain g' where g: "gate_grant ge s = Inr g'" "verify_grant_intent ge now clock g' = Inr ()"
    "check_authority ge (gd_authority db) g' = Inr ()" and reg: "gate_register ge clock s db = (Inr (), db1)"
    and rest: "consume_capability_grant (ge_crypto ge) now clock g' i ids = Inr ()" "cg_scope g' = gate_scope i" "g' = g"
    by (auto simp: authorize_def bindS_Inr_iff)
  from gate_register_Inr [OF reg] obtain gs where "db1 = db\<lparr>gd_grants := gs\<rparr>"
    "ge_db ge \<longrightarrow> ensure_registered (gd_grants db) (stored_grant s) (isoformat clock) = Inr (''ACTIVE'', gs)" by auto
  with that [of s gs] s g rest show ?thesis by (simp add: authority_granted_def)
qed

lemma gate_transition_Inr:
  "gate_transition j new t a db = (Inr r, db1) \<longleftrightarrow>
     (\<exists>as. attempt_transition (gd_attempts db) j new t a = Inr (r, as) \<and> db1 = db\<lparr>gd_attempts := as\<rparr>)"
  by (auto simp: gate_transition_def commitS_Inr_iff bindR_Inr_iff)

lemma open_attempt_Inr:
  assumes "open_attempt hex t g x db = (Inr r, db1)" and "attempts_inv (gd_attempts db)"
  shows "\<exists>as. db1 = db\<lparr>gd_attempts := as\<rparr> \<and> attempts_inv as \<and> lookup_row at_attempt_id as (at_attempt_id r) = Some r \<and>
    at_state r = LEASED \<and> lookup_row at_attempt_id (gd_attempts db) (at_attempt_id r) = None"
proof -
  from assms(1) obtain r0 as0 as where
    cr: "attempt_create (gd_attempts db) hex (cg_task_id g) (cg_grant_id g) (cg_intent_hash g)
           (if ex_key x = [] then cg_nonce g else ex_key x) t False = Inr (r0, as0)"
    and tr: "attempt_transition as0 (at_attempt_id r0) ''LEASED'' t
        (no_args\<lparr>targ_executor_id := ex_executor_id x, targ_executor_version := ex_executor_version x,
           targ_executor_identity_epoch := ex_epoch x\<rparr>) = Inr (r, as)" and db1: "db1 = db\<lparr>gd_attempts := as\<rparr>"
    by (auto simp: open_attempt_def tryS_Inr_iff bindS_Inr_iff commitS_Inr_iff bindR_Inr_iff gate_transition_Inr)
  note inv0 = attempt_create_at_inv(1) [OF assms(2) attempts_evolve_refl cr [unfolded attempt_create_def]]
  note inv1 = attempt_transition_at_inv(1) [OF inv0 attempts_evolve_refl tr [unfolded attempt_transition_def]]
  from cr have new: "lookup_row at_attempt_id (gd_attempts db) (at_attempt_id r0) = None"
    unfolding attempt_create_def by (rule attempt_create_at_Inr) simp
  from inv0 attempts_evolve_refl tr [unfolded attempt_transition_def] obtain st cur where
    st: "parse_attempt_state ''LEASED'' = Some st" and "lookup_row at_attempt_id as0 (at_attempt_id r0) = Some cur"
    and as: "as = update_where (\<lambda>y. at_attempt_id y = at_attempt_id r0) (transition_row cur st t
        (no_args\<lparr>targ_executor_id := ex_executor_id x, targ_executor_version := ex_executor_version x,
           targ_executor_identity_epoch := ex_epoch x\<rparr>)) as0"
    and r: "r = transition_row cur st t (no_args\<lparr>targ_executor_id := ex_executor_id x,
           targ_executor_version := ex_executor_version x, targ_executor_identity_epoch := ex_epoch x\<rparr>) cur"
    by (rule attempt_transition_at_row) blast
  then have "at_attempt_id r = at_attempt_id r0" by (auto dest: lookup_row_SomeD)
  moreover from st have "st = LEASED" using parse_attempt_state_value [of LEASED] by simp
  moreover have "lookup_row at_attempt_id as (at_attempt_id r0) = Some r"
    using \<open>lookup_row at_attempt_id as0 (at_attempt_id r0) = Some cur\<close>
    by (simp add: as r table_simps) (auto dest: lookup_row_SomeD)
  ultimately show ?thesis using db1 inv1 new r by auto
qed

lemma transition_Inr:
  assumes "attempt_transition as j text t a = Inr (r, as')" and inv: "attempts_inv as"
  obtains cur new where "parse_attempt_state text = Some new" and "lookup_row at_attempt_id as j = Some cur"
    and "attempt_allowed (at_state cur) new" and "attempts_inv as'"
    and "lookup_row at_attempt_id as' j = Some r" and "r = transition_row cur new t a cur"
proof -
  from inv attempts_evolve_refl assms(1) [unfolded attempt_transition_def] obtain new cur
    where 1: "parse_attempt_state text = Some new" "lookup_row at_attempt_id as j = Some cur" "attempt_allowed (at_state cur) new"
    and as': "as' = update_where (\<lambda>y. at_attempt_id y = j) (transition_row cur new t a) as"
    and r: "r = transition_row cur new t a cur" by (rule attempt_transition_at_row) blast
  have "lookup_row at_attempt_id as' j = Some r"
    using 1(2) by (simp add: as' r table_simps) (auto dest: lookup_row_SomeD)
  with that [OF 1] attempt_transition_at_inv(1) [OF inv attempts_evolve_refl assms(1) [unfolded attempt_transition_def]] r
  show ?thesis by blast
qed

lemma consume_handler_raises:
  "\<exists>e'. fst ((if exc_cls e = CapabilityGrantStoreError then bindS (abort_attempt att t e) (\<lambda>_. raiseS (gate_error e))
      else raiseS e) s1) = Inl e'"
  by (simp add: bindS_raises)

lemma start_handler_raises:
  "\<exists>e'. fst ((if exc_cls e = ExecutionGateError then raiseS e
      else bindS (abort_attempt att t e) (\<lambda>_. raiseS e)) s1) = Inl e'"
  by (simp add: bindS_raises)

lemma gate_consume_Inr:
  "gate_consume ge att t g at db = (Inr u, db1) \<longleftrightarrow>
     (if ge_db ge then \<exists>gs. grant_consume (gd_grants db) (cg_grant_id g) at = Inr gs \<and> db1 = db\<lparr>gd_grants := gs\<rparr>
      else db1 = db)"
  by (auto simp: gate_consume_def tryS_Inr_iff [OF consume_handler_raises] commitS_Inr_iff bindR_Inr_iff)

lemma start_attempt_Inr:
  assumes "start_attempt ge (Some a) t g rid at db = (Inr u, db1)" and inv: "attempts_inv (gd_attempts db)"
  obtains gs as r where "ge_db ge" and "grant_consume (gd_grants db) (cg_grant_id g) at = Inr gs"
    and "lookup_row cn_nonce (gd_nonces db) (cg_nonce g) = None"
    and "db1 = db\<lparr>gd_grants := gs, gd_nonces := gd_nonces db @ [\<lparr>cn_nonce = cg_nonce g, cn_grant_id = cg_grant_id g,
            cn_task_id = cg_task_id g, cn_consumed_at = at, cn_receipt_id = rid\<rparr>], gd_attempts := as\<rparr>"
    and "attempts_inv as" and "lookup_row at_attempt_id as (at_attempt_id a) = Some r" and "at_state r = RUNNING"
proof -
  from assms(1) obtain db2 db3 r as where c: "gate_consume ge (Some a) t g at db = (Inr (), db2)"
    and n: "consume_nonce ge g rid at db2 = (Inr (), db3)"
    and tr: "attempt_transition (gd_attempts db3) (at_attempt_id a) ''RUNNING'' t no_args = Inr (r, as)"
    and db1: "db1 = db3\<lparr>gd_attempts := as\<rparr>"
    unfolding start_attempt_def tryS_Inr_iff [OF start_handler_raises] by (auto simp: bindS_Inr_iff gate_transition_Inr)
  from n have ge: "ge_db ge" and free: "lookup_row cn_nonce (gd_nonces db2) (cg_nonce g) = None"
    and db3: "db3 = db2\<lparr>gd_nonces := gd_nonces db2 @ [\<lparr>cn_nonce = cg_nonce g, cn_grant_id = cg_grant_id g,
            cn_task_id = cg_task_id g, cn_consumed_at = at, cn_receipt_id = rid\<rparr>]\<rparr>"
    by (auto simp: consume_nonce_def commitS_Inr_iff split: if_splits)
  from c ge obtain gs where gs: "grant_consume (gd_grants db) (cg_grant_id g) at = Inr gs" and db2: "db2 = db\<lparr>gd_grants := gs\<rparr>"
    by (auto simp: gate_consume_Inr)
  from inv have "attempts_inv (gd_attempts db3)" by (simp add: db3 db2)
  with tr obtain cur new where st: "parse_attempt_state ''RUNNING'' = Some new" and "attempts_inv as"
    "lookup_row at_attempt_id as (at_attempt_id a) = Some r" "r = transition_row cur new t no_args cur"
    by (rule transition_Inr) blast
  moreover from st have "new = RUNNING" using parse_attempt_state_value [of RUNNING] by simp
  ultimately show ?thesis using that [of gs as r] ge gs free db1 by (simp add: db3 db2)
qed

text \<open>What is true when the executor starts: \<open>db\<close> before the call, \<open>db1\<close> then.\<close>

definition gate_inv :: "'w gate_db \<Rightarrow> bool" where
  "gate_inv db \<longleftrightarrow> grants_inv (gd_grants db) \<and> attempts_inv (gd_attempts db) \<and> key_unique cn_nonce (gd_nonces db)"

lemma prepare_Inr:
  assumes "prepare ge now clock hex token signed i ids x db = (Inr (g, att), db1)" and inv: "gate_inv db"
  obtains s a r where "signed = Some s" and "authority_granted ge now clock (gd_authority db) s g i ids"
    and "grant_status (gd_grants db) (cg_grant_id g) \<in> {None, Some ''ACTIVE''}"
    and "grant_status (gd_grants db1) (cg_grant_id g) = Some ''CONSUMED''"
    and "\<And>k st. k \<noteq> cg_grant_id g \<Longrightarrow> grant_status (gd_grants db) k = Some st \<Longrightarrow> grant_status (gd_grants db1) k = Some st"
    and "cg_nonce g \<notin> set (map cn_nonce (gd_nonces db))"
    and "map cn_nonce (gd_nonces db1) = map cn_nonce (gd_nonces db) @ [cg_nonce g]"
    and "att = Some a" and "lookup_row at_attempt_id (gd_attempts db1) (at_attempt_id a) = Some r" and "at_state r = RUNNING"
    and "gd_world db1 = gd_world db" and "gd_authority db1 = gd_authority db" and "gate_inv db1"
proof -
  let ?t = "case now of None \<Rightarrow> clock | Some m \<Rightarrow> m"
  from assms(1) obtain db2 db3 where au: "authorize ge now clock signed i ids db = (Inr g, db2)"
    and op: "(if ge_db ge then bindS (open_attempt hex ?t g x) (\<lambda>r. retS (Some r)) else retS None) db2 = (Inr att, db3)"
    and st: "start_attempt ge att ?t g (''receipt_'' @ token) (isoformat ?t) db3 = (Inr (), db1)"
    unfolding prepare_def Let_def by (auto simp: bindS_Inr_iff)
  have ge: "ge_db ge"
  proof (rule ccontr)
    assume "\<not> ge_db ge"
    with op have "att = None" by simp
    with st \<open>\<not> ge_db ge\<close> show False
      by (auto simp: start_attempt_def tryS_def bindS_def gate_consume_def consume_nonce_def commitS_def
          abort_attempt_def split: if_splits prod.splits sum.splits)
  qed
  from au obtain s gs where s: "signed = Some s" and ok: "authority_granted ge now clock (gd_authority db) s g i ids"
    and db2: "db2 = db\<lparr>gd_grants := gs\<rparr>"
    and reg: "ensure_registered (gd_grants db) (stored_grant s) (isoformat clock) = Inr (''ACTIVE'', gs)"
    using ge by (blast elim: authorize_Inr)
  from op ge obtain a where att: "att = Some a" and oa: "open_attempt hex ?t g x db2 = (Inr a, db3)"
    by (auto simp: bindS_Inr_iff)
  from inv have "attempts_inv (gd_attempts db2)" by (simp add: db2 gate_inv_def)
  from open_attempt_Inr [OF oa this] obtain as where db3: "db3 = db2\<lparr>gd_attempts := as\<rparr>" and "attempts_inv as"
    by blast
  then have "attempts_inv (gd_attempts db3)" by simp
  then obtain gs' as' r where
    gc: "grant_consume (gd_grants db3) (cg_grant_id g) (isoformat ?t) = Inr gs'"
    and nn: "lookup_row cn_nonce (gd_nonces db3) (cg_nonce g) = None"
    and db1: "db1 = db3\<lparr>gd_grants := gs', gd_nonces := gd_nonces db3 @ [\<lparr>cn_nonce = cg_nonce g, cn_grant_id = cg_grant_id g,
            cn_task_id = cg_task_id g, cn_consumed_at = isoformat ?t, cn_receipt_id = ''receipt_'' @ token\<rparr>], gd_attempts := as'\<rparr>"
    and run: "attempts_inv as'" "lookup_row at_attempt_id as' (at_attempt_id a) = Some r" "at_state r = RUNNING"
    by (rule start_attempt_Inr [OF st [unfolded att]]) (rule that; assumption)
  have gid: "sg_grant_id (stored_grant s) = cg_grant_id g"
    using ok by (auto simp: authority_granted_def gate_grant_def verify_capability_def bindR_Inr_iff stored_grant_def Let_def
        split: option.splits if_splits)
  have ginv: "grants_inv (gd_grants db)" using inv by (simp add: gate_inv_def)
  have reg': "gs = gd_grants db \<and> grant_status (gd_grants db) (cg_grant_id g) = Some ''ACTIVE'' \<or>
      grant_status (gd_grants db) (cg_grant_id g) = None \<and> (\<exists>b. grant_register (gd_grants db) (stored_grant s) (isoformat clock) = Inr (b, gs))"
    using reg by (auto simp: ensure_registered_def gid bindR_Inr_iff split: option.splits)
  have keep: "grants_inv gs \<and> (\<forall>k a. grant_status (gd_grants db) k = Some a \<longrightarrow> grant_status gs k = Some a)"
    using reg' grant_register_keeps [OF ginv] ginv by blast
  have "grant_status gs (cg_grant_id g) = Some ''ACTIVE''" and gs': "gs' = update_where (active_grant (cg_grant_id g))
            (\<lambda>r. r\<lparr>gw_status := ''CONSUMED'', gw_consumed_at := Some (isoformat ?t)\<rparr>) gs"
    using gc keep by (auto simp: db3 db2 grant_consume_behaviour split: option.splits if_splits)
  then have "grant_status gs' k = (if k = cg_grant_id g then Some ''CONSUMED'' else grant_status gs k)" for k
    by (simp add: update_active_status)
  then have st: "grant_status (gd_grants db1) k = (if k = cg_grant_id g then Some ''CONSUMED'' else grant_status gs k)" for k
    by (simp add: db1)
  have "grants_inv gs'" using keep by (simp add: gs' grants_inv_update)
  moreover have "key_unique cn_nonce (gd_nonces db1)" using inv nn by (simp add: db1 db3 db2 gate_inv_def)
  ultimately have inv1: "gate_inv db1" using run(1) by (simp add: gate_inv_def db1)
  have old: "grant_status (gd_grants db) (cg_grant_id g) \<in> {None, Some ''ACTIVE''}" using reg' by auto
  have nonce: "cg_nonce g \<notin> set (map cn_nonce (gd_nonces db))"
    using nn by (auto simp: db3 db2 lookup_row_None_iff)
  show ?thesis
    by (rule that [OF s ok old _ _ nonce _ att _ run(3) _ _ inv1]) (use st keep run(2) in \<open>auto simp: db1 db3 db2\<close>)
qed

section \<open>A single call\<close>

definition recorded_outcome :: "attempts \<Rightarrow> receipt \<Rightarrow> bool" where
  "recorded_outcome as r \<longleftrightarrow> (\<exists>a \<in> set as. at_receipt_id a = Some (re_receipt_id r) \<and>
     at_state a = (if re_status r = ''EXECUTED'' then SUCCEEDED else FAILED))"

lemma make_receipt_simps [simp]:
  "re_receipt_id (make_receipt g i x rid at out) = rid"
  "re_status (make_receipt g i x rid at out) = (case out of Inl _ \<Rightarrow> ''FAILED'' | Inr _ \<Rightarrow> ''EXECUTED'')"
  "re_grant_id (make_receipt g i x rid at out) = cg_grant_id g"
  "re_nonce (make_receipt g i x rid at out) = cg_nonce g"
  by (simp_all add: make_receipt_def)

lemma close_attempt_returns:
  assumes "attempts_inv (gd_attempts db)" and "lookup_row at_attempt_id (gd_attempts db) (at_attempt_id a) = Some r"
    and "at_state r = RUNNING" and "re_receipt_id rc \<noteq> []"
  obtains as where "close_attempt (Some a) t rc db = (Inr (), db\<lparr>gd_attempts := as\<rparr>)" and "attempts_inv as"
    and "recorded_outcome as rc"
proof -
  let ?new = "if re_status rc = ''EXECUTED'' then SUCCEEDED else FAILED"
  let ?args = "no_args\<lparr>targ_receipt_id := re_receipt_id rc, targ_error := re_error rc\<rparr>"
  have name: "(if re_status rc = ''EXECUTED'' then ''SUCCEEDED'' else ''FAILED'') = attempt_state_value ?new" by simp
  have al: "attempt_allowed (at_state r) ?new" using assms(3) by simp
  obtain as where tr: "attempt_transition (gd_attempts db) (at_attempt_id a) (attempt_state_value ?new) t ?args
      = Inr (transition_row r ?new t ?args r, as)"
    unfolding transition_eq [OF assms(1)] parse_attempt_state_value option.case assms(2) using al by auto
  from tr assms(1) have inv: "attempts_inv as" and row: "lookup_row at_attempt_id as (at_attempt_id a) = Some (transition_row r ?new t ?args r)"
    by (auto elim: transition_Inr)
  have "recorded_outcome as rc"
    unfolding recorded_outcome_def using lookup_row_SomeD [OF row] assms(4)
    by (intro bexI [of _ "transition_row r ?new t ?args r"]) (simp_all add: transition_row_def coalesce_text_def no_args_def)
  moreover have "close_attempt (Some a) t rc db = (Inr (), db\<lparr>gd_attempts := as\<rparr>)"
    unfolding close_attempt_def option.case name gate_transition_def
    by (simp add: commitS_def tr)
  ultimately show ?thesis using that inv by blast
qed

lemma perform_returns:
  assumes "gate_inv db" and "lookup_row at_attempt_id (gd_attempts db) (at_attempt_id a) = Some r" and "at_state r = RUNNING"
  obtains rc as where "perform ge now clock token i x f (g, Some a) db = (Inr rc, db\<lparr>gd_world := snd (f (gd_world db)), gd_attempts := as\<rparr>)"
    and "attempts_inv as" and "recorded_outcome as rc"
    and "re_status rc = ''EXECUTED'' \<longleftrightarrow> (\<exists>v. fst (f (gd_world db)) = Inr v)"
    and "re_grant_id rc = cg_grant_id g" and "re_nonce rc = cg_nonce g"
proof -
  let ?t = "case now of None \<Rightarrow> clock | Some m \<Rightarrow> m"
  obtain out w where f: "f (gd_world db) = (out, w)" by fastforce
  let ?rc = "make_receipt g i x (''receipt_'' @ token) (isoformat ?t) out"
  let ?db = "db\<lparr>gd_world := w\<rparr>"
  from assms have "attempts_inv (gd_attempts ?db)" "lookup_row at_attempt_id (gd_attempts ?db) (at_attempt_id a) = Some r"
    by (simp_all add: gate_inv_def)
  from close_attempt_returns [OF this assms(3), of ?rc ?t] obtain as where
    cl: "close_attempt (Some a) ?t ?rc ?db = (Inr (), ?db\<lparr>gd_attempts := as\<rparr>)" and as: "attempts_inv as" "recorded_outcome as ?rc"
    by auto
  have "perform ge now clock token i x f (g, Some a) db = (Inr ?rc, ?db\<lparr>gd_attempts := as\<rparr>)"
    using cl by (simp add: perform_def Let_def run_executor_def bindS_def f)
  from that [of ?rc as] this as show ?thesis by (auto simp: f split: sum.splits)
qed

lemma gate_call_cases:
  assumes "gate_inv db" and "execute ge now clock hex token signed i ids x f db = (res, db')"
  shows "(\<exists>e. res = Inl e) \<and> gd_world db' = gd_world db \<or>
    (\<exists>s g rc. signed = Some s \<and> res = Inr rc \<and> gd_world db' = snd (f (gd_world db)) \<and>
       authority_granted ge now clock (gd_authority db) s g i ids \<and>
       grant_status (gd_grants db) (cg_grant_id g) \<in> {None, Some ''ACTIVE''} \<and>
       grant_status (gd_grants db') (cg_grant_id g) = Some ''CONSUMED'' \<and>
       cg_nonce g \<notin> set (map cn_nonce (gd_nonces db)) \<and> cg_nonce g \<in> set (map cn_nonce (gd_nonces db')) \<and>
       re_grant_id rc = cg_grant_id g \<and> recorded_outcome (gd_attempts db') rc \<and>
       (re_status rc = ''EXECUTED'' \<longleftrightarrow> (\<exists>v. fst (f (gd_world db)) = Inr v)))"
proof (cases "prepare ge now clock hex token signed i ids x db")
  case (Pair r db1)
  have same: "gd_world db1 = gd_world db"
    using preservesD [OF prepare_world [of "gd_world db"], where s = db] by (metis Pair snd_conv)
  show ?thesis
  proof (cases r)
    case (Inl e)
    with Pair assms(2) have "res = Inl e" "db' = db1" by (simp_all add: execute_split bindS_def)
    with same show ?thesis by blast
  next
    case (Inr ga)
    obtain g att where ga: "ga = (g, att)" by fastforce
    obtain s a row where
      p: "signed = Some s" "authority_granted ge now clock (gd_authority db) s g i ids"
      "grant_status (gd_grants db) (cg_grant_id g) \<in> {None, Some ''ACTIVE''}"
      "grant_status (gd_grants db1) (cg_grant_id g) = Some ''CONSUMED''"
      "cg_nonce g \<notin> set (map cn_nonce (gd_nonces db))"
      "map cn_nonce (gd_nonces db1) = map cn_nonce (gd_nonces db) @ [cg_nonce g]" and att: "att = Some a"
      and row: "lookup_row at_attempt_id (gd_attempts db1) (at_attempt_id a) = Some row" "at_state row = RUNNING" and inv: "gate_inv db1"
      by (rule prepare_Inr [OF Pair [unfolded Inr ga] assms(1)]) (rule that; assumption)
    obtain rc as where
      q: "perform ge now clock token i x f (g, Some a) db1 = (Inr rc, db1\<lparr>gd_world := snd (f (gd_world db1)), gd_attempts := as\<rparr>)"
      "recorded_outcome as rc" "re_status rc = ''EXECUTED'' \<longleftrightarrow> (\<exists>v. fst (f (gd_world db1)) = Inr v)"
      "re_grant_id rc = cg_grant_id g"
      by (rule perform_returns [OF inv row, of ge now clock token i x f g]) (rule that; assumption)
    have "res = Inr rc" "db' = db1\<lparr>gd_world := snd (f (gd_world db1)), gd_attempts := as\<rparr>"
      using assms(2) q(1) by (simp_all add: execute_split bindS_def Pair Inr ga att)
    moreover from p(6) have "cg_nonce g \<in> set (map cn_nonce (gd_nonces db1))" by simp
    ultimately show ?thesis using p q same
      by (intro disjI2 exI [of _ s] exI [of _ g] exI [of _ rc]) simp
  qed
qed

lemma gate_call_authorised:
  assumes "gate_inv db" and "execute ge now clock hex token (Some s) i ids x f db = (res, db')"
    and "gd_world db' \<noteq> gd_world db"
  shows "\<exists>g. gate_grant ge s = Inr g"
  using gate_call_cases [OF assms(1,2)] assms(3) by (auto simp: authority_granted_def)

lemma grant_json_inj: "grant_json g = grant_json g' \<Longrightarrow> g = g'"
  by (cases g; cases g') (simp add: grant_json_def map_injective [of JStr] inj_on_def)

text \<open>
  What a grant must satisfy to be executed, stated over the stored authority and the
  cryptographic operations and not over the checks of the gate.
\<close>

definition grant_valid :: "gate \<Rightarrow> instant \<Rightarrow> authority_db \<Rightarrow> signed_capability \<Rightarrow> capability_grant \<Rightarrow> full_intent \<Rightarrow>
    string list \<Rightarrow> bool" where
  "grant_valid ge t au s g i ids \<longleftrightarrow> (let c = ge_crypto ge in
     g = sc_grant s \<and> cg_status g = ''ACTIVE'' \<and>
     (\<exists>k sg. ge_signer ge = Some k \<and> cr_b64decode c (sc_signature s) = Some sg \<and>
        cr_verify c (cr_public c (ck_key k)) sg (canonical_text (JObj (signed_capability_items s)))) \<and>
     (\<exists>a. authority_get au (cg_agent_id g) = Inr a \<and> cg_epoch g = aa_epoch a \<and>
        cg_state g = authority_state_value (aa_state a) \<and> cg_policy_version g = aa_policy_version a) \<and>
     (\<exists>n. signed_intent_of_json c (JObj (cg_signed_intent g)) = Inr n \<and> intent_signature_ok c n \<and>
        verify_identity c (sn_identity n) = Inr (si_identity (sn_identity n)) \<and>
        id_agent_id (si_identity (sn_identity n)) = cg_agent_id g \<and> sn_intent_hash n = cg_intent_hash g) \<and>
     intent_hash c (intent_value_of i) = Inr (cg_intent_hash g) \<and> cg_action g = ai_action i \<and> cg_target g = ai_target i \<and>
     cg_scope g = (if ai_destination i = [] then ai_resource i else ai_destination i) \<and>
     sort (cg_evidence_ids g) = sort ids \<and> cg_evidence_hash g = evidence_hash c ids \<and>
     (\<exists>e. cr_parse_time c (cg_expires_at g) = Aware e \<and> t < e))"

lemma verify_identity_same: "verify_identity c s = Inr i \<Longrightarrow> i = si_identity s"
  by (auto simp: verify_identity_def split: option.splits if_splits)

lemma gate_grant_signed:
  assumes "gate_grant ge s = Inr g"
  shows "g = sc_grant s \<and> (\<exists>k sg. ge_signer ge = Some k \<and> cr_b64decode (ge_crypto ge) (sc_signature s) = Some sg \<and>
    cr_verify (ge_crypto ge) (cr_public (ge_crypto ge) (ck_key k)) sg (canonical_text (JObj (signed_capability_items s))))"
  using assms by (auto simp: gate_grant_def verify_capability_def bindR_Inr_iff split: option.splits if_splits)

lemma grant_intent_signed:
  assumes "verify_grant_intent ge now clock g = Inr ()"
  shows "\<exists>n. signed_intent_of_json (ge_crypto ge) (JObj (cg_signed_intent g)) = Inr n \<and> intent_signature_ok (ge_crypto ge) n \<and>
    verify_identity (ge_crypto ge) (sn_identity n) = Inr (si_identity (sn_identity n)) \<and>
    id_agent_id (si_identity (sn_identity n)) = cg_agent_id g \<and> sn_intent_hash n = cg_intent_hash g"
proof -
  from assms obtain n where n: "embedded_intent (ge_crypto ge) now clock (cg_signed_intent g) = Inr n"
    "id_agent_id (si_identity (sn_identity n)) = cg_agent_id g" "sn_intent_hash n = cg_intent_hash g"
    by (auto simp: verify_grant_intent_def bindR_Inr_iff split: if_splits)
  then have "signed_intent_of_json (ge_crypto ge) (JObj (cg_signed_intent g)) = Inr n"
    and v: "verify_signed_intent (ge_crypto ge) now clock n = Inr ()"
    by (auto simp: embedded_intent_def bindR_Inr_iff)
  moreover from v have "intent_signature_ok (ge_crypto ge) n" "\<exists>i. verify_identity (ge_crypto ge) (sn_identity n) = Inr i"
    by (auto simp: verify_signed_intent_def bindR_Inr_iff)
  ultimately show ?thesis using n verify_identity_same by metis
qed

lemma consumable_grant:
  assumes "consume_capability_grant c now clock g i ids = Inr ()"
  shows "cg_status g = ''ACTIVE'' \<and> intent_hash c (intent_value_of i) = Inr (cg_intent_hash g) \<and> cg_action g = ai_action i \<and>
    cg_target g = ai_target i \<and> sort (cg_evidence_ids g) = sort ids \<and> cg_evidence_hash g = evidence_hash c ids \<and>
    (\<exists>e. cr_parse_time c (cg_expires_at g) = Aware e \<and> (case now of None \<Rightarrow> clock | Some t \<Rightarrow> t) < e)"
  using assms by (auto simp: consume_capability_grant_def verify_binding_def bindR_Inr_iff reached_def split: moment.splits)

lemma granted_valid:
  assumes "authority_granted ge now clock au s g i ids"
  shows "grant_valid ge (case now of None \<Rightarrow> clock | Some t \<Rightarrow> t) au s g i ids"
proof -
  from assms have a: "gate_grant ge s = Inr g" "verify_grant_intent ge now clock g = Inr ()" "check_authority ge au g = Inr ()"
    "consume_capability_grant (ge_crypto ge) now clock g i ids = Inr ()" "cg_scope g = gate_scope i"
    by (simp_all add: authority_granted_def)
  from a(3) have "\<exists>a. authority_get au (cg_agent_id g) = Inr a \<and> cg_epoch g = aa_epoch a \<and>
      cg_state g = authority_state_value (aa_state a) \<and> cg_policy_version g = aa_policy_version a"
    by (auto simp: check_authority_def bindR_Inr_iff)
  with gate_grant_signed [OF a(1)] grant_intent_signed [OF a(2)] consumable_grant [OF a(4)] a(5)
  show ?thesis unfolding grant_valid_def Let_def gate_scope_def by auto
qed

text \<open>
  C2: The gate fails closed and acts once. On consistent tables a call either raises
  without the executor having touched the world, or the executor ran exactly once on it
  and the call returns a receipt. The second happens only if the signed grant verifies
  under the gate's key, carries a valid signed intent of its agent, matches the agent's
  current epoch, state and policy version, is bound to this intent, evidence and contract,
  has not expired, was not consumed or revoked and its nonce was unused; afterwards the
  grant is CONSUMED, the nonce is spent and the attempt is terminal with the receipt.
\<close>

theorem gate_fails_closed_and_acts_once:
  assumes "gate_inv db" and "execute ge now clock hex token signed i ids x f db = (res, db')"
  shows "(\<exists>e. res = Inl e) \<and> gd_world db' = gd_world db \<or>
    (\<exists>s g rc. signed = Some s \<and> res = Inr rc \<and> gd_world db' = snd (f (gd_world db)) \<and>
       grant_valid ge (case now of None \<Rightarrow> clock | Some t \<Rightarrow> t) (gd_authority db) s g i ids \<and>
       grant_status (gd_grants db) (cg_grant_id g) \<in> {None, Some ''ACTIVE''} \<and>
       grant_status (gd_grants db') (cg_grant_id g) = Some ''CONSUMED'' \<and>
       cg_nonce g \<notin> set (map cn_nonce (gd_nonces db)) \<and> cg_nonce g \<in> set (map cn_nonce (gd_nonces db')) \<and>
       re_grant_id rc = cg_grant_id g \<and> recorded_outcome (gd_attempts db') rc \<and>
       (re_status rc = ''EXECUTED'' \<longleftrightarrow> (\<exists>v. fst (f (gd_world db)) = Inr v)))"
  using gate_call_cases [OF assms] granted_valid by blast

section \<open>Histories\<close>

text \<open>
  A history of the gate: calls of \<^verbatim>\<open>execute\<close> with an executor that logs the grant and the
  nonce it runs under and then answers as it likes, separate authorizations (the recovery
  coordinator makes them), revocations, and arbitrary changes of the authority tables.
\<close>

record gate_call =
  gc_now :: "instant option"
  gc_clock :: instant
  gc_hex :: string
  gc_token :: string
  gc_signed :: signed_capability
  gc_intent :: full_intent
  gc_ids :: "string list"
  gc_args :: execute_args
  gc_answer :: "string \<times> string + json"

datatype gate_event =
    GateExecute gate_call
  | GateAuthorize gate_call
  | GateRevoke string string string
  | GateAuthority authority_db

type_synonym logged_db = "(string \<times> string) list gate_db"

definition logging_executor :: "gate_call \<Rightarrow> (string \<times> string) list executor" where
  "logging_executor c = (\<lambda>w. (gc_answer c, w @ [(cg_grant_id (sc_grant (gc_signed c)), cg_nonce (sc_grant (gc_signed c)))]))"

definition call_gate :: "gate \<Rightarrow> gate_call \<Rightarrow> (logged_db, receipt) op" where
  "call_gate ge c = execute ge (gc_now c) (gc_clock c) (gc_hex c) (gc_token c) (Some (gc_signed c)) (gc_intent c) (gc_ids c)
     (gc_args c) (logging_executor c)"

fun gate_step :: "gate \<Rightarrow> gate_event \<Rightarrow> logged_db \<Rightarrow> logged_db" where
  "gate_step ge (GateExecute c) db = snd (call_gate ge c db)"
| "gate_step ge (GateAuthorize c) db =
     snd (authorize ge (gc_now c) (gc_clock c) (Some (gc_signed c)) (gc_intent c) (gc_ids c) db)"
| "gate_step ge (GateRevoke g reason now) db =
     (case grant_revoke (gd_grants db) g reason now of Inl _ \<Rightarrow> db | Inr gs \<Rightarrow> db\<lparr>gd_grants := gs\<rparr>)"
| "gate_step ge (GateAuthority au) db = db\<lparr>gd_authority := au\<rparr>"

definition empty_gate_db :: logged_db where
  "empty_gate_db = \<lparr>gd_grants = [], gd_nonces = [], gd_attempts = [], gd_authority = empty_authority_db, gd_world = []\<rparr>"

text \<open>The invariant of histories: the log holds spent grants and nonces, each once.\<close>

definition log_inv :: "logged_db \<Rightarrow> bool" where
  "log_inv db \<longleftrightarrow> gate_inv db \<and> distinct (map fst (gd_world db)) \<and> distinct (map snd (gd_world db)) \<and>
     (\<forall>(g, n) \<in> set (gd_world db). grant_status (gd_grants db) g = Some ''CONSUMED'' \<and> n \<in> set (map cn_nonce (gd_nonces db)))"

text \<open>What every store call keeps, whether the call that makes it returns or raises.\<close>

definition store_keeps :: "'w gate_db \<Rightarrow> 'w gate_db \<Rightarrow> bool" where
  "store_keeps db db' \<longleftrightarrow> gate_inv db' \<and> gd_world db' = gd_world db \<and>
     (\<forall>g. grant_status (gd_grants db) g = Some ''CONSUMED'' \<longrightarrow> grant_status (gd_grants db') g = Some ''CONSUMED'') \<and>
     set (map cn_nonce (gd_nonces db)) \<subseteq> set (map cn_nonce (gd_nonces db'))"

lemma store_keeps_log: "store_keeps db db' \<Longrightarrow> log_inv db \<Longrightarrow> log_inv db'"
  by (fastforce simp: store_keeps_def log_inv_def)

lemma store_keeps_refl: "gate_inv db \<Longrightarrow> store_keeps db db"
  by (simp add: store_keeps_def)

lemma store_keeps_trans: "store_keeps a b \<Longrightarrow> store_keeps b c \<Longrightarrow> store_keeps a c"
  by (auto simp: store_keeps_def simp del: set_map)

lemma store_keeps_inv: "store_keeps a b \<Longrightarrow> gate_inv b"
  by (simp add: store_keeps_def)

lemma keeps_ensure_registered:
  assumes "gate_inv db" and "ensure_registered (gd_grants db) s t = Inr (st, gs)"
  shows "store_keeps db (db\<lparr>gd_grants := gs\<rparr>)"
proof -
  have inv: "grants_inv (gd_grants db)" using assms(1) by (simp add: gate_inv_def)
  from assms(2) have "gs = gd_grants db \<or> (\<exists>b. grant_register (gd_grants db) s t = Inr (b, gs))"
    by (auto simp: ensure_registered_def bindR_Inr_iff split: option.splits)
  with grant_register_keeps [OF inv] assms(1) show ?thesis by (auto simp: store_keeps_def gate_inv_def)
qed

lemma keeps_consume:
  assumes "gate_inv db" and "grant_consume (gd_grants db) g t = Inr gs"
  shows "store_keeps db (db\<lparr>gd_grants := gs\<rparr>)"
proof -
  have inv: "grants_inv (gd_grants db)" using assms(1) by (simp add: gate_inv_def)
  from assms(2) inv show ?thesis using assms(1)
    by (auto simp: grant_consume_behaviour store_keeps_def gate_inv_def update_active_status grants_inv_update
        split: option.splits if_splits)
qed

lemma keeps_revoke:
  assumes "gate_inv db" and "grant_revoke (gd_grants db) g reason t = Inr gs"
  shows "store_keeps db (db\<lparr>gd_grants := gs\<rparr>)"
proof -
  have inv: "grants_inv (gd_grants db)" using assms(1) by (simp add: gate_inv_def)
  from assms(2) inv show ?thesis using assms(1)
    by (auto simp: grant_revoke_behaviour store_keeps_def gate_inv_def update_active_status grants_inv_update
        split: option.splits if_splits)
qed

lemma keeps_attempts: "gate_inv db \<Longrightarrow> attempts_inv as \<Longrightarrow> store_keeps db (db\<lparr>gd_attempts := as\<rparr>)"
  by (simp add: store_keeps_def gate_inv_def)

abbreviation keeps_from :: "'w gate_db \<Rightarrow> ('w gate_db, 'a) op \<Rightarrow> bool" where
  "keeps_from db0 m \<equiv> preserves (store_keeps db0) m"

lemma keeps_transition: "keeps_from db0 (gate_transition j new t a)"
  unfolding gate_transition_def
  by (intro preserves_intros)
    (auto simp: bindR_Inr_iff elim!: transition_Inr intro!: store_keeps_trans [OF _ keeps_attempts] simp: store_keeps_def gate_inv_def)

lemma keeps_register: "keeps_from db0 (gate_register ge clock s)"
  unfolding gate_register_def
  by (intro preserves_intros)
    (auto simp: bindR_Inr_iff intro: store_keeps_trans keeps_ensure_registered store_keeps_inv)

lemma keeps_authorize: "keeps_from db0 (authorize ge now clock signed i ids)"
  unfolding authorize_def by (intro preserves_intros keeps_register)

lemma keeps_open:
  fixes db0 :: "'w gate_db"
  shows "keeps_from db0 (open_attempt hex t g x)"
  unfolding open_attempt_def
proof (intro preserves_intros keeps_transition)
  fix db :: "'w gate_db" and r db'
  assume keep: "store_keeps db0 db" and "bindR (attempt_create (gd_attempts db) hex (cg_task_id g) (cg_grant_id g) (cg_intent_hash g)
      (if ex_key x = [] then cg_nonce g else ex_key x) t False) (\<lambda>(r, as). Inr (r, db\<lparr>gd_attempts := as\<rparr>)) = Inr (r, db')"
  then obtain as where "attempt_create (gd_attempts db) hex (cg_task_id g) (cg_grant_id g) (cg_intent_hash g)
      (if ex_key x = [] then cg_nonce g else ex_key x) t False = Inr (r, as)" and db': "db' = db\<lparr>gd_attempts := as\<rparr>"
    by (auto simp: bindR_Inr_iff)
  then have "attempts_inv as"
    using attempt_create_at_inv(1) [OF _ attempts_evolve_refl] keep
    by (auto simp: attempt_create_def store_keeps_def gate_inv_def)
  then show "store_keeps db0 db'"
    using store_keeps_trans [OF keep keeps_attempts] keep by (simp add: db' store_keeps_def)
qed

lemma keeps_abort: "keeps_from db0 (abort_attempt att t e)"
  unfolding abort_attempt_def by (intro preserves_intros keeps_transition)

lemma keeps_gate_consume: "keeps_from db0 (gate_consume ge att t g at)"
  unfolding gate_consume_def
  by (intro preserves_intros keeps_abort)
    (auto simp: bindR_Inr_iff intro: store_keeps_trans keeps_consume store_keeps_inv)

lemma keeps_nonce: "keeps_from db0 (consume_nonce ge g rid at)"
  unfolding consume_nonce_def
  by (intro preserves_intros) (auto simp: store_keeps_def gate_inv_def split: if_splits)

lemma keeps_start: "keeps_from db0 (start_attempt ge att t g rid at)"
  unfolding start_attempt_def
  by (intro preserves_intros keeps_gate_consume keeps_nonce keeps_transition keeps_abort)

lemma keeps_prepare: "keeps_from db0 (prepare ge now clock hex token signed i ids x)"
  unfolding prepare_def Let_def by (intro preserves_intros keeps_authorize keeps_open keeps_start)

lemma gate_grant_content: "gate_grant ge s = Inr g \<Longrightarrow> g = sc_grant s"
  by (auto simp: gate_grant_def verify_capability_def bindR_Inr_iff split: option.splits if_splits)

lemma execute_keeps_log:
  assumes "log_inv db"
  shows "log_inv (snd (call_gate ge c db))"
proof -
  let ?prep = "prepare ge (gc_now c) (gc_clock c) (gc_hex c) (gc_token c) (Some (gc_signed c)) (gc_intent c) (gc_ids c) (gc_args c)"
  from assms have inv: "gate_inv db" by (simp add: log_inv_def)
  obtain r db1 where p: "?prep db = (r, db1)" by fastforce
  with preservesD [OF keeps_prepare store_keeps_refl [OF inv]] have keep: "store_keeps db db1"
    by (metis snd_conv)
  show ?thesis
  proof (cases r)
    case (Inl e)
    with p have "snd (call_gate ge c db) = db1" by (simp add: call_gate_def execute_split bindS_def)
    with store_keeps_log [OF keep assms] show ?thesis by simp
  next
    case (Inr ga)
    obtain g att where ga: "ga = (g, att)" by fastforce
    obtain s a row where
      s: "Some (gc_signed c) = Some s" and
      au: "authority_granted ge (gc_now c) (gc_clock c) (gd_authority db) s g (gc_intent c) (gc_ids c)"
      and st: "grant_status (gd_grants db) (cg_grant_id g) \<in> {None, Some ''ACTIVE''}"
      "grant_status (gd_grants db1) (cg_grant_id g) = Some ''CONSUMED''"
      "cg_nonce g \<notin> set (map cn_nonce (gd_nonces db))"
      "map cn_nonce (gd_nonces db1) = map cn_nonce (gd_nonces db) @ [cg_nonce g]" and att: "att = Some a"
      and row: "lookup_row at_attempt_id (gd_attempts db1) (at_attempt_id a) = Some row" "at_state row = RUNNING"
      and world: "gd_world db1 = gd_world db" and inv1: "gate_inv db1"
      by (rule prepare_Inr [OF p [unfolded Inr ga] inv]) (rule that; assumption)
    from s have s: "s = gc_signed c" by simp
    note au = au [unfolded s]
    from au have "gate_grant ge (gc_signed c) = Inr g" by (simp add: authority_granted_def)
    then have g: "g = sc_grant (gc_signed c)" by (rule gate_grant_content)
    from perform_returns [OF inv1 row] obtain rc as where
      q: "perform ge (gc_now c) (gc_clock c) (gc_token c) (gc_intent c) (gc_args c) (logging_executor c) (g, Some a) db1 =
        (Inr rc, db1\<lparr>gd_world := snd (logging_executor c (gd_world db1)), gd_attempts := as\<rparr>)" and as: "attempts_inv as"
      by metis
    then have fin: "snd (call_gate ge c db) = db1\<lparr>gd_world := gd_world db1 @ [(cg_grant_id g, cg_nonce g)], gd_attempts := as\<rparr>"
      by (simp add: call_gate_def execute_split bindS_def p Inr ga att logging_executor_def g)
    have "log_inv db1" using store_keeps_log [OF keep assms] .
    moreover have "cg_grant_id g \<notin> set (map fst (gd_world db))" "cg_nonce g \<notin> set (map snd (gd_world db))"
      using assms st(1,3) by (auto simp: log_inv_def)
    moreover have "cg_nonce g \<in> set (map cn_nonce (gd_nonces db1))" using st(4) by simp
    ultimately show ?thesis using as st(2) by (simp add: fin log_inv_def gate_inv_def world)
  qed
qed

lemma gate_step_keeps_log:
  assumes "log_inv db"
  shows "log_inv (gate_step ge e db)"
proof (cases e)
  case (GateExecute c)
  with execute_keeps_log [OF assms] show ?thesis by simp
next
  case (GateAuthorize c)
  from assms have "gate_inv db" by (simp add: log_inv_def)
  with store_keeps_log [OF preservesD [OF keeps_authorize store_keeps_refl] assms] GateAuthorize show ?thesis by simp
next
  case (GateRevoke g reason now)
  from assms have inv: "gate_inv db" by (simp add: log_inv_def)
  show ?thesis
  proof (cases "grant_revoke (gd_grants db) g reason now")
    case (Inr gs)
    with store_keeps_log [OF keeps_revoke [OF inv Inr] assms] GateRevoke show ?thesis by simp
  qed (use GateRevoke assms in simp)
next
  case (GateAuthority au)
  with assms show ?thesis by (simp add: log_inv_def gate_inv_def)
qed

text \<open>
  C3: A grant is executed at most once. In every history of executions, authorizations,
  revocations and changes of authority, with whatever artifacts, intents, clocks and
  executors, no grant id and no nonce reaches the executor twice, every grant that did is
  CONSUMED in the store, and its nonce is in the replay table.
\<close>

theorem grant_executes_at_most_once:
  "distinct (map fst (gd_world (fold (gate_step ge) es empty_gate_db))) \<and>
   distinct (map snd (gd_world (fold (gate_step ge) es empty_gate_db))) \<and>
   (\<forall>(g, n) \<in> set (gd_world (fold (gate_step ge) es empty_gate_db)).
      grant_status (gd_grants (fold (gate_step ge) es empty_gate_db)) g = Some ''CONSUMED'' \<and>
      n \<in> set (map cn_nonce (gd_nonces (fold (gate_step ge) es empty_gate_db))))"
proof -
  have "log_inv empty_gate_db"
    by (simp add: log_inv_def gate_inv_def empty_gate_db_def grants_inv_def)
  then have "log_inv (fold (gate_step ge) es empty_gate_db)"
    by (induction es rule: rev_induct) (simp_all add: gate_step_keeps_log)
  then show ?thesis unfolding log_inv_def by blast
qed

section \<open>A concrete execution\<close>

definition gate_demo_intent :: full_intent where
  "gate_demo_intent = \<lparr>ai_role = ''researcher'', ai_action = ''research'', ai_agent_id = ''af'', ai_target = [], ai_resource = ''r'',
     ai_destination = [], ai_data_scope = [], ai_irreversible = False, ai_requires_network = False,
     ai_requires_shell = False, ai_requires_filesystem = False, ai_financial = False, ai_privileged = False,
     ai_read_only = True, ai_evidence_required = False, ai_parameters = Some []\<rparr>"

definition gate_demo_identity :: signed_identity where
  "gate_demo_identity = \<lparr>si_identity = \<lparr>id_agent_id = ''af'', id_role = ''x'', id_schema = agent_identity_schema\<rparr>,
     si_public_key = ''k'', si_key_id = ''agent-ed25519-d'', si_signature = ''k'', si_algorithm = ''Ed25519'', si_schema = signed_identity_schema\<rparr>"

definition gate_demo_signed_intent :: "(string \<times> json) list" where
  "gate_demo_signed_intent = [(''agent_identity'', signed_identity_json gate_demo_identity), (''algorithm'', JStr ''Ed25519''),
     (''expires_at'', JStr ''T2''), (''intent'', JObj [(''action'', JStr ''research''), (''agent_id'', JStr ''af''), (''role'', JStr ''researcher'')]),
     (''intent_hash'', JStr ''d''), (''issued_at'', JStr ''T0''), (''nonce'', JStr ''m''),
     (''schema_version'', JStr signed_intent_schema), (''signature'', JStr ''k'')]"

definition gate_demo_capability :: signed_capability where
  "gate_demo_capability = \<lparr>sc_grant = \<lparr>cg_grant_id = ''g'', cg_task_id = ''t'', cg_agent_id = ''af'', cg_epoch = 1, cg_state = ''STANDARD'',
      cg_intent_hash = ''d'', cg_policy_version = policy_version, cg_evidence_ids = [], cg_evidence_hash = ''d'', cg_action = ''research'',
      cg_target = [], cg_scope = ''r'', cg_issued_at = ''T0'', cg_expires_at = ''T2'', cg_nonce = ''n'', cg_status = ''ACTIVE'',
      cg_contract = [], cg_signed_intent = gate_demo_signed_intent\<rparr>,
     sc_key_id = ''kid'', sc_signature = ''gk'', sc_identity = None, sc_algorithm = ''Ed25519''\<rparr>"

definition gate_demo_crypto :: crypto where
  "gate_demo_crypto = \<lparr>cr_sha256 = (\<lambda>s. ''d''), cr_b64encode = id, cr_b64decode = Some, cr_public_ok = (\<lambda>_. True),
     cr_public = id, cr_sign = (\<lambda>k m. k), cr_verify = (\<lambda>p s m. p = s),
     cr_parse_time = (\<lambda>s. if s = ''T2'' then Aware 2000000 else Unreadable),
     cr_show = (\<lambda>_. []), cr_dict = (\<lambda>_. Inr [])\<rparr>"

definition gate_demo_authority :: authority_db where
  "gate_demo_authority = \<lparr>ad_states = [\<lparr>sr_agent_id = ''af'', sr_state = ''STANDARD'', sr_trusted = 1, sr_failed = 0, sr_last_proof = []\<rparr>],
     ad_transitions = [], ad_registry = [\<lparr>gr_agent_id = ''af'', gr_policy_version = policy_version, gr_epoch = 1\<rparr>]\<rparr>"

definition demo_gate :: gate where
  "demo_gate = \<lparr>ge_crypto = gate_demo_crypto, ge_policy_version = policy_version, ge_signer = Some \<lparr>ck_key = ''gk'', ck_key_id = ''kid''\<rparr>,
     ge_db = True, ge_registry = True\<rparr>"

definition gate_demo_call :: gate_call where
  "gate_demo_call = \<lparr>gc_now = Some 0, gc_clock = 0, gc_hex = ''x'', gc_token = ''y'', gc_signed = gate_demo_capability, gc_intent = gate_demo_intent,
     gc_ids = [], gc_args = \<lparr>ex_executor_id = ''e'', ex_executor_version = ''1'', ex_digest = None, ex_epoch = 1, ex_key = []\<rparr>,
     gc_answer = Inr JNull\<rparr>"

lemma demo_gate_grant: "gate_grant demo_gate gate_demo_capability = Inr (sc_grant gate_demo_capability)"
  by (simp add: gate_grant_def demo_gate_def verify_capability_def gate_demo_capability_def check_grant_identity_def gate_demo_crypto_def)

lemmas gate_demo_defs = demo_gate_def gate_demo_crypto_def gate_demo_capability_def gate_demo_intent_def gate_demo_identity_def gate_demo_signed_intent_def

lemma gate_demo_grant_id: "cg_grant_id (sc_grant gate_demo_capability) = ''g''"
  by (simp add: gate_demo_capability_def)

lemma gate_demo_embedded: "\<exists>s. embedded_intent gate_demo_crypto (Some 0) 0 gate_demo_signed_intent = Inr s \<and> sn_intent_hash s = ''d'' \<and>
    id_agent_id (si_identity (sn_identity s)) = ''af''"
  by (simp add: embedded_intent_def gate_demo_signed_intent_def signed_intent_of_json_def absent_fields_def signed_intent_fields_def Let_def json_get_def
     signed_identity_of_json_def signed_identity_json_def gate_demo_identity_def signed_intent_schema_def rescue_def identity_of_json_def
     identity_json_def item_def make_agent_identity_def agent_identity_schema_def signed_identity_schema_def make_intent_def intent_defaults_def
     verify_signed_intent_def ensure_def intent_hash_def intent_json_def gate_demo_crypto_def verify_identity_def identity_key_id_def intent_signature_ok_def
     signed_intent_items_def reached_def)

lemma gate_demo_crypto_simps [simp]: "cr_sha256 gate_demo_crypto s = ''d''" "cr_parse_time gate_demo_crypto ''T2'' = Aware 2000000"
  by (simp_all add: gate_demo_crypto_def)

lemma gate_demo_embedded_none: "embedded_intent gate_demo_crypto None 0 gate_demo_signed_intent = embedded_intent gate_demo_crypto (Some 0) 0 gate_demo_signed_intent"
  by (simp only: embedded_intent_def verify_signed_intent_def option.case)

lemma gate_demo_granted: "authority_granted demo_gate (Some 0) 0 gate_demo_authority gate_demo_capability (sc_grant gate_demo_capability) gate_demo_intent []"
proof -
  obtain s where s: "embedded_intent gate_demo_crypto (Some 0) 0 gate_demo_signed_intent = Inr s" "sn_intent_hash s = ''d''"
    "id_agent_id (si_identity (sn_identity s)) = ''af''" using gate_demo_embedded by blast
  have ne: "gate_demo_signed_intent \<noteq> []" by (simp add: gate_demo_signed_intent_def)
  have "verify_grant_intent demo_gate (Some 0) 0 (sc_grant gate_demo_capability) = Inr ()"
    using s ne by (simp add: verify_grant_intent_def demo_gate_def gate_demo_capability_def)
  moreover have "check_authority demo_gate gate_demo_authority (sc_grant gate_demo_capability) = Inr ()"
    by (simp add: check_authority_def demo_gate_def gate_demo_capability_def gate_demo_authority_def authority_get_def authority_load_def
        new_machine_def parse_authority_state_def)
  moreover have "consume_capability_grant gate_demo_crypto (Some 0) 0 (sc_grant gate_demo_capability) gate_demo_intent [] = Inr ()"
    using s ne gate_demo_embedded_none
    by (simp add: consume_capability_grant_def verify_binding_def check_embedded_intent_def gate_demo_capability_def
        intent_hash_def intent_json_def Let_def intent_value_of_def json_get_def gate_demo_intent_def intent_contract_def
        evidence_hash_def validate_outcome_contract_def contract_required_actions_def reached_def)
  ultimately show ?thesis
    using demo_gate_grant by (simp add: authority_granted_def demo_gate_def gate_scope_def gate_demo_capability_def gate_demo_intent_def)
qed

lemma gate_demo_execute:
  "\<exists>rc db. call_gate demo_gate gate_demo_call (empty_gate_db\<lparr>gd_authority := gate_demo_authority\<rparr>) = (Inr rc, db) \<and> gd_world db = [(''g'', ''n'')]"
proof -
  from gate_demo_granted have a: "gate_grant demo_gate gate_demo_capability = Inr (sc_grant gate_demo_capability)"
    "verify_grant_intent demo_gate (Some 0) 0 (sc_grant gate_demo_capability) = Inr ()"
    "check_authority demo_gate gate_demo_authority (sc_grant gate_demo_capability) = Inr ()"
    "consume_capability_grant (ge_crypto demo_gate) (Some 0) 0 (sc_grant gate_demo_capability) gate_demo_intent [] = Inr ()"
    "cg_scope (sc_grant gate_demo_capability) = gate_scope gate_demo_intent"
    by (simp_all add: authority_granted_def)
  have f: "sc_grant gate_demo_capability = sc_grant gate_demo_capability" ..
  have st: "sg_grant_id (stored_grant gate_demo_capability) = ''g''" "cg_grant_id (sc_grant gate_demo_capability) = ''g''"
     "cg_nonce (sc_grant gate_demo_capability) = ''n''" "cg_task_id (sc_grant gate_demo_capability) = ''t''" "cg_intent_hash (sc_grant gate_demo_capability) = ''d''"
    by (simp_all add: stored_grant_def gate_demo_capability_def)
  have db: "ge_db demo_gate" by (simp add: demo_gate_def)
  show ?thesis
    by (simp add: call_gate_def gate_demo_call_def execute_def authorize_def a db empty_gate_db_def gate_register_def bindS_def commitS_def rescue_def
      ensure_registered_def grant_status_def grant_register_def new_grant_row_def st ensure_def check_execute_args_def 
      open_attempt_def tryS_def attempt_create_def attempt_create_at_def find_by_idempotency_key_def new_attempt_def gate_transition_def
      attempt_transition_def attempt_transition_at_def parse_attempt_state_def all_attempt_states_def attempt_get_def Let_def
      count_where_def transition_row_def coalesce_text_def no_args_def start_attempt_def gate_consume_def grant_consume_def consume_nonce_def
      run_executor_def logging_executor_def close_attempt_def make_receipt_def attempt_terminal_def)
qed
section \<open>What is executed was signed\<close>

text \<open>
  The signer was asked to sign the grants \<open>issues\<close>, and its key also signed the payloads
  \<open>others\<close> (\<^verbatim>\<open>sign_payload\<close>). A forgery is an artifact that somebody presents to the gate and
  whose signature verifies although its payload was never signed.
\<close>

definition capability_text :: "signed_capability \<Rightarrow> string" where
  "capability_text s = canonical_text (JObj (signed_capability_items s))"

definition issued_by :: "crypto \<Rightarrow> capability_signer \<Rightarrow> (capability_grant \<times> signed_identity option) list \<Rightarrow> signed_capability set" where
  "issued_by c k issues = {s. \<exists>(g, ident) \<in> set issues. sign_capability c k g ident = Inr s}"

definition signed_texts :: "crypto \<Rightarrow> capability_signer \<Rightarrow> (capability_grant \<times> signed_identity option) list \<Rightarrow> json set \<Rightarrow> string set" where
  "signed_texts c k issues others = capability_text ` issued_by c k issues \<union> canonical_text ` others"

definition forged :: "crypto \<Rightarrow> capability_signer \<Rightarrow> string set \<Rightarrow> signed_capability \<Rightarrow> bool" where
  "forged c k texts s \<longleftrightarrow> capability_text s \<notin> texts \<and>
     (\<exists>sg. cr_b64decode c (sc_signature s) = Some sg \<and> cr_verify c (cr_public c (ck_key k)) sg (capability_text s))"

definition payload_wf :: "signed_capability \<Rightarrow> bool" where
  "payload_wf s \<longleftrightarrow> json_wf (JObj (signed_capability_items s))"

definition not_a_grant :: "json \<Rightarrow> bool" where
  "not_a_grant j \<longleftrightarrow> json_wf j \<and> (\<forall>kvs. j = JObj kvs \<longrightarrow> ''grant'' \<notin> set (map fst kvs))"

text \<open>The payload text determines the grant.\<close>

lemma capability_text_grant:
  assumes "payload_wf s" and "payload_wf s'" and "capability_text s = capability_text s'"
  shows "sc_grant s = sc_grant s'"
proof -
  from dumps_inj [OF assms(1,2) [unfolded payload_wf_def] assms(3) [unfolded capability_text_def canonical_text_def]]
  have "signed_capability_items s = signed_capability_items s'" by simp
  then have "grant_json (sc_grant s) = grant_json (sc_grant s')" by (simp add: signed_capability_items_def)
  then show ?thesis by (rule grant_json_inj)
qed

lemma capability_text_others:
  assumes "payload_wf s" and "not_a_grant j"
  shows "capability_text s \<noteq> canonical_text j"
proof
  assume eq: "capability_text s = canonical_text j"
  from assms(2) have "json_wf j" by (simp add: not_a_grant_def)
  from dumps_inj [OF assms(1) [unfolded payload_wf_def] this eq [unfolded capability_text_def canonical_text_def]] assms(2)
  show False by (auto simp: not_a_grant_def signed_capability_items_def)
qed

lemma accepted_is_issued:
  assumes "gate_grant ge s = Inr g" and "ge_signer ge = Some k" and "payload_wf s"
    and "\<not> forged (ge_crypto ge) k (signed_texts (ge_crypto ge) k issues others) s"
    and "\<And>s0. s0 \<in> issued_by (ge_crypto ge) k issues \<Longrightarrow> payload_wf s0" and "\<And>j. j \<in> others \<Longrightarrow> not_a_grant j"
  shows "\<exists>s0 \<in> issued_by (ge_crypto ge) k issues. sc_grant s0 = sc_grant s"
proof -
  from assms(1,2) obtain sg where "cr_b64decode (ge_crypto ge) (sc_signature s) = Some sg"
    "cr_verify (ge_crypto ge) (cr_public (ge_crypto ge) (ck_key k)) sg (capability_text s)"
    by (auto simp: gate_grant_def verify_capability_def capability_text_def bindR_Inr_iff split: option.splits if_splits)
  with assms(4) have "capability_text s \<in> signed_texts (ge_crypto ge) k issues others" by (auto simp: forged_def)
  with capability_text_others [OF assms(3) assms(6)]
  obtain s0 where s0: "s0 \<in> issued_by (ge_crypto ge) k issues" and eq: "capability_text s0 = capability_text s"
    by (auto simp: signed_texts_def)
  from capability_text_grant [OF assms(5) [OF s0] assms(3) eq] s0 show ?thesis by blast
qed

lemma issued_by_grant: "s \<in> issued_by c k issues \<Longrightarrow> \<exists>ident. (sc_grant s, ident) \<in> set issues \<and> sign_capability c k (sc_grant s) ident = Inr s"
  by (auto simp: issued_by_def sign_capability_def bindR_Inr_iff Let_def)

lemma gate_step_world:
  assumes "log_inv db"
  shows "gd_world (gate_step ge e db) = gd_world db \<or>
    (\<exists>c g. e = GateExecute c \<and> gate_grant ge (gc_signed c) = Inr g \<and>
       gd_world (gate_step ge e db) = gd_world db @ [(cg_grant_id (sc_grant (gc_signed c)), cg_nonce (sc_grant (gc_signed c)))])"
proof (cases e)
  case (GateExecute c)
  obtain res db' where c: "call_gate ge c db = (res, db')" by fastforce
  from assms have "gate_inv db" by (simp add: log_inv_def)
  from gate_call_cases [OF this c [unfolded call_gate_def]] show ?thesis
    by (auto simp: GateExecute c logging_executor_def authority_granted_def)
next
  case (GateAuthorize c)
  from assms have "gate_inv db" by (simp add: log_inv_def)
  from preservesD [OF keeps_authorize store_keeps_refl [OF this]] GateAuthorize show ?thesis by (simp add: store_keeps_def)
qed (simp_all split: sum.split)

lemma empty_log_inv: "log_inv empty_gate_db"
  by (simp add: log_inv_def gate_inv_def empty_gate_db_def grants_inv_def)

lemma gate_history_world:
  assumes "(gid, n) \<in> set (gd_world (fold (gate_step ge) es empty_gate_db))"
  shows "\<exists>c g. GateExecute c \<in> set es \<and> gate_grant ge (gc_signed c) = Inr g \<and>
    gid = cg_grant_id (sc_grant (gc_signed c)) \<and> n = cg_nonce (sc_grant (gc_signed c))"
  using assms
proof (induction es rule: rev_induct)
  case Nil
  then show ?case by (simp add: empty_gate_db_def)
next
  case (snoc e es)
  have "log_inv (fold (gate_step ge) es empty_gate_db)"
    by (induction es rule: rev_induct) (simp_all add: gate_step_keeps_log empty_log_inv)
  from gate_step_world [OF this, of ge e] show ?case
  proof
    assume "gd_world (gate_step ge e (fold (gate_step ge) es empty_gate_db)) = gd_world (fold (gate_step ge) es empty_gate_db)"
    with snoc.prems have "(gid, n) \<in> set (gd_world (fold (gate_step ge) es empty_gate_db))" by simp
    with snoc.IH show ?case by auto
  next
    assume "\<exists>c g. e = GateExecute c \<and> gate_grant ge (gc_signed c) = Inr g \<and>
       gd_world (gate_step ge e (fold (gate_step ge) es empty_gate_db)) = gd_world (fold (gate_step ge) es empty_gate_db) @
         [(cg_grant_id (sc_grant (gc_signed c)), cg_nonce (sc_grant (gc_signed c)))]"
    then obtain c g where c: "e = GateExecute c" "gate_grant ge (gc_signed c) = Inr g"
      and w: "gd_world (gate_step ge e (fold (gate_step ge) es empty_gate_db)) = gd_world (fold (gate_step ge) es empty_gate_db) @
         [(cg_grant_id (sc_grant (gc_signed c)), cg_nonce (sc_grant (gc_signed c)))]" by blast
    from snoc.prems w have "(gid, n) \<in> set (gd_world (fold (gate_step ge) es empty_gate_db)) \<or>
        gid = cg_grant_id (sc_grant (gc_signed c)) \<and> n = cg_nonce (sc_grant (gc_signed c))" by auto
    then show ?case
    proof
      assume "(gid, n) \<in> set (gd_world (fold (gate_step ge) es empty_gate_db))"
      with snoc.IH show ?case by auto
    qed (use c in auto)
  qed
qed

text \<open>
  C9: Only what the signer signed is executed. Take any history of a gate with a signer:
  executions of whatever artifacts, authorizations, revocations and changes of authority.
  If nobody presented a forgery in it, then every grant id and nonce that ever reached the
  executor belong to a grant that the signer was asked to sign and did sign, and a call
  presented an artifact carrying exactly this grant, field by field.
\<close>

theorem only_issued_grants_execute:
  assumes "ge_signer ge = Some k"
    and "\<And>call. GateExecute call \<in> set es \<Longrightarrow> payload_wf (gc_signed call) \<and>
       \<not> forged (ge_crypto ge) k (signed_texts (ge_crypto ge) k issues others) (gc_signed call)"
    and "\<And>s. s \<in> issued_by (ge_crypto ge) k issues \<Longrightarrow> payload_wf s" and "\<And>j. j \<in> others \<Longrightarrow> not_a_grant j"
    and "(gid, n) \<in> set (gd_world (fold (gate_step ge) es empty_gate_db))"
  shows "\<exists>g ident s call. (g, ident) \<in> set issues \<and> sign_capability (ge_crypto ge) k g ident = Inr s \<and>
    cg_grant_id g = gid \<and> cg_nonce g = n \<and> GateExecute call \<in> set es \<and> sc_grant (gc_signed call) = g"
proof -
  from gate_history_world [OF assms(5)] obtain c g where c: "GateExecute c \<in> set es" "gate_grant ge (gc_signed c) = Inr g"
    "gid = cg_grant_id (sc_grant (gc_signed c))" "n = cg_nonce (sc_grant (gc_signed c))" by blast
  from accepted_is_issued [OF c(2) assms(1)] assms(2) [OF c(1)] assms(3,4)
  obtain s0 where "s0 \<in> issued_by (ge_crypto ge) k issues" "sc_grant s0 = sc_grant (gc_signed c)" by blast
  with issued_by_grant [of s0 "ge_crypto ge" k issues] c show ?thesis by metis
qed

text \<open>
  The demonstration key signs as documented, the public key accepts what the key signed;
  the demonstration artifact is what the signer returns for its grant.
\<close>

lemma gate_demo_sign: "sign_capability gate_demo_crypto \<lparr>ck_key = ''gk'', ck_key_id = ''kid''\<rparr> (sc_grant gate_demo_capability) None =
    Inr gate_demo_capability"
  by (simp add: sign_capability_def check_grant_identity_def gate_demo_capability_def gate_demo_crypto_def)

theorem only_issued_grants_execute_witness:
  "(\<forall>key m. cr_verify (ge_crypto demo_gate) (cr_public (ge_crypto demo_gate) key) (cr_sign (ge_crypto demo_gate) key m) m) \<and>
   (\<exists>g ident s call. (g, ident) \<in> set [(sc_grant gate_demo_capability, None)] \<and>
      sign_capability (ge_crypto demo_gate) \<lparr>ck_key = ''gk'', ck_key_id = ''kid''\<rparr> g ident = Inr s \<and>
      cg_grant_id g = ''g'' \<and> cg_nonce g = ''n'' \<and>
      GateExecute call \<in> set [GateAuthority gate_demo_authority, GateExecute gate_demo_call] \<and> sc_grant (gc_signed call) = g)"
proof -
  have crypto: "ge_crypto demo_gate = gate_demo_crypto" and signed: "gc_signed gate_demo_call = gate_demo_capability"
    by (simp_all add: demo_gate_def gate_demo_call_def)
  have wf: "payload_wf gate_demo_capability"
    by (simp add: payload_wf_def signed_capability_items_def gate_demo_capability_def grant_json_def gate_demo_signed_intent_def
        signed_identity_json_def identity_json_def)
  have issued: "issued_by (ge_crypto demo_gate) \<lparr>ck_key = ''gk'', ck_key_id = ''kid''\<rparr> [(sc_grant gate_demo_capability, None)] =
      {gate_demo_capability}"
    by (simp add: issued_by_def gate_demo_sign crypto)
  from gate_demo_execute have logged: "(''g'', ''n'') \<in> set (gd_world (fold (gate_step demo_gate)
      [GateAuthority gate_demo_authority, GateExecute gate_demo_call] empty_gate_db))" by fastforce
  have "\<exists>g ident s call. (g, ident) \<in> set [(sc_grant gate_demo_capability, None)] \<and>
      sign_capability (ge_crypto demo_gate) \<lparr>ck_key = ''gk'', ck_key_id = ''kid''\<rparr> g ident = Inr s \<and>
      cg_grant_id g = ''g'' \<and> cg_nonce g = ''n'' \<and>
      GateExecute call \<in> set [GateAuthority gate_demo_authority, GateExecute gate_demo_call] \<and> sc_grant (gc_signed call) = g"
    by (rule only_issued_grants_execute [OF _ _ _ _ logged, where others = "{}"])
      (use wf in \<open>auto simp: demo_gate_def [THEN arg_cong [of _ _ ge_signer]] signed issued forged_def signed_texts_def\<close>)
  moreover have "\<forall>key m. cr_verify (ge_crypto demo_gate) (cr_public (ge_crypto demo_gate) key) (cr_sign (ge_crypto demo_gate) key m) m"
    by (simp add: demo_gate_def gate_demo_crypto_def)
  ultimately show ?thesis by blast
qed

theorem gate_fails_closed_and_acts_once_witness:
  "\<exists>rc db. call_gate demo_gate gate_demo_call (empty_gate_db\<lparr>gd_authority := gate_demo_authority\<rparr>) = (Inr rc, db) \<and>
     grant_status (gd_grants db) ''g'' = Some ''CONSUMED'' \<and> recorded_outcome (gd_attempts db) rc"
proof -
  obtain rc db where ex: "call_gate demo_gate gate_demo_call (empty_gate_db\<lparr>gd_authority := gate_demo_authority\<rparr>) = (Inr rc, db)"
    and w: "gd_world db = [(''g'', ''n'')]" using gate_demo_execute by blast
  have inv: "gate_inv (empty_gate_db\<lparr>gd_authority := gate_demo_authority\<rparr>)"
    by (simp add: gate_inv_def empty_gate_db_def grants_inv_def)
  have call: "gc_signed gate_demo_call = gate_demo_capability" by (simp add: gate_demo_call_def)
  from gate_fails_closed_and_acts_once [OF inv ex [unfolded call_gate_def call]] obtain g where
    "g = sc_grant gate_demo_capability" "grant_status (gd_grants db) (cg_grant_id g) = Some ''CONSUMED''"
    "recorded_outcome (gd_attempts db) rc"
    unfolding grant_valid_def Let_def by blast
  moreover from this have "cg_grant_id g = ''g''" by (simp add: gate_demo_grant_id)
  ultimately show ?thesis using ex by auto
qed

theorem grant_executes_at_most_once_witness:
  "grant_status (gd_grants (fold (gate_step demo_gate) [GateAuthority gate_demo_authority, GateExecute gate_demo_call] empty_gate_db)) ''g''
     = Some ''CONSUMED''"
proof -
  obtain rc db where "call_gate demo_gate gate_demo_call (empty_gate_db\<lparr>gd_authority := gate_demo_authority\<rparr>) = (Inr rc, db)"
    and "gd_world db = [(''g'', ''n'')]" using gate_demo_execute by blast
  then have "(''g'', ''n'') \<in> set (gd_world (fold (gate_step demo_gate) [GateAuthority gate_demo_authority, GateExecute gate_demo_call] empty_gate_db))"
    by simp
  with grant_executes_at_most_once [of demo_gate "[GateAuthority gate_demo_authority, GateExecute gate_demo_call]"]
  show ?thesis by blast
qed

end
