(* ===== verification/Coordinator.thy ===== *)
theory Coordinator
  imports ExecutionGate RecoveryRuns RecoveryEvidence
begin

text \<open>
  Recovery of ambiguous executions: the registry of outcome verifiers
  (\<^verbatim>\<open>src/shared/outcome_verifier_registry.py\<close>), the issue of fresh authority for a retry
  (\<^verbatim>\<open>execution_retry_authorizer.py\<close>) and the coordinator that turns an independently verified
  decision into at most one retry (\<^verbatim>\<open>execution_recovery_coordinator.py\<close>). Every store call
  commits on its own. A verifier observes the world; a reauthorizer that the caller injects
  is a function of its arguments.
\<close>

section \<open>The state\<close>

record 'w coord_db =
  cd_gate :: "'w gate_db"
  cd_recovery :: recovery_db
  cd_evidence :: evidence_db

text \<open>Operations of the gate and of the stores on the coordinator's state.\<close>

definition on_gate :: "('w gate_db, 'a) op \<Rightarrow> ('w coord_db, 'a) op" where
  "on_gate m = (\<lambda>db. case m (cd_gate db) of (r, g) \<Rightarrow> (r, db\<lparr>cd_gate := g\<rparr>))"

definition on_recovery :: "(recovery_db \<Rightarrow> ('a \<times> recovery_db) result) \<Rightarrow> ('w coord_db, 'a) op" where
  "on_recovery f = commitS (\<lambda>db. bindR (f (cd_recovery db)) (\<lambda>(x, r). Inr (x, db\<lparr>cd_recovery := r\<rparr>)))"

definition read_attempt :: "string \<Rightarrow> ('w coord_db, attempt) op" where
  "read_attempt i = readS (\<lambda>db. attempt_get (gd_attempts (cd_gate db)) i)"

section \<open>Outcome verifiers\<close>

text \<open>A verifier object: the methods it has, each an observation of the world.\<close>

record 'w verifier =
  vf_verify :: "('w \<Rightarrow> full_intent \<Rightarrow> json \<Rightarrow> json result) option"
  vf_recovery :: "('w \<Rightarrow> full_intent \<Rightarrow> (string \<times> json) list \<Rightarrow> json result) option"

record 'w verifier_spec =
  vs_name :: string
  vs_contract_type :: string
  vs_verifier_id :: string
  vs_factory :: "(string \<times> json) list \<Rightarrow> 'w verifier result"

type_synonym 'w verifier_registry = "'w verifier_spec list"

definition verifier_register :: "'w verifier_registry \<Rightarrow> string \<Rightarrow> string \<Rightarrow> string \<Rightarrow> ((string \<times> json) list \<Rightarrow> 'w verifier result) \<Rightarrow>
    'w verifier_registry result" where
  "verifier_register specs name ctype vid factory =
    (if name = [] \<or> ctype = [] \<or> vid = [] then raise OutcomeVerifierRegistryError ''outcome_verifier_identity_required''
     else if lookup_row vs_verifier_id specs vid \<noteq> None
     then raise OutcomeVerifierRegistryError ''outcome_verifier_already_registered''
     else Inr (specs @ [\<lparr>vs_name = name, vs_contract_type = ctype, vs_verifier_id = vid, vs_factory = factory\<rparr>]))"

text \<open>An empty contract passes the validation of an unlisted action and then lacks the key.\<close>

definition verifier_resolve :: "'w verifier_registry \<Rightarrow> json \<Rightarrow> json \<Rightarrow> ('w verifier_spec \<times> (string \<times> json) list) result" where
  "verifier_resolve specs contract action =
    bindR (rescue (\<lambda>cl. cl = OutcomeContractError) (\<lambda>e. Exc OutcomeVerifierRegistryError (exc_msg e))
      (validate_outcome_contract contract action)) (\<lambda>v.
    bindR (item v ''verifier'') (\<lambda>vid.
    (case find (\<lambda>s. JStr (vs_verifier_id s) = vid) specs of
       None \<Rightarrow> raise OutcomeVerifierRegistryError ''outcome_verifier_not_registered''
     | Some s \<Rightarrow> if JStr (vs_contract_type s) \<noteq> json_get v ''type''
         then raise OutcomeVerifierRegistryError ''outcome_verifier_contract_type_mismatch'' else Inr (s, v))))"

definition verifier_build :: "'w verifier_registry \<Rightarrow> json \<Rightarrow> json \<Rightarrow> (string \<times> json) list \<Rightarrow>
    ('w verifier \<times> (string \<times> json) list) result" where
  "verifier_build specs contract action kwargs =
    bindR (verifier_resolve specs contract action) (\<lambda>(s, v).
    bindR (rescue (\<lambda>cl. cl = TypeError) (\<lambda>_. Exc OutcomeVerifierRegistryError ''outcome_verifier_factory_invalid'')
      (vs_factory s kwargs)) (\<lambda>f.
    if vf_verify f = None then raise OutcomeVerifierRegistryError ''outcome_verifier_invalid'' else Inr (f, v)))"

definition effective_action :: "string option \<Rightarrow> full_intent \<Rightarrow> json" where
  "effective_action action i = JStr (given_or action (ai_action i))"

definition verifier_recovery :: "'w verifier_registry \<Rightarrow> 'w \<Rightarrow> json \<Rightarrow> full_intent \<Rightarrow> string option \<Rightarrow> (string \<times> json) list \<Rightarrow>
    (string \<times> json) list result" where
  "verifier_recovery specs w contract i action kwargs =
    bindR (verifier_build specs contract (effective_action action i) kwargs) (\<lambda>(f, v).
    (case vf_recovery f of
       None \<Rightarrow> raise OutcomeVerifierRegistryError ''outcome_verifier_recovery_unsupported''
     | Some m \<Rightarrow> bindR (m w i v) (\<lambda>out. case out of
           JObj r \<Rightarrow>
            (if \<not> py_eq (json_get r ''verifier'') (json_get v ''verifier'')
             then raise OutcomeVerifierRegistryError ''outcome_verifier_result_mismatch''
             else bindR (in_texts (json_get r ''status'') [''SIDE_EFFECT_CONFIRMED'', ''SAFE_TO_RETRY'', ''QUARANTINED'']) (\<lambda>known.
               if \<not> known then raise OutcomeVerifierRegistryError ''outcome_verifier_invalid_recovery_status''
               else if \<not> truthy (json_get r ''outcome_id'')
               then raise OutcomeVerifierRegistryError ''outcome_verifier_recovery_id_required'' else Inr r))
         | _ \<Rightarrow> raise OutcomeVerifierRegistryError ''outcome_verifier_invalid_recovery_result'')))"

definition verifier_verify :: "'w verifier_registry \<Rightarrow> 'w \<Rightarrow> json \<Rightarrow> full_intent \<Rightarrow> json \<Rightarrow> string option \<Rightarrow> (string \<times> json) list \<Rightarrow>
    (string \<times> json) list result" where
  "verifier_verify specs w contract i receipt action kwargs =
    bindR (verifier_build specs contract (effective_action action i) kwargs) (\<lambda>(f, v).
    (case vf_verify f of
       None \<Rightarrow> raise OutcomeVerifierRegistryError ''outcome_verifier_invalid''
     | Some m \<Rightarrow> bindR (m w i receipt) (\<lambda>out. case out of
           JObj r \<Rightarrow>
            (if \<not> py_eq (json_get r ''verifier'') (json_get v ''verifier'')
             then raise OutcomeVerifierRegistryError ''outcome_verifier_result_mismatch''
             else if json_get r ''status'' \<noteq> JStr ''PROVEN'' then raise OutcomeVerifierRegistryError ''outcome_verifier_not_proven''
             else Inr r)
         | _ \<Rightarrow> raise OutcomeVerifierRegistryError ''outcome_verifier_invalid_result'')))"

text \<open>What \<^verbatim>\<open>resolve_verified\<close> reads of the verifier's dict.\<close>

definition verification_of :: "crypto \<Rightarrow> (string \<times> json) list \<Rightarrow> verification" where
  "verification_of c r =
    (let text = (\<lambda>k. if truthy (json_get r k) then Some (text_field c r k) else None) in
     \<lparr>vr_status = (case json_get r ''status'' of JStr s \<Rightarrow> Some s | _ \<Rightarrow> None),
      vr_verifier = text ''verifier'', vr_outcome_id = text ''outcome_id''\<rparr>)"

section \<open>Fresh authority for a retry\<close>

text \<open>\<^verbatim>\<open>signed_action_intent.intent != intent\<close> compares the fields.\<close>

definition same_intent :: "intent_value \<Rightarrow> full_intent \<Rightarrow> bool" where
  "same_intent v i \<longleftrightarrow> py_eq (JObj v) (JObj (intent_value_of i))"

record retry_tokens =
  rt_grant :: string
  rt_nonce :: string

definition retry_authorize :: "crypto \<Rightarrow> capability_signer \<Rightarrow> authority_db \<Rightarrow> attempt \<Rightarrow> full_intent \<Rightarrow> signed_intent \<Rightarrow>
    string list \<Rightarrow> instant option \<Rightarrow> instant \<Rightarrow> string option \<Rightarrow> string option \<Rightarrow> retry_tokens \<Rightarrow> signed_capability result" where
  "retry_authorize c k au a i s ids now clock grant_id nonce toks =
    bindR (ensure (at_task_id a \<noteq> []) ExecutionRetryAuthorizationError ''attempt_task_id_required'') (\<lambda>_.
    bindR (rescue type_or_value (\<lambda>_. Exc ExecutionRetryAuthorizationError ''signed_action_intent_invalid'')
      (verify_signed_intent c now clock s)) (\<lambda>_.
    bindR (ensure (sn_intent_hash s = at_intent_hash a) ExecutionRetryAuthorizationError ''retry_intent_hash_mismatch'') (\<lambda>_.
    bindR (ensure (same_intent (sn_intent s) i) ExecutionRetryAuthorizationError ''retry_intent_mismatch'') (\<lambda>_.
    bindR (rescue (\<lambda>cl. cl = AgentAuthorityError) (\<lambda>_. Exc ExecutionRetryAuthorizationError ''current_authority_unavailable'')
      (authority_get au (id_agent_id (si_identity (sn_identity s))))) (\<lambda>authority.
    bindR (rescue type_or_value (\<lambda>_. Exc ExecutionRetryAuthorizationError ''retry_grant_issue_failed'')
      (bindR (issue_capability_grant c clock i
         \<lparr>ig_task_id = at_task_id a, ig_policy_version = aa_policy_version authority, ig_evidence_ids = ids,
          ig_scope = gate_scope i, ig_ttl = 300, ig_contract = None, ig_state = Some (aa_state authority),
          ig_context = Some authority, ig_signed_intent = Some s, ig_grant_id = grant_id, ig_nonce = nonce,
          ig_token = rt_grant toks, ig_nonce_token = rt_nonce toks\<rparr>) (\<lambda>g. sign_capability c k g None))) (\<lambda>sg.
    bindR (ensure (cg_grant_id (sc_grant sg) \<noteq> at_grant_id a) ExecutionRetryAuthorizationError ''retry_grant_must_be_new'')
      (\<lambda>_. Inr sg)))))))"

section \<open>The coordinator\<close>

record 'w coordinator =
  co_crypto :: crypto
  co_specs :: "'w verifier_registry"
  co_gate :: "gate option"
  co_authorizer :: "capability_signer option"

text \<open>The arguments of \<^verbatim>\<open>retry_if_safe\<close> and the identifiers its stores draw.\<close>

record retry_call =
  rc_attempt_id :: string
  rc_intent :: full_intent
  rc_contract :: json
  rc_action :: "string option"
  rc_now :: "instant option"
  rc_clock :: instant
  rc_reauthorize :: "(attempt \<Rightarrow> full_intent \<Rightarrow> instant option \<Rightarrow> signed_capability result) option"
  rc_signed_intent :: "signed_intent option"
  rc_ids :: "string list"
  rc_kwargs :: "(string \<times> json) list"
  rc_open_hex :: string
  rc_claim_hex :: string
  rc_create_hex :: string
  rc_tokens :: retry_tokens

abbreviation rc_time :: "retry_call \<Rightarrow> instant" where
  "rc_time a \<equiv> (case rc_now a of None \<Rightarrow> rc_clock a | Some t \<Rightarrow> t)"

definition record_evidence :: "'w coordinator \<Rightarrow> string \<Rightarrow> string \<Rightarrow> string \<Rightarrow> (string \<times> json) list \<Rightarrow> instant \<Rightarrow>
    ('w coord_db, unit) op" where
  "record_evidence co rid aid kind payload t =
     commitS (\<lambda>db. bindR (evidence_append (cr_sha256 (co_crypto co)) (cd_evidence db) rid aid kind (Some (JObj payload)) (isoformat t))
       (\<lambda>(_, ev). Inr ((), db\<lparr>cd_evidence := ev\<rparr>)))"

definition move_attempt :: "string \<Rightarrow> attempt_state \<Rightarrow> instant \<Rightarrow> string \<Rightarrow> ('w coord_db, unit) op" where
  "move_attempt i st t err =
     bindS (on_gate (gate_transition i (attempt_state_value st) t (no_args\<lparr>targ_error := err\<rparr>))) (\<lambda>_. retS ())"

definition coord_review :: "'w coordinator \<Rightarrow> retry_call \<Rightarrow> ('w coord_db, recovery_review) op" where
  "coord_review co a =
    bindS (read_attempt (rc_attempt_id a)) (\<lambda>att.
    bindS (on_recovery (\<lambda>db. recovery_open_at db db att (rc_open_hex a) (rc_clock a))) (\<lambda>review.
    if rv_decision review \<noteq> UNKNOWN then retS review
    else
      bindS (record_evidence co (rv_recovery_id review) (at_attempt_id att) ''RECOVERY_OPENED''
        [(''lease_expires_at'', optional_text (map_option isoformat (at_lease_expires_at att))),
         (''state'', JStr (attempt_state_value (at_state att)))] (rc_clock a)) (\<lambda>_.
      bindS (readS (\<lambda>db. verifier_recovery (co_specs co) (gd_world (cd_gate db)) (rc_contract a) (rc_intent a)
        (rc_action a) (rc_kwargs a))) (\<lambda>out.
      bindS (on_recovery (\<lambda>db. recovery_resolve_verified_at db db (rv_recovery_id review)
        (Some (verification_of (co_crypto co) out)) (rc_clock a))) (\<lambda>resolved.
      bindS (record_evidence co (rv_recovery_id review) (at_attempt_id att) ''VERIFICATION_DECISION''
        [(''decision'', JStr (recovery_decision_value (rv_decision resolved))), (''outcome_id'', optional_text (rv_outcome_id resolved)),
         (''verifier_id'', optional_text (rv_verifier_id resolved))] (rc_clock a)) (\<lambda>_. retS resolved))))))"

abbreviation coord_error :: "string \<Rightarrow> exc" where
  "coord_error m \<equiv> Exc ExecutionRecoveryCoordinatorError m"

definition fresh_retry_grant :: "'w coordinator \<Rightarrow> retry_call \<Rightarrow> attempt \<Rightarrow> string \<Rightarrow> authority_db \<Rightarrow> signed_capability result" where
  "fresh_retry_grant co a att grant_id au =
    (case co_authorizer co of
       Some k \<Rightarrow> (case rc_signed_intent a of
           None \<Rightarrow> raise ExecutionRecoveryCoordinatorError ''signed_action_intent_required''
         | Some s \<Rightarrow> rescue (\<lambda>_. True) (\<lambda>_. coord_error ''retry_reauthorization_failed'')
             (retry_authorize (co_crypto co) k au att (rc_intent a) s (rc_ids a) (rc_now a) (rc_clock a)
               (Some grant_id) (if grant_id = [] then None else Some (''retry-nonce_'' @ grant_id)) (rc_tokens a)))
     | None \<Rightarrow> (case rc_reauthorize a of
           None \<Rightarrow> raise ExecutionRecoveryCoordinatorError ''reauthorizer_required''
         | Some f \<Rightarrow> rescue (\<lambda>_. True) (\<lambda>_. coord_error ''retry_reauthorization_failed'')
             (f att (rc_intent a) (rc_now a))))"

definition reauthorize_retry :: "'w coordinator \<Rightarrow> retry_call \<Rightarrow> attempt \<Rightarrow> string \<Rightarrow> ('w coord_db, signed_capability) op" where
  "reauthorize_retry co a att grant_id =
    bindS (readS (\<lambda>db. fresh_retry_grant co a att grant_id (gd_authority (cd_gate db)))) (\<lambda>sg.
    bindS (liftS (ensure (cg_grant_id (sc_grant sg) \<noteq> at_grant_id att) ExecutionRecoveryCoordinatorError
      ''retry_grant_must_be_new'')) (\<lambda>_.
    bindS (liftS (ensure (cg_task_id (sc_grant sg) = at_task_id att) ExecutionRecoveryCoordinatorError
      ''retry_grant_task_mismatch'')) (\<lambda>_.
    bindS (liftS (ensure (cg_intent_hash (sc_grant sg) = at_intent_hash att) ExecutionRecoveryCoordinatorError
      ''retry_grant_intent_mismatch'')) (\<lambda>_.
    (case co_gate co of
       None \<Rightarrow> failS ExecutionRecoveryCoordinatorError ''execution_gate_required''
     | Some ge \<Rightarrow>
         bindS (catchS ExecutionGateError ExecutionRecoveryCoordinatorError ''retry_reauthorization_failed''
           (on_gate (authorize ge (rc_now a) (rc_clock a) (Some sg) (rc_intent a) (rc_ids a)))) (\<lambda>_. retS sg))))))"

text \<open>The two decisions that end the original attempt without a retry.\<close>

definition close_original :: "'w coordinator \<Rightarrow> retry_call \<Rightarrow> recovery_review \<Rightarrow> attempt_state \<Rightarrow> string \<Rightarrow> string \<Rightarrow>
    ('w coord_db, unit) op" where
  "close_original co a review st err kind =
    bindS (read_attempt (rc_attempt_id a)) (\<lambda>current.
    bindS (if at_state current = RUNNING
           then catchS ExecutionAttemptError ExecutionRecoveryCoordinatorError ''recovery_terminalization_failed''
             (move_attempt (rc_attempt_id a) st (rc_time a) err)
           else retS ()) (\<lambda>_.
    record_evidence co (rv_recovery_id review) (rc_attempt_id a) kind
      [(''outcome_id'', optional_text (rv_outcome_id review)), (''verifier_id'', optional_text (rv_verifier_id review))] (rc_time a)))"

definition update_operation :: "recovery_review \<Rightarrow> string \<Rightarrow> string option \<Rightarrow> instant \<Rightarrow> string option \<Rightarrow>
    ('w coord_db, retry_operation option) op" where
  "update_operation review st attempt_id t token =
     on_recovery (\<lambda>db. update_retry_operation_at db db (rv_recovery_id review) st attempt_id t token)"

definition stored_retry_grant :: "'w coordinator \<Rightarrow> retry_call \<Rightarrow> string \<Rightarrow> ('w coord_db, signed_capability option) op" where
  "stored_retry_grant co a grant_id =
     readS (\<lambda>db. get_signed (signed_capability_of_json (co_crypto co) (rc_clock a)) (gd_grants (cd_gate db)) grant_id)"

definition gate_has_store :: "'w coordinator \<Rightarrow> bool" where
  "gate_has_store co = (case co_gate co of None \<Rightarrow> False | Some ge \<Rightarrow> ge_db ge)"

text \<open>
  The authority under which the retry runs: the stored grant of an AUTHORIZED operation, or
  a fresh one under a claim this call acquired. A claim of another worker whose grant is
  already stored is taken over.
\<close>

definition retry_authority :: "'w coordinator \<Rightarrow> retry_call \<Rightarrow> recovery_review \<Rightarrow> attempt \<Rightarrow> retry_operation \<Rightarrow> bool \<Rightarrow>
    ('w coord_db, signed_capability) op" where
  "retry_authority co a review current op created =
    bindS (if \<not> created \<and> op_state op = ''CLAIMED'' then
        (if gate_has_store co then
           bindS (stored_retry_grant co a (op_retry_grant_id op)) (\<lambda>persisted.
             if persisted = None then failS ExecutionRecoveryCoordinatorError ''retry_in_progress''
             else bindS (update_operation review ''AUTHORIZED'' None (rc_time a) (op_claim_token op)) (\<lambda>_. retS ''AUTHORIZED''))
         else failS ExecutionRecoveryCoordinatorError ''retry_in_progress'')
      else retS (op_state op)) (\<lambda>state.
    if state = ''AUTHORIZED'' then
      (if \<not> gate_has_store co then failS ExecutionRecoveryCoordinatorError ''retry_authorization_record_required''
       else bindS (stored_retry_grant co a (op_retry_grant_id op)) (\<lambda>stored. case stored of
           None \<Rightarrow> failS ExecutionRecoveryCoordinatorError ''retry_authorization_record_missing''
         | Some sg \<Rightarrow> retS sg))
    else
      bindS (reauthorize_retry co a current (op_retry_grant_id op)) (\<lambda>sg.
      bindS (update_operation review ''AUTHORIZED'' None (rc_time a) (op_claim_token op)) (\<lambda>_.
      bindS (record_evidence co (rv_recovery_id review) (rc_attempt_id a) ''RETRY_AUTHORIZED''
        [(''grant_id'', JStr (cg_grant_id (sc_grant sg))), (''outcome_id'', optional_text (rv_outcome_id review)),
         (''verifier_id'', optional_text (rv_verifier_id review))] (rc_time a)) (\<lambda>_. retS sg))))"

definition abort_original :: "'w coordinator \<Rightarrow> retry_call \<Rightarrow> recovery_review \<Rightarrow> ('w coord_db, attempt) op" where
  "abort_original co a review =
    bindS (read_attempt (rc_attempt_id a)) (\<lambda>current.
    bindS (if at_state current = RUNNING then
        catchS ExecutionAttemptError ExecutionRecoveryCoordinatorError ''original_attempt_close_failed''
          (bindS (move_attempt (rc_attempt_id a) ABORTED (rc_time a) ''recovery_verified_safe_to_retry'') (\<lambda>_.
             record_evidence co (rv_recovery_id review) (rc_attempt_id a) ''ORIGINAL_ABORTED''
               [(''reason'', JStr ''recovery_verified_safe_to_retry'')] (rc_time a)))
      else if at_state current \<noteq> ABORTED
      then failS ExecutionRecoveryCoordinatorError ''retry_requires_running_or_aborted_attempt''
      else retS ()) (\<lambda>_. retS current))"

definition record_retry :: "'w coordinator \<Rightarrow> retry_call \<Rightarrow> recovery_review \<Rightarrow> signed_capability \<Rightarrow> attempt \<Rightarrow> ('w coord_db, attempt) op" where
  "record_retry co a review sg r =
    bindS (update_operation review ''CREATED'' (Some (at_attempt_id r)) (rc_time a) None) (\<lambda>_.
    bindS (record_evidence co (rv_recovery_id review) (rc_attempt_id a) ''RETRY_CREATED''
      [(''grant_id'', JStr (cg_grant_id (sc_grant sg))), (''retry_attempt_id'', JStr (at_attempt_id r))] (rc_time a)) (\<lambda>_. retS r))"

definition create_retry :: "'w coordinator \<Rightarrow> retry_call \<Rightarrow> recovery_review \<Rightarrow> signed_capability \<Rightarrow> attempt \<Rightarrow> ('w coord_db, attempt) op" where
  "create_retry co a review sg current =
    bindS (readS (\<lambda>db. Inr (find_by_grant_id (gd_attempts (cd_gate db)) (cg_grant_id (sc_grant sg))))) (\<lambda>existing.
    case existing of
      Some r \<Rightarrow> record_retry co a review sg r
    | None \<Rightarrow> catchS ExecutionAttemptError ExecutionRecoveryCoordinatorError ''retry_attempt_create_failed''
        (bindS (on_gate (commitS (\<lambda>db. bindR (attempt_create (gd_attempts db) (rc_create_hex a) (at_task_id current)
             (cg_grant_id (sc_grant sg)) (at_intent_hash current) (at_idempotency_key current) (rc_time a) True)
             (\<lambda>(r, as). Inr (r, db\<lparr>gd_attempts := as\<rparr>))))) (\<lambda>r. record_retry co a review sg r)))"

definition retry_under_claim :: "'w coordinator \<Rightarrow> retry_call \<Rightarrow> recovery_review \<Rightarrow> ('w coord_db, attempt) op" where
  "retry_under_claim co a review =
    bindS (read_attempt (rc_attempt_id a)) (\<lambda>current.
    bindS (on_recovery (\<lambda>db. claim_retry db review (rc_claim_hex a) (rc_time a))) (\<lambda>(op, created).
    if (op_state op = ''CREATED'' \<or> op_state op = ''AUTHORIZED'') \<and> given_or (op_retry_attempt_id op) [] \<noteq> []
    then read_attempt (given_or (op_retry_attempt_id op) [])
    else bindS (retry_authority co a review current op created) (\<lambda>sg.
      bindS (abort_original co a review) (\<lambda>current'. create_retry co a review sg current'))))"

text \<open>\<^verbatim>\<open>retry_if_safe\<close>: None unless the verified decision is SAFE_TO_RETRY.\<close>

definition retry_if_safe :: "'w coordinator \<Rightarrow> retry_call \<Rightarrow> ('w coord_db, attempt option) op" where
  "retry_if_safe co a =
    bindS (read_attempt (rc_attempt_id a)) (\<lambda>att.
    bindS (readS (\<lambda>db. Inr (recovery_get_by_attempt (cd_recovery db) (rc_attempt_id a)))) (\<lambda>stored.
    bindS (case stored of
        None \<Rightarrow> coord_review co a
      | Some r \<Rightarrow> if rv_decision r = UNKNOWN then coord_review co a else retS r) (\<lambda>review.
    (case rv_decision review of
       SIDE_EFFECT_CONFIRMED \<Rightarrow>
         bindS (close_original co a review RECOVERED ''recovery_verified_side_effect_confirmed'' ''SIDE_EFFECT_CONFIRMED'') (\<lambda>_. retS None)
     | QUARANTINED \<Rightarrow>
         bindS (close_original co a review ABORTED ''recovery_quarantined'' ''QUARANTINED'') (\<lambda>_. retS None)
     | UNKNOWN \<Rightarrow> retS None
     | SAFE_TO_RETRY \<Rightarrow> bindS (retry_under_claim co a review) (\<lambda>r. retS (Some r))))))"

section \<open>The sweep over stale attempts\<close>

text \<open>
  What the context factory returns for a candidate: not a dict, a dict without the required
  keys, or the arguments of the retry and whether they contain their own \<^verbatim>\<open>now\<close>.
\<close>

datatype recovery_context = NotADict | IncompleteContext | RecoveryContext retry_call bool

definition context_call :: "instant option \<Rightarrow> attempt \<Rightarrow> recovery_context \<Rightarrow> retry_call result" where
  "context_call now att ctx = (case ctx of
      NotADict \<Rightarrow> raise ExecutionRecoveryCoordinatorError ''recovery_context_required''
    | IncompleteContext \<Rightarrow> raise ExecutionRecoveryCoordinatorError ''recovery_context_incomplete''
    | RecoveryContext a own \<Rightarrow> Inr (if own then a\<lparr>rc_attempt_id := at_attempt_id att\<rparr>
        else a\<lparr>rc_attempt_id := at_attempt_id att, rc_now := now\<rparr>))"

text \<open>A candidate that is no longer ambiguous is skipped, any other recovery error is raised.\<close>

definition recover_candidate :: "'w coordinator \<Rightarrow> instant option \<Rightarrow> (attempt \<Rightarrow> recovery_context) \<Rightarrow> attempt \<Rightarrow>
    ('w coord_db, attempt option) op" where
  "recover_candidate co now contexts att =
    bindS (liftS (context_call now att (contexts att))) (\<lambda>a.
    tryS (retry_if_safe co a) (\<lambda>e.
      if exc_cls e = ExecutionRecoveryError then
        bindS (read_attempt (at_attempt_id att)) (\<lambda>current.
          if at_state current \<noteq> RUNNING \<or> given_or (at_receipt_id current) [] \<noteq> [] then retS None else raiseS e)
      else raiseS e))"

fun recover_candidates :: "'w coordinator \<Rightarrow> instant option \<Rightarrow> (attempt \<Rightarrow> recovery_context) \<Rightarrow> attempt list \<Rightarrow>
    ('w coord_db, (string \<times> attempt option) list) op" where
  "recover_candidates co now contexts [] = retS []"
| "recover_candidates co now contexts (att # atts) =
    bindS (recover_candidate co now contexts att) (\<lambda>r.
    bindS (recover_candidates co now contexts atts) (\<lambda>rest. retS ((at_attempt_id att, r) # rest)))"

definition recover_stale_attempts :: "'w coordinator \<Rightarrow> instant option \<Rightarrow> instant \<Rightarrow> int \<Rightarrow> (attempt \<Rightarrow> recovery_context) \<Rightarrow>
    ('w coord_db, (string \<times> attempt option) list) op" where
  "recover_stale_attempts co now clock limit contexts =
    bindS (readS (\<lambda>db. find_stale_running (gd_attempts (cd_gate db)) (case now of None \<Rightarrow> clock | Some t \<Rightarrow> t) (Some limit)))
      (recover_candidates co now contexts)"

end
