(* ===== verification/Hoare.thy ===== *)
theory Hoare
  imports Prelude
begin

text \<open>
  Weakest preconditions of operations. \<open>wp m Q E s\<close>: run from \<open>s\<close>, the operation \<open>m\<close> either
  returns a value and a state that satisfy \<open>Q\<close> or raises in a state that satisfies \<open>E\<close>.
  The equations compute it for composed handlers; an operation with a specification of its
  own gets a rule that continues with the facts it establishes.
\<close>

definition wp :: "('s, 'a) op \<Rightarrow> ('a \<Rightarrow> 's \<Rightarrow> bool) \<Rightarrow> ('s \<Rightarrow> bool) \<Rightarrow> 's \<Rightarrow> bool" where
  "wp m Q E s \<longleftrightarrow> (case m s of (Inl e, s') \<Rightarrow> E s' | (Inr x, s') \<Rightarrow> Q x s')"

lemma wpI: "(\<And>e s'. m s = (Inl e, s') \<Longrightarrow> E s') \<Longrightarrow> (\<And>x s'. m s = (Inr x, s') \<Longrightarrow> Q x s') \<Longrightarrow> wp m Q E s"
  by (auto simp: wp_def split: prod.splits sum.splits)

lemma wp_returns: "wp m Q E s \<Longrightarrow> m s = (Inr x, s') \<Longrightarrow> Q x s'"
  by (simp add: wp_def)

lemma wp_raises: "wp m Q E s \<Longrightarrow> m s = (Inl e, s') \<Longrightarrow> E s'"
  by (simp add: wp_def)

lemma wp_mono:
  "wp m Q E s \<Longrightarrow> (\<And>x s'. Q x s' \<Longrightarrow> Q' x s') \<Longrightarrow> (\<And>s'. E s' \<Longrightarrow> E' s') \<Longrightarrow> wp m Q' E' s"
  by (auto simp: wp_def split: prod.splits sum.splits)

named_theorems wp_simps \<open>equations of weakest preconditions\<close>

lemma wp_retS [wp_simps]: "wp (retS x) Q E = Q x"
  by (simp add: wp_def fun_eq_iff)

lemma wp_failS [wp_simps]: "wp (failS c m) Q E = E"
  by (simp add: wp_def fun_eq_iff)

lemma wp_raiseS [wp_simps]: "wp (raiseS e) Q E = E"
  by (simp add: wp_def fun_eq_iff)

lemma wp_bindS [wp_simps]: "wp (bindS m f) Q E = wp m (\<lambda>x. wp (f x) Q E) E"
  by (auto simp: wp_def fun_eq_iff bindS_def split: prod.splits sum.splits)

lemma wp_readS [wp_simps]: "wp (readS f) Q E s = (case f s of Inl _ \<Rightarrow> E s | Inr x \<Rightarrow> Q x s)"
  by (simp add: wp_def split: sum.splits)

lemma wp_liftS [wp_simps]: "wp (liftS r) Q E s = (case r of Inl _ \<Rightarrow> E s | Inr x \<Rightarrow> Q x s)"
  by (simp add: wp_def split: sum.splits)

lemma wp_commitS [wp_simps]: "wp (commitS f) Q E s = (case f s of Inl _ \<Rightarrow> E s | Inr (x, s') \<Rightarrow> Q x s')"
  by (auto simp: wp_def commitS_def split: sum.splits)

lemma wp_catchS [wp_simps]: "wp (catchS c c' msg m) Q E = wp m Q E"
  by (auto simp: wp_def fun_eq_iff catchS_def split: prod.splits sum.splits)

lemma wp_if [wp_simps]: "wp (if b then m else m') Q E s = (if b then wp m Q E s else wp m' Q E s)"
  by simp

lemma wp_readI: "(\<And>x. f s = Inr x \<Longrightarrow> Q x s) \<Longrightarrow> E s \<Longrightarrow> wp (readS f) Q E s"
  by (auto simp: wp_simps split: sum.splits)

lemma wp_liftI: "(\<And>x. r = Inr x \<Longrightarrow> Q x s) \<Longrightarrow> E s \<Longrightarrow> wp (liftS r) Q E s"
  by (auto simp: wp_simps split: sum.splits)

lemma wp_commitI: "(\<And>x s'. f s = Inr (x, s') \<Longrightarrow> Q x s') \<Longrightarrow> E s \<Longrightarrow> wp (commitS f) Q E s"
  by (auto simp: wp_simps split: sum.splits)

text \<open>What an operation keeps, it keeps on both exits.\<close>

lemma wp_preserves: "preserves I m \<Longrightarrow> I s \<Longrightarrow> (\<And>x s'. I s' \<Longrightarrow> Q x s') \<Longrightarrow> (\<And>s'. I s' \<Longrightarrow> E s') \<Longrightarrow> wp m Q E s"
  using preservesD [of I m s] by (auto simp: wp_def split: prod.splits sum.splits)

end
