(* ===== verification/CoordinatorRuns.thy ===== *)
theory CoordinatorRuns
  imports Coordinator ExecutionGateRuns Hoare
begin

text \<open>
  Correctness of the recovery coordinator
  (\<^verbatim>\<open>src/shared/execution_recovery_coordinator.py\<close>). The first part specifies every
  store call it makes, the second proves what one call of \<^verbatim>\<open>retry_if_safe\<close> can do, on every
  exit, and the third that a recovered attempt is retried at most once in every history.
\<close>

section \<open>Invariants of the recovery tables\<close>

definition operations_ok :: "recovery_db \<Rightarrow> bool" where
  "operations_ok r \<longleftrightarrow> recovery_inv r \<and> verdicts_named r \<and>
     (\<forall>x \<in> set (rec_operations r). op_state x \<noteq> ''CREATED'' \<longrightarrow> op_retry_attempt_id x = None)"

text \<open>A retry that exists stays as it is recorded.\<close>

definition created_stay :: "recovery_db \<Rightarrow> recovery_db \<Rightarrow> bool" where
  "created_stay r r' \<longleftrightarrow> (\<forall>x \<in> set (rec_operations r). op_state x = ''CREATED'' \<longrightarrow> x \<in> set (rec_operations r'))"

lemma created_stay_refl [simp]: "created_stay r r"
  by (simp add: created_stay_def)

lemma created_stay_update:
  "(\<And>x. p x \<Longrightarrow> op_state x \<noteq> ''CREATED'') \<Longrightarrow> created_stay r (r\<lparr>rec_operations := update_where p f (rec_operations r)\<rparr>)"
  by (force simp: created_stay_def update_where_def)

lemma open_keeps:
  assumes "operations_ok r" and "recovery_open_at r r a hex now = Inr (review, r')"
  shows "operations_ok r'" and "recovery_evolve r r'" and "created_stay r r'"
proof -
  have inv: "recovery_inv r" using assms(1) by (simp add: operations_ok_def)
  have "rec_operations r' = rec_operations r" using recovery_open_at_Inr(2) [OF assms(2)] by auto
  with assms(1) recovery_open_at_inv [OF inv assms(2)] open_named [OF assms(2)]
  show "operations_ok r'" "recovery_evolve r r'" "created_stay r r'"
    by (auto simp: operations_ok_def created_stay_def)
qed

lemma resolve_keeps:
  assumes "operations_ok r" and "recovery_resolve_verified_at r r i v now = Inr (review, r')"
  shows "operations_ok r'" and "recovery_evolve r r'" and "created_stay r r'"
proof -
  have inv: "recovery_inv r" using assms(1) by (simp add: operations_ok_def)
  obtain d vf oc where "recovery_resolve_at r r i (recovery_decision_value d) (Some vf) (Some oc) (Some ''independent_outcome_verification'') now =
      Inr (review, r')"
    by (rule recovery_resolve_verified_at_Inr [OF assms(2)])
  then have "rec_operations r' = rec_operations r" by (rule recovery_resolve_at_Inr) simp
  with assms(1) recovery_resolve_verified_at_inv [OF inv assms(2)] resolve_verified_named [OF assms(2)]
  show "operations_ok r'" "recovery_evolve r r'" "created_stay r r'"
    by (auto simp: operations_ok_def created_stay_def)
qed

lemma claim_keeps:
  assumes "operations_ok r" and "claim_retry r review hex now = Inr ((row, acquired), r')"
  shows "operations_ok r'" and "recovery_evolve r r'" and "created_stay r r'" and "rec_reviews r' = rec_reviews r"
proof -
  have inv: "recovery_inv r" using assms(1) by (simp add: operations_ok_def)
  have "(\<forall>x \<in> set (rec_operations r'). op_state x \<noteq> ''CREATED'' \<longrightarrow> op_retry_attempt_id x = None) \<and> created_stay r r' \<and>
      rec_reviews r' = rec_reviews r"
    using claim_retry_Inr(3) [OF assms(2)]
  proof (elim disjE exE conjE)
    assume "r' = r\<lparr>rec_operations := rec_operations r @ [new_operation review (''claim_'' @ hex) now]\<rparr>"
    with assms(1) show ?thesis by (auto simp: operations_ok_def created_stay_def new_operation_def)
  next
    fix old
    assume "let hit = (\<lambda>x. op_recovery_id x = rv_recovery_id review \<and> op_state x = ''CLAIMED'' \<and>
        sql_eq (op_lease_expires_at x) (op_lease_expires_at old)) in
      r' = r\<lparr>rec_operations := update_where hit (claimed_row (''claim_'' @ hex) now) (rec_operations r)\<rparr> \<and>
      acquired = (count_where hit (rec_operations r) = 1)"
    then have r': "r' = r\<lparr>rec_operations := update_where (\<lambda>x. op_recovery_id x = rv_recovery_id review \<and> op_state x = ''CLAIMED'' \<and>
        sql_eq (op_lease_expires_at x) (op_lease_expires_at old)) (claimed_row (''claim_'' @ hex) now) (rec_operations r)\<rparr>"
      by (simp add: Let_def)
    have "op_retry_attempt_id (claimed_row t n x) = op_retry_attempt_id x" for t n x by (simp add: claimed_row_def)
    with assms(1) show ?thesis unfolding r'
      by (intro conjI created_stay_update) (auto simp: operations_ok_def elim!: set_update_whereE)
  qed (use assms(1) in \<open>auto simp: operations_ok_def\<close>)
  with claim_retry_inv [OF inv assms(2)] show "operations_ok r'" "recovery_evolve r r'" "created_stay r r'" "rec_reviews r' = rec_reviews r"
    using assms(1) by (auto simp: operations_ok_def verdicts_named_def)
qed

lemma update_keeps:
  assumes "operations_ok r" and "update_retry_operation_at r r i s ra now token = Inr (res, r')"
    and "ra = None \<or> s = ''CREATED''"
  shows "operations_ok r'" and "recovery_evolve r r'" and "created_stay r r'" and "rec_reviews r' = rec_reviews r"
proof -
  have inv: "recovery_inv r" using assms(1) by (simp add: operations_ok_def)
  have "(\<forall>x \<in> set (rec_operations r'). op_state x \<noteq> ''CREATED'' \<longrightarrow> op_retry_attempt_id x = None) \<and> created_stay r r' \<and>
      rec_reviews r' = rec_reviews r"
    using assms(2)
  proof (cases rule: update_retry_operation_at_Inr)
    case same
    with assms(1) show ?thesis by (simp add: operations_ok_def)
  next
    case (moved current)
    have "op_retry_attempt_id (updated_operation s ra now x) = (if ra = None then op_retry_attempt_id x else ra)" for x
      by (simp add: updated_operation_def)
    with assms(1,3) moved(2) show ?thesis unfolding moved(6)
      by (intro conjI created_stay_update) (auto simp: operations_ok_def retry_allowed_def elim!: set_update_whereE)
  qed
  with update_retry_operation_at_inv [OF inv assms(2)]
  show "operations_ok r'" "recovery_evolve r r'" "created_stay r r'" "rec_reviews r' = rec_reviews r"
    using assms(1) by (auto simp: operations_ok_def verdicts_named_def)
qed

text \<open>After an update that returned, the operation is in the state it was asked for.\<close>

lemma update_reaches:
  assumes "operations_ok r" and "update_retry_operation_at r r i s ra now token = Inr (res, r')"
  obtains row where "get_retry_operation r' i = Some row" and "op_state row = s"
proof -
  show thesis
    using assms(2)
  proof (cases rule: update_retry_operation_at_Inr)
    case same
    from assms(2) obtain row where row: "get_retry_operation r i = Some row"
      by (auto simp: update_retry_operation_at_def split: option.splits)
    show thesis
    proof (cases "op_state row = s")
      case True
      with row same that show thesis by blast
    next
      case False
      let ?hit = "\<lambda>x. op_recovery_id x = i \<and> op_state x = op_state row"
      let ?f = "\<lambda>x. x\<lparr>op_state := s, op_retry_attempt_id := (if ra = None then op_retry_attempt_id x else ra),
                       op_updated_at := now, op_claim_token := None, op_lease_expires_at := None\<rparr>"
      from assms(2) False row have "r' = r\<lparr>rec_operations := update_where ?hit ?f (rec_operations r)\<rparr>"
        by (auto simp: update_retry_operation_at_def Let_def split: if_splits)
      moreover have "get_retry_operation (r\<lparr>rec_operations := update_where ?hit ?f (rec_operations r)\<rparr>) i = Some (?f row)"
        using row by (auto simp: get_retry_operation_def table_simps dest: lookup_row_SomeD)
      ultimately show thesis using that by simp
    qed
  next
    case (moved current)
    then have "get_retry_operation r' i = Some (updated_operation s ra now current)"
      by (auto simp: get_retry_operation_def table_simps dest: lookup_row_SomeD)
    with that show thesis by simp
  qed
qed

lemma update_creates:
  assumes "operations_ok r" and "get_retry_operation r i = Some row" and "op_state row = ''AUTHORIZED''" and "\<not> blank n"
  obtains res r' where "update_retry_operation_at r r i ''CREATED'' (Some n) now token = Inr (res, r')"
    and "get_retry_operation r' i = Some (updated_operation ''CREATED'' (Some n) now row)"
proof -
  have uniq: "key_unique op_recovery_id (rec_operations r)" using assms(1) by (simp add: operations_ok_def recovery_inv_def)
  have hit: "count_where (\<lambda>x. op_recovery_id x = i \<and> op_state x = ''AUTHORIZED'') (rec_operations r) = 1"
    using count_where_key [OF uniq, of i "\<lambda>x. op_state x = ''AUTHORIZED''"] assms(2,3) by (simp add: get_retry_operation_def)
  let ?r = "r\<lparr>rec_operations := update_where (\<lambda>x. op_recovery_id x = i \<and> op_state x = ''AUTHORIZED'')
      (updated_operation ''CREATED'' (Some n) now) (rec_operations r)\<rparr>"
  have "update_retry_operation_at r r i ''CREATED'' (Some n) now token = Inr (get_retry_operation ?r i, ?r)"
    using assms(2-4) hit
    by (simp add: update_retry_operation_at_def retry_allowed_def Let_def updated_operation_def [abs_def])
  moreover have "get_retry_operation ?r i = Some (updated_operation ''CREATED'' (Some n) now row)"
    using assms(2,3) by (auto simp: get_retry_operation_def table_simps dest: lookup_row_SomeD)
  ultimately show ?thesis using that by blast
qed

section \<open>A recorded retry\<close>

text \<open>
  The attempt \<open>i\<close> has been reviewed as safe to retry, by a named verifier with an outcome
  id, and the attempt \<open>n\<close> is recorded as its retry.
\<close>

definition retried_as :: "string \<Rightarrow> string \<Rightarrow> recovery_db \<Rightarrow> bool" where
  "retried_as i n r \<longleftrightarrow> (\<exists>review row. recovery_get_by_attempt r i = Some review \<and> rv_decision review = SAFE_TO_RETRY \<and>
     present (rv_verifier_id review) \<and> present (rv_outcome_id review) \<and>
     get_retry_operation r (rv_recovery_id review) = Some row \<and> op_state row = ''CREATED'' \<and>
     op_retry_attempt_id row = Some n \<and> \<not> blank n)"

text \<open>The review of \<open>i\<close> and its operation in the given state.\<close>

definition reviewed_safe :: "string \<Rightarrow> recovery_review \<Rightarrow> recovery_db \<Rightarrow> bool" where
  "reviewed_safe i review r \<longleftrightarrow> recovery_get_by_attempt r i = Some review \<and> rv_decision review = SAFE_TO_RETRY"

definition authorised :: "string \<Rightarrow> recovery_review \<Rightarrow> recovery_db \<Rightarrow> bool" where
  "authorised i review r \<longleftrightarrow> reviewed_safe i review r \<and>
     (\<exists>row. get_retry_operation r (rv_recovery_id review) = Some row \<and> op_state row = ''AUTHORIZED'')"

lemma reviewed_safe_verified:
  assumes "operations_ok r" and "reviewed_safe i review r"
  shows "present (rv_verifier_id review)" and "present (rv_outcome_id review)"
proof -
  from assms have "review_wf review"
    by (auto simp: operations_ok_def verdicts_named_def reviewed_safe_def recovery_get_by_attempt_def dest: lookup_row_SomeD)
  with assms(2) show "present (rv_verifier_id review)" "present (rv_outcome_id review)"
    by (simp_all add: review_wf_def reviewed_safe_def)
qed

lemma reviewed_safe_reviews:
  "reviewed_safe i review r \<Longrightarrow> rec_reviews r' = rec_reviews r \<Longrightarrow> reviewed_safe i review r'"
  by (simp add: reviewed_safe_def recovery_get_by_attempt_def)

lemma evolve_decided_review:
  assumes "recovery_inv r'" and "recovery_evolve r r'" and "recovery_get_by_attempt r i = Some review"
    and "rv_decision review \<noteq> UNKNOWN"
  shows "recovery_get_by_attempt r' i = Some review"
proof -
  from assms(3) have rv: "review \<in> set (rec_reviews r)" "rv_attempt_id review = i"
    by (auto simp: recovery_get_by_attempt_def dest: lookup_row_SomeD)
  with assms(2) obtain review' where "review' \<in> set (rec_reviews r')" "review_evolves review review'"
    unfolding recovery_evolve_def by blast
  with assms(4) have "review \<in> set (rec_reviews r')" by (auto simp: review_evolves_def)
  with assms(1) rv(2) show ?thesis
    by (auto simp: recovery_inv_def recovery_get_by_attempt_def lookup_row_iff)
qed

lemma retried_as_stays:
  assumes "retried_as i n r" and "operations_ok r'" and "recovery_evolve r r'" and "created_stay r r'"
  shows "retried_as i n r'"
proof -
  from assms(1) obtain review row where 1: "recovery_get_by_attempt r i = Some review" "rv_decision review = SAFE_TO_RETRY"
    "present (rv_verifier_id review)" "present (rv_outcome_id review)"
    "get_retry_operation r (rv_recovery_id review) = Some row" "op_state row = ''CREATED''"
    "op_retry_attempt_id row = Some n" "\<not> blank n" by (auto simp: retried_as_def)
  have inv: "recovery_inv r'" using assms(2) by (simp add: operations_ok_def)
  from 1(1,2) evolve_decided_review [OF inv assms(3)] have "recovery_get_by_attempt r' i = Some review" by simp
  moreover from 1(5,6) assms(4) have "row \<in> set (rec_operations r')" "op_recovery_id row = rv_recovery_id review"
    by (auto simp: created_stay_def get_retry_operation_def dest: lookup_row_SomeD)
  with inv have "get_retry_operation r' (rv_recovery_id review) = Some row"
    by (auto simp: recovery_inv_def get_retry_operation_def lookup_row_iff)
  ultimately show ?thesis using 1 by (auto simp: retried_as_def)
qed

lemma created_is_retried:
  assumes "operations_ok r" and "reviewed_safe i review r" and "get_retry_operation r (rv_recovery_id review) = Some row"
    and "op_state row = ''CREATED''"
  obtains n where "op_retry_attempt_id row = Some n" and "retried_as i n r"
proof -
  from assms(1,3) have "operation_wf row"
    by (auto simp: operations_ok_def recovery_inv_def get_retry_operation_def dest: lookup_row_SomeD)
  with assms(4) obtain n where "op_retry_attempt_id row = Some n" "\<not> blank n"
    by (auto simp: operation_wf_def present_def split: option.splits)
  with assms reviewed_safe_verified [OF assms(1,2)] that show ?thesis
    by (auto simp: retried_as_def reviewed_safe_def)
qed

section \<open>One call\<close>

definition coord_inv :: "'w coordinator \<Rightarrow> 'w coord_db \<Rightarrow> bool" where
  "coord_inv co db \<longleftrightarrow> gate_inv (cd_gate db) \<and> operations_ok (cd_recovery db) \<and>
     evidence_inv (cr_sha256 (co_crypto co)) (cd_evidence db)"

text \<open>
  What has happened since \<open>db0\<close> as long as no retry was created: the tables are consistent,
  the world is untouched, no attempt was added, and of the attempts only \<open>i\<close> may have
  moved, forward along the state machine.
\<close>

definition no_retry_yet :: "'w coordinator \<Rightarrow> string \<Rightarrow> 'w coord_db \<Rightarrow> 'w coord_db \<Rightarrow> bool" where
  "no_retry_yet co i db0 db \<longleftrightarrow> coord_inv co db \<and> gd_world (cd_gate db) = gd_world (cd_gate db0) \<and>
     map at_attempt_id (gd_attempts (cd_gate db)) = map at_attempt_id (gd_attempts (cd_gate db0)) \<and>
     attempts_evolve (gd_attempts (cd_gate db0)) (gd_attempts (cd_gate db)) \<and>
     {x \<in> set (gd_attempts (cd_gate db)). at_attempt_id x \<noteq> i} = {x \<in> set (gd_attempts (cd_gate db0)). at_attempt_id x \<noteq> i}"

lemma no_retry_yet_refl: "coord_inv co db \<Longrightarrow> no_retry_yet co i db db"
  by (simp add: no_retry_yet_def)

lemma no_retry_yet_inv: "no_retry_yet co i db0 db \<Longrightarrow> coord_inv co db"
  by (simp add: no_retry_yet_def)

lemma wp_gate_commit:
  "wp (on_gate (commitS f)) Q E db = (case f (cd_gate db) of Inl _ \<Rightarrow> E db | Inr (x, g) \<Rightarrow> Q x (db\<lparr>cd_gate := g\<rparr>))"
  by (auto simp: wp_def on_gate_def commitS_def split: sum.splits prod.splits)

text \<open>Rules of the store calls, in the state \<open>no_retry_yet\<close>.\<close>

lemma wp_read_attempt:
  assumes "\<And>x. lookup_row at_attempt_id (gd_attempts (cd_gate db)) j = Some x \<Longrightarrow> Q x db" and "E db"
  shows "wp (read_attempt j) Q E db"
  unfolding read_attempt_def
  by (rule wp_readI) (use assms in \<open>auto simp: attempt_get_def split: option.splits\<close>)

lemma wp_evidence:
  assumes "no_retry_yet co i db0 db" and "\<And>db'. no_retry_yet co i db0 db' \<Longrightarrow> E db'"
    and "\<And>ev. no_retry_yet co i db0 (db\<lparr>cd_evidence := ev\<rparr>) \<Longrightarrow> Q () (db\<lparr>cd_evidence := ev\<rparr>)"
  shows "wp (record_evidence co rid aid kind payload t) Q E db"
  unfolding record_evidence_def
  by (rule wp_commitI)
    (use assms in \<open>auto simp: bindR_Inr_iff no_retry_yet_def coord_inv_def dest: evidence_append_inv\<close>)

lemma wp_recovery:
  assumes "no_retry_yet co i db0 db" and "\<And>db'. no_retry_yet co i db0 db' \<Longrightarrow> E db'"
    and "\<And>x r. f (cd_recovery db) = Inr (x, r) \<Longrightarrow> operations_ok r"
    and "\<And>x r. f (cd_recovery db) = Inr (x, r) \<Longrightarrow> no_retry_yet co i db0 (db\<lparr>cd_recovery := r\<rparr>) \<Longrightarrow> Q x (db\<lparr>cd_recovery := r\<rparr>)"
  shows "wp (on_recovery f) Q E db"
  unfolding on_recovery_def
  by (rule wp_commitI) (use assms in \<open>auto simp: bindR_Inr_iff no_retry_yet_def coord_inv_def\<close>)

text \<open>Two rows of one attempt agree on the work they stand for.\<close>

definition same_work :: "attempt \<Rightarrow> attempt \<Rightarrow> bool" where
  "same_work x y \<longleftrightarrow> at_task_id x = at_task_id y \<and> at_intent_hash x = at_intent_hash y \<and>
     at_idempotency_key x = at_idempotency_key y"

lemma wp_move:
  assumes quiet: "no_retry_yet co i db0 db" and E: "\<And>db'. no_retry_yet co i db0 db' \<Longrightarrow> E db'"
    and Q: "\<And>as r. no_retry_yet co i db0 (db\<lparr>cd_gate := (cd_gate db)\<lparr>gd_attempts := as\<rparr>\<rparr>) \<Longrightarrow>
      lookup_row at_attempt_id as i = Some r \<Longrightarrow> at_state r = st \<Longrightarrow>
      (\<And>cur. lookup_row at_attempt_id (gd_attempts (cd_gate db)) i = Some cur \<Longrightarrow> same_work r cur) \<Longrightarrow>
      Q () (db\<lparr>cd_gate := (cd_gate db)\<lparr>gd_attempts := as\<rparr>\<rparr>)"
  shows "wp (move_attempt i st t err) Q E db"
proof -
  have "wp (on_gate (gate_transition i (attempt_state_value st) t (no_args\<lparr>targ_error := err\<rparr>))) (\<lambda>_. Q ()) E db"
  proof (rule wpI)
    fix e s' assume "on_gate (gate_transition i (attempt_state_value st) t (no_args\<lparr>targ_error := err\<rparr>)) db = (Inl e, s')"
    then have "s' = db" by (auto simp: on_gate_def gate_transition_def commitS_def split: prod.splits sum.splits)
    with E [OF quiet] show "E s'" by simp
  next
    fix x s' assume "on_gate (gate_transition i (attempt_state_value st) t (no_args\<lparr>targ_error := err\<rparr>)) db = (Inr x, s')"
    then obtain g where "gate_transition i (attempt_state_value st) t (no_args\<lparr>targ_error := err\<rparr>) (cd_gate db) = (Inr x, g)"
      and s': "s' = db\<lparr>cd_gate := g\<rparr>" by (auto simp: on_gate_def split: prod.splits)
    then obtain as where tr: "attempt_transition (gd_attempts (cd_gate db)) i (attempt_state_value st) t (no_args\<lparr>targ_error := err\<rparr>) = Inr (x, as)"
      and g: "g = (cd_gate db)\<lparr>gd_attempts := as\<rparr>" by (auto simp: gate_transition_Inr)
    have inv: "attempts_inv (gd_attempts (cd_gate db))"
      using quiet by (simp add: no_retry_yet_def coord_inv_def gate_inv_def)
    from attempt_transition_at_inv [OF inv attempts_evolve_refl tr [unfolded attempt_transition_def]]
    have inv': "attempts_inv as" and ev: "attempts_evolve (gd_attempts (cd_gate db)) as" .
    from inv attempts_evolve_refl tr [unfolded attempt_transition_def] obtain new cur where
      new: "parse_attempt_state (attempt_state_value st) = Some new"
      and cur: "lookup_row at_attempt_id (gd_attempts (cd_gate db)) i = Some cur"
      and as: "as = update_where (\<lambda>y. at_attempt_id y = i) (transition_row cur new t (no_args\<lparr>targ_error := err\<rparr>)) (gd_attempts (cd_gate db))"
      and x: "x = transition_row cur new t (no_args\<lparr>targ_error := err\<rparr>) cur"
      by (rule attempt_transition_at_row) blast
    have "{x \<in> set as. at_attempt_id x \<noteq> i} = {x \<in> set (gd_attempts (cd_gate db)). at_attempt_id x \<noteq> i}"
      by (auto simp: as update_where_def)
    with quiet inv' attempts_evolve_trans [OF _ ev] as
    have "no_retry_yet co i db0 s'" by (simp add: no_retry_yet_def coord_inv_def gate_inv_def s' g)
    moreover have "lookup_row at_attempt_id as i = Some x" "at_state x = st"
      using cur new by (auto simp: as x table_simps dest: lookup_row_SomeD)
    moreover have "same_work x cur" by (simp add: x same_work_def transition_row_def)
    ultimately show "Q () s'" using Q cur unfolding s' g by auto
  qed
  then show ?thesis by (simp add: move_attempt_def wp_simps)
qed

lemma wp_authorize:
  assumes quiet: "no_retry_yet co i db0 db"
    and E: "\<And>db'. no_retry_yet co i db0 db' \<Longrightarrow> E db'"
    and Q: "\<And>x g. no_retry_yet co i db0 (db\<lparr>cd_gate := g\<rparr>) \<Longrightarrow> Q x (db\<lparr>cd_gate := g\<rparr>)"
  shows "wp (on_gate (authorize ge now clock signed ai ids)) Q E db"
proof -
  let ?g = "snd (authorize ge now clock signed ai ids (cd_gate db))"
  have inv: "gate_inv (cd_gate db)" using quiet by (simp add: no_retry_yet_def coord_inv_def)
  have "preserves (\<lambda>g. gd_attempts g = gd_attempts (cd_gate db)) (authorize ge now clock signed ai ids)"
    unfolding authorize_def gate_register_def by (intro preserves_intros) (auto simp: bindR_Inr_iff)
  then have "gd_attempts ?g = gd_attempts (cd_gate db)" by (rule preservesD) simp
  moreover have "store_keeps (cd_gate db) ?g" by (rule preservesD [OF keeps_authorize store_keeps_refl [OF inv]])
  ultimately have "no_retry_yet co i db0 (db\<lparr>cd_gate := ?g\<rparr>)"
    using quiet by (simp add: no_retry_yet_def coord_inv_def store_keeps_def)
  with E Q [of ?g] show ?thesis by (auto simp: wp_def on_gate_def split: prod.splits sum.splits)
qed

text \<open>The review that \<^verbatim>\<open>open\<close> returns and the one that \<^verbatim>\<open>resolve\<close> returns are stored.\<close>

lemma opened_is_stored:
  assumes "operations_ok r" and "recovery_open_at r r a hex now = Inr (review, r')"
  shows "recovery_get_by_attempt r' (at_attempt_id a) = Some review"
  using assms(2)
  by (auto simp: recovery_open_at_def Let_def recovery_get_by_attempt_def table_simps new_review_def split: if_splits option.splits)

lemma resolved_is_stored:
  assumes "operations_ok r" and "recovery_get_by_attempt r i = Some review"
    and "recovery_resolve_verified_at r r (rv_recovery_id review) v now = Inr (review', r')"
  shows "recovery_get_by_attempt r' i = Some review'"
proof -
  have inv: "recovery_inv r" using assms(1) by (simp add: operations_ok_def)
  from recovery_resolve_verified_at_inv [OF inv assms(3)] have inv': "recovery_inv r'" and ev: "recovery_evolve r r'" .
  obtain d vf oc where "recovery_resolve_at r r (rv_recovery_id review) (recovery_decision_value d) (Some vf) (Some oc)
      (Some ''independent_outcome_verification'') now = Inr (review', r')"
    by (rule recovery_resolve_verified_at_Inr [OF assms(3)])
  then have new: "lookup_row rv_recovery_id (rec_reviews r') (rv_recovery_id review) = Some review'"
    by (rule recovery_resolve_at_Inr)
  from assms(2) have rv: "review \<in> set (rec_reviews r)" "rv_attempt_id review = i"
    by (auto simp: recovery_get_by_attempt_def dest: lookup_row_SomeD)
  with ev obtain later where "later \<in> set (rec_reviews r')" "review_evolves review later"
    unfolding recovery_evolve_def by blast
  then have later: "later \<in> set (rec_reviews r')" "rv_recovery_id later = rv_recovery_id review" "rv_attempt_id later = i"
    using rv(2) by (auto simp: review_evolves_def)
  with inv' new have "later = review'" by (metis lookup_row_mem option.inject recovery_inv_def)
  with later inv' show ?thesis by (auto simp: recovery_inv_def recovery_get_by_attempt_def lookup_row_iff)
qed

lemma wp_review:
  assumes quiet: "no_retry_yet co i db0 db" and i: "rc_attempt_id a = i"
    and E: "\<And>db'. no_retry_yet co i db0 db' \<Longrightarrow> E db'"
    and Q: "\<And>review db'. no_retry_yet co i db0 db' \<Longrightarrow> recovery_get_by_attempt (cd_recovery db') i = Some review \<Longrightarrow> Q review db'"
  shows "wp (coord_review co a) Q E db"
proof -
  have ok: "operations_ok (cd_recovery db')" if "no_retry_yet co i db0 db'" for db'
    using that by (simp add: no_retry_yet_def coord_inv_def)
  show ?thesis
    unfolding coord_review_def wp_bindS i
    apply (rule wp_read_attempt)
     apply (rule wp_recovery [OF quiet E])
    subgoal by assumption
    subgoal by (rule open_keeps(1) [OF ok [OF quiet]])
    subgoal premises p for att review r
    proof -
      have "recovery_get_by_attempt r (at_attempt_id att) = Some review"
        using opened_is_stored [OF ok [OF quiet]] p(2) by blast
      moreover have "at_attempt_id att = i" using p(1) by (auto dest: lookup_row_SomeD)
      ultimately have st: "recovery_get_by_attempt r i = Some review" by simp
      have okr: "operations_ok r" using ok [OF p(3)] by simp
      show ?thesis
        unfolding wp_if wp_bindS wp_retS
        apply (rule if_split [THEN iffD2], intro conjI impI)
        subgoal by (rule Q [OF p(3)]) (simp add: st)
        apply (rule wp_evidence [OF p(3) E], assumption)
        apply (rule wp_readI)
         apply (rule wp_recovery [OF _ E], assumption, assumption)
        subgoal by (rule resolve_keeps(1) [OF okr]) simp
         apply (rule wp_evidence [OF _ E], assumption, assumption)
         apply (erule Q)
        subgoal using resolved_is_stored [OF okr st] by simp
        by (erule E)
    qed
    by (rule E [OF quiet])
qed

lemma wp_close:
  assumes quiet: "no_retry_yet co i db0 db" and i: "rc_attempt_id a = i"
    and E: "\<And>db'. no_retry_yet co i db0 db' \<Longrightarrow> E db'" and Q: "\<And>db'. no_retry_yet co i db0 db' \<Longrightarrow> Q () db'"
  shows "wp (close_original co a review st err kind) Q E db"
  unfolding close_original_def wp_bindS i
  apply (rule wp_read_attempt)
   apply (rule wp_mono [where Q = "\<lambda>_. no_retry_yet co i db0" and E = "no_retry_yet co i db0"])
  subgoal unfolding wp_if wp_catchS wp_retS
    by (rule if_split [THEN iffD2], intro conjI impI wp_move [OF quiet] quiet)
  subgoal by (rule wp_evidence [OF _ E], assumption, assumption, erule Q)
  by (erule E, rule E [OF quiet])

lemma wp_reauthorize:
  assumes quiet: "no_retry_yet co i db0 db" and E: "\<And>db'. no_retry_yet co i db0 db' \<Longrightarrow> E db'"
    and Q: "\<And>sg g. no_retry_yet co i db0 (db\<lparr>cd_gate := g\<rparr>) \<Longrightarrow> Q sg (db\<lparr>cd_gate := g\<rparr>)"
  shows "wp (reauthorize_retry co a att grant_id) Q E db"
proof -
  have gate: "wp (on_gate (authorize ge now clock signed ai ids)) (\<lambda>_. Q sg) E db" for ge now clock signed ai ids sg
    by (rule wp_authorize [OF quiet E]) (assumption, rule Q)
  show ?thesis
    unfolding reauthorize_retry_def wp_bindS
    apply (rule wp_readI [rotated], rule E [OF quiet])
    apply (rule wp_liftI [rotated], rule E [OF quiet])+
    by (cases "co_gate co") (auto simp: wp_simps gate E [OF quiet])
qed

text \<open>An update of the operation, and the state it leaves the operation in.\<close>

lemma wp_update:
  assumes quiet: "no_retry_yet co i db0 db" and E: "\<And>db'. no_retry_yet co i db0 db' \<Longrightarrow> E db'"
    and safe: "reviewed_safe i review (cd_recovery db)" and s: "ra = None \<or> s = ''CREATED''"
    and Q: "\<And>x r row. no_retry_yet co i db0 (db\<lparr>cd_recovery := r\<rparr>) \<Longrightarrow> reviewed_safe i review r \<Longrightarrow>
      get_retry_operation r (rv_recovery_id review) = Some row \<Longrightarrow> op_state row = s \<Longrightarrow> Q x (db\<lparr>cd_recovery := r\<rparr>)"
  shows "wp (update_operation review s ra t token) Q E db"
  unfolding update_operation_def
proof (rule wp_recovery [OF quiet E])
  have ok: "operations_ok (cd_recovery db)" using quiet by (simp add: no_retry_yet_def coord_inv_def)
  fix x r assume up: "update_retry_operation_at (cd_recovery db) (cd_recovery db) (rv_recovery_id review) s ra t token = Inr (x, r)"
  from update_keeps [OF ok up s] show "operations_ok r" by simp
  assume q: "no_retry_yet co i db0 (db\<lparr>cd_recovery := r\<rparr>)"
  obtain row where "get_retry_operation r (rv_recovery_id review) = Some row" "op_state row = s"
    by (rule update_reaches [OF ok up])
  with Q [OF q] reviewed_safe_reviews [OF safe] update_keeps(4) [OF ok up s] show "Q x (db\<lparr>cd_recovery := r\<rparr>)" by blast
qed

lemma wp_authority:
  assumes quiet: "no_retry_yet co i db0 db" and E: "\<And>db'. no_retry_yet co i db0 db' \<Longrightarrow> E db'"
    and safe: "reviewed_safe i review (cd_recovery db)"
    and op: "get_retry_operation (cd_recovery db) (rv_recovery_id review) = Some op" "op_state op \<noteq> ''CREATED''"
    and Q: "\<And>sg db'. no_retry_yet co i db0 db' \<Longrightarrow> authorised i review (cd_recovery db') \<Longrightarrow> Q sg db'"
  shows "wp (retry_authority co a review current op created) Q E db"
proof -
  have up: "wp (update_operation review ''AUTHORIZED'' None t token) (\<lambda>_ db'. no_retry_yet co i db0 db' \<and> authorised i review (cd_recovery db'))
      (no_retry_yet co i db0) db'"
    if "no_retry_yet co i db0 db'" "cd_recovery db' = cd_recovery db" for t token and db'
    by (rule wp_update [OF that(1)]) (use safe that in \<open>auto simp: authorised_def\<close>)
  have stored: "wp (stored_retry_grant co a g) Q' E db' \<longleftrightarrow> (case get_signed (signed_capability_of_json (co_crypto co) (rc_clock a))
      (gd_grants (cd_gate db')) g of Inl _ \<Rightarrow> E db' | Inr x \<Rightarrow> Q' x db')" for g Q' and db'
    by (simp add: stored_retry_grant_def wp_readS)
  define post where "post = (\<lambda>st db'. no_retry_yet co i db0 db' \<and> reviewed_safe i review (cd_recovery db') \<and>
    (if st = ''AUTHORIZED'' then authorised i review (cd_recovery db') else cd_recovery db' = cd_recovery db))"
  let ?pre = "if \<not> created \<and> op_state op = ''CLAIMED'' then
        (if gate_has_store co then
           bindS (stored_retry_grant co a (op_retry_grant_id op)) (\<lambda>persisted.
             if persisted = None then failS ExecutionRecoveryCoordinatorError ''retry_in_progress''
             else bindS (update_operation review ''AUTHORIZED'' None (rc_time a) (op_claim_token op)) (\<lambda>_. retS ''AUTHORIZED''))
         else failS ExecutionRecoveryCoordinatorError ''retry_in_progress'')
      else retS (op_state op)"
  have first: "wp ?pre post (no_retry_yet co i db0) db"
  proof -
    have "wp (update_operation review ''AUTHORIZED'' None t token) (\<lambda>_. post ''AUTHORIZED'') (no_retry_yet co i db0) db" for t token
      by (rule wp_mono [OF up [OF quiet refl]]) (auto simp: post_def authorised_def)
    then show ?thesis
      using quiet op safe
      by (auto simp: wp_simps stored_retry_grant_def post_def authorised_def split: sum.splits)
  qed
  have late: "wp (if st = ''AUTHORIZED'' then
      (if \<not> gate_has_store co then failS ExecutionRecoveryCoordinatorError ''retry_authorization_record_required''
       else bindS (stored_retry_grant co a (op_retry_grant_id op)) (\<lambda>stored. case stored of
           None \<Rightarrow> failS ExecutionRecoveryCoordinatorError ''retry_authorization_record_missing''
         | Some sg \<Rightarrow> retS sg))
    else
      bindS (reauthorize_retry co a current (op_retry_grant_id op)) (\<lambda>sg.
      bindS (update_operation review ''AUTHORIZED'' None (rc_time a) (op_claim_token op)) (\<lambda>_.
      bindS (record_evidence co (rv_recovery_id review) (rc_attempt_id a) ''RETRY_AUTHORIZED''
        [(''grant_id'', JStr (cg_grant_id (sc_grant sg))), (''outcome_id'', optional_text (rv_outcome_id review)),
         (''verifier_id'', optional_text (rv_verifier_id review))] (rc_time a)) (\<lambda>_. retS sg)))) Q E db'"
    if p: "post st db'" for st db'
  proof (cases "st = ''AUTHORIZED''")
    case True
    with p Q E show ?thesis
      by (auto simp: wp_simps stored_retry_grant_def post_def split: sum.splits option.splits)
  next
    case False
    then have q: "no_retry_yet co i db0 db'" and same: "cd_recovery db' = cd_recovery db" using p by (auto simp: post_def)
    show ?thesis
      unfolding wp_if wp_bindS wp_retS if_not_P [OF False]
      apply (rule wp_reauthorize [OF q E], assumption)
      apply (rule wp_mono [OF up], assumption)
      subgoal using same by simp
      subgoal by (elim conjE) (rule wp_evidence [OF _ E], assumption, assumption, rule Q, assumption, simp)
      by (erule E)
  qed
  show ?thesis
    unfolding retry_authority_def wp_bindS [of ?pre]
    by (rule wp_mono [OF first late]) (assumption, erule E)
qed

text \<open>The original attempt is closed; \<open>current\<close> is how it was read before.\<close>

definition aborted :: "string \<Rightarrow> attempt \<Rightarrow> 'w coord_db \<Rightarrow> bool" where
  "aborted i current db \<longleftrightarrow> (\<exists>row. lookup_row at_attempt_id (gd_attempts (cd_gate db)) i = Some row \<and>
     at_state row = ABORTED \<and> same_work row current)"

lemma wp_abort:
  assumes quiet: "no_retry_yet co i db0 db" and i: "rc_attempt_id a = i" and E: "\<And>db'. no_retry_yet co i db0 db' \<Longrightarrow> E db'"
    and Q: "\<And>current db'. no_retry_yet co i db0 db' \<Longrightarrow> cd_recovery db' = cd_recovery db \<Longrightarrow> aborted i current db' \<Longrightarrow> Q current db'"
  shows "wp (abort_original co a review) Q E db"
  unfolding abort_original_def wp_bindS i
proof (rule wp_read_attempt)
  fix current assume cur: "lookup_row at_attempt_id (gd_attempts (cd_gate db)) i = Some current"
  show "wp (if at_state current = RUNNING
      then catchS ExecutionAttemptError ExecutionRecoveryCoordinatorError ''original_attempt_close_failed''
        (bindS (move_attempt i ABORTED (rc_time a) ''recovery_verified_safe_to_retry'') (\<lambda>_.
          record_evidence co (rv_recovery_id review) i ''ORIGINAL_ABORTED'' [(''reason'', JStr ''recovery_verified_safe_to_retry'')] (rc_time a)))
      else if at_state current \<noteq> ABORTED
        then failS ExecutionRecoveryCoordinatorError ''retry_requires_running_or_aborted_attempt'' else retS ())
      (\<lambda>_. wp (retS current) Q E) E db"
  proof (cases "at_state current = RUNNING")
    case True
    show ?thesis
      unfolding if_P [OF True] wp_catchS wp_bindS wp_retS
      apply (rule wp_move [OF quiet E], assumption)
      apply (rule wp_evidence [OF _ E], assumption, assumption)
      apply (rule Q, assumption, simp)
      using cur by (auto simp: aborted_def)
  next
    case False
    show ?thesis
      using Q [OF quiet] E [OF quiet] cur by (simp add: if_not_P [OF False] wp_simps aborted_def same_work_def)
  qed
qed (rule E [OF quiet])

text \<open>
  The retry \<open>r\<close> was created: it is the one new row of the attempts table, authorised and
  not yet run, for the same work as the attempt \<open>i\<close>, which is ABORTED, and the recovery
  tables record it.
\<close>

definition retry_created :: "'w coordinator \<Rightarrow> string \<Rightarrow> 'w coord_db \<Rightarrow> attempt \<Rightarrow> 'w coord_db \<Rightarrow> bool" where
  "retry_created co i db0 r db \<longleftrightarrow> coord_inv co db \<and> retried_as i (at_attempt_id r) (cd_recovery db) \<and>
     (\<exists>as row. gd_attempts (cd_gate db) = as @ [r] \<and>
        no_retry_yet co i db0 (db\<lparr>cd_gate := (cd_gate db)\<lparr>gd_attempts := as\<rparr>\<rparr>) \<and>
        lookup_row at_attempt_id as i = Some row \<and> at_state row = ABORTED \<and> same_work r row \<and>
        at_state r = AUTHORIZED \<and> at_attempt_number row < at_attempt_number r)"

lemma retry_created_evidence:
  "retry_created co i db0 r db \<Longrightarrow> coord_inv co (db\<lparr>cd_evidence := ev\<rparr>) \<Longrightarrow> retry_created co i db0 r (db\<lparr>cd_evidence := ev\<rparr>)"
  by (auto simp: retry_created_def no_retry_yet_def coord_inv_def)

lemma wp_evidence_created:
  assumes created: "retry_created co i db0 r db" and E: "\<And>db'. retry_created co i db0 r db' \<Longrightarrow> E db'"
    and Q: "\<And>db'. retry_created co i db0 r db' \<Longrightarrow> Q () db'"
  shows "wp (record_evidence co rid aid kind payload t) Q E db"
  unfolding record_evidence_def
proof (rule wp_commitI)
  fix x db' assume "bindR (evidence_append (cr_sha256 (co_crypto co)) (cd_evidence db) rid aid kind (Some (JObj payload)) (isoformat t))
      (\<lambda>(_, ev). Inr ((), db\<lparr>cd_evidence := ev\<rparr>)) = Inr (x, db')"
  then obtain e ev where "evidence_append (cr_sha256 (co_crypto co)) (cd_evidence db) rid aid kind (Some (JObj payload)) (isoformat t) = Inr (e, ev)"
    and db': "db' = db\<lparr>cd_evidence := ev\<rparr>" by (auto simp: bindR_Inr_iff)
  then have "coord_inv co db'" using created by (auto simp: retry_created_def coord_inv_def dest: evidence_append_inv)
  with Q retry_created_evidence [OF created] show "Q x db'" unfolding db' by simp
qed (rule E [OF created])

text \<open>Recording the retry of an AUTHORIZED operation succeeds for every proper id.\<close>

lemma record_update:
  assumes "operations_ok r" and "authorised i review r"
    and "update_retry_operation_at r r (rv_recovery_id review) ''CREATED'' (Some n) t token = Inr (x, r')"
  shows "operations_ok r'" and "retried_as i n r'"
proof -
  from assms(2) obtain row where safe: "reviewed_safe i review r"
    and row: "get_retry_operation r (rv_recovery_id review) = Some row" "op_state row = ''AUTHORIZED''"
    by (auto simp: authorised_def)
  have n: "\<not> blank n"
    using assms(3) row by (auto simp: update_retry_operation_at_def retry_allowed_def split: if_splits)
  obtain y r2 where r2: "update_retry_operation_at r r (rv_recovery_id review) ''CREATED'' (Some n) t token = Inr (y, r2)"
    and new: "get_retry_operation r2 (rv_recovery_id review) = Some (updated_operation ''CREATED'' (Some n) t row)"
    by (rule update_creates [OF assms(1) row n])
  from r2 assms(3) have r': "r2 = r'" by simp
  from update_keeps [OF assms(1,3)] have ok: "operations_ok r'" and "rec_reviews r' = rec_reviews r" by simp_all
  with safe have safe': "reviewed_safe i review r'" by (blast intro: reviewed_safe_reviews)
  with reviewed_safe_verified [OF ok safe'] new n show "operations_ok r'" "retried_as i n r'" using ok
    by (auto simp: r' retried_as_def reviewed_safe_def updated_operation_def)
qed

lemma wp_record_existing:
  assumes quiet: "no_retry_yet co i db0 db" and au: "authorised i review (cd_recovery db)"
    and E: "\<And>db'. no_retry_yet co i db0 db' \<Longrightarrow> E db'"
    and Q: "\<And>db'. no_retry_yet co i db0 db' \<Longrightarrow> retried_as i (at_attempt_id r) (cd_recovery db') \<Longrightarrow> Q r db'"
  shows "wp (record_retry co a review sg r) Q E db"
proof -
  have ok: "operations_ok (cd_recovery db)" using quiet by (simp add: no_retry_yet_def coord_inv_def)
  show ?thesis
    unfolding record_retry_def wp_bindS wp_retS update_operation_def
    apply (rule wp_recovery [OF quiet E], assumption)
     apply (rule record_update(1) [OF ok au], assumption)
    apply (rule wp_evidence [OF _ E], assumption, assumption)
    apply (rule Q, assumption)
    using record_update(2) [OF ok au] by simp
qed

lemma wp_create:
  assumes quiet: "no_retry_yet co i db0 db" and i: "rc_attempt_id a = i" and au: "authorised i review (cd_recovery db)"
    and ab: "aborted i current db"
    and E: "\<And>db'. no_retry_yet co i db0 db' \<Longrightarrow> E db'" "\<And>r db'. retry_created co i db0 r db' \<Longrightarrow> E db'"
    and Q: "\<And>r db'. no_retry_yet co i db0 db' \<Longrightarrow> retried_as i (at_attempt_id r) (cd_recovery db') \<Longrightarrow> Q r db'"
      "\<And>r db'. retry_created co i db0 r db' \<Longrightarrow> Q r db'"
  shows "wp (create_retry co a review sg current) Q E db"
proof -
  have inv: "attempts_inv (gd_attempts (cd_gate db))" and ok: "operations_ok (cd_recovery db)"
    using quiet by (simp_all add: no_retry_yet_def coord_inv_def gate_inv_def)
  have step: "wp (record_retry co a review sg r) Q E (db\<lparr>cd_gate := (cd_gate db)\<lparr>gd_attempts := as\<rparr>\<rparr>)"
    if new: "attempt_create (gd_attempts (cd_gate db)) (rc_create_hex a) (at_task_id current) (cg_grant_id (sc_grant sg))
      (at_intent_hash current) (at_idempotency_key current) (rc_time a) True = Inr (r, as)" for r as
  proof -
    let ?db = "db\<lparr>cd_gate := (cd_gate db)\<lparr>gd_attempts := as\<rparr>\<rparr>"
    from new [unfolded attempt_create_def] obtain n where
      r: "r = new_attempt (''attempt_'' @ rc_create_hex a) (at_task_id current) (cg_grant_id (sc_grant sg))
        (at_intent_hash current) (at_idempotency_key current) n (rc_time a)"
      and as: "as = gd_attempts (cd_gate db) @ [r]"
      and prev: "(find_by_idempotency_key (gd_attempts (cd_gate db)) (at_idempotency_key current) = None \<and> n = 1) \<or>
        (\<exists>p. find_by_idempotency_key (gd_attempts (cd_gate db)) (at_idempotency_key current) = Some p \<and>
          attempt_terminal (at_state p) \<and> True \<and> n = at_attempt_number p + 1)"
      by (rule attempt_create_at_Inr)
    from ab obtain row where row: "lookup_row at_attempt_id (gd_attempts (cd_gate db)) i = Some row" "at_state row = ABORTED"
      "same_work row current" by (auto simp: aborted_def)
    then have mem: "row \<in> set (gd_attempts (cd_gate db))" "at_idempotency_key row = at_idempotency_key current"
      by (auto simp: same_work_def dest: lookup_row_SomeD)
    with prev have number: "at_attempt_number row < at_attempt_number r"
      using find_by_idempotency_key_Some(3) by (fastforce simp: r new_attempt_def find_by_idempotency_key_None)
    have rw: "same_work r row" "at_state r = AUTHORIZED" "\<not> blank (at_attempt_id r)"
      using row(3) by (auto simp: r new_attempt_def same_work_def blank_def is_space_def)
    have inv': "attempts_inv as" by (rule attempt_create_at_inv(1) [OF inv attempts_evolve_refl new [unfolded attempt_create_def]])
    then have ci: "coord_inv co ?db" using quiet by (simp add: no_retry_yet_def coord_inv_def gate_inv_def)
    obtain op where op: "get_retry_operation (cd_recovery db) (rv_recovery_id review) = Some op" "op_state op = ''AUTHORIZED''"
      using au by (auto simp: authorised_def)
    obtain x rec' where up: "update_retry_operation_at (cd_recovery db) (cd_recovery db) (rv_recovery_id review) ''CREATED''
        (Some (at_attempt_id r)) (rc_time a) None = Inr (x, rec')"
      by (rule update_creates [OF ok op rw(3)])
    from record_update [OF ok au up] have rec': "operations_ok rec'" "retried_as i (at_attempt_id r) rec'" .
    have "retry_created co i db0 r (?db\<lparr>cd_recovery := rec'\<rparr>)"
      using ci rec' quiet row rw number as
      by (simp add: retry_created_def coord_inv_def no_retry_yet_def)
    then have ev: "wp (record_evidence co rid aid kind payload t) (\<lambda>_. Q r) E (?db\<lparr>cd_recovery := rec'\<rparr>)" for rid aid kind payload t
      by (rule wp_evidence_created) (rule E(2), assumption, rule Q(2), assumption)
    have "wp (update_operation review ''CREATED'' (Some (at_attempt_id r)) (rc_time a) None) P E ?db \<longleftrightarrow>
        P x (?db\<lparr>cd_recovery := rec'\<rparr>)" for P
      using up by (simp add: update_operation_def on_recovery_def wp_simps)
    with ev show ?thesis unfolding record_retry_def wp_bindS wp_retS by simp
  qed
  show ?thesis
  proof (cases "find_by_grant_id (gd_attempts (cd_gate db)) (cg_grant_id (sc_grant sg))")
    case (Some r)
    then show ?thesis
      using wp_record_existing [OF quiet au E(1) Q(1)] by (simp add: create_retry_def wp_bindS wp_readS)
  next
    case None
    show ?thesis
    proof (cases "attempt_create (gd_attempts (cd_gate db)) (rc_create_hex a) (at_task_id current) (cg_grant_id (sc_grant sg))
        (at_intent_hash current) (at_idempotency_key current) (rc_time a) True")
      case (Inl e)
      with None E(1) [OF quiet] show ?thesis
        by (simp add: create_retry_def wp_bindS wp_readS wp_catchS wp_gate_commit)
    next
      case (Inr ras)
      obtain r as where "ras = (r, as)" by (cases ras)
      with Inr have new: "attempt_create (gd_attempts (cd_gate db)) (rc_create_hex a) (at_task_id current) (cg_grant_id (sc_grant sg))
        (at_intent_hash current) (at_idempotency_key current) (rc_time a) True = Inr (r, as)" by simp
      from step [OF new] new None show ?thesis
        by (simp add: create_retry_def wp_bindS wp_readS wp_catchS wp_gate_commit)
    qed
  qed
qed

lemma wp_claim:
  assumes quiet: "no_retry_yet co i db0 db" and E: "\<And>db'. no_retry_yet co i db0 db' \<Longrightarrow> E db'"
    and safe: "reviewed_safe i review (cd_recovery db)"
    and Q: "\<And>op created r. no_retry_yet co i db0 (db\<lparr>cd_recovery := r\<rparr>) \<Longrightarrow> reviewed_safe i review r \<Longrightarrow>
      get_retry_operation r (rv_recovery_id review) = Some op \<Longrightarrow> Q (op, created) (db\<lparr>cd_recovery := r\<rparr>)"
  shows "wp (on_recovery (\<lambda>db. claim_retry db review hex t)) Q E db"
proof (rule wp_recovery [OF quiet E])
  have ok: "operations_ok (cd_recovery db)" using quiet by (simp add: no_retry_yet_def coord_inv_def)
  fix x r assume cl: "claim_retry (cd_recovery db) review hex t = Inr (x, r)"
  obtain op created where x: "x = (op, created)" by (cases x)
  note cl = cl [unfolded x]
  show "operations_ok r" by (rule claim_keeps(1) [OF ok cl])
  assume "no_retry_yet co i db0 (db\<lparr>cd_recovery := r\<rparr>)"
  with Q reviewed_safe_reviews [OF safe claim_keeps(4) [OF ok cl]] claim_retry_Inr(2) [OF cl]
  show "Q x (db\<lparr>cd_recovery := r\<rparr>)" unfolding x by blast
qed

lemma wp_under_claim:
  assumes quiet: "no_retry_yet co i db0 db" and i: "rc_attempt_id a = i" and safe: "reviewed_safe i review (cd_recovery db)"
    and E: "\<And>db'. no_retry_yet co i db0 db' \<Longrightarrow> E db'" "\<And>r db'. retry_created co i db0 r db' \<Longrightarrow> E db'"
    and Q: "\<And>r db'. no_retry_yet co i db0 db' \<Longrightarrow> retried_as i (at_attempt_id r) (cd_recovery db') \<Longrightarrow> Q r db'"
      "\<And>r db'. retry_created co i db0 r db' \<Longrightarrow> Q r db'"
  shows "wp (retry_under_claim co a review) Q E db"
  unfolding retry_under_claim_def wp_bindS
  apply (rule wp_read_attempt)
   apply (rule wp_claim [OF quiet E(1) safe], assumption)
  subgoal premises p for current op created r
  proof -
    have ok: "operations_ok r" using p(2) by (simp add: no_retry_yet_def coord_inv_def)
    have mem: "op \<in> set (rec_operations r)" using p(4) by (auto simp: get_retry_operation_def dest: lookup_row_SomeD)
    show ?thesis
    proof (cases "op_state op = ''CREATED''")
      case True
      obtain n where n: "op_retry_attempt_id op = Some n" "retried_as i n r"
        by (rule created_is_retried [OF ok p(3,4) True])
      then have "n \<noteq> []" by (auto simp: retried_as_def blank_def)
      then have early: "given_or (op_retry_attempt_id op) [] = n" "n \<noteq> []" by (simp_all add: n(1) given_or_def)
      show ?thesis
        using True early(2)
        apply (simp add: wp_if early(1))
        apply (rule wp_read_attempt)
        subgoal premises row for row
        proof (rule Q(1) [OF p(2)])
          from row(3) have "at_attempt_id row = n" by (blast dest: lookup_row_SomeD)
          with n(2) show "retried_as i (at_attempt_id row) (cd_recovery (db\<lparr>cd_recovery := r\<rparr>))" by simp
        qed
        by (rule E(1) [OF p(2)])
    next
      case False
      then have "op_retry_attempt_id op = None" using ok mem by (auto simp: operations_ok_def)
      then have "given_or (op_retry_attempt_id op) [] = []" by (simp add: given_or_def)
      then show ?thesis
        apply (simp add: wp_if wp_bindS)
        apply (rule wp_authority [OF p(2) E(1)], assumption)
           apply (simp add: p(3))
          apply (simp add: p(4))
         apply (rule False)
        apply (rule wp_abort [OF _ i E(1)], assumption, assumption)
        apply (rule wp_create [OF _ i], assumption, simp, assumption)
        by (erule E(1), erule E(2), rule Q(1), assumption, assumption, erule Q(2))
    qed
  qed
  by (rule E(1) [OF quiet])

lemma wp_retry:
  assumes "coord_inv co db0" and i: "rc_attempt_id a = i"
    and E: "\<And>db'. no_retry_yet co i db0 db' \<Longrightarrow> E db'" "\<And>r db'. retry_created co i db0 r db' \<Longrightarrow> E db'"
    and Q: "\<And>db'. no_retry_yet co i db0 db' \<Longrightarrow> Q None db'"
      "\<And>r db'. no_retry_yet co i db0 db' \<Longrightarrow> retried_as i (at_attempt_id r) (cd_recovery db') \<Longrightarrow> Q (Some r) db'"
      "\<And>r db'. retry_created co i db0 r db' \<Longrightarrow> Q (Some r) db'"
  shows "wp (retry_if_safe co a) Q E db0"
proof -
  have quiet: "no_retry_yet co i db0 db0" by (rule no_retry_yet_refl [OF assms(1)])
  define decide where "decide = (\<lambda>review. case rv_decision review of
       SIDE_EFFECT_CONFIRMED \<Rightarrow>
         bindS (close_original co a review RECOVERED ''recovery_verified_side_effect_confirmed'' ''SIDE_EFFECT_CONFIRMED'') (\<lambda>_. retS None)
     | QUARANTINED \<Rightarrow>
         bindS (close_original co a review ABORTED ''recovery_quarantined'' ''QUARANTINED'') (\<lambda>_. retS None)
     | UNKNOWN \<Rightarrow> retS None
     | SAFE_TO_RETRY \<Rightarrow> bindS (retry_under_claim co a review) (\<lambda>r. retS (Some r)))"
  have decide: "wp (decide review) Q E db" if q: "no_retry_yet co i db0 db" and st: "recovery_get_by_attempt (cd_recovery db) i = Some review"
    for review db
  proof (cases "rv_decision review")
    case UNKNOWN
    with q Q(1) show ?thesis by (simp add: decide_def wp_simps)
  next
    case SIDE_EFFECT_CONFIRMED
    show ?thesis unfolding decide_def SIDE_EFFECT_CONFIRMED recovery_decision.case wp_bindS wp_retS
      by (rule wp_close [OF q i E(1)]) (assumption, erule Q(1))
  next
    case QUARANTINED
    show ?thesis unfolding decide_def QUARANTINED recovery_decision.case wp_bindS wp_retS
      by (rule wp_close [OF q i E(1)]) (assumption, erule Q(1))
  next
    case SAFE_TO_RETRY
    with st have safe: "reviewed_safe i review (cd_recovery db)" by (simp add: reviewed_safe_def)
    show ?thesis unfolding decide_def SAFE_TO_RETRY recovery_decision.case wp_bindS wp_retS
      by (rule wp_under_claim [OF q i safe]) (erule E(1), erule E(2), rule Q(2), assumption, assumption, erule Q(3))
  qed
  have review: "wp (coord_review co a) (\<lambda>review. wp (decide review) Q E) E db0"
    by (rule wp_review [OF quiet i E(1)]) (assumption, rule decide)
  show ?thesis
    unfolding retry_if_safe_def wp_bindS decide_def [symmetric]
    apply (rule wp_read_attempt)
    subgoal
      using review decide [OF quiet] i
      by (auto simp: wp_readS wp_if wp_retS split: option.splits)
    by (rule E(1) [OF quiet])
qed

lemma one_call:
  assumes "coord_inv co db" and "retry_if_safe co a db = (res, db')"
  shows "(no_retry_yet co (rc_attempt_id a) db db' \<or> (\<exists>r. retry_created co (rc_attempt_id a) db r db' \<and> (\<forall>x. res = Inr x \<longrightarrow> x = Some r))) \<and>
    (\<forall>r. res = Inr (Some r) \<longrightarrow> retried_as (rc_attempt_id a) (at_attempt_id r) (cd_recovery db'))"
proof -
  let ?i = "rc_attempt_id a"
  have "wp (retry_if_safe co a)
      (\<lambda>x db'. (no_retry_yet co ?i db db' \<or> (\<exists>r. retry_created co ?i db r db' \<and> x = Some r)) \<and>
         (\<forall>r. x = Some r \<longrightarrow> retried_as ?i (at_attempt_id r) (cd_recovery db')))
      (\<lambda>db'. no_retry_yet co ?i db db' \<or> (\<exists>r. retry_created co ?i db r db')) db"
    by (rule wp_retry [OF assms(1) refl]) (auto simp: retry_created_def)
  with assms(2) show ?thesis by (cases res) (auto simp: wp_def)
qed

text \<open>
  C7: One call of the coordinator. From consistent tables a call, returning or raising at
  any point, leaves them consistent and the world untouched, and of the existing attempts it
  moves at most the one it was given, forward along its state machine. Either it added no
  attempt, or exactly one: then a named verifier had declared the attempt safe to retry, the
  attempt is ABORTED, and the new one is authorised, not run, carries a higher number for
  the same task, intent and key, and is the recorded retry. Whatever attempt is returned is
  the recorded retry of the attempt.
\<close>

theorem retry_needs_verified_safety:
  assumes "coord_inv co db" and "retry_if_safe co a db = (res, db')"
  shows "(no_retry_yet co (rc_attempt_id a) db db' \<or> (\<exists>r. retry_created co (rc_attempt_id a) db r db' \<and> (\<forall>x. res = Inr x \<longrightarrow> x = Some r))) \<and>
    (\<forall>r. res = Inr (Some r) \<longrightarrow> retried_as (rc_attempt_id a) (at_attempt_id r) (cd_recovery db'))"
  using assms by (rule one_call)

section \<open>Histories\<close>

text \<open>
  What may happen between two calls: further calls of \<^verbatim>\<open>retry_if_safe\<close> by any coordinators,
  sweeps, and anything at all in the gate's tables.
\<close>

datatype 'w coord_event =
    CoordRetry "'w coordinator" retry_call
  | CoordSweep "'w coordinator" "instant option" instant int "attempt \<Rightarrow> recovery_context"
  | OutsideGate "'w gate_db"

fun coord_step :: "'w coord_event \<Rightarrow> 'w coord_db \<Rightarrow> 'w coord_db" where
  "coord_step (CoordRetry co a) db = snd (retry_if_safe co a db)"
| "coord_step (CoordSweep co now clock limit contexts) db = snd (recover_stale_attempts co now clock limit contexts db)"
| "coord_step (OutsideGate g) db = db\<lparr>cd_gate := g\<rparr>"

definition has_retry :: "string \<Rightarrow> string \<Rightarrow> 'w coord_db \<Rightarrow> bool" where
  "has_retry i n db \<longleftrightarrow> operations_ok (cd_recovery db) \<and> retried_as i n (cd_recovery db)"

lemma keep_gate: "preserves (has_retry i n) (on_gate m)"
  by (rule preservesI) (simp add: has_retry_def on_gate_def split: prod.splits)

lemma keep_evidence: "preserves (has_retry i n) (record_evidence co rid aid kind payload t)"
  unfolding record_evidence_def by (intro preserves_intros) (auto simp: has_retry_def bindR_Inr_iff)

lemma keep_recovery:
  assumes "\<And>r x r'. operations_ok r \<Longrightarrow> f r = Inr (x, r') \<Longrightarrow> operations_ok r' \<and> recovery_evolve r r' \<and> created_stay r r'"
  shows "preserves (has_retry i n) (on_recovery f)"
  unfolding on_recovery_def
proof (intro preserves_intros)
  fix db :: "'b coord_db" and x db' assume "has_retry i n db" and
    "bindR (f (cd_recovery db)) (\<lambda>(x, r). Inr (x, db\<lparr>cd_recovery := r\<rparr>)) = Inr (x, db')"
  then obtain r where "f (cd_recovery db) = Inr (x, r)" and db': "db' = db\<lparr>cd_recovery := r\<rparr>" and
    h: "operations_ok (cd_recovery db)" "retried_as i n (cd_recovery db)"
    by (auto simp: bindR_Inr_iff has_retry_def)
  with assms have "operations_ok r" "recovery_evolve (cd_recovery db) r" "created_stay (cd_recovery db) r" by blast+
  with h(2) show "has_retry i n db'" by (simp add: has_retry_def db' retried_as_stays)
qed

lemma keep_update: "ra = None \<or> s = ''CREATED'' \<Longrightarrow> preserves (has_retry i n) (update_operation review s ra t token)"
  unfolding update_operation_def by (rule keep_recovery) (blast dest: update_keeps)

lemma keep_claim: "preserves (has_retry i n) (on_recovery (\<lambda>db. claim_retry db review hex t))"
proof (rule keep_recovery)
  fix r x r' assume "operations_ok r" and "claim_retry r review hex t = Inr (x, r')"
  then show "operations_ok r' \<and> recovery_evolve r r' \<and> created_stay r r'" by (cases x) (blast dest: claim_keeps)
qed

lemma keep_open: "preserves (has_retry i n) (on_recovery (\<lambda>db. recovery_open_at db db att hex t))"
  by (rule keep_recovery) (blast dest: open_keeps)

lemma keep_resolve: "preserves (has_retry i n) (on_recovery (\<lambda>db. recovery_resolve_verified_at db db rid v t))"
  by (rule keep_recovery) (blast dest: resolve_keeps)

lemmas keeps = keep_gate keep_evidence keep_update keep_claim keep_open keep_resolve disjI1 [OF refl] disjI2 [OF refl]

lemma keep_move: "preserves (has_retry i n) (move_attempt j st t err)"
  unfolding move_attempt_def by (intro preserves_intros keeps)

lemma keep_read: "preserves (has_retry i n) (read_attempt j)"
  unfolding read_attempt_def by (intro preserves_intros)

lemma keep_close: "preserves (has_retry i n) (close_original co a review st err kind)"
  unfolding close_original_def by (intro preserves_intros keeps keep_move keep_read)

lemma keep_review: "preserves (has_retry i n) (coord_review co a)"
  unfolding coord_review_def by (intro preserves_intros keeps keep_read)

lemma keep_reauthorize: "preserves (has_retry i n) (reauthorize_retry co a att g)"
  unfolding reauthorize_retry_def by (intro preserves_intros keeps)

lemma keep_authority: "preserves (has_retry i n) (retry_authority co a review current op created)"
  unfolding retry_authority_def stored_retry_grant_def by (intro preserves_intros keeps keep_reauthorize)

lemma keep_abort: "preserves (has_retry i n) (abort_original co a review)"
  unfolding abort_original_def by (intro preserves_intros keeps keep_read keep_move)

lemma keep_record: "preserves (has_retry i n) (record_retry co a review sg r)"
  unfolding record_retry_def by (intro preserves_intros keeps)

lemma keep_create: "preserves (has_retry i n) (create_retry co a review sg current)"
  unfolding create_retry_def by (intro preserves_intros keeps keep_record)

lemma keep_under_claim: "preserves (has_retry i n) (retry_under_claim co a review)"
  unfolding retry_under_claim_def
  by (intro preserves_intros keep_read keep_claim) (auto intro!: preserves_intros keep_read keep_authority keep_abort keep_create)

lemma keep_retry: "preserves (has_retry i n) (retry_if_safe co a)"
  unfolding retry_if_safe_def
  by (intro preserves_intros keep_read keep_review)
    (auto intro!: preserves_intros keep_close keep_under_claim split: recovery_decision.split)

lemma keep_candidate: "preserves (has_retry i n) (recover_candidate co now contexts att)"
  unfolding recover_candidate_def by (intro preserves_intros keep_retry keep_read)

lemma keep_candidates: "preserves (has_retry i n) (recover_candidates co now contexts atts)"
proof (induction atts)
  case (Cons att atts)
  then show ?case unfolding recover_candidates.simps by (intro preserves_intros keep_candidate)
qed (unfold recover_candidates.simps, rule preserves_retS)

lemma keep_sweep: "preserves (has_retry i n) (recover_stale_attempts co now clock limit contexts)"
  unfolding recover_stale_attempts_def by (intro preserves_intros keep_candidates)

lemma keep_step: "has_retry i n db \<Longrightarrow> has_retry i n (coord_step e db)"
proof (cases e)
  case (OutsideGate g)
  then show "has_retry i n db \<Longrightarrow> has_retry i n (coord_step e db)" by (simp add: has_retry_def)
qed (simp_all add: preservesD [OF keep_retry] preservesD [OF keep_sweep])

lemma keep_history: "has_retry i n db \<Longrightarrow> has_retry i n (fold coord_step es db)"
  by (induction es arbitrary: db) (auto intro: keep_step)

text \<open>Once the retry is recorded a call only looks it up.\<close>

lemma retry_looked_up:
  assumes "has_retry i n db" and "rc_attempt_id a = i" and "retry_if_safe co a db = (res, db')"
  shows "db' = db" and "res = Inr x \<Longrightarrow> \<exists>r. x = Some r \<and> at_attempt_id r = n"
proof -
  from assms(1) obtain review row where r: "recovery_get_by_attempt (cd_recovery db) i = Some review" "rv_decision review = SAFE_TO_RETRY"
    "get_retry_operation (cd_recovery db) (rv_recovery_id review) = Some row" "op_state row = ''CREATED''"
    "op_retry_attempt_id row = Some n" "n \<noteq> []"
    unfolding has_retry_def retried_as_def by (metis blank_Nil)
  have "claim_retry (cd_recovery db) review (rc_claim_hex a) (rc_time a) = Inr ((row, False), cd_recovery db)"
    using r by (simp add: claim_retry_def Let_def)
  then have "retry_if_safe co a db = (case attempt_get (gd_attempts (cd_gate db)) i of Inl e \<Rightarrow> (Inl e, db)
      | Inr _ \<Rightarrow> (case attempt_get (gd_attempts (cd_gate db)) n of Inl e \<Rightarrow> (Inl e, db) | Inr y \<Rightarrow> (Inr (Some y), db)))"
    using r assms(2)
    by (simp add: retry_if_safe_def retry_under_claim_def read_attempt_def bindS_def on_recovery_def commitS_def given_or_def split: sum.splits)
  moreover have "attempt_get as n = Inr y \<Longrightarrow> at_attempt_id y = n" for as y
    by (auto simp: attempt_get_def split: option.splits dest: lookup_row_SomeD)
  ultimately show "db' = db" "res = Inr x \<Longrightarrow> \<exists>r. x = Some r \<and> at_attempt_id r = n"
    using assms(3) by (auto split: sum.splits)
qed

text \<open>
  C8: A recovered attempt is retried at most once. After a call that created or returned a
  retry, in every history of further calls, sweeps and changes of the gate's tables by
  anyone, each later call for the same attempt changes nothing, and if it returns, it returns
  that same retry.
\<close>

theorem retried_at_most_once:
  assumes "coord_inv co db" and "retry_if_safe co a db = (res, db1)"
    and "res = Inr (Some r) \<or> retry_created co (rc_attempt_id a) db r db1"
    and "retry_if_safe co' a' (fold coord_step es db1) = (res', db2)" and "rc_attempt_id a' = rc_attempt_id a"
  shows "db2 = fold coord_step es db1 \<and> (\<forall>x. res' = Inr x \<longrightarrow> (\<exists>r'. x = Some r' \<and> at_attempt_id r' = at_attempt_id r))"
proof -
  have "retried_as (rc_attempt_id a) (at_attempt_id r) (cd_recovery db1)"
    and "coord_inv co db1"
    using one_call [OF assms(1,2)] assms(3) by (auto simp: retry_created_def no_retry_yet_def)
  then have "has_retry (rc_attempt_id a) (at_attempt_id r) db1" by (simp add: has_retry_def coord_inv_def)
  from retry_looked_up [OF keep_history [OF this] assms(5,4)] show ?thesis by blast
qed

section \<open>A concrete recovery\<close>

definition coord_demo_attempt :: attempt where
  "coord_demo_attempt = \<lparr>at_attempt_id = ''a'', at_task_id = ''t'', at_grant_id = ''old'', at_intent_hash = ''d'',
     at_idempotency_key = ''k'', at_attempt_number = 1, at_state = RUNNING, at_created_at = 0, at_lease_expires_at = Some 0,
     at_started_at = Some 0, at_finished_at = None, at_executor_id = None, at_executor_version = None,
     at_executor_identity_epoch = 0, at_receipt_id = None, at_error = None\<rparr>"

definition coord_demo_review :: recovery_review where
  "coord_demo_review = \<lparr>rv_recovery_id = ''r'', rv_attempt_id = ''a'', rv_task_id = ''t'', rv_idempotency_key = ''k'',
     rv_decision = SAFE_TO_RETRY, rv_verifier_id = Some ''v'', rv_outcome_id = Some ''o'', rv_reason = None, rv_reviewed_at = 0\<rparr>"

definition coord_demo :: "(string \<times> string) list coordinator" where
  "coord_demo = \<lparr>co_crypto = gate_demo_crypto\<lparr>cr_sha256 := \<lambda>t. t\<rparr>, co_specs = [], co_gate = Some demo_gate, co_authorizer = None\<rparr>"

definition coord_demo_db :: "(string \<times> string) list coord_db" where
  "coord_demo_db = \<lparr>cd_gate = empty_gate_db\<lparr>gd_authority := gate_demo_authority, gd_attempts := [coord_demo_attempt]\<rparr>,
     cd_recovery = \<lparr>rec_reviews = [coord_demo_review], rec_operations = []\<rparr>, cd_evidence = empty_evidence\<rparr>"

definition coord_demo_call :: retry_call where
  "coord_demo_call = \<lparr>rc_attempt_id = ''a'', rc_intent = gate_demo_intent, rc_contract = JNull, rc_action = None, rc_now = Some 0,
     rc_clock = 0, rc_reauthorize = Some (\<lambda>_ _ _. Inr gate_demo_capability), rc_signed_intent = None, rc_ids = [], rc_kwargs = [],
     rc_open_hex = ''x'', rc_claim_hex = ''c'', rc_create_hex = ''h'', rc_tokens = \<lparr>rt_grant = ''u'', rt_nonce = ''w''\<rparr>\<rparr>"

lemma coord_demo_inv: "coord_inv coord_demo coord_demo_db"
  by (simp add: coord_inv_def coord_demo_db_def gate_inv_def grants_inv_def empty_gate_db_def attempts_inv_def attempt_row_wf_def
      coord_demo_attempt_def attempt_terminal_def operations_ok_def recovery_inv_def verdicts_named_def review_wf_def coord_demo_review_def
      key_unique_def present_def blank_def is_space_def)

lemma event_bodies_differ:
  assumes "et \<noteq> et'" and "json_wf p" and "json_wf p'"
  shows "event_body r a et p t h \<noteq> event_body r' a' et' p' t' h'"
  using evidence_chain.body_inj [of "(r, a, et, p, t)" "(r', a', et', p', t')" h h'] assms
  by (auto simp: content_wf_def content_body_def)

lemma coord_demo_authorize:
  "\<exists>gs. authorize demo_gate (Some 0) 0 (Some gate_demo_capability) gate_demo_intent [] (cd_gate coord_demo_db) =
    (Inr (sc_grant gate_demo_capability), (cd_gate coord_demo_db)\<lparr>gd_grants := gs\<rparr>)"
proof -
  from gate_demo_granted have a: "gate_grant demo_gate gate_demo_capability = Inr (sc_grant gate_demo_capability)"
    "verify_grant_intent demo_gate (Some 0) 0 (sc_grant gate_demo_capability) = Inr ()"
    "check_authority demo_gate gate_demo_authority (sc_grant gate_demo_capability) = Inr ()"
    "consume_capability_grant (ge_crypto demo_gate) (Some 0) 0 (sc_grant gate_demo_capability) gate_demo_intent [] = Inr ()"
    "cg_scope (sc_grant gate_demo_capability) = gate_scope gate_demo_intent"
    by (simp_all add: authority_granted_def)
  have st: "sg_grant_id (stored_grant gate_demo_capability) = ''g''" "cg_grant_id (sc_grant gate_demo_capability) = ''g''"
    by (simp_all add: stored_grant_def gate_demo_capability_def)
  have db: "ge_db demo_gate" by (simp add: demo_gate_def)
  show ?thesis
    by (simp add: authorize_def a db st coord_demo_db_def empty_gate_db_def gate_register_def bindS_def commitS_def rescue_def
        ensure_registered_def grant_status_def grant_register_def new_grant_row_def ensure_def)
qed

abbreviation demo_op :: "string \<Rightarrow> string option \<Rightarrow> retry_operation" where
  "demo_op st n \<equiv> updated_operation st n 0 (new_operation coord_demo_review ''claim_c'' 0)"

text \<open>The state after each step; the evidence rows are kept abstract up to their types.\<close>

definition demo_state :: "grant_table \<Rightarrow> attempts \<Rightarrow> retry_operation \<Rightarrow> evidence_db \<Rightarrow> (string \<times> string) list coord_db" where
  "demo_state gs as op ev = \<lparr>cd_gate = empty_gate_db\<lparr>gd_authority := gate_demo_authority, gd_attempts := as, gd_grants := gs\<rparr>,
     cd_recovery = \<lparr>rec_reviews = [coord_demo_review], rec_operations = [op]\<rparr>, cd_evidence = ev\<rparr>"

definition bodies_of :: "string list \<Rightarrow> evidence_db \<Rightarrow> bool" where
  "bodies_of types ev \<longleftrightarrow> (\<forall>x \<in> set (ev_rows ev). \<exists>r a et p t h. et \<in> set types \<and> json_wf p \<and> er_event_hash x = event_body r a et p t h)"

lemma demo_evidence_step:
  assumes "bodies_of types ev" and "et \<notin> set types" and "json_wf (JObj p)" and "\<not> blank et"
  shows "\<exists>ev'. record_evidence coord_demo ''r'' ''a'' et p 0 (demo_state gs as op ev) = (Inr (), demo_state gs as op ev') \<and>
    bodies_of (et # types) ev'"
proof -
  let ?h = "event_body ''r'' ''a'' et (JObj p) (isoformat 0) (previous_hash ev ''r'')"
  have "er_event_hash x \<noteq> ?h" if "x \<in> set (ev_rows ev)" for x
  proof -
    from assms(1) that obtain r a et' q t h where x: "et' \<in> set types" "json_wf q" "er_event_hash x = event_body r a et' q t h"
      unfolding bodies_of_def by blast
    with assms(2) have "et' \<noteq> et" by auto
    from event_bodies_differ [OF this x(2) assms(3)] x(3) show ?thesis by simp
  qed
  then have fresh: "lookup_row er_event_hash (ev_rows ev) ?h = None" by (simp add: lookup_row_None_iff)
  define row where "row = \<lparr>er_event_id = ev_seq ev + 1, er_recovery_id = ''r'', er_attempt_id = ''a'', er_event_type = et,
      er_payload = JObj p, er_occurred_at = isoformat 0, er_prev_hash = previous_hash ev ''r'', er_event_hash = ?h\<rparr>"
  have "\<not> blank ''r''" "\<not> blank ''a''" by (simp_all add: blank_def is_space_def)
  then have "evidence_append (\<lambda>t. t) ev ''r'' ''a'' et (Some (JObj p)) (isoformat 0) =
      Inr (row, \<lparr>ev_rows = ev_rows ev @ [row], ev_seq = ev_seq ev + 1\<rparr>)"
    using fresh assms(4) by (simp add: evidence_append_def evidence_append_at_def evidence_draft_def evidence_insert_def Let_def hash_event_def row_def get_event_def table_simps)
  moreover have "bodies_of (et # types) \<lparr>ev_rows = ev_rows ev @ [row], ev_seq = ev_seq ev + 1\<rparr>"
  proof -
    have "\<exists>r a et' p t h. et' \<in> set (et # types) \<and> json_wf p \<and> er_event_hash x = event_body r a et' p t h"
      if "x \<in> set (ev_rows ev)" for x
      using assms(1) that unfolding bodies_of_def by (meson list.set_intros(2))
    moreover have "er_event_hash row = ?h" by (simp add: row_def)
    then have "\<exists>r a et' p t h. et' \<in> set (et # types) \<and> json_wf p \<and> er_event_hash row = event_body r a et' p t h"
      using assms(3) by (meson list.set_intros(1))
    ultimately show ?thesis unfolding bodies_of_def by auto
  qed
  ultimately show ?thesis
    by (simp add: record_evidence_def commitS_def demo_state_def coord_demo_def)
qed

lemma coord_demo_run:
  "\<exists>r db. retry_if_safe coord_demo coord_demo_call coord_demo_db = (Inr (Some r), db) \<and> at_attempt_id r = ''attempt_h''"
proof -
  obtain gs where au: "authorize demo_gate (Some 0) 0 (Some gate_demo_capability) gate_demo_intent [] (cd_gate coord_demo_db) =
    (Inr (sc_grant gate_demo_capability), (cd_gate coord_demo_db)\<lparr>gd_grants := gs\<rparr>)" using coord_demo_authorize by blast
  have g: "cg_grant_id (sc_grant gate_demo_capability) = ''g''" "cg_task_id (sc_grant gate_demo_capability) = ''t''"
    "cg_intent_hash (sc_grant gate_demo_capability) = ''d''" by (simp_all add: gate_demo_capability_def)
  let ?claim = "new_operation coord_demo_review ''claim_c'' 0" and ?as = "[coord_demo_attempt]"
  let ?old = "transition_row coord_demo_attempt ABORTED 0 (no_args\<lparr>targ_error := ''recovery_verified_safe_to_retry''\<rparr>) coord_demo_attempt"
  let ?new = "new_attempt ''attempt_h'' ''t'' ''g'' ''d'' ''k'' 2 0"
  have start: "coord_demo_db\<lparr>cd_recovery := \<lparr>rec_reviews = [coord_demo_review], rec_operations = [?claim]\<rparr>\<rparr> =
      demo_state [] ?as ?claim empty_evidence"
    by (simp add: demo_state_def coord_demo_db_def empty_gate_db_def)
  have claim: "on_recovery (\<lambda>db. claim_retry db coord_demo_review ''c'' 0) coord_demo_db =
      (Inr (?claim, True), demo_state [] ?as ?claim empty_evidence)"
    unfolding start [symmetric]
    by (simp add: on_recovery_def commitS_def coord_demo_db_def claim_retry_def Let_def get_retry_operation_def coord_demo_review_def
        new_operation_def)
  have re: "reauthorize_retry coord_demo coord_demo_call coord_demo_attempt gid (demo_state [] ?as ?claim empty_evidence) =
      (Inr gate_demo_capability, demo_state gs ?as ?claim empty_evidence)" for gid
    using au g by (simp add: reauthorize_retry_def fresh_retry_grant_def coord_demo_def coord_demo_call_def coord_demo_attempt_def
        bindS_def rescue_def catchS_def on_gate_def demo_state_def coord_demo_db_def empty_gate_db_def)
  have up1: "update_operation coord_demo_review ''AUTHORIZED'' None 0 (Some ''claim_c'') (demo_state gs as ?claim ev) =
      (Inr (Some (demo_op ''AUTHORIZED'' None)), demo_state gs as (demo_op ''AUTHORIZED'' None) ev)" for as ev
    by (simp add: update_operation_def on_recovery_def commitS_def demo_state_def update_retry_operation_at_def get_retry_operation_def
        new_operation_def coord_demo_review_def retry_allowed_def updated_operation_def Let_def count_where_def blank_def is_space_def
        claim_stale_def claim_lease_def)
  have up2: "update_operation coord_demo_review ''CREATED'' (Some ''attempt_h'') 0 None (demo_state gs as (demo_op ''AUTHORIZED'' None) ev) =
      (Inr (Some (demo_op ''CREATED'' (Some ''attempt_h''))), demo_state gs as (demo_op ''CREATED'' (Some ''attempt_h'')) ev)" for as ev
    by (simp add: update_operation_def on_recovery_def commitS_def demo_state_def update_retry_operation_at_def get_retry_operation_def
        new_operation_def coord_demo_review_def retry_allowed_def updated_operation_def Let_def count_where_def blank_def is_space_def)
  have move: "move_attempt ''a'' ABORTED 0 ''recovery_verified_safe_to_retry'' (demo_state gs ?as op ev) =
      (Inr (), demo_state gs [?old] op ev)" for op ev
  proof -
    have "attempts_inv ?as" using coord_demo_inv by (simp add: coord_inv_def gate_inv_def coord_demo_db_def)
    note transition_eq [OF this, of "''a''" "''ABORTED''" 0 "no_args\<lparr>targ_error := ''recovery_verified_safe_to_retry''\<rparr>"]
    moreover have "at_attempt_id coord_demo_attempt = ''a''" "at_state coord_demo_attempt = RUNNING" by (simp_all add: coord_demo_attempt_def)
    moreover have "parse_attempt_state ''ABORTED'' = Some ABORTED" by (simp add: parse_attempt_state_def all_attempt_states_def)
    ultimately have "attempt_transition ?as ''a'' ''ABORTED'' 0 (no_args\<lparr>targ_error := ''recovery_verified_safe_to_retry''\<rparr>) =
        Inr (?old, [?old])" by simp
    then show ?thesis
      by (simp add: move_attempt_def bindS_def on_gate_def gate_transition_def commitS_def demo_state_def empty_gate_db_def)
  qed
  have create: "attempt_create [?old] ''h'' ''t'' ''g'' ''d'' ''k'' 0 True = Inr (?new, [?old, ?new])"
  proof -
    have old: "at_attempt_id ?old = ''a''" "at_idempotency_key ?old = ''k''" "at_attempt_number ?old = 1" "at_state ?old = ABORTED"
      by (simp_all add: transition_row_def coord_demo_attempt_def)
    then have "find_by_idempotency_key [?old] ''k'' = Some ?old" by (simp add: find_by_idempotency_key_def)
    with old show ?thesis
      by (simp add: attempt_create_def attempt_create_at_def attempt_terminal_def Let_def) (simp add: new_attempt_def)
  qed
  have names: "\<not> blank ''RETRY_AUTHORIZED''" "\<not> blank ''ORIGINAL_ABORTED''" "\<not> blank ''RETRY_CREATED''"
    "''RETRY_AUTHORIZED'' \<notin> set []" "''ORIGINAL_ABORTED'' \<notin> set [''RETRY_AUTHORIZED'']"
    "''RETRY_CREATED'' \<notin> set [''ORIGINAL_ABORTED'', ''RETRY_AUTHORIZED'']"
    by (simp_all add: blank_def is_space_def)
  have ev0: "bodies_of [] empty_evidence" by (simp add: bodies_of_def empty_evidence_def)
  have wf1: "json_wf (JObj [(''grant_id'', JStr ''g''), (''outcome_id'', optional_text (Some ''o'')), (''verifier_id'', optional_text (Some ''v''))])"
    by (simp add: optional_text_def)
  obtain ev1 where ev1: "record_evidence coord_demo ''r'' ''a'' ''RETRY_AUTHORIZED'' [(''grant_id'', JStr ''g''), (''outcome_id'', optional_text (Some ''o'')), (''verifier_id'', optional_text (Some ''v''))] 0
      (demo_state gs ?as (demo_op ''AUTHORIZED'' None) empty_evidence) = (Inr (), demo_state gs ?as (demo_op ''AUTHORIZED'' None) ev1)"
    "bodies_of [''RETRY_AUTHORIZED''] ev1"
    using demo_evidence_step [OF ev0 names(4) wf1 names(1), of gs "?as" "demo_op ''AUTHORIZED'' None"] by blast
  have wf2: "json_wf (JObj [(''reason'', JStr ''recovery_verified_safe_to_retry'')])"
    by (simp add: optional_text_def)
  obtain ev2 where ev2: "record_evidence coord_demo ''r'' ''a'' ''ORIGINAL_ABORTED'' [(''reason'', JStr ''recovery_verified_safe_to_retry'')] 0
      (demo_state gs [?old] (demo_op ''AUTHORIZED'' None) ev1) = (Inr (), demo_state gs [?old] (demo_op ''AUTHORIZED'' None) ev2)"
    "bodies_of [''ORIGINAL_ABORTED'', ''RETRY_AUTHORIZED''] ev2"
    using demo_evidence_step [OF ev1(2) names(5) wf2 names(2), of gs "[?old]" "demo_op ''AUTHORIZED'' None"] by blast
  have wf3: "json_wf (JObj [(''grant_id'', JStr ''g''), (''retry_attempt_id'', JStr ''attempt_h'')])"
    by (simp add: optional_text_def)
  obtain ev3 where ev3: "record_evidence coord_demo ''r'' ''a'' ''RETRY_CREATED'' [(''grant_id'', JStr ''g''), (''retry_attempt_id'', JStr ''attempt_h'')] 0
      (demo_state gs [?old, ?new] (demo_op ''CREATED'' (Some ''attempt_h'')) ev2) = (Inr (), demo_state gs [?old, ?new] (demo_op ''CREATED'' (Some ''attempt_h'')) ev3)"
    "bodies_of [''RETRY_CREATED'', ''ORIGINAL_ABORTED'', ''RETRY_AUTHORIZED''] ev3"
    using demo_evidence_step [OF ev2(2) names(6) wf3 names(3), of gs "[?old, ?new]" "demo_op ''CREATED'' (Some ''attempt_h'')"] by blast
  have rv: "rv_recovery_id coord_demo_review = ''r''" "rv_decision coord_demo_review = SAFE_TO_RETRY"
    "rv_outcome_id coord_demo_review = Some ''o''" "rv_verifier_id coord_demo_review = Some ''v''"
    by (simp_all add: coord_demo_review_def)
  have call: "rc_attempt_id coord_demo_call = ''a''" "rc_now coord_demo_call = Some 0" "rc_claim_hex coord_demo_call = ''c''"
    "rc_create_hex coord_demo_call = ''h''" by (simp_all add: coord_demo_call_def)
  have cl: "op_state ?claim = ''CLAIMED''" "op_claim_token ?claim = Some ''claim_c''" "op_retry_attempt_id ?claim = None"
    by (simp_all add: new_operation_def)
  have au: "retry_authority coord_demo coord_demo_call coord_demo_review coord_demo_attempt ?claim True (demo_state [] ?as ?claim empty_evidence) =
      (Inr gate_demo_capability, demo_state gs ?as (demo_op ''AUTHORIZED'' None) ev1)"
    by (simp add: retry_authority_def cl re call up1 rv g ev1(1))
  have read: "read_attempt ''a'' (demo_state gs' ?as op ev) = (Inr coord_demo_attempt, demo_state gs' ?as op ev)" for gs' op ev
    by (simp add: read_attempt_def attempt_get_def demo_state_def empty_gate_db_def coord_demo_attempt_def)
  have read0: "read_attempt ''a'' coord_demo_db = (Inr coord_demo_attempt, coord_demo_db)"
    by (simp add: read_attempt_def attempt_get_def coord_demo_db_def empty_gate_db_def coord_demo_attempt_def)
  have running: "at_state coord_demo_attempt = RUNNING" by (simp add: coord_demo_attempt_def)
  have ab: "abort_original coord_demo coord_demo_call coord_demo_review (demo_state gs ?as (demo_op ''AUTHORIZED'' None) ev1) =
      (Inr coord_demo_attempt, demo_state gs [?old] (demo_op ''AUTHORIZED'' None) ev2)"
    by (simp add: abort_original_def call read running catchS_def move rv ev2(1))
  have work: "at_task_id coord_demo_attempt = ''t''" "at_intent_hash coord_demo_attempt = ''d''" "at_idempotency_key coord_demo_attempt = ''k''"
    by (simp_all add: coord_demo_attempt_def)
  have none: "find_by_grant_id [?old] ''g'' = None" by (simp add: find_by_grant_id_def coord_demo_attempt_def)
  have table: "gd_attempts (cd_gate (demo_state gs as op ev)) = as" for as op ev by (simp add: demo_state_def)
  have made: "on_gate (commitS (\<lambda>db. bindR (attempt_create (gd_attempts db) ''h'' ''t'' ''g'' ''d'' ''k'' 0 True)
      (\<lambda>(r, as). Inr (r, db\<lparr>gd_attempts := as\<rparr>)))) (demo_state gs [?old] op ev) = (Inr ?new, demo_state gs [?old, ?new] op ev)" for op ev
    by (simp add: on_gate_def commitS_def demo_state_def empty_gate_db_def create)
  have newid: "at_attempt_id ?new = ''attempt_h''" by (simp add: new_attempt_def)
  have cr: "create_retry coord_demo coord_demo_call coord_demo_review gate_demo_capability coord_demo_attempt
      (demo_state gs [?old] (demo_op ''AUTHORIZED'' None) ev2) =
      (Inr ?new, demo_state gs [?old, ?new] (demo_op ''CREATED'' (Some ''attempt_h'')) ev3)"
    unfolding create_retry_def record_retry_def
    by (simp add: call work g made catchS_def newid up2 rv ev3 table none)
  have stored: "recovery_get_by_attempt (cd_recovery coord_demo_db) ''a'' = Some coord_demo_review"
    by (simp add: recovery_get_by_attempt_def coord_demo_db_def coord_demo_review_def)
  have "retry_under_claim coord_demo coord_demo_call coord_demo_review coord_demo_db =
      (Inr ?new, demo_state gs [?old, ?new] (demo_op ''CREATED'' (Some ''attempt_h'')) ev3)"
    by (simp add: retry_under_claim_def call read0 claim cl given_or_def au ab cr)
  then have "retry_if_safe coord_demo coord_demo_call coord_demo_db =
      (Inr (Some ?new), demo_state gs [?old, ?new] (demo_op ''CREATED'' (Some ''attempt_h'')) ev3)"
    by (simp add: retry_if_safe_def call read0 stored rv)
  with newid show ?thesis by blast
qed

theorem retry_needs_verified_safety_witness:
  "\<exists>r db. retry_if_safe coord_demo coord_demo_call coord_demo_db = (Inr (Some r), db) \<and> retried_as ''a'' ''attempt_h'' (cd_recovery db)"
proof -
  obtain r db where run: "retry_if_safe coord_demo coord_demo_call coord_demo_db = (Inr (Some r), db)" "at_attempt_id r = ''attempt_h''"
    using coord_demo_run by blast
  have "rc_attempt_id coord_demo_call = ''a''" by (simp add: coord_demo_call_def)
  with retry_needs_verified_safety [OF coord_demo_inv run(1)] run show ?thesis by auto
qed

theorem retried_at_most_once_witness:
  "\<exists>r db. retry_if_safe coord_demo coord_demo_call coord_demo_db = (Inr (Some r), db) \<and>
     snd (retry_if_safe coord_demo coord_demo_call (fold coord_step [CoordRetry coord_demo coord_demo_call, OutsideGate (cd_gate db)] db)) =
       fold coord_step [CoordRetry coord_demo coord_demo_call, OutsideGate (cd_gate db)] db"
proof -
  obtain r db where run: "retry_if_safe coord_demo coord_demo_call coord_demo_db = (Inr (Some r), db)"
    using coord_demo_run by blast
  from retried_at_most_once [OF coord_demo_inv run disjI1 [OF refl] prod.collapse [symmetric] refl] run show ?thesis by blast
qed

end
