(* ===== verification/Dossier.thy ===== *)
theory Dossier
  imports Signing
begin

text \<open>
  Experiment dossiers (\<^verbatim>\<open>src/shared/experiment_dossier.py\<close>), signed receipts of laboratory
  executions (\<^verbatim>\<open>src/shared/lab_execution_receipt.py\<close>) and the check that a receipt speaks
  about exactly one dossier (\<^verbatim>\<open>src/shared/independent_runner_attestation.py\<close>). Values are
  JSON values without floats; texts hold no surrogates, so they always encode. The bytes of
  artifact files (\<^verbatim>\<open>verify_experiment_dossier_artifacts\<close>) are not modelled.
\<close>

section \<open>Dossiers\<close>

definition dossier_schema :: string where
  "dossier_schema = ''evm-key-forensics-experiment-dossier-v1''"

definition dossier_fields :: "string list" where
  "dossier_fields = [''artifacts'', ''command'', ''execution'', ''experiment_id'', ''fixture'', ''harness'', ''nonce'',
     ''result_sha256'', ''run_id'', ''runner'', ''safety'', ''schema_version'', ''source'']"

definition lower_hex :: "char \<Rightarrow> bool" where
  "lower_hex c \<longleftrightarrow> (48 \<le> char_code c \<and> char_code c \<le> 57) \<or> (97 \<le> char_code c \<and> char_code c \<le> 102)"

definition is_digest :: "string \<Rightarrow> bool" where
  "is_digest s \<longleftrightarrow> length s = 64 \<and> list_all lower_hex s"

text \<open>A dict with exactly the expected keys.\<close>

definition dossier_object :: "json \<Rightarrow> string \<Rightarrow> string list \<Rightarrow> (string \<times> json) list result" where
  "dossier_object v field expected = (case v of
      JObj kvs \<Rightarrow>
       (let missing = absent_fields expected kvs; extra = sort (filter (\<lambda>k. k \<notin> set expected) (map fst kvs)) in
        if missing \<noteq> [] then raise ExperimentDossierError (field @ ''_fields_missing:'' @ join_comma missing)
        else if extra \<noteq> [] then raise ExperimentDossierError (field @ ''_fields_unknown:'' @ join_comma extra)
        else Inr kvs)
    | _ \<Rightarrow> raise ExperimentDossierError (field @ ''_must_be_object''))"

fun dossier_text :: "json \<Rightarrow> string \<Rightarrow> string result" where
  "dossier_text (JStr s) field =
    (if strip s = [] then raise ExperimentDossierError (field @ ''_required'')
     else if s \<noteq> strip s then raise ExperimentDossierError (field @ ''_surrounding_whitespace'')
     else Inr s)"
| "dossier_text _ field = raise ExperimentDossierError (field @ ''_required'')"

fun dossier_digest :: "json \<Rightarrow> string \<Rightarrow> string result" where
  "dossier_digest (JStr s) field =
    (if is_digest s then Inr s else raise ExperimentDossierError (field @ ''_invalid_sha256''))"
| "dossier_digest _ field = raise ExperimentDossierError (field @ ''_invalid_sha256'')"

text \<open>\<^verbatim>\<open>value.replace("Z", "+00:00")\<close>.\<close>

definition replace_z :: "string \<Rightarrow> string" where
  "replace_z s = concat (map (\<lambda>ch. if ch = CHR ''Z'' then ''+00:00'' else [ch]) s)"

definition dossier_timestamp :: "crypto \<Rightarrow> json \<Rightarrow> string \<Rightarrow> instant result" where
  "dossier_timestamp c v field = bindR (dossier_text v field) (\<lambda>s.
     case cr_parse_time c (replace_z s) of
       Aware t \<Rightarrow> Inr t
     | _ \<Rightarrow> raise ExperimentDossierError (field @ ''_invalid_timestamp''))"

definition dossier_source :: "json \<Rightarrow> unit result" where
  "dossier_source v = bindR (dossier_object v ''source'' [''repository'', ''revision'']) (\<lambda>source.
     bindR (dossier_text (json_get source ''repository'') ''source_repository'') (\<lambda>_.
     case json_get source ''revision'' of
       JStr r \<Rightarrow> ensure (40 \<le> length r \<and> length r \<le> 64 \<and> list_all lower_hex r) ExperimentDossierError
          ''source_revision_must_be_full_git_object_id''
     | _ \<Rightarrow> raise ExperimentDossierError ''source_revision_must_be_full_git_object_id''))"

definition dossier_fixture :: "json \<Rightarrow> unit result" where
  "dossier_fixture v = bindR (dossier_object v ''fixture'' [''fixture_id'', ''sha256'']) (\<lambda>fixture.
     bindR (dossier_text (json_get fixture ''fixture_id'') ''fixture_id'') (\<lambda>_.
     bindR (dossier_digest (json_get fixture ''sha256'') ''fixture_sha256'') (\<lambda>_. Inr ())))"

fun all_texts :: "json list \<Rightarrow> bool" where
  "all_texts [] = True"
| "all_texts (JStr s # xs) = all_texts xs"
| "all_texts _ = False"

definition dossier_command :: "crypto \<Rightarrow> json \<Rightarrow> unit result" where
  "dossier_command c v = bindR (dossier_object v ''command'' [''argv'', ''argv_sha256'']) (\<lambda>command.
     case json_get command ''argv'' of
       JArr argv \<Rightarrow>
        (if argv = [] \<or> \<not> all_texts argv
         then raise ExperimentDossierError ''command_argv_must_be_nonempty_string_list''
         else bindR (dossier_digest (json_get command ''argv_sha256'') ''command_argv_sha256'') (\<lambda>d.
           ensure (d = cr_sha256 c (canonical_text (JArr argv))) ExperimentDossierError ''command_argv_digest_mismatch''))
     | _ \<Rightarrow> raise ExperimentDossierError ''command_argv_must_be_nonempty_string_list'')"

definition dossier_harness :: "json \<Rightarrow> unit result" where
  "dossier_harness v = bindR (dossier_object v ''harness'' [''build_recipe_sha256'', ''harness_sha256'']) (\<lambda>harness.
     bindR (dossier_digest (json_get harness ''harness_sha256'') ''harness_sha256'') (\<lambda>_.
     bindR (dossier_digest (json_get harness ''build_recipe_sha256'') ''build_recipe_sha256'') (\<lambda>_. Inr ())))"

definition dossier_runner :: "json \<Rightarrow> unit result" where
  "dossier_runner v = bindR (dossier_object v ''runner'' [''image_digest'', ''provider_id'', ''runner_id'']) (\<lambda>runner.
     bindR (dossier_text (json_get runner ''provider_id'') ''provider_id'') (\<lambda>_.
     bindR (dossier_text (json_get runner ''runner_id'') ''runner_id'') (\<lambda>_.
     if json_get runner ''image_digest'' = JNull then Inr ()
     else bindR (dossier_digest (json_get runner ''image_digest'') ''runner_image_digest'') (\<lambda>_. Inr ()))))"

fun is_integer :: "json \<Rightarrow> bool" where
  "is_integer (JInt i) = True"
| "is_integer _ = False"

definition dossier_execution :: "crypto \<Rightarrow> json \<Rightarrow> unit result" where
  "dossier_execution c v = bindR (dossier_object v ''execution''
       [''completed_at'', ''exit_code'', ''started_at'', ''test_passed'', ''timed_out'']) (\<lambda>execution.
     bindR (dossier_timestamp c (json_get execution ''started_at'') ''execution_started_at'') (\<lambda>started.
     bindR (dossier_timestamp c (json_get execution ''completed_at'') ''execution_completed_at'') (\<lambda>completed.
     bindR (ensure (\<not> completed < started) ExperimentDossierError ''execution_time_order_invalid'') (\<lambda>_.
     bindR (ensure (is_integer (json_get execution ''exit_code'')) ExperimentDossierError
       ''execution_exit_code_must_be_integer'') (\<lambda>_.
     bindR (ensure (is_bool (json_get execution ''timed_out'')) ExperimentDossierError
       ''execution_timed_out_must_be_boolean'') (\<lambda>_.
     ensure (is_bool (json_get execution ''test_passed'')) ExperimentDossierError
       ''execution_test_passed_must_be_boolean''))))))"

section \<open>Artifact names\<close>

fun split_slash :: "string \<Rightarrow> string list" where
  "split_slash [] = [[]]"
| "split_slash (ch # s) = (if ch = CHR ''/'' then [] # split_slash s
     else (case split_slash s of p # ps \<Rightarrow> (ch # p) # ps | [] \<Rightarrow> [[ch]]))"

definition ascii_letter :: "char \<Rightarrow> bool" where
  "ascii_letter ch \<longleftrightarrow> (65 \<le> char_code ch \<and> char_code ch \<le> 90) \<or> (97 \<le> char_code ch \<and> char_code ch \<le> 122)"

definition artifact_path_ok :: "string \<Rightarrow> bool" where
  "artifact_path_ok name \<longleftrightarrow> CHR 0x5C \<notin> set name \<and> CHR 0x00 \<notin> set name \<and> take 1 name \<noteq> ''/'' \<and>
     \<not> (case name of a # b # _ \<Rightarrow> ascii_letter a \<and> b = CHR '':'' | _ \<Rightarrow> False) \<and>
     list_all (\<lambda>part. part \<notin> {[], ''.'', ''..''}) (split_slash name)"

fun dossier_artifacts :: "nat \<Rightarrow> string list \<Rightarrow> json list \<Rightarrow> unit result" where
  "dossier_artifacts index seen [] = Inr ()"
| "dossier_artifacts index seen (a # as) =
    bindR (dossier_object a (''artifact_'' @ nat_str index) [''name'', ''sha256'']) (\<lambda>artifact.
    bindR (dossier_text (json_get artifact ''name'') (''artifact_'' @ nat_str index @ ''_name'')) (\<lambda>name.
    if \<not> artifact_path_ok name then raise ExperimentDossierError ''artifact_path_invalid''
    else if name \<in> set seen then raise ExperimentDossierError ''duplicate_artifact_name''
    else bindR (dossier_digest (json_get artifact ''sha256'') (''artifact_'' @ nat_str index @ ''_sha256'')) (\<lambda>_.
      dossier_artifacts (Suc index) (name # seen) as)))"

definition dossier_artifact_list :: "json \<Rightarrow> json list result" where
  "dossier_artifact_list v = (case v of
      JArr as \<Rightarrow> bindR (dossier_artifacts 0 [] as) (\<lambda>_. Inr as)
    | _ \<Rightarrow> raise ExperimentDossierError ''artifacts_must_be_list'')"

definition dossier_safety :: "json \<Rightarrow> unit result" where
  "dossier_safety v = bindR (dossier_object v ''safety''
       [''historical_code_executed'', ''real_key_material_handled'', ''scope'']) (\<lambda>safety.
     let sc = json_get safety ''scope''; historical = json_get safety ''historical_code_executed'';
         real = json_get safety ''real_key_material_handled'' in
     if sc \<noteq> JStr ''synthetic_only'' \<and> sc \<noteq> JStr ''source_inspection_only''
     then raise ExperimentDossierError ''unsafe_or_unknown_experiment_scope''
     else if \<not> is_bool historical then raise ExperimentDossierError ''safety_historical_code_executed_must_be_boolean''
     else if \<not> is_bool real then raise ExperimentDossierError ''safety_real_key_material_handled_must_be_boolean''
     else if sc = JStr ''source_inspection_only'' \<and> truthy historical
     then raise ExperimentDossierError ''source_inspection_scope_conflicts_with_execution_claim''
     else if sc = JStr ''synthetic_only'' \<and> truthy real
     then raise ExperimentDossierError ''synthetic_scope_conflicts_with_key_material_claim''
     else Inr ())"

definition dossier_sha256 :: "crypto \<Rightarrow> json \<Rightarrow> string" where
  "dossier_sha256 c dossier = cr_sha256 c (canonical_text dossier)"

definition dossier_summary :: "crypto \<Rightarrow> json \<Rightarrow> (string \<times> json) list \<Rightarrow> json list \<Rightarrow> json" where
  "dossier_summary c dossier d as = JObj [(''artifact_count'', JInt (int (length as))),
     (''dossier_sha256'', JStr (dossier_sha256 c dossier)), (''experiment_id'', json_get d ''experiment_id''),
     (''qualification'', JStr ''NOT_ESTABLISHED''), (''run_id'', json_get d ''run_id''),
     (''schema_version'', JStr dossier_schema), (''valid'', JBool True)]"

definition validate_experiment_dossier :: "crypto \<Rightarrow> json \<Rightarrow> json result" where
  "validate_experiment_dossier c dossier = bindR (dossier_object dossier ''dossier'' dossier_fields) (\<lambda>d.
     bindR (ensure (json_get d ''schema_version'' = JStr dossier_schema) ExperimentDossierError
       ''unsupported_dossier_schema'') (\<lambda>_.
     bindR (dossier_text (json_get d ''experiment_id'') ''experiment_id'') (\<lambda>_.
     bindR (dossier_text (json_get d ''run_id'') ''run_id'') (\<lambda>_.
     bindR (dossier_text (json_get d ''nonce'') ''nonce'') (\<lambda>_.
     bindR (dossier_source (json_get d ''source'')) (\<lambda>_.
     bindR (dossier_fixture (json_get d ''fixture'')) (\<lambda>_.
     bindR (dossier_command c (json_get d ''command'')) (\<lambda>_.
     bindR (dossier_harness (json_get d ''harness'')) (\<lambda>_.
     bindR (dossier_runner (json_get d ''runner'')) (\<lambda>_.
     bindR (dossier_execution c (json_get d ''execution'')) (\<lambda>_.
     bindR (dossier_digest (json_get d ''result_sha256'') ''result_sha256'') (\<lambda>_.
     bindR (dossier_artifact_list (json_get d ''artifacts'')) (\<lambda>as.
     bindR (dossier_safety (json_get d ''safety'')) (\<lambda>_.
     Inr (dossier_summary c dossier d as)))))))))))))))"

section \<open>Signed receipts\<close>

text \<open>\<^verbatim>\<open>text.encode("utf-8")\<close> of code points below 256.\<close>

definition utf8 :: "string \<Rightarrow> string" where
  "utf8 s = concat (map (\<lambda>ch. let n = (of_char ch :: nat) in
     if n < 128 then [ch] else [char_of (192 + n div 64), char_of (128 + n mod 64)]) s)"

definition receipt_bytes :: "json \<Rightarrow> string" where
  "receipt_bytes j = utf8 (dumps False j)"

definition receipt_type :: string where
  "receipt_type = ''aegisforge.lab_execution''"

text \<open>\<open>artifacts\<close> is None for the default.\<close>

definition build_receipt :: "json \<Rightarrow> json \<Rightarrow> json \<Rightarrow> json \<Rightarrow> json option \<Rightarrow> json result" where
  "build_receipt run_id experiment_id inputs execution artifacts =
    (if \<not> text_present run_id then raise LabExecutionReceiptError ''run_id_required''
     else if \<not> text_present experiment_id then raise LabExecutionReceiptError ''experiment_id_required''
     else if \<not> is_dict inputs \<or> \<not> is_dict execution then raise LabExecutionReceiptError ''inputs_and_execution_objects_required''
     else if (case artifacts of None \<Rightarrow> False | Some a \<Rightarrow> \<not> is_dict a) then raise LabExecutionReceiptError ''artifacts_object_required''
     else Inr (JObj [(''artifacts'', case artifacts of None \<Rightarrow> JObj [] | Some a \<Rightarrow> a), (''execution'', execution),
        (''experiment_id'', experiment_id), (''inputs'', inputs), (''receipt_type'', JStr receipt_type),
        (''run_id'', run_id), (''schema_version'', JInt 1)]))"

definition validate_receipt_shape :: "json \<Rightarrow> (string \<times> json) list result" where
  "validate_receipt_shape receipt = (case receipt of
      JObj r \<Rightarrow>
       (if json_get r ''schema_version'' \<noteq> JInt 1 then raise LabExecutionReceiptError ''unsupported_receipt_schema''
        else if json_get r ''receipt_type'' \<noteq> JStr receipt_type then raise LabExecutionReceiptError ''unsupported_receipt_schema''
        else if \<not> text_present (json_get r ''run_id'') then raise LabExecutionReceiptError ''run_id_required''
        else if \<not> text_present (json_get r ''experiment_id'') then raise LabExecutionReceiptError ''experiment_id_required''
        else if \<not> is_dict (json_get r ''inputs'') then raise LabExecutionReceiptError ''inputs_object_required''
        else if \<not> is_dict (json_get r ''execution'') then raise LabExecutionReceiptError ''execution_object_required''
        else if \<not> is_dict (json_get r ''artifacts'') then raise LabExecutionReceiptError ''artifacts_object_required''
        else Inr r)
    | _ \<Rightarrow> raise LabExecutionReceiptError ''receipt_object_required'')"

definition receipt_sha256 :: "crypto \<Rightarrow> json \<Rightarrow> string result" where
  "receipt_sha256 c receipt = bindR (validate_receipt_shape receipt) (\<lambda>_. Inr (cr_sha256 c (receipt_bytes receipt)))"

definition receipt_domain :: string where
  "receipt_domain = ''aegisforge.lab_execution_receipt.signature.v1''"

definition receipt_signature_payload :: "string \<Rightarrow> json \<Rightarrow> string \<Rightarrow> string \<Rightarrow> string" where
  "receipt_signature_payload key_id receipt digest fingerprint = receipt_bytes (JObj
     [(''algorithm'', JStr ''Ed25519''), (''domain'', JStr receipt_domain), (''key_id'', JStr key_id), (''receipt'', receipt),
      (''receipt_sha256'', JStr digest), (''schema_version'', JInt 1), (''signer_public_key_sha256'', JStr fingerprint)])"

definition sign_receipt :: "crypto \<Rightarrow> string \<Rightarrow> string \<Rightarrow> json \<Rightarrow> json result" where
  "sign_receipt c key key_id receipt =
    (if blank key_id then raise LabExecutionReceiptError ''key_id_required''
     else bindR (validate_receipt_shape receipt) (\<lambda>_.
       let digest = cr_sha256 c (receipt_bytes receipt); fingerprint = cr_sha256 c (cr_public c key) in
       Inr (JObj [(''algorithm'', JStr ''Ed25519''), (''key_id'', JStr key_id), (''receipt'', receipt),
         (''receipt_sha256'', JStr digest), (''schema_version'', JInt 1),
         (''signature'', JStr (cr_b64encode c (cr_sign c key (receipt_signature_payload key_id receipt digest fingerprint)))),
         (''signer_public_key_sha256'', JStr fingerprint)])))"

definition signed_receipt_fields :: "string list" where
  "signed_receipt_fields = [''algorithm'', ''key_id'', ''receipt'', ''receipt_sha256'', ''schema_version'', ''signature'',
     ''signer_public_key_sha256'']"

record verified_receipt =
  vr_key_id :: string
  vr_sha256 :: string
  vr_receipt :: "(string \<times> json) list"

text \<open>\<open>trusted\<close> maps key ids to raw public keys.\<close>

definition verify_signed_receipt :: "crypto \<Rightarrow> (string \<Rightarrow> string option) \<Rightarrow> json \<Rightarrow> verified_receipt result" where
  "verify_signed_receipt c trusted envelope = (case envelope of
      JObj e \<Rightarrow>
       (if json_get e ''schema_version'' \<noteq> JInt 1 then raise LabExecutionReceiptError ''unsupported_signed_receipt_schema''
        else if set (map fst e) \<noteq> set signed_receipt_fields then raise LabExecutionReceiptError ''invalid_signed_receipt_fields''
        else if json_get e ''algorithm'' \<noteq> JStr ''Ed25519'' then raise LabExecutionReceiptError ''unsupported_signed_receipt_schema''
        else (case json_get e ''signature'' of
           JStr signature \<Rightarrow>
            (case json_get e ''key_id'' of
               JStr key_id \<Rightarrow>
                (case trusted key_id of
                   None \<Rightarrow> raise LabExecutionReceiptError ''untrusted_runner_key''
                 | Some public \<Rightarrow>
                    bindR (validate_receipt_shape (json_get e ''receipt'')) (\<lambda>receipt.
                    let digest = cr_sha256 c (receipt_bytes (json_get e ''receipt'')) in
                    if json_get e ''receipt_sha256'' \<noteq> JStr digest then raise LabExecutionReceiptError ''receipt_digest_mismatch''
                    else if json_get e ''signer_public_key_sha256'' \<noteq> JStr (cr_sha256 c public)
                    then raise LabExecutionReceiptError ''signer_key_fingerprint_mismatch''
                    else (case cr_b64decode c signature of
                        None \<Rightarrow> raise LabExecutionReceiptError ''receipt_signature_invalid''
                      | Some sg \<Rightarrow>
                          if cr_public_ok c public \<and> cr_verify c public sg (receipt_signature_payload key_id
                               (json_get e ''receipt'') digest (cr_sha256 c public))
                          then Inr \<lparr>vr_key_id = key_id, vr_sha256 = digest, vr_receipt = receipt\<rparr>
                          else raise LabExecutionReceiptError ''receipt_signature_invalid'')))
             | _ \<Rightarrow> raise LabExecutionReceiptError ''untrusted_runner_key'')
         | _ \<Rightarrow> raise LabExecutionReceiptError ''receipt_signature_invalid''))
    | _ \<Rightarrow> raise LabExecutionReceiptError ''signed_receipt_object_required'')"

section \<open>A receipt speaks about one dossier\<close>

fun dict_items :: "json \<Rightarrow> (string \<times> json) list" where
  "dict_items (JObj kvs) = kvs"
| "dict_items _ = []"

text \<open>\<^verbatim>\<open>dossier[section][field]\<close>, after validation.\<close>

definition sub_field :: "(string \<times> json) list \<Rightarrow> string \<Rightarrow> string \<Rightarrow> json" where
  "sub_field d k f = json_get (dict_items (json_get d k)) f"

definition expected_inputs :: "(string \<times> json) list \<Rightarrow> (string \<times> json) list" where
  "expected_inputs d = [(''source_repository'', sub_field d ''source'' ''repository''),
     (''source_revision'', sub_field d ''source'' ''revision''), (''fixture_id'', sub_field d ''fixture'' ''fixture_id''),
     (''fixture_sha256'', sub_field d ''fixture'' ''sha256''), (''argv'', sub_field d ''command'' ''argv''),
     (''argv_sha256'', sub_field d ''command'' ''argv_sha256''), (''harness_sha256'', sub_field d ''harness'' ''harness_sha256''),
     (''build_recipe_sha256'', sub_field d ''harness'' ''build_recipe_sha256''),
     (''provider_id'', sub_field d ''runner'' ''provider_id''), (''runner_id'', sub_field d ''runner'' ''runner_id''),
     (''image_digest'', sub_field d ''runner'' ''image_digest''), (''nonce'', json_get d ''nonce''),
     (''safety'', json_get d ''safety'')]"

definition expected_execution :: "(string \<times> json) list \<Rightarrow> (string \<times> json) list" where
  "expected_execution d = [(''started_at'', sub_field d ''execution'' ''started_at''),
     (''completed_at'', sub_field d ''execution'' ''completed_at''), (''exit_code'', sub_field d ''execution'' ''exit_code''),
     (''timed_out'', sub_field d ''execution'' ''timed_out''), (''test_passed'', sub_field d ''execution'' ''test_passed''),
     (''result_sha256'', json_get d ''result_sha256'')]"

definition expected_artifacts :: "(string \<times> json) list \<Rightarrow> json" where
  "expected_artifacts d = JArr (case json_get d ''artifacts'' of
      JArr as \<Rightarrow> map (\<lambda>a. JObj [(''name'', json_get (dict_items a) ''name''), (''sha256'', json_get (dict_items a) ''sha256'')]) as
    | _ \<Rightarrow> [])"

text \<open>The loop over the expected fields; the first that differs is reported.\<close>

fun match_fields :: "string \<Rightarrow> (string \<times> json) list \<Rightarrow> (string \<times> json) list \<Rightarrow> unit result" where
  "match_fields err actual [] = Inr ()"
| "match_fields err actual ((field, expected) # rest) =
    (if \<not> py_eq (json_get actual field) expected then raise IndependentRunnerAttestationError (err @ field)
     else match_fields err actual rest)"

record attested =
  ar_key_id :: string
  ar_run_id :: string
  ar_experiment_id :: string
  ar_receipt_sha256 :: string

definition text_of :: "json \<Rightarrow> string" where
  "text_of j = (case j of JStr s \<Rightarrow> s | _ \<Rightarrow> [])"

definition receipt_binds :: "verified_receipt \<Rightarrow> (string \<times> json) list \<Rightarrow> attested result" where
  "receipt_binds v d =
    (let receipt = vr_receipt v; inputs = dict_items (json_get receipt ''inputs'');
         execution = dict_items (json_get receipt ''execution''); artifacts = dict_items (json_get receipt ''artifacts'') in
     bindR (ensure (set (map fst inputs) = set (map fst (expected_inputs d))) IndependentRunnerAttestationError
       ''attested_input_fields_mismatch'') (\<lambda>_.
     bindR (match_fields ''attested_input_mismatch:'' inputs (expected_inputs d)) (\<lambda>_.
     bindR (ensure (json_get receipt ''run_id'' = json_get d ''run_id'') IndependentRunnerAttestationError
       ''attested_run_id_mismatch'') (\<lambda>_.
     bindR (ensure (json_get receipt ''experiment_id'' = json_get d ''experiment_id'') IndependentRunnerAttestationError
       ''attested_experiment_id_mismatch'') (\<lambda>_.
     bindR (ensure (set (map fst execution) = set (map fst (expected_execution d))) IndependentRunnerAttestationError
       ''attested_execution_fields_mismatch'') (\<lambda>_.
     bindR (match_fields ''attested_execution_mismatch:'' execution (expected_execution d)) (\<lambda>_.
     bindR (ensure (set (map fst artifacts) = {''items''} \<and> py_eq (json_get artifacts ''items'') (expected_artifacts d))
       IndependentRunnerAttestationError ''attested_artifacts_mismatch'') (\<lambda>_.
     Inr \<lparr>ar_key_id = vr_key_id v, ar_run_id = text_of (json_get d ''run_id''),
       ar_experiment_id = text_of (json_get d ''experiment_id''), ar_receipt_sha256 = vr_sha256 v\<rparr>))))))))"

definition verify_independent_runner_attestation :: "crypto \<Rightarrow> (string \<Rightarrow> string option) \<Rightarrow> json \<Rightarrow> json \<Rightarrow> attested result" where
  "verify_independent_runner_attestation c trusted dossier envelope =
     bindR (rescue (\<lambda>cl. cl = ExperimentDossierError \<or> cl = LabExecutionReceiptError)
         (\<lambda>e. Exc IndependentRunnerAttestationError (exc_msg e))
         (bindR (validate_experiment_dossier c dossier) (\<lambda>_. verify_signed_receipt c trusted envelope)))
       (\<lambda>v. receipt_binds v (dict_items dossier))"

end
