(* ===== verification/Replay.thy ===== *)
theory Replay
  imports Dossier HashChain
begin

text \<open>
  The local registry against replayed receipts (\<^verbatim>\<open>src/shared/attestation_replay_registry.py\<close>)
  and the read-only plan for its recovery (\<^verbatim>\<open>src/shared/replay_registry_recovery.py\<close>). One
  SQLite file holds, per provider, the accepted receipts, a hash-chained journal of them, the
  journal's length and head, and the signed evidence; the table of pending candidates belongs
  to the anchored protocol. Evidence columns hold canonical texts that are read back with
  \<^verbatim>\<open>json.loads\<close>; the model stores the values. A missing file or table is an empty table.
\<close>

record accepted_row =
  ac_provider :: string
  ac_key_id :: string
  ac_run :: string
  ac_nonce :: string
  ac_receipt :: string

record journal_row =
  jr_provider :: string
  jr_seq :: int
  jr_prev :: string
  jr_head :: string
  jr_run :: string
  jr_nonce :: string
  jr_receipt :: string

record journal_state =
  js_provider :: string
  js_seq :: int
  js_head :: string

record signed_evidence =
  sv_provider :: string
  sv_seq :: int
  sv_run :: string
  sv_nonce :: string
  sv_receipt :: string
  sv_head :: string
  sv_dossier :: json
  sv_envelope :: json

datatype pending_status = Prepared | Conflict | Finalized

record pending_row =
  pn_candidate :: string
  pn_provider :: string
  pn_run :: string
  pn_nonce :: string
  pn_key_id :: string
  pn_receipt :: string
  pn_prior_seq :: int
  pn_prior_head :: string
  pn_seq :: int
  pn_head :: string
  pn_dossier :: json
  pn_envelope :: json
  pn_status :: pending_status

record replay_db =
  rg_accepted :: "accepted_row list"
  rg_journal :: "journal_row list"
  rg_states :: "journal_state list"
  rg_evidence :: "signed_evidence list"
  rg_pending :: "pending_row list"

definition empty_replay :: replay_db where
  "empty_replay = \<lparr>rg_accepted = [], rg_journal = [], rg_states = [], rg_evidence = [], rg_pending = []\<rparr>"

section \<open>Journal events\<close>

definition journal_domain :: string where
  "journal_domain = ''OWNERA-AEGISFORGE-ATTESTATION-JOURNAL-V1'' @ [CHR 0x00]"

definition journal_schema :: string where
  "journal_schema = ''evm-key-forensics-replay-event-v1''"

definition journal_event :: "string \<Rightarrow> int \<Rightarrow> string \<Rightarrow> string \<Rightarrow> string \<Rightarrow> string \<Rightarrow> json" where
  "journal_event provider sq previous run nonce receipt = JObj
     [(''nonce'', JStr nonce), (''previous_head_sha256'', JStr previous), (''provider_id'', JStr provider),
      (''receipt_sha256'', JStr receipt), (''run_id'', JStr run), (''schema_version'', JStr journal_schema),
      (''sequence'', JInt sq)]"

definition journal_text :: "json \<Rightarrow> string" where
  "journal_text event = journal_domain @ canonical_text event"

definition journal_hash :: "crypto \<Rightarrow> json \<Rightarrow> string" where
  "journal_hash c event = cr_sha256 c (journal_text event)"

section \<open>The tables\<close>

definition provider_state :: "replay_db \<Rightarrow> string \<Rightarrow> (int \<times> string) option" where
  "provider_state db p = map_option (\<lambda>s. (js_seq s, js_head s)) (lookup_row js_provider (rg_states db) p)"

definition provider_journal :: "replay_db \<Rightarrow> string \<Rightarrow> journal_row list" where
  "provider_journal db p = sort_key jr_seq (filter (\<lambda>r. jr_provider r = p) (rg_journal db))"

text \<open>Rows of a provider without a journal state are a legacy that must be migrated.\<close>

definition legacy_rows :: "replay_db \<Rightarrow> string \<Rightarrow> bool" where
  "legacy_rows db p \<longleftrightarrow> (\<exists>a \<in> set (rg_accepted db). ac_provider a = p) \<or> (\<exists>j \<in> set (rg_journal db). jr_provider j = p)"

fun check_journal :: "crypto \<Rightarrow> string \<Rightarrow> int \<Rightarrow> string \<Rightarrow> journal_row list \<Rightarrow> (int \<times> string) result" where
  "check_journal c p expected prev [] = Inr (expected, prev)"
| "check_journal c p expected prev (r # rs) =
    (if jr_seq r \<noteq> expected \<or> jr_prev r \<noteq> prev \<or>
        jr_head r \<noteq> journal_hash c (journal_event p expected prev (jr_run r) (jr_nonce r) (jr_receipt r))
     then raise AttestationReplayRegistryError ''replay_registry_journal_chain_corrupt''
     else check_journal c p (expected + 1) (jr_head r) rs)"

text \<open>PRIMARY KEY and UNIQUE constraints.\<close>

definition insert_accepted :: "accepted_row \<Rightarrow> replay_db \<Rightarrow> replay_db result" where
  "insert_accepted a db =
    (if \<exists>x \<in> set (rg_accepted db). ac_provider x = ac_provider a \<and> (ac_run x = ac_run a \<or> ac_nonce x = ac_nonce a)
     then raise IntegrityError ''UNIQUE constraint failed'' else Inr (db\<lparr>rg_accepted := rg_accepted db @ [a]\<rparr>))"

definition insert_journal :: "journal_row \<Rightarrow> replay_db \<Rightarrow> replay_db result" where
  "insert_journal j db =
    (if \<exists>x \<in> set (rg_journal db). jr_provider x = jr_provider j \<and>
        (jr_seq x = jr_seq j \<or> jr_run x = jr_run j \<or> jr_nonce x = jr_nonce j)
     then raise IntegrityError ''UNIQUE constraint failed'' else Inr (db\<lparr>rg_journal := rg_journal db @ [j]\<rparr>))"

definition insert_evidence :: "signed_evidence \<Rightarrow> replay_db \<Rightarrow> replay_db result" where
  "insert_evidence e db =
    (if \<exists>x \<in> set (rg_evidence db). sv_provider x = sv_provider e \<and>
        (sv_seq x = sv_seq e \<or> sv_run x = sv_run e \<or> sv_nonce x = sv_nonce e)
     then raise IntegrityError ''UNIQUE constraint failed'' else Inr (db\<lparr>rg_evidence := rg_evidence db @ [e]\<rparr>))"

text \<open>INSERT ... ON CONFLICT(provider_id) DO UPDATE.\<close>

definition put_state :: "string \<Rightarrow> int \<Rightarrow> string \<Rightarrow> replay_db \<Rightarrow> replay_db" where
  "put_state p sq h db = db\<lparr>rg_states :=
     (if lookup_row js_provider (rg_states db) p = None then rg_states db @ [\<lparr>js_provider = p, js_seq = sq, js_head = h\<rparr>]
      else update_where (\<lambda>s. js_provider s = p) (\<lambda>s. s\<lparr>js_seq := sq, js_head := h\<rparr>) (rg_states db))\<rparr>"

section \<open>Appending\<close>

definition journal_position :: "crypto \<Rightarrow> replay_db \<Rightarrow> string \<Rightarrow> (int \<times> string) result" where
  "journal_position c db p = (case provider_state db p of
      None \<Rightarrow> if legacy_rows db p then raise AttestationReplayRegistryError ''replay_registry_legacy_state_requires_migration''
        else Inr (0, genesis_hash)
    | Some (sq, head) \<Rightarrow>
        if sq < 0 then raise AttestationReplayRegistryError ''replay_registry_journal_state_invalid''
        else bindR (check_journal c p 1 genesis_hash (provider_journal db p)) (\<lambda>(expected, prev).
          if expected - 1 \<noteq> sq \<or> prev \<noteq> head
          then raise AttestationReplayRegistryError ''replay_registry_journal_state_corrupt''
          else Inr (sq, head)))"

definition append_journal_event :: "crypto \<Rightarrow> string \<Rightarrow> string \<Rightarrow> string \<Rightarrow> string \<Rightarrow> replay_db \<Rightarrow>
    ((int \<times> string) \<times> replay_db) result" where
  "append_journal_event c p run nonce receipt db = bindR (journal_position c db p) (\<lambda>(sq, prev).
     let head = journal_hash c (journal_event p (sq + 1) prev run nonce receipt) in
     bindR (insert_journal \<lparr>jr_provider = p, jr_seq = sq + 1, jr_prev = prev, jr_head = head, jr_run = run,
          jr_nonce = nonce, jr_receipt = receipt\<rparr> db) (\<lambda>db'.
       Inr ((sq + 1, head), put_state p (sq + 1) head db')))"

section \<open>Verifying and recording\<close>

definition dossier_provider :: "json \<Rightarrow> string" where
  "dossier_provider d = text_of (sub_field (dict_items d) ''runner'' ''provider_id'')"

definition dossier_run :: "json \<Rightarrow> string" where
  "dossier_run d = text_of (json_get (dict_items d) ''run_id'')"

definition dossier_nonce :: "json \<Rightarrow> string" where
  "dossier_nonce d = text_of (json_get (dict_items d) ''nonce'')"

text \<open>UPDATE ... SET status='FINALIZED' ... and its row count check.\<close>

definition finalize_row :: "string \<Rightarrow> string \<Rightarrow> string \<Rightarrow> string \<Rightarrow> string \<Rightarrow> int \<Rightarrow> string \<Rightarrow> pending_status set \<Rightarrow> exc_class \<Rightarrow>
    string \<Rightarrow> replay_db \<Rightarrow> replay_db result" where
  "finalize_row cid p run nonce receipt sq head from cls msg db =
    (let hit = (\<lambda>r. pn_candidate r = cid \<and> pn_provider r = p \<and> pn_run r = run \<and> pn_nonce r = nonce \<and>
           pn_receipt r = receipt \<and> pn_seq r = sq \<and> pn_head r = head \<and> pn_status r \<in> from) in
     if count_where hit (rg_pending db) \<noteq> 1 then raise cls msg
     else Inr (db\<lparr>rg_pending := update_where hit (\<lambda>r. r\<lparr>pn_status := Finalized\<rparr>) (rg_pending db)\<rparr>))"

text \<open>
  The body of the IMMEDIATE transaction. \<open>expected\<close> and \<open>finalize\<close> are None for the defaults.
\<close>

definition record_transaction :: "crypto \<Rightarrow> json \<Rightarrow> json \<Rightarrow> attested \<Rightarrow> (int \<times> string) option \<Rightarrow> string option \<Rightarrow>
    replay_db \<Rightarrow> ((int \<times> string) \<times> replay_db) result" where
  "record_transaction c dossier envelope v expected finalize db =
    (let p = dossier_provider dossier; run = dossier_run dossier; nonce = dossier_nonce dossier;
         receipt = ar_receipt_sha256 v in
     bindR (case provider_state db p of
         Some s \<Rightarrow> Inr s
       | None \<Rightarrow> if legacy_rows db p then raise AttestationReplayRegistryError ''replay_registry_legacy_state_requires_migration''
           else Inr (0, genesis_hash)) (\<lambda>state.
     bindR (ensure (case expected of None \<Rightarrow> True | Some e \<Rightarrow> state = e) AttestationReplayRegistryError
       ''replay_registry_expected_state_changed'') (\<lambda>_.
     let db0 = (if provider_state db p = None then put_state p 0 genesis_hash db else db) in
     bindR (insert_accepted \<lparr>ac_provider = p, ac_key_id = ar_key_id v, ac_run = run, ac_nonce = nonce, ac_receipt = receipt\<rparr> db0) (\<lambda>db1.
     bindR (append_journal_event c p run nonce receipt db1) (\<lambda>((sq, head), db2).
     bindR (insert_evidence \<lparr>sv_provider = p, sv_seq = sq, sv_run = run, sv_nonce = nonce, sv_receipt = receipt,
        sv_head = head, sv_dossier = dossier, sv_envelope = envelope\<rparr> db2) (\<lambda>db3.
     bindR (case finalize of
         None \<Rightarrow> Inr db3
       | Some cid \<Rightarrow> finalize_row cid p run nonce receipt sq head {Prepared} AttestationReplayRegistryError
           ''pending_candidate_not_finalizable_in_acceptance_transaction'' db3) (\<lambda>db4.
     Inr ((sq, head), db4))))))))"

text \<open>A violated constraint is a replay; the transaction is rolled back on every exception.\<close>

definition verify_and_record_attestation :: "crypto \<Rightarrow> (string \<Rightarrow> string option) \<Rightarrow> json \<Rightarrow> json \<Rightarrow> (int \<times> string) option \<Rightarrow>
    string option \<Rightarrow> replay_db \<Rightarrow> ((int \<times> string) \<times> replay_db) result" where
  "verify_and_record_attestation c trusted dossier envelope expected finalize db =
     bindR (rescue (\<lambda>cl. cl = IndependentRunnerAttestationError)
         (\<lambda>e. Exc AttestationReplayRegistryError (''attestation_invalid:'' @ exc_msg e))
         (verify_independent_runner_attestation c trusted dossier envelope)) (\<lambda>v.
       rescue (\<lambda>cl. cl = IntegrityError)
         (\<lambda>e. Exc AttestationReplayRegistryError ''attestation_replay_detected:run_id_or_nonce_already_seen'')
         (record_transaction c dossier envelope v expected finalize db))"

section \<open>The recovery plan\<close>

text \<open>One row of the loop: the chain, the evidence, the accepted row and the signature agree.\<close>

definition evidence_matches :: "journal_row \<Rightarrow> string \<Rightarrow> signed_evidence option \<Rightarrow> bool" where
  "evidence_matches r head e = (case e of
      None \<Rightarrow> False
    | Some x \<Rightarrow> sv_run x = jr_run r \<and> sv_nonce x = jr_nonce r \<and> sv_receipt x = jr_receipt r \<and> sv_head x = head)"

text \<open>\<^verbatim>\<open>{(run, nonce): receipt for row in rows}\<close>: a later row overrides an earlier one.\<close>

definition accepted_receipt :: "replay_db \<Rightarrow> string \<Rightarrow> string \<Rightarrow> string \<Rightarrow> string option" where
  "accepted_receipt db p run nonce = map_of (rev (map (\<lambda>a. ((ac_run a, ac_nonce a), ac_receipt a))
     (filter (\<lambda>a. ac_provider a = p) (rg_accepted db)))) (run, nonce)"

definition evidence_at :: "replay_db \<Rightarrow> string \<Rightarrow> int \<Rightarrow> signed_evidence option" where
  "evidence_at db p sq = find (\<lambda>e. sv_provider e = p \<and> sv_seq e = sq) (rg_evidence db)"

definition check_signed_evidence :: "crypto \<Rightarrow> (string \<Rightarrow> string option) \<Rightarrow> string \<Rightarrow> journal_row \<Rightarrow> signed_evidence \<Rightarrow> attested result" where
  "check_signed_evidence c trusted p r e =
     bindR (rescue type_or_value (\<lambda>_. Exc ReplayRecoveryError ''recovery_signed_evidence_invalid'')
        (verify_independent_runner_attestation c trusted (sv_dossier e) (sv_envelope e))) (\<lambda>v.
     bindR (ensure (dossier_provider (sv_dossier e) = p \<and> dossier_run (sv_dossier e) = jr_run r \<and>
         dossier_nonce (sv_dossier e) = jr_nonce r \<and> ar_receipt_sha256 v = jr_receipt r)
       ReplayRecoveryError ''recovery_signed_evidence_binding_mismatch'') (\<lambda>_. Inr v))"

definition suffix_item :: "int \<Rightarrow> journal_row \<Rightarrow> string \<Rightarrow> attested \<Rightarrow> json" where
  "suffix_item sq r head v = JObj [(''journal_head_sha256'', JStr head), (''key_id'', JStr (ar_key_id v)),
     (''nonce'', JStr (jr_nonce r)), (''receipt_sha256'', JStr (jr_receipt r)), (''run_id'', JStr (jr_run r)),
     (''sequence'', JInt sq)]"

text \<open>The loop returns the final head, the head seen at the anchor's position and the suffix.\<close>

fun plan_rows :: "crypto \<Rightarrow> (string \<Rightarrow> string option) \<Rightarrow> replay_db \<Rightarrow> string \<Rightarrow> int \<Rightarrow> string \<Rightarrow> int \<Rightarrow> string \<Rightarrow> string \<Rightarrow>
    json list \<Rightarrow> journal_row list \<Rightarrow> (string \<times> string \<times> json list) result" where
  "plan_rows c trusted db p aseq ahead n prev seen suffix [] = Inr (prev, seen, suffix)"
| "plan_rows c trusted db p aseq ahead n prev seen suffix (r # rs) =
    (let head = journal_hash c (journal_event p n prev (jr_run r) (jr_nonce r) (jr_receipt r)) in
     if jr_seq r \<noteq> n \<or> jr_prev r \<noteq> prev \<or> jr_head r \<noteq> head then raise ReplayRecoveryError ''recovery_journal_chain_corrupt''
     else if n = aseq \<and> head \<noteq> ahead then raise ReplayRecoveryError ''recovery_anchor_does_not_match_local_history''
     else if \<not> evidence_matches r head (evidence_at db p n)
     then raise ReplayRecoveryError ''recovery_evidence_journal_binding_mismatch''
     else if accepted_receipt db p (jr_run r) (jr_nonce r) \<noteq> Some (jr_receipt r)
     then raise ReplayRecoveryError ''recovery_accepted_row_binding_mismatch''
     else bindR (check_signed_evidence c trusted p r (the (evidence_at db p n))) (\<lambda>v.
       plan_rows c trusted db p aseq ahead (n + 1) head (if n = aseq then head else seen)
         (if aseq < n then suffix @ [suffix_item n r head v] else suffix) rs))"

definition make_plan :: "crypto \<Rightarrow> string \<Rightarrow> int \<Rightarrow> string \<Rightarrow> int \<Rightarrow> string \<Rightarrow> json list \<Rightarrow> json" where
  "make_plan c p aseq ahead tseq thead suffix =
    (let body = [(''action'', JStr (if tseq = aseq then ''NO_OP_ALREADY_ANCHORED'' else ''OPERATOR_REVIEW_REQUIRED'')),
        (''anchor'', JObj [(''head_sha256'', JStr ahead), (''sequence'', JInt aseq)]), (''anchor_updated'', JBool False)];
        rest = [(''provider_id'', JStr p), (''qualification'', JStr ''NOT_ESTABLISHED''),
        (''schema_version'', JStr ''evm-key-forensics-recovery-plan-v1''), (''suffix'', JArr suffix),
        (''terminal'', JObj [(''head_sha256'', JStr thead), (''sequence'', JInt tseq)]), (''writes_performed'', JBool False)];
        digest = cr_sha256 c (''OWNERA-AEGISFORGE-RECOVERY-PLAN-V1'' @ CHR 0x00 # canonical_text (JObj (body @ rest)))
     in JObj (body @ (''plan_sha256'', JStr digest) # rest))"

definition build_replay_recovery_plan :: "crypto \<Rightarrow> (string \<Rightarrow> string option) \<Rightarrow> replay_db \<Rightarrow> string \<Rightarrow> int \<Rightarrow> string \<Rightarrow> json result" where
  "build_replay_recovery_plan c trusted db p aseq ahead =
    (if blank p then raise ReplayRecoveryError ''recovery_provider_id_invalid''
     else if aseq < 0 then raise ReplayRecoveryError ''recovery_anchor_sequence_invalid''
     else if \<not> is_digest ahead then raise ReplayRecoveryError ''recovery_anchor_head_invalid''
     else if aseq = 0 \<and> ahead \<noteq> genesis_hash then raise ReplayRecoveryError ''recovery_anchor_genesis_invalid''
     else (case provider_state db p of
        None \<Rightarrow>
         (if legacy_rows db p \<or> (\<exists>e \<in> set (rg_evidence db). sv_provider e = p)
          then raise ReplayRecoveryError ''recovery_local_state_missing_with_existing_records''
          else if aseq = 0 \<and> ahead = genesis_hash then Inr (make_plan c p aseq ahead 0 genesis_hash [])
          else raise ReplayRecoveryError ''recovery_local_state_missing_for_non_genesis_anchor'')
      | Some (tseq, thead) \<Rightarrow>
         (if tseq < 0 then raise ReplayRecoveryError ''recovery_local_state_invalid''
          else if tseq < aseq then raise ReplayRecoveryError ''recovery_anchor_ahead_of_local_registry''
          else if int (length (provider_journal db p)) \<noteq> tseq \<or>
             int (count_where (\<lambda>e. sv_provider e = p) (rg_evidence db)) \<noteq> tseq
          then raise ReplayRecoveryError ''recovery_journal_or_evidence_count_mismatch''
          else if int (count_where (\<lambda>a. ac_provider a = p) (rg_accepted db)) \<noteq> tseq
          then raise ReplayRecoveryError ''recovery_accepted_row_count_mismatch''
          else bindR (plan_rows c trusted db p aseq ahead 1 genesis_hash genesis_hash [] (provider_journal db p)) (\<lambda>(prev, seen, suffix).
            if tseq = 0 \<and> thead \<noteq> genesis_hash then raise ReplayRecoveryError ''recovery_empty_state_head_invalid''
            else if prev \<noteq> thead then raise ReplayRecoveryError ''recovery_terminal_state_mismatch''
            else if (if aseq = 0 then genesis_hash else seen) \<noteq> ahead
            then raise ReplayRecoveryError ''recovery_anchor_does_not_match_local_history''
            else Inr (make_plan c p aseq ahead tseq thead suffix)))))"

definition revalidate_replay_recovery_plan :: "crypto \<Rightarrow> (string \<Rightarrow> string option) \<Rightarrow> replay_db \<Rightarrow> json \<Rightarrow> string \<Rightarrow> int \<Rightarrow> string \<Rightarrow>
    json result" where
  "revalidate_replay_recovery_plan c trusted db plan p aseq ahead = (case plan of
      JObj kvs \<Rightarrow>
       (if json_get kvs ''provider_id'' \<noteq> JStr p then raise ReplayRecoveryError ''recovery_plan_provider_mismatch''
        else bindR (build_replay_recovery_plan c trusted db p aseq ahead) (\<lambda>current.
          if \<not> py_eq plan current then raise ReplayRecoveryError ''recovery_plan_stale_or_tampered''
          else Inr (JObj [(''anchor_updated'', JBool False), (''plan_sha256'', json_get (dict_items current) ''plan_sha256''),
             (''qualification'', JStr ''NOT_ESTABLISHED''), (''terminal'', json_get (dict_items current) ''terminal''),
             (''valid'', JBool True), (''writes_performed'', JBool False)])))
    | _ \<Rightarrow> raise ReplayRecoveryError ''recovery_plan_invalid'')"

end
