(* ===== verification/Processes.thy ===== *)
theory Processes
  imports Prelude
begin

text \<open>
  Concurrent handlers. A process is a handler cut into its atomic steps (one transaction, one
  request to a service); between two steps anything may happen to the shared state: steps of
  other processes, disturbances such as the restore of a backup, or nothing ever again, when
  the process crashes. The locale proves once that a relation every step and disturbance
  respects holds along every run, and that results keep what they established.
\<close>

datatype ('s, 'a) proc = Done "'a result" | Act "'s \<Rightarrow> 's \<times> ('s, 'a) proc"

primrec bindP :: "('s, 'a) proc \<Rightarrow> ('a \<Rightarrow> ('s, 'b) proc) \<Rightarrow> ('s, 'b) proc" where
  "bindP (Done r) f = (case r of Inl e \<Rightarrow> Done (Inl e) | Inr x \<Rightarrow> f x)"
| "bindP (Act g) f = Act (map_prod id (\<lambda>p. bindP p f) \<circ> g)"

text \<open>try/except.\<close>

primrec tryP :: "('s, 'a) proc \<Rightarrow> (exc \<Rightarrow> ('s, 'a) proc) \<Rightarrow> ('s, 'a) proc" where
  "tryP (Done r) h = (case r of Inl e \<Rightarrow> h e | Inr x \<Rightarrow> Done (Inr x))"
| "tryP (Act g) h = Act (map_prod id (\<lambda>p. tryP p h) \<circ> g)"

text \<open>One atomic operation, and a computation without effects.\<close>

definition atomP :: "('s, 'a) op \<Rightarrow> ('s, 'a) proc" where
  "atomP m = Act (\<lambda>s. (snd (m s), Done (fst (m s))))"

abbreviation liftP :: "'a result \<Rightarrow> ('s, 'a) proc" where
  "liftP r \<equiv> Done r"

text \<open>A process that nobody disturbs is an operation.\<close>

primrec runP :: "('s, 'a) proc \<Rightarrow> ('s, 'a) op" where
  "runP (Done r) = (\<lambda>s. (r, s))"
| "runP (Act g) = (\<lambda>s. case map_prod id runP (g s) of (s', k) \<Rightarrow> k s')"

lemma runP_Act: "runP (Act g) s = runP (snd (g s)) (fst (g s))"
  by (simp add: map_prod_def split: prod.splits)

declare runP.simps(2) [simp del]

lemma runP_atomP [simp]: "runP (atomP m) = m"
  by (simp add: atomP_def runP_Act fun_eq_iff)

lemma runP_bindP [simp]: "runP (bindP m f) = bindS (runP m) (\<lambda>x. runP (f x))"
proof (induction m)
  case (Done r)
  then show ?case by (cases r) (simp_all add: fun_eq_iff bindS_def)
next
  case (Act g)
  have "runP (bindP (snd (g s)) f) = bindS (runP (snd (g s))) (\<lambda>x. runP (f x))" for s
    by (rule Act [of "g s"]) (simp_all add: prod_set_defs)
  then show ?case by (simp add: fun_eq_iff runP_Act bindS_def)
qed

lemma runP_tryP [simp]: "runP (tryP m h) = tryS (runP m) (\<lambda>e. runP (h e))"
proof (induction m)
  case (Done r)
  then show ?case by (cases r) (simp_all add: fun_eq_iff tryS_def)
next
  case (Act g)
  have "runP (tryP (snd (g s)) h) = tryS (runP (snd (g s))) (\<lambda>e. runP (h e))" for s
    by (rule Act [of "g s"]) (simp_all add: prod_set_defs)
  then show ?case by (simp add: fun_eq_iff runP_Act tryS_def)
qed

section \<open>Systems\<close>

datatype ('l, 'd) happening = Launch 'l | Advance nat | Disturb 'd

text \<open>The processes started so far, each with the call it executes.\<close>

type_synonym ('s, 'l, 'a) crowd = "'s \<times> ('l \<times> ('s, 'a) proc) list"

fun advance :: "('s, 'a) proc \<Rightarrow> 's \<Rightarrow> 's \<times> ('s, 'a) proc" where
  "advance (Done r) s = (s, Done r)"
| "advance (Act g) s = g s"

fun happen :: "('l \<Rightarrow> ('s, 'a) proc) \<Rightarrow> ('d \<Rightarrow> 's \<Rightarrow> 's) \<Rightarrow> ('l, 'd) happening \<Rightarrow> ('s, 'l, 'a) crowd \<Rightarrow> ('s, 'l, 'a) crowd" where
  "happen program disturb (Launch l) (s, ps) = (s, ps @ [(l, program l)])"
| "happen program disturb (Advance i) (s, ps) =
    (if i < length ps then (let (s', p) = advance (snd (ps ! i)) s in (s', ps[i := (fst (ps ! i), p)])) else (s, ps))"
| "happen program disturb (Disturb d) (s, ps) = (disturb d s, ps)"

text \<open>
  \<open>guarantees p R Q s\<close>: started in \<open>s\<close>, with a shared state that changes along \<open>R\<close> between
  its steps, every step of \<open>p\<close> respects \<open>R\<close> and a returned value satisfies \<open>Q\<close>.
\<close>

primrec guarantees :: "('s, 'a) proc \<Rightarrow> ('s \<Rightarrow> 's \<Rightarrow> bool) \<Rightarrow> ('a \<Rightarrow> 's \<Rightarrow> bool) \<Rightarrow> 's \<Rightarrow> bool" where
  "guarantees (Done r) = (\<lambda>R Q s. case r of Inl e \<Rightarrow> True | Inr x \<Rightarrow> Q x s)"
| "guarantees (Act g) = (\<lambda>R Q s. \<forall>s1. R s s1 \<longrightarrow>
     (case map_prod id guarantees (g s1) of (s2, k) \<Rightarrow> R s1 s2 \<and> k R Q s2))"

lemma guarantees_Act: "guarantees (Act g) R Q s \<longleftrightarrow>
    (\<forall>s1. R s s1 \<longrightarrow> R s1 (fst (g s1)) \<and> guarantees (snd (g s1)) R Q (fst (g s1)))"
  by (simp add: split_beta)

declare guarantees.simps(2) [simp del]

locale interference =
  fixes program :: "'l \<Rightarrow> ('s, 'a) proc"
    and disturb :: "'d \<Rightarrow> 's \<Rightarrow> 's"
    and I :: "'s \<Rightarrow> bool"
    and R :: "'s \<Rightarrow> 's \<Rightarrow> bool"
    and ok :: "'l \<Rightarrow> bool"
    and Q :: "'l \<Rightarrow> 'a \<Rightarrow> 's \<Rightarrow> bool"
  assumes R_refl: "I s \<Longrightarrow> R s s"
    and R_keeps: "R s s' \<Longrightarrow> I s'"
    and R_trans: "R s s' \<Longrightarrow> R s' s'' \<Longrightarrow> R s s''"
    and Q_stable: "Q l x s \<Longrightarrow> R s s' \<Longrightarrow> Q l x s'"
    and disturb_R: "I s \<Longrightarrow> R s (disturb d s)"
    and program_guarantees: "ok l \<Longrightarrow> I s \<Longrightarrow> guarantees (program l) R (Q l) s"
begin

lemma guarantees_later: "guarantees p R (Q l) s \<Longrightarrow> R s s' \<Longrightarrow> guarantees p R (Q l) s'"
proof (cases p)
  case (Done r)
  then show "guarantees p R (Q l) s \<Longrightarrow> R s s' \<Longrightarrow> guarantees p R (Q l) s'"
    using Q_stable by (auto split: sum.splits)
next
  case (Act g)
  then show "guarantees p R (Q l) s \<Longrightarrow> R s s' \<Longrightarrow> guarantees p R (Q l) s'"
    using R_trans by (auto simp: guarantees_Act)
qed

lemma advance_guarantees:
  assumes "guarantees p R (Q l) s" and "I s"
  shows "R s (fst (advance p s)) \<and> guarantees (snd (advance p s)) R (Q l) (fst (advance p s))"
  using assms R_refl by (cases p) (auto simp: guarantees_Act)

definition crowd_ok :: "'s \<Rightarrow> ('s, 'l, 'a) crowd \<Rightarrow> bool" where
  "crowd_ok s0 w \<longleftrightarrow> R s0 (fst w) \<and> (\<forall>(l, p) \<in> set (snd w). ok l \<longrightarrow> guarantees p R (Q l) (fst w))"

fun launch_ok :: "('l, 'd) happening \<Rightarrow> bool" where
  "launch_ok (Launch l) = ok l"
| "launch_ok _ = True"

lemma happen_ok:
  assumes "crowd_ok s0 w" and "launch_ok h" and all: "\<forall>(l, p) \<in> set (snd w). ok l"
  shows "crowd_ok s0 (happen program disturb h w) \<and> (\<forall>(l, p) \<in> set (snd (happen program disturb h w)). ok l)"
proof -
  obtain s ps where w: "w = (s, ps)" by fastforce
  from assms(1) have r: "R s0 s" and "I s" and g: "\<And>l p. (l, p) \<in> set ps \<Longrightarrow> guarantees p R (Q l) s"
    using all R_keeps by (auto simp: crowd_ok_def w)
  show ?thesis
  proof (cases h)
    case (Launch l)
    with r g assms(2) all program_guarantees [OF _ \<open>I s\<close>] show ?thesis by (auto simp: crowd_ok_def w)
  next
    case (Advance i)
    show ?thesis
    proof (cases "i < length ps")
      case True
      obtain l p where lp: "ps ! i = (l, p)" by fastforce
      with True have mem: "(l, p) \<in> set ps" using nth_mem by metis
      obtain s' p' where a: "advance p s = (s', p')" by fastforce
      with advance_guarantees [OF g [OF mem] \<open>I s\<close>] have r': "R s s'" and g': "guarantees p' R (Q l) s'" by simp_all
      have "guarantees q R (Q k) s'" if "(k, q) \<in> set (ps[i := (l, p')])" for k q
        using that g guarantees_later r' g' set_update_subset_insert [of ps i "(l, p')"] by fastforce
      moreover have "ok k" if "(k, q) \<in> set (ps[i := (l, p')])" for k q
        using that all mem set_update_subset_insert [of ps i "(l, p')"] by (fastforce simp: w)
      ultimately show ?thesis using True R_trans [OF r r'] by (auto simp: Advance w lp a crowd_ok_def)
    qed (use assms Advance w in simp)
  next
    case (Disturb d)
    have "guarantees p R (Q l) (disturb d s)" if "(l, p) \<in> set ps" for l p
      by (rule guarantees_later [OF g [OF that] disturb_R [OF \<open>I s\<close>]])
    with R_trans [OF r disturb_R [OF \<open>I s\<close>]] all show ?thesis by (auto simp: crowd_ok_def w Disturb)
  qed
qed

lemma run_ok:
  assumes "\<forall>h \<in> set hs. launch_ok h" and "crowd_ok s0 w" and "\<forall>(l, p) \<in> set (snd w). ok l"
  shows "crowd_ok s0 (fold (happen program disturb) hs w) \<and> (\<forall>(l, p) \<in> set (snd (fold (happen program disturb) hs w)). ok l)"
  using assms
proof (induction hs arbitrary: w)
  case (Cons h hs)
  have "crowd_ok s0 (happen program disturb h w) \<and> (\<forall>(l, p) \<in> set (snd (happen program disturb h w)). ok l)"
    using Cons.prems by (intro happen_ok) simp_all
  then show ?case unfolding fold_simps using Cons.IH [of "happen program disturb h w"] Cons.prems(1) by simp
qed simp

text \<open>Along every run the state has changed along \<open>R\<close> and every result keeps its promise.\<close>

lemma run_guarantees:
  assumes "\<forall>h \<in> set hs. launch_ok h" and "I s0"
  shows "R s0 (fst (fold (happen program disturb) hs (s0, [])))"
    and "(l, Done (Inr x)) \<in> set (snd (fold (happen program disturb) hs (s0, []))) \<Longrightarrow>
      Q l x (fst (fold (happen program disturb) hs (s0, [])))"
proof -
  let ?w = "fold (happen program disturb) hs (s0, [])"
  have "crowd_ok s0 ?w \<and> (\<forall>(l, p) \<in> set (snd ?w). ok l)"
    using assms by (intro run_ok) (simp_all add: crowd_ok_def R_refl)
  then show "R s0 (fst ?w)" and "(l, Done (Inr x)) \<in> set (snd ?w) \<Longrightarrow> Q l x (fst ?w)"
    by (fastforce simp: crowd_ok_def)+
qed

lemma run_later:
  assumes "\<forall>h \<in> set (hs @ hs'). launch_ok h" and "I s0"
  shows "R (fst (fold (happen program disturb) hs (s0, []))) (fst (fold (happen program disturb) (hs @ hs') (s0, [])))"
proof -
  let ?w = "fold (happen program disturb) hs (s0, [])"
  have "crowd_ok s0 ?w \<and> (\<forall>(l, p) \<in> set (snd ?w). ok l)"
    using assms by (intro run_ok) (simp_all add: crowd_ok_def R_refl)
  moreover from this have "crowd_ok (fst ?w) ?w" using R_keeps R_refl by (auto simp: crowd_ok_def)
  moreover have "\<forall>h \<in> set hs'. launch_ok h" using assms by simp
  ultimately have "crowd_ok (fst ?w) (fold (happen program disturb) hs' ?w)" using run_ok [of hs' "fst ?w" ?w] by blast
  then show ?thesis by (simp add: crowd_ok_def)
qed

end

text \<open>Composing guarantees.\<close>

lemma guarantees_Inr: "guarantees (Done (Inr x)) R Q s = Q x s"
  by simp

lemma guarantees_Inl [simp]: "guarantees (Done (Inl e)) R Q s"
  by simp

lemma guarantees_liftP: "(\<And>x. r = Inr x \<Longrightarrow> Q x s) \<Longrightarrow> guarantees (Done r) R Q s"
  by (cases r) simp_all

lemma guarantees_bindP:
  assumes "guarantees m R P s" and trans: "\<And>a b c. R a b \<Longrightarrow> R b c \<Longrightarrow> R a c" and refl: "R s s" "\<And>a b. R a b \<Longrightarrow> R b b"
    and "\<And>x s'. R s s' \<Longrightarrow> P x s' \<Longrightarrow> guarantees (f x) R Q s'"
  shows "guarantees (bindP m f) R Q s"
  using assms(1,3,5)
proof (induction m arbitrary: s)
  case (Done r)
  then show ?case by (cases r) auto
next
  case (Act g)
  have "R s1 (fst (g s1)) \<and> guarantees (bindP (snd (g s1)) f) R Q (fst (g s1))" if r: "R s s1" for s1
  proof -
    from Act.prems(1) r have r1: "R s1 (fst (g s1))" and k: "guarantees (snd (g s1)) R P (fst (g s1))"
      by (auto simp: guarantees_Act)
    have "R s (fst (g s1))" by (rule trans [OF r r1])
    then have "guarantees (bindP (snd (g s1)) f) R Q (fst (g s1))"
      by (intro Act.IH [of "g s1", OF _ _ k refl(2) [OF r1]]) (use Act.prems(3) trans in \<open>auto simp: prod_set_defs\<close>)
    with r1 show ?thesis by simp
  qed
  then show ?case by (simp add: guarantees_Act)
qed

lemma guarantees_tryP:
  assumes "guarantees m R Q s" and trans: "\<And>a b c. R a b \<Longrightarrow> R b c \<Longrightarrow> R a c" and refl: "R s s" "\<And>a b. R a b \<Longrightarrow> R b b"
    and "\<And>e s'. R s s' \<Longrightarrow> guarantees (h e) R Q s'"
  shows "guarantees (tryP m h) R Q s"
  using assms(1,3,5)
proof (induction m arbitrary: s)
  case (Done r)
  then show ?case by (cases r) auto
next
  case (Act g)
  have "R s1 (fst (g s1)) \<and> guarantees (tryP (snd (g s1)) h) R Q (fst (g s1))" if r: "R s s1" for s1
  proof -
    from Act.prems(1) r have r1: "R s1 (fst (g s1))" and k: "guarantees (snd (g s1)) R Q (fst (g s1))"
      by (auto simp: guarantees_Act)
    have "R s (fst (g s1))" by (rule trans [OF r r1])
    then have "guarantees (tryP (snd (g s1)) h) R Q (fst (g s1))"
      by (intro Act.IH [of "g s1", OF _ _ k refl(2) [OF r1]]) (use Act.prems(3) trans in \<open>auto simp: prod_set_defs\<close>)
    with r1 show ?thesis by simp
  qed
  then show ?case by (simp add: guarantees_Act)
qed

lemma guarantees_atomP:
  assumes "\<And>s1. R s s1 \<Longrightarrow> R s1 (snd (m s1)) \<and> (\<forall>x. fst (m s1) = Inr x \<longrightarrow> Q x (snd (m s1)))"
  shows "guarantees (atomP m) R Q s"
  using assms by (auto simp: atomP_def guarantees_Act split: sum.splits)

end
