(* ===== verification/ReplayAnchor.thy ===== *)
theory ReplayAnchor
  imports Replay Processes
begin

text \<open>
  The external anchor of the registry: the reference service that keeps the high-water mark
  (\<^verbatim>\<open>src/tools/replay_anchor/sqlite_service.py\<close>), its HTTP client
  (\<^verbatim>\<open>src/shared/http_replay_anchor_store.py\<close>), signed checkpoints
  (\<^verbatim>\<open>src/shared/replay_registry_checkpoint.py\<close>) and the adapter that publishes after it has
  recorded (\<^verbatim>\<open>src/shared/anchored_attestation_replay.py\<close>). Percent-encoding of the provider
  in the URL is undone by the service; a request or a response may get lost.
\<close>

section \<open>The anchor service\<close>

record anchor_row =
  an_provider :: string
  an_seq :: int
  an_head :: string

type_synonym anchors = "anchor_row list"

definition valid_anchor_row :: "anchor_row \<Rightarrow> bool" where
  "valid_anchor_row r \<longleftrightarrow> 0 \<le> an_seq r \<and> is_digest (an_head r) \<and> (an_seq r \<noteq> 0 \<or> an_head r = genesis_hash)"

definition provision_anchor :: "anchors \<Rightarrow> string \<Rightarrow> anchors result" where
  "provision_anchor db p =
    (if p = [] \<or> 256 < length p then raise ValueError ''provider_id_invalid''
     else if lookup_row an_provider db p \<noteq> None then raise ValueError ''provider_anchor_already_exists''
     else Inr (db @ [\<lparr>an_provider = p, an_seq = 0, an_head = genesis_hash\<rparr>]))"

text \<open>A reply: HTTP status and JSON body.\<close>

type_synonym http_reply = "nat \<times> json"

definition error_reply :: "nat \<Rightarrow> string \<Rightarrow> http_reply" where
  "error_reply st msg = (st, JObj [(''error'', JStr msg)])"

definition anchor_route :: "string \<Rightarrow> bool" where
  "anchor_route p \<longleftrightarrow> p \<noteq> [] \<and> length p \<le> 256 \<and> CHR ''/'' \<notin> set p"

definition service_get :: "string \<Rightarrow> string \<Rightarrow> string \<Rightarrow> anchors \<Rightarrow> http_reply" where
  "service_get token supplied p db =
    (if supplied \<noteq> ''Bearer '' @ token then error_reply 401 ''unauthorized''
     else if \<not> anchor_route p then error_reply 404 ''not_found''
     else (case lookup_row an_provider db p of
        None \<Rightarrow> error_reply 404 ''anchor_not_provisioned''
      | Some r \<Rightarrow> if \<not> valid_anchor_row r then error_reply 503 ''anchor_unavailable''
          else (200, JObj [(''head_sha256'', JStr (an_head r)), (''provider_id'', JStr p), (''sequence'', JInt (an_seq r))])))"

record cas_request =
  cq_exp_seq :: int
  cq_exp_head :: string
  cq_new_seq :: int
  cq_new_head :: string

text \<open>The UPDATE carries the expected values in its WHERE clause as well.\<close>

definition service_cas :: "string \<Rightarrow> string \<Rightarrow> string \<Rightarrow> cas_request \<Rightarrow> anchors \<Rightarrow> http_reply \<times> anchors" where
  "service_cas token supplied p q db =
    (if supplied \<noteq> ''Bearer '' @ token then (error_reply 401 ''unauthorized'', db)
     else if \<not> anchor_route p then (error_reply 404 ''not_found'', db)
     else if cq_exp_seq q < 0 \<or> cq_new_seq q \<noteq> cq_exp_seq q + 1 \<or> \<not> is_digest (cq_exp_head q) \<or> \<not> is_digest (cq_new_head q)
     then (error_reply 400 ''cas_values_invalid'', db)
     else (case lookup_row an_provider db p of
        None \<Rightarrow> (error_reply 404 ''anchor_not_provisioned'', db)
      | Some r \<Rightarrow>
          if \<not> valid_anchor_row r then (error_reply 503 ''anchor_unavailable'', db)
          else if (an_seq r, an_head r) \<noteq> (cq_exp_seq q, cq_exp_head q) then ((409, JObj [(''updated'', JBool False)]), db)
          else (let hit = (\<lambda>a. an_provider a = p \<and> an_seq a = cq_exp_seq q \<and> an_head a = cq_exp_head q) in
            if count_where hit db \<noteq> 1 then ((409, JObj [(''updated'', JBool False)]), db)
            else ((200, JObj [(''updated'', JBool True)]),
              update_where hit (\<lambda>a. a\<lparr>an_seq := cq_new_seq q, an_head := cq_new_head q\<rparr>) db))))"

section \<open>The world of a registry\<close>

text \<open>
  The local database, what was ever backed up of it (every earlier content), the service's
  table, and what the network does to the coming requests; when the list is used up requests
  are delivered. \<open>wo_hashed\<close> is no state of the program: it remembers the texts that
  were hashed, for the statements that exclude collisions among them.
\<close>

datatype transport = Delivered | RequestLost | ResponseLost

record world =
  wo_db :: replay_db
  wo_past :: "replay_db list"
  wo_anchors :: anchors
  wo_net :: "transport list"
  wo_hashed :: "string list"

text \<open>A transaction on the local database; its reading does not change it.\<close>

definition db_read :: "(replay_db \<Rightarrow> 'a result) \<Rightarrow> (world, 'a) op" where
  "db_read f = readS (\<lambda>w. f (wo_db w))"

definition db_commit :: "(replay_db \<Rightarrow> ('a \<times> replay_db) result) \<Rightarrow> (world, 'a) op" where
  "db_commit f = commitS (\<lambda>w. bindR (f (wo_db w)) (\<lambda>(x, db). Inr (x, w\<lparr>wo_db := db, wo_past := wo_db w # wo_past w\<rparr>)))"

text \<open>One exchange with the service: the reply, or None when the client hears nothing.\<close>

definition exchange :: "(anchors \<Rightarrow> http_reply \<times> anchors) \<Rightarrow> world \<Rightarrow> http_reply option \<times> world" where
  "exchange f w = (let t = (case wo_net w of [] \<Rightarrow> Delivered | t # _ \<Rightarrow> t); w' = w\<lparr>wo_net := tl (wo_net w)\<rparr> in
     case t of
       RequestLost \<Rightarrow> (None, w')
     | Delivered \<Rightarrow> (let (r, as) = f (wo_anchors w) in (Some r, w'\<lparr>wo_anchors := as\<rparr>))
     | ResponseLost \<Rightarrow> (let (r, as) = f (wo_anchors w) in (None, w'\<lparr>wo_anchors := as\<rparr>)))"

section \<open>The client\<close>

text \<open>The token of the service and the one the client was given.\<close>

record link_config =
  lc_service_token :: string
  lc_client_token :: string

definition validate_anchor :: "string \<Rightarrow> json \<Rightarrow> (int \<times> string) result" where
  "validate_anchor p anchor = (case anchor of
      JObj kvs \<Rightarrow>
       (if set (map fst kvs) \<noteq> {''provider_id'', ''sequence'', ''head_sha256''}
        then raise ReplayAnchorUnavailable ''external_anchor_envelope_invalid''
        else if json_get kvs ''provider_id'' \<noteq> JStr p then raise ReplayAnchorUnavailable ''external_anchor_provider_mismatch''
        else (case json_get kvs ''sequence'' of
           JInt sq \<Rightarrow>
            (if sq < 0 then raise ReplayAnchorUnavailable ''external_anchor_sequence_invalid''
             else (case json_get kvs ''head_sha256'' of
                JStr h \<Rightarrow>
                 (if \<not> is_digest h then raise ReplayAnchorUnavailable ''external_anchor_head_invalid''
                  else if sq = 0 \<and> h \<noteq> genesis_hash then raise ReplayAnchorUnavailable ''external_anchor_genesis_invalid''
                  else Inr (sq, h))
              | _ \<Rightarrow> raise ReplayAnchorUnavailable ''external_anchor_head_invalid''))
         | _ \<Rightarrow> raise ReplayAnchorUnavailable ''external_anchor_sequence_invalid''))
    | _ \<Rightarrow> raise ReplayAnchorUnavailable ''external_anchor_envelope_invalid'')"

text \<open>A missing answer and an error status fail alike.\<close>

definition get_anchor :: "link_config \<Rightarrow> string \<Rightarrow> (world, json) op" where
  "get_anchor lc p = (\<lambda>w.
    (if p = [] then (raise ReplayAnchorUnavailable ''external_anchor_provider_invalid'', w)
     else (case exchange (\<lambda>as. (service_get (lc_service_token lc) (''Bearer '' @ lc_client_token lc) p as, as)) w of
        (Some (st, payload), w') \<Rightarrow>
          if 400 \<le> st then (raise ReplayAnchorUnavailable ''external_anchor_unavailable_fail_closed'', w')
          else (bindR (validate_anchor p payload) (\<lambda>_. Inr payload), w')
      | (None, w') \<Rightarrow> (raise ReplayAnchorUnavailable ''external_anchor_unavailable_fail_closed'', w'))))"

definition compare_and_set_anchor :: "link_config \<Rightarrow> string \<Rightarrow> int \<times> string \<Rightarrow> int \<times> string \<Rightarrow> (world, bool) op" where
  "compare_and_set_anchor lc p prior new = (\<lambda>w.
    (if fst prior < 0 \<or> fst new \<noteq> fst prior + 1
     then (raise ReplayAnchorUnavailable ''external_anchor_cas_sequence_invalid'', w)
     else if \<not> is_digest (snd prior) \<or> \<not> is_digest (snd new)
     then (raise ReplayAnchorUnavailable ''external_anchor_cas_head_invalid'', w)
     else if p = [] then (raise ReplayAnchorUnavailable ''external_anchor_provider_invalid'', w)
     else (case exchange (service_cas (lc_service_token lc) (''Bearer '' @ lc_client_token lc) p
             \<lparr>cq_exp_seq = fst prior, cq_exp_head = snd prior, cq_new_seq = fst new, cq_new_head = snd new\<rparr>) w of
        (Some (st, payload), w') \<Rightarrow>
          if st = 409 then (Inr False, w')
          else if 400 \<le> st then (raise ReplayAnchorUnavailable ''external_anchor_cas_outcome_unknown'', w')
          else if payload \<noteq> JObj [(''updated'', JBool True)]
          then (raise ReplayAnchorUnavailable ''external_anchor_cas_response_invalid'', w')
          else (Inr True, w')
      | (None, w') \<Rightarrow> (raise ReplayAnchorUnavailable ''external_anchor_cas_outcome_unknown'', w'))))"

text \<open>Whatever the store raises becomes one error; then the reply is validated.\<close>

definition read_anchor :: "link_config \<Rightarrow> string \<Rightarrow> (world, int \<times> string) op" where
  "read_anchor lc p = bindS (tryS (get_anchor lc p)
      (\<lambda>_. failS ReplayAnchorUnavailable ''external_anchor_unavailable_fail_closed''))
    (\<lambda>anchor. liftS (validate_anchor p anchor))"

section \<open>The adapter that publishes after it recorded\<close>

definition local_state :: "replay_db \<Rightarrow> string \<Rightarrow> (int \<times> string) result" where
  "local_state db p = (case provider_state db p of
      None \<Rightarrow> if \<exists>a \<in> set (rg_accepted db). ac_provider a = p
        then raise AttestationReplayRegistryError ''replay_registry_legacy_state_requires_migration''
        else Inr (0, genesis_hash)
    | Some (sq, h) \<Rightarrow> if sq < 0 then raise AttestationReplayRegistryError ''replay_registry_journal_state_invalid''
        else Inr (sq, h))"

record replay_result =
  rp_seq :: int
  rp_head :: string
  rp_recovered :: bool

definition dossier_provider_field :: "json \<Rightarrow> json" where
  "dossier_provider_field dossier = sub_field (dict_items dossier) ''runner'' ''provider_id''"

definition verify_and_record_attestation_anchored :: "crypto \<Rightarrow> link_config \<Rightarrow> (string \<Rightarrow> string option) \<Rightarrow> json \<Rightarrow> json \<Rightarrow>
    (world, replay_result) proc" where
  "verify_and_record_attestation_anchored c lc trusted dossier envelope = (case dossier_provider_field dossier of
      JStr p \<Rightarrow>
       (if p = [] then liftP (raise AttestationReplayRegistryError ''attestation_provider_id_invalid'')
        else bindP (atomP (read_anchor lc p)) (\<lambda>prior.
          bindP (atomP (db_read (\<lambda>db. local_state db p))) (\<lambda>local.
          if local \<noteq> prior then liftP (raise ReplayAnchorUnavailable ''local_registry_differs_from_external_anchor'')
          else bindP (atomP (db_commit (verify_and_record_attestation c trusted dossier envelope None None))) (\<lambda>new.
            if fst new \<noteq> fst prior + 1 then liftP (raise ReplayAnchorUnavailable ''local_registry_unexpected_successor'')
            else bindP (tryP (atomP (compare_and_set_anchor lc p prior new))
                (\<lambda>_. liftP (raise ReplayAnchorUnavailable ''external_anchor_publish_failed_reconcile_required''))) (\<lambda>published.
              if \<not> published
              then liftP (raise ReplayAnchorUnavailable ''external_anchor_compare_and_set_conflict_reconcile_required'')
              else liftP (Inr \<lparr>rp_seq = fst new, rp_head = snd new, rp_recovered = False\<rparr>))))))
    | _ \<Rightarrow> liftP (raise AttestationReplayRegistryError ''attestation_provider_id_invalid''))"

section \<open>Signed checkpoints\<close>

definition checkpoint_schema :: string where
  "checkpoint_schema = ''evm-key-forensics-replay-checkpoint-v1''"

definition checkpoint_text :: "json \<Rightarrow> string" where
  "checkpoint_text payload = ''OWNERA-AEGISFORGE-REPLAY-CHECKPOINT-V1'' @ CHR 0x00 # canonical_text payload"

definition sign_registry_checkpoint :: "crypto \<Rightarrow> json \<Rightarrow> json \<Rightarrow> json \<Rightarrow> json \<Rightarrow> string \<Rightarrow> json result" where
  "sign_registry_checkpoint c p sq head key_id key =
    (if \<not> text_present p then raise ReplayCheckpointError ''checkpoint_provider_id_invalid''
     else (case sq of
        JInt n \<Rightarrow>
         (if n < 0 then raise ReplayCheckpointError ''checkpoint_sequence_invalid''
          else (case head of
             JStr h \<Rightarrow>
              (if \<not> is_digest h then raise ReplayCheckpointError ''checkpoint_head_hash_invalid''
               else if n = 0 \<and> h \<noteq> genesis_hash then raise ReplayCheckpointError ''checkpoint_genesis_invalid''
               else if \<not> text_present key_id then raise ReplayCheckpointError ''checkpoint_key_id_invalid''
               else (let payload = JObj [(''head_sha256'', head), (''key_id'', key_id), (''provider_id'', p),
                         (''schema_version'', JStr checkpoint_schema), (''sequence'', sq)] in
                 Inr (JObj [(''checkpoint'', payload),
                   (''signature_base64'', JStr (cr_b64encode c (cr_sign c key (checkpoint_text payload))))])))
           | _ \<Rightarrow> raise ReplayCheckpointError ''checkpoint_head_hash_invalid''))
      | _ \<Rightarrow> raise ReplayCheckpointError ''checkpoint_sequence_invalid''))"

text \<open>The external high-water mark: its sequence and, if known, its head.\<close>

definition check_against_anchor :: "int \<Rightarrow> string \<Rightarrow> int \<Rightarrow> string option \<Rightarrow> unit result" where
  "check_against_anchor sq head minimum anchored = (case anchored of
      None \<Rightarrow> Inr ()
    | Some h \<Rightarrow>
        if \<not> is_digest h then raise ReplayCheckpointError ''external_anchor_head_hash_invalid''
        else if minimum = 0 \<and> h \<noteq> genesis_hash then raise ReplayCheckpointError ''external_anchor_genesis_invalid''
        else if sq = minimum \<and> head \<noteq> h then raise ReplayCheckpointError ''checkpoint_conflicts_with_external_anchor''
        else Inr ())"

definition verify_registry_checkpoint :: "crypto \<Rightarrow> json \<Rightarrow> (string \<Rightarrow> string option) \<Rightarrow> string \<Rightarrow> int \<Rightarrow> int \<Rightarrow> string \<Rightarrow>
    string option \<Rightarrow> (int \<times> string) result" where
  "verify_registry_checkpoint c envelope trusted p minimum local_seq local_head anchored = (case envelope of
      JObj env \<Rightarrow>
       (if set (map fst env) \<noteq> {''checkpoint'', ''signature_base64''} then raise ReplayCheckpointError ''checkpoint_envelope_fields_invalid''
        else (case json_get env ''checkpoint'' of
          JObj payload \<Rightarrow>
           (if set (map fst payload) \<noteq> {''schema_version'', ''provider_id'', ''sequence'', ''head_sha256'', ''key_id''}
            then raise ReplayCheckpointError ''checkpoint_payload_fields_invalid''
            else if json_get payload ''schema_version'' \<noteq> JStr checkpoint_schema
            then raise ReplayCheckpointError ''checkpoint_schema_version_unsupported''
            else if json_get payload ''provider_id'' \<noteq> JStr p then raise ReplayCheckpointError ''checkpoint_provider_mismatch''
            else (case json_get payload ''sequence'' of
              JInt sq \<Rightarrow>
               (if sq < 0 \<or> minimum < 0 then raise ReplayCheckpointError ''checkpoint_sequence_invalid''
                else (case json_get payload ''head_sha256'' of
                  JStr head \<Rightarrow>
                   (if \<not> is_digest head then raise ReplayCheckpointError ''checkpoint_head_hash_invalid''
                    else if sq = 0 \<and> head \<noteq> genesis_hash then raise ReplayCheckpointError ''checkpoint_genesis_invalid''
                    else (case (case json_get payload ''key_id'' of JStr k \<Rightarrow> trusted k | _ \<Rightarrow> None) of
                      None \<Rightarrow> raise ReplayCheckpointError ''checkpoint_signing_key_not_trusted''
                    | Some public \<Rightarrow>
                       (if length public \<noteq> 32 then raise ReplayCheckpointError ''checkpoint_signing_key_not_trusted''
                        else (case json_get env ''signature_base64'' of
                          JStr signature \<Rightarrow>
                           (case cr_b64decode c signature of
                              None \<Rightarrow> raise ReplayCheckpointError ''checkpoint_signature_invalid''
                            | Some sg \<Rightarrow>
                               (if \<not> (cr_public_ok c public \<and> cr_verify c public sg (checkpoint_text (JObj payload)))
                                then raise ReplayCheckpointError ''checkpoint_signature_invalid''
                                else if sq < minimum then raise ReplayCheckpointError ''checkpoint_behind_external_high_water_mark''
                                else bindR (check_against_anchor sq head minimum anchored) (\<lambda>_.
                                  if local_seq < 0 then raise ReplayCheckpointError ''local_registry_sequence_invalid''
                                  else if local_seq \<noteq> sq \<or> local_head \<noteq> head
                                  then raise ReplayCheckpointError ''local_registry_state_differs_from_checkpoint''
                                  else Inr (sq, head))))
                        | _ \<Rightarrow> raise ReplayCheckpointError ''checkpoint_signature_encoding_invalid''))))
                | _ \<Rightarrow> raise ReplayCheckpointError ''checkpoint_head_hash_invalid''))
            | _ \<Rightarrow> raise ReplayCheckpointError ''checkpoint_sequence_invalid''))
        | _ \<Rightarrow> raise ReplayCheckpointError ''checkpoint_payload_fields_invalid''))
    | _ \<Rightarrow> raise ReplayCheckpointError ''checkpoint_envelope_fields_invalid'')"

end
