(* ===== verification/PendingReplay.thy ===== *)
theory PendingReplay
  imports ReplayAnchor
begin

text \<open>
  The pending-first protocol (\<^verbatim>\<open>src/shared/pending_anchored_attestation_replay.py\<close>): a
  candidate is staged locally, its exact head is anchored, and only then is the receipt
  accepted. The handlers are processes whose atomic steps are their transactions and their
  requests to the anchor.
\<close>

section \<open>Candidates\<close>

definition candidate_event :: "json \<Rightarrow> attested \<Rightarrow> int \<times> string \<Rightarrow> json" where
  "candidate_event dossier v prior = journal_event (dossier_provider dossier) (fst prior + 1) (snd prior)
     (dossier_run dossier) (dossier_nonce dossier) (ar_receipt_sha256 v)"

definition candidate_position :: "crypto \<Rightarrow> json \<Rightarrow> attested \<Rightarrow> int \<times> string \<Rightarrow> int \<times> string" where
  "candidate_position c dossier v prior = (fst prior + 1, journal_hash c (candidate_event dossier v prior))"

definition candidate_text :: "json \<Rightarrow> json \<Rightarrow> json \<Rightarrow> string" where
  "candidate_text event dossier envelope = ''OWNERA-AEGISFORGE-PENDING-REPLAY-V1'' @ CHR 0x00 #
     canonical_text (JObj [(''dossier'', dossier), (''envelope'', envelope), (''event'', event)])"

definition candidate_id :: "crypto \<Rightarrow> json \<Rightarrow> json \<Rightarrow> json \<Rightarrow> string" where
  "candidate_id c event dossier envelope = cr_sha256 c (candidate_text event dossier envelope)"

definition new_candidate :: "crypto \<Rightarrow> json \<Rightarrow> json \<Rightarrow> attested \<Rightarrow> int \<times> string \<Rightarrow> pending_row" where
  "new_candidate c dossier envelope v prior =
    \<lparr>pn_candidate = candidate_id c (candidate_event dossier v prior) dossier envelope, pn_provider = dossier_provider dossier,
     pn_run = dossier_run dossier, pn_nonce = dossier_nonce dossier, pn_key_id = ar_key_id v, pn_receipt = ar_receipt_sha256 v,
     pn_prior_seq = fst prior, pn_prior_head = snd prior, pn_seq = fst (candidate_position c dossier v prior),
     pn_head = snd (candidate_position c dossier v prior), pn_dossier = dossier, pn_envelope = envelope, pn_status = Prepared\<rparr>"

text \<open>The texts hashed for a candidate: its journal event and its id.\<close>

definition pending_event :: "pending_row \<Rightarrow> json" where
  "pending_event n = journal_event (pn_provider n) (pn_seq n) (pn_prior_head n) (pn_run n) (pn_nonce n) (pn_receipt n)"

definition pending_text :: "pending_row \<Rightarrow> string" where
  "pending_text n = candidate_text (pending_event n) (pn_dossier n) (pn_envelope n)"

section \<open>Staging\<close>

text \<open>
  The IMMEDIATE transaction of \<^verbatim>\<open>_persist_pending\<close>; a candidate that is there already is
  left as it is. \<^verbatim>\<open>ORDER BY created_at LIMIT 1\<close> is the first row: rows are never moved.
\<close>

definition persist_pending :: "pending_row \<Rightarrow> replay_db \<Rightarrow> (unit \<times> replay_db) result" where
  "persist_pending n db =
    (let p = pn_provider n in
     bindR (case provider_state db p of
         Some s \<Rightarrow> Inr s
       | None \<Rightarrow> if legacy_rows db p then raise AttestationReplayRegistryError ''replay_registry_legacy_state_requires_migration''
           else Inr (0, genesis_hash)) (\<lambda>current.
     if current \<noteq> (pn_prior_seq n, pn_prior_head n)
     then raise ReplayAnchorUnavailable ''local_registry_differs_from_external_anchor''
     else if \<exists>a \<in> set (rg_accepted db). ac_provider a = p \<and> (ac_run a = pn_run n \<or> ac_nonce a = pn_nonce n)
     then raise AttestationReplayRegistryError ''attestation_replay_detected:run_id_or_nonce_already_seen''
     else (case lookup_row pn_candidate (rg_pending db) (pn_candidate n) of
        Some r \<Rightarrow>
          if pn_head r \<noteq> pn_head n then raise AttestationReplayRegistryError ''pending_candidate_id_collision''
          else if pn_status r = Conflict then raise ReplayAnchorUnavailable ''pending_candidate_conflict_requires_review''
          else Inr ((), db)
      | None \<Rightarrow>
         (case find (\<lambda>r. pn_provider r = p \<and> (pn_run r = pn_run n \<or> pn_nonce r = pn_nonce n) \<and>
               pn_candidate r \<noteq> pn_candidate n) (rg_pending db) of
            Some r \<Rightarrow> if pn_status r = Conflict then raise ReplayAnchorUnavailable ''pending_candidate_conflict_requires_review''
              else raise AttestationReplayRegistryError ''pending_candidate_run_or_nonce_already_staged''
          | None \<Rightarrow> Inr ((), db\<lparr>rg_pending := rg_pending db @ [n]\<rparr>)))))"

definition stage_candidate :: "pending_row \<Rightarrow> (world, unit) op" where
  "stage_candidate n = (\<lambda>w. db_commit (persist_pending n)
     (w\<lparr>wo_hashed := journal_text (pending_event n) # pending_text n # wo_hashed w\<rparr>))"

definition mark_conflict :: "string \<Rightarrow> replay_db \<Rightarrow> (unit \<times> replay_db) result" where
  "mark_conflict cid db = Inr ((), db\<lparr>rg_pending :=
     update_where (\<lambda>r. pn_candidate r = cid) (\<lambda>r. r\<lparr>pn_status := Conflict\<rparr>) (rg_pending db)\<rparr>)"

definition read_candidate :: "string \<Rightarrow> replay_db \<Rightarrow> pending_row result" where
  "read_candidate cid db = (case lookup_row pn_candidate (rg_pending db) cid of
      None \<Rightarrow> raise ReplayAnchorUnavailable ''pending_candidate_missing''
    | Some r \<Rightarrow> Inr r)"

text \<open>
  A stored candidate is no authority: its evidence is verified again, and its run id, nonce,
  receipt and head are recomputed from it.
\<close>

definition check_candidate :: "crypto \<Rightarrow> (string \<Rightarrow> string option) \<Rightarrow> pending_row \<Rightarrow> attested result" where
  "check_candidate c trusted r =
     bindR (rescue (\<lambda>cl. type_or_value cl \<or> cl = KeyError)
         (\<lambda>_. Exc ReplayAnchorUnavailable ''pending_evidence_reverification_failed'')
         (verify_independent_runner_attestation c trusted (pn_dossier r) (pn_envelope r))) (\<lambda>v.
     bindR (ensure ((dossier_provider (pn_dossier r), dossier_run (pn_dossier r), dossier_nonce (pn_dossier r), ar_receipt_sha256 v) =
          (pn_provider r, pn_run r, pn_nonce r, pn_receipt r)) ReplayAnchorUnavailable ''pending_evidence_binding_mismatch'') (\<lambda>_.
     bindR (ensure (candidate_position c (pn_dossier r) v (pn_prior_seq r, pn_prior_head r) = (pn_seq r, pn_head r))
        ReplayAnchorUnavailable ''pending_candidate_hash_mismatch'') (\<lambda>_. Inr v)))"

section \<open>Finalizing\<close>

text \<open>A previous attempt committed the receipt: confirm the evidence and mark the candidate.\<close>

definition confirm_committed :: "pending_row \<Rightarrow> replay_db \<Rightarrow> (unit \<times> replay_db) result" where
  "confirm_committed r db =
    (if \<exists>e \<in> set (rg_evidence db). sv_provider e = pn_provider r \<and> sv_seq e = pn_seq r \<and> sv_run e = pn_run r \<and>
         sv_nonce e = pn_nonce r \<and> sv_receipt e = pn_receipt r \<and> sv_head e = pn_head r
     then bindR (finalize_row (pn_candidate r) (pn_provider r) (pn_run r) (pn_nonce r) (pn_receipt r) (pn_seq r) (pn_head r)
        {Prepared, Finalized} ReplayAnchorUnavailable ''pending_candidate_not_finalizable'' db) (\<lambda>db'. Inr ((), db'))
     else raise ReplayAnchorUnavailable ''anchored_candidate_local_evidence_missing'')"

text \<open>
  \<^verbatim>\<open>_finalize_pending\<close>; it calls itself when another recoverer was faster. \<open>fuel\<close> bounds the
  recursion as Python's stack does.
\<close>

primrec finalize_pending :: "nat \<Rightarrow> crypto \<Rightarrow> string \<Rightarrow> (string \<Rightarrow> string option) \<Rightarrow> (world, replay_result) proc" where
  "finalize_pending 0 c cid trusted = liftP (raise RecursionError ''maximum recursion depth exceeded'')"
| "finalize_pending (Suc fuel) c cid trusted =
    bindP (atomP (db_read (read_candidate cid))) (\<lambda>r.
    if pn_status r = Conflict then liftP (raise ReplayAnchorUnavailable ''pending_candidate_conflict_requires_review'')
    else bindP (liftP (check_candidate c trusted r)) (\<lambda>v.
    bindP (atomP (db_read (\<lambda>db. local_state db (pn_provider r)))) (\<lambda>local.
    if local = (pn_seq r, pn_head r)
    then bindP (atomP (db_read (\<lambda>db. build_replay_recovery_plan c trusted db (pn_provider r) (pn_seq r) (pn_head r)))) (\<lambda>_.
      bindP (atomP (db_commit (confirm_committed r))) (\<lambda>_.
      liftP (Inr \<lparr>rp_seq = pn_seq r, rp_head = pn_head r, rp_recovered = True\<rparr>)))
    else if local \<noteq> (pn_prior_seq r, pn_prior_head r)
    then liftP (raise ReplayAnchorUnavailable ''local_registry_differs_from_pending_prior_anchor'')
    else bindP (tryP
        (bindP (atomP (db_commit (verify_and_record_attestation c trusted (pn_dossier r) (pn_envelope r)
            (Some (pn_prior_seq r, pn_prior_head r)) (Some cid)))) (\<lambda>new. liftP (Inr (Some new))))
        (\<lambda>e. bindP (atomP (db_read (\<lambda>db. local_state db (pn_provider r)))) (\<lambda>current.
          if current \<noteq> (pn_seq r, pn_head r) then liftP (Inl e) else liftP (Inr None)))) (\<lambda>recorded.
      case recorded of
        None \<Rightarrow> finalize_pending fuel c cid trusted
      | Some new \<Rightarrow>
          if new \<noteq> (pn_seq r, pn_head r)
          then liftP (raise ReplayAnchorUnavailable ''finalized_journal_does_not_match_anchored_candidate'')
          else liftP (Inr \<lparr>rp_seq = pn_seq r, rp_head = pn_head r, rp_recovered = False\<rparr>)))))"

section \<open>Registering\<close>

text \<open>The compare-and-set: its answer, or None when it raised.\<close>

definition attempt_cas :: "link_config \<Rightarrow> string \<Rightarrow> int \<times> string \<Rightarrow> int \<times> string \<Rightarrow> (world, bool option) proc" where
  "attempt_cas lc p prior new = tryP
     (bindP (atomP (compare_and_set_anchor lc p prior new)) (\<lambda>b. liftP (Inr (Some b)))) (\<lambda>_. liftP (Inr None))"

definition observe_anchor :: "link_config \<Rightarrow> string \<Rightarrow> string \<Rightarrow> (world, int \<times> string) proc" where
  "observe_anchor lc p msg = tryP (atomP (read_anchor lc p)) (\<lambda>_. liftP (raise ReplayAnchorUnavailable msg))"

definition publish_candidate :: "link_config \<Rightarrow> pending_row \<Rightarrow> (world, unit) proc" where
  "publish_candidate lc n =
    (let p = pn_provider n; prior = (pn_prior_seq n, pn_prior_head n); cand = (pn_seq n, pn_head n) in
     bindP (atomP (read_anchor lc p)) (\<lambda>current.
     if current = cand then liftP (Inr ())
     else if current = prior then bindP (attempt_cas lc p prior cand) (\<lambda>published.
       case published of
         None \<Rightarrow> bindP (observe_anchor lc p ''external_anchor_publish_outcome_unknown'') (\<lambda>observed.
           if observed \<noteq> cand then liftP (raise ReplayAnchorUnavailable ''external_anchor_publish_outcome_unknown'')
           else liftP (Inr ()))
       | Some True \<Rightarrow> liftP (Inr ())
       | Some False \<Rightarrow> bindP (observe_anchor lc p ''external_anchor_conflict_outcome_unknown'') (\<lambda>observed.
           if observed \<noteq> cand
           then bindP (atomP (db_commit (mark_conflict (pn_candidate n)))) (\<lambda>_.
             liftP (raise ReplayAnchorUnavailable ''external_anchor_compare_and_set_conflict_pending_not_accepted''))
           else liftP (Inr ())))
     else bindP (atomP (db_commit (mark_conflict (pn_candidate n)))) (\<lambda>_.
       liftP (raise ReplayAnchorUnavailable ''external_anchor_advanced_to_unrelated_head''))))"

text \<open>The authoritative anchor is read once more right before the local acceptance.\<close>

definition finalize_anchored :: "nat \<Rightarrow> crypto \<Rightarrow> link_config \<Rightarrow> (string \<Rightarrow> string option) \<Rightarrow> pending_row \<Rightarrow>
    (world, replay_result) proc" where
  "finalize_anchored fuel c lc trusted n =
     bindP (atomP (read_anchor lc (pn_provider n))) (\<lambda>final.
     if final \<noteq> (pn_seq n, pn_head n)
     then liftP (raise ReplayAnchorUnavailable ''external_anchor_changed_before_finalization'')
     else finalize_pending fuel c (pn_candidate n) trusted)"

definition verify_and_record_attestation_pending_anchored :: "nat \<Rightarrow> crypto \<Rightarrow> link_config \<Rightarrow> (string \<Rightarrow> string option) \<Rightarrow>
    json \<Rightarrow> json \<Rightarrow> (world, replay_result) proc" where
  "verify_and_record_attestation_pending_anchored fuel c lc trusted dossier envelope =
    (if \<not> is_dict dossier \<or> \<not> is_dict envelope then liftP (raise AttestationReplayRegistryError ''attestation_payload_invalid'')
     else if \<not> is_dict (json_get (dict_items dossier) ''runner'')
     then liftP (raise AttestationReplayRegistryError ''attestation_provider_id_invalid'')
     else (case dossier_provider_field dossier of
        JStr p \<Rightarrow>
         (if p = [] then liftP (raise AttestationReplayRegistryError ''attestation_provider_id_invalid'')
          else bindP (liftP (rescue (\<lambda>cl. type_or_value cl \<or> cl = KeyError)
              (\<lambda>e. Exc AttestationReplayRegistryError (''attestation_invalid:'' @ exc_msg e))
              (verify_independent_runner_attestation c trusted dossier envelope))) (\<lambda>v.
            bindP (atomP (read_anchor lc p)) (\<lambda>prior.
            bindP (atomP (db_read (\<lambda>db. local_state db p))) (\<lambda>local.
            if local \<noteq> prior then liftP (raise ReplayAnchorUnavailable ''local_registry_differs_from_external_anchor'')
            else (let n = new_candidate c dossier envelope v prior in
              bindP (atomP (stage_candidate n)) (\<lambda>_.
              bindP (publish_candidate lc n) (\<lambda>_.
              finalize_anchored fuel c lc trusted n)))))))
      | _ \<Rightarrow> liftP (raise AttestationReplayRegistryError ''attestation_provider_id_invalid'')))"

section \<open>Recovering\<close>

text \<open>An anchor that cannot be read after a failed compare-and-set fails the recovery.\<close>

definition advance_anchor :: "link_config \<Rightarrow> pending_row \<Rightarrow> (world, unit) proc" where
  "advance_anchor lc r =
    (let p = pn_provider r; prior = (pn_prior_seq r, pn_prior_head r); cand = (pn_seq r, pn_head r) in
     bindP (atomP (read_anchor lc p)) (\<lambda>anchor.
     if anchor = prior
     then (if pn_status r \<noteq> Prepared then liftP (raise ReplayAnchorUnavailable ''pending_candidate_conflict_requires_review'')
       else bindP (attempt_cas lc p prior cand) (\<lambda>published.
         case published of
           None \<Rightarrow> bindP (atomP (read_anchor lc p)) (\<lambda>observed.
             if observed \<noteq> cand then liftP (raise ReplayAnchorUnavailable ''pending_recovery_cas_outcome_unknown'')
             else liftP (Inr ()))
         | Some True \<Rightarrow> liftP (Inr ())
         | Some False \<Rightarrow> bindP (atomP (read_anchor lc p)) (\<lambda>observed.
             if observed \<noteq> cand then liftP (raise ReplayAnchorUnavailable ''pending_recovery_cas_conflict'')
             else liftP (Inr ()))))
     else if anchor \<noteq> cand then liftP (raise ReplayAnchorUnavailable ''pending_candidate_not_confirmed_by_external_anchor'')
     else liftP (Inr ())))"

definition recover_pending_attestation :: "nat \<Rightarrow> crypto \<Rightarrow> link_config \<Rightarrow> (string \<Rightarrow> string option) \<Rightarrow> string \<Rightarrow>
    (world, replay_result) proc" where
  "recover_pending_attestation fuel c lc trusted cid =
     bindP (atomP (db_read (read_candidate cid))) (\<lambda>r.
     if pn_status r = Conflict then liftP (raise ReplayAnchorUnavailable ''pending_candidate_conflict_requires_review'')
     else bindP (liftP (check_candidate c trusted r)) (\<lambda>_.
     bindP (advance_anchor lc r) (\<lambda>_.
     bindP (finalize_anchored fuel c lc trusted r) (\<lambda>x.
     liftP (Inr (x\<lparr>rp_recovered := True\<rparr>))))))"

end
