(* ===== verification/DossierRuns.thy ===== *)
theory DossierRuns
  imports Dossier
begin

text \<open>
  What a verified laboratory receipt says: it fixes the whole experiment dossier
  (\<^verbatim>\<open>src/shared/independent_runner_attestation.py\<close>), and a receipt signed by a trusted key
  verifies (\<^verbatim>\<open>src/shared/lab_execution_receipt.py\<close>).
\<close>

section \<open>Values without integers\<close>

text \<open>Python identifies \<^verbatim>\<open>True\<close> with 1; without integers its equality is identity.\<close>

primrec no_ints :: "json \<Rightarrow> bool" where
  "no_ints JNull = True"
| "no_ints (JBool b) = True"
| "no_ints (JInt i) = False"
| "no_ints (JStr s) = True"
| "no_ints (JArr xs) = list_all id (map no_ints xs)"
| "no_ints (JObj kvs) = list_all snd (map (map_prod id no_ints) kvs)"

lemma no_ints_JArr [simp]: "no_ints (JArr xs) \<longleftrightarrow> (\<forall>x \<in> set xs. no_ints x)"
  by (simp add: list_all_iff)

lemma no_ints_JObj [simp]: "no_ints (JObj kvs) \<longleftrightarrow> (\<forall>(k, v) \<in> set kvs. no_ints v)"
  by (auto simp: list_all_iff)

declare no_ints.simps(5,6) [simp del]

lemma py_key_JObj:
  assumes "json_wf (JObj kvs)"
  shows "py_key (JObj kvs) = JObj (map (\<lambda>(k, v). (k, py_key v)) kvs)"
proof -
  have k: "map fst (map (\<lambda>(k, v). (k, py_key v)) kvs) = map fst kvs"
    and w: "map fst (map (map_prod id json_wf) kvs) = map fst kvs" by (induction kvs) auto
  have "sorted (map fst (map (\<lambda>(k, v). (k, py_key v)) kvs))"
    using assms unfolding k json_wf.simps w by (simp add: strict_sorted_iff)
  then show ?thesis by (simp add: sort_key_id_if_sorted)
qed

lemma json_wf_item: "json_wf (JObj kvs) \<Longrightarrow> (k, v) \<in> set kvs \<Longrightarrow> json_wf v"
  by (auto simp: list_all_iff)

lemma py_eq_no_ints:
  assumes "no_ints a" and "no_ints b" and "json_wf a" and "json_wf b" and "py_eq a b"
  shows "a = b"
  using assms
proof (induction a arbitrary: b)
  case (JArr xs)
  then obtain ys where b: "b = JArr ys" by (cases b) (auto simp: py_eq_def split: if_splits)
  from JArr.prems have "map py_key xs = map py_key ys" by (simp add: b py_eq_def)
  then have "xs = ys"
  proof (rule list.inj_map_strong [rotated])
    show "x = y" if "x \<in> set xs" "y \<in> set ys" "py_key x = py_key y" for x y
      using JArr.IH [OF that(1), of y] JArr.prems that by (auto simp: b py_eq_def list_all_iff)
  qed
  then show ?case by (simp add: b)
next
  case (JObj kvs)
  then obtain kvs' where b: "b = JObj kvs'" by (cases b) (auto simp: py_eq_def split: if_splits)
  from JObj.prems have eq: "map (\<lambda>(k, v). (k, py_key v)) kvs = map (\<lambda>(k, v). (k, py_key v)) kvs'"
    by (simp add: b py_eq_def py_key_JObj del: py_key.simps json_wf.simps)
  then have "kvs = kvs'"
  proof (rule list.inj_map_strong [rotated])
    fix x y assume "x \<in> set kvs" "y \<in> set kvs'" and e: "(\<lambda>(k, v). (k, py_key v)) x = (\<lambda>(k, v). (k, py_key v)) y"
    moreover obtain k v k' v' where x: "x = (k, v)" and y: "y = (k', v')" by fastforce
    moreover have "no_ints v" "no_ints v'" "json_wf v" "json_wf v'"
      using JObj.prems calculation json_wf_item by (auto simp: b)
    ultimately show "x = y" using JObj.IH [of x v v'] by (auto simp: py_eq_def)
  qed
  then show ?case by (simp add: b)
next
  case JNull
  then show ?case by (cases b) (auto simp: py_eq_def split: if_splits)
next
  case (JBool x)
  then show ?case by (cases b) (auto simp: py_eq_def split: if_splits)
next
  case (JStr x)
  then show ?case by (cases b) (auto simp: py_eq_def split: if_splits)
qed simp

lemma py_eq_trans: "py_eq x a \<Longrightarrow> py_eq x b \<Longrightarrow> py_eq a b"
  by (simp add: py_eq_def)

section \<open>Objects with fixed fields\<close>

text \<open>Well-formed dicts with the same keys are equal when they agree on every key.\<close>

lemma sorted_items_eq:
  fixes xs ys :: "(string \<times> json) list"
  assumes "sorted_wrt (<) (map fst xs)" and "sorted_wrt (<) (map fst ys)" and "set (map fst xs) = set (map fst ys)"
    and "\<And>k. k \<in> set (map fst xs) \<Longrightarrow> json_get xs k = json_get ys k"
  shows "xs = ys"
proof -
  have keys: "map fst xs = map fst ys"
    using assms(1-3) by (intro sorted_distinct_set_unique) (auto simp: strict_sorted_iff)
  have d: "distinct (map fst xs)" "distinct (map fst ys)" using assms(1,2) by (simp_all add: strict_sorted_iff)
  have get: "json_get zs k = v" if "distinct (map fst zs)" "(k, v) \<in> set zs" for zs k v
    using that by (simp add: json_get_def)
  show ?thesis
  proof (rule list.inj_map_strong [OF _ keys])
    fix x y assume x: "x \<in> set xs" and y: "y \<in> set ys" and k: "fst x = fst y"
    from x have "fst x \<in> set (map fst xs)" by simp
    from assms(4) [OF this] have "json_get xs (fst x) = json_get ys (fst y)" by (simp only: k)
    moreover have "json_get xs (fst x) = snd x" "json_get ys (fst y) = snd y"
      using get [OF d(1), of "fst x" "snd x"] get [OF d(2), of "fst y" "snd y"] x y by simp_all
    ultimately show "x = y" using k by (simp add: prod_eq_iff)
  qed
qed

lemma json_wf_keys: "json_wf (JObj kvs) \<Longrightarrow> sorted_wrt (<) (map fst kvs)"
proof -
  have "map fst (map (map_prod id json_wf) kvs) = map fst kvs" by (induction kvs) auto
  then show "json_wf (JObj kvs) \<Longrightarrow> sorted_wrt (<) (map fst kvs)" by simp
qed

lemma json_get_wf: "json_wf (JObj kvs) \<Longrightarrow> json_wf (json_get kvs k)"
  using json_wf_item [of kvs k "json_get kvs k"]
  by (cases "map_of kvs k") (auto simp: json_get_def simp del: json_wf.simps(6) dest: map_of_SomeD)

text \<open>What the validation has established of a dict.\<close>

definition object_with :: "string list \<Rightarrow> json \<Rightarrow> bool" where
  "object_with fs j \<longleftrightarrow> (\<exists>kvs. j = JObj kvs \<and> set (map fst kvs) = set fs)"

lemma absent_fields_Nil: "absent_fields fs kvs = [] \<longleftrightarrow> set fs \<subseteq> set (map fst kvs)"
  by (auto simp: absent_fields_def filter_empty_conv sort_key_Nil_iff [where k = "\<lambda>x. x"])

lemma dossier_object_Inr:
  assumes "dossier_object v field fs = Inr kvs"
  shows "v = JObj kvs" and "object_with fs v"
proof -
  from assms obtain "v = JObj kvs" and a: "absent_fields fs kvs = []"
    and x: "sort (filter (\<lambda>k. k \<notin> set fs) (map fst kvs)) = []"
    by (auto simp: dossier_object_def Let_def split: json.splits if_splits)
  then show "v = JObj kvs" by simp
  from x have "set (map fst kvs) \<subseteq> set fs"
    by (simp only: sort_key_Nil_iff) (auto simp: filter_empty_conv)
  with a show "object_with fs v" using \<open>v = JObj kvs\<close>
    unfolding object_with_def absent_fields_Nil by blast
qed

lemma object_eqI:
  assumes "object_with fs a" and "object_with fs b" and "json_wf a" and "json_wf b"
    and "\<And>f. f \<in> set fs \<Longrightarrow> json_get (dict_items a) f = json_get (dict_items b) f"
  shows "a = b"
proof -
  from assms(1,2) obtain xs ys where a: "a = JObj xs" and b: "b = JObj ys"
    and k: "set (map fst xs) = set fs" "set (map fst ys) = set fs" by (auto simp: object_with_def)
  have "xs = ys"
  proof (rule sorted_items_eq)
    show "sorted_wrt (<) (map fst xs)" "sorted_wrt (<) (map fst ys)"
      using assms(3,4) json_wf_keys by (simp_all only: a b)
    show "set (map fst xs) = set (map fst ys)" by (simp only: k)
    show "json_get xs k = json_get ys k" if "k \<in> set (map fst xs)" for k
      using assms(5) [of k] that by (simp only: k a b dict_items.simps)
  qed
  then show ?thesis by (simp only: a b)
qed

lemma dossier_object_dest: "dossier_object v field fs = Inr kvs \<Longrightarrow> v = JObj kvs \<and> object_with fs (JObj kvs)"
  using dossier_object_Inr by blast

section \<open>Validated dossiers\<close>

text \<open>
  The part of the validation the binding rests on: every section has its exact fields, and
  the leaves have their types.
\<close>

definition text_leaf :: "json \<Rightarrow> bool" where
  "text_leaf j \<longleftrightarrow> (\<exists>s. j = JStr s)"

definition artifact_shape :: "json \<Rightarrow> bool" where
  "artifact_shape a \<longleftrightarrow> object_with [''name'', ''sha256''] a \<and> text_leaf (json_get (dict_items a) ''name'') \<and>
     text_leaf (json_get (dict_items a) ''sha256'')"

definition dossier_shape :: "json \<Rightarrow> bool" where
  "dossier_shape dossier \<longleftrightarrow> (let d = dict_items dossier in
     object_with dossier_fields dossier \<and> json_get d ''schema_version'' = JStr dossier_schema \<and>
     object_with [''repository'', ''revision''] (json_get d ''source'') \<and>
     object_with [''fixture_id'', ''sha256''] (json_get d ''fixture'') \<and>
     object_with [''argv'', ''argv_sha256''] (json_get d ''command'') \<and>
     object_with [''build_recipe_sha256'', ''harness_sha256''] (json_get d ''harness'') \<and>
     object_with [''image_digest'', ''provider_id'', ''runner_id''] (json_get d ''runner'') \<and>
     object_with [''completed_at'', ''exit_code'', ''started_at'', ''test_passed'', ''timed_out''] (json_get d ''execution'') \<and>
     object_with [''historical_code_executed'', ''real_key_material_handled'', ''scope''] (json_get d ''safety'') \<and>
     (\<forall>f \<in> {''experiment_id'', ''run_id'', ''nonce'', ''result_sha256''}. text_leaf (json_get d f)) \<and>
     (\<forall>(f, v) \<in> set (expected_inputs d). no_ints v) \<and>
     (\<forall>(f, v) \<in> set (expected_execution d). f = ''exit_code'' \<and> is_integer v \<or> f \<noteq> ''exit_code'' \<and> no_ints v) \<and>
     (\<exists>as. json_get d ''artifacts'' = JArr as \<and> (\<forall>a \<in> set as. artifact_shape a)))"

lemma dossier_text_Inr: "dossier_text v f = Inr s \<Longrightarrow> v = JStr s"
  by (cases "(v, f)" rule: dossier_text.cases) (auto split: if_splits)

lemma dossier_digest_Inr: "dossier_digest v f = Inr s \<Longrightarrow> v = JStr s"
  by (cases "(v, f)" rule: dossier_digest.cases) (auto split: if_splits)

lemma dossier_timestamp_Inr: "dossier_timestamp c v f = Inr t \<Longrightarrow> \<exists>s. v = JStr s"
  by (auto simp: dossier_timestamp_def bindR_Inr_iff dest!: dossier_text_Inr)

lemmas leaf_Inr = dossier_text_Inr dossier_digest_Inr dossier_timestamp_Inr

lemma case_JStr_Inr: "(case j of JStr s \<Rightarrow> f s | _ \<Rightarrow> raise c m) = Inr x \<longleftrightarrow> (\<exists>s. j = JStr s \<and> f s = Inr x)"
  by (cases j) auto

lemma case_JArr_Inr: "(case j of JArr xs \<Rightarrow> f xs | _ \<Rightarrow> raise c m) = Inr x \<longleftrightarrow> (\<exists>xs. j = JArr xs \<and> f xs = Inr x)"
  by (cases j) auto

lemmas case_json_Inr = case_JStr_Inr case_JArr_Inr

lemma all_texts_no_ints: "all_texts xs \<Longrightarrow> no_ints (JArr xs)"
  by (induction xs rule: all_texts.induct) auto

lemma dossier_source_shape:
  "dossier_source v = Inr u \<Longrightarrow> object_with [''repository'', ''revision''] v \<and>
     no_ints (json_get (dict_items v) ''repository'') \<and> no_ints (json_get (dict_items v) ''revision'')"
  by (auto simp: dossier_source_def bindR_Inr_iff case_json_Inr dest!: leaf_Inr dossier_object_dest)

lemma dossier_fixture_shape:
  "dossier_fixture v = Inr u \<Longrightarrow> object_with [''fixture_id'', ''sha256''] v \<and>
     no_ints (json_get (dict_items v) ''fixture_id'') \<and> no_ints (json_get (dict_items v) ''sha256'')"
  by (auto simp: dossier_fixture_def bindR_Inr_iff dest!: leaf_Inr dossier_object_dest)

lemma dossier_command_shape:
  "dossier_command c v = Inr u \<Longrightarrow> object_with [''argv'', ''argv_sha256''] v \<and>
     no_ints (json_get (dict_items v) ''argv'') \<and> no_ints (json_get (dict_items v) ''argv_sha256'')"
  by (auto simp: dossier_command_def bindR_Inr_iff case_json_Inr simp del: no_ints_JArr dest!: leaf_Inr dossier_object_dest dest: all_texts_no_ints
      split: if_splits)

lemma dossier_harness_shape:
  "dossier_harness v = Inr u \<Longrightarrow> object_with [''build_recipe_sha256'', ''harness_sha256''] v \<and>
     no_ints (json_get (dict_items v) ''build_recipe_sha256'') \<and> no_ints (json_get (dict_items v) ''harness_sha256'')"
  by (auto simp: dossier_harness_def bindR_Inr_iff dest!: leaf_Inr dossier_object_dest)

lemma dossier_runner_shape:
  "dossier_runner v = Inr u \<Longrightarrow> object_with [''image_digest'', ''provider_id'', ''runner_id''] v \<and>
     no_ints (json_get (dict_items v) ''image_digest'') \<and> no_ints (json_get (dict_items v) ''provider_id'') \<and>
     no_ints (json_get (dict_items v) ''runner_id'')"
  by (auto simp: dossier_runner_def bindR_Inr_iff dest!: leaf_Inr dossier_object_dest split: if_splits)

lemma is_bool_no_ints: "is_bool j \<Longrightarrow> no_ints j"
  by (cases j) auto

lemma dossier_execution_shape:
  "dossier_execution c v = Inr u \<Longrightarrow>
     object_with [''completed_at'', ''exit_code'', ''started_at'', ''test_passed'', ''timed_out''] v \<and>
     no_ints (json_get (dict_items v) ''started_at'') \<and> no_ints (json_get (dict_items v) ''completed_at'') \<and>
     is_integer (json_get (dict_items v) ''exit_code'') \<and>
     no_ints (json_get (dict_items v) ''timed_out'') \<and> no_ints (json_get (dict_items v) ''test_passed'')"
  by (auto simp: dossier_execution_def bindR_Inr_iff dest!: leaf_Inr dossier_object_dest dest: is_bool_no_ints)

lemma dossier_safety_shape:
  assumes "dossier_safety v = Inr u" and wf: "json_wf v"
  shows "object_with [''historical_code_executed'', ''real_key_material_handled'', ''scope''] v \<and> no_ints v"
proof -
  from assms obtain kvs where o: "dossier_object v ''safety'' [''historical_code_executed'', ''real_key_material_handled'', ''scope''] = Inr kvs"
    and t: "is_bool (json_get kvs ''historical_code_executed'')" "is_bool (json_get kvs ''real_key_material_handled'')"
      "json_get kvs ''scope'' \<in> {JStr ''synthetic_only'', JStr ''source_inspection_only''}"
    by (auto simp: dossier_safety_def bindR_Inr_iff Let_def split: if_splits)
  have v: "v = JObj kvs" and w: "object_with [''historical_code_executed'', ''real_key_material_handled'', ''scope''] v"
    using dossier_object_Inr [OF o] by blast+
  then have keys: "set (map fst kvs) = {''historical_code_executed'', ''real_key_material_handled'', ''scope''}"
    by (auto simp: object_with_def)
  have d: "distinct (map fst kvs)" using json_wf_keys wf by (simp add: v strict_sorted_iff del: json_wf.simps)
  have "no_ints x" if "(k, x) \<in> set kvs" for k x
  proof -
    from that have "k \<in> set (map fst kvs)" by force
    moreover have "x = json_get kvs k" using that d by (simp add: json_get_def)
    ultimately show ?thesis unfolding keys using t by (auto intro: is_bool_no_ints)
  qed
  with w v show ?thesis by auto
qed

lemma dossier_artifacts_shape: "dossier_artifacts n seen as = Inr u \<Longrightarrow> \<forall>a \<in> set as. artifact_shape a"
  by (induction n seen as rule: dossier_artifacts.induct)
    (auto simp: bindR_Inr_iff artifact_shape_def text_leaf_def dest!: leaf_Inr dossier_object_dest split: if_splits)

lemma dossier_artifact_list_shape: "dossier_artifact_list v = Inr as \<Longrightarrow> v = JArr as \<and> (\<forall>a \<in> set as. artifact_shape a)"
  by (auto simp: dossier_artifact_list_def case_json_Inr bindR_Inr_iff dest: dossier_artifacts_shape)

lemma validated_dossier_shape:
  assumes "validate_experiment_dossier c dossier = Inr summary" and wf: "json_wf dossier"
  shows "dossier_shape dossier"
proof -
  from assms(1) obtain d as u1 u2 u3 u4 u5 u6 u7 where o: "dossier_object dossier ''dossier'' dossier_fields = Inr d"
    and v: "json_get d ''schema_version'' = JStr dossier_schema"
    and leaves: "\<forall>f \<in> {''experiment_id'', ''run_id'', ''nonce'', ''result_sha256''}. text_leaf (json_get d f)"
    and src: "dossier_source (json_get d ''source'') = Inr u1" and fxt: "dossier_fixture (json_get d ''fixture'') = Inr u2"
    and cmd: "dossier_command c (json_get d ''command'') = Inr u3" and har: "dossier_harness (json_get d ''harness'') = Inr u4"
    and run: "dossier_runner (json_get d ''runner'') = Inr u5" and exe: "dossier_execution c (json_get d ''execution'') = Inr u6"
    and saf: "dossier_safety (json_get d ''safety'') = Inr u7" and art: "dossier_artifact_list (json_get d ''artifacts'') = Inr as"
    unfolding validate_experiment_dossier_def bindR_Inr_iff ensure_Inr_iff text_leaf_def by (auto dest!: leaf_Inr)
  from dossier_object_dest [OF o] have d: "dossier = JObj d" and od: "object_with dossier_fields dossier" by auto
  have "json_wf (json_get d ''safety'')" using json_get_wf wf unfolding d by blast
  from dossier_safety_shape [OF saf this] dossier_source_shape [OF src] dossier_fixture_shape [OF fxt] dossier_command_shape [OF cmd]
    dossier_harness_shape [OF har] dossier_runner_shape [OF run] dossier_execution_shape [OF exe] dossier_artifact_list_shape [OF art]
    v leaves od
  show ?thesis
    unfolding dossier_shape_def Let_def d dict_items.simps expected_inputs_def expected_execution_def sub_field_def
    by (simp add: text_leaf_def) auto
qed

section \<open>The binding\<close>

lemma match_fields_Inr:
  "match_fields err actual es = Inr u \<longleftrightarrow> (\<forall>(f, v) \<in> set es. py_eq (json_get actual f) v)"
  by (induction es) (auto split: if_splits)

lemma attested_Inr:
  assumes "verify_independent_runner_attestation c trusted dossier envelope = Inr r"
  obtains v where "\<exists>s. validate_experiment_dossier c dossier = Inr s" and "verify_signed_receipt c trusted envelope = Inr v"
    and "receipt_binds v (dict_items dossier) = Inr r"
  using assms by (auto simp: verify_independent_runner_attestation_def bindR_Inr_iff)

lemma case_JObj_Inr: "(case j of JObj xs \<Rightarrow> f xs | _ \<Rightarrow> raise c m) = Inr x \<longleftrightarrow> (\<exists>xs. j = JObj xs \<and> f xs = Inr x)"
  by (cases j) auto

lemma receipt_shape_Inr: "validate_receipt_shape j = Inr r \<Longrightarrow> j = JObj r \<and> is_dict (json_get r ''inputs'') \<and>
    is_dict (json_get r ''execution'') \<and> is_dict (json_get r ''artifacts'')"
  by (auto simp: validate_receipt_shape_def case_JObj_Inr split: if_splits)

lemma verified_receipt_of:
  assumes "verify_signed_receipt c trusted envelope = Inr v"
  shows "vr_receipt v = dict_items (json_get (dict_items envelope) ''receipt'')"
proof -
  from assms obtain e s k public where "envelope = JObj e" and r: "bindR (validate_receipt_shape (json_get e ''receipt'')) (\<lambda>receipt.
      let digest = cr_sha256 c (receipt_bytes (json_get e ''receipt'')) in
      if json_get e ''receipt_sha256'' \<noteq> JStr digest then raise LabExecutionReceiptError ''receipt_digest_mismatch''
      else if json_get e ''signer_public_key_sha256'' \<noteq> JStr (cr_sha256 c public)
      then raise LabExecutionReceiptError ''signer_key_fingerprint_mismatch''
      else (case cr_b64decode c s of
          None \<Rightarrow> raise LabExecutionReceiptError ''receipt_signature_invalid''
        | Some sg \<Rightarrow>
            if cr_public_ok c public \<and> cr_verify c public sg (receipt_signature_payload k
                 (json_get e ''receipt'') digest (cr_sha256 c public))
            then Inr \<lparr>vr_key_id = k, vr_sha256 = digest, vr_receipt = receipt\<rparr>
            else raise LabExecutionReceiptError ''receipt_signature_invalid'')) = Inr v"
    unfolding verify_signed_receipt_def case_json_Inr case_JObj_Inr
    by (auto simp: case_json_Inr split: if_splits option.splits)
  moreover from r obtain rc where "validate_receipt_shape (json_get e ''receipt'') = Inr rc" and "vr_receipt v = rc"
    by (auto simp: bindR_Inr_iff Let_def split: if_splits option.splits)
  ultimately show ?thesis using receipt_shape_Inr by force
qed

definition comparable :: "json \<Rightarrow> json \<Rightarrow> bool" where
  "comparable a b \<longleftrightarrow> json_wf a \<and> json_wf b \<and> (no_ints a \<and> no_ints b \<or> is_integer a \<and> is_integer b)"

lemma py_eq_comparable: "comparable a b \<Longrightarrow> py_eq a b \<Longrightarrow> a = b"
  using py_eq_no_ints [of a b] by (cases a; cases b) (auto simp: comparable_def py_eq_def)

lemma comparable_same: "comparable a b \<Longrightarrow> py_eq x a \<Longrightarrow> py_eq x b \<Longrightarrow> a = b"
  using py_eq_comparable py_eq_trans by blast

lemma matched_eq:
  assumes "match_fields err actual es = Inr u" and "match_fields err actual es' = Inr u'"
    and "list_all2 (\<lambda>(f, v) (f', v'). f = f' \<and> comparable v v') es es'"
  shows "es = es'"
  using assms(3,1,2)
proof (induction rule: list_all2_induct)
  case (Cons x xs y ys)
  then show ?case by (auto split: if_splits intro: comparable_same)
qed simp

lemma sub_field_wf: "json_wf (JObj d) \<Longrightarrow> json_wf (sub_field d k f)"
  using json_get_wf [of d k]
  by (cases "json_get d k") (auto simp: sub_field_def simp del: json_wf.simps(6) intro: json_get_wf, simp_all add: json_get_def)

lemma dossier_section_eq:
  assumes "object_with fs (json_get d k)" and "object_with fs (json_get d' k)"
    and "json_wf (JObj d)" and "json_wf (JObj d')" and "\<forall>f \<in> set fs. sub_field d k f = sub_field d' k f"
  shows "json_get d k = json_get d' k"
  by (rule object_eqI [OF assms(1,2)]) (use assms json_get_wf in \<open>auto simp: sub_field_def\<close>)

lemma artifact_items_eq:
  assumes "\<forall>a \<in> set as. artifact_shape a \<and> json_wf a" and "\<forall>a \<in> set bs. artifact_shape a \<and> json_wf a"
    and "py_eq (JArr (map f as)) (JArr (map f bs))"
    and f: "f = (\<lambda>a. JObj [(''name'', json_get (dict_items a) ''name''), (''sha256'', json_get (dict_items a) ''sha256'')])"
  shows "as = bs"
proof -
  have ok: "no_ints (f a) \<and> json_wf (f a)" if "artifact_shape a" for a
    using that by (auto simp: f artifact_shape_def text_leaf_def)
  have "JArr (map f as) = JArr (map f bs)"
    by (rule py_eq_no_ints [OF _ _ _ _ assms(3)]) (use assms(1,2) ok in \<open>auto simp: list_all_iff\<close>)
  then have "map f as = map f bs" by simp
  then show ?thesis
  proof (rule list.inj_map_strong [rotated])
    fix a b assume ab: "a \<in> set as" "b \<in> set bs" and e: "f a = f b"
    show "a = b"
    proof (rule object_eqI)
      show "object_with [''name'', ''sha256''] a" "object_with [''name'', ''sha256''] b"
        using assms(1,2) ab by (auto simp: artifact_shape_def)
    qed (use assms(1,2) ab e in \<open>auto simp: f\<close>)
  qed
qed

lemma pairs_all2:
  "map fst es = map fst es' \<Longrightarrow> (\<And>f v v'. (f, v) \<in> set es \<Longrightarrow> (f, v') \<in> set es' \<Longrightarrow> P v v') \<Longrightarrow>
   list_all2 (\<lambda>(f, v) (f', v'). f = f' \<and> P v v') es es'"
proof (induction es arbitrary: es')
  case (Cons x xs)
  then obtain f v v' ys where e: "x = (f, v)" "es' = (f, v') # ys" "map fst xs = map fst ys" by (cases x) (auto simp: Cons_eq_map_conv)
  with Cons.prems(2) have "P v v'" by auto
  moreover have "list_all2 (\<lambda>(f, v) (f', v'). f = f' \<and> P v v') xs ys"
    by (rule Cons.IH [OF e(3)]) (use Cons.prems(2) e in auto)
  ultimately show ?case by (simp add: e)
qed simp

lemma expected_wf:
  assumes "json_wf (JObj d)"
  shows "(f, v) \<in> set (expected_inputs d) \<Longrightarrow> json_wf v" and "(f, v) \<in> set (expected_execution d) \<Longrightarrow> json_wf v"
  using sub_field_wf [OF assms] json_get_wf [OF assms] by (auto simp: expected_inputs_def expected_execution_def)

lemma expected_types:
  assumes "dossier_shape (JObj d)"
  shows "(f, v) \<in> set (expected_inputs d) \<Longrightarrow> no_ints v"
    and "(f, v) \<in> set (expected_execution d) \<Longrightarrow> f = ''exit_code'' \<and> is_integer v \<or> f \<noteq> ''exit_code'' \<and> no_ints v"
  using assms unfolding dossier_shape_def Let_def dict_items.simps by blast+

lemma expected_comparable:
  assumes "dossier_shape (JObj d)" and "dossier_shape (JObj d')" and "json_wf (JObj d)" and "json_wf (JObj d')"
  shows "list_all2 (\<lambda>(f, v) (f', v'). f = f' \<and> comparable v v') (expected_inputs d) (expected_inputs d')"
    and "list_all2 (\<lambda>(f, v) (f', v'). f = f' \<and> comparable v v') (expected_execution d) (expected_execution d')"
proof -
  note w = expected_wf [OF assms(3)] expected_wf [OF assms(4)] and t = expected_types [OF assms(1)] expected_types [OF assms(2)]
  show "list_all2 (\<lambda>(f, v) (f', v'). f = f' \<and> comparable v v') (expected_inputs d) (expected_inputs d')"
  proof (rule pairs_all2)
    show "comparable v v'" if "(f, v) \<in> set (expected_inputs d)" "(f, v') \<in> set (expected_inputs d')" for f v v'
      using w(1) [OF that(1)] w(3) [OF that(2)] t(1) [OF that(1)] t(3) [OF that(2)] by (simp add: comparable_def)
  qed (simp add: expected_inputs_def)
  show "list_all2 (\<lambda>(f, v) (f', v'). f = f' \<and> comparable v v') (expected_execution d) (expected_execution d')"
  proof (rule pairs_all2)
    show "comparable v v'" if "(f, v) \<in> set (expected_execution d)" "(f, v') \<in> set (expected_execution d')" for f v v'
      using w(2) [OF that(1)] w(4) [OF that(2)] t(2) [OF that(1)] t(4) [OF that(2)] unfolding comparable_def by blast
  qed (simp add: expected_execution_def)
qed

lemma receipt_binds_Inr:
  assumes "receipt_binds v d = Inr r"
  shows "match_fields ''attested_input_mismatch:'' (dict_items (json_get (vr_receipt v) ''inputs'')) (expected_inputs d) = Inr ()"
    and "match_fields ''attested_execution_mismatch:'' (dict_items (json_get (vr_receipt v) ''execution'')) (expected_execution d) = Inr ()"
    and "json_get (vr_receipt v) ''run_id'' = json_get d ''run_id''"
    and "json_get (vr_receipt v) ''experiment_id'' = json_get d ''experiment_id''"
    and "py_eq (json_get (dict_items (json_get (vr_receipt v) ''artifacts'')) ''items'') (expected_artifacts d)"
    and "r = \<lparr>ar_key_id = vr_key_id v, ar_run_id = text_of (json_get d ''run_id''),
       ar_experiment_id = text_of (json_get d ''experiment_id''), ar_receipt_sha256 = vr_sha256 v\<rparr>"
  using assms unfolding receipt_binds_def Let_def bindR_Inr_iff ensure_Inr_iff by auto

text \<open>
  C21: A receipt speaks about one dossier. If the same signed receipt verifies against two
  experiment dossiers, the two dossiers are the same value in every field: source, fixture,
  command line, harness, runner, times, exit code, results, artifacts, safety statement,
  run id and nonce. So nobody can present a receipt for an experiment it was not signed for.
\<close>

theorem receipt_binds_one_dossier:
  assumes "verify_independent_runner_attestation c trusted dossier envelope = Inr r"
    and "verify_independent_runner_attestation c' trusted' dossier' envelope = Inr r'"
    and "json_wf dossier" and "json_wf dossier'"
  shows "dossier = dossier'"
proof -
  obtain v where v: "verify_signed_receipt c trusted envelope = Inr v" "receipt_binds v (dict_items dossier) = Inr r"
    and sh: "dossier_shape dossier"
    by (rule attested_Inr [OF assms(1)]) (use validated_dossier_shape assms(3) in blast)
  obtain v' where v': "verify_signed_receipt c' trusted' envelope = Inr v'" "receipt_binds v' (dict_items dossier') = Inr r'"
    and sh': "dossier_shape dossier'"
    by (rule attested_Inr [OF assms(2)]) (use validated_dossier_shape assms(4) in blast)
  from sh sh' obtain d d' where d: "dossier = JObj d" and d': "dossier' = JObj d'"
    by (auto simp: dossier_shape_def Let_def object_with_def)
  have same: "vr_receipt v = vr_receipt v'" using verified_receipt_of v(1) v'(1) by metis
  note shape = sh [unfolded d] sh' [unfolded d'] and wf = assms(3) [unfolded d] assms(4) [unfolded d']
  note b = receipt_binds_Inr [OF v(2) [unfolded d dict_items.simps]]
    and b' = receipt_binds_Inr [OF v'(2) [unfolded d' dict_items.simps], folded same]
  have inputs: "expected_inputs d = expected_inputs d'" by (rule matched_eq [OF b(1) b'(1) expected_comparable(1) [OF shape wf]])
  have execution: "expected_execution d = expected_execution d'"
    by (rule matched_eq [OF b(2) b'(2) expected_comparable(2) [OF shape wf]])
  have ids: "json_get d ''run_id'' = json_get d' ''run_id''" "json_get d ''experiment_id'' = json_get d' ''experiment_id''"
    using b(3,4) b'(3,4) by simp_all
  have arts: "py_eq (expected_artifacts d) (expected_artifacts d')" by (rule py_eq_trans [OF b(5) b'(5)])
  from shape obtain as bs where lists: "json_get d ''artifacts'' = JArr as" "json_get d' ''artifacts'' = JArr bs"
    and shapes: "\<forall>a \<in> set as. artifact_shape a" "\<forall>a \<in> set bs. artifact_shape a"
    by (auto simp: dossier_shape_def Let_def)
  have "json_wf (JArr as)" "json_wf (JArr bs)" using json_get_wf [OF wf(1), of "''artifacts''"] json_get_wf [OF wf(2), of "''artifacts''"] lists by simp_all
  then have "as = bs"
    by (intro artifact_items_eq [OF _ _ arts [unfolded expected_artifacts_def lists json.case] refl]) (use shapes in \<open>auto simp: list_all_iff\<close>)
  have leaves: "json_get d ''nonce'' = json_get d' ''nonce''" "json_get d ''safety'' = json_get d' ''safety''"
    "json_get d ''result_sha256'' = json_get d' ''result_sha256''"
    using inputs execution by (simp_all add: expected_inputs_def expected_execution_def)
  have fields: "sub_field d ''source'' ''repository'' = sub_field d' ''source'' ''repository''"
    "sub_field d ''source'' ''revision'' = sub_field d' ''source'' ''revision''"
    "sub_field d ''fixture'' ''fixture_id'' = sub_field d' ''fixture'' ''fixture_id''"
    "sub_field d ''fixture'' ''sha256'' = sub_field d' ''fixture'' ''sha256''"
    "sub_field d ''command'' ''argv'' = sub_field d' ''command'' ''argv''"
    "sub_field d ''command'' ''argv_sha256'' = sub_field d' ''command'' ''argv_sha256''"
    "sub_field d ''harness'' ''harness_sha256'' = sub_field d' ''harness'' ''harness_sha256''"
    "sub_field d ''harness'' ''build_recipe_sha256'' = sub_field d' ''harness'' ''build_recipe_sha256''"
    "sub_field d ''runner'' ''provider_id'' = sub_field d' ''runner'' ''provider_id''"
    "sub_field d ''runner'' ''runner_id'' = sub_field d' ''runner'' ''runner_id''"
    "sub_field d ''runner'' ''image_digest'' = sub_field d' ''runner'' ''image_digest''"
    using inputs by (simp_all add: expected_inputs_def)
  have times: "sub_field d ''execution'' f = sub_field d' ''execution'' f"
    if "f \<in> {''completed_at'', ''exit_code'', ''started_at'', ''test_passed'', ''timed_out''}" for f
    using that execution by (auto simp: expected_execution_def)
  have sec: "object_with [''repository'', ''revision''] (json_get d ''source'')" "object_with [''fixture_id'', ''sha256''] (json_get d ''fixture'')"
    "object_with [''argv'', ''argv_sha256''] (json_get d ''command'')"
    "object_with [''build_recipe_sha256'', ''harness_sha256''] (json_get d ''harness'')"
    "object_with [''image_digest'', ''provider_id'', ''runner_id''] (json_get d ''runner'')"
    "object_with [''completed_at'', ''exit_code'', ''started_at'', ''test_passed'', ''timed_out''] (json_get d ''execution'')"
    "json_get d ''schema_version'' = JStr dossier_schema" "object_with dossier_fields (JObj d)" if "dossier_shape (JObj d)" for d
    using that by (simp_all add: dossier_shape_def Let_def)
  note eq = dossier_section_eq [OF _ _ wf]
  show ?thesis unfolding d d'
  proof (rule object_eqI [OF sec(8) [OF shape(1)] sec(8) [OF shape(2)] wf])
    fix f assume "f \<in> set dossier_fields"
    moreover have "json_get d ''source'' = json_get d' ''source''"
      by (rule eq [OF sec(1) [OF shape(1)] sec(1) [OF shape(2)]]) (simp add: fields)
    moreover have "json_get d ''fixture'' = json_get d' ''fixture''"
      by (rule eq [OF sec(2) [OF shape(1)] sec(2) [OF shape(2)]]) (simp add: fields)
    moreover have "json_get d ''command'' = json_get d' ''command''"
      by (rule eq [OF sec(3) [OF shape(1)] sec(3) [OF shape(2)]]) (simp add: fields)
    moreover have "json_get d ''harness'' = json_get d' ''harness''"
      by (rule eq [OF sec(4) [OF shape(1)] sec(4) [OF shape(2)]]) (simp add: fields)
    moreover have "json_get d ''runner'' = json_get d' ''runner''"
      by (rule eq [OF sec(5) [OF shape(1)] sec(5) [OF shape(2)]]) (simp add: fields)
    moreover have "json_get d ''execution'' = json_get d' ''execution''"
      by (rule eq [OF sec(6) [OF shape(1)] sec(6) [OF shape(2)]]) (simp add: times)
    moreover have "json_get d ''schema_version'' = json_get d' ''schema_version''" "json_get d ''artifacts'' = json_get d' ''artifacts''"
      using sec(7) [OF shape(1)] sec(7) [OF shape(2)] \<open>as = bs\<close> lists by simp_all
    ultimately show "json_get (dict_items (JObj d)) f = json_get (dict_items (JObj d')) f"
      using leaves ids by (auto simp: dossier_fields_def)
  qed
qed

section \<open>A concrete attestation\<close>

definition demo_hash :: string where
  "demo_hash = replicate 64 CHR ''a''"

definition pending_hash :: string where
  "pending_hash = replicate 64 CHR ''b''"

definition lab_hash :: "string \<Rightarrow> string" where
  "lab_hash s = (if take 25 s = ''OWNERA-AEGISFORGE-PENDING'' then pending_hash else demo_hash)"

lemma lab_hash_other: "s = [] \<or> hd s \<noteq> CHR ''O'' \<Longrightarrow> lab_hash s = demo_hash"
  by (cases s) (auto simp: lab_hash_def)

definition lab_crypto :: crypto where
  "lab_crypto = \<lparr>cr_sha256 = lab_hash, cr_b64encode = id, cr_b64decode = Some, cr_public_ok = (\<lambda>_. True),
     cr_public = id, cr_sign = (\<lambda>k m. k), cr_verify = (\<lambda>p s m. p = s), cr_parse_time = (\<lambda>s. Aware 0),
     cr_show = (\<lambda>_. []), cr_dict = (\<lambda>_. Inr [])\<rparr>"

definition lab_safety :: json where
  "lab_safety = JObj [(''historical_code_executed'', JBool False), (''real_key_material_handled'', JBool False), (''scope'', JStr ''synthetic_only'')]"

definition lab_dossier :: json where
  "lab_dossier = JObj [(''artifacts'', JArr []), (''command'', JObj [(''argv'', JArr [JStr ''x'']), (''argv_sha256'', JStr demo_hash)]),
     (''execution'', JObj [(''completed_at'', JStr ''t''), (''exit_code'', JInt 0), (''started_at'', JStr ''t''),
        (''test_passed'', JBool True), (''timed_out'', JBool False)]),
     (''experiment_id'', JStr ''e''), (''fixture'', JObj [(''fixture_id'', JStr ''f''), (''sha256'', JStr demo_hash)]),
     (''harness'', JObj [(''build_recipe_sha256'', JStr demo_hash), (''harness_sha256'', JStr demo_hash)]),
     (''nonce'', JStr ''n''), (''result_sha256'', JStr demo_hash), (''run_id'', JStr ''r''),
     (''runner'', JObj [(''image_digest'', JNull), (''provider_id'', JStr ''p''), (''runner_id'', JStr ''q'')]),
     (''safety'', lab_safety), (''schema_version'', JStr dossier_schema),
     (''source'', JObj [(''repository'', JStr ''o/r''), (''revision'', JStr demo_hash)])]"

definition lab_receipt :: json where
  "lab_receipt = JObj [(''artifacts'', JObj [(''items'', JArr [])]), (''execution'', JObj (sort_key fst (expected_execution (dict_items lab_dossier)))),
     (''experiment_id'', JStr ''e''), (''inputs'', JObj (sort_key fst (expected_inputs (dict_items lab_dossier)))),
     (''receipt_type'', JStr receipt_type), (''run_id'', JStr ''r''), (''schema_version'', JInt 1)]"

definition lab_envelope :: json where
  "lab_envelope = (case sign_receipt lab_crypto ''k'' ''kid'' lab_receipt of Inr e \<Rightarrow> e | Inl _ \<Rightarrow> JNull)"

definition lab_keys :: "string \<Rightarrow> string option" where
  "lab_keys k = (if k = ''kid'' then Some ''k'' else None)"

lemma demo_hash_digest: "is_digest demo_hash" "list_all lower_hex demo_hash" "length demo_hash = 64" "demo_hash \<noteq> []"
  by (simp_all add: demo_hash_def is_digest_def lower_hex_def char_code_def list_all_iff)

lemma strip_one [simp]: "\<not> is_space ch \<Longrightarrow> strip [ch] = [ch]"
  by (simp add: strip_def)

lemma strip_repo: "strip ''o/r'' = ''o/r''"
  by code_simp

lemma not_spaces: "\<not> is_space CHR ''e''" "\<not> is_space CHR ''r''" "\<not> is_space CHR ''n''" "\<not> is_space CHR ''f''"
  "\<not> is_space CHR ''p''" "\<not> is_space CHR ''q''" "\<not> is_space CHR ''t''"
  by code_simp+

lemma lab_hashes [simp]: "lab_hash ''k'' = demo_hash" "lab_hash (canonical_text (JArr xs)) = demo_hash"
  "lab_hash (receipt_bytes (JObj kvs)) = demo_hash"
  by (rule lab_hash_other, simp add: canonical_text_def receipt_bytes_def utf8_def)+

lemma lab_dossier_valid: "\<exists>s. validate_experiment_dossier lab_crypto lab_dossier = Inr s"
  unfolding lab_dossier_def lab_safety_def validate_experiment_dossier_def
  by (simp add: dossier_object_def absent_fields_def dossier_fields_def json_get_Cons dossier_source_def dossier_fixture_def
      dossier_command_def dossier_harness_def dossier_runner_def dossier_execution_def dossier_timestamp_def dossier_artifact_list_def
      dossier_safety_def Let_def demo_hash_digest strip_repo not_spaces lab_crypto_def)

lemma lab_wf: "json_wf lab_dossier"
  unfolding lab_dossier_def lab_safety_def by code_simp

lemma lab_receipt_shape: "validate_receipt_shape lab_receipt = Inr (dict_items lab_receipt)"
  unfolding lab_receipt_def validate_receipt_shape_def
  by (simp add: json_get_Cons receipt_type_def not_spaces)

lemma lab_receipt_hash [simp]: "lab_hash (receipt_bytes lab_receipt) = demo_hash"
  by (simp add: lab_receipt_def del: dumps.simps)

lemma lab_envelope_eq: "lab_envelope = JObj [(''algorithm'', JStr ''Ed25519''), (''key_id'', JStr ''kid''), (''receipt'', lab_receipt),
    (''receipt_sha256'', JStr demo_hash), (''schema_version'', JInt 1), (''signature'', JStr ''k''),
    (''signer_public_key_sha256'', JStr demo_hash)]"
proof -
  have "\<not> blank ''kid''" by code_simp
  then show ?thesis
    by (simp add: lab_envelope_def sign_receipt_def lab_receipt_shape Let_def lab_crypto_def)
qed

lemma lab_envelope_verifies: "verify_signed_receipt lab_crypto lab_keys lab_envelope =
    Inr \<lparr>vr_key_id = ''kid'', vr_sha256 = demo_hash, vr_receipt = dict_items lab_receipt\<rparr>"
  unfolding lab_envelope_eq verify_signed_receipt_def
  by (simp add: json_get_Cons signed_receipt_fields_def lab_keys_def lab_receipt_shape Let_def lab_crypto_def insert_commute)

lemma match_fields_self:
  assumes "distinct (map fst es)"
  shows "match_fields err (sort_key fst es) es = Inr ()"
proof -
  have "distinct (map fst (sort_key fst es))" using assms by (simp add: distinct_map)
  then show ?thesis by (auto simp: match_fields_Inr json_get_def)
qed

lemma lab_attested: "verify_independent_runner_attestation lab_crypto lab_keys lab_dossier lab_envelope =
    Inr \<lparr>ar_key_id = ''kid'', ar_run_id = ''r'', ar_experiment_id = ''e'', ar_receipt_sha256 = demo_hash\<rparr>"
proof -
  obtain sm where sm: "validate_experiment_dossier lab_crypto lab_dossier = Inr sm" using lab_dossier_valid by blast
  have d: "distinct (map fst (expected_inputs d))" "distinct (map fst (expected_execution d))" for d
    by (simp_all add: expected_inputs_def expected_execution_def)
  have arts: "expected_artifacts (dict_items lab_dossier) = JArr []"
    by (simp add: expected_artifacts_def lab_dossier_def json_get_Cons)
  have ids: "json_get (dict_items lab_dossier) ''run_id'' = JStr ''r''" "json_get (dict_items lab_dossier) ''experiment_id'' = JStr ''e''"
    by (simp_all add: lab_dossier_def json_get_Cons)
  show ?thesis
    unfolding verify_independent_runner_attestation_def sm lab_envelope_verifies bindR.simps rescue_Inr receipt_binds_def Let_def
    by (simp add: lab_receipt_def json_get_Cons match_fields_self d arts ids text_of_def)
qed

definition lab_other_dossier :: json where
  "lab_other_dossier = JObj (map (\<lambda>(k, v). (k, if k = ''run_id'' then JStr ''s'' else v)) (dict_items lab_dossier))"

theorem receipt_binds_one_dossier_witness:
  "(\<exists>r. verify_independent_runner_attestation lab_crypto lab_keys lab_dossier lab_envelope = Inr r) \<and>
   (\<nexists>r. verify_independent_runner_attestation lab_crypto lab_keys lab_other_dossier lab_envelope = Inr r)"
proof -
  have w: "json_wf lab_other_dossier" unfolding lab_other_dossier_def lab_dossier_def lab_safety_def by code_simp
  have "lab_dossier \<noteq> lab_other_dossier" by (simp add: lab_other_dossier_def lab_dossier_def)
  with receipt_binds_one_dossier [OF lab_attested _ lab_wf w] lab_attested show ?thesis by blast
qed

section \<open>Signing\<close>

text \<open>
  A receipt signed by a key the verifier trusts verifies, with the digest of the receipt,
  whenever base64 decodes what it encoded and the key's signatures verify.
\<close>

lemma signed_receipt_verifies:
  assumes "sign_receipt c key key_id receipt = Inr envelope" and "trusted key_id = Some (cr_public c key)"
    and "\<And>x. cr_b64decode c (cr_b64encode c x) = Some x" and "cr_public_ok c (cr_public c key)"
    and "\<And>m. cr_verify c (cr_public c key) (cr_sign c key m) m"
  shows "verify_signed_receipt c trusted envelope =
    Inr \<lparr>vr_key_id = key_id, vr_sha256 = cr_sha256 c (receipt_bytes receipt), vr_receipt = dict_items receipt\<rparr>"
proof -
  from assms(1) obtain r where r: "validate_receipt_shape receipt = Inr r" and "\<not> blank key_id"
    by (auto simp: sign_receipt_def bindR_Inr_iff split: if_splits)
  moreover from receipt_shape_Inr [OF r] have "r = dict_items receipt" by simp
  ultimately show ?thesis
    using assms by (auto simp: sign_receipt_def verify_signed_receipt_def Let_def json_get_Cons signed_receipt_fields_def insert_commute)
qed

end
