(* ===== verification/ReplayRuns.thy ===== *)
theory ReplayRuns
  imports Replay DossierRuns
begin

text \<open>
  What the local registry of receipts guarantees (\<^verbatim>\<open>src/shared/attestation_replay_registry.py\<close>):
  its four tables always tell the same story, a run id or nonce is accepted once, and a
  journal that was changed behind the registry's back stops every further append.
\<close>

section \<open>The journal as a hash chain\<close>

type_synonym journal_content = "string \<times> int \<times> string \<times> string \<times> string"

fun journal_body :: "journal_content \<Rightarrow> string \<Rightarrow> string" where
  "journal_body (p, n, run, nonce, receipt) prev = journal_text (journal_event p n prev run nonce receipt)"

abbreviation journal_digest :: "crypto \<Rightarrow> journal_content \<Rightarrow> string \<Rightarrow> string" where
  "journal_digest c \<equiv> \<lambda>e prev. cr_sha256 c (journal_body e prev)"

definition journal_link :: "journal_row \<Rightarrow> journal_content link" where
  "journal_link r = \<lparr>lk_event = (jr_provider r, jr_seq r, jr_run r, jr_nonce r, jr_receipt r), lk_prev = jr_prev r, lk_hash = jr_head r\<rparr>"

lemma journal_link_simps [simp]:
  "lk_event (journal_link r) = (jr_provider r, jr_seq r, jr_run r, jr_nonce r, jr_receipt r)"
  "lk_prev (journal_link r) = jr_prev r" "lk_hash (journal_link r) = jr_head r"
  by (simp_all add: journal_link_def)

lemma journal_link_inj: "journal_link r = journal_link r' \<Longrightarrow> r = r'"
  by (cases r; cases r') (simp add: journal_link_def)

lemma journal_keys_sorted: "sorted_wrt (<) [''nonce'', ''previous_head_sha256'', ''provider_id'', ''receipt_sha256'', ''run_id'',
    ''schema_version'', ''sequence'']"
  by code_simp

lemma journal_event_wf: "json_wf (journal_event p n prev run nonce receipt)"
  using journal_keys_sorted by (simp add: journal_event_def)

interpretation replay_chain: hash_chain journal_body "\<lambda>_. True"
proof
  fix e e' :: journal_content and prev prev' :: string
  assume eq: "journal_body e prev = journal_body e' prev'"
  obtain p n run nonce receipt where e: "e = (p, n, run, nonce, receipt)" by (cases e)
  obtain p' n' run' nonce' receipt' where e': "e' = (p', n', run', nonce', receipt')" by (cases e')
  from eq have "dumps True (journal_event p n prev run nonce receipt) = dumps True (journal_event p' n' prev' run' nonce' receipt')"
    by (simp add: e e' journal_text_def canonical_text_def)
  then have "journal_event p n prev run nonce receipt = journal_event p' n' prev' run' nonce' receipt'"
    by (rule dumps_inj [OF journal_event_wf journal_event_wf])
  then show "e = e' \<and> prev = prev'" by (simp add: journal_event_def e e')
qed

text \<open>The rows numbered from \<open>n\<close>.\<close>

fun numbered :: "int \<Rightarrow> journal_row list \<Rightarrow> bool" where
  "numbered n [] = True"
| "numbered n (r # rs) = (jr_seq r = n \<and> numbered (n + 1) rs)"

lemma numbered_snoc [simp]: "numbered n (rs @ [r]) \<longleftrightarrow> numbered n rs \<and> jr_seq r = n + int (length rs)"
  by (induction rs arbitrary: n) (auto simp: algebra_simps)

lemma numbered_seq_ge: "numbered n rs \<Longrightarrow> r \<in> set rs \<Longrightarrow> n \<le> jr_seq r \<and> jr_seq r < n + int (length rs)"
  by (induction rs arbitrary: n) force+

lemma numbered_sorted: "numbered n rs \<Longrightarrow> sorted (map jr_seq rs)"
proof (induction rs arbitrary: n)
  case (Cons r rs)
  then show ?case using numbered_seq_ge [of "n + 1" rs] by fastforce
qed simp

definition story :: "crypto \<Rightarrow> string \<Rightarrow> int \<Rightarrow> string \<Rightarrow> journal_row list \<Rightarrow> bool" where
  "story c p n prev rs \<longleftrightarrow> (\<forall>r \<in> set rs. jr_provider r = p) \<and> numbered n rs \<and> chain_valid (journal_digest c) prev (map journal_link rs)"

lemma story_Nil [simp]: "story c p n prev []"
  by (simp add: story_def)

lemma story_Cons: "story c p n prev (r # rs) \<longleftrightarrow> jr_provider r = p \<and> jr_seq r = n \<and> jr_prev r = prev \<and>
    jr_head r = journal_hash c (journal_event p n prev (jr_run r) (jr_nonce r) (jr_receipt r)) \<and> story c p (n + 1) (jr_head r) rs"
  by (auto simp: story_def journal_hash_def)

lemma story_snoc: "story c p n prev (rs @ [r]) \<longleftrightarrow> story c p n prev rs \<and> jr_provider r = p \<and> jr_seq r = n + int (length rs) \<and>
    jr_prev r = chain_head prev (map journal_link rs) \<and>
    jr_head r = journal_hash c (journal_event p (jr_seq r) (jr_prev r) (jr_run r) (jr_nonce r) (jr_receipt r))"
  by (auto simp: story_def journal_hash_def)

lemma check_journal_story:
  "(\<forall>r \<in> set rs. jr_provider r = p) \<Longrightarrow> check_journal c p n prev rs = Inr (m, h) \<longleftrightarrow>
     story c p n prev rs \<and> m = n + int (length rs) \<and> h = chain_head prev (map journal_link rs)"
  by (induction rs arbitrary: n prev) (auto simp: story_Cons)

section \<open>Consistency\<close>

definition journal_of :: "replay_db \<Rightarrow> string \<Rightarrow> journal_row list" where
  "journal_of db p = filter (\<lambda>r. jr_provider r = p) (rg_journal db)"

definition accepted_of :: "replay_db \<Rightarrow> string \<Rightarrow> (string \<times> string \<times> string) list" where
  "accepted_of db p = map (\<lambda>a. (ac_run a, ac_nonce a, ac_receipt a)) (filter (\<lambda>a. ac_provider a = p) (rg_accepted db))"

definition evidence_of :: "replay_db \<Rightarrow> string \<Rightarrow> signed_evidence list" where
  "evidence_of db p = filter (\<lambda>e. sv_provider e = p) (rg_evidence db)"

text \<open>
  The tables tell one story per provider: the accepted receipts are the journal's events in
  order, the journal is a chain numbered from 1 whose length and head are the stored state,
  every event has its evidence, and no run id or nonce occurs twice.
\<close>

definition provider_ok :: "crypto \<Rightarrow> replay_db \<Rightarrow> string \<Rightarrow> bool" where
  "provider_ok c db p \<longleftrightarrow> story c p 1 genesis_hash (journal_of db p) \<and>
     accepted_of db p = map (\<lambda>r. (jr_run r, jr_nonce r, jr_receipt r)) (journal_of db p) \<and>
     map (\<lambda>e. (sv_seq e, sv_run e, sv_nonce e, sv_receipt e, sv_head e)) (evidence_of db p) =
       map (\<lambda>r. (jr_seq r, jr_run r, jr_nonce r, jr_receipt r, jr_head r)) (journal_of db p) \<and>
     distinct (map jr_run (journal_of db p)) \<and> distinct (map jr_nonce (journal_of db p)) \<and>
     provider_state db p = (if journal_of db p = [] \<and> provider_state db p = None then None
       else Some (int (length (journal_of db p)), chain_head genesis_hash (map journal_link (journal_of db p))))"

definition registry_inv :: "crypto \<Rightarrow> replay_db \<Rightarrow> bool" where
  "registry_inv c db \<longleftrightarrow> key_unique js_provider (rg_states db) \<and> (\<forall>p. provider_ok c db p)"

lemma provider_journal_of: "story c p 1 genesis_hash (journal_of db p) \<Longrightarrow> provider_journal db p = journal_of db p"
  using numbered_sorted [of 1 "journal_of db p"]
  by (simp add: provider_journal_def story_def journal_of_def sort_key_id_if_sorted)

lemma journal_of_provider: "r \<in> set (journal_of db p) \<Longrightarrow> jr_provider r = p"
  by (simp add: journal_of_def)

text \<open>Where the journal of a provider stands.\<close>

definition journal_at :: "replay_db \<Rightarrow> string \<Rightarrow> int \<times> string" where
  "journal_at db p = (int (length (journal_of db p)), chain_head genesis_hash (map journal_link (journal_of db p)))"

lemma provider_state_ok:
  "provider_ok c db p \<Longrightarrow> provider_state db p = Some s \<Longrightarrow> s = journal_at db p"
  "provider_ok c db p \<Longrightarrow> provider_state db p = None \<Longrightarrow> journal_at db p = (0, genesis_hash) \<and> journal_of db p = []"
  by (auto simp: provider_ok_def journal_at_def split: if_splits)

lemma no_legacy:
  assumes "provider_ok c db p" and "provider_state db p = None"
  shows "\<not> legacy_rows db p"
proof -
  have j: "journal_of db p = []" using provider_state_ok(2) [OF assms] by simp
  with assms have "accepted_of db p = []" by (simp add: provider_ok_def)
  with j show ?thesis by (auto simp: legacy_rows_def journal_of_def accepted_of_def filter_empty_conv)
qed

lemma journal_position_at:
  assumes "story c p 1 genesis_hash (journal_of db p)" and "provider_state db p = Some (journal_at db p)"
  shows "journal_position c db p = Inr (journal_at db p)"
proof -
  have "check_journal c p 1 genesis_hash (journal_of db p) = Inr (1 + fst (journal_at db p), snd (journal_at db p))"
    using assms(1) check_journal_story [of "journal_of db p" p c 1 genesis_hash] by (simp add: journal_of_provider journal_at_def)
  with assms(2) provider_journal_of [OF assms(1)] show ?thesis
    by (simp add: journal_position_def journal_at_def)
qed

section \<open>Recording a receipt\<close>

lemma put_state_tables [simp]:
  "rg_accepted (put_state p sq h db) = rg_accepted db" "rg_journal (put_state p sq h db) = rg_journal db"
  "rg_evidence (put_state p sq h db) = rg_evidence db" "rg_pending (put_state p sq h db) = rg_pending db"
  by (simp_all add: put_state_def)

lemma put_state_lookup [simp]:
  "provider_state (put_state p sq h db) q = (if q = p then Some (sq, h) else provider_state db q)"
proof (cases "lookup_row js_provider (rg_states db) p")
  case None
  then show ?thesis by (auto simp: provider_state_def put_state_def table_simps split: option.splits)
next
  case (Some s)
  then have "js_provider s = p" using lookup_row_SomeD by metis
  with Some show ?thesis
    by (cases "lookup_row js_provider (rg_states db) q")
      (auto simp: provider_state_def put_state_def table_simps dest: lookup_row_SomeD)
qed

lemma put_state_unique [simp]:
  "key_unique js_provider (rg_states (put_state p sq h db)) \<longleftrightarrow> key_unique js_provider (rg_states db)"
  by (simp add: put_state_def)

lemma put_state_twice: "put_state p sq h (put_state p sq' h' db) = put_state p sq h db"
proof (cases "lookup_row js_provider (rg_states db) p")
  case None
  then have "map (\<lambda>s. if js_provider s = p then s\<lparr>js_seq := sq, js_head := h\<rparr> else s) (rg_states db) = rg_states db"
    by (intro map_idI) (auto simp: lookup_row_None_iff)
  with None show ?thesis by (simp add: put_state_def lookup_row_snoc update_where_def)
next
  case (Some s)
  have "js_provider s = p" using lookup_row_SomeD [OF Some] by simp
  then show ?thesis using Some
    by (simp add: put_state_def lookup_row_update_where) (simp add: update_where_def)
qed

lemma table_views [simp]:
  "journal_of (db\<lparr>rg_accepted := a\<rparr>) = journal_of db" "journal_of (db\<lparr>rg_evidence := e\<rparr>) = journal_of db"
  "journal_of (db\<lparr>rg_pending := n\<rparr>) = journal_of db" "journal_of (put_state p sq h db) = journal_of db"
  "accepted_of (db\<lparr>rg_journal := j\<rparr>) = accepted_of db" "accepted_of (db\<lparr>rg_evidence := e\<rparr>) = accepted_of db"
  "accepted_of (db\<lparr>rg_pending := n\<rparr>) = accepted_of db" "accepted_of (put_state p sq h db) = accepted_of db"
  "evidence_of (db\<lparr>rg_accepted := a\<rparr>) = evidence_of db" "evidence_of (db\<lparr>rg_journal := j\<rparr>) = evidence_of db"
  "evidence_of (db\<lparr>rg_pending := n\<rparr>) = evidence_of db" "evidence_of (put_state p sq h db) = evidence_of db"
  "provider_state (db\<lparr>rg_accepted := a\<rparr>) = provider_state db" "provider_state (db\<lparr>rg_journal := j\<rparr>) = provider_state db"
  "provider_state (db\<lparr>rg_evidence := e\<rparr>) = provider_state db" "provider_state (db\<lparr>rg_pending := n\<rparr>) = provider_state db"
  "journal_at (db\<lparr>rg_accepted := a\<rparr>) = journal_at db" "journal_at (db\<lparr>rg_evidence := e\<rparr>) = journal_at db"
  "journal_at (db\<lparr>rg_pending := n\<rparr>) = journal_at db" "journal_at (put_state p sq h db) = journal_at db"
  by (simp_all add: fun_eq_iff journal_of_def accepted_of_def evidence_of_def provider_state_def journal_at_def)

definition next_head :: "crypto \<Rightarrow> replay_db \<Rightarrow> json \<Rightarrow> attested \<Rightarrow> string" where
  "next_head c db d v = journal_hash c (journal_event (dossier_provider d) (fst (journal_at db (dossier_provider d)) + 1)
     (snd (journal_at db (dossier_provider d))) (dossier_run d) (dossier_nonce d) (ar_receipt_sha256 v))"

definition next_row :: "crypto \<Rightarrow> replay_db \<Rightarrow> json \<Rightarrow> attested \<Rightarrow> journal_row" where
  "next_row c db d v = (let p = dossier_provider d in \<lparr>jr_provider = p, jr_seq = fst (journal_at db p) + 1,
     jr_prev = snd (journal_at db p), jr_head = next_head c db d v, jr_run = dossier_run d, jr_nonce = dossier_nonce d,
     jr_receipt = ar_receipt_sha256 v\<rparr>)"

text \<open>The tables after a receipt was recorded.\<close>

definition recorded :: "crypto \<Rightarrow> json \<Rightarrow> json \<Rightarrow> attested \<Rightarrow> replay_db \<Rightarrow> replay_db" where
  "recorded c d e v db = (let p = dossier_provider d; r = next_row c db d v in
     (put_state p (jr_seq r) (jr_head r) db)
      \<lparr>rg_accepted := rg_accepted db @ [\<lparr>ac_provider = p, ac_key_id = ar_key_id v, ac_run = dossier_run d, ac_nonce = dossier_nonce d,
          ac_receipt = ar_receipt_sha256 v\<rparr>],
       rg_journal := rg_journal db @ [r],
       rg_evidence := rg_evidence db @ [\<lparr>sv_provider = p, sv_seq = jr_seq r, sv_run = dossier_run d, sv_nonce = dossier_nonce d,
          sv_receipt = ar_receipt_sha256 v, sv_head = jr_head r, sv_dossier = d, sv_envelope = e\<rparr>]\<rparr>)"

text \<open>The run id or the nonce was seen before.\<close>

definition seen_before :: "replay_db \<Rightarrow> string \<Rightarrow> string \<Rightarrow> string \<Rightarrow> bool" where
  "seen_before db p run nonce \<longleftrightarrow> (\<exists>r \<in> set (journal_of db p). jr_run r = run \<or> jr_nonce r = nonce)"

lemma seen_accepted:
  assumes "provider_ok c db p"
  shows "(\<exists>x \<in> set (rg_accepted db). ac_provider x = p \<and> (ac_run x = run \<or> ac_nonce x = nonce)) \<longleftrightarrow> seen_before db p run nonce"
proof -
  have "set (accepted_of db p) = (\<lambda>r. (jr_run r, jr_nonce r, jr_receipt r)) ` set (journal_of db p)"
    using assms by (simp add: provider_ok_def)
  moreover have "(\<exists>x \<in> set (rg_accepted db). ac_provider x = p \<and> (ac_run x = run \<or> ac_nonce x = nonce)) \<longleftrightarrow>
      (\<exists>(a, b, _) \<in> set (accepted_of db p). a = run \<or> b = nonce)" by (auto simp: accepted_of_def)
  ultimately show ?thesis by (auto simp: seen_before_def)
qed

lemma fresh_evidence:
  assumes "provider_ok c db p" and "\<not> seen_before db p run nonce"
  shows "\<not> (\<exists>x \<in> set (rg_evidence db). sv_provider x = p \<and> (sv_seq x = fst (journal_at db p) + 1 \<or> sv_run x = run \<or> sv_nonce x = nonce))"
proof -
  have eq: "set (map (\<lambda>e. (sv_seq e, sv_run e, sv_nonce e, sv_receipt e, sv_head e)) (evidence_of db p)) =
       set (map (\<lambda>r. (jr_seq r, jr_run r, jr_nonce r, jr_receipt r, jr_head r)) (journal_of db p))"
    using assms(1) unfolding provider_ok_def by metis
  have "\<exists>r \<in> set (journal_of db p). jr_seq r = sv_seq x \<and> jr_run r = sv_run x \<and> jr_nonce r = sv_nonce x"
    if "x \<in> set (rg_evidence db)" "sv_provider x = p" for x
  proof -
    from that have "(sv_seq x, sv_run x, sv_nonce x, sv_receipt x, sv_head x) \<in>
        set (map (\<lambda>e. (sv_seq e, sv_run e, sv_nonce e, sv_receipt e, sv_head e)) (evidence_of db p))"
      by (auto simp: evidence_of_def)
    then show ?thesis unfolding eq by auto
  qed
  moreover have "jr_seq r < fst (journal_at db p) + 1" if "r \<in> set (journal_of db p)" for r
    using assms(1) numbered_seq_ge [of 1 "journal_of db p" r] that by (simp add: provider_ok_def story_def journal_at_def)
  ultimately show ?thesis using assms(2) unfolding seen_before_def by fastforce
qed

lemma fresh_journal:
  assumes "provider_ok c db p" and "\<not> seen_before db p run nonce"
  shows "\<not> (\<exists>x \<in> set (rg_journal db). jr_provider x = p \<and> (jr_seq x = fst (journal_at db p) + 1 \<or> jr_run x = run \<or> jr_nonce x = nonce))"
proof -
  have "jr_seq r < fst (journal_at db p) + 1" if "r \<in> set (journal_of db p)" for r
    using assms(1) numbered_seq_ge [of 1 "journal_of db p" r] that by (simp add: provider_ok_def story_def journal_at_def)
  with assms(2) show ?thesis unfolding seen_before_def by (fastforce simp: journal_of_def)
qed

lemma next_row_simps [simp]:
  "jr_provider (next_row c db d v) = dossier_provider d" "jr_seq (next_row c db d v) = fst (journal_at db (dossier_provider d)) + 1"
  "jr_prev (next_row c db d v) = snd (journal_at db (dossier_provider d))" "jr_head (next_row c db d v) = next_head c db d v"
  "jr_run (next_row c db d v) = dossier_run d" "jr_nonce (next_row c db d v) = dossier_nonce d"
  "jr_receipt (next_row c db d v) = ar_receipt_sha256 v"
  by (simp_all add: next_row_def Let_def)

definition replay_error :: "exc" where
  "replay_error = Exc IntegrityError ''UNIQUE constraint failed''"

lemma record_equation:
  assumes "registry_inv c db"
  shows "record_transaction c d e v expected fin db =
    (let p = dossier_provider d in
     if \<not> (case expected of None \<Rightarrow> True | Some s \<Rightarrow> journal_at db p = s)
     then raise AttestationReplayRegistryError ''replay_registry_expected_state_changed''
     else if seen_before db p (dossier_run d) (dossier_nonce d) then Inl replay_error
     else bindR (case fin of
         None \<Rightarrow> Inr (recorded c d e v db)
       | Some cid \<Rightarrow> finalize_row cid p (dossier_run d) (dossier_nonce d) (ar_receipt_sha256 v) (fst (journal_at db p) + 1)
           (next_head c db d v) {Prepared} AttestationReplayRegistryError
           ''pending_candidate_not_finalizable_in_acceptance_transaction'' (recorded c d e v db))
       (\<lambda>db'. Inr ((fst (journal_at db p) + 1, next_head c db d v), db')))"
proof -
  let ?p = "dossier_provider d"
  from assms have ok: "provider_ok c db ?p" by (simp add: registry_inv_def)
  let ?db0 = "if provider_state db ?p = None then put_state ?p 0 genesis_hash db else db"
  let ?a = "\<lparr>ac_provider = ?p, ac_key_id = ar_key_id v, ac_run = dossier_run d, ac_nonce = dossier_nonce d, ac_receipt = ar_receipt_sha256 v\<rparr>"
  have state: "(case provider_state db ?p of
         Some s \<Rightarrow> Inr s
       | None \<Rightarrow> if legacy_rows db ?p then raise AttestationReplayRegistryError ''replay_registry_legacy_state_requires_migration''
           else Inr (0, genesis_hash)) = Inr (journal_at db ?p)"
    using no_legacy [OF ok] provider_state_ok [OF ok] by (auto split: option.splits)
  have pos0: "provider_state ?db0 ?p = Some (journal_at ?db0 ?p)"
    using provider_state_ok [OF ok] by auto
  have same: "rg_accepted ?db0 = rg_accepted db" "rg_journal ?db0 = rg_journal db" "rg_evidence ?db0 = rg_evidence db"
    "journal_of ?db0 = journal_of db" "journal_at ?db0 = journal_at db" by simp_all
  have acc: "insert_accepted ?a ?db0 = (if seen_before db ?p (dossier_run d) (dossier_nonce d) then Inl replay_error
      else Inr (?db0\<lparr>rg_accepted := rg_accepted db @ [?a]\<rparr>))"
    unfolding insert_accepted_def same accepted_row.simps seen_accepted [OF ok] replay_error_def by (rule refl)
  show ?thesis
  proof (cases "seen_before db ?p (dossier_run d) (dossier_nonce d)")
    case True
    then show ?thesis
      unfolding record_transaction_def Let_def state bindR.simps acc by (cases expected) simp_all
  next
    case False
    let ?db1 = "?db0\<lparr>rg_accepted := rg_accepted db @ [?a]\<rparr>"
    have "story c ?p 1 genesis_hash (journal_of ?db1 ?p)" using ok by (simp add: provider_ok_def)
    moreover have "provider_state ?db1 ?p = Some (journal_at ?db1 ?p)" using pos0 by simp
    ultimately have "journal_position c ?db1 ?p = Inr (journal_at ?db1 ?p)" by (rule journal_position_at)
    then have pos: "journal_position c ?db1 ?p = Inr (journal_at db ?p)" by simp
    let ?r = "next_row c db d v"
    have ins: "insert_journal ?r ?db1 = Inr (?db1\<lparr>rg_journal := rg_journal db @ [?r]\<rparr>)"
      using fresh_journal [OF ok False] by (simp add: insert_journal_def)
    have row: "\<lparr>jr_provider = ?p, jr_seq = fst (journal_at db ?p) + 1, jr_prev = snd (journal_at db ?p), jr_head = next_head c db d v,
        jr_run = dossier_run d, jr_nonce = dossier_nonce d, jr_receipt = ar_receipt_sha256 v\<rparr> = ?r"
      by (simp add: next_row_def Let_def)
    let ?db2 = "put_state ?p (fst (journal_at db ?p) + 1) (next_head c db d v) (?db1\<lparr>rg_journal := rg_journal db @ [?r]\<rparr>)"
    have app: "append_journal_event c ?p (dossier_run d) (dossier_nonce d) (ar_receipt_sha256 v) ?db1 =
        Inr ((fst (journal_at db ?p) + 1, next_head c db d v), ?db2)"
      unfolding append_journal_event_def pos bindR.simps split_beta Let_def next_head_def [symmetric] row ins by simp
    have ev: "insert_evidence x ?db2 = Inr (?db2\<lparr>rg_evidence := rg_evidence db @ [x]\<rparr>)"
      if "sv_provider x = ?p" "sv_seq x = fst (journal_at db ?p) + 1" "sv_run x = dossier_run d" "sv_nonce x = dossier_nonce d" for x
      using fresh_evidence [OF ok False] that by (simp add: insert_evidence_def)
    have commute: "put_state p sq h (db\<lparr>rg_accepted := a\<rparr>) = (put_state p sq h db)\<lparr>rg_accepted := a\<rparr>"
      "put_state p sq h (db\<lparr>rg_journal := j\<rparr>) = (put_state p sq h db)\<lparr>rg_journal := j\<rparr>" for p sq h a j and db :: replay_db
      by (simp_all add: put_state_def)
    have fin: "?db2\<lparr>rg_evidence := rg_evidence db @ [\<lparr>sv_provider = ?p, sv_seq = fst (journal_at db ?p) + 1, sv_run = dossier_run d,
         sv_nonce = dossier_nonce d, sv_receipt = ar_receipt_sha256 v, sv_head = next_head c db d v, sv_dossier = d, sv_envelope = e\<rparr>]\<rparr>
       = recorded c d e v db"
      by (simp add: recorded_def Let_def commute put_state_twice)
    show ?thesis
      unfolding record_transaction_def Let_def state bindR.simps acc
      using False by (cases expected) (simp_all add: app ev fin)
  qed
qed

lemma registry_inv_pending [simp]: "registry_inv c (db\<lparr>rg_pending := n\<rparr>) = registry_inv c db"
  by (simp add: registry_inv_def provider_ok_def)

lemma finalize_row_Inr:
  assumes "finalize_row cid p run nonce receipt sq head from cls msg db = Inr db'"
  obtains n where "db' = db\<lparr>rg_pending := n\<rparr>"
  using assms by (auto simp: finalize_row_def Let_def split: if_splits)

lemma recorded_views:
  "journal_of (recorded c d e v db) q = journal_of db q @ (if q = dossier_provider d then [next_row c db d v] else [])"
  "accepted_of (recorded c d e v db) q = accepted_of db q @
     (if q = dossier_provider d then [(dossier_run d, dossier_nonce d, ar_receipt_sha256 v)] else [])"
  "evidence_of (recorded c d e v db) q = evidence_of db q @ (if q = dossier_provider d then
     [\<lparr>sv_provider = dossier_provider d, sv_seq = fst (journal_at db (dossier_provider d)) + 1, sv_run = dossier_run d,
       sv_nonce = dossier_nonce d, sv_receipt = ar_receipt_sha256 v, sv_head = next_head c db d v, sv_dossier = d, sv_envelope = e\<rparr>] else [])"
  "provider_state (recorded c d e v db) q = (if q = dossier_provider d then
     Some (fst (journal_at db (dossier_provider d)) + 1, next_head c db d v) else provider_state db q)"
  "key_unique js_provider (rg_states (recorded c d e v db)) = key_unique js_provider (rg_states db)"
  "rg_pending (recorded c d e v db) = rg_pending db"
  by (simp_all add: recorded_def Let_def) (simp_all add: journal_of_def accepted_of_def evidence_of_def)

lemma recorded_inv:
  assumes "registry_inv c db" and "\<not> seen_before db (dossier_provider d) (dossier_run d) (dossier_nonce d)"
  shows "registry_inv c (recorded c d e v db)"
proof -
  have "provider_ok c (recorded c d e v db) q" for q
  proof -
    from assms(1) have ok: "provider_ok c db q" by (simp add: registry_inv_def)
    show ?thesis
    proof (cases "q = dossier_provider d")
      case True
      have "dossier_run d \<notin> set (map jr_run (journal_of db q))" "dossier_nonce d \<notin> set (map jr_nonce (journal_of db q))"
        using assms(2) by (auto simp: seen_before_def True)
      with ok True show ?thesis
        by (simp add: provider_ok_def recorded_views story_snoc) (simp add: journal_at_def next_head_def)
    next
      case False
      from ok show ?thesis unfolding provider_ok_def recorded_views by (simp only: False if_False append_Nil2 simp_thms)
    qed
  qed
  with assms(1) show ?thesis by (simp add: registry_inv_def recorded_views)
qed

text \<open>What a returning call has done.\<close>

lemma record_Inr:
  assumes "registry_inv c db" and "verify_and_record_attestation c trusted d e expected fin db = Inr ((sq, head), db')"
  obtains v where "verify_independent_runner_attestation c trusted d e = Inr v"
    and "\<not> seen_before db (dossier_provider d) (dossier_run d) (dossier_nonce d)"
    and "sq = fst (journal_at db (dossier_provider d)) + 1" and "head = next_head c db d v"
    and "\<exists>n. db' = (recorded c d e v db)\<lparr>rg_pending := n\<rparr>" and "registry_inv c db'"
    and "expected = None \<or> expected = Some (journal_at db (dossier_provider d))"
proof -
  from assms(2) obtain v where v: "verify_independent_runner_attestation c trusted d e = Inr v"
    and t: "record_transaction c d e v expected fin db = Inr ((sq, head), db')"
    by (auto simp: verify_and_record_attestation_def bindR_Inr_iff)
  have r: "\<not> seen_before db (dossier_provider d) (dossier_run d) (dossier_nonce d)"
    "sq = fst (journal_at db (dossier_provider d)) + 1" "head = next_head c db d v"
    "expected = None \<or> expected = Some (journal_at db (dossier_provider d))"
    using t unfolding record_equation [OF assms(1)] Let_def by (auto simp: bindR_Inr_iff split: if_splits option.splits)
  have p: "\<exists>n. db' = (recorded c d e v db)\<lparr>rg_pending := n\<rparr>"
  proof (cases fin)
    case None
    with t have "db' = recorded c d e v db" unfolding record_equation [OF assms(1)] Let_def by (auto split: if_splits)
    then show ?thesis by (intro exI [of _ "rg_pending (recorded c d e v db)"]) simp
  next
    case (Some cid)
    with t obtain db4 where "finalize_row cid (dossier_provider d) (dossier_run d) (dossier_nonce d) (ar_receipt_sha256 v)
        (fst (journal_at db (dossier_provider d)) + 1) (next_head c db d v) {Prepared} AttestationReplayRegistryError
        ''pending_candidate_not_finalizable_in_acceptance_transaction'' (recorded c d e v db) = Inr db4" and "db' = db4"
      unfolding record_equation [OF assms(1)] Let_def by (auto simp: bindR_Inr_iff split: if_splits)
    then show ?thesis by (auto elim: finalize_row_Inr)
  qed
  then have "registry_inv c db'" using recorded_inv [OF assms(1) r(1)] by auto
  with that v r p show ?thesis by blast
qed

section \<open>Histories of the registry\<close>

record registry_call =
  rk_trusted :: "string \<Rightarrow> string option"
  rk_dossier :: json
  rk_envelope :: json
  rk_expected :: "(int \<times> string) option"
  rk_finalize :: "string option"

definition call_registry :: "crypto \<Rightarrow> registry_call \<Rightarrow> replay_db \<Rightarrow> ((int \<times> string) \<times> replay_db) result" where
  "call_registry c k db =
     verify_and_record_attestation c (rk_trusted k) (rk_dossier k) (rk_envelope k) (rk_expected k) (rk_finalize k) db"

definition registry_step :: "crypto \<Rightarrow> registry_call \<Rightarrow> replay_db \<Rightarrow> replay_db" where
  "registry_step c k db = (case call_registry c k db of Inl _ \<Rightarrow> db | Inr (_, db') \<Rightarrow> db')"

lemma registry_step_inv: "registry_inv c db \<Longrightarrow> registry_inv c (registry_step c k db)"
  by (auto simp: registry_step_def call_registry_def split: sum.splits elim: record_Inr)

lemma empty_replay_inv [simp]: "registry_inv c empty_replay"
  by (simp add: registry_inv_def provider_ok_def empty_replay_def journal_of_def accepted_of_def evidence_of_def provider_state_def)

lemma registry_run_inv: "registry_inv c db \<Longrightarrow> registry_inv c (fold (registry_step c) ks db)"
  by (induction ks arbitrary: db) (simp_all add: registry_step_inv)

lemma registry_step_grows:
  assumes "registry_inv c db"
  shows "\<exists>rs. journal_of (registry_step c k db) p = journal_of db p @ rs"
proof (cases "call_registry c k db")
  case (Inr x)
  then obtain sq head db' where x: "x = ((sq, head), db')" by (metis prod.exhaust)
  show ?thesis
    by (rule record_Inr [OF assms Inr [unfolded x call_registry_def]])
      (auto simp: registry_step_def Inr x recorded_views)
qed (simp add: registry_step_def)

lemma registry_run_grows: "registry_inv c db \<Longrightarrow> \<exists>rs. journal_of (fold (registry_step c) ks db) p = journal_of db p @ rs"
proof (induction ks arbitrary: db)
  case (Cons k ks)
  from registry_step_grows [OF Cons.prems, of k p] Cons.IH [OF registry_step_inv [OF Cons.prems, of k]]
  show ?case by (metis append.assoc fold_simps(2))
qed simp

lemma seen_before_mono: "journal_of db' p = journal_of db p @ rs \<Longrightarrow> seen_before db p run nonce \<Longrightarrow> seen_before db' p run nonce"
  by (auto simp: seen_before_def)

lemma seen_before_rejects:
  assumes "registry_inv c db" and "seen_before db (dossier_provider (rk_dossier k)) (dossier_run (rk_dossier k)) (dossier_nonce (rk_dossier k))"
  shows "\<exists>e. call_registry c k db = Inl e"
proof (cases "call_registry c k db")
  case (Inr x)
  then obtain sq head db' where x: "x = ((sq, head), db')" by (metis prod.exhaust)
  show ?thesis by (rule record_Inr [OF assms(1) Inr [unfolded x call_registry_def]]) (use assms(2) in simp)
qed simp

lemma replay_detected:
  assumes "registry_inv c db" and "seen_before db (dossier_provider (rk_dossier k)) (dossier_run (rk_dossier k)) (dossier_nonce (rk_dossier k))"
    and "verify_independent_runner_attestation c (rk_trusted k) (rk_dossier k) (rk_envelope k) = Inr v" and "rk_expected k = None"
  shows "call_registry c k db = raise AttestationReplayRegistryError ''attestation_replay_detected:run_id_or_nonce_already_seen''"
  using assms(2-4) unfolding call_registry_def verify_and_record_attestation_def record_equation [OF assms(1)] Let_def
  by (simp add: rescue_def replay_error_def)

lemma recorded_seen:
  assumes "registry_inv c db" and "call_registry c k db = Inr (x, db')"
  shows "\<exists>r \<in> set (journal_of db' (dossier_provider (rk_dossier k))). jr_run r = dossier_run (rk_dossier k) \<and> jr_nonce r = dossier_nonce (rk_dossier k)"
    and "registry_inv c db'"
proof -
  obtain sq head where x: "x = (sq, head)" by fastforce
  show "\<exists>r \<in> set (journal_of db' (dossier_provider (rk_dossier k))). jr_run r = dossier_run (rk_dossier k) \<and> jr_nonce r = dossier_nonce (rk_dossier k)"
    by (rule record_Inr [OF assms(1) assms(2) [unfolded x call_registry_def]]) (auto simp: recorded_views)
  show "registry_inv c db'" by (rule record_Inr [OF assms(1) assms(2) [unfolded x call_registry_def]])
qed

text \<open>
  C14: The registry tells one story. After any sequence of calls with whatever receipts, keys
  and expectations, for every provider the accepted receipts are the journal's events in
  order, the journal verifies as a hash chain numbered from 1 that ends in the stored state,
  every event has its signed evidence, and no run id or nonce occurs twice.
\<close>

theorem registry_tells_one_story: "registry_inv c (fold (registry_step c) ks empty_replay)"
  by (rule registry_run_inv) simp

text \<open>
  C15: A receipt is accepted at most once. Once a call has recorded a receipt, every later
  call for the same provider that repeats its run id or its nonce raises and records nothing,
  and if its receipt verifies and the caller expects no particular state the error is the
  replay error.
\<close>

theorem receipt_accepted_at_most_once:
  assumes "call_registry c k (fold (registry_step c) ks empty_replay) = Inr (x, db')"
    and "dossier_provider (rk_dossier k') = dossier_provider (rk_dossier k)"
    and "dossier_run (rk_dossier k') = dossier_run (rk_dossier k) \<or> dossier_nonce (rk_dossier k') = dossier_nonce (rk_dossier k)"
  shows "(\<exists>e. call_registry c k' (fold (registry_step c) ks' db') = Inl e) \<and>
    (rk_expected k' = None \<and> (\<exists>v. verify_independent_runner_attestation c (rk_trusted k') (rk_dossier k') (rk_envelope k') = Inr v) \<longrightarrow>
       call_registry c k' (fold (registry_step c) ks' db') =
         raise AttestationReplayRegistryError ''attestation_replay_detected:run_id_or_nonce_already_seen'')"
proof -
  let ?db = "fold (registry_step c) ks' db'"
  have inv: "registry_inv c (fold (registry_step c) ks empty_replay)" by (rule registry_run_inv) simp
  from recorded_seen [OF inv assms(1)] assms(2,3)
  have "seen_before db' (dossier_provider (rk_dossier k')) (dossier_run (rk_dossier k')) (dossier_nonce (rk_dossier k'))"
    and inv': "registry_inv c db'" by (auto simp: seen_before_def)
  with registry_run_grows [OF inv'] have
    s: "seen_before ?db (dossier_provider (rk_dossier k')) (dossier_run (rk_dossier k')) (dossier_nonce (rk_dossier k'))"
    by (metis seen_before_mono)
  have "registry_inv c ?db" by (rule registry_run_inv [OF inv'])
  from seen_before_rejects [OF this s] replay_detected [OF this s] show ?thesis by blast
qed

section \<open>Tampering\<close>

lemma position_needs_story:
  assumes "journal_position c db p = Inr s" and "provider_state db p = Some s'"
  shows "s' = s \<and> story c p 1 genesis_hash (provider_journal db p) \<and> s = (int (length (provider_journal db p)),
    chain_head genesis_hash (map journal_link (provider_journal db p)))"
proof -
  have p: "\<forall>r \<in> set (provider_journal db p). jr_provider r = p" by (simp add: provider_journal_def)
  obtain sq h where s': "s' = (sq, h)" by fastforce
  from assms obtain m h' where "check_journal c p 1 genesis_hash (provider_journal db p) = Inr (m, h')"
    and "s = (sq, h)" "m - 1 = sq" "h' = h"
    by (auto simp: journal_position_def s' bindR_Inr_iff split: if_splits)
  then show ?thesis by (auto simp: s' check_journal_story [OF p])
qed

text \<open>
  A changed journal stops the registry. If the journal of a provider was edited behind
  the registry's back (a row changed, removed, reordered or added) while the stored state is
  still that of the genuine history, then every further recording for this provider raises,
  provided SHA-256 does not collide on the events of the two journals.
\<close>

theorem tampered_journal_stops_registry:
  assumes "provider_state db' (dossier_provider (rk_dossier k)) = provider_state (fold (registry_step c) ks empty_replay) (dossier_provider (rk_dossier k))"
    and "provider_state db' (dossier_provider (rk_dossier k)) \<noteq> None"
    and "provider_journal db' (dossier_provider (rk_dossier k)) \<noteq> provider_journal (fold (registry_step c) ks empty_replay) (dossier_provider (rk_dossier k))"
    and "digest_good_on (cr_sha256 c) genesis_hash
      (link_bodies journal_body (map journal_link (provider_journal db' (dossier_provider (rk_dossier k)))) \<union>
       link_bodies journal_body (map journal_link (provider_journal (fold (registry_step c) ks empty_replay) (dossier_provider (rk_dossier k)))))"
  shows "\<exists>e. call_registry c k db' = Inl e"
proof (cases "call_registry c k db'")
  case (Inr x)
  let ?p = "dossier_provider (rk_dossier k)" and ?db = "fold (registry_step c) ks empty_replay"
  have "registry_inv c ?db" by (rule registry_run_inv) simp
  then have ok: "provider_ok c ?db ?p" by (simp add: registry_inv_def)
  obtain s where s: "provider_state db' ?p = Some s" using assms(2) by blast
  from Inr obtain v y db1 where "append_journal_event c ?p (dossier_run (rk_dossier k)) (dossier_nonce (rk_dossier k)) v
      (db'\<lparr>rg_accepted := y\<rparr>) = Inr db1"
    by (auto simp: call_registry_def verify_and_record_attestation_def record_transaction_def Let_def bindR_Inr_iff s
        insert_accepted_def split: if_splits)
  then obtain s1 where "journal_position c (db'\<lparr>rg_accepted := y\<rparr>) ?p = Inr s1"
    by (auto simp: append_journal_event_def bindR_Inr_iff)
  from position_needs_story [OF this, of s] s
  have st: "story c ?p 1 genesis_hash (provider_journal db' ?p)"
    and s': "s = (int (length (provider_journal db' ?p)), chain_head genesis_hash (map journal_link (provider_journal db' ?p)))"
    by (simp_all add: provider_journal_def)
  have st0: "story c ?p 1 genesis_hash (journal_of ?db ?p)" and "s = journal_at ?db ?p"
    using ok assms(1) s provider_state_ok(1) [OF ok] by (auto simp: provider_ok_def)
  note same = provider_journal_of [OF st0]
  have "map journal_link (provider_journal db' ?p) = map journal_link (provider_journal ?db ?p)"
  proof (rule replay_chain.head_determines_chain [OF _ _ _ assms(4)])
    show "chain_head genesis_hash (map journal_link (provider_journal db' ?p)) = chain_head genesis_hash (map journal_link (provider_journal ?db ?p))"
      using s' \<open>s = journal_at ?db ?p\<close> by (simp add: journal_at_def same)
  qed (use st st0 same in \<open>simp_all add: story_def\<close>)
  then have "provider_journal db' ?p = provider_journal ?db ?p"
    by (rule list.inj_map_strong [rotated]) (rule journal_link_inj)
  with assms(3) show ?thesis by simp
qed simp

section \<open>A concrete registration\<close>

definition lab_call :: registry_call where
  "lab_call = \<lparr>rk_trusted = lab_keys, rk_dossier = lab_dossier, rk_envelope = lab_envelope, rk_expected = None, rk_finalize = None\<rparr>"

definition lab_registry :: replay_db where
  "lab_registry = fold (registry_step lab_crypto) [lab_call] empty_replay"

lemma lab_call_returns: "\<exists>x. call_registry lab_crypto lab_call empty_replay = Inr (x, lab_registry)"
proof -
  have "\<exists>x db'. call_registry lab_crypto lab_call empty_replay = Inr (x, db')"
    unfolding call_registry_def verify_and_record_attestation_def record_equation [OF empty_replay_inv] Let_def
    by (simp add: lab_call_def lab_attested seen_before_def journal_of_def empty_replay_def)
  then show ?thesis by (auto simp: lab_registry_def registry_step_def)
qed

theorem receipt_accepted_at_most_once_witness:
  "\<exists>x. call_registry lab_crypto lab_call empty_replay = Inr (x, lab_registry) \<and>
     call_registry lab_crypto lab_call lab_registry =
       raise AttestationReplayRegistryError ''attestation_replay_detected:run_id_or_nonce_already_seen''"
proof -
  from lab_call_returns obtain x where x: "call_registry lab_crypto lab_call empty_replay = Inr (x, lab_registry)" by blast
  have "rk_expected lab_call = None"
    "\<exists>v. verify_independent_runner_attestation lab_crypto (rk_trusted lab_call) (rk_dossier lab_call) (rk_envelope lab_call) = Inr v"
    using lab_attested by (simp_all add: lab_call_def)
  with receipt_accepted_at_most_once [of lab_crypto lab_call "[]" x lab_registry lab_call "[]"] x show ?thesis by simp
qed

lemma lab_registry_one_row:
  obtains r where "rg_journal lab_registry = [r]" and "jr_provider r = dossier_provider lab_dossier"
    and "provider_state lab_registry (dossier_provider lab_dossier) \<noteq> None" and "registry_inv lab_crypto lab_registry"
proof -
  from lab_call_returns obtain sq head where x: "call_registry lab_crypto lab_call empty_replay = Inr ((sq, head), lab_registry)" by fastforce
  show thesis
  proof (rule record_Inr [OF empty_replay_inv x [unfolded call_registry_def]])
    fix v assume n: "\<exists>n. lab_registry = (recorded lab_crypto (rk_dossier lab_call) (rk_envelope lab_call) v empty_replay)\<lparr>rg_pending := n\<rparr>"
      and "registry_inv lab_crypto lab_registry"
    from n obtain n where l: "lab_registry = (recorded lab_crypto lab_dossier lab_envelope v empty_replay)\<lparr>rg_pending := n\<rparr>"
      by (auto simp: lab_call_def)
    have "rg_journal lab_registry = [next_row lab_crypto empty_replay lab_dossier v]"
      by (simp add: l recorded_def Let_def) (simp add: empty_replay_def)
    then show thesis
    proof (rule that)
      show "provider_state lab_registry (dossier_provider lab_dossier) \<noteq> None" unfolding l table_views recorded_views by simp
    qed (simp_all add: \<open>registry_inv lab_crypto lab_registry\<close>)
  qed
qed

theorem tampered_journal_stops_registry_witness:
  "\<exists>e. call_registry lab_crypto lab_call (lab_registry\<lparr>rg_journal := []\<rparr>) = Inl e"
proof -
  obtain r where r: "rg_journal lab_registry = [r]" "jr_provider r = dossier_provider lab_dossier"
    and s: "provider_state lab_registry (dossier_provider lab_dossier) \<noteq> None" "registry_inv lab_crypto lab_registry"
    by (rule lab_registry_one_row)
  have "demo_hash \<noteq> genesis_hash" "pending_hash \<noteq> genesis_hash"
    by (simp_all add: demo_hash_def pending_hash_def genesis_hash_def numeral_eq_Suc)
  then have "genesis_hash \<noteq> lab_hash b" for b by (simp add: lab_hash_def)
  then have "digest_good_on (cr_sha256 lab_crypto) genesis_hash {b}" for b
    by (auto simp: digest_good_on_def lab_crypto_def)
  moreover have j: "provider_journal lab_registry (dossier_provider lab_dossier) = [r]"
    "provider_journal (lab_registry\<lparr>rg_journal := []\<rparr>) (dossier_provider lab_dossier) = []"
    using r by (simp_all add: provider_journal_def)
  moreover have d: "rk_dossier lab_call = lab_dossier" by (simp add: lab_call_def)
  ultimately show ?thesis using s
    by (intro tampered_journal_stops_registry [of _ lab_call lab_crypto "[lab_call]", folded lab_registry_def])
      (simp_all add: link_bodies_def)
qed

end
