(* ===== verification/AnchorWorld.thy ===== *)
theory AnchorWorld
  imports PendingReplay ReplayRuns "HOL-Library.Sublist"
begin

text \<open>
  The world of the pending-first protocol: one database, the reference anchor service, a
  network that loses requests and responses, and the backups of the database. Per provider
  the anchor commits one history, of which every local journal is a prefix; each transaction
  and each request to the anchor keeps this, and the anchored history only grows.
\<close>

section \<open>Texts that are hashed\<close>

definition row_text :: "journal_row \<Rightarrow> string" where
  "row_text r = journal_body (jr_provider r, jr_seq r, jr_run r, jr_nonce r, jr_receipt r) (jr_prev r)"

text \<open>The journal row a candidate will become.\<close>

definition candidate_row :: "pending_row \<Rightarrow> journal_row" where
  "candidate_row n = \<lparr>jr_provider = pn_provider n, jr_seq = pn_seq n, jr_prev = pn_prior_head n, jr_head = pn_head n,
     jr_run = pn_run n, jr_nonce = pn_nonce n, jr_receipt = pn_receipt n\<rparr>"

lemma candidate_row_text: "row_text (candidate_row n) = journal_text (pending_event n)"
  by (simp add: row_text_def candidate_row_def pending_event_def)

lemma row_text_inj: "row_text r = row_text r' \<Longrightarrow> jr_head r = jr_head r' \<Longrightarrow> r = r'"
  unfolding row_text_def by (drule replay_chain.body_inj [OF TrueI TrueI]) simp

definition world_dbs :: "world \<Rightarrow> replay_db set" where
  "world_dbs w = insert (wo_db w) (set (wo_past w))"

abbreviation world_texts :: "world \<Rightarrow> string set" where
  "world_texts w \<equiv> set (wo_hashed w)"

text \<open>SHA-256 does not collide on the texts hashed so far.\<close>

definition no_collisions :: "crypto \<Rightarrow> world \<Rightarrow> bool" where
  "no_collisions c w \<longleftrightarrow> digest_good_on (cr_sha256 c) genesis_hash (world_texts w)"

lemma no_collisions_mono: "no_collisions c w' \<Longrightarrow> world_texts w \<subseteq> world_texts w' \<Longrightarrow> no_collisions c w"
  unfolding no_collisions_def by (rule digest_good_on_mono)

lemma row_texts_links: "link_bodies journal_body (map journal_link rs) = row_text ` set rs"
  by (auto simp: link_bodies_def row_text_def image_iff)

lemma stories_agree:
  assumes "story c p 1 genesis_hash rs" and "story c p 1 genesis_hash rs'" and "no_collisions c w"
    and "row_text ` set rs \<subseteq> world_texts w" and "row_text ` set rs' \<subseteq> world_texts w"
    and "chain_head genesis_hash (map journal_link rs) = chain_head genesis_hash (map journal_link rs')"
  shows "rs = rs'"
proof -
  have "map journal_link rs = map journal_link rs'"
  proof (rule replay_chain.head_determines_chain [OF _ _ _ _ assms(6)])
    show "digest_good_on (cr_sha256 c) genesis_hash (link_bodies journal_body (map journal_link rs) \<union> link_bodies journal_body (map journal_link rs'))"
      by (rule digest_good_on_mono [OF assms(3) [unfolded no_collisions_def]]) (use assms(4,5) in \<open>simp add: row_texts_links\<close>)
  qed (use assms(1,2) in \<open>simp_all add: story_def\<close>)
  then show ?thesis by (rule list.inj_map_strong [rotated]) (rule journal_link_inj)
qed

section \<open>The anchored history\<close>

definition history :: "crypto \<Rightarrow> world \<Rightarrow> string \<Rightarrow> journal_row list \<Rightarrow> bool" where
  "history c w p H \<longleftrightarrow> story c p 1 genesis_hash H \<and> distinct (map jr_run H) \<and> distinct (map jr_nonce H) \<and>
     row_text ` set H \<subseteq> world_texts w"

definition stands_at :: "journal_row list \<Rightarrow> int \<times> string" where
  "stands_at H = (int (length H), chain_head genesis_hash (map journal_link H))"

definition anchor_at :: "anchors \<Rightarrow> string \<Rightarrow> int \<times> string" where
  "anchor_at as p = (case lookup_row an_provider as p of None \<Rightarrow> (0, genesis_hash) | Some a \<Rightarrow> (an_seq a, an_head a))"

definition anchored :: "crypto \<Rightarrow> world \<Rightarrow> string \<Rightarrow> journal_row list \<Rightarrow> bool" where
  "anchored c w p H \<longleftrightarrow> history c w p H \<and> anchor_at (wo_anchors w) p = stands_at H"

text \<open>A candidate: its fields commit its content, and its run id and nonce were fresh when it was staged.\<close>

definition pending_wf :: "crypto \<Rightarrow> pending_row \<Rightarrow> bool" where
  "pending_wf c n \<longleftrightarrow> pn_seq n = pn_prior_seq n + 1 \<and> pn_head n = cr_sha256 c (row_text (candidate_row n)) \<and>
     pn_candidate n = cr_sha256 c (pending_text n) \<and> json_wf (pn_dossier n) \<and> json_wf (pn_envelope n)"

definition staged :: "crypto \<Rightarrow> world \<Rightarrow> pending_row \<Rightarrow> bool" where
  "staged c w n \<longleftrightarrow> pending_wf c n \<and> row_text (candidate_row n) \<in> world_texts w \<and> pending_text n \<in> world_texts w \<and>
     (\<exists>J. history c w (pn_provider n) J \<and> stands_at J = (pn_prior_seq n, pn_prior_head n) \<and>
        pn_run n \<notin> set (map jr_run J) \<and> pn_nonce n \<notin> set (map jr_nonce J))"

definition db_sound :: "crypto \<Rightarrow> world \<Rightarrow> replay_db \<Rightarrow> bool" where
  "db_sound c w db \<longleftrightarrow> registry_inv c db \<and> (\<forall>n \<in> set (rg_pending db). staged c w n) \<and>
     (\<forall>p H. anchored c w p H \<longrightarrow> prefix (journal_of db p) H)"

definition world_sound :: "crypto \<Rightarrow> world \<Rightarrow> bool" where
  "world_sound c w \<longleftrightarrow> (\<forall>p. \<exists>H. anchored c w p H) \<and> (\<forall>db \<in> world_dbs w. db_sound c w db)"

definition world_inv :: "crypto \<Rightarrow> world \<Rightarrow> bool" where
  "world_inv c w \<longleftrightarrow> (no_collisions c w \<longrightarrow> world_sound c w)"

text \<open>What every step respects: nothing hashed is forgotten, and the anchored history only grows.\<close>

definition world_rel :: "crypto \<Rightarrow> world \<Rightarrow> world \<Rightarrow> bool" where
  "world_rel c w w' \<longleftrightarrow> world_inv c w \<and> world_inv c w' \<and> world_texts w \<subseteq> world_texts w' \<and>
     (no_collisions c w' \<longrightarrow> (\<forall>p H H'. anchored c w p H \<longrightarrow> anchored c w' p H' \<longrightarrow> prefix H H'))"

lemma history_mono: "history c w p H \<Longrightarrow> world_texts w \<subseteq> world_texts w' \<Longrightarrow> history c w' p H"
  by (auto simp: history_def)

lemma staged_mono: "staged c w n \<Longrightarrow> world_texts w \<subseteq> world_texts w' \<Longrightarrow> staged c w' n"
  unfolding staged_def using history_mono by blast

lemma histories_agree:
  assumes "no_collisions c w" and "history c w p H" and "history c w p H'" and "snd (stands_at H) = snd (stands_at H')"
  shows "H = H'"
  using assms stories_agree [of c p H H' w] by (simp add: history_def stands_at_def)

lemma anchored_unique: "no_collisions c w \<Longrightarrow> anchored c w p H \<Longrightarrow> anchored c w p H' \<Longrightarrow> H = H'"
  by (rule histories_agree [of c w p]) (simp_all add: anchored_def)

lemma world_rel_refl: "world_inv c w \<Longrightarrow> world_rel c w w"
  using anchored_unique by (fastforce simp: world_rel_def)

lemma world_rel_trans:
  assumes "world_rel c w1 w2" and "world_rel c w2 w3"
  shows "world_rel c w1 w3"
proof -
  from assms have t: "world_texts w1 \<subseteq> world_texts w2" "world_texts w2 \<subseteq> world_texts w3"
    and i: "world_inv c w1" "world_inv c w2" "world_inv c w3" by (auto simp: world_rel_def)
  have "prefix H H'" if g: "no_collisions c w3" and h: "anchored c w1 p H" "anchored c w3 p H'" for p H H'
  proof -
    have g2: "no_collisions c w2" by (rule no_collisions_mono [OF g t(2)])
    with i(2) obtain K where "anchored c w2 p K" by (auto simp: world_inv_def world_sound_def)
    with assms g g2 h have "prefix H K" "prefix K H'" unfolding world_rel_def by blast+
    then show ?thesis by (rule prefix_order.trans)
  qed
  with t i show ?thesis by (auto simp: world_rel_def)
qed

text \<open>Steps that leave database and anchors alone.\<close>

lemma same_world:
  assumes "wo_db w' = wo_db w" and "wo_past w' = wo_past w" and "anchor_at (wo_anchors w') = anchor_at (wo_anchors w)"
    and "wo_hashed w' = wo_hashed w"
  shows "world_dbs w' = world_dbs w" and "no_collisions c w' = no_collisions c w"
    and "history c w' = history c w" and "anchored c w' = anchored c w" and "staged c w' = staged c w" and "db_sound c w' = db_sound c w"
    and "world_inv c w' = world_inv c w"
proof -
  show d: "world_dbs w' = world_dbs w" using assms by (simp add: world_dbs_def)
  have t: "world_texts w' = world_texts w" using assms by simp
  then show n: "no_collisions c w' = no_collisions c w" by (simp add: no_collisions_def)
  show h: "history c w' = history c w" using t by (simp add: history_def fun_eq_iff)
  then show a: "anchored c w' = anchored c w" using assms by (simp add: anchored_def fun_eq_iff)
  show s: "staged c w' = staged c w" by (simp add: staged_def fun_eq_iff h t)
  then show b: "db_sound c w' = db_sound c w" by (simp add: db_sound_def fun_eq_iff a)
  then show "world_inv c w' = world_inv c w" by (simp add: world_inv_def world_sound_def n a d)
qed

lemma idle_rel:
  assumes "world_inv c w" and "wo_db w' = wo_db w" and "wo_past w' = wo_past w"
    and "anchor_at (wo_anchors w') = anchor_at (wo_anchors w)" and "wo_hashed w' = wo_hashed w"
  shows "world_rel c w w'"
  using world_rel_refl [OF assms(1)] same_world [OF assms(2-5)] assms(5) by (simp add: world_rel_def)

section \<open>Transactions on the local database\<close>

definition moved :: "world \<Rightarrow> replay_db \<Rightarrow> world" where
  "moved w db = w\<lparr>wo_db := db, wo_past := wo_db w # wo_past w\<rparr>"

lemma moved_dbs: "world_dbs (moved w db) = insert db (world_dbs w)"
  by (auto simp: moved_def world_dbs_def)

lemma moved_simps [simp]: "wo_hashed (moved w db) = wo_hashed w" "wo_anchors (moved w db) = wo_anchors w"
  by (simp_all add: moved_def)

lemma moved_same [simp]: "no_collisions c (moved w db) = no_collisions c w" "history c (moved w db) = history c w"
  "anchored c (moved w db) = anchored c w" "staged c (moved w db) = staged c w" "db_sound c (moved w db) = db_sound c w"
proof -
  show n: "no_collisions c (moved w db) = no_collisions c w" by (simp add: no_collisions_def)
  show h: "history c (moved w db) = history c w" by (simp add: history_def fun_eq_iff)
  then show a: "anchored c (moved w db) = anchored c w" by (simp add: anchored_def fun_eq_iff)
  show s: "staged c (moved w db) = staged c w" by (simp add: staged_def fun_eq_iff h)
  then show "db_sound c (moved w db) = db_sound c w" by (simp add: db_sound_def fun_eq_iff a)
qed

lemma moved_rel:
  assumes "world_inv c w" and "no_collisions c w \<Longrightarrow> world_sound c w \<Longrightarrow> db_sound c w db"
  shows "world_rel c w (moved w db)"
proof -
  have "world_inv c (moved w db)" using assms by (auto simp: world_inv_def world_sound_def moved_dbs)
  with assms(1) anchored_unique show ?thesis by (fastforce simp: world_rel_def)
qed

lemma db_commit_rel:
  assumes "world_inv c w"
    and "\<And>x db. f (wo_db w) = Inr (x, db) \<Longrightarrow> no_collisions c w \<Longrightarrow> world_sound c w \<Longrightarrow> db_sound c w db"
  shows "world_rel c w (snd (db_commit f w))"
proof (cases "f (wo_db w)")
  case (Inl e)
  then show ?thesis using world_rel_refl [OF assms(1)] by (simp add: db_commit_def commitS_def)
next
  case (Inr y)
  obtain x db where "y = (x, db)" by fastforce
  with Inr have "snd (db_commit f w) = moved w db" by (simp add: db_commit_def commitS_def moved_def)
  moreover have "world_rel c w (moved w db)"
    using moved_rel [OF assms(1)] assms(2) [OF Inr [unfolded \<open>y = (x, db)\<close>]] by blast
  ultimately show ?thesis by simp
qed

text \<open>A backup is restored, or an anchor is provisioned.\<close>

datatype world_event = Restore nat | Provision string

fun world_disturb :: "world_event \<Rightarrow> world \<Rightarrow> world" where
  "world_disturb (Restore k) w = (if k < length (wo_past w) then moved w (wo_past w ! k) else w)"
| "world_disturb (Provision p) w = (case provision_anchor (wo_anchors w) p of Inl _ \<Rightarrow> w | Inr as \<Rightarrow> w\<lparr>wo_anchors := as\<rparr>)"

lemma world_disturb_rel:
  assumes "world_inv c w"
  shows "world_rel c w (world_disturb e w)"
proof (cases e)
  case (Restore k)
  show ?thesis
  proof (cases "k < length (wo_past w)")
    case True
    then have "wo_past w ! k \<in> world_dbs w" by (simp add: world_dbs_def)
    with moved_rel [OF assms] True show ?thesis by (simp add: Restore world_sound_def)
  qed (use Restore world_rel_refl [OF assms] in simp)
next
  case (Provision p)
  show ?thesis
  proof (cases "provision_anchor (wo_anchors w) p")
    case (Inr as)
    then have "lookup_row an_provider (wo_anchors w) p = None" "as = wo_anchors w @ [\<lparr>an_provider = p, an_seq = 0, an_head = genesis_hash\<rparr>]"
      by (auto simp: provision_anchor_def split: if_splits)
    then have "anchor_at as = anchor_at (wo_anchors w)"
      by (auto simp: fun_eq_iff anchor_at_def table_simps split: option.splits)
    then show ?thesis using Inr by (intro idle_rel [OF assms]) (simp_all add: Provision)
  qed (use Provision world_rel_refl [OF assms] in simp)
qed

section \<open>Requests to the anchor\<close>

lemma exchange_effect:
  assumes "exchange f w = (r, w')"
  shows "wo_db w' = wo_db w" and "wo_past w' = wo_past w" and "wo_hashed w' = wo_hashed w"
    and "wo_anchors w' = wo_anchors w \<and> r = None \<or> wo_anchors w' = snd (f (wo_anchors w)) \<and> (r = None \<or> r = Some (fst (f (wo_anchors w))))"
  using assms by (auto simp: exchange_def Let_def split_beta split: transport.splits)

lemma validate_anchor_reply:
  "validate_anchor p (JObj [(''head_sha256'', JStr h), (''provider_id'', JStr p), (''sequence'', JInt n)]) = Inr (sq, k) \<Longrightarrow> sq = n \<and> k = h"
  by (auto simp: validate_anchor_def json_get_Cons split: if_splits)

lemma get_anchor_effect:
  assumes "get_anchor lc p w = (r, w')"
  shows "wo_db w' = wo_db w" and "wo_past w' = wo_past w" and "wo_hashed w' = wo_hashed w" and "wo_anchors w' = wo_anchors w"
    and "r = Inr payload \<Longrightarrow> \<exists>a. lookup_row an_provider (wo_anchors w) p = Some a \<and>
      payload = JObj [(''head_sha256'', JStr (an_head a)), (''provider_id'', JStr p), (''sequence'', JInt (an_seq a))]"
proof -
  let ?f = "\<lambda>as. (service_get (lc_service_token lc) (''Bearer '' @ lc_client_token lc) p as, as)"
  obtain q w1 where e: "exchange ?f w = (q, w1)" by fastforce
  note x = exchange_effect [OF e]
  note run = assms [unfolded get_anchor_def e]
  have "w' = w \<or> w' = w1" using run by (auto split: option.splits if_splits)
  with x show "wo_db w' = wo_db w" "wo_past w' = wo_past w" "wo_hashed w' = wo_hashed w" "wo_anchors w' = wo_anchors w" by auto
  assume "r = Inr payload"
  with run obtain st where q: "q = Some (st, payload)" and st: "\<not> 400 \<le> st"
    by (auto simp: bindR_Inr_iff split: option.splits if_splits)
  with x(4) have "service_get (lc_service_token lc) (''Bearer '' @ lc_client_token lc) p (wo_anchors w) = (st, payload)" by auto
  with st show "\<exists>a. lookup_row an_provider (wo_anchors w) p = Some a \<and>
      payload = JObj [(''head_sha256'', JStr (an_head a)), (''provider_id'', JStr p), (''sequence'', JInt (an_seq a))]"
    by (auto simp: service_get_def error_reply_def split: if_splits option.splits)
qed

lemma read_anchor_effect:
  assumes "read_anchor lc p w = (r, w')"
  shows "wo_db w' = wo_db w" and "wo_past w' = wo_past w" and "wo_hashed w' = wo_hashed w" and "wo_anchors w' = wo_anchors w"
    and "r = Inr s \<Longrightarrow> s = anchor_at (wo_anchors w) p"
proof -
  obtain q w1 where g: "get_anchor lc p w = (q, w1)" by fastforce
  note x = get_anchor_effect [OF g]
  have "w' = w1" using assms by (cases q) (auto simp: read_anchor_def bindS_def tryS_def g)
  with x show "wo_db w' = wo_db w" "wo_past w' = wo_past w" "wo_hashed w' = wo_hashed w" "wo_anchors w' = wo_anchors w" by auto
  assume "r = Inr s"
  with assms obtain payload where "q = Inr payload" "validate_anchor p payload = Inr s"
    by (cases q) (auto simp: read_anchor_def bindS_def tryS_def g)
  with x(5) validate_anchor_reply show "s = anchor_at (wo_anchors w) p" by (cases s) (fastforce simp: anchor_at_def)
qed

lemma service_cas_effect:
  assumes "service_cas token supplied p q as = (reply, as')"
  shows "as' = as \<and> snd reply \<noteq> JObj [(''updated'', JBool True)] \<or>
    anchor_at as p = (cq_exp_seq q, cq_exp_head q) \<and> anchor_at as' = (anchor_at as)(p := (cq_new_seq q, cq_new_head q))"
proof -
  let ?hit = "\<lambda>a. an_provider a = p \<and> an_seq a = cq_exp_seq q \<and> an_head a = cq_exp_head q"
  let ?new = "update_where ?hit (\<lambda>a. a\<lparr>an_seq := cq_new_seq q, an_head := cq_new_head q\<rparr>) as"
  have refused: "snd (error_reply st msg) \<noteq> JObj [(''updated'', JBool True)]" for st msg by (simp add: error_reply_def)
  consider "as' = as" "snd reply \<noteq> JObj [(''updated'', JBool True)]"
    | r where "lookup_row an_provider as p = Some r" "an_seq r = cq_exp_seq q" "an_head r = cq_exp_head q" "as' = ?new"
  proof (cases "lookup_row an_provider as p")
    case None
    have "as' = as \<and> snd reply \<noteq> JObj [(''updated'', JBool True)]"
      using assms unfolding service_cas_def None option.case by (auto simp: refused split: if_splits)
    with that(1) show thesis by blast
  next
    case (Some r)
    show thesis
    proof (cases "as' = as \<and> snd reply \<noteq> JObj [(''updated'', JBool True)]")
      case False
      have conflict: "snd (409 :: nat, JObj [(''updated'', JBool False)]) \<noteq> JObj [(''updated'', JBool True)]" by simp
      have "as' = as \<and> snd reply \<noteq> JObj [(''updated'', JBool True)] \<or> (an_seq r, an_head r) = (cq_exp_seq q, cq_exp_head q) \<and> as' = ?new"
        using assms unfolding service_cas_def Some option.case Let_def
        by (auto simp: refused split: if_splits)
      with False have "(an_seq r, an_head r) = (cq_exp_seq q, cq_exp_head q)" "as' = ?new" by blast+
      with that(2) Some show thesis by simp
    qed (use that(1) in simp)
  qed
  then show ?thesis
  proof cases
    case 2
    then have "an_provider r = p" using lookup_row_SomeD by metis
    have "anchor_at ?new k = ((anchor_at as)(p := (cq_new_seq q, cq_new_head q))) k" for k
    proof (cases "k = p")
      case True
      then show ?thesis using 2 \<open>an_provider r = p\<close> by (simp add: anchor_at_def lookup_row_update_where)
    next
      case False
      then show ?thesis
        by (cases "lookup_row an_provider as k") (auto simp: anchor_at_def lookup_row_update_where dest: lookup_row_SomeD)
    qed
    with 2 show ?thesis by (auto simp: anchor_at_def fun_eq_iff)
  qed simp
qed

lemma cas_effect:
  assumes "compare_and_set_anchor lc p prior new w = (r, w')"
  shows "wo_db w' = wo_db w" and "wo_past w' = wo_past w" and "wo_hashed w' = wo_hashed w"
    and "anchor_at (wo_anchors w') = anchor_at (wo_anchors w) \<and> r \<noteq> Inr True \<or>
      anchor_at (wo_anchors w) p = prior \<and> anchor_at (wo_anchors w') = (anchor_at (wo_anchors w))(p := new)"
proof -
  let ?q = "\<lparr>cq_exp_seq = fst prior, cq_exp_head = snd prior, cq_new_seq = fst new, cq_new_head = snd new\<rparr>"
  let ?f = "service_cas (lc_service_token lc) (''Bearer '' @ lc_client_token lc) p ?q"
  obtain y w1 where e: "exchange ?f w = (y, w1)" by fastforce
  note x = exchange_effect [OF e]
  note run = assms [unfolded compare_and_set_anchor_def e]
  have w': "w' = w \<and> r \<noteq> Inr True \<or> w' = w1 \<and> (r = Inr True \<longrightarrow> (\<exists>st. y = Some (st, JObj [(''updated'', JBool True)])))"
    using run by (auto split: option.splits if_splits)
  with x show "wo_db w' = wo_db w" "wo_past w' = wo_past w" "wo_hashed w' = wo_hashed w" by auto
  have cas: "snd (?f as) = as \<and> snd (fst (?f as)) \<noteq> JObj [(''updated'', JBool True)] \<or>
      anchor_at as p = prior \<and> anchor_at (snd (?f as)) = (anchor_at as)(p := new)" for as
    using service_cas_effect [of "lc_service_token lc" "''Bearer '' @ lc_client_token lc" p ?q as "fst (?f as)" "snd (?f as)"]
    unfolding prod.collapse cas_request.simps by blast
  show "anchor_at (wo_anchors w') = anchor_at (wo_anchors w) \<and> r \<noteq> Inr True \<or>
      anchor_at (wo_anchors w) p = prior \<and> anchor_at (wo_anchors w') = (anchor_at (wo_anchors w))(p := new)"
    using w' x(4) cas [of "wo_anchors w"] by (cases y) auto
qed

text \<open>Anchoring a staged candidate extends the history by its row.\<close>

lemma stands_at_snoc: "stands_at (H @ [r]) = (int (length H) + 1, jr_head r)"
  by (simp add: stands_at_def)

lemma staged_extends:
  assumes g: "no_collisions c w" and n: "staged c w n" and H: "anchored c w (pn_provider n) H"
    and at: "stands_at H = (pn_prior_seq n, pn_prior_head n)"
  shows "history c w (pn_provider n) (H @ [candidate_row n])" and "stands_at (H @ [candidate_row n]) = (pn_seq n, pn_head n)"
proof -
  from n obtain J where J: "history c w (pn_provider n) J" "stands_at J = (pn_prior_seq n, pn_prior_head n)"
    and fresh: "pn_run n \<notin> set (map jr_run J)" "pn_nonce n \<notin> set (map jr_nonce J)"
    and wf: "pn_seq n = pn_prior_seq n + 1" "pn_head n = cr_sha256 c (row_text (candidate_row n))" "row_text (candidate_row n) \<in> world_texts w"
    by (auto simp: staged_def pending_wf_def)
  have "J = H" using J H at by (intro histories_agree [OF g, of "pn_provider n"]) (simp_all add: anchored_def)
  note fresh = fresh [unfolded this] and J = J [unfolded this]
  have len: "pn_prior_seq n = int (length H)" "pn_prior_head n = chain_head genesis_hash (map journal_link H)"
    using at by (simp_all add: stands_at_def)
  have "jr_head (candidate_row n) = journal_hash c (journal_event (pn_provider n) (jr_seq (candidate_row n)) (jr_prev (candidate_row n))
      (jr_run (candidate_row n)) (jr_nonce (candidate_row n)) (jr_receipt (candidate_row n)))"
    using wf(2) by (simp add: journal_hash_def row_text_def candidate_row_def)
  with J(1) fresh wf(1,3) len show "history c w (pn_provider n) (H @ [candidate_row n])"
    by (simp add: history_def story_snoc) (simp add: candidate_row_def)
  show "stands_at (H @ [candidate_row n]) = (pn_seq n, pn_head n)"
    using len wf(1) by (simp add: stands_at_snoc) (simp add: candidate_row_def)
qed

lemma cas_rel:
  assumes inv: "world_inv c w" and n: "no_collisions c w \<Longrightarrow> staged c w n"
  shows "world_rel c w (snd (compare_and_set_anchor lc (pn_provider n) (pn_prior_seq n, pn_prior_head n) (pn_seq n, pn_head n) w))"
proof -
  let ?p = "pn_provider n"
  obtain r w' where e: "compare_and_set_anchor lc ?p (pn_prior_seq n, pn_prior_head n) (pn_seq n, pn_head n) w = (r, w')" by fastforce
  note x = cas_effect [OF e]
  show ?thesis
  proof (cases "anchor_at (wo_anchors w') = anchor_at (wo_anchors w)")
    case True
    with x show ?thesis by (intro idle_rel [OF inv]) (simp_all add: e)
  next
    case False
    with x(4) have from_prior: "anchor_at (wo_anchors w) ?p = (pn_prior_seq n, pn_prior_head n)"
      and to: "anchor_at (wo_anchors w') = (anchor_at (wo_anchors w))(?p := (pn_seq n, pn_head n))" by auto
    have texts: "wo_hashed w' = wo_hashed w" and dbs: "world_dbs w' = world_dbs w" using x by (simp_all add: world_dbs_def)
    then have g: "no_collisions c w' = no_collisions c w" and h: "history c w' = history c w"
      by (simp_all add: no_collisions_def history_def fun_eq_iff)
    then have st: "staged c w' = staged c w" using texts by (simp add: staged_def fun_eq_iff)
    have other: "anchored c w' q H = anchored c w q H" if "q \<noteq> ?p" for q H using that by (simp add: anchored_def h to)
    have grow: "world_sound c w' \<and> (\<forall>p H H'. anchored c w p H \<longrightarrow> anchored c w' p H' \<longrightarrow> prefix H H')" if gw: "no_collisions c w"
    proof -
      from inv gw have sound: "world_sound c w" by (simp add: world_inv_def)
      then obtain H where H: "anchored c w ?p H" by (auto simp: world_sound_def)
      then have at: "stands_at H = (pn_prior_seq n, pn_prior_head n)" using from_prior by (simp add: anchored_def)
      note ext = staged_extends [OF gw n [OF gw] H at]
      have new: "anchored c w' ?p (H @ [candidate_row n])" using ext by (simp add: anchored_def h to)
      have pre: "prefix K K'" if "anchored c w p K" "anchored c w' p K'" for p K K'
      proof (cases "p = ?p")
        case True
        have "K = H" using anchored_unique [OF gw that(1)] H True by simp
        moreover have "K' = H @ [candidate_row n]"
          using anchored_unique [of c w' ?p K' "H @ [candidate_row n]"] that(2) True new g gw by simp
        ultimately show ?thesis by simp
      next
        case False
        with that other anchored_unique [OF gw that(1)] show ?thesis by simp
      qed
      have "db_sound c w' db" if "db \<in> world_dbs w" for db
      proof -
        from sound that have d: "db_sound c w db" by (simp add: world_sound_def)
        have "prefix (journal_of db p) K'" if k: "anchored c w' p K'" for p K'
        proof -
          obtain K where K: "anchored c w p K" using sound by (auto simp: world_sound_def)
          with d have "prefix (journal_of db p) K" by (simp add: db_sound_def)
          then show ?thesis by (rule prefix_order.trans [OF _ pre [OF K k]])
        qed
        with d show ?thesis by (simp add: db_sound_def st)
      qed
      moreover have "\<exists>K. anchored c w' p K" for p
        using new other sound by (cases "p = ?p") (auto simp: world_sound_def)
      ultimately show ?thesis using pre by (auto simp: world_sound_def dbs)
    qed
    then show ?thesis using inv g texts by (auto simp: world_rel_def world_inv_def e)
  qed
qed

end
