(* ===== verification/PendingRuns.thy ===== *)
theory PendingRuns
  imports AnchorWorld
begin

text \<open>
  The pending-first protocol under concurrency, crashes and restored backups
  (\<^verbatim>\<open>src/shared/pending_anchored_attestation_replay.py\<close>): registrations and recoveries run
  interleaved, step by step, over one world. Every local journal stays a prefix of the one
  anchored history, and a receipt has one position in it.
\<close>

section \<open>Hashing and staging\<close>

lemma hashing_rel:
  assumes inv: "world_inv c w" and dbs: "wo_db w' = wo_db w" "wo_past w' = wo_past w" "wo_anchors w' = wo_anchors w"
    and texts: "world_texts w \<subseteq> world_texts w'"
  shows "world_rel c w w'"
proof -
  have same: "K = H" if g: "no_collisions c w'" and K: "anchored c w p K" and H: "anchored c w' p H" for p H K
  proof -
    from K have "anchored c w' p K" using history_mono [OF _ texts] by (simp add: anchored_def dbs)
    then show ?thesis by (rule anchored_unique [OF g _ H])
  qed
  have "world_sound c w'" if g: "no_collisions c w'"
  proof -
    from inv no_collisions_mono [OF g texts] have sound: "world_sound c w" by (simp add: world_inv_def)
    have "\<exists>H. anchored c w' p H" for p
      using sound history_mono [OF _ texts] by (fastforce simp: world_sound_def anchored_def dbs)
    moreover have "db_sound c w' db" if "db \<in> world_dbs w'" for db
    proof -
      from that sound have d: "db_sound c w db" by (auto simp: world_sound_def world_dbs_def dbs)
      have "prefix (journal_of db p) H" if "anchored c w' p H" for p H
      proof -
        obtain K where K: "anchored c w p K" using sound by (auto simp: world_sound_def)
        with d have "prefix (journal_of db p) K" by (simp add: db_sound_def)
        with same [OF g K that] show ?thesis by simp
      qed
      with d staged_mono [OF _ texts] show ?thesis by (simp add: db_sound_def)
    qed
    ultimately show ?thesis by (simp add: world_sound_def)
  qed
  with inv texts same show ?thesis by (fastforce simp: world_rel_def world_inv_def)
qed

lemma new_candidate_wf:
  assumes "json_wf d" and "json_wf e"
  shows "pending_wf c (new_candidate c d e v prior)"
proof -
  have ev: "pending_event (new_candidate c d e v prior) = candidate_event d v prior"
    by (simp add: pending_event_def new_candidate_def candidate_event_def candidate_position_def)
  show ?thesis
    unfolding pending_wf_def candidate_row_text pending_text_def ev
    using assms by (simp add: new_candidate_def candidate_position_def journal_hash_def candidate_id_def)
qed

text \<open>Two candidates with the same id, both hashed, are the same up to their status.\<close>

lemma same_candidate:
  assumes g: "no_collisions c w" and n: "staged c w n" and m: "staged c w m" and cid: "pn_candidate n = pn_candidate m"
  shows "candidate_row n = candidate_row m"
proof -
  from n m have wf: "pending_wf c n" "pending_wf c m" and hashed: "pending_text n \<in> world_texts w" "pending_text m \<in> world_texts w"
    by (simp_all add: staged_def)
  have "cr_sha256 c (pending_text n) = cr_sha256 c (pending_text m)" using wf cid by (simp add: pending_wf_def)
  moreover have "inj_on (cr_sha256 c) (world_texts w)" using g by (simp add: no_collisions_def digest_good_on_def)
  ultimately have "pending_text n = pending_text m" using hashed by (simp add: inj_on_def)
  then have "dumps True (JObj [(''dossier'', pn_dossier n), (''envelope'', pn_envelope n), (''event'', pending_event n)]) =
      dumps True (JObj [(''dossier'', pn_dossier m), (''envelope'', pn_envelope m), (''event'', pending_event m)])"
    by (simp add: pending_text_def candidate_text_def canonical_text_def del: dumps.simps)
  moreover have "json_wf (JObj [(''dossier'', pn_dossier k), (''envelope'', pn_envelope k), (''event'', pending_event k)])" if "pending_wf c k" for k
    using that journal_event_wf by (simp add: pending_wf_def pending_event_def)
  ultimately have "JObj [(''dossier'', pn_dossier n), (''envelope'', pn_envelope n), (''event'', pending_event n)] =
      JObj [(''dossier'', pn_dossier m), (''envelope'', pn_envelope m), (''event'', pending_event m)]"
    using dumps_inj wf by blast
  then have eq: "pending_event n = pending_event m" by simp
  then have "pn_head n = pn_head m" using wf by (simp add: pending_wf_def candidate_row_text)
  with eq show ?thesis by (auto simp: pending_event_def journal_event_def candidate_row_def)
qed

lemma persist_pending_Inr:
  assumes "persist_pending n db = Inr (u, db')"
  shows "(provider_state db (pn_provider n) = Some (pn_prior_seq n, pn_prior_head n) \<or>
      provider_state db (pn_provider n) = None \<and> (pn_prior_seq n, pn_prior_head n) = (0, genesis_hash)) \<and>
    \<not> (\<exists>a \<in> set (rg_accepted db). ac_provider a = pn_provider n \<and> (ac_run a = pn_run n \<or> ac_nonce a = pn_nonce n)) \<and>
    (db' = db \<or> db' = db\<lparr>rg_pending := rg_pending db @ [n]\<rparr>)"
proof -
  obtain s where s: "(case provider_state db (pn_provider n) of
         Some s \<Rightarrow> Inr s
       | None \<Rightarrow> if legacy_rows db (pn_provider n) then raise AttestationReplayRegistryError ''replay_registry_legacy_state_requires_migration''
           else Inr (0, genesis_hash)) = Inr s" and "s = (pn_prior_seq n, pn_prior_head n)"
    and "\<not> (\<exists>a \<in> set (rg_accepted db). ac_provider a = pn_provider n \<and> (ac_run a = pn_run n \<or> ac_nonce a = pn_nonce n))"
    and "db' = db \<or> db' = db\<lparr>rg_pending := rg_pending db @ [n]\<rparr>"
    using assms unfolding persist_pending_def Let_def bindR_Inr_iff
    by (auto split: if_splits option.splits)
  then show ?thesis by (auto split: option.splits if_splits)
qed

lemma db_sound_pending:
  assumes "db_sound c w db" and "\<forall>n \<in> set ns. staged c w n"
  shows "db_sound c w (db\<lparr>rg_pending := ns\<rparr>)"
  using assms by (simp add: db_sound_def)

text \<open>A candidate that was persisted is staged.\<close>

lemma persisted_staged:
  assumes p: "persist_pending n db = Inr (u, db')" and g: "no_collisions c w" and sound: "world_sound c w"
    and db: "db \<in> world_dbs w" and wf: "pending_wf c n"
    and hashed: "row_text (candidate_row n) \<in> world_texts w" "pending_text n \<in> world_texts w"
  shows "staged c w n" and "db_sound c w db'"
proof -
  let ?p = "pn_provider n"
  note pp = persist_pending_Inr [OF p]
  from sound db have d: "db_sound c w db" by (simp add: world_sound_def)
  then have ok: "provider_ok c db ?p" by (simp add: db_sound_def registry_inv_def)
  obtain H where "anchored c w ?p H" using sound by (auto simp: world_sound_def)
  with d have "prefix (journal_of db ?p) H" "history c w ?p H" by (auto simp: db_sound_def anchored_def)
  then have "row_text ` set (journal_of db ?p) \<subseteq> world_texts w" by (force simp: history_def dest: set_mono_prefix)
  with ok have "history c w ?p (journal_of db ?p)" by (simp add: history_def provider_ok_def)
  moreover have "stands_at (journal_of db ?p) = (pn_prior_seq n, pn_prior_head n)"
    using pp provider_state_ok [OF ok] by (auto simp: stands_at_def journal_at_def)
  moreover
  have "\<not> seen_before db ?p (pn_run n) (pn_nonce n)" using pp seen_accepted [OF ok] by blast
  then have "pn_run n \<notin> set (map jr_run (journal_of db ?p))" "pn_nonce n \<notin> set (map jr_nonce (journal_of db ?p))"
    by (auto simp: seen_before_def)
  ultimately show st: "staged c w n" unfolding staged_def using wf hashed by blast
  have "\<forall>m \<in> set (rg_pending db @ [n]). staged c w m" using st d by (simp add: db_sound_def)
  with d db_sound_pending pp show "db_sound c w db'" by blast
qed

text \<open>The facts that survive every step.\<close>

definition known_staged :: "crypto \<Rightarrow> pending_row \<Rightarrow> world \<Rightarrow> bool" where
  "known_staged c n w \<longleftrightarrow> (no_collisions c w \<longrightarrow> staged c w n)"

definition confirmed :: "crypto \<Rightarrow> string \<Rightarrow> journal_row \<Rightarrow> world \<Rightarrow> bool" where
  "confirmed c p r w \<longleftrightarrow> (no_collisions c w \<longrightarrow> (\<exists>H. anchored c w p H \<and> r \<in> set H))"

lemma world_rel_mono: "world_rel c w w' \<Longrightarrow> no_collisions c w' \<Longrightarrow> no_collisions c w"
  by (rule no_collisions_mono [of c w' w]) (auto simp: world_rel_def)

lemma known_staged_stable: "known_staged c n w \<Longrightarrow> world_rel c w w' \<Longrightarrow> known_staged c n w'"
  using world_rel_mono by (auto simp: known_staged_def world_rel_def intro: staged_mono)

lemma confirmed_stable:
  assumes "confirmed c p r w" and r: "world_rel c w w'"
  shows "confirmed c p r w'"
proof -
  have "\<exists>H'. anchored c w' p H' \<and> r \<in> set H'" if g: "no_collisions c w'"
  proof -
    from assms world_rel_mono [OF r g] obtain H where H: "anchored c w p H" "r \<in> set H" by (auto simp: confirmed_def)
    from r g obtain H' where "anchored c w' p H'" unfolding world_rel_def world_inv_def world_sound_def by blast
    moreover from this r g H have "prefix H H'" by (simp add: world_rel_def)
    ultimately show ?thesis using H(2) set_mono_prefix by blast
  qed
  then show ?thesis by (simp add: confirmed_def)
qed

lemma stage_candidate_step:
  assumes inv: "world_inv c w" and wf: "pending_wf c n"
  shows "world_rel c w (snd (stage_candidate n w)) \<and> (\<forall>x. fst (stage_candidate n w) = Inr x \<longrightarrow> known_staged c n (snd (stage_candidate n w)))"
proof -
  let ?w = "w\<lparr>wo_hashed := journal_text (pending_event n) # pending_text n # wo_hashed w\<rparr>"
  have r: "world_rel c w ?w" by (rule hashing_rel [OF inv]) auto
  then have inv': "world_inv c ?w" by (simp add: world_rel_def)
  have hashed: "row_text (candidate_row n) \<in> world_texts ?w" "pending_text n \<in> world_texts ?w" by (simp_all add: candidate_row_text)
  have db: "wo_db ?w \<in> world_dbs ?w" by (simp add: world_dbs_def)
  have "world_rel c ?w (snd (db_commit (persist_pending n) ?w))"
    by (rule db_commit_rel [OF inv']) (rule persisted_staged(2) [OF _ _ _ db wf hashed])
  with r have "world_rel c w (snd (stage_candidate n w))" unfolding stage_candidate_def by (rule world_rel_trans)
  moreover have "known_staged c n (snd (stage_candidate n w))" if "fst (stage_candidate n w) = Inr x" for x
  proof -
    from that obtain u db' where p: "persist_pending n (wo_db ?w) = Inr (u, db')" and w': "snd (stage_candidate n w) = moved ?w db'"
      by (auto simp: stage_candidate_def db_commit_def commitS_def moved_def bindR_Inr_iff split: sum.splits prod.splits)
    show ?thesis unfolding w' known_staged_def moved_same
      using persisted_staged(1) [OF p _ _ db wf hashed] inv' by (simp add: world_inv_def)
  qed
  ultimately show ?thesis by blast
qed


section \<open>Steps on the database\<close>

lemma staged_status [simp]: "staged c w (n\<lparr>pn_status := st\<rparr>) = staged c w n"
  by (simp add: staged_def pending_wf_def candidate_row_def pending_text_def pending_event_def)

lemma marking_sound: "db_sound c w db \<Longrightarrow> db_sound c w (db\<lparr>rg_pending := update_where hit (\<lambda>r. r\<lparr>pn_status := st\<rparr>) (rg_pending db)\<rparr>)"
  by (rule db_sound_pending) (auto simp: db_sound_def update_where_def)

lemma finalize_row_marks:
  assumes "finalize_row cid p run nonce receipt sq head from cls msg db = Inr db'"
  obtains hit where "db' = db\<lparr>rg_pending := update_where hit (\<lambda>r. r\<lparr>pn_status := Finalized\<rparr>) (rg_pending db)\<rparr>"
  using assms by (auto simp: finalize_row_def Let_def split: if_splits)

lemma mark_conflict_step: "world_inv c w \<Longrightarrow> world_rel c w (snd (db_commit (mark_conflict cid) w))"
  by (rule db_commit_rel) (auto simp: mark_conflict_def world_sound_def world_dbs_def intro: marking_sound)

lemma confirm_committed_step:
  assumes "world_inv c w"
  shows "world_rel c w (snd (db_commit (confirm_committed r) w))"
proof (rule db_commit_rel [OF assms])
  fix u db assume c: "confirm_committed r (wo_db w) = Inr (u, db)" and "world_sound c w"
  then have d: "db_sound c w (wo_db w)" by (simp add: world_sound_def world_dbs_def)
  from c obtain hit where "db = (wo_db w)\<lparr>rg_pending := update_where hit (\<lambda>r. r\<lparr>pn_status := Finalized\<rparr>) (rg_pending (wo_db w))\<rparr>"
    by (auto simp: confirm_committed_def bindR_Inr_iff split: if_splits elim: finalize_row_marks)
  with d show "db_sound c w db" by (simp add: marking_sound)
qed

lemma story_prefix: "story c p n prev (rs @ rs') \<Longrightarrow> story c p n prev rs"
  by (induction rs' rule: rev_induct) (simp_all add: story_snoc flip: append_assoc)

text \<open>The journal before an anchored candidate is the history before it.\<close>

lemma confirmed_splits:
  assumes g: "no_collisions c w" and H: "anchored c w p H" and r: "r \<in> set H" and J: "history c w p J"
    and at: "snd (stands_at J) = jr_prev r"
  shows "prefix (J @ [r]) H"
proof -
  from r obtain H1 H2 where split: "H = (H1 @ [r]) @ H2" by (metis in_set_conv_decomp append_Cons append_Nil append_assoc)
  have story: "story c p 1 genesis_hash H" using H by (simp add: anchored_def history_def)
  then have "story c p 1 genesis_hash (H1 @ [r])" unfolding split by (rule story_prefix)
  then have "story c p 1 genesis_hash H1" "jr_prev r = chain_head genesis_hash (map journal_link H1)" by (simp_all add: story_snoc)
  moreover from this have "history c w p H1" using H by (auto simp: anchored_def history_def split)
  ultimately have "J = H1" using at by (intro histories_agree [OF g J]) (simp add: stands_at_def)+
  then show ?thesis using split by simp
qed

lemma recorded_sound:
  assumes g: "no_collisions c w" and sound: "world_sound c w" and db: "db \<in> world_dbs w"
    and n: "confirmed c (pn_provider n) (candidate_row n) w"
    and v: "verify_independent_runner_attestation c trusted (pn_dossier n) (pn_envelope n) = Inr v"
    and bound: "(dossier_provider (pn_dossier n), dossier_run (pn_dossier n), dossier_nonce (pn_dossier n), ar_receipt_sha256 v) =
      (pn_provider n, pn_run n, pn_nonce n, pn_receipt n)"
      "candidate_position c (pn_dossier n) v (pn_prior_seq n, pn_prior_head n) = (pn_seq n, pn_head n)"
    and rec: "verify_and_record_attestation c trusted (pn_dossier n) (pn_envelope n) (Some (pn_prior_seq n, pn_prior_head n)) (Some cid) db
      = Inr (x, db')"
  shows "db_sound c w db'" and "x = (pn_seq n, pn_head n)"
proof -
  let ?p = "pn_provider n" and ?d = "pn_dossier n" and ?e = "pn_envelope n"
  from sound db have d: "db_sound c w db" by (simp add: world_sound_def)
  then have inv: "registry_inv c db" by (simp add: db_sound_def)
  then have ok: "provider_ok c db ?p" by (simp add: registry_inv_def)
  obtain sq head where x: "x = (sq, head)" by fastforce
  from rec v have t: "record_transaction c ?d ?e v (Some (pn_prior_seq n, pn_prior_head n)) (Some cid) db = Inr ((sq, head), db')"
    by (auto simp: verify_and_record_attestation_def bindR_Inr_iff x)
  then have at: "journal_at db ?p = (pn_prior_seq n, pn_prior_head n)" and fresh: "\<not> seen_before db ?p (pn_run n) (pn_nonce n)"
    and fin: "finalize_row cid ?p (pn_run n) (pn_nonce n) (pn_receipt n) (fst (journal_at db ?p) + 1) (next_head c db ?d v) {Prepared}
      AttestationReplayRegistryError ''pending_candidate_not_finalizable_in_acceptance_transaction'' (recorded c ?d ?e v db) = Inr db'"
    and sq: "sq = fst (journal_at db ?p) + 1" "head = next_head c db ?d v"
    unfolding record_equation [OF inv] Let_def using bound(1) by (auto simp: bindR_Inr_iff split: if_splits)
  have pos: "pn_seq n = pn_prior_seq n + 1" "pn_head n = next_head c db ?d v"
    using bound at by (auto simp: candidate_position_def candidate_event_def next_head_def)
  then show "x = (pn_seq n, pn_head n)" by (simp add: x sq at)
  have row: "next_row c db ?d v = candidate_row n" using bound(1) pos at by (simp add: next_row_def candidate_row_def Let_def)
  have inv': "registry_inv c (recorded c ?d ?e v db)" using recorded_inv [OF inv] fresh bound(1) by simp
  from n g obtain H where H: "anchored c w ?p H" "candidate_row n \<in> set H" by (auto simp: confirmed_def)
  have pre: "prefix (journal_of db q) K" if "anchored c w q K" for q K using d that by (simp add: db_sound_def)
  from pre [OF H(1)] H(1) have "row_text ` set (journal_of db ?p) \<subseteq> world_texts w"
    by (force simp: anchored_def history_def dest: set_mono_prefix)
  with ok have J: "history c w ?p (journal_of db ?p)" by (simp add: history_def provider_ok_def)
  have "snd (stands_at (journal_of db ?p)) = jr_prev (candidate_row n)"
    using at by (simp add: stands_at_def journal_at_def candidate_row_def)
  note ext = confirmed_splits [OF g H J this]
  have pre': "prefix (journal_of (recorded c ?d ?e v db) q) K" if K: "anchored c w q K" for q K
  proof (cases "q = ?p")
    case True
    with K anchored_unique [OF g H(1)] have "K = H" by simp
    with True ext bound(1) show ?thesis by (simp add: recorded_views row)
  next
    case False
    with pre [OF K] bound(1) show ?thesis by (simp add: recorded_views)
  qed
  have "db_sound c w (recorded c ?d ?e v db)"
    using d inv' pre' by (simp add: db_sound_def recorded_views)
  then show "db_sound c w db'" using fin marking_sound by (auto elim!: finalize_row_marks)
qed


section \<open>The handlers, step by step\<close>

abbreviation keeps :: "crypto \<Rightarrow> (world, 'a) proc \<Rightarrow> ('a \<Rightarrow> world \<Rightarrow> bool) \<Rightarrow> world \<Rightarrow> bool" where
  "keeps c p Q w \<equiv> guarantees p (world_rel c) Q w"

lemma world_relD: "world_rel c w w' \<Longrightarrow> world_inv c w'"
  by (simp add: world_rel_def)

lemma keeps_bind:
  assumes "world_inv c w" and "keeps c m P w" and "\<And>x w'. world_rel c w w' \<Longrightarrow> world_inv c w' \<Longrightarrow> P x w' \<Longrightarrow> keeps c (f x) Q w'"
  shows "keeps c (bindP m f) Q w"
  by (rule guarantees_bindP [OF assms(2) world_rel_trans world_rel_refl [OF assms(1)]])
    (use assms(3) world_relD world_rel_refl in blast)+

lemma keeps_try:
  assumes "world_inv c w" and "keeps c m Q w" and "\<And>e w'. world_rel c w w' \<Longrightarrow> world_inv c w' \<Longrightarrow> keeps c (h e) Q w'"
  shows "keeps c (tryP m h) Q w"
  by (rule guarantees_tryP [OF assms(2) world_rel_trans world_rel_refl [OF assms(1)]])
    (use assms(3) world_relD world_rel_refl in blast)+

lemma keeps_read: "(\<And>x w'. world_rel c w w' \<Longrightarrow> world_inv c w' \<Longrightarrow> f (wo_db w') = Inr x \<Longrightarrow> Q x w') \<Longrightarrow> keeps c (atomP (db_read f)) Q w"
  by (rule guarantees_atomP) (auto simp: db_read_def dest: world_relD intro: world_rel_refl)

lemma keeps_commit:
  assumes "\<And>w'. world_rel c w w' \<Longrightarrow> world_inv c w' \<Longrightarrow> world_rel c w' (snd (db_commit f w'))"
  shows "keeps c (atomP (db_commit f)) (\<lambda>_ _. True) w"
  using assms by (intro guarantees_atomP) (auto dest: world_relD)

lemma keeps_read_anchor:
  assumes "\<And>x w'. world_rel c w w' \<Longrightarrow> world_inv c w' \<Longrightarrow> x = anchor_at (wo_anchors w') p \<Longrightarrow> Q x w'"
    and "\<And>x w1 w'. Q x w1 \<Longrightarrow> world_rel c w1 w' \<Longrightarrow> Q x w'"
  shows "keeps c (atomP (read_anchor lc p)) Q w"
proof (rule guarantees_atomP)
  fix w1 assume r: "world_rel c w w1"
  obtain x w2 where e: "read_anchor lc p w1 = (x, w2)" by fastforce
  note f = read_anchor_effect [OF e]
  have "world_rel c w1 w2" by (rule idle_rel [OF world_relD [OF r] f(1,2) _ f(3)]) (simp add: f(4))
  moreover have "Q s w2" if "x = Inr s" for s
    using assms(2) [OF assms(1) [OF r world_relD [OF r] f(5) [OF that]] \<open>world_rel c w1 w2\<close>] .
  ultimately show "world_rel c w1 (snd (read_anchor lc p w1)) \<and>
      (\<forall>x. fst (read_anchor lc p w1) = Inr x \<longrightarrow> Q x (snd (read_anchor lc p w1)))" by (simp add: e)
qed

text \<open>An anchor that stands at a staged candidate confirms its row.\<close>

definition matches :: "crypto \<Rightarrow> pending_row \<Rightarrow> int \<times> string \<Rightarrow> world \<Rightarrow> bool" where
  "matches c n x w \<longleftrightarrow> (x = (pn_seq n, pn_head n) \<longrightarrow> confirmed c (pn_provider n) (candidate_row n) w)"

lemma matches_stable: "matches c n x w \<Longrightarrow> world_rel c w w' \<Longrightarrow> matches c n x w'"
  using confirmed_stable by (auto simp: matches_def)

lemma anchored_candidate:
  assumes inv: "world_inv c w" and n: "known_staged c n w" and at: "anchor_at (wo_anchors w) (pn_provider n) = (pn_seq n, pn_head n)"
  shows "confirmed c (pn_provider n) (candidate_row n) w"
proof -
  let ?p = "pn_provider n"
  have "\<exists>H. anchored c w ?p H \<and> candidate_row n \<in> set H" if g: "no_collisions c w"
  proof -
    from inv g obtain H where H: "anchored c w ?p H" by (auto simp: world_inv_def world_sound_def)
    from n g have st: "staged c w n" by (simp add: known_staged_def)
    then obtain J where "stands_at J = (pn_prior_seq n, pn_prior_head n)" and wf: "pending_wf c n"
      and hashed: "row_text (candidate_row n) \<in> world_texts w" by (auto simp: staged_def)
    then have "0 < pn_seq n" by (auto simp: stands_at_def pending_wf_def)
    with H at have "H \<noteq> []" by (auto simp: anchored_def stands_at_def)
    then obtain K r where K: "H = K @ [r]" by (metis rev_exhaust)
    with H at have "jr_head r = pn_head n" by (simp add: anchored_def stands_at_def)
    moreover have "jr_head r = cr_sha256 c (row_text r)" "row_text r \<in> world_texts w" using H K
      by (auto simp: anchored_def history_def story_snoc journal_hash_def row_text_def)
    moreover have "inj_on (cr_sha256 c) (world_texts w)" using g by (simp add: no_collisions_def digest_good_on_def)
    ultimately have "row_text r = row_text (candidate_row n)" using wf hashed by (simp add: pending_wf_def inj_on_def)
    then have "r = candidate_row n" using \<open>jr_head r = pn_head n\<close> by (intro row_text_inj) (simp_all add: candidate_row_def)
    with H K show ?thesis by auto
  qed
  then show ?thesis by (simp add: confirmed_def)
qed

lemma keeps_match:
  assumes "known_staged c n w"
  shows "keeps c (atomP (read_anchor lc (pn_provider n))) (matches c n) w"
proof (rule keeps_read_anchor)
  fix x w' assume "world_rel c w w'" "world_inv c w'" "x = anchor_at (wo_anchors w') (pn_provider n)"
  with anchored_candidate known_staged_stable [OF assms] show "matches c n x w'" by (auto simp: matches_def)
qed (rule matches_stable)

text \<open>What \<^verbatim>\<open>_finalize_pending\<close> needs and what it promises.\<close>

definition anchored_result :: "crypto \<Rightarrow> pending_row \<Rightarrow> replay_result \<Rightarrow> world \<Rightarrow> bool" where
  "anchored_result c n x w \<longleftrightarrow> (no_collisions c w \<longrightarrow> (rp_seq x, rp_head x) = (pn_seq n, pn_head n)) \<and>
     confirmed c (pn_provider n) (candidate_row n) w"

definition same_row :: "crypto \<Rightarrow> pending_row \<Rightarrow> pending_row \<Rightarrow> world \<Rightarrow> bool" where
  "same_row c n r w \<longleftrightarrow> (no_collisions c w \<longrightarrow> staged c w r \<and> candidate_row r = candidate_row n)"

lemma keeps_read_candidate:
  assumes "world_inv c w" and "known_staged c n w" and "cid = pn_candidate n"
  shows "keeps c (atomP (db_read (read_candidate cid))) (\<lambda>r. same_row c n r) w"
proof (rule keeps_read)
  fix r w' assume w: "world_rel c w w'" "world_inv c w'" and r: "read_candidate cid (wo_db w') = Inr r"
  from r have "r \<in> set (rg_pending (wo_db w'))" "pn_candidate r = cid"
    by (auto simp: read_candidate_def split: option.splits dest: lookup_row_SomeD)
  with w(2) known_staged_stable [OF assms(2) w(1)] same_candidate [of c w' r n] assms(3) show "same_row c n r w'"
    by (auto simp: same_row_def known_staged_def world_inv_def world_sound_def db_sound_def world_dbs_def)
qed


lemma same_row_stable: "same_row c n r w \<Longrightarrow> world_rel c w w' \<Longrightarrow> same_row c n r w'"
  using world_rel_mono by (auto simp: same_row_def world_rel_def intro: staged_mono)

lemma same_row_result:
  assumes "same_row c n r w" and "confirmed c (pn_provider n) (candidate_row n) w" and "(rp_seq x, rp_head x) = (pn_seq r, pn_head r)"
  shows "anchored_result c n x w"
  using assms by (auto simp: anchored_result_def same_row_def candidate_row_def)

lemma anchored_result_stable: "anchored_result c n x w \<Longrightarrow> world_rel c w w' \<Longrightarrow> anchored_result c n x w'"
  using confirmed_stable world_rel_mono by (auto simp: anchored_result_def)

lemma record_step:
  assumes inv: "world_inv c w" and same: "same_row c n r w" and conf: "confirmed c (pn_provider n) (candidate_row n) w"
    and chk: "check_candidate c trusted r = Inr v"
  shows "world_rel c w (snd (db_commit (verify_and_record_attestation c trusted (pn_dossier r) (pn_envelope r)
    (Some (pn_prior_seq r, pn_prior_head r)) (Some cid)) w))"
proof (rule db_commit_rel [OF inv])
  fix x db assume rec: "verify_and_record_attestation c trusted (pn_dossier r) (pn_envelope r)
    (Some (pn_prior_seq r, pn_prior_head r)) (Some cid) (wo_db w) = Inr (x, db)"
    and g: "no_collisions c w" and sound: "world_sound c w"
  from same g have "candidate_row r = candidate_row n" by (simp add: same_row_def)
  then have "confirmed c (pn_provider r) (candidate_row r) w" using conf by (simp add: candidate_row_def)
  moreover have "verify_independent_runner_attestation c trusted (pn_dossier r) (pn_envelope r) = Inr v"
    "(dossier_provider (pn_dossier r), dossier_run (pn_dossier r), dossier_nonce (pn_dossier r), ar_receipt_sha256 v) =
      (pn_provider r, pn_run r, pn_nonce r, pn_receipt r)"
    "candidate_position c (pn_dossier r) v (pn_prior_seq r, pn_prior_head r) = (pn_seq r, pn_head r)"
    using chk by (auto simp: check_candidate_def bindR_Inr_iff)
  moreover have "wo_db w \<in> world_dbs w" by (simp add: world_dbs_def)
  ultimately show "db_sound c w db" using recorded_sound(1) [OF g sound _ _ _ _ _ rec] by blast
qed

lemma keeps_if: "(b \<Longrightarrow> keeps c p Q w) \<Longrightarrow> (\<not> b \<Longrightarrow> keeps c q Q w) \<Longrightarrow> keeps c (if b then p else q) Q w"
  by simp

lemma keeps_reading: "keeps c (atomP (db_read f)) (\<lambda>_ _. True) w"
  by (rule keeps_read) simp

lemma keeps_pure: "keeps c (liftP r) (\<lambda>x _. r = Inr x) w"
  by (rule guarantees_liftP) simp

lemma keeps_record:
  assumes inv: "world_inv c w" and same: "same_row c n r w" and conf: "confirmed c (pn_provider n) (candidate_row n) w"
    and chk: "check_candidate c trusted r = Inr v"
  shows "keeps c (tryP
     (bindP (atomP (db_commit (verify_and_record_attestation c trusted (pn_dossier r) (pn_envelope r)
         (Some (pn_prior_seq r, pn_prior_head r)) (Some cid)))) (\<lambda>new. liftP (Inr (Some new))))
     (\<lambda>e. bindP (atomP (db_read (\<lambda>db. local_state db (pn_provider r)))) (\<lambda>current.
       if current \<noteq> (pn_seq r, pn_head r) then liftP (Inl e) else liftP (Inr None)))) (\<lambda>_ _. True) w"
proof (rule keeps_try [OF inv], goal_cases)
  case 1
  show ?case
    by (rule keeps_bind [OF inv keeps_commit])
      (use record_step [OF _ same_row_stable [OF same] confirmed_stable [OF conf] chk] in simp_all)
next
  case (2 e w')
  show ?case by (rule keeps_bind [OF 2(2) keeps_reading]) simp
qed

lemma keeps_finalize:
  "world_inv c w \<Longrightarrow> known_staged c n w \<Longrightarrow> confirmed c (pn_provider n) (candidate_row n) w \<Longrightarrow> cid = pn_candidate n \<Longrightarrow>
    keeps c (finalize_pending fuel c cid trusted) (anchored_result c n) w"
proof (induction fuel arbitrary: w)
  case (Suc fuel)
  show ?case
    unfolding finalize_pending.simps
  proof (rule keeps_bind [OF Suc.prems(1) keeps_read_candidate [OF Suc.prems(1,2,4)]], goal_cases)
    case (1 r w1)
    have later: "confirmed c (pn_provider n) (candidate_row n) w2 \<and> known_staged c n w2 \<and> same_row c n r w2" if "world_rel c w1 w2" for w2
      using confirmed_stable [OF confirmed_stable [OF Suc.prems(3) 1(1)] that] same_row_stable [OF 1(3) that]
        known_staged_stable [OF known_staged_stable [OF Suc.prems(2) 1(1)] that] by blast
    have result: "anchored_result c n \<lparr>rp_seq = pn_seq r, rp_head = pn_head r, rp_recovered = b\<rparr> w2" if "world_rel c w1 w2" for b w2
      by (rule same_row_result [of c n r]) (use later [OF that] in simp_all)
    note rel = world_rel_trans [where c = c]
    show ?case
    proof (rule keeps_if [OF _ keeps_bind [OF 1(2) keeps_pure]], goal_cases)
      case (2 v w2)
      show ?case
      proof (rule keeps_bind [OF 2(3) keeps_reading], rule keeps_if, goal_cases)
        case (1 local w3)
        have w3: "world_rel c w1 w3" by (rule rel [OF 2(2) 1(1)])
        show ?case
        proof (rule keeps_bind [OF 1(2) keeps_reading], goal_cases)
          case (1 plan w4)
          have w4: "world_rel c w1 w4" by (rule rel [OF w3 1(1)])
          show ?case
          proof (rule keeps_bind [OF 1(2) keeps_commit], rule confirm_committed_step, assumption, goal_cases)
            case (1 u w5)
            from result [OF rel [OF w4 1(1)]] show ?case by simp
          qed
        qed
      next
        case 22: (2 local w3)
        have w3: "world_rel c w1 w3" by (rule rel [OF 2(2) 22(1)])
        show ?case
        proof (rule keeps_if, simp, rule keeps_bind [OF 22(2) keeps_record [OF 22(2), of n]], goal_cases)
          case (4 recorded w4)
          have w4: "world_rel c w1 w4" by (rule rel [OF w3 4(2)])
          show ?case
          proof (cases recorded)
            case None
            with later [OF w4] Suc.IH [OF 4(3)] Suc.prems(4) show ?thesis by simp
          next
            case (Some new)
            with result [OF w4] show ?thesis by simp
          qed
        qed (use later [OF w3] 2(4) in simp_all)
      qed
    qed simp
  qed
qed simp

lemma keeps_cas:
  assumes inv: "world_inv c w" and n: "known_staged c n w"
  shows "keeps c (attempt_cas lc (pn_provider n) (pn_prior_seq n, pn_prior_head n) (pn_seq n, pn_head n)) (\<lambda>_ _. True) w"
  unfolding attempt_cas_def
proof (rule keeps_try [OF inv keeps_bind [OF inv guarantees_atomP [where Q = "\<lambda>_ _. True"]]], goal_cases)
  case (1 w1)
  have "known_staged c n w1" by (rule known_staged_stable [OF n 1])
  then show ?case using cas_rel [OF world_relD [OF 1]] by (simp add: known_staged_def)
qed simp_all

lemma keeps_anchor: "keeps c (atomP (read_anchor lc p)) (\<lambda>_ _. True) w"
  by (rule keeps_read_anchor) simp_all

lemma keeps_observe: "world_inv c w \<Longrightarrow> keeps c (observe_anchor lc p msg) (\<lambda>_ _. True) w"
  unfolding observe_anchor_def by (rule keeps_try [OF _ keeps_anchor]) simp_all

lemma keeps_conflict: "keeps c (bindP (atomP (db_commit (mark_conflict cid))) (\<lambda>_. liftP (Inl e))) Q w" if "world_inv c w"
  by (rule keeps_bind [OF that keeps_commit]) (simp_all add: mark_conflict_step)

lemma keeps_publish:
  assumes inv: "world_inv c w" and n: "known_staged c n w"
  shows "keeps c (publish_candidate lc n) (\<lambda>_ _. True) w"
  unfolding publish_candidate_def Let_def
proof (rule keeps_bind [OF inv keeps_anchor], rule keeps_if, simp, rule keeps_if, goal_cases)
  case (1 current w1)
  show ?case
  proof (rule keeps_bind [OF 1(2) keeps_cas [OF 1(2) known_staged_stable [OF n 1(1)]]], goal_cases)
    case (1 published w2)
    have "keeps c (bindP (observe_anchor lc (pn_provider n) msg) (\<lambda>observed.
        if observed \<noteq> (pn_seq n, pn_head n) then liftP (raise ReplayAnchorUnavailable msg) else liftP (Inr ()))) (\<lambda>_ _. True) w2" for msg
      by (rule keeps_bind [OF 1(2) keeps_observe [OF 1(2)]]) simp
    moreover have "keeps c (bindP (observe_anchor lc (pn_provider n) msg) (\<lambda>observed. if observed \<noteq> (pn_seq n, pn_head n)
        then bindP (atomP (db_commit (mark_conflict (pn_candidate n)))) (\<lambda>_. liftP (Inl e)) else liftP (Inr ()))) (\<lambda>_ _. True) w2" for msg e
      by (rule keeps_bind [OF 1(2) keeps_observe [OF 1(2)]], rule keeps_if) (simp_all add: keeps_conflict)
    ultimately show ?case by (cases published) (simp_all split: bool.split)
  qed
qed (rule keeps_conflict)

lemma keeps_advance:
  assumes inv: "world_inv c w" and n: "known_staged c n w"
  shows "keeps c (advance_anchor lc n) (\<lambda>_ _. True) w"
  unfolding advance_anchor_def Let_def
proof (rule keeps_bind [OF inv keeps_anchor], rule keeps_if, rule keeps_if, simp, goal_cases)
  case (1 current w1)
  show ?case
  proof (rule keeps_bind [OF 1(2) keeps_cas [OF 1(2) known_staged_stable [OF n 1(1)]]], goal_cases)
    case (1 published w2)
    have "keeps c (bindP (atomP (read_anchor lc (pn_provider n))) (\<lambda>observed.
        if observed \<noteq> (pn_seq n, pn_head n) then liftP (Inl e) else liftP (Inr ()))) (\<lambda>_ _. True) w2" for e
      by (rule keeps_bind [OF 1(2) keeps_anchor]) simp
    then show ?case by (cases published) (simp_all split: bool.split)
  qed
qed simp

lemma keeps_finalize_anchored:
  assumes inv: "world_inv c w" and n: "known_staged c n w"
  shows "keeps c (finalize_anchored fuel c lc trusted n) (anchored_result c n) w"
  unfolding finalize_anchored_def
proof (rule keeps_bind [OF inv keeps_match [OF n]], rule keeps_if, simp, goal_cases)
  case (1 final w1)
  then have "confirmed c (pn_provider n) (candidate_row n) w1" by (simp add: matches_def)
  with 1 keeps_finalize known_staged_stable [OF n 1(1)] show ?case by blast
qed

section \<open>Calls\<close>

datatype replay_call = Register (rc_dossier: json) (rc_envelope: json) | Recover string

text \<open>The promise to a registration: its run id, nonce and receipt have the returned place in the anchored history.\<close>

definition registered :: "crypto \<Rightarrow> (string \<Rightarrow> string option) \<Rightarrow> json \<Rightarrow> json \<Rightarrow> replay_result \<Rightarrow> world \<Rightarrow> bool" where
  "registered c trusted d e x w \<longleftrightarrow> (\<exists>v r. verify_independent_runner_attestation c trusted d e = Inr v \<and>
     (no_collisions c w \<longrightarrow> (rp_seq x, rp_head x) = (jr_seq r, jr_head r)) \<and>
     (jr_provider r, jr_run r, jr_nonce r, jr_receipt r) = (dossier_provider d, dossier_run d, dossier_nonce d, ar_receipt_sha256 v) \<and>
     confirmed c (dossier_provider d) r w)"

fun replay_program :: "nat \<Rightarrow> crypto \<Rightarrow> link_config \<Rightarrow> (string \<Rightarrow> string option) \<Rightarrow> replay_call \<Rightarrow> (world, replay_result) proc" where
  "replay_program fuel c lc trusted (Register d e) = verify_and_record_attestation_pending_anchored fuel c lc trusted d e"
| "replay_program fuel c lc trusted (Recover cid) = recover_pending_attestation fuel c lc trusted cid"

fun replay_promise :: "crypto \<Rightarrow> (string \<Rightarrow> string option) \<Rightarrow> replay_call \<Rightarrow> replay_result \<Rightarrow> world \<Rightarrow> bool" where
  "replay_promise c trusted (Register d e) x w = registered c trusted d e x w"
| "replay_promise c trusted (Recover cid) x w = (\<exists>n. pn_candidate n = cid \<and> anchored_result c n x w)"

fun call_wf :: "replay_call \<Rightarrow> bool" where
  "call_wf (Register d e) = (json_wf d \<and> json_wf e)"
| "call_wf (Recover cid) = True"

lemma anchored_registered:
  assumes "anchored_result c (new_candidate c d e v prior) x w" and "verify_independent_runner_attestation c trusted d e = Inr v"
  shows "registered c trusted d e x w"
proof -
  let ?r = "candidate_row (new_candidate c d e v prior)"
  have "(jr_provider ?r, jr_run ?r, jr_nonce ?r, jr_receipt ?r) = (dossier_provider d, dossier_run d, dossier_nonce d, ar_receipt_sha256 v)"
    "(jr_seq ?r, jr_head ?r) = (pn_seq (new_candidate c d e v prior), pn_head (new_candidate c d e v prior))"
    "pn_provider (new_candidate c d e v prior) = dossier_provider d"
    by (simp_all add: candidate_row_def new_candidate_def)
  with assms show ?thesis unfolding registered_def anchored_result_def by metis
qed

lemma guarantees_weaken: "guarantees p R P s \<Longrightarrow> (\<And>x s. P x s \<Longrightarrow> Q x s) \<Longrightarrow> guarantees p R Q s"
proof (induction p arbitrary: s)
  case (Done r)
  then show ?case by (cases r) simp_all
next
  case (Act g)
  then have "guarantees (snd (g s1)) R Q (fst (g s1))" if "R s s1" for s1
    using that by (intro Act.IH [of "g s1"]) (auto simp: guarantees_Act prod_set_defs)
  with Act.prems(1) show ?case by (auto simp: guarantees_Act)
qed

lemma keeps_new_candidate:
  assumes inv: "world_inv c w" and n: "pending_wf c n"
  shows "keeps c (bindP (atomP (stage_candidate n)) (\<lambda>_. bindP (publish_candidate lc n) (\<lambda>_. finalize_anchored fuel c lc trusted n)))
    (anchored_result c n) w"
proof (rule keeps_bind [OF inv, where P = "\<lambda>_. known_staged c n"], goal_cases)
  case 1
  show ?case by (rule guarantees_atomP) (rule stage_candidate_step [OF world_relD n])
next
  case (2 u w1)
  show ?case
    by (rule keeps_bind [OF 2(2) keeps_publish [OF 2(2,3)]], rule keeps_finalize_anchored)
      (use known_staged_stable [OF 2(3)] in simp_all)
qed

lemma keeps_registration:
  assumes inv: "world_inv c w" and wf: "json_wf d" "json_wf e"
  shows "keeps c (verify_and_record_attestation_pending_anchored fuel c lc trusted d e) (registered c trusted d e) w"
proof (cases "dossier_provider_field d")
  case (JStr p)
  show ?thesis
    unfolding verify_and_record_attestation_pending_anchored_def JStr json.case Let_def
  proof (rule keeps_if, simp, rule keeps_if, simp, rule keeps_if, simp, rule keeps_bind [OF inv keeps_pure], goal_cases)
    case (1 v w1)
    then have v: "verify_independent_runner_attestation c trusted d e = Inr v" by simp
    show ?case
    proof (rule keeps_bind [OF 1(5) keeps_anchor], rule keeps_bind [OF _ keeps_reading], assumption, rule keeps_if, simp, goal_cases)
      case (1 prior w2 local w3)
      show ?case
        by (rule guarantees_weaken [OF keeps_new_candidate [OF 1(5) new_candidate_wf [OF wf]]]) (rule anchored_registered [OF _ v])
    qed
  qed
qed (simp_all add: verify_and_record_attestation_pending_anchored_def)

lemma keeps_recovery:
  assumes inv: "world_inv c w"
  shows "keeps c (recover_pending_attestation fuel c lc trusted cid) (\<lambda>x w. \<exists>n. pn_candidate n = cid \<and> anchored_result c n x w) w"
  unfolding recover_pending_attestation_def
proof (rule keeps_bind [OF inv, where P = "\<lambda>r w. pn_candidate r = cid \<and> known_staged c r w"], rule keeps_read, goal_cases)
  case (1 r w1)
  then have "r \<in> set (rg_pending (wo_db w1))" "pn_candidate r = cid"
    by (auto simp: read_candidate_def split: option.splits dest: lookup_row_SomeD)
  with 1(2) show ?case
    by (auto simp: known_staged_def world_inv_def world_sound_def db_sound_def world_dbs_def)
next
  case (2 r w1)
  then have st: "known_staged c r w2" if "world_rel c w1 w2" for w2 using known_staged_stable that by blast
  show ?case
  proof (rule keeps_if, simp, rule keeps_bind [OF 2(2) keeps_pure], rule keeps_bind [OF _ keeps_advance], assumption, assumption, rule st, assumption, goal_cases)
    case (1 v w2 u w3)
    have "known_staged c r w3" by (rule st [OF world_rel_trans [OF 1(2,5)]])
    then show ?case
      by (rule keeps_bind [OF 1(6) keeps_finalize_anchored [OF 1(6)]])
        (use 2(3) in \<open>auto simp: anchored_result_def intro!: exI [of _ r]\<close>)
  qed
qed

interpretation replay: interference "replay_program fuel c lc trusted" world_disturb "world_inv c" "world_rel c" call_wf
    "replay_promise c trusted" for fuel c lc trusted
proof
  show "replay_promise c trusted l x w'" if "replay_promise c trusted l x w" "world_rel c w w'" for l x w w'
  proof (cases l)
    case (Register d e)
    with that(1) obtain v r where r: "verify_independent_runner_attestation c trusted d e = Inr v"
       "no_collisions c w \<longrightarrow> (rp_seq x, rp_head x) = (jr_seq r, jr_head r)"
       "(jr_provider r, jr_run r, jr_nonce r, jr_receipt r) = (dossier_provider d, dossier_run d, dossier_nonce d, ar_receipt_sha256 v)"
       "confirmed c (dossier_provider d) r w" by (auto simp: registered_def)
    have "registered c trusted d e x w'" unfolding registered_def
      using r confirmed_stable [OF r(4) that(2)] world_rel_mono [OF that(2)] by blast
    then show ?thesis by (simp add: Register)
  next
    case (Recover cid)
    with that show ?thesis using anchored_result_stable by auto
  qed
  show "keeps c (replay_program fuel c lc trusted l) (replay_promise c trusted l) w" if "call_wf l" "world_inv c w" for l w
  proof (cases l)
    case (Register d e)
    with that show ?thesis unfolding Register replay_program.simps
      by (intro guarantees_weaken [OF keeps_registration [OF that(2)]]) simp_all
  next
    case (Recover cid)
    show ?thesis unfolding Recover replay_program.simps
      by (rule guarantees_weaken [OF keeps_recovery [OF that(2)]]) simp
  qed
qed (use world_rel_refl world_relD world_rel_trans world_disturb_rel in blast)+


section \<open>The system\<close>

definition start_world :: "transport list \<Rightarrow> world" where
  "start_world net = \<lparr>wo_db = empty_replay, wo_past = [], wo_anchors = [], wo_net = net, wo_hashed = []\<rparr>"

definition replay_system :: "nat \<Rightarrow> crypto \<Rightarrow> link_config \<Rightarrow> (string \<Rightarrow> string option) \<Rightarrow> transport list \<Rightarrow>
    (replay_call, world_event) happening list \<Rightarrow> (world, replay_call, replay_result) crowd" where
  "replay_system fuel c lc trusted net hs = fold (happen (replay_program fuel c lc trusted) world_disturb) hs (start_world net, [])"

text \<open>The documents of the calls are JSON objects with distinct keys.\<close>

definition launches_wf :: "(replay_call, world_event) happening list \<Rightarrow> bool" where
  "launches_wf hs \<longleftrightarrow> list_all (\<lambda>h. case h of Launch k \<Rightarrow> call_wf k | _ \<Rightarrow> True) hs"

lemma launch_ok_wf: "launches_wf hs \<Longrightarrow> \<forall>h \<in> set hs. replay.launch_ok h"
  by (auto simp: launches_wf_def list_all_iff replay.launch_ok.simps split: happening.splits) (metis happening.exhaust replay.launch_ok.simps)

lemma start_world_inv: "world_inv c (start_world net)"
proof -
  have "anchored c (start_world net) p []" for p
    by (simp add: anchored_def history_def anchor_at_def stands_at_def start_world_def lookup_row_def)
  moreover have "db_sound c (start_world net) empty_replay"
    by (simp add: db_sound_def) (simp add: empty_replay_def journal_of_def)
  ultimately show ?thesis by (auto simp: world_inv_def world_sound_def world_dbs_def start_world_def)
qed

lemma replay_system_rel: "launches_wf hs \<Longrightarrow> world_rel c (start_world net) (fst (replay_system fuel c lc trusted net hs))"
  unfolding replay_system_def by (rule replay.run_guarantees(1) [OF launch_ok_wf start_world_inv])

lemma replay_system_promise:
  assumes "launches_wf hs" and "(k, Done (Inr x)) \<in> set (snd (replay_system fuel c lc trusted net hs))"
  shows "replay_promise c trusted k x (fst (replay_system fuel c lc trusted net hs))"
  using assms(2) unfolding replay_system_def by (rule replay.run_guarantees(2) [OF launch_ok_wf [OF assms(1)] start_world_inv])

text \<open>
  C4: The anchor orders every journal. However registrations and recoveries interleave, crash
  between any two of their transactions and requests, lose requests or responses, and however
  often an earlier content of the database is restored: as long as SHA-256 does not collide
  on the texts hashed, the anchor of each provider commits one history, without repeated run
  ids or nonces; it extends every history the anchor has committed before; and every content
  the database has ever had is consistent and has a prefix of it as its journal.
\<close>

theorem anchor_orders_every_journal:
  assumes "launches_wf hs" and "no_collisions c (fst (replay_system fuel c lc trusted net hs))"
  shows "\<exists>H. anchored c (fst (replay_system fuel c lc trusted net hs)) p H \<and>
    (\<forall>k H0. anchored c (fst (replay_system fuel c lc trusted net (take k hs))) p H0 \<longrightarrow> prefix H0 H) \<and>
    (\<forall>db \<in> world_dbs (fst (replay_system fuel c lc trusted net hs)). registry_inv c db \<and> prefix (journal_of db p) H)"
proof -
  let ?w = "\<lambda>hs. fst (replay_system fuel c lc trusted net hs)"
  have "world_inv c (?w hs)" by (rule world_relD [OF replay_system_rel [OF assms(1)]])
  with assms(2) have sound: "world_sound c (?w hs)" by (simp add: world_inv_def)
  then obtain H where H: "anchored c (?w hs) p H" by (auto simp: world_sound_def)
  moreover have "prefix H0 H" if "anchored c (?w (take k hs)) p H0" for k H0
  proof -
    have "world_rel c (?w (take k hs)) (?w (take k hs @ drop k hs))"
      unfolding replay_system_def by (rule replay.run_later [OF _ start_world_inv]) (use launch_ok_wf [OF assms(1)] in simp)
    with assms(2) that H show ?thesis by (simp add: world_rel_def)
  qed
  ultimately show ?thesis using sound by (auto simp: world_sound_def db_sound_def)
qed

text \<open>
  C5: A receipt has one place. If two registrations of a provider that share the run id or
  the nonce both return, whatever happened before, between and after them, then they return
  the same sequence number and the same head for the same receipt.
\<close>

theorem one_place_per_receipt:
  assumes "launches_wf hs" and "no_collisions c (fst (replay_system fuel c lc trusted net hs))"
    and "(Register d e, Done (Inr x)) \<in> set (snd (replay_system fuel c lc trusted net hs))"
    and "(Register d' e', Done (Inr x')) \<in> set (snd (replay_system fuel c lc trusted net hs))"
    and "dossier_provider d' = dossier_provider d" and "dossier_run d' = dossier_run d \<or> dossier_nonce d' = dossier_nonce d"
  shows "rp_seq x' = rp_seq x \<and> rp_head x' = rp_head x \<and>
    map_sum id ar_receipt_sha256 (verify_independent_runner_attestation c trusted d' e') =
    map_sum id ar_receipt_sha256 (verify_independent_runner_attestation c trusted d e)"
proof -
  let ?w = "fst (replay_system fuel c lc trusted net hs)" and ?p = "dossier_provider d"
  have "registered c trusted d e x ?w" "registered c trusted d' e' x' ?w"
    using replay_system_promise [OF assms(1,3)] replay_system_promise [OF assms(1,4)] by simp_all
  with assms(2,5) obtain v r v' r' H H' where
    v: "verify_independent_runner_attestation c trusted d e = Inr v" "verify_independent_runner_attestation c trusted d' e' = Inr v'"
    and x: "(rp_seq x, rp_head x) = (jr_seq r, jr_head r)" "(rp_seq x', rp_head x') = (jr_seq r', jr_head r')"
    and r: "jr_run r = dossier_run d" "jr_nonce r = dossier_nonce d" "jr_receipt r = ar_receipt_sha256 v"
    and r': "jr_run r' = dossier_run d'" "jr_nonce r' = dossier_nonce d'" "jr_receipt r' = ar_receipt_sha256 v'"
    and H: "anchored c ?w ?p H" "r \<in> set H" and H': "anchored c ?w ?p H'" "r' \<in> set H'"
    unfolding registered_def confirmed_def by fastforce
  have "H' = H" by (rule anchored_unique [OF assms(2) H'(1) H(1)])
  moreover have "inj_on jr_run (set H)" "inj_on jr_nonce (set H)"
    using H(1) by (simp_all add: anchored_def history_def distinct_map)
  ultimately have "r' = r" using assms(6) H(2) H'(2) r r' by (metis inj_onD)
  with v x r r' show ?thesis by simp
qed

end
