(* ===== verification/PendingLive.thy ===== *)
theory PendingLive
  imports PendingRuns
begin

text \<open>
  The pending-first protocol when nothing interferes: a registration whose receipt verifies
  and is new is accepted and anchored, and a registration that crashed after its candidate
  was staged, before or after the anchor moved, is completed by one recovery. The concrete
  runs of the concurrent theorems are made of such runs.
\<close>

section \<open>A service that answers\<close>

definition reachable_anchor :: "link_config \<Rightarrow> string \<Rightarrow> world \<Rightarrow> int \<times> string \<Rightarrow> bool" where
  "reachable_anchor lc p w s \<longleftrightarrow> lc_client_token lc = lc_service_token lc \<and> anchor_route p \<and> wo_net w = [] \<and>
     key_unique an_provider (wo_anchors w) \<and>
     (\<exists>a. lookup_row an_provider (wo_anchors w) p = Some a \<and> valid_anchor_row a \<and> (an_seq a, an_head a) = s)"

lemma reachable_anchor_moved [simp]: "reachable_anchor lc p (moved w db) s = reachable_anchor lc p w s"
  by (simp add: reachable_anchor_def moved_def)

lemma exchange_delivered: "wo_net w = [] \<Longrightarrow> exchange f w = (Some (fst (f (wo_anchors w))), w\<lparr>wo_anchors := snd (f (wo_anchors w))\<rparr>)"
  by (cases w) (simp add: exchange_def Let_def split_beta)

lemma anchor_answer:
  assumes "valid_anchor_row a"
  shows "validate_anchor p (JObj [(''head_sha256'', JStr (an_head a)), (''provider_id'', JStr p), (''sequence'', JInt (an_seq a))]) =
    Inr (an_seq a, an_head a)"
  using assms by (simp add: validate_anchor_def json_get_Cons valid_anchor_row_def insert_commute)

lemma read_anchor_reachable:
  assumes "reachable_anchor lc p w s"
  shows "read_anchor lc p w = (Inr s, w)"
proof -
  from assms obtain a where a: "lookup_row an_provider (wo_anchors w) p = Some a" "valid_anchor_row a" "s = (an_seq a, an_head a)"
    and c: "lc_client_token lc = lc_service_token lc" "anchor_route p" "wo_net w = []" by (auto simp: reachable_anchor_def)
  have "get_anchor lc p w = (Inr (JObj [(''head_sha256'', JStr (an_head a)), (''provider_id'', JStr p), (''sequence'', JInt (an_seq a))]), w)"
    using c a by (simp add: get_anchor_def exchange_delivered service_get_def anchor_answer anchor_route_def)
  then show ?thesis by (simp add: read_anchor_def a(3) anchor_answer [OF a(2)])
qed

lemma cas_reachable:
  assumes r: "reachable_anchor lc p w prior" and new: "fst new = fst prior + 1" "is_digest (snd new)"
  obtains w' where "compare_and_set_anchor lc p prior new w = (Inr True, w')" and "reachable_anchor lc p w' new"
    and "wo_db w' = wo_db w" and "wo_hashed w' = wo_hashed w" and "wo_past w' = wo_past w"
proof -
  from r obtain a where a: "lookup_row an_provider (wo_anchors w) p = Some a" "valid_anchor_row a" "prior = (an_seq a, an_head a)"
    and c: "lc_client_token lc = lc_service_token lc" "anchor_route p" "wo_net w = []" "key_unique an_provider (wo_anchors w)"
    by (auto simp: reachable_anchor_def)
  let ?hit = "\<lambda>b. an_provider b = p \<and> an_seq b = an_seq a \<and> an_head b = an_head a"
  let ?as = "update_where ?hit (\<lambda>b. b\<lparr>an_seq := fst new, an_head := snd new\<rparr>) (wo_anchors w)"
  have "an_provider a = p" "a \<in> set (wo_anchors w)" using a(1) lookup_row_SomeD by metis+
  have one: "count_where ?hit (wo_anchors w) = 1"
    using count_where_key [OF c(4), of p "\<lambda>b. an_seq b = an_seq a \<and> an_head b = an_head a"] a(1) by simp
  have "compare_and_set_anchor lc p prior new w = (Inr True, w\<lparr>wo_anchors := ?as\<rparr>)"
    using new a c one by (simp add: compare_and_set_anchor_def exchange_delivered service_cas_def Let_def valid_anchor_row_def anchor_route_def)
  moreover have "reachable_anchor lc p (w\<lparr>wo_anchors := ?as\<rparr>) new"
    using a c new \<open>an_provider a = p\<close> by (cases new) (auto simp: reachable_anchor_def lookup_row_update_where valid_anchor_row_def)
  ultimately show thesis by (rule that) simp_all
qed


section \<open>Undisturbed runs\<close>

lemma db_commit_Inr: "f (wo_db w) = Inr (x, db) \<Longrightarrow> db_commit f w = (Inr x, moved w db)"
  by (simp add: db_commit_def commitS_def moved_def)

lemma db_read_apply [simp]: "db_read f w = (f (wo_db w), w)"
  by (simp add: db_read_def)

lemma local_state_ok:
  assumes "registry_inv c db"
  shows "local_state db p = Inr (journal_at db p)"
proof -
  from assms have ok: "provider_ok c db p" by (simp add: registry_inv_def)
  show ?thesis
  proof (cases "provider_state db p")
    case None
    with provider_state_ok(2) [OF ok None] no_legacy [OF ok None] show ?thesis by (auto simp: local_state_def legacy_rows_def)
  next
    case (Some s)
    with provider_state_ok(1) [OF ok Some] show ?thesis by (auto simp: local_state_def journal_at_def)
  qed
qed

lemma check_candidateD:
  assumes "check_candidate c trusted n = Inr v"
  shows "verify_independent_runner_attestation c trusted (pn_dossier n) (pn_envelope n) = Inr v"
    and "dossier_provider (pn_dossier n) = pn_provider n" and "dossier_run (pn_dossier n) = pn_run n"
    and "dossier_nonce (pn_dossier n) = pn_nonce n" and "ar_receipt_sha256 v = pn_receipt n"
    and "candidate_position c (pn_dossier n) v (pn_prior_seq n, pn_prior_head n) = (pn_seq n, pn_head n)"
  using assms by (auto simp: check_candidate_def bindR_Inr_iff)

text \<open>A candidate the local database can accept.\<close>

definition acceptable :: "crypto \<Rightarrow> (string \<Rightarrow> string option) \<Rightarrow> pending_row \<Rightarrow> replay_db \<Rightarrow> bool" where
  "acceptable c trusted n db \<longleftrightarrow> registry_inv c db \<and> key_unique pn_candidate (rg_pending db) \<and>
     lookup_row pn_candidate (rg_pending db) (pn_candidate n) = Some n \<and> pn_status n = Prepared \<and>
     (\<exists>v. check_candidate c trusted n = Inr v) \<and> journal_at db (pn_provider n) = (pn_prior_seq n, pn_prior_head n) \<and>
     \<not> seen_before db (pn_provider n) (pn_run n) (pn_nonce n)"

lemma acceptable_recorded:
  assumes "acceptable c trusted n db"
  obtains db' where "verify_and_record_attestation c trusted (pn_dossier n) (pn_envelope n) (Some (pn_prior_seq n, pn_prior_head n))
      (Some (pn_candidate n)) db = Inr ((pn_seq n, pn_head n), db')"
    and "journal_of db' (pn_provider n) = journal_of db (pn_provider n) @ [candidate_row n]"
proof -
  let ?p = "pn_provider n" and ?d = "pn_dossier n" and ?e = "pn_envelope n"
  from assms obtain v where inv: "registry_inv c db" and u: "key_unique pn_candidate (rg_pending db)"
    and row: "lookup_row pn_candidate (rg_pending db) (pn_candidate n) = Some n" "pn_status n = Prepared"
    and chk: "check_candidate c trusted n = Inr v" and at: "journal_at db ?p = (pn_prior_seq n, pn_prior_head n)"
    and fresh: "\<not> seen_before db ?p (pn_run n) (pn_nonce n)" by (auto simp: acceptable_def)
  note v = check_candidateD [OF chk]
  have pos: "pn_seq n = pn_prior_seq n + 1" "pn_head n = next_head c db ?d v"
    using v at by (auto simp: candidate_position_def candidate_event_def next_head_def)
  let ?hit = "\<lambda>r. pn_candidate r = pn_candidate n \<and> pn_provider r = ?p \<and> pn_run r = pn_run n \<and> pn_nonce r = pn_nonce n \<and>
           pn_receipt r = pn_receipt n \<and> pn_seq r = pn_seq n \<and> pn_head r = pn_head n \<and> pn_status r \<in> {Prepared}"
  have one: "count_where ?hit (rg_pending db) = 1"
    using count_where_key [OF u, of "pn_candidate n" "\<lambda>r. pn_provider r = ?p \<and> pn_run r = pn_run n \<and> pn_nonce r = pn_nonce n \<and>
           pn_receipt r = pn_receipt n \<and> pn_seq r = pn_seq n \<and> pn_head r = pn_head n \<and> pn_status r \<in> {Prepared}"] row by simp
  let ?db = "(recorded c ?d ?e v db)\<lparr>rg_pending := update_where ?hit (\<lambda>r. r\<lparr>pn_status := Finalized\<rparr>) (rg_pending db)\<rparr>"
  have "finalize_row (pn_candidate n) ?p (pn_run n) (pn_nonce n) (pn_receipt n) (pn_seq n) (pn_head n) {Prepared}
      AttestationReplayRegistryError ''pending_candidate_not_finalizable_in_acceptance_transaction'' (recorded c ?d ?e v db) = Inr ?db"
    using one by (simp add: finalize_row_def Let_def recorded_views)
  then have "verify_and_record_attestation c trusted ?d ?e (Some (pn_prior_seq n, pn_prior_head n)) (Some (pn_candidate n)) db =
      Inr ((pn_seq n, pn_head n), ?db)"
    using fresh unfolding verify_and_record_attestation_def record_equation [OF inv] v(1) by (simp add: Let_def v at pos)
  moreover have "next_row c db ?d v = candidate_row n" using v at pos by (simp add: next_row_def candidate_row_def Let_def)
  then have "journal_of ?db ?p = journal_of db ?p @ [candidate_row n]" by (simp add: recorded_views v)
  ultimately show thesis by (rule that)
qed

lemma finalize_acceptable:
  assumes "acceptable c trusted n (wo_db w)"
  obtains db' where "runP (finalize_pending (Suc fuel) c (pn_candidate n) trusted) w =
      (Inr \<lparr>rp_seq = pn_seq n, rp_head = pn_head n, rp_recovered = False\<rparr>, moved w db')"
    and "journal_of db' (pn_provider n) = journal_of (wo_db w) (pn_provider n) @ [candidate_row n]"
proof -
  obtain db' where rec: "verify_and_record_attestation c trusted (pn_dossier n) (pn_envelope n) (Some (pn_prior_seq n, pn_prior_head n))
      (Some (pn_candidate n)) (wo_db w) = Inr ((pn_seq n, pn_head n), db')"
    and j: "journal_of db' (pn_provider n) = journal_of (wo_db w) (pn_provider n) @ [candidate_row n]"
    by (rule acceptable_recorded [OF assms])
  from assms obtain v where "registry_inv c (wo_db w)"
    and row: "lookup_row pn_candidate (rg_pending (wo_db w)) (pn_candidate n) = Some n" "pn_status n = Prepared"
    and chk: "check_candidate c trusted n = Inr v" and at: "journal_at (wo_db w) (pn_provider n) = (pn_prior_seq n, pn_prior_head n)"
    by (auto simp: acceptable_def)
  then have ls: "local_state (wo_db w) (pn_provider n) = Inr (pn_prior_seq n, pn_prior_head n)" using local_state_ok by simp
  have com: "db_commit (verify_and_record_attestation c trusted (pn_dossier n) (pn_envelope n) (Some (pn_prior_seq n, pn_prior_head n))
      (Some (pn_candidate n))) w = (Inr (pn_seq n, pn_head n), moved w db')" by (rule db_commit_Inr) (rule rec)
  have "pn_seq n \<noteq> pn_prior_seq n" using check_candidateD(6) [OF chk] by (auto simp: candidate_position_def)
  then have "runP (finalize_pending (Suc fuel) c (pn_candidate n) trusted) w =
      (Inr \<lparr>rp_seq = pn_seq n, rp_head = pn_head n, rp_recovered = False\<rparr>, moved w db')"
    by (simp add: bindS_def tryS_def read_candidate_def row chk ls com if_distrib [of runP])
  from this j show thesis by (rule that)
qed


lemma finalize_anchored_run:
  assumes "acceptable c trusted n (wo_db w)" and "reachable_anchor lc (pn_provider n) w (pn_seq n, pn_head n)"
  obtains db' where "runP (finalize_anchored (Suc fuel) c lc trusted n) w =
      (Inr \<lparr>rp_seq = pn_seq n, rp_head = pn_head n, rp_recovered = False\<rparr>, moved w db')"
    and "journal_of db' (pn_provider n) = journal_of (wo_db w) (pn_provider n) @ [candidate_row n]"
proof (rule finalize_acceptable [OF assms(1)])
  fix db' assume "runP (finalize_pending (Suc fuel) c (pn_candidate n) trusted) w =
      (Inr \<lparr>rp_seq = pn_seq n, rp_head = pn_head n, rp_recovered = False\<rparr>, moved w db')"
    and j: "journal_of db' (pn_provider n) = journal_of (wo_db w) (pn_provider n) @ [candidate_row n]"
  then have "runP (finalize_anchored (Suc fuel) c lc trusted n) w =
      (Inr \<lparr>rp_seq = pn_seq n, rp_head = pn_head n, rp_recovered = False\<rparr>, moved w db')"
    by (simp add: finalize_anchored_def bindS_def read_anchor_reachable [OF assms(2)])
  from that [OF this j] show thesis .
qed

lemma candidate_moves: "check_candidate c trusted n = Inr v \<Longrightarrow> pn_seq n = pn_prior_seq n + 1"
  using check_candidateD(6) [of c trusted n v] by (simp add: candidate_position_def)

lemma attempt_cas_run:
  assumes "reachable_anchor lc (pn_provider n) w (pn_prior_seq n, pn_prior_head n)" and "pn_seq n = pn_prior_seq n + 1" "is_digest (pn_head n)"
  obtains w' where "runP (attempt_cas lc (pn_provider n) (pn_prior_seq n, pn_prior_head n) (pn_seq n, pn_head n)) w = (Inr (Some True), w')"
    and "reachable_anchor lc (pn_provider n) w' (pn_seq n, pn_head n)" and "wo_db w' = wo_db w" and "wo_hashed w' = wo_hashed w"
proof (rule cas_reachable [OF assms(1), of "(pn_seq n, pn_head n)"])
  fix w' assume "compare_and_set_anchor lc (pn_provider n) (pn_prior_seq n, pn_prior_head n) (pn_seq n, pn_head n) w = (Inr True, w')"
    and r: "reachable_anchor lc (pn_provider n) w' (pn_seq n, pn_head n)" "wo_db w' = wo_db w" "wo_hashed w' = wo_hashed w"
  then have "runP (attempt_cas lc (pn_provider n) (pn_prior_seq n, pn_prior_head n) (pn_seq n, pn_head n)) w = (Inr (Some True), w')"
    by (simp add: attempt_cas_def bindS_def tryS_def)
  then show thesis using r by (rule that)
qed (use assms in simp_all)

lemma publish_run:
  assumes "reachable_anchor lc (pn_provider n) w (pn_prior_seq n, pn_prior_head n)" and "pn_seq n = pn_prior_seq n + 1" "is_digest (pn_head n)"
  obtains w' where "runP (publish_candidate lc n) w = (Inr (), w')"
    and "reachable_anchor lc (pn_provider n) w' (pn_seq n, pn_head n)" and "wo_db w' = wo_db w" and "wo_hashed w' = wo_hashed w"
proof (rule attempt_cas_run [OF assms])
  fix w' assume "runP (attempt_cas lc (pn_provider n) (pn_prior_seq n, pn_prior_head n) (pn_seq n, pn_head n)) w = (Inr (Some True), w')"
    and r: "reachable_anchor lc (pn_provider n) w' (pn_seq n, pn_head n)" "wo_db w' = wo_db w" "wo_hashed w' = wo_hashed w"
  then have "runP (publish_candidate lc n) w = (Inr (), w')"
    by (simp add: publish_candidate_def Let_def bindS_def read_anchor_reachable [OF assms(1)] assms(2))
  then show thesis using r by (rule that)
qed

text \<open>
  C16: A crashed registration is recovered. A candidate is staged and the process died, before
  the anchor moved or after; the local journal still stands at the candidate's prior state,
  its evidence verifies, its run id and nonce are new and the anchor answers. Then one
  undisturbed recovery returns the candidate's position, appends exactly its row to the
  journal, and the anchor stands at that position.
\<close>

theorem crashed_registration_is_recovered:
  assumes "acceptable c trusted n (wo_db w)" and "is_digest (pn_head n)"
    and "reachable_anchor lc (pn_provider n) w (pn_prior_seq n, pn_prior_head n) \<or> reachable_anchor lc (pn_provider n) w (pn_seq n, pn_head n)"
  shows "\<exists>w'. runP (recover_pending_attestation (Suc fuel) c lc trusted (pn_candidate n)) w =
      (Inr \<lparr>rp_seq = pn_seq n, rp_head = pn_head n, rp_recovered = True\<rparr>, w') \<and>
    journal_of (wo_db w') (pn_provider n) = journal_of (wo_db w) (pn_provider n) @ [candidate_row n] \<and>
    reachable_anchor lc (pn_provider n) w' (pn_seq n, pn_head n)"
proof -
  from assms(1) obtain v where row: "lookup_row pn_candidate (rg_pending (wo_db w)) (pn_candidate n) = Some n" "pn_status n = Prepared"
    and chk: "check_candidate c trusted n = Inr v" by (auto simp: acceptable_def)
  note step = candidate_moves [OF chk]
  obtain w1 where adv: "runP (advance_anchor lc n) w = (Inr (), w1)" and r: "reachable_anchor lc (pn_provider n) w1 (pn_seq n, pn_head n)"
    and db: "wo_db w1 = wo_db w"
  proof (cases "reachable_anchor lc (pn_provider n) w (pn_seq n, pn_head n)")
    case True
    then have "runP (advance_anchor lc n) w = (Inr (), w)"
      using step by (simp add: advance_anchor_def Let_def bindS_def read_anchor_reachable)
    then show thesis using True by (rule that) simp
  next
    case False
    with assms(3) have prior: "reachable_anchor lc (pn_provider n) w (pn_prior_seq n, pn_prior_head n)" by simp
    show thesis
    proof (rule attempt_cas_run [OF prior step assms(2)])
      fix w' assume "runP (attempt_cas lc (pn_provider n) (pn_prior_seq n, pn_prior_head n) (pn_seq n, pn_head n)) w = (Inr (Some True), w')"
        and r: "reachable_anchor lc (pn_provider n) w' (pn_seq n, pn_head n)" "wo_db w' = wo_db w"
      then have "runP (advance_anchor lc n) w = (Inr (), w')"
        by (simp add: advance_anchor_def Let_def bindS_def read_anchor_reachable [OF prior] row)
      then show thesis using r by (rule that)
    qed
  qed
  show ?thesis
  proof (rule finalize_anchored_run [OF _ r])
    fix db' assume "runP (finalize_anchored (Suc fuel) c lc trusted n) w1 =
        (Inr \<lparr>rp_seq = pn_seq n, rp_head = pn_head n, rp_recovered = False\<rparr>, moved w1 db')"
      and "journal_of db' (pn_provider n) = journal_of (wo_db w1) (pn_provider n) @ [candidate_row n]"
    then show ?thesis using r by (simp add: recover_pending_attestation_def bindS_def read_candidate_def row chk adv db) (simp add: moved_def)
  qed (use assms(1) db in simp)
qed


section \<open>An undisturbed registration\<close>

lemma new_candidate_simps [simp]:
  "pn_provider (new_candidate c d e v prior) = dossier_provider d" "pn_run (new_candidate c d e v prior) = dossier_run d"
  "pn_nonce (new_candidate c d e v prior) = dossier_nonce d" "pn_receipt (new_candidate c d e v prior) = ar_receipt_sha256 v"
  "pn_prior_seq (new_candidate c d e v prior) = fst prior" "pn_prior_head (new_candidate c d e v prior) = snd prior"
  "pn_seq (new_candidate c d e v prior) = fst prior + 1" "pn_dossier (new_candidate c d e v prior) = d"
  "pn_envelope (new_candidate c d e v prior) = e" "pn_status (new_candidate c d e v prior) = Prepared"
  "pn_head (new_candidate c d e v prior) = snd (candidate_position c d v prior)"
  by (simp_all add: new_candidate_def candidate_position_def)

lemma new_candidate_checked:
  "verify_independent_runner_attestation c trusted d e = Inr v \<Longrightarrow> check_candidate c trusted (new_candidate c d e v prior) = Inr v"
  by (simp add: check_candidate_def candidate_position_def)

lemma new_candidate_acceptable:
  assumes "verify_independent_runner_attestation c trusted d e = Inr v" and "registry_inv c db" and "rg_pending db = [new_candidate c d e v prior]"
    and "journal_at db (dossier_provider d) = prior" and "\<not> seen_before db (dossier_provider d) (dossier_run d) (dossier_nonce d)"
  shows "acceptable c trusted (new_candidate c d e v prior) db"
  using assms new_candidate_checked [OF assms(1)] by (auto simp: acceptable_def key_unique_def lookup_row_def)

lemma registration_run:
  assumes inv: "registry_inv c (wo_db w)" and none: "rg_pending (wo_db w) = []"
    and d: "is_dict d" "is_dict e" "is_dict (json_get (dict_items d) ''runner'')" "dossier_provider_field d = JStr (dossier_provider d)"
      "dossier_provider d \<noteq> []"
    and v: "verify_independent_runner_attestation c trusted d e = Inr v"
    and r: "reachable_anchor lc (dossier_provider d) w (journal_at (wo_db w) (dossier_provider d))"
    and fresh: "\<not> seen_before (wo_db w) (dossier_provider d) (dossier_run d) (dossier_nonce d)"
    and hd: "is_digest (snd (candidate_position c d v (journal_at (wo_db w) (dossier_provider d))))"
  obtains x w' where "runP (verify_and_record_attestation_pending_anchored (Suc fuel) c lc trusted d e) w = (Inr x, w')"
    and "wo_hashed w' = journal_text (candidate_event d v (journal_at (wo_db w) (dossier_provider d))) #
      pending_text (new_candidate c d e v (journal_at (wo_db w) (dossier_provider d))) # wo_hashed w"
proof -
  let ?p = "dossier_provider d"
  let ?prior = "journal_at (wo_db w) ?p"
  let ?n = "new_candidate c d e v ?prior"
  let ?db = "(wo_db w)\<lparr>rg_pending := [?n]\<rparr>"
  let ?w = "w\<lparr>wo_hashed := journal_text (pending_event ?n) # pending_text ?n # wo_hashed w\<rparr>"
  from inv have ok: "provider_ok c (wo_db w) ?p" by (simp add: registry_inv_def)
  have state: "(case provider_state (wo_db w) ?p of Some s \<Rightarrow> Inr s
       | None \<Rightarrow> if legacy_rows (wo_db w) ?p then raise AttestationReplayRegistryError ''replay_registry_legacy_state_requires_migration''
           else Inr (0, genesis_hash)) = Inr ?prior"
    using no_legacy [OF ok] provider_state_ok [OF ok] by (auto split: option.splits)
  have "persist_pending ?n (wo_db w) = Inr ((), ?db)"
    unfolding persist_pending_def Let_def new_candidate_simps state bindR.simps
    using fresh seen_accepted [OF ok] by (simp add: none lookup_row_def del: table_views)
  then have stage: "stage_candidate ?n w = (Inr (), moved ?w ?db)"
    unfolding stage_candidate_def by (intro db_commit_Inr) simp
  have r1: "reachable_anchor lc (pn_provider ?n) (moved ?w ?db) (pn_prior_seq ?n, pn_prior_head ?n)"
    using r by (simp add: reachable_anchor_def moved_def)
  have step: "pn_seq ?n = pn_prior_seq ?n + 1" "is_digest (pn_head ?n)" using hd by simp_all
  have acc: "acceptable c trusted ?n ?db" using v inv fresh by (intro new_candidate_acceptable) (simp_all add: seen_before_def)
  show thesis
  proof (rule publish_run [OF r1 step])
    fix w1 assume pub: "runP (publish_candidate lc ?n) (moved ?w ?db) = (Inr (), w1)"
      and r2: "reachable_anchor lc (pn_provider ?n) w1 (pn_seq ?n, pn_head ?n)"
      and w1: "wo_db w1 = wo_db (moved ?w ?db)" "wo_hashed w1 = wo_hashed (moved ?w ?db)"
    show thesis
    proof (rule finalize_anchored_run [OF _ r2])
      show "acceptable c trusted ?n (wo_db w1)" using acc w1 by (simp add: moved_def)
      fix db' assume fin: "runP (finalize_anchored (Suc fuel) c lc trusted ?n) w1 =
          (Inr \<lparr>rp_seq = pn_seq ?n, rp_head = pn_head ?n, rp_recovered = False\<rparr>, moved w1 db')"
      have "runP (verify_and_record_attestation_pending_anchored (Suc fuel) c lc trusted d e) w =
          (Inr \<lparr>rp_seq = pn_seq ?n, rp_head = pn_head ?n, rp_recovered = False\<rparr>, moved w1 db')"
        unfolding verify_and_record_attestation_pending_anchored_def d(4) json.case Let_def
        using d v by (simp add: bindS_def read_anchor_reachable [OF r] local_state_ok [OF inv] stage pub fin)
      then show thesis
      proof (rule that)
        have "pending_event ?n = candidate_event d v ?prior" by (simp add: pending_event_def candidate_event_def)
        then show "wo_hashed (moved w1 db') = journal_text (candidate_event d v ?prior) # pending_text ?n # wo_hashed w" using w1 by simp
      qed
    qed
  qed
qed

text \<open>A process alone in the system.\<close>

lemma run_alone: "\<exists>k. fold (happen program disturb) (replicate k (Advance 0)) (s, [(l, p)]) = (snd (runP p s), [(l, Done (fst (runP p s)))])"
proof (induction p arbitrary: s)
  case (Done r)
  show ?case by (rule exI [of _ 0]) simp
next
  case (Act g)
  obtain k where "fold (happen program disturb) (replicate k (Advance 0)) (fst (g s), [(l, snd (g s))]) =
      (snd (runP (snd (g s)) (fst (g s))), [(l, Done (fst (runP (snd (g s)) (fst (g s)))))])"
    using Act.IH [of "g s" "snd (g s)" "fst (g s)"] by (auto simp: prod_set_defs)
  then show ?case by (intro exI [of _ "Suc k"]) (simp add: runP_Act split_beta)
qed


section \<open>Concrete runs\<close>

definition lab_link :: link_config where
  "lab_link = \<lparr>lc_service_token = ''t'', lc_client_token = ''t''\<rparr>"

definition lab_verdict :: attested where
  "lab_verdict = \<lparr>ar_key_id = ''kid'', ar_run_id = ''r'', ar_experiment_id = ''e'', ar_receipt_sha256 = demo_hash\<rparr>"

definition lab_start :: world where
  "lab_start = (start_world [])\<lparr>wo_anchors := [\<lparr>an_provider = ''p'', an_seq = 0, an_head = genesis_hash\<rparr>]\<rparr>"

lemma lab_fields: "dossier_provider lab_dossier = ''p''" "dossier_run lab_dossier = ''r''" "dossier_nonce lab_dossier = ''n''"
  "dossier_provider_field lab_dossier = JStr ''p''" "is_dict lab_dossier" "is_dict (json_get (dict_items lab_dossier) ''runner'')"
  by (simp_all add: dossier_provider_def dossier_run_def dossier_nonce_def dossier_provider_field_def sub_field_def lab_dossier_def json_get_Cons text_of_def)

lemma lab_envelope_dict: "is_dict lab_envelope"
  by (simp add: lab_envelope_eq)

lemma lab_envelope_wf: "json_wf lab_envelope"
  unfolding lab_envelope_eq lab_receipt_def lab_dossier_def lab_safety_def by code_simp

lemma genesis_digest: "is_digest genesis_hash"
  by (simp add: genesis_hash_def is_digest_def lower_hex_def char_code_def list_all_iff)

lemma lab_start_reachable: "reachable_anchor lab_link ''p'' lab_start (0, genesis_hash)"
  using genesis_digest by (simp add: reachable_anchor_def lab_link_def lab_start_def start_world_def anchor_route_def key_unique_def
      lookup_row_def valid_anchor_row_def)

lemma lab_journal_hash [simp]: "lab_hash (journal_text event) = demo_hash"
  by (simp add: lab_hash_def journal_text_def journal_domain_def)

lemma lab_pending_hash [simp]: "lab_hash (pending_text n) = pending_hash"
  by (simp add: lab_hash_def pending_text_def candidate_text_def)

lemma lab_sha: "cr_sha256 lab_crypto = lab_hash"
  by (simp add: lab_crypto_def)

lemma lab_start_db: "wo_db lab_start = empty_replay" "wo_hashed lab_start = []"
  by (simp_all add: lab_start_def start_world_def)

lemma empty_journal: "journal_at empty_replay p = (0, genesis_hash)" "\<not> seen_before empty_replay p run nonce"
  by (simp_all add: journal_at_def seen_before_def journal_of_def empty_replay_def)

lemma empty_pending [simp]: "rg_pending empty_replay = []"
  by (simp add: empty_replay_def)

lemma lab_verified: "verify_independent_runner_attestation lab_crypto lab_keys lab_dossier lab_envelope = Inr lab_verdict"
  by (simp add: lab_attested lab_verdict_def)

lemma lab_history:
  obtains k x w where "replay_system (Suc 0) lab_crypto lab_link lab_keys [] (Disturb (Provision ''p'') # Launch (Register lab_dossier lab_envelope) #
      replicate k (Advance 0)) = (w, [(Register lab_dossier lab_envelope, Done (Inr x))])"
    and "no_collisions lab_crypto w"
proof -
  let ?call = "Register lab_dossier lab_envelope"
  note at = lab_start_db lab_fields empty_journal
  have dg: "is_digest (snd (candidate_position lab_crypto lab_dossier lab_verdict (0, genesis_hash)))"
    by (simp add: candidate_position_def journal_hash_def lab_sha demo_hash_digest)
  have "\<exists>x w. runP (verify_and_record_attestation_pending_anchored (Suc 0) lab_crypto lab_link lab_keys lab_dossier lab_envelope) lab_start = (Inr x, w) \<and>
     wo_hashed w = [journal_text (candidate_event lab_dossier lab_verdict (0, genesis_hash)),
      pending_text (new_candidate lab_crypto lab_dossier lab_envelope lab_verdict (0, genesis_hash))]"
    by (rule registration_run [of lab_crypto lab_start lab_dossier lab_envelope lab_keys lab_verdict lab_link 0])
      (use dg in \<open>simp_all add: at lab_envelope_dict lab_start_reachable lab_verified\<close>)
  then obtain x w where run: "runP (replay_program (Suc 0) lab_crypto lab_link lab_keys ?call) lab_start = (Inr x, w)"
    and hashed: "wo_hashed w = [journal_text (candidate_event lab_dossier lab_verdict (0, genesis_hash)),
      pending_text (new_candidate lab_crypto lab_dossier lab_envelope lab_verdict (0, genesis_hash))]" by auto
  obtain k where k: "fold (happen (replay_program (Suc 0) lab_crypto lab_link lab_keys) world_disturb) (replicate k (Advance 0))
      (lab_start, [(?call, replay_program (Suc 0) lab_crypto lab_link lab_keys ?call)]) = (w, [(?call, Done (Inr x))])"
    using run_alone [of "replay_program (Suc 0) lab_crypto lab_link lab_keys" world_disturb lab_start ?call
      "replay_program (Suc 0) lab_crypto lab_link lab_keys ?call"] run unfolding run fst_conv snd_conv by blast
  have "world_disturb (Provision ''p'') (start_world []) = lab_start"
    by (simp add: provision_anchor_def start_world_def lab_start_def lookup_row_def)
  with k have "replay_system (Suc 0) lab_crypto lab_link lab_keys [] (Disturb (Provision ''p'') # Launch ?call # replicate k (Advance 0)) =
      (w, [(?call, Done (Inr x))])" by (simp add: replay_system_def del: world_disturb.simps replay_program.simps)
  moreover have "demo_hash \<noteq> genesis_hash" "pending_hash \<noteq> genesis_hash" "demo_hash \<noteq> pending_hash"
    by (simp_all add: demo_hash_def pending_hash_def genesis_hash_def numeral_eq_Suc)
  then have "no_collisions lab_crypto w" by (auto simp: no_collisions_def digest_good_on_def hashed lab_sha)
  ultimately show thesis by (rule that)
qed

lemma lab_launches: "launches_wf (Disturb (Provision ''p'') # Launch (Register lab_dossier lab_envelope) # replicate k (Advance 0))"
  by (simp add: launches_wf_def lab_wf lab_envelope_wf list_all_iff)

theorem anchor_orders_every_journal_witness:
  "\<exists>hs H. Launch (Register lab_dossier lab_envelope) \<in> set hs \<and> no_collisions lab_crypto (fst (replay_system (Suc 0) lab_crypto lab_link lab_keys [] hs)) \<and>
     anchored lab_crypto (fst (replay_system (Suc 0) lab_crypto lab_link lab_keys [] hs)) ''p'' H \<and>
     prefix (journal_of (wo_db (fst (replay_system (Suc 0) lab_crypto lab_link lab_keys [] hs))) ''p'') H"
proof -
  obtain k x w where sys: "replay_system (Suc 0) lab_crypto lab_link lab_keys [] (Disturb (Provision ''p'') # Launch (Register lab_dossier lab_envelope) #
      replicate k (Advance 0)) = (w, [(Register lab_dossier lab_envelope, Done (Inr x))])" and g: "no_collisions lab_crypto w"
    by (rule lab_history)
  from anchor_orders_every_journal [OF lab_launches [of k], of lab_crypto "Suc 0" lab_link lab_keys "[]" "''p''"] g
  obtain H where "anchored lab_crypto w ''p'' H" "\<forall>db \<in> world_dbs w. prefix (journal_of db ''p'') H" by (auto simp: sys)
  with g show ?thesis
    by (intro exI [of _ "Disturb (Provision ''p'') # Launch (Register lab_dossier lab_envelope) # replicate k (Advance 0)"] exI [of _ H])
      (simp add: sys world_dbs_def)
qed

lemma one_result:
  assumes "(k, Done (Inr x)) \<in> M" and "\<And>x'. (k, Done (Inr x')) \<in> M \<Longrightarrow> rp_seq x' = rp_seq x \<and> rp_head x' = rp_head x"
  shows "{(rp_seq x', rp_head x') | x'. (k, Done (Inr x')) \<in> M} = {(rp_seq x, rp_head x)}"
proof (rule antisym; rule subsetI)
  fix s assume "s \<in> {(rp_seq x', rp_head x') | x'. (k, Done (Inr x')) \<in> M}"
  then obtain x' where "s = (rp_seq x', rp_head x')" and m: "(k, Done (Inr x')) \<in> M" unfolding mem_Collect_eq by (elim exE conjE) 
  with assms(2) [OF m] show "s \<in> {(rp_seq x, rp_head x)}" by simp
next
  fix s assume "s \<in> {(rp_seq x, rp_head x)}"
  then have "s = (rp_seq x, rp_head x) \<and> (k, Done (Inr x)) \<in> M" using assms(1) by simp
  then show "s \<in> {(rp_seq x', rp_head x') | x'. (k, Done (Inr x')) \<in> M}" unfolding mem_Collect_eq by (rule exI)
qed

theorem one_place_per_receipt_witness:
  "\<exists>hs (x :: replay_result). {(rp_seq x', rp_head x') | x'. (Register lab_dossier lab_envelope, Done (Inr x')) \<in>
     set (snd (replay_system (Suc 0) lab_crypto lab_link lab_keys [] hs))} = {(rp_seq x, rp_head x)}"
proof -
  obtain k x w where sys: "replay_system (Suc 0) lab_crypto lab_link lab_keys [] (Disturb (Provision ''p'') # Launch (Register lab_dossier lab_envelope) #
      replicate k (Advance 0)) = (w, [(Register lab_dossier lab_envelope, Done (Inr x))])" and g: "no_collisions lab_crypto w"
    by (rule lab_history)
  let ?hs = "Disturb (Provision ''p'') # Launch (Register lab_dossier lab_envelope) # replicate k (Advance 0)"
  have "rp_seq x' = rp_seq x \<and> rp_head x' = rp_head x"
    if "(Register lab_dossier lab_envelope, Done (Inr x')) \<in> set (snd (replay_system (Suc 0) lab_crypto lab_link lab_keys [] ?hs))" for x'
    using one_place_per_receipt [OF lab_launches [of k], of lab_crypto "Suc 0" lab_link lab_keys "[]" lab_dossier lab_envelope x lab_dossier lab_envelope x']
      g that by (simp add: sys)
  moreover have "(Register lab_dossier lab_envelope, Done (Inr x)) \<in> set (snd (replay_system (Suc 0) lab_crypto lab_link lab_keys [] ?hs))"
    by (simp add: sys)
  ultimately have "{(rp_seq x', rp_head x') | x'. (Register lab_dossier lab_envelope, Done (Inr x')) \<in>
     set (snd (replay_system (Suc 0) lab_crypto lab_link lab_keys [] ?hs))} = {(rp_seq x, rp_head x)}"
    by (rule one_result [rotated])
  then have "\<exists>x :: replay_result. {(rp_seq x', rp_head x') | x'. (Register lab_dossier lab_envelope, Done (Inr x')) \<in>
     set (snd (replay_system (Suc 0) lab_crypto lab_link lab_keys [] ?hs))} = {(rp_seq x, rp_head x)}" by (rule exI [of _ x])
  then show ?thesis by (rule exI [of _ ?hs])
qed

definition lab_candidate :: pending_row where
  "lab_candidate = new_candidate lab_crypto lab_dossier lab_envelope lab_verdict (0, genesis_hash)"

text \<open>Staged and anchored, then the process died.\<close>

definition lab_crashed :: world where
  "lab_crashed = (start_world [])\<lparr>wo_db := empty_replay\<lparr>rg_pending := [lab_candidate]\<rparr>,
     wo_anchors := [\<lparr>an_provider = ''p'', an_seq = 1, an_head = demo_hash\<rparr>]\<rparr>"

theorem crashed_registration_is_recovered_witness:
  "\<exists>w'. runP (recover_pending_attestation (Suc 0) lab_crypto lab_link lab_keys (pn_candidate lab_candidate)) lab_crashed =
      (Inr \<lparr>rp_seq = 1, rp_head = demo_hash, rp_recovered = True\<rparr>, w') \<and>
    journal_of (wo_db w') ''p'' = [candidate_row lab_candidate]"
proof -
  have pos: "candidate_position lab_crypto lab_dossier lab_verdict (0, genesis_hash) = (1, demo_hash)"
    by (simp add: candidate_position_def journal_hash_def lab_sha)
  have n: "pn_provider lab_candidate = ''p''" "pn_seq lab_candidate = 1" "pn_head lab_candidate = demo_hash"
    by (simp_all add: lab_candidate_def lab_fields pos)
  have "acceptable lab_crypto lab_keys lab_candidate (wo_db lab_crashed)"
    unfolding lab_candidate_def lab_crashed_def
    by (rule new_candidate_acceptable)
      (simp_all add: lab_verified lab_fields empty_journal seen_before_def start_world_def, simp_all add: empty_replay_def journal_of_def)
  moreover have "reachable_anchor lab_link (pn_provider lab_candidate) lab_crashed (pn_seq lab_candidate, pn_head lab_candidate)"
    unfolding n by (simp add: reachable_anchor_def lab_link_def lab_crashed_def start_world_def anchor_route_def key_unique_def
      lookup_row_def valid_anchor_row_def demo_hash_digest)
  ultimately obtain w' where "runP (recover_pending_attestation (Suc 0) lab_crypto lab_link lab_keys (pn_candidate lab_candidate)) lab_crashed =
      (Inr \<lparr>rp_seq = pn_seq lab_candidate, rp_head = pn_head lab_candidate, rp_recovered = True\<rparr>, w')"
    "journal_of (wo_db w') (pn_provider lab_candidate) = journal_of (wo_db lab_crashed) (pn_provider lab_candidate) @ [candidate_row lab_candidate]"
    using crashed_registration_is_recovered [of lab_crypto lab_keys lab_candidate lab_crashed lab_link 0] n(3) demo_hash_digest(1) by metis
  moreover have "journal_of (wo_db lab_crashed) p = []" for p by (simp add: lab_crashed_def) (simp add: journal_of_def empty_replay_def)
  ultimately show ?thesis unfolding n by auto
qed

end
