(* ===== verification/Attestation.thy ===== *)
theory Attestation
  imports Dossier
begin

text \<open>
  Portable attestations of a reproduction (\<^verbatim>\<open>src/shared/attestation.py\<close>): the signed payload
  and its offline verification. Reading the artifact files is an argument of the
  verification; the dict of check flags is left out, status and reason determine it.
\<close>

section \<open>Digests and verdicts\<close>

definition attestation_verdicts :: "string list" where
  "attestation_verdicts = [''REPRODUCED'', ''NOT_REPRODUCED'', ''INCONCLUSIVE'', ''OUT_OF_SCOPE'']"

definition attestation_schema :: string where
  "attestation_schema = ''aegisforge-attestation-v1''"

text \<open>What \<^verbatim>\<open>int(value, 16)\<close> reads: a sign, a prefix and single underscores between digits are allowed.\<close>

definition any_hex :: "char \<Rightarrow> bool" where
  "any_hex ch \<longleftrightarrow> lower_hex ch \<or> (65 \<le> char_code ch \<and> char_code ch \<le> 70)"

fun hex_run :: "bool \<Rightarrow> string \<Rightarrow> bool" where
  "hex_run digit_before [] = digit_before"
| "hex_run digit_before (ch # s) = (if any_hex ch then hex_run True s else ch = CHR ''_'' \<and> digit_before \<and> hex_run False s)"

definition reads_base16 :: "string \<Rightarrow> bool" where
  "reads_base16 s =
    (let t = strip s; u = (if take 1 t = ''+'' \<or> take 1 t = ''-'' then drop 1 t else t) in
     if take 2 u = ''0x'' \<or> take 2 u = ''0X''
     then hex_run False (if take 1 (drop 2 u) = ''_'' then drop 3 u else drop 2 u)
     else hex_run False u)"

definition looks_like_sha256 :: "json \<Rightarrow> bool" where
  "looks_like_sha256 v = (case v of JStr s \<Rightarrow> length s = 64 \<and> reads_base16 s | _ \<Rightarrow> False)"

section \<open>Signing\<close>

definition unsigned_part :: "(string \<times> json) list \<Rightarrow> (string \<times> json) list" where
  "unsigned_part kvs = filter (\<lambda>(k, _). k \<notin> {''attestation_id'', ''signature''}) kvs"

definition signed_part :: "(string \<times> json) list \<Rightarrow> (string \<times> json) list" where
  "signed_part kvs = filter (\<lambda>(k, _). k \<noteq> ''signature'') kvs"

definition validate_object :: "json \<Rightarrow> string list \<Rightarrow> string \<Rightarrow> (string \<times> json) list result" where
  "validate_object v required err = (case v of
      JObj kvs \<Rightarrow> if set required \<subseteq> set (map fst kvs) then Inr kvs else raise AttestationError err
    | _ \<Rightarrow> raise AttestationError err)"

definition is_list :: "json \<Rightarrow> bool" where
  "is_list v = (case v of JArr _ \<Rightarrow> True | _ \<Rightarrow> False)"

definition command_list :: "json \<Rightarrow> bool" where
  "command_list v = (case v of JArr cs \<Rightarrow> list_all (\<lambda>k. case k of JArr args \<Rightarrow> all_texts args | _ \<Rightarrow> False) cs | _ \<Rightarrow> False)"

definition validate_construction :: "json \<Rightarrow> json \<Rightarrow> json \<Rightarrow> json \<Rightarrow> json \<Rightarrow> json \<Rightarrow> json \<Rightarrow> unit result" where
  "validate_construction case_ref finding_ref reproduction verdict rationale key_id organization =
     bindR (validate_object case_ref [''case_id'', ''case_digest'', ''target_repository'', ''target_commit'', ''scope_url'', ''scope_digest'']
       ''invalid_case_ref'') (\<lambda>cs.
     bindR (validate_object finding_ref [''finding_id'', ''claim'', ''affected_component'', ''source_locations'', ''impact_path'']
       ''invalid_finding_ref'') (\<lambda>finding.
     bindR (validate_object reproduction [''reproduction_contract_sha256'', ''commands'', ''environment'', ''network_access'', ''artifacts'',
         ''started_at'', ''completed_at'', ''exit_code''] ''invalid_reproduction'') (\<lambda>repro.
     bindR (ensure (looks_like_sha256 (json_get cs ''case_digest'') \<and> looks_like_sha256 (json_get cs ''scope_digest''))
       AttestationError ''invalid_case_digest'') (\<lambda>_.
     bindR (ensure (looks_like_sha256 (json_get repro ''reproduction_contract_sha256'')) AttestationError
       ''invalid_reproduction_contract_digest'') (\<lambda>_.
     bindR (ensure (is_list (json_get finding ''source_locations'')) AttestationError ''invalid_source_locations'') (\<lambda>_.
     bindR (ensure (command_list (json_get repro ''commands'')) AttestationError ''invalid_reproduction_commands'') (\<lambda>_.
     bindR (ensure (is_dict (json_get repro ''environment'')) AttestationError ''invalid_reproduction_environment'') (\<lambda>_.
     bindR (ensure (is_list (json_get repro ''artifacts'')) AttestationError ''invalid_reproduction_artifacts'') (\<lambda>_.
     bindR (ensure (is_bool (json_get repro ''network_access'')) AttestationError ''invalid_network_access'') (\<lambda>_.
     bindR (ensure (is_integer (json_get repro ''exit_code'')) AttestationError ''invalid_exit_code'') (\<lambda>_.
     bindR (ensure (verdict \<in> JStr ` set attestation_verdicts) AttestationError ''verdict_not_allowed'') (\<lambda>_.
     case rationale of
       JStr r \<Rightarrow>
        bindR (ensure (length (utf8 r) \<le> 8192) AttestationError ''verdict_rationale_too_long'') (\<lambda>_.
        bindR (ensure (is_text key_id \<and> truthy key_id) AttestationError ''invalid_key_id'') (\<lambda>_.
        ensure (is_text organization \<and> truthy organization) AttestationError ''invalid_organization''))
     | _ \<Rightarrow> raise AttestationError ''invalid_verdict_rationale''))))))))))))"

text \<open>The payload with its id; the signature goes between \<^verbatim>\<open>schema_version\<close> and \<^verbatim>\<open>signer\<close>.\<close>

definition attestation_unsigned :: "crypto \<Rightarrow> json \<Rightarrow> json \<Rightarrow> json \<Rightarrow> json \<Rightarrow> json \<Rightarrow> string \<Rightarrow> json \<Rightarrow> json \<Rightarrow> string \<Rightarrow>
    (string \<times> json) list" where
  "attestation_unsigned c case_ref finding_ref reproduction verdict rationale key key_id organization issued_at =
     [(''case_ref'', case_ref), (''finding_ref'', finding_ref), (''issued_at'', JStr issued_at), (''reproduction'', reproduction),
      (''schema_version'', JStr attestation_schema),
      (''signer'', JObj [(''key_id'', key_id), (''organization'', organization), (''public_key'', JStr (cr_b64encode c (cr_public c key)))]),
      (''verdict'', verdict), (''verdict_rationale'', rationale)]"

definition with_id :: "crypto \<Rightarrow> (string \<times> json) list \<Rightarrow> (string \<times> json) list" where
  "with_id c unsigned = (''attestation_id'', JStr (cr_sha256 c (canonical_text (JObj unsigned)))) # unsigned"

definition with_signature :: "crypto \<Rightarrow> string \<Rightarrow> (string \<times> json) list \<Rightarrow> (string \<times> json) list" where
  "with_signature c key kvs =
     takeWhile (\<lambda>(k, _). k \<noteq> ''signer'') kvs @
     (''signature'', JObj [(''algorithm'', JStr ''Ed25519''),
        (''value'', JStr (cr_b64encode c (cr_sign c key (canonical_text (JObj kvs)))))]) #
     dropWhile (\<lambda>(k, _). k \<noteq> ''signer'') kvs"

definition sign_attestation :: "crypto \<Rightarrow> json \<Rightarrow> json \<Rightarrow> json \<Rightarrow> json \<Rightarrow> json \<Rightarrow> string \<Rightarrow> json \<Rightarrow> json \<Rightarrow> string \<Rightarrow> json result" where
  "sign_attestation c case_ref finding_ref reproduction verdict rationale key key_id organization issued_at =
     bindR (validate_construction case_ref finding_ref reproduction verdict rationale key_id organization) (\<lambda>_.
     bindR (ensure (length key = 32) AttestationError ''private_key_must_be_ed25519_key_or_32_bytes'') (\<lambda>_.
     bindR (ensure (issued_at \<noteq> [] \<and> cr_parse_time c (replace_z issued_at) \<noteq> Unreadable) AttestationError ''invalid_issued_at'') (\<lambda>_.
     Inr (JObj (with_signature c key (with_id c
       (attestation_unsigned c case_ref finding_ref reproduction verdict rationale key key_id organization issued_at)))))))"

section \<open>Verifying\<close>

record attestation_verification =
  vn_status :: string
  vn_reason :: string
  vn_id :: "string option"

definition attestation_result :: "string \<Rightarrow> string \<Rightarrow> json \<Rightarrow> attestation_verification" where
  "attestation_result status reason i = \<lparr>vn_status = status, vn_reason = reason, vn_id = (case i of JStr s \<Rightarrow> Some s | _ \<Rightarrow> None)\<rparr>"

text \<open>The signature check; every exception of it means a tampered payload.\<close>

definition attestation_signature_ok :: "crypto \<Rightarrow> string \<Rightarrow> json \<Rightarrow> (string \<times> json) list \<Rightarrow> bool" where
  "attestation_signature_ok c public signature kvs =
    (case (if ''value'' \<in> set (map fst (dict_items signature)) then json_get (dict_items signature) ''value'' else JStr []) of
       JStr v \<Rightarrow> (case cr_b64decode c v of
           None \<Rightarrow> False
         | Some sg \<Rightarrow> cr_public_ok c public \<and> cr_verify c public sg (canonical_text (JObj (signed_part kvs))))
     | _ \<Rightarrow> False)"

definition advertised_key :: "crypto \<Rightarrow> json \<Rightarrow> string option" where
  "advertised_key c v = (case v of
      JStr s \<Rightarrow> (case cr_b64decode c s of Some raw \<Rightarrow> if length raw = 32 then Some raw else None | None \<Rightarrow> None)
    | _ \<Rightarrow> None)"

text \<open>\<open>files\<close> is the check of the artifact files under the given root, if one is given.\<close>

definition check_artifacts :: "json \<Rightarrow> json \<Rightarrow> (json \<Rightarrow> (string \<times> string) result) option \<Rightarrow> json \<Rightarrow> attestation_verification" where
  "check_artifacts i reproduction files payload =
    (if \<not> is_dict reproduction \<or> \<not> is_list (json_get (dict_items reproduction) ''artifacts'')
     then attestation_result ''INVALID'' ''invalid_reproduction_artifacts'' i
     else (case files of
        None \<Rightarrow> if truthy (json_get (dict_items reproduction) ''artifacts'') then attestation_result ''INCOMPLETE'' ''artifact_root_required'' i
          else attestation_result ''VALID'' ''ok'' i
      | Some check \<Rightarrow> (case check payload of
           Inl e \<Rightarrow> attestation_result ''INVALID'' (exc_msg e) i
         | Inr (status, reason) \<Rightarrow> if status \<noteq> ''VALID'' then attestation_result status reason i else attestation_result ''VALID'' ''ok'' i)))"

definition verify_attestation :: "crypto \<Rightarrow> json \<Rightarrow> (string \<Rightarrow> string option) \<Rightarrow> string option \<Rightarrow>
    (json \<Rightarrow> (string \<times> string) result) option \<Rightarrow> attestation_verification" where
  "verify_attestation c payload trusted expected files = (case payload of
      JObj kvs \<Rightarrow>
       (let i = json_get kvs ''attestation_id''; signer = json_get kvs ''signer''; signature = json_get kvs ''signature'' in
        if json_get kvs ''schema_version'' \<noteq> JStr attestation_schema then attestation_result ''INVALID'' ''unsupported_schema_version'' i
        else if json_get kvs ''verdict'' \<notin> JStr ` set attestation_verdicts then attestation_result ''INVALID'' ''verdict_not_allowed'' i
        else if i \<noteq> JStr (cr_sha256 c (canonical_text (JObj (unsigned_part kvs)))) then attestation_result ''TAMPERED'' ''attestation_id_mismatch'' i
        else if \<not> is_dict signer \<or> \<not> is_dict signature then attestation_result ''INVALID'' ''signer_or_signature_missing'' i
        else if json_get (dict_items signature) ''algorithm'' \<noteq> JStr ''Ed25519''
        then attestation_result ''INVALID'' ''signature_algorithm_not_allowed'' i
        else (case (case json_get (dict_items signer) ''key_id'' of JStr k \<Rightarrow> trusted k | _ \<Rightarrow> None) of
           None \<Rightarrow> attestation_result ''UNTRUSTED'' ''untrusted_key'' i
         | Some public \<Rightarrow>
            (case advertised_key c (json_get (dict_items signer) ''public_key'') of
               None \<Rightarrow> attestation_result ''INVALID'' ''invalid_public_key'' i
             | Some advertised \<Rightarrow>
                 if length public \<noteq> 32 then attestation_result ''INVALID'' ''invalid_public_key'' i
                 else if advertised \<noteq> public then attestation_result ''UNTRUSTED'' ''public_key_mismatch'' i
                 else if \<not> attestation_signature_ok c public signature kvs then attestation_result ''TAMPERED'' ''signature_invalid'' i
                 else if \<not> is_dict (json_get kvs ''case_ref'') then attestation_result ''INVALID'' ''invalid_case_ref'' i
                 else if (case expected of None \<Rightarrow> False | Some d \<Rightarrow> \<not> looks_like_sha256 (JStr d) \<or>
                      json_get (dict_items (json_get kvs ''case_ref'')) ''case_digest'' \<noteq> JStr d)
                 then attestation_result ''INVALID'' ''case_digest_mismatch'' i
                 else check_artifacts i (json_get kvs ''reproduction'') files payload)))
    | _ \<Rightarrow> attestation_result ''INVALID'' ''invalid_payload'' JNull)"

end
