(* ===== verification/Merkle.thy ===== *)
theory Merkle
  imports Attestation
begin

text \<open>
  The portable Merkle registry of signed attestations (\<^verbatim>\<open>src/shared/attestation_registry.py\<close>):
  snapshots, their append-only chain, inclusion proofs and signed checkpoints. Hashes are
  texts of hexadecimal digits, node texts join their bytes.
\<close>

section \<open>The tree\<close>

record merkle_entry =
  me_index :: int
  me_id :: string
  me_sha :: string
  me_case :: string
  me_verdict :: string
  me_issued :: string
  me_key :: string

definition entry_json :: "merkle_entry \<Rightarrow> json" where
  "entry_json e = JObj [(''attestation_id'', JStr (me_id e)), (''attestation_sha256'', JStr (me_sha e)), (''case_digest'', JStr (me_case e)),
     (''index'', JInt (me_index e)), (''issued_at'', JStr (me_issued e)), (''key_id'', JStr (me_key e)), (''verdict'', JStr (me_verdict e))]"

text \<open>\<^verbatim>\<open>bytes.fromhex\<close>.\<close>

fun hex_bytes :: "string \<Rightarrow> string" where
  "hex_bytes (a # b # s) = char_of (16 * unhex a + unhex b) # hex_bytes s"
| "hex_bytes _ = []"

definition leaf_text :: "json \<Rightarrow> string" where
  "leaf_text entry = CHR 0x00 # canonical_text entry"

definition node_text :: "string \<Rightarrow> string \<Rightarrow> string" where
  "node_text l r = CHR 0x01 # hex_bytes l @ hex_bytes r"

definition leaf_hash :: "crypto \<Rightarrow> json \<Rightarrow> string" where
  "leaf_hash c entry = cr_sha256 c (leaf_text entry)"

definition parent_hash :: "crypto \<Rightarrow> string \<Rightarrow> string \<Rightarrow> string" where
  "parent_hash c l r = cr_sha256 c (node_text l r)"

definition empty_root :: "crypto \<Rightarrow> string" where
  "empty_root c = cr_sha256 c ''AegisForge attestation registry empty root v1''"

text \<open>One round of the loop: an odd level repeats its last hash.\<close>

definition pad_level :: "string list \<Rightarrow> string list" where
  "pad_level level = (if odd (length level) then level @ [last level] else level)"

fun hash_pairs :: "crypto \<Rightarrow> string list \<Rightarrow> string list" where
  "hash_pairs c (l # r # rest) = parent_hash c l r # hash_pairs c rest"
| "hash_pairs c _ = []"

definition level_up :: "crypto \<Rightarrow> string list \<Rightarrow> string list" where
  "level_up c level = hash_pairs c (pad_level level)"

lemma length_hash_pairs [simp]: "length (hash_pairs c level) = length level div 2"
  by (induction c level rule: hash_pairs.induct) auto

lemma length_level_up [simp]: "length (level_up c level) = (length level + 1) div 2"
  by (simp add: level_up_def pad_level_def)

function merkle_top :: "crypto \<Rightarrow> string list \<Rightarrow> string" where
  "merkle_top c level = (if length level \<le> 1 then hd level else merkle_top c (level_up c level))"
  by pat_completeness auto
termination by (relation "measure (\<lambda>(c, level). length level)") auto

declare merkle_top.simps [simp del]

definition merkle_root :: "crypto \<Rightarrow> json list \<Rightarrow> string" where
  "merkle_root c entries = (if entries = [] then empty_root c else merkle_top c (map (leaf_hash c) entries))"

section \<open>Snapshots\<close>

abbreviation registry_error :: "string \<Rightarrow> 'a result" where
  "registry_error msg \<equiv> raise AttestationRegistryError msg"

definition valid_hash :: "json \<Rightarrow> bool" where
  "valid_hash v = (case v of JStr s \<Rightarrow> is_digest s | _ \<Rightarrow> False)"

definition entry_metadata_fields :: "string set" where
  "entry_metadata_fields = {''attestation_id'', ''attestation_sha256'', ''case_digest'', ''verdict'', ''issued_at'', ''key_id''}"

definition normalize_entry :: "json \<Rightarrow> int \<Rightarrow> merkle_entry result" where
  "normalize_entry entry index = (case entry of
      JObj e \<Rightarrow>
       (if set (map fst e) \<noteq> insert ''index'' entry_metadata_fields \<and> set (map fst e) \<noteq> entry_metadata_fields
        then registry_error ''registry_entry_fields_invalid''
        else if ''index'' \<in> set (map fst e) \<and> json_get e ''index'' \<noteq> JInt index then registry_error ''registry_entry_index_invalid''
        else if \<not> valid_hash (json_get e ''attestation_id'') then registry_error ''registry_attestation_id_invalid''
        else if \<not> valid_hash (json_get e ''attestation_sha256'') then registry_error ''registry_attestation_digest_invalid''
        else if \<not> valid_hash (json_get e ''case_digest'') then registry_error ''registry_case_digest_invalid''
        else if json_get e ''verdict'' \<notin> JStr ` set attestation_verdicts then registry_error ''registry_verdict_not_allowed''
        else if \<not> is_text (json_get e ''issued_at'') \<or> \<not> truthy (json_get e ''issued_at'') then registry_error ''registry_issued_at_invalid''
        else if \<not> is_text (json_get e ''key_id'') \<or> \<not> truthy (json_get e ''key_id'') then registry_error ''registry_key_id_invalid''
        else Inr \<lparr>me_index = index, me_id = text_of (json_get e ''attestation_id''), me_sha = text_of (json_get e ''attestation_sha256''),
          me_case = text_of (json_get e ''case_digest''), me_verdict = text_of (json_get e ''verdict''),
          me_issued = text_of (json_get e ''issued_at''), me_key = text_of (json_get e ''key_id'')\<rparr>)
    | _ \<Rightarrow> registry_error ''registry_entry_must_be_object'')"

fun normalize_entries :: "int \<Rightarrow> json list \<Rightarrow> merkle_entry list result" where
  "normalize_entries n [] = Inr []"
| "normalize_entries n (x # xs) = bindR (normalize_entry x n) (\<lambda>e. bindR (normalize_entries (n + 1) xs) (\<lambda>es. Inr (e # es)))"

definition entry_from_attestation :: "crypto \<Rightarrow> json \<Rightarrow> json result" where
  "entry_from_attestation c attestation = (case attestation of
      JObj a \<Rightarrow>
       (if \<not> is_dict (json_get a ''case_ref'') \<or> \<not> is_dict (json_get a ''signer'')
        then registry_error ''attestation_case_or_signer_missing''
        else (let metadata = [(''attestation_id'', json_get a ''attestation_id''),
            (''attestation_sha256'', JStr (cr_sha256 c (canonical_text attestation))),
            (''case_digest'', json_get (dict_items (json_get a ''case_ref'')) ''case_digest''), (''issued_at'', json_get a ''issued_at''),
            (''key_id'', json_get (dict_items (json_get a ''signer'')) ''key_id''), (''verdict'', json_get a ''verdict'')]
          in bindR (normalize_entry (JObj metadata) 0) (\<lambda>_. Inr (JObj metadata))))
    | _ \<Rightarrow> registry_error ''attestation_payload_must_be_object'')"

definition validate_checkpoint :: "json \<Rightarrow> unit result" where
  "validate_checkpoint checkpoint =
    (if is_dict checkpoint \<and> set (map fst (dict_items checkpoint)) = {''size'', ''merkle_root'', ''registry_sha256''} \<and>
        (case json_get (dict_items checkpoint) ''size'' of JInt n \<Rightarrow> 0 \<le> n | _ \<Rightarrow> False) \<and>
        valid_hash (json_get (dict_items checkpoint) ''merkle_root'') \<and> valid_hash (json_get (dict_items checkpoint) ''registry_sha256'')
     then Inr () else registry_error ''previous_checkpoint_invalid'')"

definition merkle_schema :: string where
  "merkle_schema = ''aegisforge-attestation-registry-v1''"

definition merkle_tree :: string where
  "merkle_tree = ''domain-separated-sha256-duplicate-last-v1''"

definition registry_json :: "crypto \<Rightarrow> merkle_entry list \<Rightarrow> json \<Rightarrow> json" where
  "registry_json c es previous = JObj [(''entries'', JArr (map entry_json es)), (''hash_algorithm'', JStr ''SHA-256''),
     (''merkle_root'', JStr (merkle_root c (map entry_json es))), (''previous_checkpoint'', previous),
     (''schema_version'', JStr merkle_schema), (''size'', JInt (int (length es))), (''tree_algorithm'', JStr merkle_tree)]"

text \<open>\<open>previous\<close> is \<open>JNull\<close> for None.\<close>

definition build_registry :: "crypto \<Rightarrow> json list \<Rightarrow> json \<Rightarrow> json result" where
  "build_registry c entries previous = bindR (normalize_entries 0 entries) (\<lambda>es.
     bindR (ensure (distinct (map me_id es)) AttestationRegistryError ''duplicate_attestation_id'') (\<lambda>_.
     bindR (if previous = JNull then Inr () else validate_checkpoint previous) (\<lambda>_.
     Inr (registry_json c es previous))))"

definition registry_sha256 :: "crypto \<Rightarrow> json \<Rightarrow> string" where
  "registry_sha256 c registry = cr_sha256 c (canonical_text registry)"

record merkle_snapshot =
  ms_size :: int
  ms_root :: string
  ms_sha :: string

definition verify_registry :: "crypto \<Rightarrow> json \<Rightarrow> merkle_snapshot result" where
  "verify_registry c registry = (case registry of
      JObj r \<Rightarrow>
       (if set (map fst r) \<noteq> {''schema_version'', ''hash_algorithm'', ''tree_algorithm'', ''size'', ''entries'', ''merkle_root'', ''previous_checkpoint''}
        then registry_error ''registry_fields_invalid''
        else if json_get r ''schema_version'' \<noteq> JStr merkle_schema then registry_error ''unsupported_registry_schema''
        else if json_get r ''hash_algorithm'' \<noteq> JStr ''SHA-256'' then registry_error ''unsupported_registry_hash_algorithm''
        else if json_get r ''tree_algorithm'' \<noteq> JStr merkle_tree then registry_error ''unsupported_registry_tree_algorithm''
        else (case (json_get r ''entries'', json_get r ''size'') of
           (JArr entries, JInt sz) \<Rightarrow>
            (if sz \<noteq> int (length entries) then registry_error ''registry_size_mismatch''
             else bindR (normalize_entries 0 entries) (\<lambda>es.
               if \<not> distinct (map me_id es) then registry_error ''duplicate_attestation_id''
               else if json_get r ''merkle_root'' \<noteq> JStr (merkle_root c (map entry_json es))
               then registry_error ''registry_merkle_root_mismatch''
               else bindR (if json_get r ''previous_checkpoint'' = JNull then Inr ()
                   else validate_checkpoint (json_get r ''previous_checkpoint'')) (\<lambda>_.
                 Inr \<lparr>ms_size = int (length entries), ms_root = merkle_root c (map entry_json es), ms_sha = registry_sha256 c registry\<rparr>)))
         | _ \<Rightarrow> registry_error ''registry_entries_or_size_invalid''))
    | _ \<Rightarrow> registry_error ''registry_must_be_object'')"

definition checkpoint_json :: "merkle_snapshot \<Rightarrow> json" where
  "checkpoint_json s = JObj [(''merkle_root'', JStr (ms_root s)), (''registry_sha256'', JStr (ms_sha s)), (''size'', JInt (ms_size s))]"

definition checkpoint_for :: "crypto \<Rightarrow> json \<Rightarrow> json result" where
  "checkpoint_for c registry = bindR (verify_registry c registry) (\<lambda>s. Inr (checkpoint_json s))"

definition registry_entries :: "json \<Rightarrow> json list" where
  "registry_entries registry = (case json_get (dict_items registry) ''entries'' of JArr es \<Rightarrow> es | _ \<Rightarrow> [])"

definition verify_registry_chain :: "crypto \<Rightarrow> json \<Rightarrow> json \<Rightarrow> (merkle_snapshot \<times> merkle_snapshot) result" where
  "verify_registry_chain c registry previous =
     bindR (verify_registry c registry) (\<lambda>current.
     bindR (verify_registry c previous) (\<lambda>past.
     bindR (checkpoint_for c previous) (\<lambda>expected.
     if \<not> py_eq (json_get (dict_items registry) ''previous_checkpoint'') expected then registry_error ''previous_checkpoint_mismatch''
     else if ms_size current \<le> ms_size past then registry_error ''registry_did_not_append''
     else if \<not> py_eq (JArr (take (nat (ms_size past)) (registry_entries registry))) (JArr (registry_entries previous))
     then registry_error ''registry_prefix_changed''
     else Inr (current, past))))"

section \<open>Inclusion proofs\<close>

function merkle_siblings :: "crypto \<Rightarrow> nat \<Rightarrow> string list \<Rightarrow> string list" where
  "merkle_siblings c index level = (if length level \<le> 1 then []
     else level ! (if odd index then index - 1 else min (index + 1) (length level - 1)) #
       merkle_siblings c (index div 2) (level_up c level))"
  by pat_completeness auto
termination by (relation "measure (\<lambda>(c, index, level). length level)") auto

declare merkle_siblings.simps [simp del]

definition proof_schema :: string where
  "proof_schema = ''aegisforge-attestation-inclusion-proof-v1''"

text \<open>The entries of the snapshot are hashed as they are stored.\<close>

definition build_inclusion_proof :: "crypto \<Rightarrow> json \<Rightarrow> string \<Rightarrow> json result" where
  "build_inclusion_proof c registry attestation_id = bindR (verify_registry c registry) (\<lambda>s.
     let entries = registry_entries registry;
         matches = filter (\<lambda>i. json_get (dict_items (entries ! i)) ''attestation_id'' = JStr attestation_id) [0..<length entries] in
     case matches of
       [i] \<Rightarrow> Inr (JObj [(''entry'', entries ! i), (''leaf_index'', JInt (int i)), (''merkle_root'', JStr (ms_root s)),
          (''schema_version'', JStr proof_schema), (''siblings'', JArr (map JStr (merkle_siblings c i (map (leaf_hash c) entries)))),
          (''tree_size'', JInt (ms_size s))])
     | _ \<Rightarrow> registry_error ''attestation_id_not_found'')"

text \<open>The loop of the verification: up from the leaf while the level is wider than one.\<close>

fun climb :: "crypto \<Rightarrow> nat \<Rightarrow> nat \<Rightarrow> string \<Rightarrow> string list \<Rightarrow> string result" where
  "climb c width index current siblings =
    (if width \<le> 1 then (if siblings \<noteq> [] then registry_error ''proof_has_extra_siblings'' else Inr current)
     else (case siblings of
        [] \<Rightarrow> registry_error ''proof_sibling_missing''
      | s # rest \<Rightarrow>
          if even index \<and> width \<le> index + 1 \<and> s \<noteq> current then registry_error ''proof_duplicate_last_mismatch''
          else climb c ((width + 1) div 2) (index div 2) (if even index then parent_hash c current s else parent_hash c s current) rest))"

declare climb.simps [simp del]

record inclusion =
  ic_id :: string
  ic_index :: int
  ic_size :: int
  ic_root :: string

definition verify_inclusion_proof :: "crypto \<Rightarrow> json \<Rightarrow> string \<Rightarrow> int option \<Rightarrow> inclusion result" where
  "verify_inclusion_proof c prf expected_root expected_size = (case prf of
      JObj p \<Rightarrow>
       (if json_get p ''schema_version'' \<noteq> JStr proof_schema then registry_error ''unsupported_inclusion_proof_schema''
        else if set (map fst p) \<noteq> {''schema_version'', ''tree_size'', ''leaf_index'', ''entry'', ''siblings'', ''merkle_root''}
        then registry_error ''inclusion_proof_fields_invalid''
        else if \<not> is_digest expected_root then registry_error ''expected_root_invalid''
        else if json_get p ''merkle_root'' \<noteq> JStr expected_root then registry_error ''expected_root_mismatch''
        else (case json_get p ''tree_size'' of
           JInt sz \<Rightarrow>
            (if sz < 1 then registry_error ''proof_tree_size_invalid''
             else if expected_size \<noteq> None \<and> expected_size \<noteq> Some sz then registry_error ''expected_tree_size_mismatch''
             else (case json_get p ''leaf_index'' of
                JInt index \<Rightarrow>
                 (if index < 0 \<or> sz \<le> index then registry_error ''proof_leaf_index_invalid''
                  else bindR (normalize_entry (json_get p ''entry'') index) (\<lambda>entry.
                    case json_get p ''siblings'' of
                      JArr siblings \<Rightarrow>
                       (if \<not> list_all valid_hash siblings then registry_error ''proof_siblings_invalid''
                        else bindR (climb c (nat sz) (nat index) (leaf_hash c (entry_json entry)) (map text_of siblings)) (\<lambda>current.
                          if current \<noteq> expected_root then registry_error ''inclusion_proof_invalid''
                          else Inr \<lparr>ic_id = me_id entry, ic_index = index, ic_size = sz, ic_root = current\<rparr>))
                    | _ \<Rightarrow> registry_error ''proof_siblings_invalid''))
              | _ \<Rightarrow> registry_error ''proof_leaf_index_invalid''))
         | _ \<Rightarrow> registry_error ''proof_tree_size_invalid''))
    | _ \<Rightarrow> registry_error ''unsupported_inclusion_proof_schema'')"

section \<open>Signed checkpoints\<close>

definition registry_summary :: "merkle_snapshot \<Rightarrow> json \<Rightarrow> json" where
  "registry_summary s previous = JObj [(''merkle_root'', JStr (ms_root s)), (''previous_checkpoint'', previous),
     (''registry_sha256'', JStr (ms_sha s)), (''size'', JInt (ms_size s))]"

definition checkpoint_request_for_registry :: "crypto \<Rightarrow> json \<Rightarrow> json result" where
  "checkpoint_request_for_registry c registry = bindR (verify_registry c registry) (\<lambda>s.
     Inr (JObj [(''registry'', registry_summary s (json_get (dict_items registry) ''previous_checkpoint'')),
       (''schema_version'', JStr ''aegisforge-registry-checkpoint-request-v1'')]))"

definition checkpoint_unsigned :: "(string \<times> json) list \<Rightarrow> (string \<times> json) list" where
  "checkpoint_unsigned kvs = filter (\<lambda>(k, _). k \<notin> {''checkpoint_id'', ''signature''}) kvs"

definition validate_summary :: "json \<Rightarrow> (string \<times> json) list result" where
  "validate_summary summary = (case summary of
      JObj s \<Rightarrow>
       (if set (map fst s) \<noteq> {''size'', ''merkle_root'', ''registry_sha256'', ''previous_checkpoint''}
        then registry_error ''checkpoint_registry_summary_invalid''
        else if \<not> (case json_get s ''size'' of JInt n \<Rightarrow> 0 \<le> n | _ \<Rightarrow> False) then registry_error ''checkpoint_registry_size_invalid''
        else if \<not> valid_hash (json_get s ''merkle_root'') \<or> \<not> valid_hash (json_get s ''registry_sha256'')
        then registry_error ''checkpoint_registry_digest_invalid''
        else if json_get s ''previous_checkpoint'' = JNull then Inr s
        else bindR (validate_checkpoint (json_get s ''previous_checkpoint'')) (\<lambda>_. Inr s))
    | _ \<Rightarrow> registry_error ''checkpoint_registry_summary_invalid'')"

definition merkle_checkpoint_schema :: string where
  "merkle_checkpoint_schema = ''aegisforge-registry-checkpoint-v1''"

text \<open>The signed dict, in key order.\<close>

definition checkpoint_fields :: "crypto \<Rightarrow> json \<Rightarrow> string \<Rightarrow> string \<Rightarrow> string \<Rightarrow> string \<Rightarrow> (string \<times> json) list" where
  "checkpoint_fields c summary key key_id organization issued_at =
     [(''issued_at'', JStr issued_at), (''registry'', summary), (''schema_version'', JStr merkle_checkpoint_schema),
      (''signer'', JObj [(''key_id'', JStr key_id), (''organization'', JStr organization),
         (''public_key'', JStr (cr_b64encode c (cr_public c key)))])]"

definition sign_merkle_checkpoint :: "crypto \<Rightarrow> json \<Rightarrow> string \<Rightarrow> string \<Rightarrow> string \<Rightarrow> string \<Rightarrow> json result" where
  "sign_merkle_checkpoint c summary key key_id organization issued_at =
     bindR (validate_summary summary) (\<lambda>_.
     if blank key_id then registry_error ''checkpoint_key_id_required''
     else if blank organization then registry_error ''checkpoint_organization_required''
     else if issued_at = [] \<or> cr_parse_time c (replace_z issued_at) = Unreadable then registry_error ''checkpoint_issued_at_invalid''
     else (let unsigned = checkpoint_fields c summary key key_id organization issued_at;
         cid = cr_sha256 c (canonical_text (JObj unsigned));
         signed = (''checkpoint_id'', JStr cid) # unsigned in
       Inr (JObj ((''checkpoint_id'', JStr cid) # take 3 unsigned @
         (''signature'', JObj [(''algorithm'', JStr ''Ed25519''), (''value'', JStr (cr_b64encode c (cr_sign c key (canonical_text (JObj signed)))))]) #
         drop 3 unsigned))))"

text \<open>\<^verbatim>\<open>base64.b64decode(value, validate=True)\<close> of a value: a value that is no text is a TypeError.\<close>

definition decode_field :: "crypto \<Rightarrow> json \<Rightarrow> string result" where
  "decode_field c v = (case v of
      JStr s \<Rightarrow> (case cr_b64decode c s of None \<Rightarrow> raise ValueError ''Incorrect padding'' | Some raw \<Rightarrow> Inr raw)
    | _ \<Rightarrow> raise TypeError ''argument should be a bytes-like object or ASCII string'')"

text \<open>A trusted key is a key object or its bytes, base64 text, or something else.\<close>

datatype trusted_key = RawKey string | TextKey string | OtherKey

definition checkpoint_key :: "crypto \<Rightarrow> trusted_key \<Rightarrow> string result" where
  "checkpoint_key c key = bindR (case key of
       RawKey raw \<Rightarrow> Inr raw
     | TextKey s \<Rightarrow> (case cr_b64decode c s of None \<Rightarrow> registry_error ''checkpoint_trusted_key_invalid'' | Some raw \<Rightarrow> Inr raw)
     | OtherKey \<Rightarrow> registry_error ''checkpoint_trusted_key_invalid'')
    (\<lambda>raw. if length raw = 32 then Inr raw else registry_error ''checkpoint_trusted_key_invalid'')"

definition summary_matches :: "(string \<times> json) list \<Rightarrow> merkle_snapshot \<Rightarrow> json \<Rightarrow> bool" where
  "summary_matches summary s registry \<longleftrightarrow> json_get summary ''size'' = JInt (ms_size s) \<and> json_get summary ''merkle_root'' = JStr (ms_root s) \<and>
     json_get summary ''registry_sha256'' = JStr (ms_sha s) \<and>
     py_eq (json_get summary ''previous_checkpoint'') (json_get (dict_items registry) ''previous_checkpoint'')"

definition verify_signed_checkpoint :: "crypto \<Rightarrow> json \<Rightarrow> (string \<Rightarrow> trusted_key option) \<Rightarrow> json option \<Rightarrow> (string \<times> string) result" where
  "verify_signed_checkpoint c checkpoint trusted registry = (case checkpoint of
      JObj k \<Rightarrow>
       (if set (map fst k) \<noteq> {''schema_version'', ''registry'', ''issued_at'', ''signer'', ''checkpoint_id'', ''signature''}
        then registry_error ''checkpoint_fields_invalid''
        else if json_get k ''schema_version'' \<noteq> JStr merkle_checkpoint_schema then registry_error ''checkpoint_schema_unsupported''
        else bindR (validate_summary (json_get k ''registry'')) (\<lambda>summary.
          if \<not> (case json_get k ''issued_at'' of JStr t \<Rightarrow> t \<noteq> [] \<and> cr_parse_time c (replace_z t) \<noteq> Unreadable | _ \<Rightarrow> False)
          then registry_error ''checkpoint_issued_at_invalid''
          else if json_get k ''checkpoint_id'' \<noteq> JStr (cr_sha256 c (canonical_text (JObj (checkpoint_unsigned k))))
          then registry_error ''checkpoint_id_mismatch''
          else (let signer = dict_items (json_get k ''signer''); signature = dict_items (json_get k ''signature'') in
            if \<not> is_dict (json_get k ''signer'') \<or> set (map fst signer) \<noteq> {''key_id'', ''public_key'', ''organization''} \<or>
               \<not> is_text (json_get signer ''key_id'') \<or> \<not> truthy (json_get signer ''key_id'') \<or>
               \<not> is_text (json_get signer ''organization'') \<or> \<not> truthy (json_get signer ''organization'') \<or>
               \<not> is_dict (json_get k ''signature'') \<or> set (map fst signature) \<noteq> {''algorithm'', ''value''} \<or> json_get signature ''algorithm'' \<noteq> JStr ''Ed25519''
            then registry_error ''checkpoint_signer_or_signature_invalid''
            else (case trusted (text_of (json_get signer ''key_id'')) of
               None \<Rightarrow> registry_error ''checkpoint_signer_untrusted''
             | Some known \<Rightarrow>
                bindR (rescue (\<lambda>cl. cl = ValueError \<or> cl = AttestationRegistryError)
                    (\<lambda>_. Exc AttestationRegistryError ''checkpoint_key_or_signature_encoding_invalid'')
                    (bindR (decode_field c (json_get signer ''public_key'')) (\<lambda>advertised.
                     bindR (checkpoint_key c known) (\<lambda>public.
                     bindR (item signature ''value'') (\<lambda>v. bindR (decode_field c v) (\<lambda>sg. Inr (advertised, public, sg))))))) (\<lambda>(advertised, public, sg).
                if length advertised \<noteq> 32 \<or> advertised \<noteq> public then registry_error ''checkpoint_public_key_mismatch''
                else if length sg \<noteq> 64 then registry_error ''checkpoint_signature_length_invalid''
                else if \<not> (cr_public_ok c public \<and> cr_verify c public sg (canonical_text (JObj (signed_part k))))
                then registry_error ''checkpoint_signature_invalid''
                else bindR (case registry of
                    None \<Rightarrow> Inr ()
                  | Some r \<Rightarrow> bindR (verify_registry c r) (\<lambda>s.
                      ensure (summary_matches summary s r) AttestationRegistryError ''checkpoint_registry_mismatch'')) (\<lambda>_.
                  Inr (text_of (json_get k ''checkpoint_id''), text_of (json_get signer ''key_id'')))))))) 
    | _ \<Rightarrow> registry_error ''checkpoint_fields_invalid'')"

end
