(* ===== verification/MerkleRuns.thy ===== *)
theory MerkleRuns
  imports Merkle DossierRuns "HOL-Library.Sublist"
begin

text \<open>
  What the Merkle registry of attestations (\<^verbatim>\<open>src/shared/attestation_registry.py\<close>) proves to
  somebody who only knows a root: an accepted inclusion proof shows an entry of the
  registry, at its index, although the tree repeats the last hash of odd levels and the
  tree size is not authenticated; the root determines all entries; snapshots chain to one
  past.
\<close>

section \<open>Texts of hashes\<close>

lemma hex_bytes_length: "length s = 2 * n \<Longrightarrow> length (hex_bytes s) = n"
proof (induction n arbitrary: s)
  case (Suc n)
  then obtain a b t where "s = a # b # t" "length t = 2 * n" by (cases s; cases "tl s") auto
  with Suc.IH show ?case by simp
qed simp

lemma unhex_lower: "lower_hex ch \<Longrightarrow> unhex ch < 16"
  unfolding lower_hex_def unhex_def char_code_def Let_def by (simp split: if_splits) linarith

lemma unhex_inj:
  assumes "lower_hex a" and "lower_hex b" and "unhex a = unhex b"
  shows "a = b"
proof -
  define m where "m = (of_char a :: nat)"
  define n where "n = (of_char b :: nat)"
  have "m = n"
    using assms unfolding lower_hex_def unhex_def char_code_def Let_def m_def [symmetric] n_def [symmetric]
    by (auto split: if_splits)
  then show ?thesis by (simp add: m_def n_def)
qed

lemma byte_inj:
  assumes "u < 16" "x < 16" "v < 16" "y < 16" and "(char_of (16 * u + x) :: char) = char_of (16 * v + y)"
  shows "u = v \<and> x = (y :: nat)"
proof -
  have "(of_char (char_of (16 * u + x)) :: nat) = of_char (char_of (16 * v + y))" using assms(5) by simp
  then have "16 * u + x = 16 * v + y" using assms(1-4) by simp
  with assms(2,4) show ?thesis by presburger
qed

lemma hex_bytes_inj:
  "length s = length t \<Longrightarrow> even (length s) \<Longrightarrow> list_all lower_hex s \<Longrightarrow> list_all lower_hex t \<Longrightarrow> hex_bytes s = hex_bytes t \<Longrightarrow> s = t"
proof (induction s arbitrary: t rule: hex_bytes.induct)
  case (1 a b s)
  from 1(2) obtain a' b' t' where t: "t = a' # b' # t'" by (cases t; cases "tl t") auto
  from 1(4,5) have hex: "lower_hex a" "lower_hex b" "lower_hex a'" "lower_hex b'" by (simp_all add: t)
  have "unhex a = unhex a' \<and> unhex b = unhex b'"
    using 1(6) by (intro byte_inj) (simp_all add: t hex unhex_lower)
  moreover have "s = t'" using 1 by (simp add: t)
  ultimately show ?case using unhex_inj hex by (simp add: t)
qed auto

lemma node_text_inj:
  assumes "is_digest l" "is_digest r" "is_digest l'" "is_digest r'" and "node_text l r = node_text l' r'"
  shows "l = l' \<and> r = r'"
proof -
  from assms have "length (hex_bytes x) = 32" if "x \<in> {l, r, l', r'}" for x
    using that hex_bytes_length [of x 32] by (auto simp: is_digest_def)
  with assms(5) have "hex_bytes l = hex_bytes l' \<and> hex_bytes r = hex_bytes r'" by (simp add: node_text_def)
  with assms hex_bytes_inj show ?thesis by (simp add: is_digest_def)
qed

lemma leaf_not_node: "leaf_text e \<noteq> node_text l r"
  by (simp add: leaf_text_def node_text_def)

text \<open>SHA-256 returns 64 lower case hexadecimal digits.\<close>

definition sha_digests :: "crypto \<Rightarrow> bool" where
  "sha_digests c \<longleftrightarrow> (\<forall>s. is_digest (cr_sha256 c s))"

section \<open>The pairs that are hashed\<close>

fun pairs_of :: "string list \<Rightarrow> (string \<times> string) list" where
  "pairs_of (l # r # rest) = (l, r) # pairs_of rest"
| "pairs_of _ = []"

lemma hash_pairs_of: "hash_pairs c xs = map (\<lambda>(l, r). parent_hash c l r) (pairs_of xs)"
  by (induction c xs rule: hash_pairs.induct) auto

lemma pairs_of_elements: "even (length xs) \<Longrightarrow> set xs = fst ` set (pairs_of xs) \<union> snd ` set (pairs_of xs)"
  by (induction xs rule: pairs_of.induct) auto

lemma pad_level_even [simp]: "even (length (pad_level level))"
  by (simp add: pad_level_def)

lemma pad_level_set [simp]: "set (pad_level level) = set level"
  by (cases "level = []") (auto simp: pad_level_def)

function merkle_pairs :: "crypto \<Rightarrow> string list \<Rightarrow> (string \<times> string) list" where
  "merkle_pairs c level = (if length level \<le> 1 then [] else pairs_of (pad_level level) @ merkle_pairs c (level_up c level))"
  by pat_completeness auto
termination by (relation "measure (\<lambda>(c, level). length level)") auto

declare merkle_pairs.simps [simp del]

definition merkle_nodes :: "crypto \<Rightarrow> string list \<Rightarrow> string set" where
  "merkle_nodes c level = set level \<union> (\<lambda>(l, r). parent_hash c l r) ` set (merkle_pairs c level)"

lemma merkle_nodes_up:
  "1 < length level \<Longrightarrow> merkle_nodes c level = set level \<union> merkle_nodes c (level_up c level)"
  by (auto simp: merkle_nodes_def merkle_pairs.simps [of c level] level_up_def hash_pairs_of image_iff)

lemma merkle_top_node: "level \<noteq> [] \<Longrightarrow> merkle_top c level \<in> merkle_nodes c level"
proof (induction c level rule: merkle_top.induct)
  case (1 c level)
  show ?case
  proof (cases "length level \<le> 1")
    case True
    with 1(2) obtain a where "level = [a]" by (cases level) auto
    then show ?thesis using merkle_top.simps [of c "[a]"] by (simp add: merkle_nodes_def)
  next
    case False
    then have "0 < length (level_up c level)" by simp
    then have "level_up c level \<noteq> []" by force
    with 1 False show ?thesis by (simp add: merkle_top.simps [of c level] merkle_nodes_up)
  qed
qed

text \<open>The children of a node are nodes.\<close>

lemma merkle_pairs_nodes: "(l, r) \<in> set (merkle_pairs c level) \<Longrightarrow> l \<in> merkle_nodes c level \<and> r \<in> merkle_nodes c level"
proof (induction c level rule: merkle_pairs.induct)
  case (1 c level)
  show ?case
  proof (cases "length level \<le> 1")
    case True
    with 1(2) show ?thesis by (simp add: merkle_pairs.simps)
  next
    case False
    with 1(2) consider "(l, r) \<in> set (pairs_of (pad_level level))" | "(l, r) \<in> set (merkle_pairs c (level_up c level))"
      by (auto simp: merkle_pairs.simps [of c level])
    then show ?thesis
    proof cases
      case 1
      then have "l \<in> set level \<and> r \<in> set level" using pairs_of_elements [of "pad_level level"] by force
      then show ?thesis by (simp add: merkle_nodes_def)
    next
      case 2
      with 1 False show ?thesis by (simp add: merkle_nodes_up)
    qed
  qed
qed

definition tree_texts :: "crypto \<Rightarrow> json list \<Rightarrow> string set" where
  "tree_texts c es = leaf_text ` set es \<union> (\<lambda>(l, r). node_text l r) ` set (merkle_pairs c (map (leaf_hash c) es))"

abbreviation tree_nodes :: "crypto \<Rightarrow> json list \<Rightarrow> string set" where
  "tree_nodes c es \<equiv> merkle_nodes c (map (leaf_hash c) es)"

lemma tree_node_digest: "sha_digests c \<Longrightarrow> x \<in> tree_nodes c es \<Longrightarrow> is_digest x"
  by (auto simp: merkle_nodes_def leaf_hash_def parent_hash_def sha_digests_def)

text \<open>A node with a node text has its two children in the tree; a leaf text belongs to an entry.\<close>

lemma node_in_tree:
  assumes "sha_digests c" and "inj_on (cr_sha256 c) T" and "tree_texts c es \<subseteq> T" and "node_text a b \<in> T"
    and "is_digest a" "is_digest b" and "parent_hash c a b \<in> tree_nodes c es"
  shows "a \<in> tree_nodes c es \<and> b \<in> tree_nodes c es"
proof -
  from assms(7) consider e where "e \<in> set es" "parent_hash c a b = leaf_hash c e"
    | l r where "(l, r) \<in> set (merkle_pairs c (map (leaf_hash c) es))" "parent_hash c a b = parent_hash c l r"
    by (auto simp: merkle_nodes_def)
  then show ?thesis
  proof cases
    case 1
    then have "leaf_text e \<in> T" using assms(3) by (auto simp: tree_texts_def)
    with 1 assms(2,4) have "node_text a b = leaf_text e" by (simp add: parent_hash_def leaf_hash_def inj_on_eq_iff)
    then show ?thesis using leaf_not_node by metis
  next
    case 2
    then have "node_text l r \<in> T" using assms(3) by (auto simp: tree_texts_def)
    with 2 assms(2,4) have "node_text a b = node_text l r" by (simp add: parent_hash_def inj_on_eq_iff)
    moreover have lr: "l \<in> tree_nodes c es \<and> r \<in> tree_nodes c es" by (rule merkle_pairs_nodes [OF 2(1)])
    ultimately have "a = l \<and> b = r" using node_text_inj assms(1,5,6) tree_node_digest by metis
    with lr show ?thesis by simp
  qed
qed

lemma leaf_in_tree:
  assumes "inj_on (cr_sha256 c) T" and "tree_texts c es \<subseteq> T" and "leaf_text e \<in> T" and "leaf_hash c e \<in> tree_nodes c es"
  shows "leaf_text e \<in> leaf_text ` set es"
proof -
  from assms(4) consider e' where "e' \<in> set es" "leaf_hash c e = leaf_hash c e'"
    | l r where "(l, r) \<in> set (merkle_pairs c (map (leaf_hash c) es))" "leaf_hash c e = parent_hash c l r"
    by (auto simp: merkle_nodes_def)
  then show ?thesis
  proof cases
    case 1
    then have "leaf_text e' \<in> T" using assms(2) by (auto simp: tree_texts_def)
    with 1 assms(1,3) have "leaf_text e = leaf_text e'" by (simp add: leaf_hash_def inj_on_eq_iff)
    with 1 show ?thesis by simp
  next
    case 2
    then have "node_text l r \<in> T" using assms(2) by (auto simp: tree_texts_def)
    with 2 assms(1,3) have "leaf_text e = node_text l r" by (simp add: parent_hash_def leaf_hash_def inj_on_eq_iff)
    then show ?thesis by (simp add: leaf_not_node)
  qed
qed

section \<open>Climbing\<close>

text \<open>The pairs a verification hashes.\<close>

fun climb_pairs :: "crypto \<Rightarrow> nat \<Rightarrow> nat \<Rightarrow> string \<Rightarrow> string list \<Rightarrow> (string \<times> string) list" where
  "climb_pairs c width index current [] = []"
| "climb_pairs c width index current (s # rest) = (if width \<le> 1 then [] else
     (let p = (if even index then (current, s) else (s, current)) in
      p # climb_pairs c ((width + 1) div 2) (index div 2) (parent_hash c (fst p) (snd p)) rest))"

lemma climb_step:
  "climb c width index current (s # rest) = Inr apex \<Longrightarrow> 1 < width \<Longrightarrow>
     climb c ((width + 1) div 2) (index div 2) (if even index then parent_hash c current s else parent_hash c s current) rest = Inr apex"
  by (subst (asm) climb.simps) (auto split: if_splits)

lemma climb_reaches:
  assumes "sha_digests c" and "inj_on (cr_sha256 c) T" and "tree_texts c es \<subseteq> T"
  shows "climb c width index current siblings = Inr apex \<Longrightarrow> apex \<in> tree_nodes c es \<Longrightarrow> is_digest current \<Longrightarrow> list_all is_digest siblings \<Longrightarrow>
    (\<lambda>(l, r). node_text l r) ` set (climb_pairs c width index current siblings) \<subseteq> T \<Longrightarrow> current \<in> tree_nodes c es"
proof (induction siblings arbitrary: width index current)
  case Nil
  then show ?case by (subst (asm) climb.simps) (auto split: if_splits)
next
  case (Cons s rest)
  show ?case
  proof (cases "width \<le> 1")
    case True
    with Cons.prems(1) show ?thesis by (subst (asm) climb.simps) simp
  next
    case False
    let ?p = "if even index then (current, s) else (s, current)"
    have up: "climb c ((width + 1) div 2) (index div 2) (parent_hash c (fst ?p) (snd ?p)) rest = Inr apex"
      using climb_step [OF Cons.prems(1)] False by (cases "even index") auto
    have dg: "is_digest (fst ?p)" "is_digest (snd ?p)" using Cons.prems(3,4) by auto
    have "parent_hash c (fst ?p) (snd ?p) \<in> tree_nodes c es"
    proof (rule Cons.IH [OF up Cons.prems(2)])
      show "is_digest (parent_hash c (fst ?p) (snd ?p))" using assms(1) by (simp add: parent_hash_def sha_digests_def)
    qed (use Cons.prems(4,5) False in \<open>auto simp: Let_def\<close>)
    moreover have "node_text (fst ?p) (snd ?p) \<in> T" using Cons.prems(5) False by (auto simp: Let_def)
    ultimately have "fst ?p \<in> tree_nodes c es \<and> snd ?p \<in> tree_nodes c es"
      using node_in_tree [OF assms(1-3) _ dg] by blast
    then show ?thesis by (cases "even index") auto
  qed
qed


section \<open>Entries\<close>

lemma normalize_entry_index: "normalize_entry x n = Inr e \<Longrightarrow> me_index e = n"
  by (auto simp: normalize_entry_def split: json.splits if_splits)

lemma entry_json_inj: "entry_json e = entry_json e' \<Longrightarrow> e = e'"
  by (cases e; cases e') (simp add: entry_json_def)

lemma entry_keys_sorted: "sorted_wrt (<) [''attestation_id'', ''attestation_sha256'', ''case_digest'', ''index'', ''issued_at'', ''key_id'', ''verdict'']"
  by code_simp

lemma entry_json_wf: "json_wf (entry_json e)"
  using entry_keys_sorted by (simp add: entry_json_def)

lemma leaf_text_inj:
  assumes "leaf_text (entry_json e) = leaf_text (entry_json e')"
  shows "e = e'"
proof (rule entry_json_inj)
  have "canonical_text (entry_json e) = canonical_text (entry_json e')" using assms by (simp add: leaf_text_def)
  then show "entry_json e = entry_json e'" unfolding canonical_text_def by (rule dumps_inj [OF entry_json_wf entry_json_wf])
qed

lemma normalize_entries_Inr:
  "normalize_entries n xs = Inr es \<longleftrightarrow> length es = length xs \<and> (\<forall>i < length xs. normalize_entry (xs ! i) (n + int i) = Inr (es ! i))"
proof (induction xs arbitrary: n es)
  case (Cons x xs)
  show ?case
  proof (cases es)
    case Nil
    then show ?thesis by (simp add: bindR_Inr_iff)
  next
    case (Cons e es')
    have "(\<forall>i < length (x # xs). normalize_entry ((x # xs) ! i) (n + int i) = Inr ((e # es') ! i)) \<longleftrightarrow>
        normalize_entry x n = Inr e \<and> (\<forall>i < length xs. normalize_entry (xs ! i) (n + 1 + int i) = Inr (es' ! i))"
      by (auto simp: less_Suc_eq_0_disj algebra_simps nth_Cons split: nat.splits)
    with Cons Cons.IH [of "n + 1" es'] show ?thesis by (auto simp: bindR_Inr_iff)
  qed
qed auto

text \<open>What an accepted entry looks like.\<close>

definition entry_valid :: "merkle_entry \<Rightarrow> bool" where
  "entry_valid e \<longleftrightarrow> is_digest (me_id e) \<and> is_digest (me_sha e) \<and> is_digest (me_case e) \<and> me_verdict e \<in> set attestation_verdicts \<and>
     me_issued e \<noteq> [] \<and> me_key e \<noteq> []"

lemma text_of_JStr [simp]: "text_of (JStr s) = s"
  by (simp add: text_of_def)

lemma map_text_of [simp]: "map text_of (map JStr xs) = xs"
  by (simp add: comp_def)

lemma valid_hash_text: "valid_hash v \<Longrightarrow> is_digest (text_of v)"
  by (cases v) (auto simp: valid_hash_def text_of_def)

lemma truthy_text: "is_text v \<Longrightarrow> truthy v \<Longrightarrow> text_of v \<noteq> []"
  by (cases v) (auto simp: text_of_def)

lemma normalize_entry_valid: "normalize_entry x n = Inr e \<Longrightarrow> entry_valid e"
  by (cases x) (auto simp: normalize_entry_def entry_valid_def valid_hash_text truthy_text text_of_JStr simp del: truthy.simps split: if_splits)

lemma normalize_entry_json:
  assumes "entry_valid e"
  shows "normalize_entry (entry_json e) (me_index e) = Inr e"
proof -
  have "JStr (me_verdict e) \<in> JStr ` set attestation_verdicts" using assms by (simp add: entry_valid_def)
  with assms show ?thesis
    by (simp add: normalize_entry_def entry_json_def entry_metadata_fields_def entry_valid_def valid_hash_def json_get_Cons insert_commute)
qed

lemma normalize_entry_again: "normalize_entry x n = Inr e \<Longrightarrow> normalize_entry (entry_json e) n = Inr e"
  using normalize_entry_json [OF normalize_entry_valid] normalize_entry_index by metis

text \<open>A verified snapshot.\<close>

definition snapshot_entries :: "json \<Rightarrow> merkle_entry list" where
  "snapshot_entries registry = (case normalize_entries 0 (registry_entries registry) of Inr es \<Rightarrow> es | Inl _ \<Rightarrow> [])"

lemma verify_registry_Inr:
  assumes "verify_registry c registry = Inr s"
  shows "normalize_entries 0 (registry_entries registry) = Inr (snapshot_entries registry)"
    and "distinct (map me_id (snapshot_entries registry))" and "ms_size s = int (length (snapshot_entries registry))"
    and "ms_root s = merkle_root c (map entry_json (snapshot_entries registry))" and "ms_sha s = registry_sha256 c registry"
    and "length (registry_entries registry) = length (snapshot_entries registry)"
proof -
  obtain r where r: "registry = JObj r" using assms by (auto simp: verify_registry_def split: json.splits)
  obtain entries sz where e: "json_get r ''entries'' = JArr entries" "json_get r ''size'' = JInt sz"
    using assms by (auto simp: verify_registry_def r split: json.splits if_splits)
  obtain es where es: "normalize_entries 0 entries = Inr es" "distinct (map me_id es)"
    and s: "s = \<lparr>ms_size = int (length entries), ms_root = merkle_root c (map entry_json es), ms_sha = registry_sha256 c registry\<rparr>"
    using assms by (auto simp: verify_registry_def r e bindR_Inr_iff split: if_splits)
  have re: "registry_entries registry = entries" by (simp add: registry_entries_def r e)
  have "snapshot_entries registry = es" by (simp add: snapshot_entries_def re es(1))
  moreover have "length entries = length es" using es(1) by (simp add: normalize_entries_Inr)
  ultimately show "normalize_entries 0 (registry_entries registry) = Inr (snapshot_entries registry)"
    "distinct (map me_id (snapshot_entries registry))" "ms_size s = int (length (snapshot_entries registry))"
    "ms_root s = merkle_root c (map entry_json (snapshot_entries registry))" "ms_sha s = registry_sha256 c registry"
    "length (registry_entries registry) = length (snapshot_entries registry)" using es s by (simp_all add: re)
qed

lemma snapshot_index:
  assumes "verify_registry c registry = Inr s" and "e \<in> set (snapshot_entries registry)"
  shows "0 \<le> me_index e \<and> nat (me_index e) < length (snapshot_entries registry) \<and> snapshot_entries registry ! nat (me_index e) = e"
proof -
  note v = verify_registry_Inr [OF assms(1)]
  from assms(2) obtain i where i: "i < length (snapshot_entries registry)" "snapshot_entries registry ! i = e" by (auto simp: in_set_conv_nth)
  with v(1,6) have "normalize_entry (registry_entries registry ! i) (int i) = Inr e" by (simp add: normalize_entries_Inr)
  then have "me_index e = int i" by (rule normalize_entry_index)
  with i show ?thesis by simp
qed


lemma snapshot_position:
  assumes "verify_registry c registry = Inr s" and "i < length (snapshot_entries registry)"
  shows "me_index (snapshot_entries registry ! i) = int i" and "entry_valid (snapshot_entries registry ! i)"
proof -
  note v = verify_registry_Inr [OF assms(1)]
  from v(1,6) assms(2) have "normalize_entry (registry_entries registry ! i) (int i) = Inr (snapshot_entries registry ! i)"
    by (simp add: normalize_entries_Inr)
  then show "me_index (snapshot_entries registry ! i) = int i" and "entry_valid (snapshot_entries registry ! i)"
    by (rule normalize_entry_index, rule normalize_entry_valid)
qed

section \<open>Soundness of inclusion proofs\<close>

text \<open>The texts a snapshot hashes, and the texts the verification of a proof hashes.\<close>

definition registry_texts :: "crypto \<Rightarrow> merkle_entry list \<Rightarrow> string set" where
  "registry_texts c es = insert ''AegisForge attestation registry empty root v1'' (tree_texts c (map entry_json es))"

abbreviation apex_texts :: "crypto \<Rightarrow> nat \<Rightarrow> merkle_entry \<Rightarrow> string list \<Rightarrow> string set" where
  "apex_texts c width e siblings \<equiv> insert (leaf_text (entry_json e))
     ((\<lambda>(l, r). node_text l r) ` set (climb_pairs c width (nat (me_index e)) (leaf_hash c (entry_json e)) siblings))"

lemma merkle_root_node: "es \<noteq> [] \<Longrightarrow> merkle_root c es \<in> tree_nodes c es"
  using merkle_top_node [of "map (leaf_hash c) es" c] by (simp add: merkle_root_def)

text \<open>A climb ends in the leaf or in the hash of a node.\<close>

lemma climb_apex:
  "climb c width index current siblings = Inr apex \<Longrightarrow> apex \<in> insert current
     ((\<lambda>(l, r). parent_hash c l r) ` set (climb_pairs c width index current siblings))"
proof (induction siblings arbitrary: width index current)
  case Nil
  then show ?case by (subst (asm) climb.simps) (auto split: if_splits)
next
  case (Cons s rest)
  show ?case
  proof (cases "width \<le> 1")
    case True
    with Cons.prems show ?thesis by (subst (asm) climb.simps) simp
  next
    case False
    let ?p = "if even index then (current, s) else (s, current)"
    have "climb c ((width + 1) div 2) (index div 2) (parent_hash c (fst ?p) (snd ?p)) rest = Inr apex"
      using climb_step [OF Cons.prems] False by (cases "even index") auto
    note IH = Cons.IH [OF this]
    have step: "climb_pairs c width index current (s # rest) =
        ?p # climb_pairs c ((width + 1) div 2) (index div 2) (parent_hash c (fst ?p) (snd ?p)) rest"
      using False by (simp add: Let_def)
    have "parent_hash c (fst ?p) (snd ?p) = (\<lambda>(l, r). parent_hash c l r) ?p" by (simp add: case_prod_beta)
    with IH show ?thesis unfolding step list.set image_insert by (simp add: insert_commute)
  qed
qed

lemma climb_into_registry:
  assumes c: "sha_digests c" and inj: "inj_on (cr_sha256 c) (registry_texts c es \<union> apex_texts c width e siblings)"
    and digests: "list_all is_digest siblings"
    and climb: "climb c width (nat (me_index e)) (leaf_hash c (entry_json e)) siblings = Inr (merkle_root c (map entry_json es))"
  shows "e \<in> set es"
proof -
  let ?T = "registry_texts c es \<union> apex_texts c width e siblings"
  have T: "tree_texts c (map entry_json es) \<subseteq> ?T" by (auto simp: registry_texts_def)
  have "es \<noteq> []"
  proof
    assume "es = []"
    then have root: "merkle_root c (map entry_json es) = cr_sha256 c ''AegisForge attestation registry empty root v1''"
      by (simp add: merkle_root_def empty_root_def)
    have "merkle_root c (map entry_json es) \<in> cr_sha256 c ` apex_texts c width e siblings"
      using climb_apex [OF climb] by (simp add: leaf_hash_def parent_hash_def image_image case_prod_beta)
    then obtain t where t: "t \<in> apex_texts c width e siblings" "cr_sha256 c ''AegisForge attestation registry empty root v1'' = cr_sha256 c t"
      unfolding root by (elim imageE)
    then have "t = ''AegisForge attestation registry empty root v1''"
      using inj_onD [OF inj t(2) _ UnI2] by (simp add: registry_texts_def)
    with t(1) show False by (auto simp: leaf_text_def node_text_def)
  qed
  then have "leaf_hash c (entry_json e) \<in> tree_nodes c (map entry_json es)"
    using merkle_root_node [of "map entry_json es" c] c digests
    by (intro climb_reaches [OF c inj T climb]) (auto simp: leaf_hash_def sha_digests_def)
  then have "leaf_text (entry_json e) \<in> leaf_text ` set (map entry_json es)" by (intro leaf_in_tree [OF inj T]) auto
  then show ?thesis using leaf_text_inj by fastforce
qed

text \<open>What an accepted proof consists of.\<close>

definition proof_siblings :: "json \<Rightarrow> string list" where
  "proof_siblings prf = (case json_get (dict_items prf) ''siblings'' of JArr xs \<Rightarrow> map text_of xs | _ \<Rightarrow> [])"

lemma verify_inclusion_Inr:
  assumes "verify_inclusion_proof c prf root expected = Inr ic"
  obtains e where "normalize_entry (json_get (dict_items prf) ''entry'') (ic_index ic) = Inr e" and "me_index e = ic_index ic"
    and "me_id e = ic_id ic" and "0 \<le> ic_index ic" and "ic_root ic = root" and "list_all is_digest (proof_siblings prf)"
    and "climb c (nat (ic_size ic)) (nat (ic_index ic)) (leaf_hash c (entry_json e)) (proof_siblings prf) = Inr root"
proof -
  obtain p where p: "prf = JObj p" using assms by (cases "prf") (auto simp: verify_inclusion_proof_def)
  note v = assms [unfolded verify_inclusion_proof_def p json.simps]
  obtain sz where sz: "json_get p ''tree_size'' = JInt sz" using v by (auto split: if_splits json.splits)
  obtain i where i: "json_get p ''leaf_index'' = JInt i" "0 \<le> i" using v by (auto simp: sz split: if_splits json.splits)
  obtain e where e: "normalize_entry (json_get p ''entry'') i = Inr e" using v by (auto simp: sz i bindR_Inr_iff split: if_splits)
  obtain xs where xs: "json_get p ''siblings'' = JArr xs" using v by (auto simp: sz i e split: if_splits json.splits)
  have d: "list_all valid_hash xs" and cl: "climb c (nat sz) (nat i) (leaf_hash c (entry_json e)) (map text_of xs) = Inr root"
    and ic: "ic = \<lparr>ic_id = me_id e, ic_index = i, ic_size = sz, ic_root = root\<rparr>"
    using v by (auto simp: sz i e xs bindR_Inr_iff split: if_splits)
  have s: "proof_siblings prf = map text_of xs" by (simp add: proof_siblings_def p xs)
  have "list_all is_digest (map text_of xs)" using d valid_hash_text by (auto simp: list_all_iff)
  with e cl i normalize_entry_index [OF e] show ?thesis by (intro that [of e]) (simp_all add: s [unfolded p] ic p)
qed

text \<open>The texts hashed while a proof is verified.\<close>

definition proof_texts :: "crypto \<Rightarrow> json \<Rightarrow> inclusion \<Rightarrow> string set" where
  "proof_texts c prf ic = (case normalize_entry (json_get (dict_items prf) ''entry'') (ic_index ic) of
      Inr e \<Rightarrow> apex_texts c (nat (ic_size ic)) e (proof_siblings prf)
    | Inl _ \<Rightarrow> {})"

text \<open>
  Inclusion proofs are sound. Whoever knows only the root of a valid snapshot and accepts
  a proof against it, with or without the expected tree size, holds an entry of that
  snapshot at the index the proof states. This is not obvious: the claimed size is not part of
  the root, and levels of odd length repeat their last hash. It needs that no two of the
  texts hashed by the snapshot and by the verification collide.
\<close>

theorem inclusion_proof_sound:
  assumes "sha_digests c" and "verify_registry c registry = Inr s" and "verify_inclusion_proof c prf (ms_root s) expected = Inr ic"
    and "inj_on (cr_sha256 c) (registry_texts c (snapshot_entries registry) \<union> proof_texts c prf ic)"
  shows "0 \<le> ic_index ic \<and> ic_index ic < ms_size s \<and>
    normalize_entry (json_get (dict_items prf) ''entry'') (ic_index ic) = Inr (snapshot_entries registry ! nat (ic_index ic)) \<and>
    me_id (snapshot_entries registry ! nat (ic_index ic)) = ic_id ic"
proof -
  note v = verify_registry_Inr [OF assms(2)]
  from verify_inclusion_Inr [OF assms(3)] obtain e where e: "normalize_entry (json_get (dict_items prf) ''entry'') (ic_index ic) = Inr e"
    "me_index e = ic_index ic" "me_id e = ic_id ic" "0 \<le> ic_index ic" "list_all is_digest (proof_siblings prf)"
    "climb c (nat (ic_size ic)) (nat (ic_index ic)) (leaf_hash c (entry_json e)) (proof_siblings prf) = Inr (ms_root s)" by metis
  have "e \<in> set (snapshot_entries registry)"
    using assms(4) e(1,2,5,6) v(4) by (intro climb_into_registry [OF assms(1)]) (simp_all add: proof_texts_def)
  from snapshot_index [OF assms(2) this] e v(3) show ?thesis by auto
qed


section \<open>Built proofs\<close>

lemma pairs_of_nth: "i < length xs div 2 \<Longrightarrow> pairs_of xs ! i = (xs ! (2 * i), xs ! Suc (2 * i))"
proof (induction xs arbitrary: i rule: pairs_of.induct)
  case (1 l r rest)
  then show ?case by (cases i) auto
qed auto

lemma length_pairs_of [simp]: "length (pairs_of xs) = length xs div 2"
  by (induction xs rule: pairs_of.induct) auto

lemma length_pad_level [simp]: "length (pad_level level) = 2 * ((length level + 1) div 2)"
  by (auto simp: pad_level_def)

text \<open>The pair a position of a level is hashed in, and the sibling a proof carries for it.\<close>

definition sibling_of :: "nat \<Rightarrow> string list \<Rightarrow> string" where
  "sibling_of index level = level ! (if odd index then index - 1 else min (index + 1) (length level - 1))"

lemma sibling_even:
  "even index \<Longrightarrow> Suc index < length level \<Longrightarrow> sibling_of index level = level ! Suc index"
  "even index \<Longrightarrow> length level = Suc index \<Longrightarrow> sibling_of index level = level ! index"
proof -
  assume a: "even index" "Suc index < length level"
  then have "min (index + 1) (length level - 1) = Suc index" by linarith
  with a show "sibling_of index level = level ! Suc index" by (simp add: sibling_of_def)
qed (simp add: sibling_of_def)

lemma sibling_pair:
  assumes "index < length level"
  shows "pairs_of (pad_level level) ! (index div 2) =
    (if even index then (level ! index, sibling_of index level) else (sibling_of index level, level ! index))"
proof -
  have p: "pairs_of (pad_level level) ! (index div 2) = (pad_level level ! (2 * (index div 2)), pad_level level ! Suc (2 * (index div 2)))"
    using assms by (intro pairs_of_nth) simp
  have old: "pad_level level ! i = level ! i" if "i < length level" for i using that by (simp add: pad_level_def nth_append)
  show ?thesis
  proof (cases "even index")
    case True
    show ?thesis
    proof (cases "index + 1 < length level")
      case True
      with \<open>even index\<close> show ?thesis by (simp add: p old sibling_even)
    next
      case False
      with assms have "length level = Suc index" by simp
      moreover from this have "level \<noteq> []" by auto
      ultimately show ?thesis using \<open>even index\<close>
        by (simp add: p old sibling_even) (simp add: pad_level_def nth_append last_conv_nth)
    qed
  next
    case False
    then have "Suc (2 * (index div 2)) = index" "2 * (index div 2) = index - 1" by (auto elim: oddE)
    with False assms show ?thesis by (simp add: p old sibling_of_def)
  qed
qed

lemma sibling_in_level: "index < length level \<Longrightarrow> sibling_of index level \<in> set level"
  by (auto simp: sibling_of_def)

lemma level_up_nth:
  assumes "index < length level"
  shows "level_up c level ! (index div 2) =
    (if even index then parent_hash c (level ! index) (sibling_of index level) else parent_hash c (sibling_of index level) (level ! index))"
  using assms by (simp add: level_up_def hash_pairs_of sibling_pair)

lemma merkle_siblings_step:
  "1 < length level \<Longrightarrow> merkle_siblings c index level = sibling_of index level # merkle_siblings c (index div 2) (level_up c level)"
  by (subst merkle_siblings.simps) (simp add: sibling_of_def)

lemma climb_up:
  assumes "index < length level" and "1 < length level"
  shows "climb c (length level) index (level ! index) (sibling_of index level # rest) =
    climb c (length (level_up c level)) (index div 2) (level_up c level ! (index div 2)) rest"
proof -
  have "sibling_of index level = level ! index" if "even index" "length level \<le> index + 1"
    using that assms by (intro sibling_even) auto
  with assms show ?thesis by (subst climb.simps) (auto simp: level_up_nth)
qed

lemma merkle_siblings_climb:
  "index < length level \<Longrightarrow> climb c (length level) index (level ! index) (merkle_siblings c index level) = Inr (merkle_top c level)"
proof (induction c index level rule: merkle_siblings.induct)
  case (1 c index level)
  show ?case
  proof (cases "length level \<le> 1")
    case True
    with 1(2) obtain a where "level = [a]" by (cases level) auto
    then show ?thesis using 1(2) by (simp add: merkle_siblings.simps [of c _ "[a]"] merkle_top.simps [of c "[a]"] climb.simps)
  next
    case False
    have "index div 2 < length (level_up c level)" using 1(2) by simp
    from 1(1) [OF False this] show ?thesis
      using 1(2) False by (simp add: merkle_siblings_step climb_up merkle_top.simps [of c level] del: length_level_up)
  qed
qed

lemma merkle_siblings_pairs:
  "index < length level \<Longrightarrow> set (climb_pairs c (length level) index (level ! index) (merkle_siblings c index level)) \<subseteq> set (merkle_pairs c level)"
proof (induction c index level rule: merkle_siblings.induct)
  case (1 c index level)
  show ?case
  proof (cases "length level \<le> 1")
    case True
    then show ?thesis by (subst merkle_siblings.simps) simp
  next
    case False
    let ?p = "if even index then (level ! index, sibling_of index level) else (sibling_of index level, level ! index)"
    have i: "index div 2 < length (level_up c level)" using 1(2) by simp
    have "?p \<in> set (pairs_of (pad_level level))"
      using sibling_pair [OF 1(2)] nth_mem [of "index div 2" "pairs_of (pad_level level)"] 1(2) by simp
    moreover have "parent_hash c (fst ?p) (snd ?p) = level_up c level ! (index div 2)" using 1(2) by (simp add: level_up_nth)
    ultimately show ?thesis using 1(1) [OF False i] False 1(2)
      by (auto simp: merkle_siblings_step merkle_pairs.simps [of c level] Let_def)
  qed
qed

lemma merkle_siblings_nodes: "index < length level \<Longrightarrow> set (merkle_siblings c index level) \<subseteq> merkle_nodes c level"
proof (induction c index level rule: merkle_siblings.induct)
  case (1 c index level)
  show ?case
  proof (cases "length level \<le> 1")
    case True
    then show ?thesis by (subst merkle_siblings.simps) simp
  next
    case False
    have "index div 2 < length (level_up c level)" using 1(2) by simp
    from 1(1) [OF False this] False sibling_in_level [OF 1(2)] show ?thesis
      by (auto simp: merkle_siblings_step merkle_nodes_up)
  qed
qed


section \<open>Snapshots that are built\<close>

lemma build_registry_Inr:
  assumes "build_registry c entries previous = Inr registry"
  obtains es where "normalize_entries 0 entries = Inr es" and "distinct (map me_id es)" and "registry = registry_json c es previous"
    and "previous = JNull \<or> validate_checkpoint previous = Inr ()"
  using assms by (auto simp: build_registry_def bindR_Inr_iff split: if_splits)

lemma normalize_entries_again: "normalize_entries n xs = Inr es \<Longrightarrow> normalize_entries n (map entry_json es) = Inr es"
  using normalize_entry_again by (auto simp: normalize_entries_Inr)

lemma registry_entries_built: "registry_entries (registry_json c es previous) = map entry_json es"
  by (simp add: registry_entries_def registry_json_def json_get_Cons)

lemma built_verifies:
  assumes "normalize_entries 0 entries = Inr es" and "distinct (map me_id es)" and "previous = JNull \<or> validate_checkpoint previous = Inr ()"
  shows "verify_registry c (registry_json c es previous) =
    Inr \<lparr>ms_size = int (length es), ms_root = merkle_root c (map entry_json es), ms_sha = registry_sha256 c (registry_json c es previous)\<rparr>"
  using assms(2,3) normalize_entries_again [OF assms(1)]
  by (auto simp: verify_registry_def registry_json_def json_get_Cons insert_commute)

lemma built_entries:
  assumes "normalize_entries 0 entries = Inr es"
  shows "snapshot_entries (registry_json c es previous) = es"
  using normalize_entries_again [OF assms] by (simp add: snapshot_entries_def registry_entries_built)

lemma entry_id [simp]: "json_get (dict_items (entry_json e)) ''attestation_id'' = JStr (me_id e)"
  by (simp add: entry_json_def json_get_Cons)

lemma filter_upt: "filter (\<lambda>j. j = i) [0..<n] = (if i < n then [i] else [])"
  by (induction n) auto

lemma filter_unique: "distinct xs \<Longrightarrow> i < length xs \<Longrightarrow> filter (\<lambda>j. xs ! j = xs ! i) [0..<length xs] = [i]"
proof -
  assume d: "distinct xs" "i < length xs"
  have "filter (\<lambda>j. xs ! j = xs ! i) [0..<length xs] = filter (\<lambda>j. j = i) [0..<length xs]"
    using d by (intro filter_cong) (auto simp: nth_eq_iff_index_eq)
  also have "\<dots> = [i]" using d(2) by (simp add: filter_upt)
  finally show ?thesis .
qed


lemma build_inclusion_proof_built:
  assumes "verify_registry c registry = Inr s" and "registry_entries registry = map entry_json es" and "distinct (map me_id es)"
    and "i < length es"
  shows "build_inclusion_proof c registry (me_id (es ! i)) = Inr (JObj [(''entry'', entry_json (es ! i)), (''leaf_index'', JInt (int i)),
     (''merkle_root'', JStr (ms_root s)), (''schema_version'', JStr proof_schema),
     (''siblings'', JArr (map JStr (merkle_siblings c i (map (leaf_hash c) (map entry_json es))))), (''tree_size'', JInt (ms_size s))])"
proof -
  have "filter (\<lambda>j. json_get (dict_items (registry_entries registry ! j)) ''attestation_id'' = JStr (me_id (es ! i))) [0..<length (registry_entries registry)] =
      filter (\<lambda>j. map me_id es ! j = map me_id es ! i) [0..<length (map me_id es)]"
    using assms(2,4) by (intro filter_cong) auto
  also have "\<dots> = [i]" using assms(3,4) by (intro filter_unique) auto
  finally show ?thesis using assms(1,2,4) by (simp add: build_inclusion_proof_def Let_def del: map_map)
qed

lemma is_digest_hash: "sha_digests c \<Longrightarrow> is_digest (leaf_hash c e)"
  by (simp add: sha_digests_def leaf_hash_def)

lemma merkle_root_digest: "sha_digests c \<Longrightarrow> is_digest (merkle_root c es)"
  using merkle_root_node [of es c] tree_node_digest by (cases "es = []") (auto simp: merkle_root_def empty_root_def sha_digests_def)

text \<open>
  Every proof that is built verifies. For each entry handed to
  \<^verbatim>\<open>build_registry\<close>, the proof built for its attestation from the resulting snapshot is accepted
  against the root and the size of that snapshot, at its index, for every number of entries
  and every position.
\<close>

theorem built_proofs_verify:
  assumes "sha_digests c" and "build_registry c entries previous = Inr registry" and "i < length entries"
  shows "\<exists>s e prf. verify_registry c registry = Inr s \<and> normalize_entry (entries ! i) (int i) = Inr e \<and>
    build_inclusion_proof c registry (me_id e) = Inr prf \<and>
    verify_inclusion_proof c prf (ms_root s) (Some (int (length entries))) =
      Inr \<lparr>ic_id = me_id e, ic_index = int i, ic_size = int (length entries), ic_root = ms_root s\<rparr>"
proof -
  from build_registry_Inr [OF assms(2)] obtain es where es: "normalize_entries 0 entries = Inr es" "distinct (map me_id es)"
    "registry = registry_json c es previous" "previous = JNull \<or> validate_checkpoint previous = Inr ()" by blast
  have n: "length entries = length es" and e: "normalize_entry (entries ! i) (int i) = Inr (es ! i)"
    using es(1) assms(3) by (simp_all add: normalize_entries_Inr)
  let ?level = "map (leaf_hash c) (map entry_json es)"
  let ?s = "\<lparr>ms_size = int (length es), ms_root = merkle_root c (map entry_json es), ms_sha = registry_sha256 c registry\<rparr>"
  have v: "verify_registry c registry = Inr ?s" unfolding es(3) by (rule built_verifies [OF es(1,2,4)])
  have i: "i < length ?level" and ne: "map entry_json es \<noteq> []" "es \<noteq> []" using assms(3) n by auto
  have "list_all is_digest (merkle_siblings c i ?level)"
    using merkle_siblings_nodes [OF i, of c] tree_node_digest [OF assms(1)] by (auto simp: list_all_iff simp del: map_map)
  moreover have "climb c (length es) i (leaf_hash c (entry_json (es ! i))) (merkle_siblings c i ?level) = Inr (merkle_root c (map entry_json es))"
    using merkle_siblings_climb [OF i, of c] assms(3) n ne by (simp add: merkle_root_def del: map_map)
  moreover have "normalize_entry (entry_json (es ! i)) (int i) = Inr (es ! i)" by (rule normalize_entry_again [OF e])
  ultimately have "verify_inclusion_proof c (JObj [(''entry'', entry_json (es ! i)), (''leaf_index'', JInt (int i)),
      (''merkle_root'', JStr (ms_root ?s)), (''schema_version'', JStr proof_schema),
      (''siblings'', JArr (map JStr (merkle_siblings c i ?level))), (''tree_size'', JInt (ms_size ?s))]) (ms_root ?s) (Some (int (length entries))) =
      Inr \<lparr>ic_id = me_id (es ! i), ic_index = int i, ic_size = int (length entries), ic_root = ms_root ?s\<rparr>"
    using assms(3) n ne merkle_root_digest [OF assms(1), of "map entry_json es"]
    by (simp add: verify_inclusion_proof_def json_get_Cons insert_commute list_all_iff valid_hash_def comp_def del: map_map)
  with v e build_inclusion_proof_built [OF v registry_entries_built [of c es previous, folded es(3)] es(2)] assms(3) n
  show ?thesis by (intro exI [of _ ?s] exI [of _ "es ! i"]) auto
qed


section \<open>The root determines the entries\<close>

lemma duplicate_last_ambiguous: "merkle_top c [x, y, z] = merkle_top c [x, y, z, z]"
  by (simp add: merkle_top.simps [of c "[x, y, z]"] merkle_top.simps [of c "[x, y, z, z]"] level_up_def pad_level_def)

lemma own_climb:
  fixes c :: crypto and es :: "merkle_entry list"
  assumes "i < length es"
  defines "level \<equiv> map (leaf_hash c) (map entry_json es)"
  shows "climb c (length es) i (leaf_hash c (entry_json (es ! i))) (merkle_siblings c i level) = Inr (merkle_root c (map entry_json es))"
    and "insert (leaf_text (entry_json (es ! i))) ((\<lambda>(l, r). node_text l r) `
      set (climb_pairs c (length es) i (leaf_hash c (entry_json (es ! i))) (merkle_siblings c i level))) \<subseteq> registry_texts c es"
    and "sha_digests c \<Longrightarrow> list_all is_digest (merkle_siblings c i level)"
proof -
  have i: "i < length level" "level ! i = leaf_hash c (entry_json (es ! i))" "length level = length es" using assms by simp_all
  show "climb c (length es) i (leaf_hash c (entry_json (es ! i))) (merkle_siblings c i level) = Inr (merkle_root c (map entry_json es))"
    using merkle_siblings_climb [OF i(1), of c] assms(1) unfolding i(2,3) by (auto simp: merkle_root_def level_def simp del: map_map)
  show "insert (leaf_text (entry_json (es ! i))) ((\<lambda>(l, r). node_text l r) `
      set (climb_pairs c (length es) i (leaf_hash c (entry_json (es ! i))) (merkle_siblings c i level))) \<subseteq> registry_texts c es"
    using merkle_siblings_pairs [OF i(1), of c] assms(1) unfolding i(2,3) by (auto simp: registry_texts_def tree_texts_def level_def simp del: map_map)
  show "list_all is_digest (merkle_siblings c i level)" if "sha_digests c"
    using merkle_siblings_nodes [OF i(1), of c] tree_node_digest [OF that] by (auto simp: list_all_iff level_def simp del: map_map)
qed

lemma same_root_prefix:
  assumes "sha_digests c" and "verify_registry c r = Inr s" and "verify_registry c r' = Inr s'" and "ms_root s = ms_root s'"
    and "inj_on (cr_sha256 c) (registry_texts c (snapshot_entries r) \<union> registry_texts c (snapshot_entries r'))"
    and "i < length (snapshot_entries r)"
  shows "i < length (snapshot_entries r') \<and> snapshot_entries r' ! i = snapshot_entries r ! i"
proof -
  let ?es = "snapshot_entries r"
  have index: "me_index (?es ! i) = int i" by (rule snapshot_position [OF assms(2,6)])
  note own = own_climb [OF assms(6), of c]
  have root: "merkle_root c (map entry_json ?es) = merkle_root c (map entry_json (snapshot_entries r'))"
    using verify_registry_Inr(4) [OF assms(2)] verify_registry_Inr(4) [OF assms(3)] assms(4) by simp
  have "?es ! i \<in> set (snapshot_entries r')"
  proof (rule climb_into_registry [OF assms(1) _ own(3) [OF assms(1)]])
    show "climb c (length ?es) (nat (me_index (?es ! i))) (leaf_hash c (entry_json (?es ! i)))
        (merkle_siblings c i (map (leaf_hash c) (map entry_json ?es))) = Inr (merkle_root c (map entry_json (snapshot_entries r')))"
      using own(1) unfolding index root by simp
    show "inj_on (cr_sha256 c) (registry_texts c (snapshot_entries r') \<union>
        apex_texts c (length ?es) (?es ! i) (merkle_siblings c i (map (leaf_hash c) (map entry_json ?es))))"
      by (rule inj_on_subset [OF assms(5)]) (use own(2) in \<open>auto simp: index simp del: map_map\<close>)
  qed
  from snapshot_index [OF assms(3) this] show ?thesis by (simp add: index)
qed

text \<open>
  The root determines the entries. Two valid snapshots with the same root list the same
  entries in the same order. The tree alone does not promise this: the levels \<open>[a, b, c]\<close> and
  \<open>[a, b, c, c]\<close> have one root. It holds because the index is part of every leaf and leaves
  and nodes are hashed in separate domains.
\<close>

theorem root_determines_entries:
  assumes "sha_digests c" and "verify_registry c r = Inr s" and "verify_registry c r' = Inr s'" and "ms_root s = ms_root s'"
    and "inj_on (cr_sha256 c) (registry_texts c (snapshot_entries r) \<union> registry_texts c (snapshot_entries r'))"
  shows "snapshot_entries r = snapshot_entries r'"
proof -
  have "inj_on (cr_sha256 c) (registry_texts c (snapshot_entries r') \<union> registry_texts c (snapshot_entries r))"
    using assms(5) by (simp add: Un_commute)
  note there = same_root_prefix [OF assms] and back_again = same_root_prefix [OF assms(1,3,2) assms(4) [symmetric] this]
  have "length (snapshot_entries r) = length (snapshot_entries r')" using there back_again by (meson linorder_neqE_nat order_less_irrefl)
  with there show ?thesis by (intro nth_equalityI) auto
qed


section \<open>The chain of snapshots\<close>

lemma py_eq_objects:
  assumes "json_wf (JObj a)" and "json_wf (JObj b)" and "py_eq (JObj a) (JObj b)"
  shows "py_eq (json_get a k) (json_get b k)"
proof -
  have "map (\<lambda>(k, v). (k, py_key v)) a = map (\<lambda>(k, v). (k, py_key v)) b"
    using assms by (simp add: py_eq_def py_key_JObj del: py_key.simps json_wf.simps)
  then have "map_of (map (\<lambda>(k, v). (k, py_key v)) a) k = map_of (map (\<lambda>(k, v). (k, py_key v)) b) k" by simp
  then have "map_option py_key (map_of a k) = map_option py_key (map_of b k)" by (simp add: map_of_map)
  then show ?thesis by (auto simp: json_get_def py_eq_def split: option.splits)
qed

lemma py_eq_text: "py_eq (JStr s) v \<longleftrightarrow> v = JStr s" "py_eq v (JStr s) \<longleftrightarrow> v = JStr s"
  by (cases v; auto simp: py_eq_def split: if_splits)+

lemma py_eq_object_left: "py_eq (JObj a) v \<Longrightarrow> \<exists>b. v = JObj b"
  by (cases v) (auto simp: py_eq_def split: if_splits)

text \<open>An accepted entry is determined by the texts of its fields.\<close>

lemma normalize_entry_fields:
  assumes "normalize_entry (JObj x) n = Inr e"
  shows "e = \<lparr>me_index = n, me_id = text_of (json_get x ''attestation_id''), me_sha = text_of (json_get x ''attestation_sha256''),
      me_case = text_of (json_get x ''case_digest''), me_verdict = text_of (json_get x ''verdict''),
      me_issued = text_of (json_get x ''issued_at''), me_key = text_of (json_get x ''key_id'')\<rparr>"
    and "\<forall>k \<in> entry_metadata_fields. is_text (json_get x k)"
proof -
  have valid: "is_text v" if "valid_hash v" for v using that by (cases v) (simp_all add: valid_hash_def)
  from assms show "e = \<lparr>me_index = n, me_id = text_of (json_get x ''attestation_id''), me_sha = text_of (json_get x ''attestation_sha256''),
      me_case = text_of (json_get x ''case_digest''), me_verdict = text_of (json_get x ''verdict''),
      me_issued = text_of (json_get x ''issued_at''), me_key = text_of (json_get x ''key_id'')\<rparr>"
    by (simp add: normalize_entry_def split: if_splits)
  from assms have "valid_hash (json_get x ''attestation_id'')" "valid_hash (json_get x ''attestation_sha256'')"
    "valid_hash (json_get x ''case_digest'')" "json_get x ''verdict'' \<in> JStr ` set attestation_verdicts" "is_text (json_get x ''issued_at'')"
    "is_text (json_get x ''key_id'')" by (simp_all add: normalize_entry_def split: if_splits)
  then show "\<forall>k \<in> entry_metadata_fields. is_text (json_get x k)" using valid by (auto simp: entry_metadata_fields_def)
qed

lemma py_eq_texts: "py_eq v w \<Longrightarrow> is_text v \<Longrightarrow> v = w"
  by (cases v) (simp_all add: py_eq_text)

lemma py_eq_entries:
  assumes "py_eq x y" and "json_wf x" and "json_wf y" and "normalize_entry x n = Inr e" and "normalize_entry y n = Inr e'"
  shows "e = e'"
proof -
  obtain a where x: "x = JObj a" using assms(4) by (cases x) (simp_all add: normalize_entry_def)
  from py_eq_object_left [of a y] assms(1) obtain b where y: "y = JObj b" by (auto simp: x)
  have "json_get a k = json_get b k" if "k \<in> entry_metadata_fields" for k
    using py_eq_texts [OF py_eq_objects] assms normalize_entry_fields(2) that unfolding x y by blast
  moreover note normalize_entry_fields(1) [OF assms(4) [unfolded x]] normalize_entry_fields(1) [OF assms(5) [unfolded y]]
  ultimately show ?thesis by (simp add: entry_metadata_fields_def)
qed

lemma py_eq_lists: "py_eq (JArr xs) (JArr ys) \<longleftrightarrow> list_all2 py_eq xs ys"
  by (simp add: py_eq_def list_all2_conv_all_nth list_eq_iff_nth_eq) (auto simp: py_eq_def)

definition chained :: "crypto \<Rightarrow> json \<Rightarrow> json \<Rightarrow> bool" where
  "chained c old new = (case verify_registry_chain c new old of Inr _ \<Rightarrow> True | Inl _ \<Rightarrow> False)"

lemma json_wf_get: "json_wf (JObj kvs) \<Longrightarrow> json_wf (json_get kvs k)"
  by (auto simp: json_get_def list_all_iff split: option.split dest!: map_of_SomeD)

lemma registry_entries_wf:
  assumes "json_wf registry" and "x \<in> set (registry_entries registry)"
  shows "json_wf x"
proof -
  obtain es where es: "json_get (dict_items registry) ''entries'' = JArr es" "x \<in> set es"
    using assms(2) by (cases "json_get (dict_items registry) ''entries''") (auto simp: registry_entries_def)
  then obtain r where "registry = JObj r" by (cases registry) (auto simp: json_get_def)
  with assms(1) es have "json_wf (JArr es)" using json_wf_get [of r "''entries''"] by simp
  with es(2) show ?thesis by (simp add: list_all_iff)
qed

lemma chained_Inr:
  assumes "chained c old new"
  obtains s s' where "verify_registry c new = Inr s" and "verify_registry c old = Inr s'"
    and "py_eq (json_get (dict_items new) ''previous_checkpoint'') (checkpoint_json s')" and "ms_size s' < ms_size s"
    and "list_all2 py_eq (take (nat (ms_size s')) (registry_entries new)) (registry_entries old)"
  using assms
  by (auto simp: chained_def verify_registry_chain_def checkpoint_for_def bindR_Inr_iff py_eq_lists not_le split: sum.splits if_splits)

lemma chained_prefix:
  assumes "chained c old new" and "json_wf old" and "json_wf new"
  shows "strict_prefix (snapshot_entries old) (snapshot_entries new)"
proof -
  from chained_Inr [OF assms(1)] obtain s s' where v: "verify_registry c new = Inr s" "verify_registry c old = Inr s'"
    and less: "ms_size s' < ms_size s"
    and eq: "list_all2 py_eq (take (nat (ms_size s')) (registry_entries new)) (registry_entries old)" by blast
  note new = verify_registry_Inr [OF v(1)] and old = verify_registry_Inr [OF v(2)]
  have n: "length (snapshot_entries old) < length (snapshot_entries new)" using less new(3) old(3) by simp
  have "snapshot_entries new ! i = snapshot_entries old ! i" if i: "i < length (snapshot_entries old)" for i
  proof (rule py_eq_entries)
    show "py_eq (registry_entries new ! i) (registry_entries old ! i)"
      using eq i old(3,6) new(6) n by (auto simp: list_all2_conv_all_nth)
    show "json_wf (registry_entries new ! i)" "json_wf (registry_entries old ! i)"
      using registry_entries_wf assms(2,3) i n old(6) new(6) by (metis nth_mem order_less_trans)+
    show "normalize_entry (registry_entries new ! i) (int i) = Inr (snapshot_entries new ! i)"
      "normalize_entry (registry_entries old ! i) (int i) = Inr (snapshot_entries old ! i)"
      using new(1,6) old(1,6) i n by (simp_all add: normalize_entries_Inr)
  qed
  then have "take (length (snapshot_entries old)) (snapshot_entries new) = snapshot_entries old"
    using n by (intro nth_equalityI) simp_all
  then show ?thesis using n by (metis take_is_prefix strict_prefixI nat_neq_iff)
qed


text \<open>
  Verified chains only append. In a sequence of snapshots, oldest first, in which each one
  verifies as the successor of the one before it, every snapshot lists all entries of every
  earlier one at the same places, followed by at least one more.
\<close>

theorem chain_appends:
  assumes "successively (chained c) history" and "\<forall>r \<in> set history. json_wf r" and "i < j" and "j < length history"
  shows "strict_prefix (snapshot_entries (history ! i)) (snapshot_entries (history ! j))"
proof -
  have "sorted_wrt (\<lambda>old new. strict_prefix (snapshot_entries old) (snapshot_entries new)) history"
    using assms(1,2)
  proof (induction history rule: induct_list012)
    case (3 old new rest)
    then have "strict_prefix (snapshot_entries old) (snapshot_entries new)" by (intro chained_prefix) auto
    with 3 show ?case by (auto intro: prefix_order.less_trans)
  qed simp_all
  from sorted_wrt_nth_less [OF this assms(3,4)] show ?thesis .
qed

lemma registry_of_text:
  assumes "registry_sha256 c r = registry_sha256 c r'" and "inj_on (cr_sha256 c) T" and "canonical_text r \<in> T" and "canonical_text r' \<in> T"
    and "json_wf r" and "json_wf r'"
  shows "r = r'"
proof -
  have "canonical_text r = canonical_text r'" using assms(1-4) by (simp add: registry_sha256_def inj_on_eq_iff)
  then show ?thesis unfolding canonical_text_def by (rule dumps_inj [OF assms(5,6)])
qed

lemma checkpoint_json_sha: "py_eq (checkpoint_json s) (checkpoint_json s') \<Longrightarrow> ms_sha s = ms_sha s'"
  using py_eq_objects [of "dict_items (checkpoint_json s)" "dict_items (checkpoint_json s')" "''registry_sha256''"]
  by (simp add: checkpoint_json_def json_get_Cons py_eq_text)

lemma chained_past:
  assumes "chained c old new" and "chained c old' new" and "inj_on (cr_sha256 c) T" and "canonical_text old \<in> T" and "canonical_text old' \<in> T"
    and "json_wf old" and "json_wf old'"
  shows "old = old'"
proof -
  from chained_Inr [OF assms(1)] obtain s where s: "verify_registry c old = Inr s"
    "py_eq (json_get (dict_items new) ''previous_checkpoint'') (checkpoint_json s)" by metis
  from chained_Inr [OF assms(2)] obtain s' where s': "verify_registry c old' = Inr s'"
    "py_eq (json_get (dict_items new) ''previous_checkpoint'') (checkpoint_json s')" by metis
  from checkpoint_json_sha [OF py_eq_trans [OF s(2) s'(2)]] have "registry_sha256 c old = registry_sha256 c old'"
    using verify_registry_Inr(5) s(1) s'(1) by metis
  then show ?thesis by (rule registry_of_text [OF _ assms(3-7)])
qed

text \<open>
  The newest snapshot pins its whole past. If two sequences of snapshots verify link by
  link and end in the same snapshot, then one of them is a tail of the other: there is no
  second past to present, only a longer or shorter stretch of the same one.
\<close>

theorem history_pinned:
  assumes "successively (chained c) (past @ [r])" and "successively (chained c) (past' @ [r])"
    and "\<forall>x \<in> set (past @ past'). json_wf x" and "inj_on (cr_sha256 c) (canonical_text ` set (past @ past'))"
  shows "suffix past past' \<or> suffix past' past"
  using assms
proof (induction past arbitrary: past' r rule: rev_induct)
  case (snoc old past)
  show ?case
  proof (cases past' rule: rev_cases)
    case (snoc older old')
    have "old = old'"
      using snoc.prems snoc by (intro chained_past [of c old r old' "canonical_text ` set ((past @ [old]) @ past')"]) (auto simp: successively_append_iff)
    moreover have "suffix past older \<or> suffix older past"
    proof (rule snoc.IH)
      show "inj_on (cr_sha256 c) (canonical_text ` set (past @ older))"
        by (rule inj_on_subset [OF snoc.prems(4)]) (auto simp: snoc)
    qed (use snoc.prems snoc \<open>old = old'\<close> in \<open>auto simp: successively_append_iff\<close>)
    ultimately show ?thesis by (auto simp: snoc)
  qed simp
qed simp

section \<open>Signed checkpoints\<close>

lemma validate_summary_Inr: "validate_summary summary = Inr x \<Longrightarrow> x = dict_items summary"
  by (cases summary) (auto simp: validate_summary_def bindR_Inr_iff split: if_splits)

lemma checkpoint_of_registry:
  assumes "verify_signed_checkpoint c k trusted (Some r) = Inr x"
  shows "json_get (dict_items (json_get (dict_items k) ''registry'')) ''registry_sha256'' = JStr (registry_sha256 c r)"
proof -
  obtain kvs where k: "k = JObj kvs" using assms by (cases k) (auto simp: verify_signed_checkpoint_def)
  have "\<exists>summary s. validate_summary (json_get kvs ''registry'') = Inr summary \<and> verify_registry c r = Inr s \<and> summary_matches summary s r"
    using assms by (auto simp: verify_signed_checkpoint_def k bindR_Inr_iff Let_def ensure_def split: if_splits option.splits)
  then show ?thesis using validate_summary_Inr verify_registry_Inr(5) by (fastforce simp: k summary_matches_def)
qed


lemma sign_merkle_Inr:
  assumes "sign_merkle_checkpoint c summary key key_id organization issued_at = Inr k"
  defines "unsigned \<equiv> checkpoint_fields c summary key key_id organization issued_at"
  shows "validate_summary summary = Inr (dict_items summary)" and "\<not> blank key_id" and "\<not> blank organization"
    and "issued_at \<noteq> []" and "cr_parse_time c (replace_z issued_at) \<noteq> Unreadable"
    and "k = JObj ((''checkpoint_id'', JStr (cr_sha256 c (canonical_text (JObj unsigned)))) # take 3 unsigned @
      (''signature'', JObj [(''algorithm'', JStr ''Ed25519''), (''value'', JStr (cr_b64encode c (cr_sign c key
         (canonical_text (JObj ((''checkpoint_id'', JStr (cr_sha256 c (canonical_text (JObj unsigned)))) # unsigned))))))]) # drop 3 unsigned)"
  using assms validate_summary_Inr by (auto simp: sign_merkle_checkpoint_def Let_def bindR_Inr_iff split: if_splits)

lemma not_blank_text: "\<not> blank s \<Longrightarrow> s \<noteq> []"
  by (auto simp: blank_def)

lemma signed_checkpoint_verifies:
  assumes "sign_merkle_checkpoint c (registry_summary s previous) key key_id organization issued_at = Inr k"
    and "verify_registry c r = Inr s" and "json_get (dict_items r) ''previous_checkpoint'' = previous"
    and "trusted key_id = Some (RawKey (cr_public c key))" and "\<And>x. cr_b64decode c (cr_b64encode c x) = Some x"
    and "cr_public_ok c (cr_public c key)" and "length (cr_public c key) = 32"
    and "\<And>m. cr_verify c (cr_public c key) (cr_sign c key m) m \<and> length (cr_sign c key m) = 64"
  shows "\<exists>cid. verify_signed_checkpoint c k trusted (Some r) = Inr (cid, key_id)"
proof -
  note sg = sign_merkle_Inr [OF assms(1)]
  have texts: "key_id \<noteq> []" "organization \<noteq> []" using sg(2,3) by (auto dest: not_blank_text)
  have m: "summary_matches (dict_items (registry_summary s previous)) s r"
    by (simp add: summary_matches_def registry_summary_def json_get_Cons assms(3))
  show ?thesis unfolding sg(6)
    using sg(1,4,5) texts assms(2,4-8) m
    by (simp add: verify_signed_checkpoint_def checkpoint_fields_def merkle_checkpoint_schema_def json_get_Cons insert_commute Let_def
        checkpoint_unsigned_def signed_part_def decode_field_def checkpoint_key_def item_def ensure_def del: dumps.simps)
qed

end
