(* ===== verification/Spec2Isabelle.thy ===== *)
theory Spec2Isabelle
  imports AttemptRuns RecoveryRuns RecoveryEvidence RecoveryTrustRuns AuthorityRuns Capability GrantStore ResearchCase
    TaskOutcomes CaseRoundRuns TaskGraphRuns ExecutionGateRuns CoordinatorRuns PendingLive MerkleRuns
begin

text \<open>
  AegisForge is an orchestrator for security research agents. This development models the
  part of it that decides what may happen and remembers what did: the task queue, the
  authority of agents, the boundary at which an authorized action is executed, the recovery
  of executions whose outcome is unknown, and the registry that accepts signed laboratory
  receipts once. File names below are relative to \<^verbatim>\<open>src/\<close>.

  How the parts work together. The master (\<^verbatim>\<open>orchestrator/master.py\<close>) opens the rounds of a
  registered research case and puts tasks into the SQLite queue (\<^verbatim>\<open>shared/queue.py\<close>), from
  which workers claim them by role. An agent that wants to act signs an intent; from the
  static policy, the trust assessment and the dynamic authority state a capability grant is
  issued and signed. The execution gate checks scope, signatures, authority and nonce,
  consumes the grant, opens an attempt, runs the executor once and stores its receipt. An
  attempt that was left running becomes a recovery review; the coordinator asks an outcome
  verifier, records evidence in a hash chain and may create exactly one retry with fresh
  authority. Independent of this, signed receipts of laboratory runs are bound to an
  experiment dossier and registered against replay, with an external anchor as the
  authority on the order.

  Theories and sources.
  \<^item> Shared: \<open>Prelude\<close> (errors as values, operations, tables as lists of rows, runs),
    \<open>Json\<close> (the JSON values and the canonical text of \<^verbatim>\<open>json.dumps\<close>, which is injective),
    \<open>IsoTime\<close> (\<^verbatim>\<open>isoformat\<close> texts order as their instants), \<open>Lifecycle\<close> (the contract of a
    status column as a locale, interpreted for attempts, reviews, retries, grants, attestors
    and disclosure rounds), \<open>HashChain\<close> (the contract of a hash chain as a locale, interpreted
    for recovery evidence, attestor histories and the replay journal), \<open>Hoare\<close> (weakest
    preconditions of operations), \<open>Processes\<close> (handlers cut into atomic steps and a
    rely-guarantee locale for their interleavings).
  \<^item> Executions: \<open>Attempts\<close>, \<open>AttemptRuns\<close> (\<^verbatim>\<open>shared/execution_attempt.py\<close>); \<open>Recovery\<close>,
    \<open>RecoveryRuns\<close> (\<^verbatim>\<open>shared/execution_recovery.py\<close>); \<open>RecoveryEvidence\<close>
    (\<^verbatim>\<open>shared/recovery_evidence.py\<close>); \<open>RecoveryTrust\<close>, \<open>RecoveryTrustRuns\<close>
    (\<^verbatim>\<open>shared/recovery_trust.py\<close>).
  \<^item> Authority: \<open>Authority\<close>, \<open>AuthorityRuns\<close> (\<^verbatim>\<open>shared/authority_*.py\<close>,
    \<^verbatim>\<open>shared/agent_authority.py\<close>); \<open>Capability\<close> (policy, effective capability, trust
    to authority); \<open>GrantStore\<close> (\<^verbatim>\<open>shared/capability_grant_store.py\<close>); \<open>Outcomes\<close>
    (\<^verbatim>\<open>shared/outcome_contract.py\<close>); \<open>Signing\<close> (identities and signed intents); \<open>Grants\<close>
    (\<^verbatim>\<open>shared/capability_grant.py\<close>, \<^verbatim>\<open>shared/capability_signing.py\<close>).
  \<^item> Execution: \<open>ExecutionGate\<close>, \<open>ExecutionGateRuns\<close> (\<^verbatim>\<open>shared/execution_gate.py\<close>);
    \<open>Coordinator\<close>, \<open>CoordinatorRuns\<close> (\<^verbatim>\<open>shared/execution_recovery_coordinator.py\<close>,
    \<^verbatim>\<open>shared/outcome_verifier_registry.py\<close>, \<^verbatim>\<open>shared/execution_retry_authorizer.py\<close>).
  \<^item> Work: \<open>Tasks\<close>, \<open>TaskRuns\<close>, \<open>TaskLife\<close>, \<open>TaskOutcomes\<close>, \<open>Disclosure\<close>, \<open>DisclosureRuns\<close>
    (\<^verbatim>\<open>shared/queue.py\<close>); \<open>ResearchCase\<close> (\<^verbatim>\<open>shared/research_case.py\<close>,
    \<^verbatim>\<open>shared/scope_gate.py\<close>); \<open>CaseRounds\<close>, \<open>CaseRoundRuns\<close> (\<^verbatim>\<open>shared/case_rounds.py\<close>);
    \<open>CasePipeline\<close>, \<open>CasePipelineRuns\<close> (the bootstrap step of \<^verbatim>\<open>orchestrator/master.py\<close>);
    \<open>TaskGraph\<close>, \<open>TaskGraphRuns\<close> (\<^verbatim>\<open>orchestrator/task_graph.py\<close>).
  \<^item> Receipts: \<open>Dossier\<close>, \<open>DossierRuns\<close> (\<^verbatim>\<open>shared/experiment_dossier.py\<close>,
    \<^verbatim>\<open>shared/lab_execution_receipt.py\<close>, \<^verbatim>\<open>shared/independent_runner_attestation.py\<close>);
    \<open>Replay\<close>, \<open>ReplayRuns\<close> (\<^verbatim>\<open>shared/attestation_replay_registry.py\<close>,
    \<^verbatim>\<open>shared/replay_registry_recovery.py\<close>); \<open>ReplayAnchor\<close>
    (\<^verbatim>\<open>tools/replay_anchor/sqlite_service.py\<close>, \<^verbatim>\<open>shared/http_replay_anchor_store.py\<close>,
    \<^verbatim>\<open>shared/anchored_attestation_replay.py\<close>, \<^verbatim>\<open>shared/replay_registry_checkpoint.py\<close>);
    \<open>PendingReplay\<close>, \<open>AnchorWorld\<close>, \<open>PendingRuns\<close>, \<open>PendingLive\<close>
    (\<^verbatim>\<open>shared/pending_anchored_attestation_replay.py\<close>).
  \<^item> Attestations: \<open>Attestation\<close> (\<^verbatim>\<open>shared/attestation.py\<close>), \<open>Merkle\<close>, \<open>MerkleRuns\<close>
    (\<^verbatim>\<open>shared/attestation_registry.py\<close>).
  In each pair the first theory holds the definitions, the theories named after runs, lives
  or outcomes the invariants and the properties.

  Conventions. A table is the list of its rows in insertion order, a database a record of
  tables; an INSERT that violates a constraint raises and changes nothing. A Python method
  is a function on the database that returns \<open>error + value\<close>; when it works in several
  transactions it is a sequence of commits (\<open>commitS\<close>), so that an exception keeps what was
  committed before it, and operations that first read and later write get the read snapshot
  as a separate argument, so that other processes may run in between: attempts, reviews and
  retry operations, the append and the export of the evidence chain, authority records, the
  requeue of failed tasks. Taken as one uninterrupted step although the code commits or reads
  outside a transaction in between: the recovery of stale tasks, the repair of orphans and
  the compaction of the history of the queue, and each store call inside one call of the
  gate or the coordinator (its append of evidence among them). SHA-256, Ed25519,
  base64 and \<^verbatim>\<open>datetime.fromisoformat\<close> are fields of the record \<open>crypto\<close>, an argument;
  theorems state what they need of it (no collision on the texts that occur; no artifact
  presented in the history at hand is a forgery) as hypotheses, and witnesses instantiate it. JSON objects are kept in key
  order, which is what \<^verbatim>\<open>sort_keys\<close> writes; there are no floats. Instants are microseconds.
  A random identifier is an argument. \<open>wo_hashed\<close> and \<open>wo_past\<close> in the world of the replay
  protocol are no state of the program: the texts hashed so far, for the statement that
  they do not collide, and the earlier contents of the database, which a backup may restore.

  What the lemmas show. Per table: a well-formedness invariant that every operation keeps
  and the edges a status may move along; then what follows for all runs. Executions: one
  active attempt per idempotency key, terminal states and decisions are final, a claim is
  exclusive for its lease, a verdict names its verifier unless None was passed for it, a
  chain of evidence verifies exactly when no append was overtaken, evidence and attestor
  histories are tamper evident. Gate and coordinator: an executor runs at most once per grant and nonce and only
  on current, signed and issued authority; a retry needs a verified reason and happens at
  most once. Authority: dynamic authority only narrows the policy, elevated authority meets
  its thresholds. Queue: no completed task runs again, claims drain the queue in order,
  the retry counter counts the requeues and the budget bounds them up to interrupted calls,
  the first report on a run of a task wins, compaction keeps what is needed; a disclosure
  round closes only when nothing below its root in the parent relation is active. Task graph: accepted exactly when
  acyclic, plans stay in budget and never stall. Receipts: a receipt fixes its dossier, is
  accepted once, and under any interleaving of registrations and recoveries, crashes, lost
  messages and restored backups the anchor keeps one history of which every local journal
  is a prefix; a crashed registration is completed by one recovery. Attestations: an
  accepted inclusion proof shows an entry of the registry at its index, the Merkle root
  determines all entries, verified snapshots only append and pin their past.

  Bounds and fuel. The walk over parents during compaction gets \<open>2 * length + 1\<close> rounds,
  which \<open>protection_terminates\<close> proves enough; the cancellation of doomed tasks and the
  collection of descendants iterate at most once per row; the depth-first visit of the task
  graph terminates by the measure of unvisited nodes (the recursion limit of the
  interpreter is not modelled). The finalization of a pending receipt
  calls itself when another process was faster; its fuel stands for Python's recursion
  limit, results hold for every fuel, and a single recursion level suffices when nothing
  interferes.

  Not modelled. The agents, the worker loop and the rest of the master: HTTP, language
  models, subprocesses and heuristics over text. The planner tables of the queue. Executors
  and verifiers of outcomes are functions on the world, as the gate uses them. Evidence
  ledger, case bundles, proof bundles and their command line verifiers, the reproduction
  runner and its sandbox, the command line tools and the signing service of the attestations: file, ZIP,
  process and HTTP handling around validations of the kind modelled here. The separate
  programs \<^verbatim>\<open>scam_intelligence\<close> and \<^verbatim>\<open>model_research\<close>: remote data and floating point scores.
  Errors of SQLite itself (a locked or unreadable file) and the schema migrations.
\<close>

end
